(* ===== verification/Prelude.thy ===== *)
theory Prelude
  imports Main "HOL-Library.Word"
begin

text \<open>
  The vocabulary every component of the development shares.

  \<^item> machine integers (\<open>u8\<close>, \<open>u16\<close>, \<open>u32\<close>) and byte strings; a \<open>usize\<close> is a \<^typ>\<open>nat\<close>,
    since every \<open>usize\<close> of the modelled code is the length of a buffer held in memory;
  \<^item> the result of fallible code: \<open>Inr\<close> is a normal return, \<open>Inl (Raised e)\<close> an \<open>Err(e)\<close> of the
    source, \<open>Inl Panicked\<close> a panic (a failed bounds check or an explicit \<open>panic!\<close>);
  \<^item> the decoder combinators: a decoder is a function on the cursor \<open>&mut Bytes\<close>, which returns a
    value and what is left of the cursor;
  \<^item> the encoder combinators: the code's encoders only append to the \<open>BytesMut\<close> they are given,
    so an encoder is represented by the bytes it appends;
  \<^item> the big-endian reads and writes of the \<open>bytes\<close> crate on byte lists, and the facts on words and
    lists the components use.
\<close>

unbundle bit_operations_syntax

named_theorems wire_simps \<open>what a decoder does on bytes its encoder has written\<close>
named_theorems out_simps \<open>what an encoder appends when its input is in range\<close>
named_theorems safe_intros \<open>decoders that neither panic nor make the cursor grow\<close>
named_theorems consumes_intros \<open>decoders that read at least one byte\<close>

section \<open>Machine integers, bytes, results\<close>

type_synonym u8 = "8 word"
type_synonym u16 = "16 word"
type_synonym u32 = "32 word"
type_synonym bytes = "u8 list"

datatype 'e fault = Raised 'e | Panicked

section \<open>Decoders\<close>

type_synonym ('e, 'a) decoder = "bytes \<Rightarrow> 'e fault + ('a \<times> bytes)"

definition dec_return :: "'a \<Rightarrow> ('e, 'a) decoder" where
  "dec_return x s = Inr (x, s)"

definition dec_raise :: "'e \<Rightarrow> ('e, 'a) decoder" where
  "dec_raise e s = Inl (Raised e)"

definition dec_bind :: "('e, 'a) decoder \<Rightarrow> ('a \<Rightarrow> ('e, 'b) decoder) \<Rightarrow> ('e, 'b) decoder" where
  "dec_bind m f s = (case m s of Inl e \<Rightarrow> Inl e | Inr (x, s') \<Rightarrow> f x s')"

text \<open>The macro \<open>ensure!(cond, e)\<close> of \<open>utils.rs\<close>: an early \<open>return Err(e)\<close> when the condition fails.\<close>

definition ensure :: "bool \<Rightarrow> 'e \<Rightarrow> ('e, unit) decoder" where
  "ensure c e s = (if c then Inr ((), s) else Inl (Raised e))"

text \<open>A condition on the cursor itself, such as \<open>src.remaining() >= n\<close>.\<close>

definition dec_peek :: "(bytes \<Rightarrow> 'a) \<Rightarrow> ('e, 'a) decoder" where
  "dec_peek f s = Inr (f s, s)"

text \<open>\<open>?\<close> applied to a value that is already a result (\<open>x.try_into()?\<close>).\<close>

definition dec_lift :: "'e + 'a \<Rightarrow> ('e, 'a) decoder" where
  "dec_lift r s = (case r of Inl e \<Rightarrow> Inl (Raised e) | Inr x \<Rightarrow> Inr (x, s))"

text \<open>
  \<open>Buf\<close>: \<open>get_u8\<close>, \<open>get_u16\<close>, \<open>get_u32\<close> read big-endian and panic when the cursor is too short,
  \<open>advance\<close> and \<open>split_to\<close> panic past the end.
\<close>

definition from_be16 :: "u8 \<Rightarrow> u8 \<Rightarrow> u16" where
  "from_be16 a b = push_bit 8 (ucast a) OR ucast b"

definition from_be32 :: "u8 \<Rightarrow> u8 \<Rightarrow> u8 \<Rightarrow> u8 \<Rightarrow> u32" where
  "from_be32 a b c d =
     push_bit 24 (ucast a) OR push_bit 16 (ucast b) OR push_bit 8 (ucast c) OR ucast d"

definition put_u16 :: "u16 \<Rightarrow> bytes" where
  "put_u16 w = [ucast (drop_bit 8 w), ucast w]"

definition put_u32 :: "u32 \<Rightarrow> bytes" where
  "put_u32 w = [ucast (drop_bit 24 w), ucast (drop_bit 16 w), ucast (drop_bit 8 w), ucast w]"

fun get_u8 :: "('e, u8) decoder" where
  "get_u8 [] = Inl Panicked"
| "get_u8 (b # s) = Inr (b, s)"

fun get_u16 :: "('e, u16) decoder" where
  "get_u16 (a # b # s) = Inr (from_be16 a b, s)"
| "get_u16 s = Inl Panicked"

fun get_u32 :: "('e, u32) decoder" where
  "get_u32 (a # b # c # d # s) = Inr (from_be32 a b c d, s)"
| "get_u32 s = Inl Panicked"

definition split_to :: "nat \<Rightarrow> ('e, bytes) decoder" where
  "split_to n s = (if n \<le> length s then Inr (take n s, drop n s) else Inl Panicked)"

definition advance :: "nat \<Rightarrow> ('e, unit) decoder" where
  "advance n s = (if n \<le> length s then Inr ((), drop n s) else Inl Panicked)"

text \<open>The slice \<open>&src.as_ref()[0..n]\<close>, which panics when the cursor is shorter than \<open>n\<close>.\<close>

definition slice_prefix :: "nat \<Rightarrow> ('e, bytes) decoder" where
  "slice_prefix n s = (if n \<le> length s then Inr (take n s, s) else Inl Panicked)"

text \<open>\<open>ensure!(src.remaining() >= n, e)\<close>.\<close>

definition ensure_remaining :: "nat \<Rightarrow> 'e \<Rightarrow> ('e, unit) decoder" where
  "ensure_remaining n e s = (if n \<le> length s then Inr ((), s) else Inl (Raised e))"

text \<open>\<open>ensure!(!src.has_remaining(), e)\<close>.\<close>

definition ensure_end :: "'e \<Rightarrow> ('e, unit) decoder" where
  "ensure_end e s = (if s = [] then Inr ((), s) else Inl (Raised e))"

text \<open>A decoder run on a buffer of its own: what is left of the buffer is dropped.\<close>

definition dec_run :: "('e, 'a) decoder \<Rightarrow> bytes \<Rightarrow> 'e fault + 'a" where
  "dec_run d s = map_sum id fst (d s)"

text \<open>\<open>if src.has_remaining() { a } else { b }\<close>.\<close>

definition if_remaining :: "('e, 'a) decoder \<Rightarrow> ('e, 'a) decoder \<Rightarrow> ('e, 'a) decoder" where
  "if_remaining a b s = (if s \<noteq> [] then a s else b s)"

text \<open>
  \<open>while src.has_remaining() { .. }\<close>: the body reads from the cursor and updates the locals \<open>acc\<close>.
  A cursor never grows and every body of the source reads at least one byte, so the test on the
  lengths always succeeds (\<open>dec_while_unfold\<close>); it is there for the termination of the loop.
\<close>

function dec_while :: "('acc \<Rightarrow> ('e, 'acc) decoder) \<Rightarrow> 'acc \<Rightarrow> ('e, 'acc) decoder" where
  "dec_while body acc s =
     (if s = [] then Inr (acc, [])
      else case body acc s of
             Inl e \<Rightarrow> Inl e
           | Inr (acc', s') \<Rightarrow> if length s' < length s then dec_while body acc' s' else Inl Panicked)"
  by pat_completeness auto
termination
  by (relation "measure (\<lambda>(body, acc, s). length s)") auto

declare dec_while.simps [simp del]

text \<open>A loop over all remaining bytes, \<open>for code in src.as_ref().iter()\<close>, with \<open>?\<close> in its body.\<close>

fun try_map :: "('a \<Rightarrow> 'e + 'b) \<Rightarrow> 'a list \<Rightarrow> 'e + 'b list" where
  "try_map f [] = Inr []"
| "try_map f (x # xs) =
     (case f x of Inl e \<Rightarrow> Inl e
      | Inr y \<Rightarrow> (case try_map f xs of Inl e \<Rightarrow> Inl e | Inr ys \<Rightarrow> Inr (y # ys)))"

text \<open>
  A decoder is safe from \<open>n\<close> when it does not panic on a cursor of at least \<open>n\<close> bytes; it consumes
  when it reads at least one byte whenever it succeeds. The rules for both follow the shape of the
  decoders, so that the safety of a decoder is shown by applying them: the bounds check comes first,
  then the unchecked reads it allows.
\<close>

definition safe_from :: "nat \<Rightarrow> ('e, 'a) decoder \<Rightarrow> bool" where
  "safe_from n d \<longleftrightarrow> (\<forall>s. n \<le> length s \<longrightarrow> d s \<noteq> Inl Panicked)"

definition nongrow :: "('e, 'a) decoder \<Rightarrow> bool" where
  "nongrow d \<longleftrightarrow> (\<forall>s x s'. d s = Inr (x, s') \<longrightarrow> length s' \<le> length s)"

definition consumes :: "('e, 'a) decoder \<Rightarrow> bool" where
  "consumes d \<longleftrightarrow> (\<forall>s x s'. d s = Inr (x, s') \<longrightarrow> length s' < length s)"

section \<open>Encoders\<close>

type_synonym 'e encoded = "'e fault + bytes"

text \<open>Sequencing \<open>a?; b\<close>: the appended bytes are joined, the first failure is returned.\<close>

definition enc_seq :: "'e encoded \<Rightarrow> 'e encoded \<Rightarrow> 'e encoded" where
  "enc_seq a b =
     (case a of Inl e \<Rightarrow> Inl e
      | Inr x \<Rightarrow> (case b of Inl e \<Rightarrow> Inl e | Inr y \<Rightarrow> Inr (x @ y)))"

text \<open>Sequencing where the rest depends on how much has been appended (\<open>buf.len() - start_len\<close>).\<close>

definition enc_then :: "'e encoded \<Rightarrow> (nat \<Rightarrow> 'e encoded) \<Rightarrow> 'e encoded" where
  "enc_then a f = (case a of Inl e \<Rightarrow> Inl e | Inr x \<Rightarrow> enc_seq (Inr x) (f (length x)))"

definition put :: "bytes \<Rightarrow> 'e encoded" where
  "put bs = Inr bs"

fun enc_all :: "'e encoded list \<Rightarrow> 'e encoded" where
  "enc_all [] = Inr []"
| "enc_all (x # xs) = enc_seq x (enc_all xs)"

section \<open>Facts\<close>

declare put_def [simp]

lemma enc_seq_simps [simp]:
  "enc_seq (Inr x) (Inr y) = Inr (x @ y)"
  "enc_seq (Inl e) b = Inl e"
  "enc_seq (Inr x) (Inl e) = Inl e"
  by (simp_all add: enc_seq_def)

lemma enc_then_simps [simp]:
  "enc_then (Inr x) f = enc_seq (Inr x) (f (length x))"
  "enc_then (Inl e) f = Inl e"
  by (simp_all add: enc_then_def)

lemma enc_all_map_Inr [simp]:
  "(\<And>x. x \<in> set xs \<Longrightarrow> f x = Inr (g x)) \<Longrightarrow> enc_all (map f xs) = Inr (concat (map g xs))"
  by (induction xs) auto

lemma enc_all_map_InrD:
  "enc_all (map f xs) = Inr bs \<Longrightarrow> x \<in> set xs \<Longrightarrow> \<exists>b. f x = Inr b"
  by (induction xs arbitrary: bs) (auto simp: enc_seq_def split: sum.splits)

lemma dec_simps [simp]:
  "dec_return x s = Inr (x, s)"
  "dec_raise e s = Inl (Raised e)"
  "ensure True e s = Inr ((), s)"
  "ensure False e s = Inl (Raised e)"
  "dec_peek f s = Inr (f s, s)"
  "dec_lift (Inr x) s = Inr (x, s)"
  "dec_lift (Inl e) s = Inl (Raised e)"
  by (simp_all add: dec_return_def dec_raise_def ensure_def dec_peek_def dec_lift_def)

lemma dec_bind_Inr [simp]: "m s = Inr (x, s') \<Longrightarrow> dec_bind m f s = f x s'"
  by (simp add: dec_bind_def)

lemma dec_bind_Inl [simp]: "m s = Inl e \<Longrightarrow> dec_bind m f s = Inl e"
  by (simp add: dec_bind_def)

lemma dec_run_simps [simp]:
  "d s = Inr (x, s') \<Longrightarrow> dec_run d s = Inr x" "d s = Inl e \<Longrightarrow> dec_run d s = Inl e"
  by (simp_all add: dec_run_def)

lemma dec_bind_eq_Inr:
  "dec_bind m f s = Inr (y, t) \<longleftrightarrow> (\<exists>x s'. m s = Inr (x, s') \<and> f x s' = Inr (y, t))"
  by (auto simp: dec_bind_def split: sum.splits)

lemma dec_bind_eq_Inl:
  "dec_bind m f s = Inl e \<longleftrightarrow> m s = Inl e \<or> (\<exists>x s'. m s = Inr (x, s') \<and> f x s' = Inl e)"
  by (auto simp: dec_bind_def split: sum.splits)

lemma split_to_append [simp]: "n = length a \<Longrightarrow> split_to n (a @ r) = Inr (a, r)"
  by (simp add: split_to_def)

lemma split_to_all [simp]: "n = length a \<Longrightarrow> split_to n a = Inr (a, [])"
  by (simp add: split_to_def)

lemma dec_while_Nil [simp]: "dec_while body acc [] = Inr (acc, [])"
  by (simp add: dec_while.simps)

lemma dec_while_step:
  assumes "body acc s = Inr (acc', s')" and "length s' < length s"
  shows "dec_while body acc s = dec_while body acc' s'"
  using assms by (subst dec_while.simps) auto

lemma dec_while_unfold:
  assumes "\<And>acc s acc' s'. body acc s = Inr (acc', s') \<Longrightarrow> length s' < length s"
  shows "dec_while body acc s =
     (if s = [] then Inr (acc, []) else dec_bind (body acc) (dec_while body) s)"
  by (subst dec_while.simps) (auto simp: dec_bind_def dest: assms split: sum.splits)

text \<open>A loop whose body repeats one value reads back a concatenation of values.\<close>

lemma dec_while_concat:
  assumes "\<And>acc x r. x \<in> set xs \<Longrightarrow> body acc (f x @ r) = Inr (upd acc x, r)"
    and "\<And>x. x \<in> set xs \<Longrightarrow> f x \<noteq> []"
  shows "dec_while body acc (concat (map f xs) @ r) = dec_while body (foldl upd acc xs) r"
  using assms
proof (induction xs arbitrary: acc)
  case Nil
  then show ?case by simp
next
  case (Cons x xs)
  have "dec_while body acc (f x @ concat (map f xs) @ r)
      = dec_while body (upd acc x) (concat (map f xs) @ r)"
    using Cons.prems by (intro dec_while_step) auto
  with Cons show ?case by simp
qed

lemma foldl_append_singleton: "foldl (\<lambda>a x. a @ [g x]) acc xs = acc @ map g xs"
  by (induction xs arbitrary: acc) auto

lemma try_map_map [simp]:
  "(\<And>x. x \<in> set xs \<Longrightarrow> f (g x) = Inr x) \<Longrightarrow> try_map f (map g xs) = Inr xs"
  by (induction xs) auto

lemma ensure_remaining_simps [simp]:
  "n \<le> length s \<Longrightarrow> ensure_remaining n e s = Inr ((), s)"
  "length s < n \<Longrightarrow> ensure_remaining n e s = Inl (Raised e)"
  "ensure_end e [] = Inr ((), [])"
  "s \<noteq> [] \<Longrightarrow> ensure_end e s = Inl (Raised e)"
  by (simp_all add: ensure_remaining_def ensure_end_def)

subsection \<open>Big-endian words\<close>

lemma from_be16_put: "from_be16 (ucast (drop_bit 8 w)) (ucast w) = w"
  unfolding from_be16_def by (rule bit_word_eqI) (auto simp: bit_simps)

lemma from_be32_put:
  "from_be32 (ucast (drop_bit 24 w)) (ucast (drop_bit 16 w)) (ucast (drop_bit 8 w)) (ucast w) = w"
  unfolding from_be32_def
  apply (rule bit_word_eqI)
  subgoal for n
    by (cases "n < 8"; cases "n < 16"; cases "n < 24") (auto simp: bit_simps)
  done

lemma length_put [simp]: "length (put_u16 w) = 2" "length (put_u32 v) = 4"
  by (simp_all add: put_u16_def put_u32_def)

lemma put_neq_Nil [simp]: "put_u16 w \<noteq> []" "put_u32 v \<noteq> []"
  by (simp_all add: put_u16_def put_u32_def)

lemma get_put [simp]:
  "get_u16 (put_u16 w @ r) = Inr (w, r)"
  "get_u32 (put_u32 v @ r) = Inr (v, r)"
  by (simp_all add: put_u16_def put_u32_def from_be16_put from_be32_put)

lemma get_put_Nil [simp]:
  "get_u16 (put_u16 w) = Inr (w, [])"
  "get_u32 (put_u32 v) = Inr (v, [])"
  by (simp_all add: put_u16_def put_u32_def from_be16_put from_be32_put)

lemma get_u8_eq: "Suc 0 \<le> length s \<Longrightarrow> get_u8 s = Inr (hd s, tl s)"
  by (cases s) auto

lemma get_u16_eq: "2 \<le> length s \<Longrightarrow> get_u16 s = Inr (from_be16 (s ! 0) (s ! 1), drop 2 s)"
  by (cases s rule: get_u16.cases) auto

lemma get_u32_eq:
  "4 \<le> length s \<Longrightarrow> get_u32 s = Inr (from_be32 (s ! 0) (s ! 1) (s ! 2) (s ! 3), drop 4 s)"
  by (cases s rule: get_u32.cases) auto

subsection \<open>Safety of decoders\<close>

lemma safe_from_mono: "safe_from n d \<Longrightarrow> n \<le> m \<Longrightarrow> safe_from m d"
  by (auto simp: safe_from_def)

lemma safe_fromD: "safe_from 0 d \<Longrightarrow> d s \<noteq> Inl Panicked"
  by (auto simp: safe_from_def)

lemma dec_run_not_panicked: "safe_from 0 d \<Longrightarrow> dec_run d s \<noteq> Inl Panicked"
  by (cases "d s") (auto simp: dec_run_def dest: safe_fromD [of d s])

lemma nongrowD: "nongrow d \<Longrightarrow> d s = Inr (x, s') \<Longrightarrow> length s' \<le> length s"
  by (auto simp: nongrow_def)

lemma consumesD: "consumes d \<Longrightarrow> d s = Inr (x, s') \<Longrightarrow> length s' < length s"
  by (auto simp: consumes_def)

lemma safe_basic [safe_intros]:
  "safe_from n (dec_return x)"
  "safe_from n (dec_raise e)"
  "safe_from n (ensure c e)"
  "safe_from n (dec_peek f)"
  "safe_from n (dec_lift r)"
  "safe_from n (ensure_remaining k e)"
  "safe_from n (ensure_end e)"
  by (auto simp: safe_from_def ensure_def ensure_remaining_def ensure_end_def dec_lift_def
      split: sum.splits)

lemma if_remaining_simps [simp]:
  "if_remaining a b [] = b []" "s \<noteq> [] \<Longrightarrow> if_remaining a b s = a s"
  by (simp_all add: if_remaining_def)

lemma safe_if_remaining [safe_intros]:
  "safe_from (max n 1) a \<Longrightarrow> safe_from n b \<Longrightarrow> safe_from n (if_remaining a b)"
  by (auto simp: safe_from_def if_remaining_def Suc_le_eq)

lemma safe_reads [safe_intros]:
  "1 \<le> n \<Longrightarrow> safe_from n get_u8"
  "2 \<le> n \<Longrightarrow> safe_from n get_u16"
  "4 \<le> n \<Longrightarrow> safe_from n get_u32"
  "k \<le> n \<Longrightarrow> safe_from n (split_to k)"
  "k \<le> n \<Longrightarrow> safe_from n (advance k)"
  "k \<le> n \<Longrightarrow> safe_from n (slice_prefix k)"
  by (auto simp: safe_from_def split_to_def advance_def slice_prefix_def
      get_u8_eq get_u16_eq get_u32_eq)

lemma safe_if [safe_intros]:
  "(c \<Longrightarrow> safe_from n a) \<Longrightarrow> (\<not> c \<Longrightarrow> safe_from n b) \<Longrightarrow> safe_from n (if c then a else b)"
  by simp

lemma safe_case_option [safe_intros]:
  "(v = None \<Longrightarrow> safe_from n a) \<Longrightarrow> (\<And>x. v = Some x \<Longrightarrow> safe_from n (f x)) \<Longrightarrow>
     safe_from n (case v of None \<Rightarrow> a | Some x \<Rightarrow> f x)"
  by (cases v) simp_all

lemma safe_case_prod [safe_intros]:
  "(\<And>a b. p = (a, b) \<Longrightarrow> safe_from n (f a b)) \<Longrightarrow> safe_from n (case p of (a, b) \<Rightarrow> f a b)"
  by (cases p) simp

lemma safe_bind: "safe_from n m \<Longrightarrow> (\<And>x. safe_from 0 (f x)) \<Longrightarrow> safe_from n (dec_bind m f)"
  by (fastforce simp: safe_from_def dec_bind_def split: sum.splits)

lemma safe_bind_leaves:
  assumes "safe_from n m" and "\<And>s x s'. n \<le> length s \<Longrightarrow> m s = Inr (x, s') \<Longrightarrow> k \<le> length s'"
    and "\<And>x. safe_from k (f x)"
  shows "safe_from n (dec_bind m f)"
  using assms by (fastforce simp: safe_from_def dec_bind_def split: sum.splits)

text \<open>The reads and checks after which the number of bytes left is known.\<close>

lemma safe_bind_known [safe_intros]:
  "(c \<Longrightarrow> safe_from n (f ())) \<Longrightarrow> safe_from n (dec_bind (ensure c e) f)"
  "safe_from (max n k) (f ()) \<Longrightarrow> safe_from n (dec_bind (ensure_remaining k e) f)"
  "1 \<le> n \<Longrightarrow> (\<And>x. safe_from (n - 1) (g x)) \<Longrightarrow> safe_from n (dec_bind get_u8 g)"
  "2 \<le> n \<Longrightarrow> (\<And>x. safe_from (n - 2) (h x)) \<Longrightarrow> safe_from n (dec_bind get_u16 h)"
  "k \<le> n \<Longrightarrow> safe_from (n - k) (f ()) \<Longrightarrow> safe_from n (dec_bind (advance k) f)"
  "k \<le> n \<Longrightarrow> (\<And>x. safe_from n (p x)) \<Longrightarrow> safe_from n (dec_bind (slice_prefix k) p)"
  "(\<And>x. safe_from n (q x)) \<Longrightarrow> safe_from n (dec_bind (dec_lift r) q)"
  "(\<And>x. safe_from n (q x)) \<Longrightarrow> safe_from n (dec_bind (dec_peek j) q)"
  "(safe_from n (q y)) \<Longrightarrow> safe_from n (dec_bind (dec_return y) q)"
  by (auto simp: safe_from_def dec_bind_def ensure_def ensure_remaining_def advance_def
      slice_prefix_def dec_lift_def get_u8_eq get_u16_eq split: sum.splits)

lemma nongrow_basic [safe_intros]:
  "nongrow (dec_return x)" "nongrow (dec_raise e)" "nongrow (ensure c e)" "nongrow (dec_peek f)"
  "nongrow (dec_lift r)" "nongrow (ensure_remaining k e)" "nongrow (ensure_end e)"
  "nongrow (split_to k)" "nongrow (advance k)" "nongrow (slice_prefix k)"
  by (auto simp: nongrow_def ensure_def ensure_remaining_def ensure_end_def dec_lift_def
      split_to_def advance_def slice_prefix_def split: sum.splits if_splits)

lemma consumes_reads [consumes_intros]: "consumes get_u8" "consumes get_u16" "consumes get_u32"
  by (auto simp: consumes_def elim: get_u8.elims get_u16.elims get_u32.elims)

lemma consumes_nongrow: "consumes d \<Longrightarrow> nongrow d"
  by (fastforce simp: consumes_def nongrow_def)

lemmas nongrow_reads [safe_intros] = consumes_reads [THEN consumes_nongrow]

lemma nongrow_bind [safe_intros]: "nongrow m \<Longrightarrow> (\<And>x. nongrow (f x)) \<Longrightarrow> nongrow (dec_bind m f)"
  by (force simp: nongrow_def dec_bind_eq_Inr)

lemma nongrow_if [safe_intros]: "nongrow a \<Longrightarrow> nongrow b \<Longrightarrow> nongrow (if c then a else b)"
  by simp

lemma nongrow_if_remaining [safe_intros]: "nongrow a \<Longrightarrow> nongrow b \<Longrightarrow> nongrow (if_remaining a b)"
  unfolding nongrow_def if_remaining_def by (metis (full_types))

lemma consumes_bind1: "consumes m \<Longrightarrow> (\<And>x. nongrow (f x)) \<Longrightarrow> consumes (dec_bind m f)"
  by (force simp: consumes_def nongrow_def dec_bind_eq_Inr)

lemma consumes_bind2: "nongrow m \<Longrightarrow> (\<And>x. consumes (f x)) \<Longrightarrow> consumes (dec_bind m f)"
  by (force simp: consumes_def nongrow_def dec_bind_eq_Inr)

lemma nongrow_dec_while [safe_intros]: "nongrow (dec_while body acc)"
proof -
  have "dec_while body acc s = Inr (x, s') \<Longrightarrow> length s' \<le> length s" for s x s'
  proof (induction body acc s rule: dec_while.induct)
    case (1 body acc s)
    from "1.prems" show ?case
      by (subst (asm) dec_while.simps) (auto split: if_splits sum.splits dest!: "1.IH")
  qed
  then show ?thesis by (auto simp: nongrow_def)
qed

lemma safe_dec_while:
  assumes "\<And>acc. safe_from 1 (body acc)" and "\<And>acc. consumes (body acc)"
  shows "safe_from n (dec_while body acc)"
proof -
  have "dec_while body acc s \<noteq> Inl Panicked" for s
    using assms
  proof (induction body acc s rule: dec_while.induct)
    case (1 body acc s)
    show ?case
    proof (cases "s = []")
      case True
      then show ?thesis by simp
    next
      case False
      then have "body acc s \<noteq> Inl Panicked"
        using "1.prems"(1) by (auto simp: safe_from_def Suc_le_eq)
      then show ?thesis
        using False "1.IH" "1.prems" consumesD [OF "1.prems"(2)]
        by (subst dec_while.simps) (auto split: sum.splits)
    qed
  qed
  then show ?thesis by (simp add: safe_from_def)
qed

lemma unat_word_of_nat: "n < 2 ^ LENGTH('a::len) \<Longrightarrow> unat (word_of_nat n :: 'a word) = n"
  by (simp add: unat_of_nat)

end
