(* ===== verification/Codec_Types.thy ===== *)
theory Codec_Types
  imports Prelude
begin

text \<open>
  The shared types of the codec crate: \<open>ferromq-codec/src/types.rs\<close> (protocol levels, QoS, connect
  flags, packet type bytes, the PUBLISH packet), \<open>ferromq-codec/src/error.rs\<close> (the errors and the
  DISCONNECT reason each of them is reported with) and the property records of
  \<open>v5/packet/publish.rs\<close> that \<open>types.rs\<close> embeds.

  A \<open>ByteString\<close> is its bytes; that they are valid UTF-8 is the invariant of the type, and the check
  is a parameter (\<open>utf8\<close>) of the decoders, since the crate that makes it is not part of the sources.
  A \<open>NonZeroU16\<close> is a \<^typ>\<open>u16\<close>; that it is not zero is part of the well-formedness of a packet.
\<close>

section \<open>Errors\<close>

datatype decode_error =
    InvalidProtocol | InvalidLength | MalformedPacket | UnsupportedProtocolLevel
  | ConnectReservedFlagSet | InvalidConnectFlags | ConnAckReservedFlagSet | InvalidClientId
  | UnsupportedPacketType | PacketIdRequired
  | MaxSizeExceeded (mse_size: u32) (mse_max: u32)
  | InvalidTopicFilter | InvalidTopicName | Utf8Error | DecodeIo bytes

datatype encode_error =
    OverMaxPacketSize (omp_size: u32) (omp_max: u32)
  | EncInvalidLength | EncMalformedPacket | EncPacketIdRequired | EncUnsupportedVersion | EncIo bytes

datatype protocol_error = ProtoDecode decode_error | ProtoEncode encode_error | ProtoKeepAliveTimeout

datatype handshake_error = HandshakeProtocol protocol_error | HandshakeTimeout

datatype send_packet_error = SendEncode encode_error

datatype disconnect_reason_code =
    DRC_NormalDisconnection | DRC_DisconnectWithWillMessage | DRC_UnspecifiedError
  | DRC_MalformedPacket | DRC_ProtocolError | DRC_ImplementationSpecificError | DRC_NotAuthorized
  | DRC_ServerBusy | DRC_ServerShuttingDown | DRC_BadAuthenticationMethod | DRC_KeepAliveTimeout
  | DRC_SessionTakenOver | DRC_TopicFilterInvalid | DRC_TopicNameInvalid
  | DRC_ReceiveMaximumExceeded | DRC_TopicAliasInvalid | DRC_PacketTooLarge | DRC_MessageRateTooHigh
  | DRC_QuotaExceeded | DRC_AdministrativeAction | DRC_PayloadFormatInvalid | DRC_RetainNotSupported
  | DRC_QosNotSupported | DRC_UseAnotherServer | DRC_ServerMoved | DRC_SharedSubscriptionNotSupported
  | DRC_ConnectionRateExceeded | DRC_MaximumConnectTime | DRC_SubscriptionIdentifiersNotSupported
  | DRC_WildcardSubscriptionsNotSupported

fun decode_error_to_reason_code :: "decode_error \<Rightarrow> disconnect_reason_code" where
  "decode_error_to_reason_code InvalidProtocol = DRC_ProtocolError"
| "decode_error_to_reason_code InvalidLength = DRC_MalformedPacket"
| "decode_error_to_reason_code MalformedPacket = DRC_MalformedPacket"
| "decode_error_to_reason_code UnsupportedProtocolLevel = DRC_ImplementationSpecificError"
| "decode_error_to_reason_code ConnectReservedFlagSet = DRC_ProtocolError"
| "decode_error_to_reason_code InvalidConnectFlags = DRC_ProtocolError"
| "decode_error_to_reason_code ConnAckReservedFlagSet = DRC_ProtocolError"
| "decode_error_to_reason_code InvalidClientId = DRC_NotAuthorized"
| "decode_error_to_reason_code UnsupportedPacketType = DRC_ImplementationSpecificError"
| "decode_error_to_reason_code PacketIdRequired = DRC_ProtocolError"
| "decode_error_to_reason_code (MaxSizeExceeded _ _) = DRC_PacketTooLarge"
| "decode_error_to_reason_code InvalidTopicFilter = DRC_TopicFilterInvalid"
| "decode_error_to_reason_code InvalidTopicName = DRC_TopicNameInvalid"
| "decode_error_to_reason_code Utf8Error = DRC_PayloadFormatInvalid"
| "decode_error_to_reason_code (DecodeIo _) = DRC_UnspecifiedError"

fun encode_error_to_reason_code :: "encode_error \<Rightarrow> disconnect_reason_code" where
  "encode_error_to_reason_code (OverMaxPacketSize _ _) = DRC_PacketTooLarge"
| "encode_error_to_reason_code EncInvalidLength = DRC_MalformedPacket"
| "encode_error_to_reason_code EncMalformedPacket = DRC_MalformedPacket"
| "encode_error_to_reason_code EncPacketIdRequired = DRC_ProtocolError"
| "encode_error_to_reason_code EncUnsupportedVersion = DRC_ImplementationSpecificError"
| "encode_error_to_reason_code (EncIo _) = DRC_UnspecifiedError"

fun protocol_error_to_reason_code :: "protocol_error \<Rightarrow> disconnect_reason_code" where
  "protocol_error_to_reason_code (ProtoDecode e) = decode_error_to_reason_code e"
| "protocol_error_to_reason_code (ProtoEncode e) = encode_error_to_reason_code e"
| "protocol_error_to_reason_code ProtoKeepAliveTimeout = DRC_KeepAliveTimeout"

fun handshake_error_to_reason_code :: "handshake_error \<Rightarrow> disconnect_reason_code" where
  "handshake_error_to_reason_code (HandshakeProtocol e) = protocol_error_to_reason_code e"
| "handshake_error_to_reason_code HandshakeTimeout = DRC_MaximumConnectTime"

fun send_packet_error_to_reason_code :: "send_packet_error \<Rightarrow> disconnect_reason_code" where
  "send_packet_error_to_reason_code (SendEncode e) = encode_error_to_reason_code e"

type_synonym 'a dec = "(decode_error, 'a) decoder"
type_synonym enc = "encode_error encoded"

section \<open>Protocol, QoS, flags and packet types\<close>

abbreviation (input) MQTT_LEVEL_31 :: u8 where "MQTT_LEVEL_31 \<equiv> 3"
abbreviation (input) MQTT_LEVEL_311 :: u8 where "MQTT_LEVEL_311 \<equiv> 4"
abbreviation (input) MQTT_LEVEL_5 :: u8 where "MQTT_LEVEL_5 \<equiv> 5"
abbreviation (input) WILL_QOS_SHIFT :: nat where "WILL_QOS_SHIFT \<equiv> 3"
abbreviation (input) MAX_PACKET_SIZE :: u32 where "MAX_PACKET_SIZE \<equiv> 0xFFFFFFF"

text \<open>The ASCII bytes of \<open>"MQTT"\<close> and \<open>"MQIsdp"\<close>.\<close>

definition MQTT :: bytes where "MQTT = [77, 81, 84, 84]"
definition MQISDP :: bytes where "MQISDP = [77, 81, 73, 115, 100, 112]"

datatype protocol = Protocol (protocol_level: u8)

definition protocol_name :: "protocol \<Rightarrow> bytes" where
  "protocol_name p =
     (if protocol_level p = MQTT_LEVEL_311 then MQTT
      else if protocol_level p = MQTT_LEVEL_31 then MQISDP
      else if protocol_level p = MQTT_LEVEL_5 then MQTT
      else MQTT)"

definition protocol_default :: protocol where
  "protocol_default = Protocol MQTT_LEVEL_311"

datatype qos = AtMostOnce | AtLeastOnce | ExactlyOnce

fun qos_value :: "qos \<Rightarrow> u8" where
  "qos_value AtMostOnce = 0"
| "qos_value AtLeastOnce = 1"
| "qos_value ExactlyOnce = 2"

definition qos_try_from :: "u8 \<Rightarrow> decode_error + qos" where
  "qos_try_from v =
     (if v = 0 then Inr AtMostOnce else if v = 1 then Inr AtLeastOnce
      else if v = 2 then Inr ExactlyOnce else Inl MalformedPacket)"

definition less_value :: "qos \<Rightarrow> qos \<Rightarrow> qos" where
  "less_value a b = (if qos_value a < qos_value b then a else b)"

lemma qos_value_inject [simp]: "qos_value a = qos_value b \<longleftrightarrow> a = b"
  by (cases a; cases b) simp_all

instantiation qos :: linorder
begin

definition less_eq_qos :: "qos \<Rightarrow> qos \<Rightarrow> bool" where
  "less_eq_qos a b = (qos_value a \<le> qos_value b)"

definition less_qos :: "qos \<Rightarrow> qos \<Rightarrow> bool" where
  "less_qos a b = (qos_value a < qos_value b)"

instance
proof
  fix x y z :: qos
  show "(x < y) = (x \<le> y \<and> \<not> y \<le> x)"
    by (simp add: less_eq_qos_def less_qos_def less_le_not_le)
  show "x \<le> x" by (simp add: less_eq_qos_def)
  show "x \<le> y \<Longrightarrow> y \<le> z \<Longrightarrow> x \<le> z" by (simp add: less_eq_qos_def)
  show "x \<le> y \<Longrightarrow> y \<le> x \<Longrightarrow> x = y" by (simp add: less_eq_qos_def)
  show "x \<le> y \<or> y \<le> x" by (auto simp: less_eq_qos_def)
qed

end

text \<open>
  \<open>ConnectFlags\<close> and \<open>ConnectAckFlags\<close> are bit sets over a byte. \<open>from_bits\<close> refuses bits outside
  the declared flags, \<open>from_bits_truncate\<close> drops them, \<open>contains\<close> asks for all bits of a flag and
  \<open>intersects\<close> for one of them.
\<close>

abbreviation (input) CF_USERNAME :: u8 where "CF_USERNAME \<equiv> 0x80"
abbreviation (input) CF_PASSWORD :: u8 where "CF_PASSWORD \<equiv> 0x40"
abbreviation (input) CF_WILL_RETAIN :: u8 where "CF_WILL_RETAIN \<equiv> 0x20"
abbreviation (input) CF_WILL_QOS :: u8 where "CF_WILL_QOS \<equiv> 0x18"
abbreviation (input) CF_WILL :: u8 where "CF_WILL \<equiv> 0x04"
abbreviation (input) CF_CLEAN_START :: u8 where "CF_CLEAN_START \<equiv> 0x02"
abbreviation (input) CF_ALL :: u8 where "CF_ALL \<equiv> 0xFE"

abbreviation (input) CAF_SESSION_PRESENT :: u8 where "CAF_SESSION_PRESENT \<equiv> 0x01"

definition flags_from_bits :: "u8 \<Rightarrow> u8 \<Rightarrow> u8 option" where
  "flags_from_bits all b = (if b AND NOT all = 0 then Some b else None)"

definition flags_from_bits_truncate :: "u8 \<Rightarrow> u8 \<Rightarrow> u8" where
  "flags_from_bits_truncate all b = b AND all"

definition flags_contains :: "u8 \<Rightarrow> u8 \<Rightarrow> bool" where
  "flags_contains b f = (b AND f = f)"

definition flags_intersects :: "u8 \<Rightarrow> u8 \<Rightarrow> bool" where
  "flags_intersects b f = (b AND f \<noteq> 0)"

abbreviation (input) PT_CONNECT :: u8 where "PT_CONNECT \<equiv> 0x10"
abbreviation (input) PT_CONNACK :: u8 where "PT_CONNACK \<equiv> 0x20"
abbreviation (input) PT_PUBLISH_START :: u8 where "PT_PUBLISH_START \<equiv> 0x30"
abbreviation (input) PT_PUBLISH_END :: u8 where "PT_PUBLISH_END \<equiv> 0x3F"
abbreviation (input) PT_PUBACK :: u8 where "PT_PUBACK \<equiv> 0x40"
abbreviation (input) PT_PUBREC :: u8 where "PT_PUBREC \<equiv> 0x50"
abbreviation (input) PT_PUBREL :: u8 where "PT_PUBREL \<equiv> 0x62"
abbreviation (input) PT_PUBCOMP :: u8 where "PT_PUBCOMP \<equiv> 0x70"
abbreviation (input) PT_SUBSCRIBE :: u8 where "PT_SUBSCRIBE \<equiv> 0x82"
abbreviation (input) PT_SUBACK :: u8 where "PT_SUBACK \<equiv> 0x90"
abbreviation (input) PT_UNSUBSCRIBE :: u8 where "PT_UNSUBSCRIBE \<equiv> 0xA2"
abbreviation (input) PT_UNSUBACK :: u8 where "PT_UNSUBACK \<equiv> 0xB0"
abbreviation (input) PT_PINGREQ :: u8 where "PT_PINGREQ \<equiv> 0xC0"
abbreviation (input) PT_PINGRESP :: u8 where "PT_PINGRESP \<equiv> 0xD0"
abbreviation (input) PT_DISCONNECT :: u8 where "PT_DISCONNECT \<equiv> 0xE0"
abbreviation (input) PT_AUTH :: u8 where "PT_AUTH \<equiv> 0xF0"

record fixed_header =
  fh_first_byte :: u8
  fh_remaining_length :: u32

section \<open>PUBLISH\<close>

type_synonym user_property = "bytes \<times> bytes"
type_synonym user_properties = "user_property list"

record publish_properties =
  pp_topic_alias :: "u16 option"
  pp_correlation_data :: "bytes option"
  pp_message_expiry_interval :: "u32 option"
  pp_content_type :: "bytes option"
  pp_user_properties :: user_properties
  pp_is_utf8_payload :: bool
  pp_response_topic :: "bytes option"
  pp_subscription_ids :: "u32 list"

record publish =
  pub_dup :: bool
  pub_retain :: bool
  pub_qos :: qos
  pub_topic :: bytes
  pub_packet_id :: "u16 option"
  pub_payload :: bytes
  pub_properties :: "publish_properties option"

text \<open>\<open>CertInfo\<close> (\<open>cert.rs\<close>) travels in a CONNECT in memory, never on the wire.\<close>

record cert_info =
  cert_common_name :: "string option"
  cert_subject :: string
  cert_serial :: "string option"
  cert_organization :: "string option"

section \<open>Facts\<close>

lemma qos_try_from_value [simp]: "qos_try_from (qos_value q) = Inr q"
  by (cases q) (simp_all add: qos_try_from_def)

lemma qos_try_from_simps [simp]:
  "qos_try_from 0 = Inr AtMostOnce" "qos_try_from 1 = Inr AtLeastOnce"
  "qos_try_from 2 = Inr ExactlyOnce"
  by (simp_all add: qos_try_from_def)

lemma qos_try_from_Inr: "qos_try_from v = Inr q \<Longrightarrow> v = qos_value q"
  by (auto simp: qos_try_from_def split: if_splits)

lemma less_value_min: "less_value a b = min a b"
  by (auto simp: less_value_def min_def less_eq_qos_def not_less)

lemma length_MQTT [simp]: "length MQTT = 4" "length MQISDP = 6"
  by (simp_all add: MQTT_def MQISDP_def)

end
