(* ===== verification/Codec_Utils.thy ===== *)
theory Codec_Utils
  imports Codec_Types
begin

text \<open>
  \<open>ferromq-codec/src/utils.rs\<close>: the \<open>Decode\<close> and \<open>Encode\<close> implementations of the primitive types,
  the variable-length integer of MQTT, and \<open>take_properties\<close>. Each implementation of \<open>Encode\<close> is
  a pair of functions, \<open>encode_T\<close> and \<open>encoded_size_T\<close>.

  The locale \<open>wire_value\<close> is the contract of a type that implements both traits: on a value in
  range the encoder succeeds, appends as many bytes as \<open>encoded_size\<close> says, and the decoder reads
  exactly these bytes back; on any input the decoder does not panic and reads at least one byte.
  It is interpreted on every primitive type of the file.
\<close>

section \<open>Decoding\<close>

definition decode_bool :: "bool dec" where
  "decode_bool =
     dec_bind (ensure_remaining 1 InvalidLength) (\<lambda>_.
     dec_bind get_u8 (\<lambda>v.
     dec_bind (ensure (v \<le> 1) MalformedPacket) (\<lambda>_.
     dec_return (v = 1))))"

definition decode_u16 :: "u16 dec" where
  "decode_u16 = dec_bind (ensure_remaining 2 InvalidLength) (\<lambda>_. get_u16)"

definition decode_u32 :: "u32 dec" where
  "decode_u32 = dec_bind (ensure_remaining 4 InvalidLength) (\<lambda>_. get_u32)"

definition decode_nonzero_u16 :: "u16 dec" where
  "decode_nonzero_u16 =
     dec_bind decode_u16 (\<lambda>v. if v = 0 then dec_raise MalformedPacket else dec_return v)"

definition decode_nonzero_u32 :: "u32 dec" where
  "decode_nonzero_u32 =
     dec_bind decode_u32 (\<lambda>v. if v = 0 then dec_raise MalformedPacket else dec_return v)"

definition decode_bytes :: "bytes dec" where
  "decode_bytes =
     dec_bind decode_u16 (\<lambda>len.
     dec_bind (ensure_remaining (unat len) InvalidLength) (\<lambda>_.
     split_to (unat len)))"

definition decode_bytestring :: "(bytes \<Rightarrow> bool) \<Rightarrow> bytes dec" where
  "decode_bytestring utf8 =
     dec_bind decode_bytes (\<lambda>b. if utf8 b then dec_return b else dec_raise Utf8Error)"

text \<open>\<open>impl Property for Option<T>\<close>: a property may be set once.\<close>

definition read_value :: "'a dec \<Rightarrow> 'a option \<Rightarrow> 'a option dec" where
  "read_value d self =
     dec_bind (ensure (self = None) MalformedPacket) (\<lambda>_.
     dec_bind d (\<lambda>v. dec_return (Some v)))"

text \<open>
  \<open>decode_variable_length_cursor\<close>: the loop over the continuation bits, with the locals \<open>shift\<close>
  and \<open>len\<close>.
\<close>

fun varlen_loop :: "nat \<Rightarrow> u32 \<Rightarrow> u32 dec" where
  "varlen_loop shift len [] = Inl (Raised MalformedPacket)"
| "varlen_loop shift len (val # src) =
     (let len' = len + push_bit shift (ucast (val AND 0x7F)) in
      if val AND 0x80 = 0 then Inr (len', src)
      else if shift < 21 then varlen_loop (shift + 7) len' src
      else Inl (Raised InvalidLength))"

definition decode_variable_length_cursor :: "u32 dec" where
  "decode_variable_length_cursor = varlen_loop 0 0"

definition decode_variable_length :: "bytes \<Rightarrow> decode_error fault + (u32 \<times> nat) option" where
  "decode_variable_length src =
     (case decode_variable_length_cursor src of
        Inr (len, rest) \<Rightarrow> Inr (Some (len, length src - length rest))
      | Inl (Raised MalformedPacket) \<Rightarrow> Inr None
      | Inl e \<Rightarrow> Inl e)"

definition take_properties :: "bytes dec" where
  "take_properties =
     dec_bind decode_variable_length_cursor (\<lambda>prop_len.
     dec_bind (ensure_remaining (unat prop_len) InvalidLength) (\<lambda>_.
     split_to (unat prop_len)))"

text \<open>
  The macro \<open>prim_enum!\<close>: \<open>TryFrom<u8>\<close> of an enum compares the byte with the discriminants of the
  variants, in order.
\<close>

definition prim_try_from :: "('a \<Rightarrow> u8) \<Rightarrow> 'a list \<Rightarrow> u8 \<Rightarrow> decode_error + 'a" where
  "prim_try_from code variants v =
     (case find (\<lambda>c. code c = v) variants of None \<Rightarrow> Inl MalformedPacket | Some c \<Rightarrow> Inr c)"

text \<open>\<open>if flag { Some(T::decode(src)?) } else { None }\<close>.\<close>

definition dec_when :: "bool \<Rightarrow> 'a dec \<Rightarrow> 'a option dec" where
  "dec_when c d = (if c then dec_bind d (\<lambda>x. dec_return (Some x)) else dec_return None)"

text \<open>\<open>src.split_off(0)\<close>: everything that is left.\<close>

definition dec_rest :: "bytes dec" where
  "dec_rest s = Inr (s, [])"

section \<open>Encoding\<close>

definition encoded_size_option :: "('a \<Rightarrow> nat) \<Rightarrow> 'a option \<Rightarrow> nat" where
  "encoded_size_option sz v = (case v of None \<Rightarrow> 0 | Some x \<Rightarrow> sz x)"

definition encode_option :: "('a \<Rightarrow> enc) \<Rightarrow> 'a option \<Rightarrow> enc" where
  "encode_option e v = (case v of None \<Rightarrow> Inr [] | Some x \<Rightarrow> e x)"

definition encoded_size_bool :: "bool \<Rightarrow> nat" where
  "encoded_size_bool b = 1"

definition encode_bool :: "bool \<Rightarrow> enc" where
  "encode_bool b = put [if b then 1 else 0]"

definition encoded_size_u16 :: "u16 \<Rightarrow> nat" where
  "encoded_size_u16 w = 2"

definition encode_u16 :: "u16 \<Rightarrow> enc" where
  "encode_u16 w = put (put_u16 w)"

definition encoded_size_u32 :: "u32 \<Rightarrow> nat" where
  "encoded_size_u32 w = 4"

definition encode_u32 :: "u32 \<Rightarrow> enc" where
  "encode_u32 w = put (put_u32 w)"

definition encoded_size_bytes :: "bytes \<Rightarrow> nat" where
  "encoded_size_bytes b = 2 + length b"

definition encode_bytes :: "bytes \<Rightarrow> enc" where
  "encode_bytes b =
     (if length b < 65536 then put (put_u16 (word_of_nat (length b)) @ b)
      else Inl (Raised EncInvalidLength))"

definition encoded_size_pair :: "user_property \<Rightarrow> nat" where
  "encoded_size_pair p = encoded_size_bytes (fst p) + encoded_size_bytes (snd p)"

definition encode_pair :: "user_property \<Rightarrow> enc" where
  "encode_pair p = enc_seq (encode_bytes (fst p)) (encode_bytes (snd p))"

text \<open>\<open>UserProperty::decode\<close> (\<open>v5/decode.rs\<close>).\<close>

definition decode_user_property :: "(bytes \<Rightarrow> bool) \<Rightarrow> user_property dec" where
  "decode_user_property utf8 =
     dec_bind (decode_bytestring utf8) (\<lambda>key.
     dec_bind (decode_bytestring utf8) (\<lambda>val. dec_return (key, val)))"

definition write_variable_length :: "u32 \<Rightarrow> enc" where
  "write_variable_length len =
     (if len \<le> 127 then put [ucast len]
      else if len \<le> 16383 then
        put [ucast ((len AND 0x7F) OR 0x80), ucast (drop_bit 7 len)]
      else if len \<le> 2097151 then
        put [ucast ((len AND 0x7F) OR 0x80), ucast ((drop_bit 7 len AND 0x7F) OR 0x80),
             ucast (drop_bit 14 len)]
      else if len \<le> 268435455 then
        put [ucast ((len AND 0x7F) OR 0x80), ucast ((drop_bit 7 len AND 0x7F) OR 0x80),
             ucast ((drop_bit 14 len AND 0x7F) OR 0x80), ucast (drop_bit 21 len)]
      else Inl Panicked)"

text \<open>
  The flags byte both CONNECT encoders build: \<open>flags |= ..\<close> for each part that is present.
\<close>

definition connect_flags :: "bool \<Rightarrow> bool \<Rightarrow> (qos \<times> bool) option \<Rightarrow> bool \<Rightarrow> u8" where
  "connect_flags username password will clean =
     (let f0 = 0;
          f1 = (if username then f0 OR CF_USERNAME else f0);
          f2 = (if password then f1 OR CF_PASSWORD else f1);
          f3 = (case will of None \<Rightarrow> f2
                | Some (q, retain) \<Rightarrow>
                   (let g1 = f2 OR CF_WILL;
                        g2 = (if retain then g1 OR CF_WILL_RETAIN else g1)
                    in g2 OR flags_from_bits_truncate CF_ALL (push_bit WILL_QOS_SHIFT (qos_value q))))
      in if clean then f3 OR CF_CLEAN_START else f3)"

text \<open>The first byte of a PUBLISH, the same in both protocol versions.\<close>

definition publish_first_byte :: "publish \<Rightarrow> u8" where
  "publish_first_byte p =
     PT_PUBLISH_START OR push_bit 1 (qos_value (pub_qos p))
       OR push_bit 3 (if pub_dup p then 1 else 0) OR (if pub_retain p then 1 else 0)"

section \<open>The contract of a wire value\<close>

locale reader =
  fixes decode :: "'a dec"
  assumes decode_safe: "safe_from 0 decode"
    and decode_consumes: "consumes decode"
begin

lemma decode_nongrow: "nongrow decode"
  by (rule consumes_nongrow [OF decode_consumes])

lemma read_value_safe: "safe_from n (read_value decode v)"
  unfolding read_value_def
  by (intro safe_bind_known safe_bind safe_basic safe_from_mono [OF decode_safe]) simp

lemma read_value_nongrow: "nongrow (read_value decode v)"
  unfolding read_value_def by (intro safe_intros decode_nongrow)

lemma read_value_Some: "read_value decode (Some x) s = Inl (Raised MalformedPacket)"
  by (simp add: read_value_def)

end

locale wire_value = reader decode
  for decode :: "'a dec" +
  fixes encode :: "'a \<Rightarrow> enc" and encoded_size :: "'a \<Rightarrow> nat"
    and out :: "'a \<Rightarrow> bytes" and ok :: "'a \<Rightarrow> bool"
  assumes encode_out: "ok x \<Longrightarrow> encode x = Inr (out x)"
    and size_out: "ok x \<Longrightarrow> encoded_size x = length (out x)"
    and decode_out: "ok x \<Longrightarrow> decode (out x @ r) = Inr (x, r)"
begin

lemma decode_out_Nil: "ok x \<Longrightarrow> decode (out x) = Inr (x, [])"
  using decode_out [of x "[]"] by simp

lemma out_neq_Nil: "ok x \<Longrightarrow> out x \<noteq> []"
  using decode_out [of x "[]"] decode_consumes by (auto dest: consumesD)

lemma read_value_out:
  "ok x \<Longrightarrow> read_value decode None (out x @ r) = Inr (Some x, r)"
  by (simp add: read_value_def decode_out)

lemma encode_inj: "ok x \<Longrightarrow> ok y \<Longrightarrow> encode x = encode y \<Longrightarrow> x = y"
  using decode_out [of x "[]"] decode_out [of y "[]"] by (simp add: encode_out)

end

text \<open>The contract of \<open>prim_enum!\<close>: every variant is listed and no two have the same discriminant.\<close>

locale prim_enum =
  fixes code :: "'a \<Rightarrow> u8" and variants :: "'a list"
  assumes all_variants: "c \<in> set variants" and code_distinct: "distinct (map code variants)"
begin

lemma code_inj: "code c = code d \<Longrightarrow> c = d"
  using code_distinct all_variants by (auto simp: distinct_map dest: inj_onD)

lemma try_from_code: "prim_try_from code variants (code c) = Inr c"
proof (cases "find (\<lambda>d. code d = code c) variants")
  case None
  with all_variants [of c] show ?thesis by (auto simp: find_None_iff)
next
  case (Some d)
  then have "code d = code c" by (auto simp: find_Some_iff)
  with Some show ?thesis by (auto simp: prim_try_from_def dest: code_inj)
qed

lemma try_from_Inr: "prim_try_from code variants v = Inr c \<longleftrightarrow> v = code c"
proof
  assume "prim_try_from code variants v = Inr c"
  then have "find (\<lambda>c. code c = v) variants = Some c"
    by (auto simp: prim_try_from_def split: option.splits)
  then show "v = code c" by (auto simp: find_Some_iff)
qed (simp add: try_from_code)

lemma try_from_Inl: "prim_try_from code variants v = Inl e \<longleftrightarrow> v \<notin> range code \<and> e = MalformedPacket"
  using all_variants
  by (fastforce simp: prim_try_from_def find_None_iff find_Some_iff split: option.splits)

end

section \<open>The primitive types satisfy the contract\<close>

definition out_bool :: "bool \<Rightarrow> bytes" where
  "out_bool b = [if b then 1 else 0]"

definition out_bytes :: "bytes \<Rightarrow> bytes" where
  "out_bytes b = put_u16 (word_of_nat (length b)) @ b"

definition short :: "bytes \<Rightarrow> bool" where
  "short b \<longleftrightarrow> length b < 65536"

definition ok_string :: "(bytes \<Rightarrow> bool) \<Rightarrow> bytes \<Rightarrow> bool" where
  "ok_string utf8 b \<longleftrightarrow> utf8 b \<and> short b"

definition out_pair :: "user_property \<Rightarrow> bytes" where
  "out_pair p = out_bytes (fst p) @ out_bytes (snd p)"

definition ok_pair :: "(bytes \<Rightarrow> bool) \<Rightarrow> user_property \<Rightarrow> bool" where
  "ok_pair utf8 p \<longleftrightarrow> ok_string utf8 (fst p) \<and> ok_string utf8 (snd p)"

lemma safe_decode_u16: "safe_from n decode_u16"
  unfolding decode_u16_def by (intro safe_intros) simp

lemma safe_decode_u32: "safe_from n decode_u32"
  unfolding decode_u32_def by (intro safe_intros) simp

lemma consumes_decode_u16: "consumes decode_u16"
  unfolding decode_u16_def by (intro consumes_bind2 safe_intros consumes_intros)

lemma consumes_decode_u32: "consumes decode_u32"
  unfolding decode_u32_def by (intro consumes_bind2 safe_intros consumes_intros)

interpretation bool: wire_value decode_bool encode_bool encoded_size_bool out_bool "\<lambda>_. True"
proof
  show "safe_from 0 decode_bool"
    unfolding decode_bool_def by (intro safe_intros) simp
  show "consumes decode_bool"
    unfolding decode_bool_def by (intro consumes_bind2 consumes_bind1 safe_intros consumes_intros)
qed (auto simp: encode_bool_def put_def out_bool_def encoded_size_bool_def decode_bool_def)

interpretation u16: wire_value decode_u16 encode_u16 encoded_size_u16 put_u16 "\<lambda>_. True"
proof
  show "safe_from 0 decode_u16" by (rule safe_decode_u16)
  show "consumes decode_u16" by (rule consumes_decode_u16)
qed (simp_all add: encode_u16_def put_def encoded_size_u16_def decode_u16_def)

interpretation u32: wire_value decode_u32 encode_u32 encoded_size_u32 put_u32 "\<lambda>_. True"
proof
  show "safe_from 0 decode_u32" by (rule safe_decode_u32)
  show "consumes decode_u32" by (rule consumes_decode_u32)
qed (simp_all add: encode_u32_def put_def encoded_size_u32_def decode_u32_def)

interpretation nonzero_u16: wire_value decode_nonzero_u16 encode_u16 encoded_size_u16 put_u16
  "\<lambda>w. w \<noteq> 0"
proof
  show "safe_from 0 decode_nonzero_u16"
    unfolding decode_nonzero_u16_def by (intro safe_bind safe_decode_u16 safe_intros)
  show "consumes decode_nonzero_u16"
    unfolding decode_nonzero_u16_def by (intro consumes_bind1 consumes_decode_u16 safe_intros)
qed (auto simp: u16.encode_out u16.size_out decode_nonzero_u16_def u16.decode_out)

interpretation nonzero_u32: wire_value decode_nonzero_u32 encode_u32 encoded_size_u32 put_u32
  "\<lambda>w. w \<noteq> 0"
proof
  show "safe_from 0 decode_nonzero_u32"
    unfolding decode_nonzero_u32_def by (intro safe_bind safe_decode_u32 safe_intros)
  show "consumes decode_nonzero_u32"
    unfolding decode_nonzero_u32_def by (intro consumes_bind1 consumes_decode_u32 safe_intros)
qed (auto simp: u32.encode_out u32.size_out decode_nonzero_u32_def u32.decode_out)

lemma unat_length_u16: "short b \<Longrightarrow> unat (word_of_nat (length b) :: u16) = length b"
  by (simp add: short_def unat_word_of_nat)

interpretation bytes: wire_value decode_bytes encode_bytes encoded_size_bytes out_bytes short
proof
  show "safe_from 0 decode_bytes"
    unfolding decode_bytes_def by (intro safe_bind safe_decode_u16 safe_intros) simp
  show "consumes decode_bytes"
    unfolding decode_bytes_def by (intro consumes_bind1 consumes_decode_u16 safe_intros)
qed (auto simp: encode_bytes_def out_bytes_def put_def short_def encoded_size_bytes_def
    decode_bytes_def u16.decode_out unat_word_of_nat)

interpretation string: wire_value "decode_bytestring utf8" encode_bytes encoded_size_bytes out_bytes
  "ok_string utf8" for utf8
proof
  show "safe_from 0 (decode_bytestring utf8)"
    unfolding decode_bytestring_def by (intro safe_bind bytes.decode_safe safe_intros)
  show "consumes (decode_bytestring utf8)"
    unfolding decode_bytestring_def by (intro consumes_bind1 bytes.decode_consumes safe_intros)
qed (auto simp: ok_string_def bytes.encode_out bytes.size_out decode_bytestring_def bytes.decode_out)

interpretation pair: wire_value "decode_user_property utf8" encode_pair encoded_size_pair out_pair
  "ok_pair utf8" for utf8
proof
  show "safe_from 0 (decode_user_property utf8)"
    unfolding decode_user_property_def by (intro safe_bind string.decode_safe safe_intros)
  show "consumes (decode_user_property utf8)"
    unfolding decode_user_property_def
    by (intro consumes_bind1 string.decode_consumes safe_intros string.decode_nongrow)
qed (auto simp: ok_pair_def encode_pair_def out_pair_def encoded_size_pair_def
    decode_user_property_def string.encode_out string.size_out string.decode_out)

section \<open>Variable-length integers\<close>

definition out_varlen :: "u32 \<Rightarrow> bytes" where
  "out_varlen len = (case write_variable_length len of Inr bs \<Rightarrow> bs | Inl _ \<Rightarrow> [])"

lemma low7: "(w::u32) AND 0x7F = take_bit 7 w"
  by (simp add: take_bit_eq_mask mask_eq_exp_minus_1)

lemma bit_0x7F: "bit (0x7F::int) n \<longleftrightarrow> n < 7"
proof -
  have "(0x7F::int) = mask 7" by (simp add: mask_eq_exp_minus_1)
  then show ?thesis by (simp only: bit_mask_iff) simp
qed

lemma bit_0x80: "bit (0x80::int) n \<longleftrightarrow> n = 7"
proof -
  have "(0x80::int) = push_bit 7 1" by simp
  then show ?thesis by (simp only: bit_push_bit_iff bit_1_iff) auto
qed

lemma ucast_cont_byte:
  fixes w :: u32
  shows "(ucast ((w AND 0x7F) OR 0x80) :: u8) AND 0x80 \<noteq> 0"
    and "ucast ((ucast ((w AND 0x7F) OR 0x80) :: u8) AND 0x7F) = take_bit 7 w"
proof -
  have "bit ((ucast ((w AND 0x7F) OR 0x80) :: u8) AND 0x80) 7"
    by (simp add: bit_simps)
  then show "(ucast ((w AND 0x7F) OR 0x80) :: u8) AND 0x80 \<noteq> 0"
    by (metis bit_0_eq bot_apply bot_bool_def)
  show "ucast ((ucast ((w AND 0x7F) OR 0x80) :: u8) AND 0x7F) = take_bit 7 w"
    by (rule bit_word_eqI) (auto simp: bit_simps bit_0x7F bit_0x80)
qed

lemma ucast_last_byte:
  fixes w :: u32
  assumes "w \<le> 127"
  shows "(ucast w :: u8) AND 0x80 = 0" and "ucast ((ucast w :: u8) AND 0x7F) = w"
proof -
  have w: "take_bit 7 w = w"
    using assms by (simp add: word_unat_eq_iff word_le_nat_alt unsigned_take_bit_eq take_bit_nat_def)
  then have bits: "bit w n \<Longrightarrow> n < 7" for n
    by (metis bit_take_bit_iff)
  show "(ucast w :: u8) AND 0x80 = 0"
    by (rule bit_word_eqI) (auto simp: bit_simps bit_0x80 dest: bits)
  show "ucast ((ucast w :: u8) AND 0x7F) = w"
    by (rule bit_word_eqI) (auto simp: bit_simps bit_0x7F dest: bits)
qed

lemma join7: "push_bit 7 (drop_bit 7 w) + take_bit 7 w = (w::u32)"
  by (rule bits_ident)

lemma drop_bit_le:
  fixes w :: u32
  shows "w \<le> 16383 \<Longrightarrow> drop_bit 7 w \<le> 127"
    and "w \<le> 2097151 \<Longrightarrow> drop_bit 14 w \<le> 127"
    and "w \<le> 268435455 \<Longrightarrow> drop_bit 21 w \<le> 127"
  by (simp_all add: word_le_nat_alt unat_drop_bit_eq drop_bit_nat_def div_le_mono)

lemma drop_bit_7_drop_bit:
  fixes w :: u32
  shows "drop_bit 7 (drop_bit 7 w) = drop_bit 14 w" and "drop_bit 7 (drop_bit 14 w) = drop_bit 21 w"
  by simp_all

lemma write_variable_length_out [out_simps]:
  "len \<le> MAX_PACKET_SIZE \<Longrightarrow> write_variable_length len = Inr (out_varlen len)"
  by (simp add: out_varlen_def write_variable_length_def put_def)

lemma write_variable_length_panics:
  "MAX_PACKET_SIZE < len \<Longrightarrow> write_variable_length len = Inl Panicked"
  unfolding write_variable_length_def by (auto simp: word_le_nat_alt word_less_nat_alt)

lemma varlen_loop_cont:
  "shift < 21 \<Longrightarrow> varlen_loop shift acc (ucast ((w AND 0x7F) OR 0x80 :: u32) # src)
     = varlen_loop (shift + 7) (acc + push_bit shift (take_bit 7 w)) src"
  by (simp add: Let_def ucast_cont_byte)

lemma varlen_loop_last:
  "w \<le> 127 \<Longrightarrow> varlen_loop shift acc (ucast (w :: u32) # src) = Inr (acc + push_bit shift w, src)"
  by (simp add: Let_def ucast_last_byte)

declare varlen_loop.simps(2) [simp del]

lemma decode_varlen_out [wire_simps]:
  assumes "len \<le> MAX_PACKET_SIZE"
  shows "decode_variable_length_cursor (out_varlen len @ r) = Inr (len, r)"
proof -
  let ?w = "len"
  have j1: "take_bit 7 ?w + push_bit 7 (drop_bit 7 ?w) = ?w"
    using join7 [of ?w] by (simp add: add.commute)
  have j2: "push_bit 7 (take_bit 7 (drop_bit 7 ?w)) + push_bit 14 (drop_bit 14 ?w)
      = push_bit 7 (drop_bit 7 ?w)"
    using arg_cong [OF join7 [of "drop_bit 7 ?w"], of "push_bit 7"]
    by (simp add: push_bit_add add.commute)
  have j3: "push_bit 14 (take_bit 7 (drop_bit 14 ?w)) + push_bit 21 (drop_bit 21 ?w)
      = push_bit 14 (drop_bit 14 ?w)"
    using arg_cong [OF join7 [of "drop_bit 14 ?w"], of "push_bit 14"]
    by (simp add: push_bit_add add.commute)
  show ?thesis
    using assms unfolding out_varlen_def write_variable_length_def decode_variable_length_cursor_def
    by (simp add: put_def varlen_loop_cont varlen_loop_last drop_bit_le j1 j2 j3 add.assoc)
qed

lemma decode_varlen_out_Nil [wire_simps]:
  "len \<le> MAX_PACKET_SIZE \<Longrightarrow> decode_variable_length_cursor (out_varlen len) = Inr (len, [])"
  using decode_varlen_out [of len "[]"] by simp

lemma varlen_loop_not_panicked: "varlen_loop sh acc s \<noteq> Inl Panicked"
  by (induction sh acc s rule: varlen_loop.induct) (auto simp: varlen_loop.simps Let_def)

lemma varlen_loop_consumes: "varlen_loop sh acc s = Inr (v, t) \<Longrightarrow> length t < length s"
  by (induction sh acc s rule: varlen_loop.induct)
    (auto simp: varlen_loop.simps Let_def less_Suc_eq split: if_splits)

lemma varlen_loop_length:
  "varlen_loop sh acc s = Inr (v, t) \<Longrightarrow> sh \<le> 21 \<Longrightarrow> length s \<le> length t + 1 + (21 - sh + 6) div 7"
proof (induction sh acc s rule: varlen_loop.induct)
  case (2 sh acc b s)
  show ?case
  proof (cases "b AND 0x80 = 0")
    case True
    with "2.prems" show ?thesis by (auto simp: varlen_loop.simps Let_def)
  next
    case False
    with "2.prems" have "sh < 21" and rec: "varlen_loop (sh + 7) (acc + push_bit sh (ucast (b AND 0x7F))) s = Inr (v, t)"
      by (auto simp: varlen_loop.simps Let_def split: if_splits)
    show ?thesis
    proof (cases "sh + 7 \<le> 21")
      case True
      with "2.IH" [OF refl False \<open>sh < 21\<close>] rec have "length s \<le> length t + 1 + (21 - (sh + 7) + 6) div 7"
        by blast
      with True show ?thesis by simp
    next
      case gt: False
      have "length s \<le> length t + 1"
        using rec gt by (cases s) (auto simp: varlen_loop.simps Let_def split: if_splits)
      with \<open>sh < 21\<close> show ?thesis by simp
    qed
  qed
qed simp

interpretation varlen: reader decode_variable_length_cursor
  by unfold_locales
    (auto simp: decode_variable_length_cursor_def safe_from_def consumes_def
       varlen_loop_not_panicked dest: varlen_loop_consumes)

lemmas decode_safe_0 = bool.decode_safe u16.decode_safe u32.decode_safe nonzero_u16.decode_safe
  nonzero_u32.decode_safe bytes.decode_safe string.decode_safe pair.decode_safe varlen.decode_safe

lemmas decode_safe_any [safe_intros] = decode_safe_0 [THEN safe_from_mono, OF le0]

lemmas decode_nongrow_any [safe_intros] = bool.decode_nongrow u16.decode_nongrow u32.decode_nongrow
  nonzero_u16.decode_nongrow nonzero_u32.decode_nongrow bytes.decode_nongrow string.decode_nongrow
  pair.decode_nongrow varlen.decode_nongrow

lemmas decode_consumes_any [consumes_intros] = bool.decode_consumes u16.decode_consumes
  u32.decode_consumes nonzero_u16.decode_consumes nonzero_u32.decode_consumes bytes.decode_consumes
  string.decode_consumes pair.decode_consumes varlen.decode_consumes

lemma safe_take_properties [safe_intros]: "safe_from n take_properties" "nongrow take_properties"
  unfolding take_properties_def by (intro safe_bind safe_intros; simp)+

text \<open>More input never changes what a loop that has decided returns.\<close>

lemma varlen_loop_append:
  "varlen_loop sh acc s = Inr (v, t) \<Longrightarrow> varlen_loop sh acc (s @ u) = Inr (v, t @ u)"
  by (induction sh acc s rule: varlen_loop.induct)
    (auto simp: varlen_loop.simps Let_def split: if_splits)

lemma varlen_loop_append_error:
  "varlen_loop sh acc s = Inl e \<Longrightarrow> e \<noteq> Raised MalformedPacket \<Longrightarrow>
     varlen_loop sh acc (s @ u) = Inl e"
  by (induction sh acc s rule: varlen_loop.induct)
    (auto simp: varlen_loop.simps Let_def split: if_splits)

lemma varlen_loop_suffix: "varlen_loop sh acc s = Inr (v, t) \<Longrightarrow> \<exists>p. s = p @ t \<and> p \<noteq> []"
proof (induction sh acc s rule: varlen_loop.induct)
  case (2 sh acc b s)
  show ?case
  proof (cases "b AND 0x80 = 0")
    case True
    with "2.prems" show ?thesis by (auto simp: varlen_loop.simps Let_def)
  next
    case False
    with 2 obtain p where "s = p @ t" by (auto simp: varlen_loop.simps Let_def split: if_splits)
    then show ?thesis by (metis append_Cons list.discI)
  qed
qed simp

lemma decode_variable_length_append:
  assumes "decode_variable_length s = Inr (Some (n, c))"
  shows "decode_variable_length (s @ u) = Inr (Some (n, c)) \<and> 1 \<le> c \<and> c \<le> length s"
proof -
  from assms obtain t where t: "decode_variable_length_cursor s = Inr (n, t)"
    and c: "c = length s - length t"
    unfolding decode_variable_length_def
    by (auto split: sum.splits fault.splits decode_error.splits)
  then have "length t < length s" by (auto intro: consumesD [OF varlen.decode_consumes])
  moreover have "decode_variable_length_cursor (s @ u) = Inr (n, t @ u)"
    using t by (simp add: decode_variable_length_cursor_def varlen_loop_append)
  ultimately show ?thesis using c by (simp add: decode_variable_length_def)
qed

lemma decode_variable_length_append_error:
  assumes "decode_variable_length s = Inl e"
  shows "decode_variable_length (s @ u) = Inl e"
proof -
  have "e \<noteq> Raised MalformedPacket" and "decode_variable_length_cursor s = Inl e"
    using assms unfolding decode_variable_length_def
    by (auto split: sum.splits fault.splits decode_error.splits)
  then have "decode_variable_length_cursor (s @ u) = Inl e"
    by (simp add: decode_variable_length_cursor_def varlen_loop_append_error)
  with \<open>e \<noteq> Raised MalformedPacket\<close> show ?thesis
    by (auto simp: decode_variable_length_def split: fault.splits decode_error.splits)
qed

lemma decode_variable_length_not_panicked: "decode_variable_length s \<noteq> Inl Panicked"
  using safe_fromD [OF varlen.decode_safe, of s]
  by (auto simp: decode_variable_length_def split: sum.splits fault.splits decode_error.splits)

lemma decode_variable_length_out [wire_simps]:
  "len \<le> MAX_PACKET_SIZE \<Longrightarrow>
     decode_variable_length (out_varlen len @ r) = Inr (Some (len, length (out_varlen len)))"
  by (simp add: decode_variable_length_def decode_varlen_out)

lemma out_varlen_neq_Nil [simp]: "len \<le> MAX_PACKET_SIZE \<Longrightarrow> out_varlen len \<noteq> []"
  using decode_varlen_out_Nil [of len] by (auto simp: decode_variable_length_cursor_def)

text \<open>The decoded value fits in 28 bits, so the \<open>u32\<close> additions of the loop do not overflow.\<close>

lemma unat_low7: "unat (ucast (b AND (0x7F::u8)) :: u32) \<le> 127"
proof -
  have "b AND 0x7F \<le> 0x7F" by (rule word_and_le1)
  then have "unat (b AND (0x7F::u8)) \<le> 127" by (simp add: word_le_nat_alt)
  then show ?thesis by (simp add: unsigned_ucast_eq take_bit_nat_def)
qed

lemma varlen_loop_bound:
  "varlen_loop sh acc s = Inr (v, t) \<Longrightarrow> sh \<in> {0, 7, 14, 21} \<Longrightarrow> unat acc < 2 ^ sh \<Longrightarrow> unat v < 2 ^ 28"
proof (induction sh acc s rule: varlen_loop.induct)
  case (2 sh acc b s)
  define d where "d = unat (ucast (b AND 0x7F) :: u32)"
  have d: "d \<le> 127" by (simp add: d_def unat_low7)
  have "unat acc + 2 ^ sh * d < 2 ^ sh * (d + 1)"
    using "2.prems"(3) by (simp add: distrib_left)
  also have "\<dots> \<le> 2 ^ sh * (128::nat)"
    using d by (intro mult_left_mono) auto
  finally have step: "unat acc + 2 ^ sh * d < 2 ^ (sh + 7)"
    by (simp add: power_add)
  have le28: "(2::nat) ^ (sh + 7) \<le> 2 ^ 28"
    using "2.prems"(2) by (intro power_increasing) auto
  have small: "2 ^ sh * d < 2 ^ 32"
    using step le28 by (simp add: less_le_trans)
  have "unat (push_bit sh (ucast (b AND 0x7F)) :: u32) = 2 ^ sh * d"
    using small
    by (simp add: d_def unsigned_push_bit_eq push_bit_nat_def take_bit_nat_eq_self mult.commute)
  then have "unat (acc + push_bit sh (ucast (b AND 0x7F))) = unat acc + 2 ^ sh * d"
    using step le28 by (simp add: unat_word_ariths)
  with 2 step le28 show ?case
    by (auto simp: varlen_loop.simps Let_def split: if_splits)
qed simp

section \<open>Facts shared by both protocol versions\<close>

lemma length_out_bytes [simp]: "length (out_bytes b) = 2 + length b"
  by (simp add: out_bytes_def)

lemma out_bytes_neq_Nil [simp]: "out_bytes b \<noteq> []"
  by (simp add: out_bytes_def)

lemma encode_bytes_out [out_simps]: "short b \<Longrightarrow> encode_bytes b = Inr (out_bytes b)"
  by (rule bytes.encode_out)

lemma ok_string_short [simp]: "ok_string utf8 b \<Longrightarrow> short b"
  by (simp add: ok_string_def)

lemma encode_u16_out [out_simps]: "encode_u16 w = Inr (put_u16 w)"
  by (simp add: u16.encode_out)

lemma out_varlen_0 [simp]: "out_varlen 0 = [0]"
  by (simp add: out_varlen_def write_variable_length_def put_def)

lemma short_MQTT [simp]: "short MQTT"
  by (simp add: short_def)

lemmas connect_flags_defs = connect_flags_def flags_from_bits_def flags_from_bits_truncate_def
  flags_contains_def flags_intersects_def Let_def

lemma connect_flags_None [simp]:
  "flags_from_bits CF_ALL (connect_flags u pw None cl) = Some (connect_flags u pw None cl)"
  "flags_contains (connect_flags u pw None cl) CF_USERNAME = u"
  "flags_contains (connect_flags u pw None cl) CF_PASSWORD = pw"
  "\<not> flags_contains (connect_flags u pw None cl) CF_WILL"
  "flags_contains (connect_flags u pw None cl) CF_CLEAN_START = cl"
  "\<not> flags_intersects (connect_flags u pw None cl) CF_WILL_QOS"
  "\<not> flags_contains (connect_flags u pw None cl) CF_WILL_RETAIN"
  by (simp_all add: connect_flags_defs)

lemma connect_flags_Some [simp]:
  "flags_from_bits CF_ALL (connect_flags u pw (Some (q, r)) cl)
     = Some (connect_flags u pw (Some (q, r)) cl)"
  "flags_contains (connect_flags u pw (Some (q, r)) cl) CF_USERNAME = u"
  "flags_contains (connect_flags u pw (Some (q, r)) cl) CF_PASSWORD = pw"
  "flags_contains (connect_flags u pw (Some (q, r)) cl) CF_WILL"
  "flags_contains (connect_flags u pw (Some (q, r)) cl) CF_CLEAN_START = cl"
  "flags_contains (connect_flags u pw (Some (q, r)) cl) CF_WILL_RETAIN = r"
  "drop_bit WILL_QOS_SHIFT (connect_flags u pw (Some (q, r)) cl) AND 3 = qos_value q"
  by (cases q; simp add: connect_flags_defs)+

lemmas dec_out [wire_simps] =
  u16.decode_out u16.decode_out_Nil nonzero_u16.decode_out nonzero_u16.decode_out_Nil
  u32.decode_out u32.decode_out_Nil nonzero_u32.decode_out nonzero_u32.decode_out_Nil
  bool.decode_out bool.decode_out_Nil
  bytes.decode_out bytes.decode_out_Nil string.decode_out string.decode_out_Nil
  pair.decode_out pair.decode_out_Nil

lemma dec_when_simps [simp]:
  "dec_when False d s = Inr (None, s)"
  "d s = Inr (x, s') \<Longrightarrow> dec_when True d s = Inr (Some x, s')"
  by (simp_all add: dec_when_def)

lemma publish_first_byte_bits:
  "(drop_bit (Suc 0) (publish_first_byte p) AND 7) AND 3 = qos_value (pub_qos p)"
  "((publish_first_byte p AND 0x0F) AND 0x08 = 0x08) = pub_dup p"
  "((publish_first_byte p AND 0x0F) AND 0x01 = 0x01) = pub_retain p"
  "PT_PUBLISH_START \<le> publish_first_byte p"
  "publish_first_byte p \<le> PT_PUBLISH_END"
  "publish_first_byte p \<noteq> PT_CONNECT" "publish_first_byte p \<noteq> PT_CONNACK"
  by (cases "pub_qos p"; cases "pub_dup p"; cases "pub_retain p";
      simp add: publish_first_byte_def word_le_nat_alt)+

lemma qos_value_and_3 [simp]: "qos_value q AND 3 = qos_value q"
  by (cases q) simp_all

lemma safe_dec_when [safe_intros]: "safe_from n d \<Longrightarrow> safe_from n (dec_when c d)"
  unfolding dec_when_def by (intro safe_intros safe_bind)

lemma nongrow_dec_when [safe_intros]: "nongrow d \<Longrightarrow> nongrow (dec_when c d)"
  unfolding dec_when_def by (intro safe_intros)

lemma safe_dec_rest [safe_intros]: "safe_from n dec_rest" "nongrow dec_rest"
  by (simp_all add: safe_from_def nongrow_def dec_rest_def)

end
