(* ===== verification/Codec_V3.thy ===== *)
theory Codec_V3
  imports Codec_Utils
begin

text \<open>
  MQTT 3.1 and 3.1.1 packets: \<open>ferromq-codec/src/v3/packet.rs\<close> (the packet types),
  \<open>v3/decode.rs\<close> (one decoder per packet, dispatched by \<open>v3_decode_packet\<close>) and \<open>v3/encode.rs\<close>
  (\<open>v3_get_encoded_size\<close> and \<open>v3_encode\<close>).

  Shown: decoding inverts encoding for every well-formed packet, the announced size is the number
  of bytes written, and no byte string makes the decoder panic.
\<close>

section \<open>Packets\<close>

datatype connect_ack_reason3 =
    CAR3_ConnectionAccepted | CAR3_UnacceptableProtocolVersion | CAR3_IdentifierRejected
  | CAR3_ServiceUnavailable | CAR3_BadUserNameOrPassword | CAR3_NotAuthorized | CAR3_Reserved

fun car3_to_u8 :: "connect_ack_reason3 \<Rightarrow> u8" where
  "car3_to_u8 CAR3_ConnectionAccepted = 0"
| "car3_to_u8 CAR3_UnacceptableProtocolVersion = 1"
| "car3_to_u8 CAR3_IdentifierRejected = 2"
| "car3_to_u8 CAR3_ServiceUnavailable = 3"
| "car3_to_u8 CAR3_BadUserNameOrPassword = 4"
| "car3_to_u8 CAR3_NotAuthorized = 5"
| "car3_to_u8 CAR3_Reserved = 6"

definition car3_try_from :: "u8 \<Rightarrow> decode_error + connect_ack_reason3" where
  "car3_try_from v =
     (if v = 0 then Inr CAR3_ConnectionAccepted
      else if v = 1 then Inr CAR3_UnacceptableProtocolVersion
      else if v = 2 then Inr CAR3_IdentifierRejected
      else if v = 3 then Inr CAR3_ServiceUnavailable
      else if v = 4 then Inr CAR3_BadUserNameOrPassword
      else if v = 5 then Inr CAR3_NotAuthorized
      else if v = 6 then Inr CAR3_Reserved
      else Inl MalformedPacket)"

fun car3_reason :: "connect_ack_reason3 \<Rightarrow> string" where
  "car3_reason CAR3_ConnectionAccepted = ''Connection Accepted''"
| "car3_reason CAR3_UnacceptableProtocolVersion =
     ''Connection Refused, unacceptable protocol version''"
| "car3_reason CAR3_IdentifierRejected = ''Connection Refused, identifier rejected''"
| "car3_reason CAR3_ServiceUnavailable = ''Connection Refused, Server unavailable''"
| "car3_reason CAR3_BadUserNameOrPassword = ''Connection Refused, bad user name or password''"
| "car3_reason CAR3_NotAuthorized = ''Connection Refused, not authorized''"
| "car3_reason _ = ''Connection Refused''"

record last_will3 =
  lw3_qos :: qos
  lw3_retain :: bool
  lw3_topic :: bytes
  lw3_message :: bytes

record connect3 =
  c3_protocol :: protocol
  c3_clean_session :: bool
  c3_keep_alive :: u16
  c3_last_will :: "last_will3 option"
  c3_client_id :: bytes
  c3_username :: "bytes option"
  c3_password :: "bytes option"
  c3_cert :: "cert_info option"

record connect_ack3 =
  ca3_return_code :: connect_ack_reason3
  ca3_session_present :: bool

datatype subscribe_return_code = SRC_Success qos | SRC_Failure

datatype packet3 =
    P3_Connect connect3
  | P3_ConnectAck connect_ack3
  | P3_Publish publish
  | P3_PublishAck u16
  | P3_PublishReceived u16
  | P3_PublishRelease u16
  | P3_PublishComplete u16
  | P3_Subscribe u16 "(bytes \<times> qos) list"
  | P3_SubscribeAck u16 "subscribe_return_code list"
  | P3_Unsubscribe u16 "bytes list"
  | P3_UnsubscribeAck u16
  | P3_PingRequest
  | P3_PingResponse
  | P3_Disconnect

fun v3_packet_type :: "packet3 \<Rightarrow> u8" where
  "v3_packet_type (P3_Connect _) = PT_CONNECT"
| "v3_packet_type (P3_ConnectAck _) = PT_CONNACK"
| "v3_packet_type (P3_Publish _) = PT_PUBLISH_START"
| "v3_packet_type (P3_PublishAck _) = PT_PUBACK"
| "v3_packet_type (P3_PublishReceived _) = PT_PUBREC"
| "v3_packet_type (P3_PublishRelease _) = PT_PUBREL"
| "v3_packet_type (P3_PublishComplete _) = PT_PUBCOMP"
| "v3_packet_type (P3_Subscribe _ _) = PT_SUBSCRIBE"
| "v3_packet_type (P3_SubscribeAck _ _) = PT_SUBACK"
| "v3_packet_type (P3_Unsubscribe _ _) = PT_UNSUBSCRIBE"
| "v3_packet_type (P3_UnsubscribeAck _) = PT_UNSUBACK"
| "v3_packet_type P3_PingRequest = PT_PINGREQ"
| "v3_packet_type P3_PingResponse = PT_PINGRESP"
| "v3_packet_type P3_Disconnect = PT_DISCONNECT"

section \<open>Decoding\<close>

definition v3_decode_ack :: "(u16 \<Rightarrow> packet3) \<Rightarrow> packet3 dec" where
  "v3_decode_ack f =
     dec_bind decode_nonzero_u16 (\<lambda>packet_id.
     dec_bind (ensure_end InvalidLength) (\<lambda>_.
     dec_return (f packet_id)))"

text \<open>
  The protocol name of a CONNECT: the two tests \<open>len == 4 && &src[0..4] == MQTT\<close> and
  \<open>len == 6 && &src[0..6] == MQISDP\<close>, each slicing the cursor only when the length fits.
\<close>

definition v3_decode_protocol_name :: "u16 \<Rightarrow> unit dec" where
  "v3_decode_protocol_name len =
     dec_bind (if len = 4 then dec_bind (slice_prefix 4) (\<lambda>p. dec_return (p = MQTT))
               else dec_return False) (\<lambda>is_mqtt.
     if is_mqtt then advance 4
     else dec_bind (if len = 6 then dec_bind (slice_prefix 6) (\<lambda>p. dec_return (p = MQISDP))
                    else dec_return False) (\<lambda>is_mqisdp.
          if is_mqisdp then advance 6 else dec_raise InvalidProtocol))"

definition v3_decode_last_will :: "(bytes \<Rightarrow> bool) \<Rightarrow> u8 \<Rightarrow> last_will3 dec" where
  "v3_decode_last_will utf8 flags =
     dec_bind (decode_bytestring utf8) (\<lambda>topic.
     dec_bind decode_bytes (\<lambda>message.
     dec_bind (dec_lift (qos_try_from (drop_bit WILL_QOS_SHIFT (flags AND CF_WILL_QOS)))) (\<lambda>q.
     dec_return \<lparr>lw3_qos = q, lw3_retain = flags_contains flags CF_WILL_RETAIN,
                 lw3_topic = topic, lw3_message = message\<rparr>)))"

definition v3_decode_connect_packet :: "(bytes \<Rightarrow> bool) \<Rightarrow> packet3 dec" where
  "v3_decode_connect_packet utf8 =
     dec_bind (ensure_remaining 10 InvalidLength) (\<lambda>_.
     dec_bind get_u16 (\<lambda>len.
     dec_bind (v3_decode_protocol_name len) (\<lambda>_.
     dec_bind get_u8 (\<lambda>level.
     dec_bind (ensure (level = MQTT_LEVEL_311 \<or> level = MQTT_LEVEL_31) UnsupportedProtocolLevel) (\<lambda>_.
     dec_bind get_u8 (\<lambda>bits.
     dec_bind (dec_lift (case flags_from_bits CF_ALL bits of
                 None \<Rightarrow> Inl ConnectReservedFlagSet | Some f \<Rightarrow> Inr f)) (\<lambda>flags.
     dec_bind (ensure (flags_contains flags CF_WILL \<or>
                 (\<not> flags_intersects flags CF_WILL_QOS \<and> \<not> flags_contains flags CF_WILL_RETAIN))
                 InvalidConnectFlags) (\<lambda>_.
     dec_bind decode_u16 (\<lambda>keep_alive.
     dec_bind (decode_bytestring utf8) (\<lambda>client_id.
     dec_bind (ensure (client_id \<noteq> [] \<or> flags_contains flags CF_CLEAN_START) InvalidClientId) (\<lambda>_.
     dec_bind (dec_when (flags_contains flags CF_WILL) (v3_decode_last_will utf8 flags)) (\<lambda>last_will.
     dec_bind (dec_when (flags_contains flags CF_USERNAME) (decode_bytestring utf8)) (\<lambda>username.
     dec_bind (dec_when (flags_contains flags CF_PASSWORD) decode_bytes) (\<lambda>password.
     dec_return (P3_Connect
       \<lparr>c3_protocol = Protocol level,
        c3_clean_session = flags_contains flags CF_CLEAN_START,
        c3_keep_alive = keep_alive, c3_last_will = last_will, c3_client_id = client_id,
        c3_username = username, c3_password = password, c3_cert = None\<rparr>)))))))))))))))"

definition v3_decode_connect_ack_packet :: "packet3 dec" where
  "v3_decode_connect_ack_packet =
     dec_bind (ensure_remaining 2 InvalidLength) (\<lambda>_.
     dec_bind get_u8 (\<lambda>bits.
     dec_bind (dec_lift (case flags_from_bits CAF_SESSION_PRESENT bits of
                 None \<Rightarrow> Inl ConnAckReservedFlagSet | Some f \<Rightarrow> Inr f)) (\<lambda>flags.
     dec_bind get_u8 (\<lambda>code.
     dec_bind (dec_lift (car3_try_from code)) (\<lambda>return_code.
     dec_return (P3_ConnectAck
       \<lparr>ca3_return_code = return_code,
        ca3_session_present = flags_contains flags CAF_SESSION_PRESENT\<rparr>))))))"

definition v3_decode_publish_packet :: "(bytes \<Rightarrow> bool) \<Rightarrow> u8 \<Rightarrow> packet3 dec" where
  "v3_decode_publish_packet utf8 packet_flags =
     dec_bind (decode_bytestring utf8) (\<lambda>topic.
     dec_bind (ensure (topic \<noteq> []) InvalidTopicName) (\<lambda>_.
     dec_bind (dec_lift (qos_try_from (drop_bit 1 (packet_flags AND 0x06)))) (\<lambda>q.
     dec_bind (dec_when (q \<noteq> AtMostOnce) decode_nonzero_u16) (\<lambda>packet_id.
     dec_bind dec_rest (\<lambda>payload.
     dec_return (P3_Publish
       \<lparr>pub_dup = (packet_flags AND 0x08 = 0x08), pub_retain = (packet_flags AND 0x01 = 0x01),
        pub_qos = q, pub_topic = topic, pub_packet_id = packet_id, pub_payload = payload,
        pub_properties = None\<rparr>))))))"

definition v3_subscribe_body :: "(bytes \<Rightarrow> bool) \<Rightarrow> (bytes \<times> qos) list \<Rightarrow> (bytes \<times> qos) list dec" where
  "v3_subscribe_body utf8 topic_filters =
     dec_bind (decode_bytestring utf8) (\<lambda>topic.
     dec_bind (ensure (topic \<noteq> []) InvalidTopicFilter) (\<lambda>_.
     dec_bind (ensure_remaining 1 InvalidLength) (\<lambda>_.
     dec_bind get_u8 (\<lambda>b.
     dec_bind (dec_lift (qos_try_from (b AND 0x03))) (\<lambda>q.
     dec_return (topic_filters @ [(topic, q)]))))))"

definition v3_decode_subscribe_packet :: "(bytes \<Rightarrow> bool) \<Rightarrow> packet3 dec" where
  "v3_decode_subscribe_packet utf8 =
     dec_bind decode_nonzero_u16 (\<lambda>packet_id.
     dec_bind (dec_while (v3_subscribe_body utf8) []) (\<lambda>topic_filters.
     dec_bind (ensure (topic_filters \<noteq> []) InvalidTopicFilter) (\<lambda>_.
     dec_return (P3_Subscribe packet_id topic_filters))))"

definition v3_subscribe_status :: "u8 \<Rightarrow> decode_error + subscribe_return_code" where
  "v3_subscribe_status code =
     (if code = 0x80 then Inr SRC_Failure
      else case qos_try_from code of Inl e \<Rightarrow> Inl e | Inr q \<Rightarrow> Inr (SRC_Success q))"

definition v3_decode_subscribe_ack_packet :: "packet3 dec" where
  "v3_decode_subscribe_ack_packet =
     dec_bind decode_nonzero_u16 (\<lambda>packet_id.
     dec_bind (dec_peek (\<lambda>src. src)) (\<lambda>codes.
     dec_bind (dec_lift (try_map v3_subscribe_status codes)) (\<lambda>status.
     dec_return (P3_SubscribeAck packet_id status))))"

definition v3_unsubscribe_body :: "(bytes \<Rightarrow> bool) \<Rightarrow> bytes list \<Rightarrow> bytes list dec" where
  "v3_unsubscribe_body utf8 topic_filters =
     dec_bind (decode_bytestring utf8) (\<lambda>topic.
     dec_bind (ensure (topic \<noteq> []) InvalidTopicFilter) (\<lambda>_.
     dec_return (topic_filters @ [topic])))"

definition v3_decode_unsubscribe_packet :: "(bytes \<Rightarrow> bool) \<Rightarrow> packet3 dec" where
  "v3_decode_unsubscribe_packet utf8 =
     dec_bind decode_nonzero_u16 (\<lambda>packet_id.
     dec_bind (dec_while (v3_unsubscribe_body utf8) []) (\<lambda>topic_filters.
     dec_bind (ensure (topic_filters \<noteq> []) InvalidTopicFilter) (\<lambda>_.
     dec_return (P3_Unsubscribe packet_id topic_filters))))"

definition v3_decode_dispatch :: "(bytes \<Rightarrow> bool) \<Rightarrow> u8 \<Rightarrow> packet3 dec" where
  "v3_decode_dispatch utf8 first_byte =
     (if first_byte = PT_CONNECT then v3_decode_connect_packet utf8
      else if first_byte = PT_CONNACK then v3_decode_connect_ack_packet
      else if PT_PUBLISH_START \<le> first_byte \<and> first_byte \<le> PT_PUBLISH_END
        then v3_decode_publish_packet utf8 (first_byte AND 0x0F)
      else if first_byte = PT_PUBACK then v3_decode_ack P3_PublishAck
      else if first_byte = PT_PUBREC then v3_decode_ack P3_PublishReceived
      else if first_byte = PT_PUBREL then v3_decode_ack P3_PublishRelease
      else if first_byte = PT_PUBCOMP then v3_decode_ack P3_PublishComplete
      else if first_byte = PT_SUBSCRIBE then v3_decode_subscribe_packet utf8
      else if first_byte = PT_SUBACK then v3_decode_subscribe_ack_packet
      else if first_byte = PT_UNSUBSCRIBE then v3_decode_unsubscribe_packet utf8
      else if first_byte = PT_UNSUBACK then v3_decode_ack P3_UnsubscribeAck
      else if first_byte = PT_PINGREQ then dec_return P3_PingRequest
      else if first_byte = PT_PINGRESP then dec_return P3_PingResponse
      else if first_byte = PT_DISCONNECT then dec_return P3_Disconnect
      else dec_raise UnsupportedPacketType)"

definition v3_decode_packet :: "(bytes \<Rightarrow> bool) \<Rightarrow> bytes \<Rightarrow> u8 \<Rightarrow> decode_error fault + packet3" where
  "v3_decode_packet utf8 src first_byte = dec_run (v3_decode_dispatch utf8 first_byte) src"

section \<open>Encoding\<close>

definition v3_get_encoded_publish_size :: "publish \<Rightarrow> nat" where
  "v3_get_encoded_publish_size p =
     (if pub_qos p = AtLeastOnce \<or> pub_qos p = ExactlyOnce
      then 4 + length (pub_topic p) + length (pub_payload p)
      else 2 + length (pub_topic p) + length (pub_payload p))"

definition v3_get_encoded_subscribe_size :: "(bytes \<times> qos) list \<Rightarrow> nat" where
  "v3_get_encoded_subscribe_size topic_filters =
     2 + foldl (\<lambda>acc (f, _). acc + 2 + length f + 1) 0 topic_filters"

definition v3_get_encoded_unsubscribe_size :: "bytes list \<Rightarrow> nat" where
  "v3_get_encoded_unsubscribe_size topic_filters =
     2 + foldl (\<lambda>acc f. acc + 2 + length f) 0 topic_filters"

fun v3_get_encoded_size :: "packet3 \<Rightarrow> nat" where
  "v3_get_encoded_size (P3_Connect c) =
     1 + 1 + 2 + (2 + length (protocol_name (c3_protocol c))) + (2 + length (c3_client_id c))
     + (case c3_last_will c of None \<Rightarrow> 0
        | Some w \<Rightarrow> 2 + length (lw3_topic w) + 2 + length (lw3_message w))
     + (case c3_username c of None \<Rightarrow> 0 | Some s \<Rightarrow> 2 + length s)
     + (case c3_password c of None \<Rightarrow> 0 | Some s \<Rightarrow> 2 + length s)"
| "v3_get_encoded_size (P3_Publish p) = v3_get_encoded_publish_size p"
| "v3_get_encoded_size (P3_ConnectAck _) = 2"
| "v3_get_encoded_size (P3_PublishAck _) = 2"
| "v3_get_encoded_size (P3_PublishReceived _) = 2"
| "v3_get_encoded_size (P3_PublishRelease _) = 2"
| "v3_get_encoded_size (P3_PublishComplete _) = 2"
| "v3_get_encoded_size (P3_UnsubscribeAck _) = 2"
| "v3_get_encoded_size (P3_Subscribe _ fs) = v3_get_encoded_subscribe_size fs"
| "v3_get_encoded_size (P3_SubscribeAck _ st) = 2 + length st"
| "v3_get_encoded_size (P3_Unsubscribe _ fs) = v3_get_encoded_unsubscribe_size fs"
| "v3_get_encoded_size P3_PingRequest = 0"
| "v3_get_encoded_size P3_PingResponse = 0"
| "v3_get_encoded_size P3_Disconnect = 0"

definition v3_encode_connect :: "connect3 \<Rightarrow> enc" where
  "v3_encode_connect c =
     enc_all
       [encode_bytes (protocol_name (c3_protocol c)),
        put [MQTT_LEVEL_311,
             connect_flags (c3_username c \<noteq> None) (c3_password c \<noteq> None)
               (map_option (\<lambda>w. (lw3_qos w, lw3_retain w)) (c3_last_will c)) (c3_clean_session c)],
        put (put_u16 (c3_keep_alive c)),
        encode_bytes (c3_client_id c),
        (case c3_last_will c of None \<Rightarrow> put []
         | Some w \<Rightarrow> enc_seq (encode_bytes (lw3_topic w)) (encode_bytes (lw3_message w))),
        (case c3_username c of None \<Rightarrow> put [] | Some s \<Rightarrow> encode_bytes s),
        (case c3_password c of None \<Rightarrow> put [] | Some s \<Rightarrow> encode_bytes s)]"

definition v3_encode_publish :: "publish \<Rightarrow> enc" where
  "v3_encode_publish p =
     enc_all
       [encode_bytes (pub_topic p),
        (if pub_qos p = AtMostOnce
         then (if pub_packet_id p \<noteq> None then Inl (Raised EncMalformedPacket) else put [])
         else (case pub_packet_id p of
                 None \<Rightarrow> Inl (Raised EncPacketIdRequired) | Some i \<Rightarrow> encode_u16 i)),
        put (pub_payload p)]"

definition v3_status_byte :: "subscribe_return_code \<Rightarrow> u8" where
  "v3_status_byte s = (case s of SRC_Success q \<Rightarrow> qos_value q | SRC_Failure \<Rightarrow> 0x80)"

fun v3_encode :: "packet3 \<Rightarrow> u32 \<Rightarrow> enc" where
  "v3_encode (P3_Connect c) n =
     enc_all [put [PT_CONNECT], write_variable_length n, v3_encode_connect c]"
| "v3_encode (P3_ConnectAck a) n =
     enc_all [put [PT_CONNACK], write_variable_length n,
       put [if ca3_session_present a then 1 else 0, car3_to_u8 (ca3_return_code a)]]"
| "v3_encode (P3_Publish p) n =
     enc_all [put [publish_first_byte p], write_variable_length n, v3_encode_publish p]"
| "v3_encode (P3_PublishAck i) n =
     enc_all [put [PT_PUBACK], write_variable_length n, encode_u16 i]"
| "v3_encode (P3_PublishReceived i) n =
     enc_all [put [PT_PUBREC], write_variable_length n, encode_u16 i]"
| "v3_encode (P3_PublishRelease i) n =
     enc_all [put [PT_PUBREL], write_variable_length n, encode_u16 i]"
| "v3_encode (P3_PublishComplete i) n =
     enc_all [put [PT_PUBCOMP], write_variable_length n, encode_u16 i]"
| "v3_encode (P3_Subscribe i fs) n =
     enc_all [put [PT_SUBSCRIBE], write_variable_length n, encode_u16 i,
       enc_all (map (\<lambda>(f, q). enc_seq (encode_bytes f) (put [qos_value q])) fs)]"
| "v3_encode (P3_SubscribeAck i st) n =
     enc_all [put [PT_SUBACK], write_variable_length n, encode_u16 i, put (map v3_status_byte st)]"
| "v3_encode (P3_Unsubscribe i fs) n =
     enc_all [put [PT_UNSUBSCRIBE], write_variable_length n, encode_u16 i,
       enc_all (map encode_bytes fs)]"
| "v3_encode (P3_UnsubscribeAck i) n =
     enc_all [put [PT_UNSUBACK], write_variable_length n, encode_u16 i]"
| "v3_encode P3_PingRequest n = put [PT_PINGREQ, 0]"
| "v3_encode P3_PingResponse n = put [PT_PINGRESP, 0]"
| "v3_encode P3_Disconnect n = put [PT_DISCONNECT, 0]"

section \<open>Well-formed packets and what they look like on the wire\<close>

text \<open>
  The invariants of the Rust types (valid UTF-8 in a \<open>ByteString\<close>, a non-zero packet id) and of the
  protocol (a string fits its 16-bit length, an empty client id needs a clean session, at least one
  topic filter, topics are not empty). The protocol level is 4: the encoder always writes
  \<open>MQTT_LEVEL_311\<close>.
\<close>

definition v3_wf_connect :: "(bytes \<Rightarrow> bool) \<Rightarrow> connect3 \<Rightarrow> bool" where
  "v3_wf_connect utf8 c \<longleftrightarrow>
     c3_protocol c = Protocol MQTT_LEVEL_311 \<and> ok_string utf8 (c3_client_id c) \<and>
     (c3_client_id c = [] \<longrightarrow> c3_clean_session c) \<and>
     pred_option (\<lambda>w. ok_string utf8 (lw3_topic w) \<and> short (lw3_message w)) (c3_last_will c) \<and>
     pred_option (ok_string utf8) (c3_username c) \<and> pred_option short (c3_password c) \<and>
     c3_cert c = None"

definition v3_wf_publish :: "(bytes \<Rightarrow> bool) \<Rightarrow> publish \<Rightarrow> bool" where
  "v3_wf_publish utf8 p \<longleftrightarrow>
     ok_string utf8 (pub_topic p) \<and> pub_topic p \<noteq> [] \<and>
     (pub_packet_id p = None \<longleftrightarrow> pub_qos p = AtMostOnce) \<and> pub_packet_id p \<noteq> Some 0 \<and>
     pub_properties p = None"

fun v3_wf :: "(bytes \<Rightarrow> bool) \<Rightarrow> packet3 \<Rightarrow> bool" where
  "v3_wf utf8 (P3_Connect c) = v3_wf_connect utf8 c"
| "v3_wf utf8 (P3_Publish p) = v3_wf_publish utf8 p"
| "v3_wf utf8 (P3_Subscribe i fs) =
     (i \<noteq> 0 \<and> fs \<noteq> [] \<and> list_all (\<lambda>(f, _). ok_string utf8 f \<and> f \<noteq> []) fs)"
| "v3_wf utf8 (P3_SubscribeAck i st) = (i \<noteq> 0)"
| "v3_wf utf8 (P3_Unsubscribe i fs) =
     (i \<noteq> 0 \<and> fs \<noteq> [] \<and> list_all (\<lambda>f. ok_string utf8 f \<and> f \<noteq> []) fs)"
| "v3_wf utf8 (P3_PublishAck i) = (i \<noteq> 0)"
| "v3_wf utf8 (P3_PublishReceived i) = (i \<noteq> 0)"
| "v3_wf utf8 (P3_PublishRelease i) = (i \<noteq> 0)"
| "v3_wf utf8 (P3_PublishComplete i) = (i \<noteq> 0)"
| "v3_wf utf8 (P3_UnsubscribeAck i) = (i \<noteq> 0)"
| "v3_wf utf8 _ = True"

definition v3_connect_body :: "connect3 \<Rightarrow> bytes" where
  "v3_connect_body c =
     out_bytes MQTT @ [MQTT_LEVEL_311,
       connect_flags (c3_username c \<noteq> None) (c3_password c \<noteq> None)
         (map_option (\<lambda>w. (lw3_qos w, lw3_retain w)) (c3_last_will c)) (c3_clean_session c)]
     @ put_u16 (c3_keep_alive c) @ out_bytes (c3_client_id c)
     @ (case c3_last_will c of None \<Rightarrow> []
        | Some w \<Rightarrow> out_bytes (lw3_topic w) @ out_bytes (lw3_message w))
     @ (case c3_username c of None \<Rightarrow> [] | Some s \<Rightarrow> out_bytes s)
     @ (case c3_password c of None \<Rightarrow> [] | Some s \<Rightarrow> out_bytes s)"

fun v3_body :: "packet3 \<Rightarrow> bytes" where
  "v3_body (P3_Connect c) = v3_connect_body c"
| "v3_body (P3_ConnectAck a) =
     [if ca3_session_present a then 1 else 0, car3_to_u8 (ca3_return_code a)]"
| "v3_body (P3_Publish p) =
     out_bytes (pub_topic p) @ (case pub_packet_id p of None \<Rightarrow> [] | Some i \<Rightarrow> put_u16 i)
     @ pub_payload p"
| "v3_body (P3_PublishAck i) = put_u16 i"
| "v3_body (P3_PublishReceived i) = put_u16 i"
| "v3_body (P3_PublishRelease i) = put_u16 i"
| "v3_body (P3_PublishComplete i) = put_u16 i"
| "v3_body (P3_UnsubscribeAck i) = put_u16 i"
| "v3_body (P3_Subscribe i fs) =
     put_u16 i @ concat (map (\<lambda>(f, q). out_bytes f @ [qos_value q]) fs)"
| "v3_body (P3_SubscribeAck i st) = put_u16 i @ map v3_status_byte st"
| "v3_body (P3_Unsubscribe i fs) = put_u16 i @ concat (map out_bytes fs)"
| "v3_body P3_PingRequest = []"
| "v3_body P3_PingResponse = []"
| "v3_body P3_Disconnect = []"

definition v3_first :: "packet3 \<Rightarrow> u8" where
  "v3_first p = (case p of P3_Publish q \<Rightarrow> publish_first_byte q | _ \<Rightarrow> v3_packet_type p)"

section \<open>Encoding writes the announced number of bytes\<close>

lemma foldl_plus_length:
  "foldl (\<lambda>acc f. acc + 2 + length f) a fs = a + length (concat (map out_bytes fs))"
  "foldl (\<lambda>acc (f, _). acc + 2 + length f + 1) a gs
     = a + length (concat (map (\<lambda>(f, q). out_bytes f @ [qos_value q]) gs))"
  by (induction fs arbitrary: a) (auto, induction gs arbitrary: a, auto)

lemma v3_list_sizes:
  "v3_get_encoded_subscribe_size gs
     = 2 + length (concat (map (\<lambda>(f, q). out_bytes f @ [qos_value q]) gs))"
  "v3_get_encoded_unsubscribe_size fs = 2 + length (concat (map out_bytes fs))"
  unfolding v3_get_encoded_subscribe_size_def v3_get_encoded_unsubscribe_size_def
    foldl_plus_length by simp_all

lemma protocol_name_311 [simp]: "protocol_name (Protocol 4) = MQTT"
  by (simp add: protocol_name_def)

lemma v3_length_body: "v3_wf utf8 p \<Longrightarrow> length (v3_body p) = v3_get_encoded_size p"
  by (cases p)
    (auto simp: v3_wf_connect_def v3_wf_publish_def v3_connect_body_def
      v3_get_encoded_publish_size_def v3_list_sizes
      split: option.splits intro: qos.exhaust)

lemma v3_encode_connect_out:
  "v3_wf_connect utf8 c \<Longrightarrow> v3_encode_connect c = Inr (v3_connect_body c)"
  by (auto simp: v3_encode_connect_def v3_connect_body_def v3_wf_connect_def out_simps put_def
      split: option.splits)

lemma v3_encode_publish_out:
  "v3_wf_publish utf8 p \<Longrightarrow> v3_encode_publish p = Inr (v3_body (P3_Publish p))"
  by (auto simp: v3_encode_publish_def v3_wf_publish_def out_simps put_def split: option.splits)

lemma enc_all_filters:
  "list_all (\<lambda>(f, _). ok_string utf8 f \<and> f \<noteq> []) fs \<Longrightarrow>
     enc_all (map (\<lambda>(f, q). enc_seq (encode_bytes f) (Inr [qos_value q])) fs)
       = Inr (concat (map (\<lambda>(f, q). out_bytes f @ [qos_value q]) fs))"
  by (intro enc_all_map_Inr) (auto simp: list_all_iff out_simps put_def)

lemma enc_all_strings:
  "list_all (\<lambda>f. ok_string utf8 f \<and> f \<noteq> []) fs \<Longrightarrow>
     enc_all (map encode_bytes fs) = Inr (concat (map out_bytes fs))"
  by (intro enc_all_map_Inr) (auto simp: list_all_iff out_simps)

lemma v3_encode_out:
  assumes "v3_wf utf8 p" and "n \<le> MAX_PACKET_SIZE" and "n = word_of_nat (v3_get_encoded_size p)"
  shows "v3_encode p n = Inr (v3_first p # out_varlen n @ v3_body p)"
  using assms
  by (cases p)
    (auto simp: v3_first_def v3_encode_connect_out v3_encode_publish_out out_simps put_def
      enc_all_filters enc_all_strings)

section \<open>Decoding inverts encoding\<close>

lemma car3_try_from_to_u8 [simp]: "car3_try_from (car3_to_u8 r) = Inr r"
  by (cases r) (simp_all add: car3_try_from_def)

lemma v3_protocol_name_out [wire_simps]:
  "get_u16 (out_bytes MQTT @ r) = Inr (4, MQTT @ r)"
  "v3_decode_protocol_name 4 (MQTT @ r) = Inr ((), r)"
  by (simp_all add: out_bytes_def v3_decode_protocol_name_def slice_prefix_def advance_def)

lemma v3_decode_connect_body:
  assumes "v3_wf_connect utf8 c"
  shows "v3_decode_connect_packet utf8 (v3_connect_body c) = Inr (P3_Connect c, [])"
proof (cases "c3_last_will c")
  case None
  with assms show ?thesis
    by (cases "c3_username c"; cases "c3_password c")
      (auto simp: v3_decode_connect_packet_def v3_connect_body_def v3_wf_connect_def wire_simps)
next
  case (Some w)
  with assms show ?thesis
    by (cases "c3_username c"; cases "c3_password c")
      (auto simp: v3_decode_connect_packet_def v3_connect_body_def v3_wf_connect_def wire_simps
         v3_decode_last_will_def)
qed

lemma v3_decode_publish_body:
  assumes "v3_wf_publish utf8 p"
  shows "v3_decode_publish_packet utf8 (publish_first_byte p AND 0x0F) (v3_body (P3_Publish p))
    = Inr (P3_Publish p, [])"
  using assms
  by (cases "pub_packet_id p")
    (auto simp: v3_decode_publish_packet_def v3_wf_publish_def wire_simps publish_first_byte_bits
       dec_rest_def)

lemma v3_subscribe_body_out:
  "ok_string utf8 f \<Longrightarrow> f \<noteq> [] \<Longrightarrow>
     v3_subscribe_body utf8 acc ((out_bytes f @ [qos_value q]) @ r) = Inr (acc @ [(f, q)], r)"
  by (simp add: v3_subscribe_body_def wire_simps)

lemma v3_decode_subscribe_body:
  assumes "v3_wf utf8 (P3_Subscribe i fs)"
  shows "v3_decode_subscribe_packet utf8 (v3_body (P3_Subscribe i fs)) = Inr (P3_Subscribe i fs, [])"
proof -
  let ?f = "\<lambda>(f, q). out_bytes f @ [qos_value q]"
  have "dec_while (v3_subscribe_body utf8) [] (concat (map ?f fs) @ [])
      = dec_while (v3_subscribe_body utf8) (foldl (\<lambda>a x. a @ [x]) [] fs) []"
    using assms
    by (intro dec_while_concat) (auto simp: list_all_iff v3_subscribe_body_out [simplified])
  then have "dec_while (v3_subscribe_body utf8) [] (concat (map ?f fs)) = Inr (fs, [])"
    using foldl_append_singleton [of id "[]" fs] by simp
  with assms show ?thesis by (simp add: v3_decode_subscribe_packet_def wire_simps)
qed

lemma v3_decode_unsubscribe_body:
  assumes "v3_wf utf8 (P3_Unsubscribe i fs)"
  shows "v3_decode_unsubscribe_packet utf8 (v3_body (P3_Unsubscribe i fs))
    = Inr (P3_Unsubscribe i fs, [])"
proof -
  have "dec_while (v3_unsubscribe_body utf8) [] (concat (map out_bytes fs) @ [])
      = dec_while (v3_unsubscribe_body utf8) (foldl (\<lambda>a x. a @ [x]) [] fs) []"
    using assms
    by (intro dec_while_concat) (auto simp: list_all_iff v3_unsubscribe_body_def wire_simps)
  then have "dec_while (v3_unsubscribe_body utf8) [] (concat (map out_bytes fs)) = Inr (fs, [])"
    using foldl_append_singleton [of id "[]" fs] by simp
  with assms show ?thesis by (simp add: v3_decode_unsubscribe_packet_def wire_simps)
qed

lemma v3_subscribe_status_byte [simp]: "v3_subscribe_status (v3_status_byte s) = Inr s"
proof (cases s)
  case (SRC_Success q)
  then show ?thesis by (cases q) (simp_all add: v3_subscribe_status_def v3_status_byte_def qos_try_from_def)
qed (simp add: v3_subscribe_status_def v3_status_byte_def)

lemma v3_decode_body:
  assumes "v3_wf utf8 p"
  shows "v3_decode_packet utf8 (v3_body p) (v3_first p) = Inr p"
proof (cases p)
  case (P3_Publish q)
  with assms show ?thesis
    using v3_decode_publish_body [of utf8 q]
    by (simp add: v3_decode_packet_def v3_decode_dispatch_def v3_first_def publish_first_byte_bits)
next
  case (P3_Subscribe i fs)
  with assms show ?thesis
    using v3_decode_subscribe_body [of utf8 i fs]
    by (simp add: v3_decode_packet_def v3_decode_dispatch_def v3_first_def word_le_nat_alt)
next
  case (P3_Unsubscribe i fs)
  with assms show ?thesis
    using v3_decode_unsubscribe_body [of utf8 i fs]
    by (simp add: v3_decode_packet_def v3_decode_dispatch_def v3_first_def word_le_nat_alt)
qed (use assms in \<open>auto simp: v3_decode_packet_def v3_decode_dispatch_def v3_first_def
       v3_decode_connect_body v3_decode_connect_ack_packet_def v3_decode_ack_def
       v3_decode_subscribe_ack_packet_def wire_simps flags_from_bits_def flags_contains_def
       word_le_nat_alt\<close>)

section \<open>No input makes the decoder panic\<close>

lemma safe_v3_decode_ack: "safe_from 0 (v3_decode_ack f)"
  unfolding v3_decode_ack_def by (intro safe_bind safe_intros)

text \<open>
  The unchecked reads of a CONNECT: ten bytes are there, two are the length of the name, at most six
  are the name, and two are left for the level and the flags.
\<close>

lemma protocol_name_leaves_two:
  "8 \<le> length s \<Longrightarrow> v3_decode_protocol_name len s = Inr (x, s') \<Longrightarrow> 2 \<le> length s'"
  unfolding v3_decode_protocol_name_def
  by (auto simp: dec_bind_def advance_def slice_prefix_def split: if_splits sum.splits)

lemma safe_v3_decode_protocol_name: "safe_from 8 (v3_decode_protocol_name len)"
  unfolding v3_decode_protocol_name_def
  by (auto simp: safe_from_def dec_bind_def advance_def slice_prefix_def)

lemma safe_bind_protocol_name [safe_intros]:
  assumes "8 \<le> n" and "safe_from 2 (f ())"
  shows "safe_from n (dec_bind (v3_decode_protocol_name len) f)"
  using assms
  by (intro safe_bind_leaves [OF safe_from_mono [OF safe_v3_decode_protocol_name]])
    (auto intro: protocol_name_leaves_two [rotated])

lemma safe_v3_decode_last_will [safe_intros]: "safe_from n (v3_decode_last_will utf8 flags)"
  unfolding v3_decode_last_will_def by (intro safe_bind safe_intros)

lemma safe_v3_decode_connect_packet: "safe_from 0 (v3_decode_connect_packet utf8)"
  unfolding v3_decode_connect_packet_def
  apply (rule safe_bind_known safe_bind_protocol_name | simp)+
  apply (intro safe_bind safe_intros)
  done

lemma safe_v3_decode_connect_ack_packet: "safe_from 0 v3_decode_connect_ack_packet"
  unfolding v3_decode_connect_ack_packet_def
  by (rule safe_bind_known safe_basic | simp)+

lemma safe_v3_decode_publish_packet: "safe_from 0 (v3_decode_publish_packet utf8 flags)"
  unfolding v3_decode_publish_packet_def by (intro safe_bind safe_intros)

lemma v3_subscribe_body_reads:
  "safe_from n (v3_subscribe_body utf8 acc)" "consumes (v3_subscribe_body utf8 acc)"
  unfolding v3_subscribe_body_def
  by (rule safe_bind safe_intros | simp)+
    (intro consumes_bind1 consumes_intros safe_intros consumes_nongrow [OF consumes_reads(1)])

lemma v3_unsubscribe_body_reads:
  "safe_from n (v3_unsubscribe_body utf8 acc)" "consumes (v3_unsubscribe_body utf8 acc)"
  unfolding v3_unsubscribe_body_def
  by (rule safe_bind safe_intros)+ (intro consumes_bind1 consumes_intros safe_intros)

lemma safe_v3_decode_subscribe_packet: "safe_from 0 (v3_decode_subscribe_packet utf8)"
  unfolding v3_decode_subscribe_packet_def
  by (intro safe_bind safe_intros safe_dec_while v3_subscribe_body_reads)

lemma safe_v3_decode_unsubscribe_packet: "safe_from 0 (v3_decode_unsubscribe_packet utf8)"
  unfolding v3_decode_unsubscribe_packet_def
  by (intro safe_bind safe_intros safe_dec_while v3_unsubscribe_body_reads)

lemma safe_v3_decode_subscribe_ack_packet: "safe_from 0 v3_decode_subscribe_ack_packet"
  unfolding v3_decode_subscribe_ack_packet_def by (intro safe_bind safe_intros)

lemma safe_v3_decode_dispatch: "safe_from 0 (v3_decode_dispatch utf8 b)"
  unfolding v3_decode_dispatch_def
  by (intro safe_intros safe_v3_decode_ack safe_v3_decode_connect_packet
      safe_v3_decode_connect_ack_packet safe_v3_decode_publish_packet
      safe_v3_decode_subscribe_packet safe_v3_decode_subscribe_ack_packet
      safe_v3_decode_unsubscribe_packet)

lemma v3_decode_packet_not_panicked: "v3_decode_packet utf8 s b \<noteq> Inl Panicked"
  unfolding v3_decode_packet_def by (rule dec_run_not_panicked [OF safe_v3_decode_dispatch])

end
