(* ===== verification/Framing.thy ===== *)
theory Framing
  imports Codec_Utils
begin

text \<open>
  Framing: the \<open>Decoder::decode\<close> loop that \<open>v3/codec.rs\<close> and \<open>v5/codec.rs\<close> both contain, as one
  function of the packet decoder and of the inbound size limit. A call returns the result together
  with the state and the buffer the call leaves behind, also when it fails.

  The locale \<open>framing\<close> is the contract between a frame and its packet: the first byte and the body
  decode to the packet. From it follow that a stream of frames is decoded to its packets, whatever
  follows them. Independently of it, the way the bytes are cut into network reads does not matter
  (\<open>drain_append\<close>), and no input makes the loop panic unless the packet decoder does.
\<close>

section \<open>The decoding loop\<close>

datatype decode_state = FrameHeader | Frame fixed_header

type_synonym 'p packet_decoder = "bytes \<Rightarrow> u8 \<Rightarrow> decode_error fault + 'p"
type_synonym 'p frame_result = "(decode_error fault + ('p \<times> u32) option) \<times> decode_state \<times> bytes"

function (sequential) frame_decode ::
  "'p packet_decoder \<Rightarrow> u32 \<Rightarrow> decode_state \<Rightarrow> bytes \<Rightarrow> 'p frame_result" where
  "frame_decode decode_packet max_size FrameHeader src =
     (if length src < 2 then (Inr None, FrameHeader, src)
      else case decode_variable_length (drop 1 src) of
          Inl e \<Rightarrow> (Inl e, FrameHeader, src)
        | Inr None \<Rightarrow> (Inr None, FrameHeader, src)
        | Inr (Some (remaining_length, consumed)) \<Rightarrow>
            if max_size \<noteq> 0 \<and> max_size < remaining_length then
              (Inl (Raised (MaxSizeExceeded remaining_length max_size)), FrameHeader, src)
            else case advance (consumed + 1) src of
                Inl e \<Rightarrow> (Inl e, FrameHeader, src)
              | Inr (_, src') \<Rightarrow>
                  (let state = Frame \<lparr>fh_first_byte = hd src, fh_remaining_length = remaining_length\<rparr> in
                   if length src' < unat remaining_length then (Inr None, state, src')
                   else frame_decode decode_packet max_size state src'))"
| "frame_decode decode_packet max_size (Frame fixed) src =
     (if length src < unat (fh_remaining_length fixed) then (Inr None, Frame fixed, src)
      else case split_to (unat (fh_remaining_length fixed)) src of
          Inl e \<Rightarrow> (Inl e, Frame fixed, src)
        | Inr (packet_buf, src') \<Rightarrow>
            (case decode_packet packet_buf (fh_first_byte fixed) of
               Inl e \<Rightarrow> (Inl e, Frame fixed, src')
             | Inr packet \<Rightarrow> (Inr (Some (packet, fh_remaining_length fixed)), FrameHeader, src')))"
  by pat_completeness auto
termination
  by (relation "measure (\<lambda>(_, _, state, _). case state of FrameHeader \<Rightarrow> 1 | Frame _ \<Rightarrow> 0)") auto

text \<open>
  A caller drains its buffer by calling \<open>decode\<close> until it asks for more bytes or fails. The packets
  are collected in order; what is left is the state, the buffer and the error, if any.
\<close>

definition frame_measure :: "decode_state \<Rightarrow> bytes \<Rightarrow> nat" where
  "frame_measure state src = 2 * length src + (case state of FrameHeader \<Rightarrow> 0 | Frame _ \<Rightarrow> 1)"

function drain :: "'p packet_decoder \<Rightarrow> u32 \<Rightarrow> decode_state \<Rightarrow> bytes \<Rightarrow>
    ('p \<times> u32) list \<times> decode_error fault option \<times> decode_state \<times> bytes" where
  "drain decode_packet max_size state src =
     (case frame_decode decode_packet max_size state src of
        (Inl e, state', src') \<Rightarrow> ([], Some e, state', src')
      | (Inr None, state', src') \<Rightarrow> ([], None, state', src')
      | (Inr (Some x), state', src') \<Rightarrow>
          if frame_measure state' src' < frame_measure state src then
            (case drain decode_packet max_size state' src' of (xs, r) \<Rightarrow> (x # xs, r))
          else ([x], Some Panicked, state', src'))"
  by pat_completeness auto
termination
  by (relation "measure (\<lambda>(_, _, state, src). frame_measure state src)") auto

declare drain.simps [simp del]

section \<open>More bytes\<close>

lemma advance_append:
  "advance n s = Inr (x, t) \<Longrightarrow> advance n (s @ u) = Inr (x, t @ u)"
  by (auto simp: advance_def split: if_splits)

lemma frame_body_append:
  assumes "unat (fh_remaining_length fixed) \<le> length a"
  shows "frame_decode dp m (Frame fixed) (a @ b)
    = (case frame_decode dp m (Frame fixed) a of (res, st, r) \<Rightarrow> (res, st, r @ b))"
  using assms by (auto simp: split_to_def split: sum.splits)

lemma frame_body_decides:
  "unat (fh_remaining_length fixed) \<le> length a \<Longrightarrow>
     frame_decode dp m (Frame fixed) a \<noteq> (Inr None, st, r)"
  by (auto simp: split_to_def split: sum.splits)

lemma frame_body_short:
  "frame_decode dp m (Frame fixed) a = (Inr None, st, r) \<Longrightarrow> st = Frame fixed \<and> r = a"
  by (auto simp: split_to_def split: sum.splits if_splits)

text \<open>What the header branch does once the length has been read.\<close>

lemma frame_header_read:
  assumes "2 \<le> length s" and "decode_variable_length (drop 1 s) = Inr (Some (n, c))"
    and "\<not> (m \<noteq> 0 \<and> m < n)"
  shows "frame_decode dp m FrameHeader s =
    frame_decode dp m (Frame \<lparr>fh_first_byte = hd s, fh_remaining_length = n\<rparr>) (drop (c + 1) s)"
proof -
  have "c + 1 \<le> length s"
    using assms(1) decode_variable_length_append [OF assms(2), of "[]"] by auto
  with assms show ?thesis by (auto simp: advance_def Let_def)
qed

lemma drop1_append: "2 \<le> length a \<Longrightarrow> drop (Suc 0) (a @ b) = drop (Suc 0) a @ b"
  by (cases a) auto

text \<open>A call that has decided decides the same when more bytes follow.\<close>

lemma frame_decode_append:
  assumes "frame_decode dp m st a = (res, st', r)" and "res \<noteq> Inr None"
  shows "frame_decode dp m st (a @ b) = (res, st', r @ b)"
proof (cases st)
  case (Frame fixed)
  then have "unat (fh_remaining_length fixed) \<le> length a"
    using assms by (auto split: if_splits)
  with assms Frame show ?thesis by (simp only: frame_body_append) simp
next
  case FrameHeader
  with assms have len: "2 \<le> length a" by (auto split: if_splits)
  show ?thesis
  proof (cases "decode_variable_length (drop 1 a)")
    case (Inl e)
    then show ?thesis
      using assms FrameHeader len decode_variable_length_append_error [OF Inl, of b]
      by (auto simp: drop1_append)
  next
    case (Inr v)
    with assms FrameHeader len obtain n c where v: "v = Some (n, c)" by (cases v) auto
    have dvl: "decode_variable_length (drop 1 (a @ b)) = Inr (Some (n, c))"
      using decode_variable_length_append [OF Inr [unfolded v], of b] len by (simp add: drop1_append)
    have c: "c + 1 \<le> length a"
      using decode_variable_length_append [OF Inr [unfolded v], of b] len by auto
    show ?thesis
    proof (cases "m \<noteq> 0 \<and> m < n")
      case True
      with assms FrameHeader len Inr v dvl show ?thesis by auto
    next
      case False
      let ?fixed = "\<lparr>fh_first_byte = hd a, fh_remaining_length = n\<rparr>"
      have "frame_decode dp m (Frame ?fixed) (drop (c + 1) a) = (res, st', r)"
        using assms FrameHeader frame_header_read [OF len Inr [unfolded v] False, of dp] by metis
      moreover have "unat n \<le> length (drop (c + 1) a)"
        using calculation assms(2) by (auto split: if_splits)
      ultimately have "frame_decode dp m (Frame ?fixed) (drop (c + 1) a @ b) = (res, st', r @ b)"
        by (subst frame_body_append) auto
      moreover have "hd (a @ b) = hd a" using len by (cases a) auto
      moreover have "2 \<le> length (a @ b)" using len by simp
      ultimately show ?thesis
        using FrameHeader c frame_header_read [OF _ dvl False, of dp]
        by (simp del: frame_decode.simps)
    qed
  qed
qed

text \<open>A call that asks for more bytes has kept all it read: the next call goes on from there.\<close>

lemma frame_decode_resume:
  assumes "frame_decode dp m st a = (Inr None, st', r)"
  shows "frame_decode dp m st (a @ b) = frame_decode dp m st' (r @ b)"
proof (cases st)
  case (Frame fixed)
  with assms frame_body_short show ?thesis by metis
next
  case FrameHeader
  show ?thesis
  proof (cases "2 \<le> length a \<and> (\<exists>n c. decode_variable_length (drop 1 a) = Inr (Some (n, c)))")
    case False
    with assms FrameHeader show ?thesis
      by (auto split: if_splits sum.splits option.splits)
  next
    case True
    then obtain n c where len: "2 \<le> length a"
      and v: "decode_variable_length (drop 1 a) = Inr (Some (n, c))" by blast
    have dvl: "decode_variable_length (drop 1 (a @ b)) = Inr (Some (n, c))"
      using decode_variable_length_append [OF v, of b] len by (simp add: drop1_append)
    have c: "c + 1 \<le> length a"
      using decode_variable_length_append [OF v, of b] len by auto
    from assms FrameHeader len v have m: "\<not> (m \<noteq> 0 \<and> m < n)" by auto
    have "hd (a @ b) = hd a" and "2 \<le> length (a @ b)" using len by (cases a; simp)+
    then show ?thesis
      using assms FrameHeader c frame_header_read [OF len v m] frame_header_read [OF _ dvl m]
        frame_body_short by (metis (no_types, lifting) drop_append diff_is_0_eq drop_0)
  qed
qed

section \<open>Progress and panics\<close>

lemma frame_body_progress:
  "frame_decode dp m (Frame fixed) s = (Inr (Some x), st, r) \<Longrightarrow> st = FrameHeader \<and> length r \<le> length s"
  by (auto simp: split_to_def split: sum.splits if_splits)

lemma frame_decode_progress:
  assumes "frame_decode dp m st s = (Inr (Some x), st', r)"
  shows "frame_measure st' r < frame_measure st s"
proof (cases st)
  case (Frame fixed)
  with frame_body_progress assms show ?thesis by (fastforce simp: frame_measure_def)
next
  case FrameHeader
  with assms obtain n c where len: "2 \<le> length s"
    and v: "decode_variable_length (drop 1 s) = Inr (Some (n, c))" and m: "\<not> (m \<noteq> 0 \<and> m < n)"
    by (auto split: if_splits sum.splits option.splits)
  have "frame_decode dp m (Frame \<lparr>fh_first_byte = hd s, fh_remaining_length = n\<rparr>) (drop (c + 1) s)
      = (Inr (Some x), st', r)"
    using assms FrameHeader frame_header_read [OF len v m, of dp] by metis
  then have "st' = FrameHeader \<and> length r \<le> length (drop (c + 1) s)"
    by (rule frame_body_progress)
  with FrameHeader len show ?thesis by (auto simp: frame_measure_def)
qed

lemma drain_unfold:
  "drain dp m st s =
     (case frame_decode dp m st s of
        (Inl e, st', r) \<Rightarrow> ([], Some e, st', r)
      | (Inr None, st', r) \<Rightarrow> ([], None, st', r)
      | (Inr (Some x), st', r) \<Rightarrow> (case drain dp m st' r of (xs, res) \<Rightarrow> (x # xs, res)))"
  by (subst drain.simps) (auto split: prod.splits sum.splits option.splits dest: frame_decode_progress)

lemma frame_decode_not_panicked:
  assumes "\<And>b s. dp s b \<noteq> Inl Panicked"
  shows "frame_decode dp m st s \<noteq> (Inl Panicked, st', r)"
proof -
  have body: "frame_decode dp m (Frame fixed) s \<noteq> (Inl Panicked, st', r)" for fixed s
    using assms by (auto simp: split_to_def split: sum.splits)
  show ?thesis
  proof (cases "st = FrameHeader \<and> 2 \<le> length s \<and>
      (\<exists>n c. decode_variable_length (drop 1 s) = Inr (Some (n, c)) \<and> \<not> (m \<noteq> 0 \<and> m < n))")
    case True
    then show ?thesis
      using body by (auto simp: frame_header_read simp del: frame_decode.simps)
  next
    case False
    show ?thesis
    proof (cases st)
      case FrameHeader
      with False show ?thesis
        using decode_variable_length_not_panicked [of "drop 1 s"]
        by (auto split: sum.splits option.splits)
    next
      case (Frame fixed)
      with body show ?thesis by metis
    qed
  qed
qed

section \<open>Cutting the stream\<close>

text \<open>Draining a buffer in two steps, with more bytes arriving in between.\<close>

lemma drain_append:
  "drain dp m st (a @ b) =
     (case drain dp m st a of
        (xs, Some e, st', r) \<Rightarrow> (xs, Some e, st', r @ b)
      | (xs, None, st', r) \<Rightarrow> (case drain dp m st' (r @ b) of (ys, res) \<Rightarrow> (xs @ ys, res)))"
proof (induction dp m st a rule: drain.induct)
  case (1 dp m st a)
  obtain res st' r where fd: "frame_decode dp m st a = (res, st', r)"
    by (cases "frame_decode dp m st a")
  show ?case
  proof (cases "res = Inr None")
    case True
    have "drain dp m st (a @ b) = drain dp m st' (r @ b)"
      unfolding drain_unfold [of dp m st "a @ b"] drain_unfold [of dp m st' "r @ b"]
        frame_decode_resume [OF fd [unfolded True], of b] ..
    moreover have "drain dp m st a = ([], None, st', r)"
      using fd True by (simp add: drain_unfold del: frame_decode.simps)
    ultimately show ?thesis by (simp split: prod.splits)
  next
    case False
    note app = frame_decode_append [OF fd False, of b]
    show ?thesis
    proof (cases res)
      case (Inl e)
      with fd app show ?thesis by (simp add: drain_unfold del: frame_decode.simps)
    next
      case (Inr v)
      with False obtain x where x: "res = Inr (Some x)" by (cases v) auto
      have IH: "drain dp m st' (r @ b) =
         (case drain dp m st' r of
            (xs, Some e, st', r) \<Rightarrow> (xs, Some e, st', r @ b)
          | (xs, None, st', r) \<Rightarrow> (case drain dp m st' (r @ b) of (ys, res) \<Rightarrow> (xs @ ys, res)))"
        by (rule "1.IH" [OF fd [symmetric] x refl refl frame_decode_progress [OF fd [unfolded x]]])
      have "drain dp m st (a @ b) = (case drain dp m st' (r @ b) of (xs, res) \<Rightarrow> (x # xs, res))"
        using app x by (subst drain_unfold) (simp del: frame_decode.simps)
      moreover have "drain dp m st a = (case drain dp m st' r of (xs, res) \<Rightarrow> (x # xs, res))"
        using fd x by (subst drain_unfold) (simp del: frame_decode.simps)
      ultimately show ?thesis
        using IH by (auto split: prod.splits option.splits)
    qed
  qed
qed

text \<open>
  A connection: the bytes arrive in chunks, and after each chunk the buffer is drained. An error ends
  the connection.
\<close>

fun feed :: "'p packet_decoder \<Rightarrow> u32 \<Rightarrow> decode_state \<Rightarrow> bytes \<Rightarrow> bytes list \<Rightarrow>
    ('p \<times> u32) list \<times> decode_error fault option" where
  "feed dp m st buf [] = ([], None)"
| "feed dp m st buf (c # cs) =
     (case drain dp m st (buf @ c) of
        (xs, Some e, _, _) \<Rightarrow> (xs, Some e)
      | (xs, None, st', r) \<Rightarrow> (case feed dp m st' r cs of (ys, res) \<Rightarrow> (xs @ ys, res)))"

lemma drain_rest_stuck:
  "drain dp m st s = (xs, None, st', r) \<Longrightarrow> drain dp m st' r = ([], None, st', r)"
proof (induction dp m st s arbitrary: xs rule: drain.induct)
  case (1 dp m st s)
  obtain res st1 r1 where fd: "frame_decode dp m st s = (res, st1, r1)"
    by (cases "frame_decode dp m st s")
  show ?case
  proof (cases "res = Inr None")
    case True
    with fd "1.prems" have eq: "st' = st1" "r = r1"
      by (simp_all add: drain_unfold [of dp m st] del: frame_decode.simps)
    have "frame_decode dp m st1 r1 = (Inr None, st1, r1)"
      using frame_decode_resume [OF fd [unfolded True], of "[]"] fd True by simp
    then show ?thesis unfolding eq by (subst drain_unfold) (simp del: frame_decode.simps)
  next
    case False
    with fd "1.prems" obtain x where x: "res = Inr (Some x)"
      by (cases res) (auto simp: drain_unfold [of dp m st] split: option.splits simp del: frame_decode.simps)
    then obtain ys where "drain dp m st1 r1 = (ys, None, st', r)"
      using fd "1.prems" by (auto simp: drain_unfold [of dp m st] split: prod.splits simp del: frame_decode.simps)
    then show ?thesis
      using "1.IH" [OF fd [symmetric] x refl refl frame_decode_progress [OF fd [unfolded x]]] by blast
  qed
qed

lemma feed_concat:
  assumes "drain dp m st buf = ([], None, st, buf)"
  shows "feed dp m st buf cs = (case drain dp m st (buf @ concat cs) of (xs, e, _) \<Rightarrow> (xs, e))"
  using assms
proof (induction cs arbitrary: st buf)
  case Nil
  then show ?case by simp
next
  case (Cons c cs)
  obtain xs e st' r where d: "drain dp m st (buf @ c) = (xs, e, st', r)"
    by (cases "drain dp m st (buf @ c)")
  show ?case
  proof (cases e)
    case (Some x)
    with d show ?thesis using drain_append [of dp m st "buf @ c" "concat cs"] by simp
  next
    case None
    then have "feed dp m st' r cs = (case drain dp m st' (r @ concat cs) of (xs, e, _) \<Rightarrow> (xs, e))"
      using Cons.IH drain_rest_stuck d by blast
    with d None show ?thesis
      using drain_append [of dp m st "buf @ c" "concat cs"] by (auto split: prod.splits)
  qed
qed

lemma feed_chunks:
  "feed dp m FrameHeader [] cs = (case drain dp m FrameHeader (concat cs) of (xs, e, _) \<Rightarrow> (xs, e))"
  using feed_concat [of dp m FrameHeader "[]" cs] by (simp add: drain_unfold [of dp m FrameHeader "[]"])

section \<open>Frames of packets\<close>

definition frame_bytes :: "('p \<Rightarrow> u8) \<Rightarrow> ('p \<Rightarrow> bytes) \<Rightarrow> 'p \<Rightarrow> bytes" where
  "frame_bytes first body p = first p # out_varlen (word_of_nat (length (body p))) @ body p"

locale framing =
  fixes decode_packet :: "'p packet_decoder" and first :: "'p \<Rightarrow> u8" and body :: "'p \<Rightarrow> bytes"
    and wf :: "'p \<Rightarrow> bool"
  assumes decode_body: "wf p \<Longrightarrow> decode_packet (body p) (first p) = Inr p"
begin

lemma decode_one:
  assumes "wf p" and "length (body p) \<le> unat MAX_PACKET_SIZE"
    and "m = 0 \<or> length (body p) \<le> unat m" and "n = word_of_nat (length (body p))"
  shows "frame_decode decode_packet m FrameHeader (first p # out_varlen n @ body p @ r)
    = (Inr (Some (p, n)), FrameHeader, r)"
proof -
  have n: "unat n = length (body p)" using assms by (simp add: unat_word_of_nat)
  then have max: "n \<le> MAX_PACKET_SIZE" using assms by (simp add: word_le_nat_alt)
  let ?s = "first p # out_varlen n @ body p @ r"
  have "length (out_varlen n) \<noteq> 0" using max by simp
  then have "2 \<le> length ?s" by (cases "out_varlen n") auto
  moreover have "decode_variable_length (drop 1 ?s) = Inr (Some (n, length (out_varlen n)))"
    using max by (simp add: decode_variable_length_out)
  moreover have "\<not> (m \<noteq> 0 \<and> m < n)" using assms n by (auto simp: word_less_nat_alt)
  ultimately show ?thesis
    using n assms(1) by (simp add: frame_header_read decode_body split_to_def del: frame_decode.simps(1))
qed

lemma drain_frames:
  assumes "\<And>p. p \<in> set ps \<Longrightarrow> wf p \<and> length (body p) \<le> unat MAX_PACKET_SIZE \<and>
             (m = 0 \<or> length (body p) \<le> unat m)"
  shows "drain decode_packet m FrameHeader (concat (map (frame_bytes first body) ps))
    = (map (\<lambda>p. (p, word_of_nat (length (body p)))) ps, None, FrameHeader, [])"
  using assms
proof (induction ps)
  case Nil
  then show ?case by (subst drain_unfold) simp
next
  case (Cons p ps)
  then have "frame_decode decode_packet m FrameHeader (frame_bytes first body p @ concat (map (frame_bytes first body) ps))
     = (Inr (Some (p, word_of_nat (length (body p)))), FrameHeader, concat (map (frame_bytes first body) ps))"
    unfolding frame_bytes_def using decode_one [of p m] by (auto simp del: frame_decode.simps)
  with Cons show ?case by (subst drain_unfold) (simp del: frame_decode.simps)
qed

end

end
