(* ===== verification/V3_Codec.thy ===== *)
theory V3_Codec
  imports Codec_V3 Framing
begin

text \<open>
  \<open>ferromq-codec/src/v3/codec.rs\<close>: the codec of MQTT 3.1.1 connections, the framing loop applied to
  \<open>v3_decode_packet\<close>, and the encoder with its packet-id check. The \<open>Cell\<close>s of the struct are record
  fields; \<open>reserve\<close> only affects the capacity of a buffer and has no counterpart.
\<close>

record v3_codec =
  v3c_state :: decode_state
  v3c_max_size :: u32

definition v3_codec_new :: "u32 \<Rightarrow> v3_codec" where
  "v3_codec_new max_packet_size = \<lparr>v3c_state = FrameHeader, v3c_max_size = max_packet_size\<rparr>"

definition v3_codec_default :: v3_codec where
  "v3_codec_default = v3_codec_new 0"

definition v3_codec_set_max_size :: "u32 \<Rightarrow> v3_codec \<Rightarrow> v3_codec" where
  "v3_codec_set_max_size sz c = c\<lparr>v3c_max_size := sz\<rparr>"

definition v3_codec_decode :: "(bytes \<Rightarrow> bool) \<Rightarrow> v3_codec \<Rightarrow> bytes \<Rightarrow>
    (decode_error fault + (packet3 \<times> u32) option) \<times> v3_codec \<times> bytes" where
  "v3_codec_decode utf8 c src =
     (case frame_decode (v3_decode_packet utf8) (v3c_max_size c) (v3c_state c) src of
        (res, state, src') \<Rightarrow> (res, c\<lparr>v3c_state := state\<rparr>, src'))"

definition v3_codec_encode :: "packet3 \<Rightarrow> enc" where
  "v3_codec_encode item =
     (if (case item of P3_Publish p \<Rightarrow>
            (pub_qos p = AtLeastOnce \<or> pub_qos p = ExactlyOnce) \<and> pub_packet_id p = None | _ \<Rightarrow> False)
      then Inl (Raised EncPacketIdRequired)
      else let content_size = v3_get_encoded_size item in
           v3_encode item (word_of_nat content_size))"

interpretation v3_frames: framing "v3_decode_packet utf8" v3_first v3_body "v3_wf utf8" for utf8
  by unfold_locales (rule v3_decode_body)

text \<open>The encoder writes the frame of a well-formed packet.\<close>

lemma v3_codec_encode_frame:
  assumes "v3_wf utf8 p" and "v3_get_encoded_size p \<le> unat MAX_PACKET_SIZE"
  shows "v3_codec_encode p = Inr (frame_bytes v3_first v3_body p)"
proof -
  let ?n = "word_of_nat (v3_get_encoded_size p) :: u32"
  have "?n \<le> MAX_PACKET_SIZE" using assms(2) by (simp add: word_le_nat_alt unat_word_of_nat)
  then have "v3_encode p ?n = Inr (frame_bytes v3_first v3_body p)"
    using v3_encode_out [OF assms(1) _ refl] v3_length_body [OF assms(1)]
    by (simp add: frame_bytes_def)
  with assms(1) show ?thesis
    by (auto simp: v3_codec_encode_def Let_def v3_wf_publish_def split: packet3.splits)
qed

lemma v3_codec_safe: "fst (v3_codec_decode utf8 c src) \<noteq> Inl Panicked"
  using frame_decode_not_panicked [of "v3_decode_packet utf8", OF v3_decode_packet_not_panicked]
  by (auto simp: v3_codec_decode_def simp del: frame_decode.simps split: prod.splits)

section \<open>Properties\<close>

text \<open>C1. A well-formed MQTT 3.1.1 packet is encoded to one fixed-header byte, the length of the
  remaining length field and as many bytes as \<open>get_encoded_size\<close> announces, and a fresh codec
  decodes these bytes, whatever follows them, to the same packet and leaves what follows.\<close>

theorem v3_codec_roundtrip:
  assumes "v3_wf utf8 p" and "v3_get_encoded_size p \<le> unat MAX_PACKET_SIZE"
    and "m = 0 \<or> v3_get_encoded_size p \<le> unat m"
  shows "\<exists>bs. v3_codec_encode p = Inr bs \<and>
    length bs = 1 + length (out_varlen (word_of_nat (v3_get_encoded_size p))) + v3_get_encoded_size p \<and>
    v3_codec_decode utf8 (v3_codec_new m) (bs @ rest)
      = (Inr (Some (p, word_of_nat (v3_get_encoded_size p))), v3_codec_new m, rest)"
proof -
  note len = v3_length_body [OF assms(1)]
  have "frame_decode (v3_decode_packet utf8) m FrameHeader (frame_bytes v3_first v3_body p @ rest)
      = (Inr (Some (p, word_of_nat (v3_get_encoded_size p))), FrameHeader, rest)"
    using v3_frames.decode_one [OF assms(1), of m "word_of_nat (v3_get_encoded_size p)" rest] assms len
    by (simp add: frame_bytes_def del: frame_decode.simps)
  with v3_codec_encode_frame [OF assms(1,2)] show ?thesis
    by (simp add: v3_codec_decode_def v3_codec_new_def len frame_bytes_def del: frame_decode.simps)
qed

theorem v3_codec_roundtrip_witness:
  "\<exists>bs. v3_codec_encode (P3_PublishAck 7) = Inr bs \<and> length bs = 1 + 1 + 2 \<and>
     v3_codec_decode (\<lambda>_. True) (v3_codec_new 16) (bs @ [1])
       = (Inr (Some (P3_PublishAck 7, 2)), v3_codec_new 16, [1])"
  using v3_codec_roundtrip [of "\<lambda>_. True" "P3_PublishAck 7" 16 "[1]"]
  by (simp add: out_varlen_def write_variable_length_def)

text \<open>However the bytes of a sequence of encoded MQTT 3.1.1 packets are cut into network reads,
  draining the codec after each read yields the packets in order and no error.\<close>

theorem v3_stream_chunks:
  assumes "\<And>p. p \<in> set ps \<Longrightarrow> v3_wf utf8 p \<and> v3_get_encoded_size p \<le> unat MAX_PACKET_SIZE \<and>
             (m = 0 \<or> v3_get_encoded_size p \<le> unat m)"
    and "enc_all (map v3_codec_encode ps) = Inr (concat chunks)"
  shows "feed (v3_decode_packet utf8) m FrameHeader [] chunks
    = (map (\<lambda>p. (p, word_of_nat (v3_get_encoded_size p))) ps, None)"
proof -
  have "enc_all (map v3_codec_encode ps) = Inr (concat (map (frame_bytes v3_first v3_body) ps))"
    using assms(1) by (intro enc_all_map_Inr v3_codec_encode_frame) auto
  then have "concat chunks = concat (map (frame_bytes v3_first v3_body) ps)"
    using assms(2) by simp
  moreover have "map (\<lambda>p. (p, word_of_nat (v3_get_encoded_size p) :: u32)) ps
      = map (\<lambda>p. (p, word_of_nat (length (v3_body p)))) ps"
    using assms(1) by (simp add: v3_length_body [of utf8])
  ultimately show ?thesis
    using v3_frames.drain_frames [of ps utf8 m] assms(1)
    by (simp add: feed_chunks v3_length_body [of utf8])
qed

theorem v3_stream_chunks_witness:
  "feed (v3_decode_packet (\<lambda>_. True)) 0 FrameHeader [] [[0xC0], [0, 0x40], [2, 0], [7]]
     = ([(P3_PingRequest, 0), (P3_PublishAck 7, 2)], None)"
proof -
  have "feed (v3_decode_packet (\<lambda>_. True)) 0 FrameHeader [] [[0xC0], [0, 0x40], [2, 0], [7]]
      = (map (\<lambda>p. (p, word_of_nat (v3_get_encoded_size p))) [P3_PingRequest, P3_PublishAck 7], None)"
    by (rule v3_stream_chunks)
      (auto simp: v3_codec_encode_def write_variable_length_def encode_u16_def put_u16_def)
  then show ?thesis by (simp del: feed.simps)
qed

text \<open>No byte string, no codec state and no size limit makes the MQTT 3.1.1 codec panic while
  decoding.\<close>

theorem v3_codec_decode_not_panicked: "fst (v3_codec_decode utf8 c src) \<noteq> Inl Panicked"
  by (rule v3_codec_safe)

text \<open>A frame header that announces more than the configured maximum is refused as soon as the
  header has arrived, and neither the state nor the buffer changes.\<close>

theorem v3_codec_max_size_exceeded:
  assumes "m \<noteq> 0" and "m < n" and "n \<le> MAX_PACKET_SIZE"
  shows "v3_codec_decode utf8 (v3_codec_new m) (b # out_varlen n @ rest)
    = (Inl (Raised (MaxSizeExceeded n m)), v3_codec_new m, b # out_varlen n @ rest)"
proof -
  have "out_varlen n \<noteq> []" using assms(3) by simp
  then have "2 \<le> length (b # out_varlen n @ rest)" by (cases "out_varlen n") auto
  then show ?thesis
    using assms decode_variable_length_out [OF assms(3), of rest]
    by (simp add: v3_codec_decode_def v3_codec_new_def)
qed

theorem v3_codec_max_size_exceeded_witness:
  "v3_codec_decode (\<lambda>_. True) (v3_codec_new 5) [0x30, 9]
     = (Inl (Raised (MaxSizeExceeded 9 5)), v3_codec_new 5, [0x30, 9])"
  using v3_codec_max_size_exceeded [of 5 9 "\<lambda>_. True" "0x30" "[]"]
  by (simp add: out_varlen_def write_variable_length_def)

end
