(* ===== verification/V5_Common.thy ===== *)
theory V5_Common
  imports Codec_Utils
begin

text \<open>
  What the MQTT 5 packets share: the property identifiers and \<open>ack_props\<close> of
  \<open>v5/packet/mod.rs\<close>, and the size and encoding helpers of \<open>v5/encode.rs\<close>.

  The sizes handed to the encoders (\<open>limit\<close>, \<open>size\<close>) are \<open>u32\<close>; their subtractions wrap, as in the
  release build of the program. User properties and the reason string are the diagnostic part of a
  packet: an encoder drops what does not fit the limit. \<open>fit_opt_props\<close> says which of them are kept,
  and the size computation and the encoder are shown to agree on it.

  The locale \<open>limited_packet\<close> is the contract of \<open>EncodeLtd\<close> together with the packet's decoder. It
  is interpreted on every packet of the protocol.
\<close>

section \<open>Property identifiers\<close>

abbreviation (input) pt_UTF8_PAYLOAD :: u8 where "pt_UTF8_PAYLOAD \<equiv> 0x01"
abbreviation (input) pt_MSG_EXPIRY_INT :: u8 where "pt_MSG_EXPIRY_INT \<equiv> 0x02"
abbreviation (input) pt_CONTENT_TYPE :: u8 where "pt_CONTENT_TYPE \<equiv> 0x03"
abbreviation (input) pt_RESP_TOPIC :: u8 where "pt_RESP_TOPIC \<equiv> 0x08"
abbreviation (input) pt_CORR_DATA :: u8 where "pt_CORR_DATA \<equiv> 0x09"
abbreviation (input) pt_SUB_ID :: u8 where "pt_SUB_ID \<equiv> 0x0B"
abbreviation (input) pt_SESS_EXPIRY_INT :: u8 where "pt_SESS_EXPIRY_INT \<equiv> 0x11"
abbreviation (input) pt_ASSND_CLIENT_ID :: u8 where "pt_ASSND_CLIENT_ID \<equiv> 0x12"
abbreviation (input) pt_SERVER_KA :: u8 where "pt_SERVER_KA \<equiv> 0x13"
abbreviation (input) pt_AUTH_METHOD :: u8 where "pt_AUTH_METHOD \<equiv> 0x15"
abbreviation (input) pt_AUTH_DATA :: u8 where "pt_AUTH_DATA \<equiv> 0x16"
abbreviation (input) pt_REQ_PROB_INFO :: u8 where "pt_REQ_PROB_INFO \<equiv> 0x17"
abbreviation (input) pt_WILL_DELAY_INT :: u8 where "pt_WILL_DELAY_INT \<equiv> 0x18"
abbreviation (input) pt_REQ_RESP_INFO :: u8 where "pt_REQ_RESP_INFO \<equiv> 0x19"
abbreviation (input) pt_RESP_INFO :: u8 where "pt_RESP_INFO \<equiv> 0x1A"
abbreviation (input) pt_SERVER_REF :: u8 where "pt_SERVER_REF \<equiv> 0x1C"
abbreviation (input) pt_REASON_STRING :: u8 where "pt_REASON_STRING \<equiv> 0x1F"
abbreviation (input) pt_RECEIVE_MAX :: u8 where "pt_RECEIVE_MAX \<equiv> 0x21"
abbreviation (input) pt_TOPIC_ALIAS_MAX :: u8 where "pt_TOPIC_ALIAS_MAX \<equiv> 0x22"
abbreviation (input) pt_TOPIC_ALIAS :: u8 where "pt_TOPIC_ALIAS \<equiv> 0x23"
abbreviation (input) pt_MAX_QOS :: u8 where "pt_MAX_QOS \<equiv> 0x24"
abbreviation (input) pt_RETAIN_AVAIL :: u8 where "pt_RETAIN_AVAIL \<equiv> 0x25"
abbreviation (input) pt_USER :: u8 where "pt_USER \<equiv> 0x26"
abbreviation (input) pt_MAX_PACKET_SIZE :: u8 where "pt_MAX_PACKET_SIZE \<equiv> 0x27"
abbreviation (input) pt_WILDCARD_SUB_AVAIL :: u8 where "pt_WILDCARD_SUB_AVAIL \<equiv> 0x28"
abbreviation (input) pt_SUB_IDS_AVAIL :: u8 where "pt_SUB_IDS_AVAIL \<equiv> 0x29"
abbreviation (input) pt_SHARED_SUB_AVAIL :: u8 where "pt_SHARED_SUB_AVAIL \<equiv> 0x2A"

section \<open>Sizes\<close>

text \<open>\<open>leading_zeros\<close> of a \<open>w\<close>-bit integer is \<open>w - bit_length\<close>.\<close>

fun bit_length :: "nat \<Rightarrow> nat" where
  "bit_length n = (if n = 0 then 0 else Suc (bit_length (n div 2)))"

declare bit_length.simps [simp del]

definition var_int_len :: "nat \<Rightarrow> u32" where
  "var_int_len val =
     [10, 9, 9, 9, 9, 9, 9, 9, 8, 8, 8, 8, 8, 8, 8, 7, 7, 7, 7, 7, 7, 7, 6, 6, 6, 6, 6, 6, 6,
      5, 5, 5, 5, 5, 5, 5, 4, 4, 4, 4, 4, 4, 4, 3, 3, 3, 3, 3, 3, 3, 2, 2, 2, 2, 2, 2, 2,
      1, 1, 1, 1, 1, 1, 1, 1] ! (64 - bit_length val)"

definition var_int_len_u32 :: "u32 \<Rightarrow> u32" where
  "var_int_len_u32 val =
     [5, 5, 5, 5, 4, 4, 4, 4, 4, 4, 4, 3, 3, 3, 3, 3, 3, 3, 2, 2, 2, 2, 2, 2, 2,
      1, 1, 1, 1, 1, 1, 1, 1] ! (32 - bit_length (unat val))"

definition var_int_len_from_size :: "u32 \<Rightarrow> u32" where
  "var_int_len_from_size val =
     (let over_size = var_int_len_u32 val; res = val - over_size + 1
      in val - var_int_len_u32 res)"

definition reduce_limit :: "u32 \<Rightarrow> nat \<Rightarrow> u32" where
  "reduce_limit limit reduction =
     (if reduction > unat limit then 0 else limit - word_of_nat reduction)"

definition encoded_property_size :: "('a \<Rightarrow> nat) \<Rightarrow> 'a option \<Rightarrow> nat" where
  "encoded_property_size sz v = (case v of None \<Rightarrow> 0 | Some x \<Rightarrow> 1 + sz x)"

definition encoded_property_size_default :: "('a \<Rightarrow> nat) \<Rightarrow> 'a \<Rightarrow> 'a \<Rightarrow> nat" where
  "encoded_property_size_default sz v dflt = (if v = dflt then 0 else 1 + sz v)"

definition encode_property :: "('a \<Rightarrow> enc) \<Rightarrow> 'a option \<Rightarrow> u8 \<Rightarrow> enc" where
  "encode_property e v prop_type =
     (case v of None \<Rightarrow> put [] | Some x \<Rightarrow> enc_seq (put [prop_type]) (e x))"

definition encode_property_default :: "('a \<Rightarrow> enc) \<Rightarrow> 'a \<Rightarrow> 'a \<Rightarrow> u8 \<Rightarrow> enc" where
  "encode_property_default e v dflt prop_type =
     (if v \<noteq> dflt then enc_seq (put [prop_type]) (e v) else put [])"

definition encoded_size_user_properties :: "user_properties \<Rightarrow> nat" where
  "encoded_size_user_properties ps = foldl (\<lambda>len prop. len + (1 + encoded_size_pair prop)) 0 ps"

definition encode_user_properties :: "user_properties \<Rightarrow> enc" where
  "encode_user_properties ps = enc_all (map (\<lambda>prop. enc_seq (put [pt_USER]) (encode_pair prop)) ps)"

fun encoded_size_opt_props :: "user_properties \<Rightarrow> bytes option \<Rightarrow> u32 \<Rightarrow> nat" where
  "encoded_size_opt_props [] reason_str limit =
     (case reason_str of None \<Rightarrow> 0
      | Some reason \<Rightarrow>
          (let reason_len = 1 + encoded_size_bytes reason
           in if reason_len \<le> unat limit then reason_len else 0))"
| "encoded_size_opt_props (up # ups) reason_str limit =
     (let prop_len = 1 + encoded_size_pair up
      in if prop_len > unat limit then 0
         else prop_len + encoded_size_opt_props ups reason_str (limit - word_of_nat prop_len))"

fun encode_opt_props :: "user_properties \<Rightarrow> bytes option \<Rightarrow> u32 \<Rightarrow> enc" where
  "encode_opt_props [] reason_str sz =
     (case reason_str of None \<Rightarrow> put []
      | Some reason \<Rightarrow>
          if length reason < unat sz then enc_seq (put [pt_REASON_STRING]) (encode_bytes reason)
          else put [])"
| "encode_opt_props (up # ups) reason_str sz =
     (let prop_len = 1 + encoded_size_bytes (fst up) + encoded_size_bytes (snd up)
      in if prop_len > unat sz then put []
         else enc_seq (enc_seq (put [pt_USER]) (encode_pair up))
                (encode_opt_props ups reason_str (sz - word_of_nat prop_len)))"

section \<open>Properties of acknowledgements\<close>

definition ack_props_encoded_size :: "user_properties \<Rightarrow> bytes option \<Rightarrow> u32 \<Rightarrow> nat" where
  "ack_props_encoded_size properties reason_string limit =
     (if limit < 4 then 1
      else let len = encoded_size_opt_props properties reason_string (limit - 4)
           in unat (var_int_len len) + len)"

definition ack_props_encode :: "user_properties \<Rightarrow> bytes option \<Rightarrow> u32 \<Rightarrow> enc" where
  "ack_props_encode properties reason_string sz =
     (if sz = 1 then put [0]
      else let sz' = var_int_len_from_size sz
           in enc_seq (write_variable_length sz') (encode_opt_props properties reason_string sz'))"

text \<open>
  A property block is a cursor of its own, cut from the packet by \<open>take_properties\<close>; \<open>on_props\<close>
  runs a loop on it.
\<close>

definition on_props :: "bytes \<Rightarrow> 'a dec \<Rightarrow> 'a dec" where
  "on_props prop_src d s = (case d prop_src of Inl e \<Rightarrow> Inl e | Inr (x, _) \<Rightarrow> Inr (x, s))"

text \<open>One arm \<open>v.read_value(prop_src)?\<close> of a property loop: the local \<open>v\<close> is updated.\<close>

definition read_into :: "'a dec \<Rightarrow> 'a option \<Rightarrow> ('a option \<Rightarrow> 'acc) \<Rightarrow> 'acc dec" where
  "read_into d v upd = dec_bind (read_value d v) (\<lambda>v'. dec_return (upd v'))"

text \<open>One arm \<open>user_properties.push(UserProperty::decode(prop_src)?)\<close>.\<close>

definition push_user :: "(bytes \<Rightarrow> bool) \<Rightarrow> (user_property \<Rightarrow> 'acc) \<Rightarrow> 'acc dec" where
  "push_user utf8 upd = dec_bind (decode_user_property utf8) (\<lambda>p. dec_return (upd p))"

definition ack_props_body ::
  "(bytes \<Rightarrow> bool) \<Rightarrow> user_properties \<times> bytes option \<Rightarrow> (user_properties \<times> bytes option) dec" where
  "ack_props_body utf8 = (\<lambda>(user_props, reason_string).
     dec_bind get_u8 (\<lambda>prop_id.
     if prop_id = pt_REASON_STRING then
       read_into (decode_bytestring utf8) reason_string (\<lambda>v. (user_props, v))
     else if prop_id = pt_USER then push_user utf8 (\<lambda>p. (user_props @ [p], reason_string))
     else dec_raise MalformedPacket))"

definition ack_props_decode :: "(bytes \<Rightarrow> bool) \<Rightarrow> (user_properties \<times> bytes option) dec" where
  "ack_props_decode utf8 =
     dec_bind take_properties (\<lambda>prop_src.
     on_props prop_src (dec_while (ack_props_body utf8) ([], None)))"

section \<open>Variable-length sizes\<close>

lemma bit_length_le: "bit_length n \<le> k \<longleftrightarrow> n < 2 ^ k"
proof (induction n arbitrary: k rule: bit_length.induct)
  case (1 n)
  show ?case
  proof (cases "n = 0")
    case True
    then show ?thesis by (simp add: bit_length.simps)
  next
    case False
    show ?thesis
    proof (cases k)
      case 0
      with False show ?thesis by (simp add: bit_length.simps [of n])
    next
      case (Suc j)
      have "n div 2 < 2 ^ j \<longleftrightarrow> n < 2 ^ Suc j" by (simp add: less_mult_imp_div_less div_less_iff_less_mult mult.commute)
      with False Suc "1.IH" show ?thesis by (simp add: bit_length.simps [of n])
    qed
  qed
qed

text \<open>The reference: the number of seven-bit groups of a value.\<close>

fun varint_groups :: "nat \<Rightarrow> nat" where
  "varint_groups n = (if n < 128 then 1 else Suc (varint_groups (n div 128)))"

declare varint_groups.simps [simp del]

lemma bit_length_div: "128 \<le> n \<Longrightarrow> bit_length n = bit_length (n div 128) + 7"
proof -
  assume "128 \<le> n"
  then have "bit_length n = Suc (Suc (Suc (Suc (Suc (Suc (Suc (bit_length (n div 128))))))))"
    by (simp add: bit_length.simps [of n] bit_length.simps [of "n div 2"]
      bit_length.simps [of "n div 4"] bit_length.simps [of "n div 8"]
      bit_length.simps [of "n div 16"] bit_length.simps [of "n div 32"]
      bit_length.simps [of "n div 64"] div_mult2_eq [symmetric] div_greater_zero_iff)
  then show ?thesis by simp
qed

lemma varint_groups_bit_length: "varint_groups n = (if n = 0 then 1 else (bit_length n + 6) div 7)"
proof (induction n rule: varint_groups.induct)
  case (1 n)
  show ?case
  proof (cases "n < 128")
    case True
    then have b: "bit_length n \<le> 7" by (simp add: bit_length_le)
    have "(bit_length n + 6) div 7 = 1" if "n \<noteq> 0"
    proof -
      have "1 \<le> bit_length n" using that by (simp add: bit_length.simps [of n])
      with b show ?thesis by linarith
    qed
    with True show ?thesis by (simp add: varint_groups.simps [of n])
  next
    case False
    then have "n div 128 \<noteq> 0" by (simp add: div_greater_zero_iff)
    then have "varint_groups (n div 128) = (bit_length (n div 128) + 6) div 7"
      using 1 False by (metis leI)
    moreover have "(bit_length (n div 128) + 7 + 6) div 7 = Suc ((bit_length (n div 128) + 6) div 7)"
      by presburger
    ultimately show ?thesis
      using False bit_length_div [of n] by (simp add: varint_groups.simps [of n])
  qed
qed

lemma list_all_upt_le: "list_all P [0..<Suc k] \<Longrightarrow> b \<le> k \<Longrightarrow> P b"
  by (auto simp: list_all_iff)

text \<open>The table of the source, for every bit length.\<close>

lemma var_int_table_64:
  "b \<le> 64 \<Longrightarrow> unat ([10, 9, 9, 9, 9, 9, 9, 9, 8, 8, 8, 8, 8, 8, 8, 7, 7, 7, 7, 7, 7, 7, 6, 6, 6, 6, 6, 6, 6,
      5, 5, 5, 5, 5, 5, 5, 4, 4, 4, 4, 4, 4, 4, 3, 3, 3, 3, 3, 3, 3, 2, 2, 2, 2, 2, 2, 2,
      1, 1, 1, 1, 1, 1, 1, 1 :: u32] ! (64 - b)) = (if b = 0 then 1 else (b + 6) div 7)"
  by (rule list_all_upt_le [where k = 64]) (simp_all add: upt_rec)

lemma var_int_table_32:
  "b \<le> 32 \<Longrightarrow> unat ([5, 5, 5, 5, 4, 4, 4, 4, 4, 4, 4, 3, 3, 3, 3, 3, 3, 3, 2, 2, 2, 2, 2, 2, 2,
      1, 1, 1, 1, 1, 1, 1, 1 :: u32] ! (32 - b)) = (if b = 0 then 1 else (b + 6) div 7)"
  by (rule list_all_upt_le [where k = 32]) (simp_all add: upt_rec)

lemma bit_length_0: "bit_length n = 0 \<longleftrightarrow> n = 0"
  by (simp add: bit_length.simps)

lemma unat_var_int_len: "n < 2 ^ 64 \<Longrightarrow> unat (var_int_len n) = varint_groups n"
  using var_int_table_64 [of "bit_length n"]
  by (simp add: var_int_len_def bit_length_le varint_groups_bit_length bit_length_0)

lemma unat_var_int_len_u32: "unat (var_int_len_u32 w) = varint_groups (unat w)"
proof -
  have "unat w < 2 ^ LENGTH(32)" by (rule unsigned_less)
  then show ?thesis
    using var_int_table_32 [of "bit_length (unat w)"]
    by (simp add: var_int_len_u32_def bit_length_le varint_groups_bit_length bit_length_0)
qed

lemma var_int_len_0 [simp]: "unat (var_int_len 0) = 1"
  by (simp add: unat_var_int_len varint_groups.simps)

lemma var_int_len_u32_groups: "var_int_len_u32 w = word_of_nat (varint_groups (unat w))"
  by (simp flip: unat_var_int_len_u32)

lemma varint_groups_table:
  "n < 2 ^ 35 \<Longrightarrow> varint_groups n =
     (if n < 128 then 1 else if n < 16384 then 2 else if n < 2097152 then 3
      else if n < 268435456 then 4 else 5)"
  by (simp add: varint_groups.simps [of n] varint_groups.simps [of "n div 128"]
      varint_groups.simps [of "n div 16384"] varint_groups.simps [of "n div 2097152"]
      varint_groups.simps [of "n div 268435456"] div_mult2_eq [symmetric] div_less_iff_less_mult)

lemma length_out_varlen:
  assumes "w \<le> MAX_PACKET_SIZE"
  shows "length (out_varlen w) = varint_groups (unat w)"
proof -
  have "unat w \<le> 268435455" using assms by (simp add: word_le_nat_alt)
  then show ?thesis
    by (auto simp: out_varlen_def write_variable_length_def put_def varint_groups_table word_le_nat_alt)
qed

text \<open>\<open>var_int_len_from_size\<close> recovers a length from the length plus its own encoded length.\<close>

lemma var_int_len_from_size_inverse:
  assumes "n \<le> unat MAX_PACKET_SIZE"
  shows "var_int_len_from_size (word_of_nat (n + unat (var_int_len n))) = word_of_nat n"
proof -
  have n: "n \<le> 268435455" using assms by simp
  let ?g = "varint_groups n"
  let ?v = "word_of_nat (n + ?g) :: u32"
  have g: "?g = (if n < 128 then 1 else if n < 16384 then 2 else if n < 2097152 then 3 else 4)"
    using n by (simp add: varint_groups_table)
  have "n + ?g < 2 ^ LENGTH(32)" using n g by auto
  then have v: "unat ?v = n + ?g" by (rule unat_word_of_nat)
  define o1 where "o1 = varint_groups (n + ?g)"
  have o1: "o1 = (if n + ?g < 128 then 1 else if n + ?g < 16384 then 2 else if n + ?g < 2097152 then 3
      else if n + ?g < 268435456 then 4 else 5)"
    unfolding o1_def using n g by (subst varint_groups_table) auto
  have le: "o1 \<le> n + ?g" using o1 g by auto
  have w1: "var_int_len_u32 ?v = word_of_nat o1"
    by (simp only: var_int_len_u32_groups v o1_def)
  have "?v - word_of_nat o1 + 1 = (word_of_nat (n + ?g - o1 + 1) :: u32)"
    using le by (simp add: of_nat_diff)
  moreover have "varint_groups (n + ?g - o1 + 1) = ?g"
  proof -
    define m where "m = n + ?g - o1 + 1"
    have m: "m + o1 = n + ?g + 1" using le by (simp add: m_def)
    have "m < 2 ^ 35" using n g by (auto simp: m_def)
    then have "varint_groups m = (if m < 128 then 1 else if m < 16384 then 2
        else if m < 2097152 then 3 else if m < 268435456 then 4 else 5)"
      by (rule varint_groups_table)
    also have "\<dots> = ?g" using m n g o1 by (auto split: if_splits)
    finally show ?thesis by (simp add: m_def)
  qed
  moreover have "unat (word_of_nat (n + ?g - o1 + 1) :: u32) = n + ?g - o1 + 1"
    using n g by (intro unat_word_of_nat) auto
  ultimately have "var_int_len_u32 (?v - var_int_len_u32 ?v + 1) = word_of_nat ?g"
    unfolding w1 by (simp only: var_int_len_u32_groups)
  then show ?thesis
    using n by (simp add: var_int_len_from_size_def Let_def unat_var_int_len)
qed

section \<open>Diagnostic properties that fit a limit\<close>

fun fit_opt_props :: "user_properties \<Rightarrow> bytes option \<Rightarrow> nat \<Rightarrow> user_properties \<times> bytes option" where
  "fit_opt_props [] reason limit =
     ([], case reason of None \<Rightarrow> None | Some s \<Rightarrow> if 3 + length s \<le> limit then Some s else None)"
| "fit_opt_props (up # ups) reason limit =
     (if limit < 1 + encoded_size_pair up then ([], None)
      else case fit_opt_props ups reason (limit - (1 + encoded_size_pair up)) of
             (ups', reason') \<Rightarrow> (up # ups', reason'))"

definition out_user :: "user_property \<Rightarrow> bytes" where
  "out_user p = pt_USER # out_pair p"

definition out_users :: "user_properties \<Rightarrow> bytes" where
  "out_users ps = concat (map out_user ps)"

definition out_prop :: "u8 \<Rightarrow> ('a \<Rightarrow> bytes) \<Rightarrow> 'a option \<Rightarrow> bytes" where
  "out_prop t out v = (case v of None \<Rightarrow> [] | Some x \<Rightarrow> t # out x)"

definition out_opt :: "user_properties \<times> bytes option \<Rightarrow> bytes" where
  "out_opt = (\<lambda>(ups, reason). out_users ups @ out_prop pt_REASON_STRING out_bytes reason)"

definition ok_opt :: "(bytes \<Rightarrow> bool) \<Rightarrow> user_properties \<times> bytes option \<Rightarrow> bool" where
  "ok_opt utf8 = (\<lambda>(ups, reason). list_all (ok_pair utf8) ups \<and> pred_option (ok_string utf8) reason)"

lemma out_users_simps [simp]:
  "out_users [] = []" "out_users (p # ps) = out_user p @ out_users ps"
  by (simp_all add: out_users_def)

lemma out_prop_simps [simp]:
  "out_prop t out None = []" "out_prop t out (Some x) = t # out x"
  by (simp_all add: out_prop_def)

definition prop_len :: "('a \<Rightarrow> bytes) \<Rightarrow> 'a option \<Rightarrow> nat" where
  "prop_len out v = (case v of None \<Rightarrow> 0 | Some x \<Rightarrow> 1 + length (out x))"

lemma length_out_prop [simp]: "length (out_prop t out v) = prop_len out v"
  by (simp add: out_prop_def prop_len_def split: option.splits)

lemma prop_len_simps [simp]: "prop_len out None = 0" "prop_len out (Some x) = 1 + length (out x)"
  by (simp_all add: prop_len_def)

lemma length_out_pair [simp]: "length (out_pair p) = encoded_size_pair p"
  by (simp add: out_pair_def out_bytes_def encoded_size_pair_def encoded_size_bytes_def)

lemma length_out_user [simp]: "length (out_user p) = 1 + encoded_size_pair p"
  by (simp add: out_user_def)

lemma ok_fit_opt_props:
  "ok_opt utf8 (ups, reason) \<Longrightarrow> ok_opt utf8 (fit_opt_props ups reason limit)"
  by (induction ups reason limit rule: fit_opt_props.induct)
    (auto simp: ok_opt_def split: option.splits prod.splits)

lemma fit_opt_props_all:
  "length (out_opt (ups, reason)) \<le> limit \<Longrightarrow> fit_opt_props ups reason limit = (ups, reason)"
  by (induction ups reason limit rule: fit_opt_props.induct)
    (auto simp: out_opt_def out_bytes_def prop_len_def split: option.splits)

lemma fit_opt_props_le: "length (out_opt (fit_opt_props ups reason limit)) \<le> limit"
  by (induction ups reason limit rule: fit_opt_props.induct)
    (auto simp: out_opt_def out_bytes_def prop_len_def split: option.splits prod.splits)

lemma unat_diff: "n \<le> unat (w::u32) \<Longrightarrow> unat (w - word_of_nat n) = unat w - n"
proof -
  assume n: "n \<le> unat w"
  moreover have "unat w < 2 ^ LENGTH(32)" by (rule unsigned_less)
  ultimately have "unat (word_of_nat n :: u32) = n" by (intro unat_word_of_nat) linarith
  with n show ?thesis by (simp add: unat_sub word_le_nat_alt)
qed

lemma unat_diff_Suc: "Suc n \<le> unat (w::u32) \<Longrightarrow> unat (w - (1 + word_of_nat n)) = unat w - Suc n"
  using unat_diff [of "Suc n" w] by simp

lemma unat_plus3: "n < 4294967293 \<Longrightarrow> unat (3 + word_of_nat n :: u32) = 3 + n"
  using unat_word_of_nat [of "3 + n", where 'a = 32] by simp

lemma encoded_size_opt_props_fit:
  "encoded_size_opt_props ups reason limit = length (out_opt (fit_opt_props ups reason (unat limit)))"
  by (induction ups reason limit rule: encoded_size_opt_props.induct)
    (auto simp: out_opt_def out_bytes_def prop_len_def encoded_size_bytes_def Let_def unat_diff_Suc
       split: option.splits prod.splits)

lemma encode_opt_props_fit:
  assumes "ok_opt utf8 (ups, reason)" and "sz = word_of_nat (length (out_opt (fit_opt_props ups reason limit)))"
    and "length (out_opt (fit_opt_props ups reason limit)) < 2 ^ 32"
  shows "encode_opt_props ups reason sz = Inr (out_opt (fit_opt_props ups reason limit))"
  using assms
proof (induction ups reason limit arbitrary: sz rule: fit_opt_props.induct)
  case (1 reason limit)
  then show ?case
    by (auto simp: ok_opt_def out_opt_def out_bytes_def prop_len_def unat_plus3 bytes.encode_out ok_string_def
        split: option.splits)
next
  case (2 up ups reason limit)
  let ?l = "1 + encoded_size_pair up"
  have pl: "1 + encoded_size_bytes (fst up) + encoded_size_bytes (snd up) = ?l"
    by (simp add: encoded_size_pair_def)
  show ?case
  proof (cases "limit < ?l")
    case True
    with "2.prems" show ?thesis
      by (simp add: out_opt_def Let_def encoded_size_pair_def)
  next
    case False
    let ?rest = "fit_opt_props ups reason (limit - ?l)"
    have len: "length (out_opt (fit_opt_props (up # ups) reason limit)) = ?l + length (out_opt ?rest)"
      using False by (auto simp: out_opt_def split: prod.splits)
    have sz: "unat sz = ?l + length (out_opt ?rest)"
      unfolding "2.prems"(2) len using "2.prems"(3) len by (intro unat_word_of_nat) simp
    have "sz - word_of_nat ?l = word_of_nat (length (out_opt ?rest))"
      using "2.prems"(2) len by simp
    then have "encode_opt_props ups reason (sz - word_of_nat ?l) = Inr (out_opt ?rest)"
      using "2.IH" [OF False _ ] "2.prems" len by (simp add: ok_opt_def)
    moreover have "encode_pair up = Inr (out_pair up)"
      using "2.prems"(1) by (auto simp: ok_opt_def intro: pair.encode_out)
    ultimately show ?thesis
      using False sz unfolding encode_opt_props.simps pl Let_def
      by (auto simp: out_opt_def out_user_def split: prod.splits)
  qed
qed

section \<open>Properties with a default\<close>

definition unwrap_or :: "'a option \<Rightarrow> 'a \<Rightarrow> 'a" where
  "unwrap_or v d = (case v of None \<Rightarrow> d | Some x \<Rightarrow> x)"

text \<open>A property that is written only when it differs from its default.\<close>

definition unless_default :: "'a \<Rightarrow> 'a \<Rightarrow> 'a option" where
  "unless_default v d = (if v = d then None else Some v)"

lemma unwrap_unless [simp]: "unwrap_or (unless_default v d) d = v"
  by (simp add: unwrap_or_def unless_default_def)

section \<open>Property loops\<close>

context reader
begin

lemma read_into_safe: "safe_from n (read_into decode v upd)"
  unfolding read_into_def by (intro safe_bind read_value_safe safe_intros)

lemma read_into_nongrow: "nongrow (read_into decode v upd)"
  unfolding read_into_def by (intro safe_intros read_value_nongrow)

end

context wire_value
begin

lemma encode_property_out: "pred_option ok v \<Longrightarrow> encode_property encode v t = Inr (out_prop t out v)"
  by (auto simp: encode_property_def out_prop_def encode_out split: option.splits)

lemma property_size_out: "pred_option ok v \<Longrightarrow> encoded_property_size encoded_size v = prop_len out v"
  by (auto simp: encoded_property_size_def prop_len_def size_out split: option.splits)

lemma encode_property_default_out:
  "ok v \<Longrightarrow> encode_property_default encode v d t = Inr (out_prop t out (unless_default v d))"
  by (simp add: encode_property_default_def unless_default_def encode_out)

lemma property_size_default_out:
  "ok v \<Longrightarrow> encoded_property_size_default encoded_size v d = prop_len out (unless_default v d)"
  by (simp add: encoded_property_size_default_def unless_default_def prop_len_def size_out)

lemma read_into_out: "ok x \<Longrightarrow> read_into decode None upd (out x @ r) = Inr (upd (Some x), r)"
  by (simp add: read_into_def read_value_out)

end

lemmas read_into_outs [wire_simps] = bool.read_into_out u16.read_into_out u32.read_into_out
  nonzero_u16.read_into_out nonzero_u32.read_into_out bytes.read_into_out string.read_into_out

lemmas read_into_safes [safe_intros] = bool.read_into_safe u16.read_into_safe u32.read_into_safe
  nonzero_u16.read_into_safe nonzero_u32.read_into_safe bytes.read_into_safe string.read_into_safe
  bool.read_into_nongrow u16.read_into_nongrow u32.read_into_nongrow
  nonzero_u16.read_into_nongrow nonzero_u32.read_into_nongrow bytes.read_into_nongrow
  string.read_into_nongrow

lemma push_user_out [wire_simps]:
  "ok_pair utf8 p \<Longrightarrow> push_user utf8 upd (out_pair p @ r) = Inr (upd p, r)"
  by (simp add: push_user_def pair.decode_out)

lemma push_user_safe [safe_intros]: "safe_from n (push_user utf8 upd)" "nongrow (push_user utf8 upd)"
  unfolding push_user_def by (intro safe_bind safe_intros)+

lemma on_props_simps [simp]:
  "d p = Inr (x, t) \<Longrightarrow> on_props p d s = Inr (x, s)" "d p = Inl e \<Longrightarrow> on_props p d s = Inl e"
  by (simp_all add: on_props_def)

lemma on_props_safe [safe_intros]: "safe_from 0 d \<Longrightarrow> safe_from n (on_props p d)" "nongrow (on_props p d)"
  by (auto simp: safe_from_def nongrow_def on_props_def split: sum.splits)

text \<open>Property loops read a type byte first: they consume, and do not panic if the arms do not.\<close>

lemma prop_loop_safe [safe_intros]:
  assumes "\<And>acc t. safe_from 0 (arm acc t)" and "\<And>acc t. nongrow (arm acc t)"
  shows "safe_from n (dec_while (\<lambda>acc. dec_bind get_u8 (arm acc)) acc)"
  using assms
  by (intro safe_dec_while consumes_bind1 consumes_intros safe_bind_known) simp_all

lemma dec_while_prop:
  assumes "\<And>x. v = Some x \<Longrightarrow> body acc (t # out x @ r) = Inr (upd (Some x), r)" and "v = None \<Longrightarrow> upd None = acc"
  shows "dec_while body acc (out_prop t out v @ r) = dec_while body (upd v) r"
proof (cases v)
  case None
  with assms show ?thesis by simp
next
  case (Some x)
  then have "dec_while body acc (t # out x @ r) = dec_while body (upd (Some x)) r"
    using assms by (intro dec_while_step) auto
  with Some show ?thesis by simp
qed

lemma dec_while_users:
  assumes "list_all (ok_pair utf8) ps"
    and "\<And>acc p r. ok_pair utf8 p \<Longrightarrow> body acc (out_user p @ r) = Inr (upd acc p, r)"
  shows "dec_while body acc (out_users ps @ r) = dec_while body (foldl upd acc ps) r"
  unfolding out_users_def using assms
  by (intro dec_while_concat) (auto simp: list_all_iff out_user_def)

lemma encode_user_properties_out:
  "list_all (ok_pair utf8) ps \<Longrightarrow> encode_user_properties ps = Inr (out_users ps)"
  unfolding encode_user_properties_def out_users_def
  by (intro enc_all_map_Inr) (auto simp: list_all_iff out_user_def pair.encode_out)

lemma encoded_size_user_properties_out: "encoded_size_user_properties ps = length (out_users ps)"
proof -
  have "foldl (\<lambda>len prop. len + (1 + encoded_size_pair prop)) a ps = a + length (out_users ps)" for a
    by (induction ps arbitrary: a) simp_all
  then show ?thesis by (simp add: encoded_size_user_properties_def)
qed

text \<open>A property block with its length in front.\<close>

definition out_block :: "bytes \<Rightarrow> bytes" where
  "out_block ps = out_varlen (word_of_nat (length ps)) @ ps"

lemma word_of_nat_le_MAX: "n \<le> unat MAX_PACKET_SIZE \<Longrightarrow> (word_of_nat n :: u32) \<le> MAX_PACKET_SIZE"
  by (simp add: word_le_nat_alt unat_word_of_nat)

lemma take_properties_block [wire_simps]:
  "length ps \<le> unat MAX_PACKET_SIZE \<Longrightarrow> take_properties (out_block ps @ r) = Inr (ps, r)"
  unfolding take_properties_def out_block_def
  using decode_varlen_out [OF word_of_nat_le_MAX, of "length ps" "ps @ r"]
  by (simp add: unat_word_of_nat)

lemma take_properties_block_Nil [wire_simps]:
  "length ps \<le> unat MAX_PACKET_SIZE \<Longrightarrow> take_properties (out_block ps) = Inr (ps, [])"
  using take_properties_block [of ps "[]"] by simp

lemma length_out_block:
  "length ps \<le> unat MAX_PACKET_SIZE \<Longrightarrow>
     length (out_block ps) = unat (var_int_len (length ps)) + length ps"
  using length_out_varlen [OF word_of_nat_le_MAX, of "length ps"]
  by (simp add: out_block_def unat_var_int_len unat_word_of_nat)

lemma out_block_neq_Nil [simp]: "length ps \<le> unat MAX_PACKET_SIZE \<Longrightarrow> out_block ps \<noteq> []"
  using out_varlen_neq_Nil [OF word_of_nat_le_MAX, of "length ps"] by (simp add: out_block_def)

lemma length_block_bound:
  "length (out_block ps) \<le> n \<Longrightarrow> n \<le> unat MAX_PACKET_SIZE \<Longrightarrow> length ps < n"
proof -
  assume a: "length (out_block ps) \<le> n" "n \<le> unat MAX_PACKET_SIZE"
  then have "length ps \<le> unat MAX_PACKET_SIZE" by (simp add: out_block_def)
  then have "out_varlen (word_of_nat (length ps)) \<noteq> []" by (intro out_varlen_neq_Nil word_of_nat_le_MAX)
  with a show ?thesis by (cases "out_varlen (word_of_nat (length ps))") (auto simp: out_block_def)
qed

section \<open>Acknowledgement properties\<close>

definition ack_props_fit :: "user_properties \<Rightarrow> bytes option \<Rightarrow> u32 \<Rightarrow> user_properties \<times> bytes option" where
  "ack_props_fit ups reason limit =
     (if limit < 4 then ([], None) else fit_opt_props ups reason (unat (limit - 4)))"

lemma ok_ack_props_fit: "ok_opt utf8 (ups, reason) \<Longrightarrow> ok_opt utf8 (ack_props_fit ups reason limit)"
  by (simp add: ack_props_fit_def ok_fit_opt_props) (simp add: ok_opt_def)

lemma ack_props_fit_all:
  "4 + length (out_opt (ups, reason)) \<le> unat limit \<Longrightarrow> ack_props_fit ups reason limit = (ups, reason)"
  using unat_diff [of 4 limit]
  by (auto simp: ack_props_fit_def word_less_nat_alt intro: fit_opt_props_all)

lemma out_block_Nil: "out_block [] = [0]"
  by (simp add: out_block_def out_varlen_def write_variable_length_def)

lemma out_opt_Nil [simp]: "out_opt ([], None) = []"
  by (simp add: out_opt_def)

lemma ack_props_size_fit:
  assumes "ack_props_encoded_size ups reason limit \<le> unat MAX_PACKET_SIZE"
  shows "ack_props_encoded_size ups reason limit = length (out_block (out_opt (ack_props_fit ups reason limit)))"
    and "length (out_opt (ack_props_fit ups reason limit)) \<le> unat MAX_PACKET_SIZE"
proof -
  have "\<not> limit < 4 \<Longrightarrow> length (out_opt (fit_opt_props ups reason (unat (limit - 4)))) \<le> unat MAX_PACKET_SIZE"
    using assms by (simp add: ack_props_encoded_size_def Let_def encoded_size_opt_props_fit)
  then show "ack_props_encoded_size ups reason limit = length (out_block (out_opt (ack_props_fit ups reason limit)))"
    and "length (out_opt (ack_props_fit ups reason limit)) \<le> unat MAX_PACKET_SIZE"
    by (auto simp: ack_props_encoded_size_def ack_props_fit_def Let_def encoded_size_opt_props_fit
        length_out_block out_block_Nil)
qed

text \<open>
  The block of diagnostic properties that every limited encoder writes: its length, recovered from
  the size announced, then the properties that fit.
\<close>

lemma out_block_encode:
  assumes "ok_opt utf8 (ups, reason)" and "length (out_opt (fit_opt_props ups reason limit)) \<le> unat MAX_PACKET_SIZE"
    and "sz = word_of_nat (length (out_block (out_opt (fit_opt_props ups reason limit))))"
  shows "enc_seq (write_variable_length (var_int_len_from_size sz))
           (encode_opt_props ups reason (var_int_len_from_size sz))
         = Inr (out_block (out_opt (fit_opt_props ups reason limit)))"
proof -
  let ?n = "length (out_opt (fit_opt_props ups reason limit))"
  have "var_int_len_from_size sz = word_of_nat ?n"
    unfolding assms(3) length_out_block [OF assms(2)] add.commute [of "unat _"]
    by (rule var_int_len_from_size_inverse [OF assms(2)])
  moreover have "encode_opt_props ups reason (word_of_nat ?n) = Inr (out_opt (fit_opt_props ups reason limit))"
    using assms by (intro encode_opt_props_fit) auto
  ultimately show ?thesis
    using assms(2) by (simp add: write_variable_length_out [OF word_of_nat_le_MAX] out_block_def)
qed

lemma length_out_block_1: "length ps \<le> unat MAX_PACKET_SIZE \<Longrightarrow> length (out_block ps) = 1 \<longleftrightarrow> ps = []"
  by (auto simp: length_out_block unat_var_int_len varint_groups_table)

lemma length_out_block_le: "length ps \<le> unat MAX_PACKET_SIZE \<Longrightarrow> length (out_block ps) \<le> 4 + length ps"
  by (auto simp: length_out_block unat_var_int_len varint_groups_table)

lemma ack_props_encode_fit:
  assumes "ok_opt utf8 (ups, reason)" and "ack_props_encoded_size ups reason limit \<le> unat MAX_PACKET_SIZE"
    and "sz = word_of_nat (ack_props_encoded_size ups reason limit)"
  shows "ack_props_encode ups reason sz = Inr (out_block (out_opt (ack_props_fit ups reason limit)))"
proof -
  let ?f = "ack_props_fit ups reason limit"
  note sz = assms(3) [unfolded ack_props_size_fit(1) [OF assms(2)]]
  have n: "length (out_opt ?f) \<le> unat MAX_PACKET_SIZE" by (rule ack_props_size_fit(2) [OF assms(2)])
  have "unat sz = length (out_block (out_opt ?f))"
    unfolding sz using assms(2) ack_props_size_fit(1) [OF assms(2)] by (intro unat_word_of_nat) simp
  then have one: "sz = 1 \<longleftrightarrow> out_opt ?f = []"
    using length_out_block_1 [OF n] by (metis unat_1 word_unat_eq_iff)
  show ?thesis
  proof (cases "sz = 1")
    case True
    with one show ?thesis by (simp add: ack_props_encode_def out_block_Nil)
  next
    case False
    with one have "\<not> limit < 4" by (auto simp: ack_props_fit_def)
    then have "?f = fit_opt_props ups reason (unat (limit - 4))" by (simp add: ack_props_fit_def)
    with False n sz assms(1) show ?thesis
      by (simp add: ack_props_encode_def Let_def out_block_encode)
  qed
qed

lemma ack_props_body_steps:
  "ok_pair utf8 p \<Longrightarrow> ack_props_body utf8 (ups, v) (out_user p @ r) = Inr ((ups @ [p], v), r)"
  "ok_string utf8 s \<Longrightarrow> ack_props_body utf8 (ups, None) (pt_REASON_STRING # out_bytes s @ r) = Inr ((ups, Some s), r)"
  by (simp_all add: ack_props_body_def out_user_def wire_simps)

lemma ack_props_loop:
  assumes "ok_opt utf8 (ups, reason)"
  shows "dec_while (ack_props_body utf8) ([], None) (out_opt (ups, reason)) = Inr ((ups, reason), [])"
proof -
  have fold: "foldl (\<lambda>(us, v) p. (us @ [p], v)) (a, v) ps = (a @ ps, v)" for a v and ps :: user_properties
    by (induction ps arbitrary: a) simp_all
  have "dec_while (ack_props_body utf8) ([], None) (out_users ups @ out_prop pt_REASON_STRING out_bytes reason @ [])
      = dec_while (ack_props_body utf8) (foldl (\<lambda>(us, v) p. (us @ [p], v)) ([], None) ups)
          (out_prop pt_REASON_STRING out_bytes reason @ [])"
    using assms by (intro dec_while_users [of utf8]) (auto simp: ok_opt_def ack_props_body_steps)
  also have "\<dots> = dec_while (ack_props_body utf8) (ups, reason) []"
    unfolding fold
    using assms by (intro dec_while_prop [where upd = "\<lambda>v. (ups, v)"])
      (auto simp: ok_opt_def ack_props_body_steps ack_props_body_steps(2) [where r = "[]", simplified])
  finally show ?thesis by (simp add: out_opt_def)
qed

lemma ack_props_decode_out [wire_simps]:
  assumes "ok_opt utf8 x" and "length (out_opt x) \<le> unat MAX_PACKET_SIZE"
  shows "ack_props_decode utf8 (out_block (out_opt x) @ r) = Inr (x, r)"
  using assms by (cases x) (simp add: ack_props_decode_def wire_simps ack_props_loop)

lemma ack_props_decode_out_Nil [wire_simps]:
  "ok_opt utf8 x \<Longrightarrow> length (out_opt x) \<le> unat MAX_PACKET_SIZE \<Longrightarrow>
     ack_props_decode utf8 (out_block (out_opt x)) = Inr (x, [])"
  using ack_props_decode_out [of utf8 x "[]"] by simp

lemma ack_props_decode_safe [safe_intros]:
  "safe_from n (ack_props_decode utf8)" "nongrow (ack_props_decode utf8)"
proof -
  have "safe_from 0 (dec_while (ack_props_body utf8) acc)" for acc
    unfolding ack_props_body_def case_prod_beta
    by (intro safe_intros)
  then show "safe_from n (ack_props_decode utf8)" "nongrow (ack_props_decode utf8)"
    unfolding ack_props_decode_def by (intro safe_bind safe_intros; simp)+
qed

text \<open>
  Encoders with further properties \<open>ps\<close> in front of the diagnostic ones: the length field and the
  budget left for the diagnostic properties, both computed from the announced size.
\<close>

lemma limited_block:
  assumes "ok_opt utf8 (ups, reason)" and "diag = out_opt (fit_opt_props ups reason limit)"
    and "length (ps @ diag) \<le> unat MAX_PACKET_SIZE"
    and "sz = word_of_nat (h + length (out_block (ps @ diag)))"
  shows "var_int_len_from_size (sz - word_of_nat h) = word_of_nat (length (ps @ diag))"
    and "write_variable_length (word_of_nat (length (ps @ diag)))
           = Inr (out_varlen (word_of_nat (length (ps @ diag))))"
    and "encode_opt_props ups reason
           (sz - word_of_nat (h + length (out_varlen (word_of_nat (length (ps @ diag)))) + length ps)) = Inr diag"
proof -
  have "sz - word_of_nat h = word_of_nat (length (ps @ diag) + unat (var_int_len (length (ps @ diag))))"
    unfolding assms(4) length_out_block [OF assms(3)] by simp
  then show "var_int_len_from_size (sz - word_of_nat h) = word_of_nat (length (ps @ diag))"
    using var_int_len_from_size_inverse [OF assms(3)] by simp
  show "write_variable_length (word_of_nat (length (ps @ diag)))
      = Inr (out_varlen (word_of_nat (length (ps @ diag))))"
    by (rule write_variable_length_out [OF word_of_nat_le_MAX [OF assms(3)]])
  have "sz - word_of_nat (h + length (out_varlen (word_of_nat (length (ps @ diag)))) + length ps)
      = word_of_nat (length diag)"
    unfolding assms(4) out_block_def by simp
  then show "encode_opt_props ups reason
      (sz - word_of_nat (h + length (out_varlen (word_of_nat (length (ps @ diag)))) + length ps)) = Inr diag"
    using assms by (auto intro: encode_opt_props_fit)
qed

lemma reduce_limit_enough:
  "length (out_opt (ups, reason)) + k \<le> unat limit \<Longrightarrow>
     fit_opt_props ups reason (unat (reduce_limit limit k)) = (ups, reason)"
  using unat_diff [of k limit] by (intro fit_opt_props_all) (auto simp: reduce_limit_def)

section \<open>Subscription identifiers\<close>

text \<open>
  \<open>NonZeroU32::new(decode_variable_length_cursor(prop_src)?).ok_or(MalformedPacket)?\<close>, in the
  property loops of SUBSCRIBE and PUBLISH.
\<close>

definition decode_sub_id :: "u32 dec" where
  "decode_sub_id =
     dec_bind decode_variable_length_cursor (\<lambda>val.
     if val = 0 then dec_raise MalformedPacket else dec_return val)"

definition ok_sub_id :: "u32 \<Rightarrow> bool" where
  "ok_sub_id v \<longleftrightarrow> v \<noteq> 0 \<and> v \<le> MAX_PACKET_SIZE"

interpretation sub_id: wire_value decode_sub_id write_variable_length
  "\<lambda>v. unat (var_int_len (unat v))" out_varlen ok_sub_id
proof
  show "safe_from 0 decode_sub_id"
    unfolding decode_sub_id_def by (intro safe_bind safe_intros)
  show "consumes decode_sub_id"
    unfolding decode_sub_id_def by (intro consumes_bind1 consumes_intros safe_intros)
  fix v :: u32
  have "unat v < 2 ^ LENGTH(32)" by (rule unsigned_less)
  then have "unat (var_int_len (unat v)) = varint_groups (unat v)"
    by (intro unat_var_int_len) simp
  then show "ok_sub_id v \<Longrightarrow> unat (var_int_len (unat v)) = length (out_varlen v)"
    by (simp add: ok_sub_id_def length_out_varlen)
qed (auto simp: ok_sub_id_def write_variable_length_out decode_sub_id_def decode_varlen_out)

lemmas sub_id_wire [wire_simps] = sub_id.read_into_out sub_id.decode_out
lemmas sub_id_safe [safe_intros] = sub_id.read_into_safe sub_id.read_into_nongrow
  sub_id.decode_nongrow sub_id.decode_safe [THEN safe_from_mono, OF le0]

section \<open>The contract of a packet\<close>

locale limited_packet =
  fixes decode :: "u8 \<Rightarrow> 'a dec" and encoded_size :: "'a \<Rightarrow> u32 \<Rightarrow> nat"
    and encode :: "'a \<Rightarrow> u32 \<Rightarrow> enc" and first :: "'a \<Rightarrow> u8" and body :: "'a \<Rightarrow> bytes"
    and trim :: "u32 \<Rightarrow> 'a \<Rightarrow> 'a" and wf :: "'a \<Rightarrow> bool"
  assumes decode_safe: "safe_from 0 (decode b)"
    and trim_wf: "wf x \<Longrightarrow> wf (trim limit x)"
    and trim_first: "first (trim limit x) = first x"
    and trim_all: "wf x \<Longrightarrow> length (body x) + 8 \<le> unat limit \<Longrightarrow>
          length (body x) \<le> unat MAX_PACKET_SIZE \<Longrightarrow> trim limit x = x"
    and size_body: "wf x \<Longrightarrow> encoded_size x limit \<le> unat MAX_PACKET_SIZE \<Longrightarrow>
          encoded_size x limit = length (body (trim limit x))"
    and encode_body: "wf x \<Longrightarrow> encoded_size x limit \<le> unat MAX_PACKET_SIZE \<Longrightarrow>
          encode x (word_of_nat (encoded_size x limit)) = Inr (body (trim limit x))"
    and decode_body: "wf x \<Longrightarrow> length (body x) \<le> unat MAX_PACKET_SIZE \<Longrightarrow>
          dec_run (decode (first x)) (body x) = Inr x"
begin

text \<open>What is written is decoded to the packet without the properties that do not fit.\<close>

lemma decode_encode:
  assumes "wf x" and "encoded_size x limit \<le> unat MAX_PACKET_SIZE"
  shows "\<exists>bs. encode x (word_of_nat (encoded_size x limit)) = Inr bs \<and>
    length bs = encoded_size x limit \<and> dec_run (decode (first x)) bs = Inr (trim limit x)"
  using encode_body [OF assms] size_body [OF assms] decode_body [OF trim_wf [OF assms(1)], of limit]
    assms(2) by (auto simp: trim_first)

end

section \<open>Properties\<close>

text \<open>A length up to 268435455 is written in as many bytes as \<open>var_int_len\<close> says, at most four, and
  these bytes are read back as the length, whatever follows them.\<close>

theorem varlen_roundtrip:
  assumes "n \<le> MAX_PACKET_SIZE"
  shows "\<exists>bs. write_variable_length n = Inr bs \<and> length bs = unat (var_int_len (unat n)) \<and>
    length bs \<le> 4 \<and> decode_variable_length_cursor (bs @ rest) = Inr (n, rest)"
proof -
  have n: "unat n \<le> 268435455" using assms by (simp add: word_le_nat_alt)
  then have "unat (var_int_len (unat n)) = varint_groups (unat n)" by (intro unat_var_int_len) simp
  moreover have "varint_groups (unat n) \<le> 4" using n by (simp add: varint_groups_table)
  ultimately show ?thesis
    using assms by (simp add: write_variable_length_out length_out_varlen decode_varlen_out)
qed

theorem varlen_roundtrip_witness:
  "\<exists>bs. write_variable_length 321 = Inr bs \<and> length bs \<le> 4 \<and>
     decode_variable_length_cursor (bs @ [7]) = Inr (321, [7])"
  using varlen_roundtrip [of 321 "[7]"] by auto

text \<open>A length that has been decoded fits in 28 bits, whatever the input, and takes at least one
  and at most four bytes of it.\<close>

theorem varlen_decode_bound:
  assumes "decode_variable_length_cursor s = Inr (n, rest)"
  shows "n \<le> MAX_PACKET_SIZE \<and> length rest < length s \<and> length s \<le> length rest + 4"
proof -
  have "unat n < 2 ^ 28"
    using assms varlen_loop_bound [of 0 0 s n rest] by (simp add: decode_variable_length_cursor_def)
  then show ?thesis
    using consumesD [OF varlen.decode_consumes assms] varlen_loop_length [of 0 0 s n rest] assms
    by (simp add: word_le_nat_alt decode_variable_length_cursor_def)
qed

theorem varlen_decode_bound_witness:
  "(193 :: u32) \<le> MAX_PACKET_SIZE \<and> length [9 :: u8] < length [193, 1, 9 :: u8] \<and> length [193, 1, 9 :: u8] \<le> length [9 :: u8] + 4"
  using varlen_decode_bound [of "[193, 1, 9]" 193 "[9]"]
  by (simp add: decode_variable_length_cursor_def varlen_loop.simps Let_def)

text \<open>\<open>var_int_len_from_size\<close> recovers the length of a property block from the length plus the
  size of its own length field, for every length a packet can have.\<close>

theorem var_int_len_from_size_correct:
  assumes "n \<le> unat MAX_PACKET_SIZE"
  shows "unat (var_int_len_from_size (word_of_nat (n + unat (var_int_len n)))) = n"
  unfolding var_int_len_from_size_inverse [OF assms] using assms by (simp add: unat_word_of_nat)

theorem var_int_len_from_size_correct_witness:
  "unat (var_int_len_from_size (word_of_nat (127 + unat (var_int_len 127)))) = 127"
  using var_int_len_from_size_correct [of 127] by simp

text \<open>The size computed for user properties and reason string is within the limit, and the encoder
  that is given this size writes exactly as many bytes.\<close>

theorem opt_props_within_limit:
  assumes "list_all (ok_pair utf8) ups" and "pred_option (ok_string utf8) reason"
  shows "\<exists>bs. encode_opt_props ups reason (word_of_nat (encoded_size_opt_props ups reason limit)) = Inr bs \<and>
    length bs = encoded_size_opt_props ups reason limit \<and> length bs \<le> unat limit"
proof -
  have "unat limit < 2 ^ LENGTH(32)" by (rule unsigned_less)
  then have "length (out_opt (fit_opt_props ups reason (unat limit))) < 2 ^ 32"
    using fit_opt_props_le [of ups reason "unat limit"] by simp
  then show ?thesis
    using encode_opt_props_fit [of utf8 ups reason _ "unat limit"] assms
      fit_opt_props_le [of ups reason "unat limit"]
    by (auto simp: ok_opt_def encoded_size_opt_props_fit)
qed

theorem opt_props_within_limit_witness:
  "\<exists>bs. encode_opt_props [([97], [98])] (Some [99, 100]) (word_of_nat (encoded_size_opt_props [([97], [98])] (Some [99, 100]) 9)) = Inr bs \<and>
     length bs = encoded_size_opt_props [([97], [98])] (Some [99, 100]) 9 \<and> length bs \<le> unat (9 :: u32)"
  using opt_props_within_limit [of "\<lambda>_. True" "[([97], [98])]" "Some [99, 100]" 9]
  by (simp add: ok_pair_def ok_string_def short_def)

end
