(* ===== verification/V5_Connect.thy ===== *)
theory V5_Connect
  imports V5_Common
begin

text \<open>
  \<open>v5/packet/connect.rs\<close>: the CONNECT packet with its properties and its last will. It satisfies the
  contract \<open>limited_packet\<close>; nothing of a CONNECT is dropped.
\<close>

section \<open>Data\<close>

record last_will5 =
  lw5_qos :: qos
  lw5_retain :: bool
  lw5_topic :: bytes
  lw5_message :: bytes
  lw5_will_delay_interval_sec :: "u32 option"
  lw5_correlation_data :: "bytes option"
  lw5_message_expiry_interval :: "u32 option"
  lw5_content_type :: "bytes option"
  lw5_user_properties :: user_properties
  lw5_is_utf8_payload :: "bool option"
  lw5_response_topic :: "bytes option"

record connect5 =
  c5_clean_start :: bool
  c5_keep_alive :: u16
  c5_session_expiry_interval_secs :: u32
  c5_auth_method :: "bytes option"
  c5_auth_data :: "bytes option"
  c5_request_problem_info :: bool
  c5_request_response_info :: bool
  c5_receive_max :: "u16 option"
  c5_topic_alias_max :: u16
  c5_user_properties :: user_properties
  c5_max_packet_size :: "u32 option"
  c5_last_will :: "last_will5 option"
  c5_client_id :: bytes
  c5_username :: "bytes option"
  c5_password :: "bytes option"
  c5_cert :: "cert_info option"

definition connect5_default :: connect5 where
  "connect5_default =
     \<lparr>c5_clean_start = False, c5_keep_alive = 0, c5_session_expiry_interval_secs = 0,
      c5_auth_method = None, c5_auth_data = None, c5_request_problem_info = True,
      c5_request_response_info = False, c5_receive_max = None, c5_topic_alias_max = 0,
      c5_user_properties = [], c5_max_packet_size = None, c5_last_will = None,
      c5_client_id = [], c5_username = None, c5_password = None, c5_cert = None\<rparr>"

definition connect5_set_client_id :: "bytes \<Rightarrow> connect5 \<Rightarrow> connect5" where
  "connect5_set_client_id client_id c = c\<lparr>c5_client_id := client_id\<rparr>"

definition connect5_set_receive_max :: "u16 \<Rightarrow> connect5 \<Rightarrow> connect5" where
  "connect5_set_receive_max mx c =
     (if mx \<noteq> 0 then c\<lparr>c5_receive_max := Some mx\<rparr> else c\<lparr>c5_receive_max := None\<rparr>)"

section \<open>Decoding\<close>

text \<open>The locals of \<open>Connect::decode\<close> and of \<open>decode_last_will\<close> that the property loops set.\<close>

record connect_locals =
  cn_session_expiry_interval_secs :: "u32 option"
  cn_auth_method :: "bytes option"
  cn_auth_data :: "bytes option"
  cn_request_problem_info :: "bool option"
  cn_request_response_info :: "bool option"
  cn_receive_max :: "u16 option"
  cn_topic_alias_max :: "u16 option"
  cn_user_properties :: user_properties
  cn_max_packet_size :: "u32 option"

definition connect_locals_init :: connect_locals where
  "connect_locals_init =
     \<lparr>cn_session_expiry_interval_secs = None, cn_auth_method = None, cn_auth_data = None,
      cn_request_problem_info = None, cn_request_response_info = None, cn_receive_max = None,
      cn_topic_alias_max = None, cn_user_properties = [], cn_max_packet_size = None\<rparr>"

definition connect_props_body :: "(bytes \<Rightarrow> bool) \<Rightarrow> connect_locals \<Rightarrow> connect_locals dec" where
  "connect_props_body utf8 l =
     dec_bind get_u8 (\<lambda>prop_id.
     if prop_id = pt_SESS_EXPIRY_INT then
       read_into decode_u32 (cn_session_expiry_interval_secs l)
         (\<lambda>v. l\<lparr>cn_session_expiry_interval_secs := v\<rparr>)
     else if prop_id = pt_AUTH_METHOD then
       read_into (decode_bytestring utf8) (cn_auth_method l) (\<lambda>v. l\<lparr>cn_auth_method := v\<rparr>)
     else if prop_id = pt_AUTH_DATA then
       read_into decode_bytes (cn_auth_data l) (\<lambda>v. l\<lparr>cn_auth_data := v\<rparr>)
     else if prop_id = pt_REQ_PROB_INFO then
       read_into decode_bool (cn_request_problem_info l) (\<lambda>v. l\<lparr>cn_request_problem_info := v\<rparr>)
     else if prop_id = pt_REQ_RESP_INFO then
       read_into decode_bool (cn_request_response_info l) (\<lambda>v. l\<lparr>cn_request_response_info := v\<rparr>)
     else if prop_id = pt_RECEIVE_MAX then
       read_into decode_nonzero_u16 (cn_receive_max l) (\<lambda>v. l\<lparr>cn_receive_max := v\<rparr>)
     else if prop_id = pt_TOPIC_ALIAS_MAX then
       read_into decode_u16 (cn_topic_alias_max l) (\<lambda>v. l\<lparr>cn_topic_alias_max := v\<rparr>)
     else if prop_id = pt_USER then
       push_user utf8 (\<lambda>p. l\<lparr>cn_user_properties := cn_user_properties l @ [p]\<rparr>)
     else if prop_id = pt_MAX_PACKET_SIZE then
       read_into decode_nonzero_u32 (cn_max_packet_size l) (\<lambda>v. l\<lparr>cn_max_packet_size := v\<rparr>)
     else dec_raise MalformedPacket)"

record will_locals =
  wl_will_delay_interval_sec :: "u32 option"
  wl_correlation_data :: "bytes option"
  wl_message_expiry_interval :: "u32 option"
  wl_content_type :: "bytes option"
  wl_user_properties :: user_properties
  wl_is_utf8_payload :: "bool option"
  wl_response_topic :: "bytes option"

definition will_locals_init :: will_locals where
  "will_locals_init =
     \<lparr>wl_will_delay_interval_sec = None, wl_correlation_data = None,
      wl_message_expiry_interval = None, wl_content_type = None, wl_user_properties = [],
      wl_is_utf8_payload = None, wl_response_topic = None\<rparr>"

definition will_props_body :: "(bytes \<Rightarrow> bool) \<Rightarrow> will_locals \<Rightarrow> will_locals dec" where
  "will_props_body utf8 l =
     dec_bind get_u8 (\<lambda>prop_id.
     if prop_id = pt_WILL_DELAY_INT then
       read_into decode_u32 (wl_will_delay_interval_sec l) (\<lambda>v. l\<lparr>wl_will_delay_interval_sec := v\<rparr>)
     else if prop_id = pt_CORR_DATA then
       read_into decode_bytes (wl_correlation_data l) (\<lambda>v. l\<lparr>wl_correlation_data := v\<rparr>)
     else if prop_id = pt_MSG_EXPIRY_INT then
       read_into decode_nonzero_u32 (wl_message_expiry_interval l)
         (\<lambda>v. l\<lparr>wl_message_expiry_interval := v\<rparr>)
     else if prop_id = pt_CONTENT_TYPE then
       read_into (decode_bytestring utf8) (wl_content_type l) (\<lambda>v. l\<lparr>wl_content_type := v\<rparr>)
     else if prop_id = pt_UTF8_PAYLOAD then
       read_into decode_bool (wl_is_utf8_payload l) (\<lambda>v. l\<lparr>wl_is_utf8_payload := v\<rparr>)
     else if prop_id = pt_RESP_TOPIC then
       read_into (decode_bytestring utf8) (wl_response_topic l) (\<lambda>v. l\<lparr>wl_response_topic := v\<rparr>)
     else if prop_id = pt_USER then
       push_user utf8 (\<lambda>p. l\<lparr>wl_user_properties := wl_user_properties l @ [p]\<rparr>)
     else dec_raise MalformedPacket)"

definition v5_decode_last_will :: "(bytes \<Rightarrow> bool) \<Rightarrow> u8 \<Rightarrow> last_will5 dec" where
  "v5_decode_last_will utf8 flags =
     dec_bind take_properties (\<lambda>prop_src.
     dec_bind (on_props prop_src (dec_while (will_props_body utf8) will_locals_init)) (\<lambda>l.
     dec_bind (decode_bytestring utf8) (\<lambda>topic.
     dec_bind decode_bytes (\<lambda>message.
     dec_bind (dec_lift (qos_try_from (drop_bit WILL_QOS_SHIFT (flags AND CF_WILL_QOS)))) (\<lambda>q.
     dec_return
       \<lparr>lw5_qos = q, lw5_retain = flags_contains flags CF_WILL_RETAIN, lw5_topic = topic,
        lw5_message = message, lw5_will_delay_interval_sec = wl_will_delay_interval_sec l,
        lw5_correlation_data = wl_correlation_data l,
        lw5_message_expiry_interval = wl_message_expiry_interval l,
        lw5_content_type = wl_content_type l, lw5_user_properties = wl_user_properties l,
        lw5_is_utf8_payload = wl_is_utf8_payload l,
        lw5_response_topic = wl_response_topic l\<rparr>)))))"

text \<open>\<open>ensure!(len == 4 && &src.as_ref()[0..4] == MQTT, InvalidProtocol); src.advance(4)\<close>.\<close>

definition v5_decode_protocol_name :: "u16 \<Rightarrow> unit dec" where
  "v5_decode_protocol_name len =
     dec_bind (if len = 4 then dec_bind (slice_prefix 4) (\<lambda>p. dec_return (p = MQTT))
               else dec_return False) (\<lambda>is_mqtt.
     dec_bind (ensure is_mqtt InvalidProtocol) (\<lambda>_.
     advance 4))"

definition connect5_decode :: "(bytes \<Rightarrow> bool) \<Rightarrow> connect5 dec" where
  "connect5_decode utf8 =
     dec_bind (ensure_remaining 10 InvalidLength) (\<lambda>_.
     dec_bind get_u16 (\<lambda>len.
     dec_bind (v5_decode_protocol_name len) (\<lambda>_.
     dec_bind get_u8 (\<lambda>level.
     dec_bind (ensure (level = MQTT_LEVEL_5) UnsupportedProtocolLevel) (\<lambda>_.
     dec_bind get_u8 (\<lambda>bits.
     dec_bind (dec_lift (case flags_from_bits CF_ALL bits of
                 None \<Rightarrow> Inl ConnectReservedFlagSet | Some f \<Rightarrow> Inr f)) (\<lambda>flags.
     dec_bind get_u16 (\<lambda>keep_alive.
     dec_bind take_properties (\<lambda>prop_src.
     dec_bind (on_props prop_src (dec_while (connect_props_body utf8) connect_locals_init)) (\<lambda>l.
     dec_bind (decode_bytestring utf8) (\<lambda>client_id.
     dec_bind (ensure (client_id \<noteq> [] \<or> flags_contains flags CF_CLEAN_START) InvalidClientId) (\<lambda>_.
     dec_bind (dec_when (flags_contains flags CF_WILL) (v5_decode_last_will utf8 flags)) (\<lambda>last_will.
     dec_bind (dec_when (flags_contains flags CF_USERNAME) (decode_bytestring utf8)) (\<lambda>username.
     dec_bind (dec_when (flags_contains flags CF_PASSWORD) decode_bytes) (\<lambda>password.
     dec_return
       \<lparr>c5_clean_start = flags_contains flags CF_CLEAN_START, c5_keep_alive = keep_alive,
        c5_session_expiry_interval_secs = unwrap_or (cn_session_expiry_interval_secs l) 0,
        c5_auth_method = cn_auth_method l, c5_auth_data = cn_auth_data l,
        c5_request_problem_info = unwrap_or (cn_request_problem_info l) True,
        c5_request_response_info = unwrap_or (cn_request_response_info l) False,
        c5_receive_max = cn_receive_max l,
        c5_topic_alias_max = unwrap_or (cn_topic_alias_max l) 0,
        c5_user_properties = cn_user_properties l, c5_max_packet_size = cn_max_packet_size l,
        c5_last_will = last_will, c5_client_id = client_id, c5_username = username,
        c5_password = password, c5_cert = None\<rparr>)))))))))))))))"

section \<open>Encoding\<close>

definition last_will5_properties_len :: "last_will5 \<Rightarrow> nat" where
  "last_will5_properties_len w =
     encoded_property_size encoded_size_u32 (lw5_will_delay_interval_sec w)
     + encoded_property_size encoded_size_bytes (lw5_correlation_data w)
     + encoded_property_size encoded_size_u32 (lw5_message_expiry_interval w)
     + encoded_property_size encoded_size_bytes (lw5_content_type w)
     + encoded_property_size encoded_size_bool (lw5_is_utf8_payload w)
     + encoded_property_size encoded_size_bytes (lw5_response_topic w)
     + encoded_size_user_properties (lw5_user_properties w)"

definition connect5_properties_len :: "connect5 \<Rightarrow> nat" where
  "connect5_properties_len c =
     encoded_property_size encoded_size_bytes (c5_auth_method c)
     + encoded_property_size encoded_size_bytes (c5_auth_data c)
     + encoded_property_size_default encoded_size_u32 (c5_session_expiry_interval_secs c) 0
     + encoded_property_size_default encoded_size_bool (c5_request_problem_info c) True
     + encoded_property_size_default encoded_size_bool (c5_request_response_info c) False
     + encoded_property_size encoded_size_u16 (c5_receive_max c)
     + encoded_property_size encoded_size_u32 (c5_max_packet_size c)
     + encoded_property_size_default encoded_size_u16 (c5_topic_alias_max c) 0
     + encoded_size_user_properties (c5_user_properties c)"

definition connect5_encoded_size :: "connect5 \<Rightarrow> u32 \<Rightarrow> nat" where
  "connect5_encoded_size c limit =
     (let prop_len = connect5_properties_len c
      in 6 + 1 + 1 + 2 + unat (var_int_len prop_len) + prop_len
         + encoded_size_bytes (c5_client_id c)
         + (case c5_last_will c of None \<Rightarrow> 0
            | Some w \<Rightarrow>
                (let prop_len = last_will5_properties_len w
                 in unat (var_int_len prop_len) + prop_len + encoded_size_bytes (lw5_topic w)
                    + encoded_size_bytes (lw5_message w)))
         + encoded_size_option encoded_size_bytes (c5_username c)
         + encoded_size_option encoded_size_bytes (c5_password c))"

definition last_will5_encode :: "last_will5 \<Rightarrow> enc" where
  "last_will5_encode w =
     enc_all
       [write_variable_length (word_of_nat (last_will5_properties_len w)),
        encode_property encode_u32 (lw5_will_delay_interval_sec w) pt_WILL_DELAY_INT,
        encode_property encode_bool (lw5_is_utf8_payload w) pt_UTF8_PAYLOAD,
        encode_property encode_u32 (lw5_message_expiry_interval w) pt_MSG_EXPIRY_INT,
        encode_property encode_bytes (lw5_content_type w) pt_CONTENT_TYPE,
        encode_property encode_bytes (lw5_response_topic w) pt_RESP_TOPIC,
        encode_property encode_bytes (lw5_correlation_data w) pt_CORR_DATA,
        encode_user_properties (lw5_user_properties w),
        encode_bytes (lw5_topic w),
        encode_bytes (lw5_message w)]"

definition connect5_encode :: "connect5 \<Rightarrow> u32 \<Rightarrow> enc" where
  "connect5_encode c sz =
     enc_all
       [encode_bytes MQTT,
        put [MQTT_LEVEL_5,
             connect_flags (c5_username c \<noteq> None) (c5_password c \<noteq> None)
               (map_option (\<lambda>w. (lw5_qos w, lw5_retain w)) (c5_last_will c)) (c5_clean_start c)],
        encode_u16 (c5_keep_alive c),
        write_variable_length (word_of_nat (connect5_properties_len c)),
        encode_property_default encode_u32 (c5_session_expiry_interval_secs c) 0 pt_SESS_EXPIRY_INT,
        encode_property encode_bytes (c5_auth_method c) pt_AUTH_METHOD,
        encode_property encode_bytes (c5_auth_data c) pt_AUTH_DATA,
        encode_property_default encode_bool (c5_request_problem_info c) True pt_REQ_PROB_INFO,
        encode_property_default encode_bool (c5_request_response_info c) False pt_REQ_RESP_INFO,
        encode_property encode_u16 (c5_receive_max c) pt_RECEIVE_MAX,
        encode_property encode_u32 (c5_max_packet_size c) pt_MAX_PACKET_SIZE,
        encode_property_default encode_u16 (c5_topic_alias_max c) 0 pt_TOPIC_ALIAS_MAX,
        encode_user_properties (c5_user_properties c),
        encode_bytes (c5_client_id c),
        encode_option last_will5_encode (c5_last_will c),
        encode_option encode_bytes (c5_username c),
        encode_option encode_bytes (c5_password c)]"

section \<open>What a CONNECT looks like on the wire\<close>

definition will_props :: "last_will5 \<Rightarrow> bytes" where
  "will_props w =
     out_prop pt_WILL_DELAY_INT put_u32 (lw5_will_delay_interval_sec w)
     @ out_prop pt_UTF8_PAYLOAD out_bool (lw5_is_utf8_payload w)
     @ out_prop pt_MSG_EXPIRY_INT put_u32 (lw5_message_expiry_interval w)
     @ out_prop pt_CONTENT_TYPE out_bytes (lw5_content_type w)
     @ out_prop pt_RESP_TOPIC out_bytes (lw5_response_topic w)
     @ out_prop pt_CORR_DATA out_bytes (lw5_correlation_data w)
     @ out_users (lw5_user_properties w)"

definition will_body :: "last_will5 \<Rightarrow> bytes" where
  "will_body w = out_block (will_props w) @ out_bytes (lw5_topic w) @ out_bytes (lw5_message w)"

definition connect5_props :: "connect5 \<Rightarrow> bytes" where
  "connect5_props c =
     out_prop pt_SESS_EXPIRY_INT put_u32 (unless_default (c5_session_expiry_interval_secs c) 0)
     @ out_prop pt_AUTH_METHOD out_bytes (c5_auth_method c)
     @ out_prop pt_AUTH_DATA out_bytes (c5_auth_data c)
     @ out_prop pt_REQ_PROB_INFO out_bool (unless_default (c5_request_problem_info c) True)
     @ out_prop pt_REQ_RESP_INFO out_bool (unless_default (c5_request_response_info c) False)
     @ out_prop pt_RECEIVE_MAX put_u16 (c5_receive_max c)
     @ out_prop pt_MAX_PACKET_SIZE put_u32 (c5_max_packet_size c)
     @ out_prop pt_TOPIC_ALIAS_MAX put_u16 (unless_default (c5_topic_alias_max c) 0)
     @ out_users (c5_user_properties c)"

definition connect5_body :: "connect5 \<Rightarrow> bytes" where
  "connect5_body c =
     out_bytes MQTT @ [MQTT_LEVEL_5,
       connect_flags (c5_username c \<noteq> None) (c5_password c \<noteq> None)
         (map_option (\<lambda>w. (lw5_qos w, lw5_retain w)) (c5_last_will c)) (c5_clean_start c)]
     @ put_u16 (c5_keep_alive c) @ out_block (connect5_props c) @ out_bytes (c5_client_id c)
     @ (case c5_last_will c of None \<Rightarrow> [] | Some w \<Rightarrow> will_body w)
     @ (case c5_username c of None \<Rightarrow> [] | Some s \<Rightarrow> out_bytes s)
     @ (case c5_password c of None \<Rightarrow> [] | Some s \<Rightarrow> out_bytes s)"

definition will_wf :: "(bytes \<Rightarrow> bool) \<Rightarrow> last_will5 \<Rightarrow> bool" where
  "will_wf utf8 w \<longleftrightarrow>
     ok_string utf8 (lw5_topic w) \<and> short (lw5_message w) \<and>
     pred_option short (lw5_correlation_data w) \<and>
     pred_option (\<lambda>w. w \<noteq> 0) (lw5_message_expiry_interval w) \<and>
     pred_option (ok_string utf8) (lw5_content_type w) \<and>
     pred_option (ok_string utf8) (lw5_response_topic w) \<and>
     list_all (ok_pair utf8) (lw5_user_properties w)"

definition connect5_wf :: "(bytes \<Rightarrow> bool) \<Rightarrow> connect5 \<Rightarrow> bool" where
  "connect5_wf utf8 c \<longleftrightarrow>
     ok_string utf8 (c5_client_id c) \<and> (c5_client_id c = [] \<longrightarrow> c5_clean_start c) \<and>
     pred_option (ok_string utf8) (c5_auth_method c) \<and> pred_option short (c5_auth_data c) \<and>
     pred_option (\<lambda>w. w \<noteq> 0) (c5_receive_max c) \<and> pred_option (\<lambda>w. w \<noteq> 0) (c5_max_packet_size c) \<and>
     list_all (ok_pair utf8) (c5_user_properties c) \<and> pred_option (will_wf utf8) (c5_last_will c) \<and>
     pred_option (ok_string utf8) (c5_username c) \<and> pred_option short (c5_password c) \<and>
     c5_cert c = None"

section \<open>Decoding inverts encoding\<close>

lemma connect_loop_steps:
  "cn_session_expiry_interval_secs l = None \<Longrightarrow> 
     dec_while (connect_props_body utf8) l (out_prop pt_SESS_EXPIRY_INT put_u32 w32 @ r)
       = dec_while (connect_props_body utf8) (l\<lparr>cn_session_expiry_interval_secs := w32\<rparr>) r"
  "cn_auth_method l = None \<Longrightarrow> pred_option (ok_string utf8) v \<Longrightarrow>
     dec_while (connect_props_body utf8) l (out_prop pt_AUTH_METHOD out_bytes v @ r)
       = dec_while (connect_props_body utf8) (l\<lparr>cn_auth_method := v\<rparr>) r"
  "cn_auth_data l = None \<Longrightarrow> pred_option short v \<Longrightarrow>
     dec_while (connect_props_body utf8) l (out_prop pt_AUTH_DATA out_bytes v @ r)
       = dec_while (connect_props_body utf8) (l\<lparr>cn_auth_data := v\<rparr>) r"
  "cn_request_problem_info l = None \<Longrightarrow> 
     dec_while (connect_props_body utf8) l (out_prop pt_REQ_PROB_INFO out_bool b @ r)
       = dec_while (connect_props_body utf8) (l\<lparr>cn_request_problem_info := b\<rparr>) r"
  "cn_request_response_info l = None \<Longrightarrow> 
     dec_while (connect_props_body utf8) l (out_prop pt_REQ_RESP_INFO out_bool b @ r)
       = dec_while (connect_props_body utf8) (l\<lparr>cn_request_response_info := b\<rparr>) r"
  "cn_receive_max l = None \<Longrightarrow> pred_option (\<lambda>w. w \<noteq> 0) w16 \<Longrightarrow>
     dec_while (connect_props_body utf8) l (out_prop pt_RECEIVE_MAX put_u16 w16 @ r)
       = dec_while (connect_props_body utf8) (l\<lparr>cn_receive_max := w16\<rparr>) r"
  "cn_topic_alias_max l = None \<Longrightarrow> 
     dec_while (connect_props_body utf8) l (out_prop pt_TOPIC_ALIAS_MAX put_u16 w16 @ r)
       = dec_while (connect_props_body utf8) (l\<lparr>cn_topic_alias_max := w16\<rparr>) r"
  "cn_max_packet_size l = None \<Longrightarrow> pred_option (\<lambda>w. w \<noteq> 0) w32 \<Longrightarrow>
     dec_while (connect_props_body utf8) l (out_prop pt_MAX_PACKET_SIZE put_u32 w32 @ r)
       = dec_while (connect_props_body utf8) (l\<lparr>cn_max_packet_size := w32\<rparr>) r"
  by (rule dec_while_prop; auto simp: connect_props_body_def wire_simps intro: connect_locals.equality)+

lemma connect_loop_users:
  assumes "list_all (ok_pair utf8) ps"
  shows "dec_while (connect_props_body utf8) l (out_users ps @ r)
    = dec_while (connect_props_body utf8) (l\<lparr>cn_user_properties := cn_user_properties l @ ps\<rparr>) r"
proof -
  let ?upd = "\<lambda>l p. l\<lparr>cn_user_properties := cn_user_properties l @ [p]\<rparr>"
  have "foldl ?upd l ps = l\<lparr>cn_user_properties := cn_user_properties l @ ps\<rparr>"
    by (induction ps arbitrary: l) simp_all
  moreover have "dec_while (connect_props_body utf8) l (out_users ps @ r)
      = dec_while (connect_props_body utf8) (foldl ?upd l ps) r"
    using assms by (intro dec_while_users) (auto simp: connect_props_body_def out_user_def wire_simps)
  ultimately show ?thesis by simp
qed

lemma will_loop_steps:
  "wl_will_delay_interval_sec l = None \<Longrightarrow> 
     dec_while (will_props_body utf8) l (out_prop pt_WILL_DELAY_INT put_u32 w32 @ r)
       = dec_while (will_props_body utf8) (l\<lparr>wl_will_delay_interval_sec := w32\<rparr>) r"
  "wl_correlation_data l = None \<Longrightarrow> pred_option short v \<Longrightarrow>
     dec_while (will_props_body utf8) l (out_prop pt_CORR_DATA out_bytes v @ r)
       = dec_while (will_props_body utf8) (l\<lparr>wl_correlation_data := v\<rparr>) r"
  "wl_message_expiry_interval l = None \<Longrightarrow> pred_option (\<lambda>w. w \<noteq> 0) w32 \<Longrightarrow>
     dec_while (will_props_body utf8) l (out_prop pt_MSG_EXPIRY_INT put_u32 w32 @ r)
       = dec_while (will_props_body utf8) (l\<lparr>wl_message_expiry_interval := w32\<rparr>) r"
  "wl_content_type l = None \<Longrightarrow> pred_option (ok_string utf8) v \<Longrightarrow>
     dec_while (will_props_body utf8) l (out_prop pt_CONTENT_TYPE out_bytes v @ r)
       = dec_while (will_props_body utf8) (l\<lparr>wl_content_type := v\<rparr>) r"
  "wl_is_utf8_payload l = None \<Longrightarrow> 
     dec_while (will_props_body utf8) l (out_prop pt_UTF8_PAYLOAD out_bool b @ r)
       = dec_while (will_props_body utf8) (l\<lparr>wl_is_utf8_payload := b\<rparr>) r"
  "wl_response_topic l = None \<Longrightarrow> pred_option (ok_string utf8) v \<Longrightarrow>
     dec_while (will_props_body utf8) l (out_prop pt_RESP_TOPIC out_bytes v @ r)
       = dec_while (will_props_body utf8) (l\<lparr>wl_response_topic := v\<rparr>) r"
  by (rule dec_while_prop; auto simp: will_props_body_def wire_simps intro: will_locals.equality)+

lemma will_loop_users:
  assumes "list_all (ok_pair utf8) ps"
  shows "dec_while (will_props_body utf8) l (out_users ps @ r)
    = dec_while (will_props_body utf8) (l\<lparr>wl_user_properties := wl_user_properties l @ ps\<rparr>) r"
proof -
  let ?upd = "\<lambda>l p. l\<lparr>wl_user_properties := wl_user_properties l @ [p]\<rparr>"
  have "foldl ?upd l ps = l\<lparr>wl_user_properties := wl_user_properties l @ ps\<rparr>"
    by (induction ps arbitrary: l) simp_all
  moreover have "dec_while (will_props_body utf8) l (out_users ps @ r)
      = dec_while (will_props_body utf8) (foldl ?upd l ps) r"
    using assms by (intro dec_while_users) (auto simp: will_props_body_def out_user_def wire_simps)
  ultimately show ?thesis by simp
qed

lemma connect_loop:
  assumes "connect5_wf utf8 c"
  shows "dec_while (connect_props_body utf8) connect_locals_init (connect5_props c @ r)
    = dec_while (connect_props_body utf8)
        \<lparr>cn_session_expiry_interval_secs = unless_default (c5_session_expiry_interval_secs c) 0,
         cn_auth_method = c5_auth_method c, cn_auth_data = c5_auth_data c,
         cn_request_problem_info = unless_default (c5_request_problem_info c) True,
         cn_request_response_info = unless_default (c5_request_response_info c) False,
         cn_receive_max = c5_receive_max c, cn_topic_alias_max = unless_default (c5_topic_alias_max c) 0,
         cn_user_properties = c5_user_properties c, cn_max_packet_size = c5_max_packet_size c\<rparr> r"
  using assms unfolding connect5_props_def append_assoc
  by (simp add: connect5_wf_def connect_locals_init_def connect_loop_steps connect_loop_users)

lemma will_loop:
  assumes "will_wf utf8 w"
  shows "dec_while (will_props_body utf8) will_locals_init (will_props w @ r)
    = dec_while (will_props_body utf8)
        \<lparr>wl_will_delay_interval_sec = lw5_will_delay_interval_sec w,
         wl_correlation_data = lw5_correlation_data w,
         wl_message_expiry_interval = lw5_message_expiry_interval w,
         wl_content_type = lw5_content_type w, wl_user_properties = lw5_user_properties w,
         wl_is_utf8_payload = lw5_is_utf8_payload w, wl_response_topic = lw5_response_topic w\<rparr> r"
  using assms unfolding will_props_def append_assoc
  by (simp add: will_wf_def will_locals_init_def will_loop_steps will_loop_users)

lemma v5_decode_last_will_out [wire_simps]:
  assumes "will_wf utf8 w" and "length (will_props w) \<le> unat MAX_PACKET_SIZE"
  shows "v5_decode_last_will utf8 (connect_flags u pw (Some (lw5_qos w, lw5_retain w)) cl) (will_body w @ r)
    = Inr (w, r)"
  using will_loop [OF assms(1), of "[]"] assms
  by (cases w) (simp add: v5_decode_last_will_def will_body_def wire_simps will_wf_def)

lemmas v5_decode_last_will_out_Nil [wire_simps] =
  v5_decode_last_will_out [where r = "[]", simplified append_Nil2]

lemma v5_protocol_name_out [wire_simps]:
  "get_u16 (out_bytes MQTT @ r) = Inr (4, MQTT @ r)"
  "v5_decode_protocol_name 4 (MQTT @ r) = Inr ((), r)"
  by (simp_all add: out_bytes_def v5_decode_protocol_name_def slice_prefix_def advance_def)

lemma connect5_decode_body:
  assumes "connect5_wf utf8 c" and "length (connect5_body c) \<le> unat MAX_PACKET_SIZE"
  shows "connect5_decode utf8 (connect5_body c) = Inr (c, [])"
proof -
  have props: "length (connect5_props c) \<le> unat MAX_PACKET_SIZE"
    using assms(2) by (simp add: connect5_body_def out_block_def)
  have will: "length (will_props w) \<le> unat MAX_PACKET_SIZE" if "c5_last_will c = Some w" for w
    using assms(2) that by (simp add: connect5_body_def will_body_def out_block_def)
  note loop = connect_loop [OF assms(1), of "[]", simplified]
  show ?thesis
  proof (cases "c5_last_will c")
    case None
    with assms(1) props show ?thesis
      by (cases "c5_username c"; cases "c5_password c")
        (auto simp: connect5_decode_def connect5_body_def connect5_wf_def wire_simps loop)
  next
    case (Some w)
    with assms(1) props will [OF Some] show ?thesis
      by (cases "c5_username c"; cases "c5_password c")
        (auto simp: connect5_decode_def connect5_body_def connect5_wf_def wire_simps loop)
  qed
qed

section \<open>No panic\<close>

lemma connect_props_safe [safe_intros]:
  "safe_from n (dec_while (connect_props_body utf8) l)" "safe_from n (dec_while (will_props_body utf8) l')"
  unfolding connect_props_body_def will_props_body_def by (intro safe_intros)+

lemma v5_protocol_name_leaves:
  "8 \<le> length s \<Longrightarrow> v5_decode_protocol_name len s = Inr (x, s') \<Longrightarrow> 4 \<le> length s'"
  unfolding v5_decode_protocol_name_def
  by (auto simp: dec_bind_def advance_def slice_prefix_def ensure_def split: if_splits sum.splits)

lemma v5_protocol_name_safe: "8 \<le> n \<Longrightarrow> safe_from n (v5_decode_protocol_name len)"
  unfolding v5_decode_protocol_name_def
  by (auto simp: safe_from_def dec_bind_def advance_def slice_prefix_def ensure_def)

lemma v5_bind_protocol_name [safe_intros]:
  "8 \<le> n \<Longrightarrow> safe_from 4 (f ()) \<Longrightarrow> safe_from n (dec_bind (v5_decode_protocol_name len) f)"
  by (intro safe_bind_leaves [OF v5_protocol_name_safe])
    (auto intro: v5_protocol_name_leaves [rotated])

lemma v5_last_will_safe [safe_intros]: "safe_from n (v5_decode_last_will utf8 flags)"
  unfolding v5_decode_last_will_def by (intro safe_bind safe_intros)

lemma connect5_decode_safe: "safe_from 0 (connect5_decode utf8)"
  unfolding connect5_decode_def
  apply (rule safe_bind_known v5_bind_protocol_name | simp)+
  apply (intro safe_bind safe_intros)
  done

section \<open>Encoding\<close>

lemma last_will5_len: "will_wf utf8 w \<Longrightarrow> last_will5_properties_len w = length (will_props w)"
  by (simp add: last_will5_properties_len_def will_props_def will_wf_def u32.property_size_out
      nonzero_u32.property_size_out bytes.property_size_out string.property_size_out [of utf8]
      bool.property_size_out option.pred_True encoded_size_user_properties_out)

lemma connect5_len: "connect5_wf utf8 c \<Longrightarrow> connect5_properties_len c = length (connect5_props c)"
  by (simp add: connect5_properties_len_def connect5_props_def connect5_wf_def
      u32.property_size_default_out u16.property_size_default_out bool.property_size_default_out
      nonzero_u32.property_size_out nonzero_u16.property_size_out bytes.property_size_out
      string.property_size_out [of utf8] encoded_size_user_properties_out)

lemma last_will5_encode_out:
  assumes "will_wf utf8 w" and "length (will_props w) \<le> unat MAX_PACKET_SIZE"
  shows "last_will5_encode w = Inr (will_body w)"
proof -
  have "encode_user_properties (lw5_user_properties w) = Inr (out_users (lw5_user_properties w))"
    using assms(1) by (auto simp: will_wf_def intro: encode_user_properties_out)
  then show ?thesis
    using assms(1) write_variable_length_out [OF word_of_nat_le_MAX [OF assms(2)]]
    unfolding last_will5_encode_def last_will5_len [OF assms(1)] will_body_def out_block_def
      will_props_def will_wf_def
    by (simp add: u32.encode_property_out nonzero_u32.encode_property_out bytes.encode_property_out
        string.encode_property_out [of utf8] bool.encode_property_out option.pred_True encode_bytes_out
        string.encode_out [of utf8])
qed

lemma connect5_encode_props:
  assumes "connect5_wf utf8 c"
  shows "enc_all
       [encode_property_default encode_u32 (c5_session_expiry_interval_secs c) 0 pt_SESS_EXPIRY_INT,
        encode_property encode_bytes (c5_auth_method c) pt_AUTH_METHOD,
        encode_property encode_bytes (c5_auth_data c) pt_AUTH_DATA,
        encode_property_default encode_bool (c5_request_problem_info c) True pt_REQ_PROB_INFO,
        encode_property_default encode_bool (c5_request_response_info c) False pt_REQ_RESP_INFO,
        encode_property encode_u16 (c5_receive_max c) pt_RECEIVE_MAX,
        encode_property encode_u32 (c5_max_packet_size c) pt_MAX_PACKET_SIZE,
        encode_property_default encode_u16 (c5_topic_alias_max c) 0 pt_TOPIC_ALIAS_MAX,
        encode_user_properties (c5_user_properties c)] = Inr (connect5_props c)"
proof -
  have "encode_user_properties (c5_user_properties c) = Inr (out_users (c5_user_properties c))"
    using assms by (auto simp: connect5_wf_def intro: encode_user_properties_out)
  with assms show ?thesis
    by (simp add: connect5_wf_def connect5_props_def u32.encode_property_default_out
        u16.encode_property_default_out bool.encode_property_default_out
        nonzero_u32.encode_property_out nonzero_u16.encode_property_out bytes.encode_property_out
        string.encode_property_out [of utf8])
qed

lemma connect5_size:
  assumes "connect5_wf utf8 c" and "connect5_encoded_size c l \<le> unat MAX_PACKET_SIZE"
  shows "connect5_encoded_size c l = length (connect5_body c)"
    and "length (connect5_props c) \<le> unat MAX_PACKET_SIZE"
    and "c5_last_will c = Some w \<Longrightarrow> length (will_props w) \<le> unat MAX_PACKET_SIZE"
proof -
  have will: "c5_last_will c = Some w \<Longrightarrow> last_will5_properties_len w = length (will_props w)" for w
    using assms(1) by (auto simp: connect5_wf_def intro: last_will5_len)
  show le: "length (connect5_props c) \<le> unat MAX_PACKET_SIZE"
    using assms(2) by (simp add: connect5_encoded_size_def Let_def connect5_len [OF assms(1)])
  show wle: "c5_last_will c = Some w \<Longrightarrow> length (will_props w) \<le> unat MAX_PACKET_SIZE" for w
    using assms(2) will [of w] by (simp add: connect5_encoded_size_def Let_def)
  show "connect5_encoded_size c l = length (connect5_body c)"
    using will wle
    by (auto simp: connect5_encoded_size_def Let_def connect5_len [OF assms(1)] connect5_body_def
        will_body_def length_out_block [OF le] length_out_block encoded_size_bytes_def
        encoded_size_option_def split: option.splits)
qed

lemma enc_all_append: "enc_all (xs @ ys) = enc_seq (enc_all xs) (enc_all ys)"
  by (induction xs) (auto simp: enc_seq_def split: sum.splits)

lemma connect5_encode_body:
  assumes "connect5_wf utf8 c" and "connect5_encoded_size c l \<le> unat MAX_PACKET_SIZE"
  shows "connect5_encode c sz = Inr (connect5_body c)"
proof -
  have will: "encode_option last_will5_encode (c5_last_will c)
      = Inr (case c5_last_will c of None \<Rightarrow> [] | Some w \<Rightarrow> will_body w)"
    using assms(1) last_will5_encode_out connect5_size(3) [OF assms]
    by (auto simp: encode_option_def connect5_wf_def split: option.splits)
  have strs: "encode_option encode_bytes (c5_username c)
      = Inr (case c5_username c of None \<Rightarrow> [] | Some s \<Rightarrow> out_bytes s)"
    "encode_option encode_bytes (c5_password c)
      = Inr (case c5_password c of None \<Rightarrow> [] | Some s \<Rightarrow> out_bytes s)"
    "encode_bytes (c5_client_id c) = Inr (out_bytes (c5_client_id c))"
    using assms(1) by (auto simp: encode_option_def connect5_wf_def encode_bytes_out split: option.splits)
  let ?props = "[encode_property_default encode_u32 (c5_session_expiry_interval_secs c) 0 pt_SESS_EXPIRY_INT,
        encode_property encode_bytes (c5_auth_method c) pt_AUTH_METHOD,
        encode_property encode_bytes (c5_auth_data c) pt_AUTH_DATA,
        encode_property_default encode_bool (c5_request_problem_info c) True pt_REQ_PROB_INFO,
        encode_property_default encode_bool (c5_request_response_info c) False pt_REQ_RESP_INFO,
        encode_property encode_u16 (c5_receive_max c) pt_RECEIVE_MAX,
        encode_property encode_u32 (c5_max_packet_size c) pt_MAX_PACKET_SIZE,
        encode_property_default encode_u16 (c5_topic_alias_max c) 0 pt_TOPIC_ALIAS_MAX,
        encode_user_properties (c5_user_properties c)]"
  let ?flags = "connect_flags (c5_username c \<noteq> None) (c5_password c \<noteq> None)
    (map_option (\<lambda>w. (lw5_qos w, lw5_retain w)) (c5_last_will c)) (c5_clean_start c)"
  have "connect5_encode c sz = enc_all ([encode_bytes MQTT, put [MQTT_LEVEL_5, ?flags], encode_u16 (c5_keep_alive c),
        write_variable_length (word_of_nat (connect5_properties_len c))] @ ?props
      @ [encode_bytes (c5_client_id c), encode_option last_will5_encode (c5_last_will c),
        encode_option encode_bytes (c5_username c), encode_option encode_bytes (c5_password c)])"
    by (simp add: connect5_encode_def)
  also have "\<dots> = Inr (connect5_body c)"
    unfolding enc_all_append connect5_encode_props [OF assms(1)] connect5_len [OF assms(1)]
    using write_variable_length_out [OF word_of_nat_le_MAX [OF connect5_size(2) [OF assms]]]
    by (simp add: will strs u16.encode_out encode_bytes_out connect5_body_def out_block_def)
  finally show ?thesis .
qed

interpretation connect5: limited_packet "\<lambda>_. connect5_decode utf8" connect5_encoded_size
  connect5_encode "\<lambda>_. t" connect5_body "\<lambda>_ c. c" "connect5_wf utf8" for utf8 t
  by unfold_locales
    (auto simp: connect5_decode_safe connect5_encode_body connect5_decode_body intro: connect5_size(1))

end
