(* ===== verification/V5_Connack.thy ===== *)
theory V5_Connack
  imports V5_Common
begin

text \<open>
  \<open>v5/packet/connack.rs\<close>: the CONNACK packet. It satisfies the contract \<open>limited_packet\<close>.
\<close>

section \<open>Data\<close>

datatype connect_ack_reason5 =
    CAR5_Success | CAR5_UnspecifiedError | CAR5_MalformedPacket | CAR5_ProtocolError |
    CAR5_ImplementationSpecificError | CAR5_UnsupportedProtocolVersion |
    CAR5_ClientIdentifierNotValid | CAR5_BadUserNameOrPassword | CAR5_NotAuthorized |
    CAR5_ServerUnavailable | CAR5_ServerBusy | CAR5_Banned | CAR5_BadAuthenticationMethod |
    CAR5_TopicNameInvalid | CAR5_PacketTooLarge | CAR5_QuotaExceeded |
    CAR5_PayloadFormatInvalid | CAR5_RetainNotSupported | CAR5_QosNotSupported |
    CAR5_UseAnotherServer | CAR5_ServerMoved | CAR5_ConnectionRateExceeded

fun car5_to_u8 :: "connect_ack_reason5 \<Rightarrow> u8" where
  "car5_to_u8 CAR5_Success = 0"
| "car5_to_u8 CAR5_UnspecifiedError = 128"
| "car5_to_u8 CAR5_MalformedPacket = 129"
| "car5_to_u8 CAR5_ProtocolError = 130"
| "car5_to_u8 CAR5_ImplementationSpecificError = 131"
| "car5_to_u8 CAR5_UnsupportedProtocolVersion = 132"
| "car5_to_u8 CAR5_ClientIdentifierNotValid = 133"
| "car5_to_u8 CAR5_BadUserNameOrPassword = 134"
| "car5_to_u8 CAR5_NotAuthorized = 135"
| "car5_to_u8 CAR5_ServerUnavailable = 136"
| "car5_to_u8 CAR5_ServerBusy = 137"
| "car5_to_u8 CAR5_Banned = 138"
| "car5_to_u8 CAR5_BadAuthenticationMethod = 140"
| "car5_to_u8 CAR5_TopicNameInvalid = 144"
| "car5_to_u8 CAR5_PacketTooLarge = 149"
| "car5_to_u8 CAR5_QuotaExceeded = 151"
| "car5_to_u8 CAR5_PayloadFormatInvalid = 153"
| "car5_to_u8 CAR5_RetainNotSupported = 154"
| "car5_to_u8 CAR5_QosNotSupported = 155"
| "car5_to_u8 CAR5_UseAnotherServer = 156"
| "car5_to_u8 CAR5_ServerMoved = 157"
| "car5_to_u8 CAR5_ConnectionRateExceeded = 159"

definition car5_variants :: "connect_ack_reason5 list" where
  "car5_variants =
     [CAR5_Success, CAR5_UnspecifiedError, CAR5_MalformedPacket, CAR5_ProtocolError,
      CAR5_ImplementationSpecificError, CAR5_UnsupportedProtocolVersion,
      CAR5_ClientIdentifierNotValid, CAR5_BadUserNameOrPassword, CAR5_NotAuthorized,
      CAR5_ServerUnavailable, CAR5_ServerBusy, CAR5_Banned, CAR5_BadAuthenticationMethod,
      CAR5_TopicNameInvalid, CAR5_PacketTooLarge, CAR5_QuotaExceeded, CAR5_PayloadFormatInvalid,
      CAR5_RetainNotSupported, CAR5_QosNotSupported, CAR5_UseAnotherServer, CAR5_ServerMoved,
      CAR5_ConnectionRateExceeded]"

fun car5_reason :: "connect_ack_reason5 \<Rightarrow> string" where
  "car5_reason CAR5_Success = ''Connection Accepted''"
| "car5_reason CAR5_UnsupportedProtocolVersion = ''protocol version is not supported''"
| "car5_reason CAR5_ClientIdentifierNotValid = ''client identifier is invalid''"
| "car5_reason CAR5_ServerUnavailable = ''Server unavailable''"
| "car5_reason CAR5_BadUserNameOrPassword = ''bad user name or password''"
| "car5_reason CAR5_NotAuthorized = ''not authorized''"
| "car5_reason _ = ''Connection Refused''"

abbreviation (input) RECEIVE_MAX_DEFAULT :: u16 where "RECEIVE_MAX_DEFAULT \<equiv> 65535"

record connect_ack5 =
  cak_session_present :: bool
  cak_reason_code :: connect_ack_reason5
  cak_session_expiry_interval_secs :: "u32 option"
  cak_receive_max :: u16
  cak_max_qos :: qos
  cak_max_packet_size :: "u32 option"
  cak_assigned_client_id :: "bytes option"
  cak_topic_alias_max :: u16
  cak_retain_available :: bool
  cak_wildcard_subscription_available :: bool
  cak_subscription_identifiers_available :: bool
  cak_shared_subscription_available :: bool
  cak_server_keepalive_sec :: "u16 option"
  cak_response_info :: "bytes option"
  cak_server_reference :: "bytes option"
  cak_auth_method :: "bytes option"
  cak_auth_data :: "bytes option"
  cak_reason_string :: "bytes option"
  cak_user_properties :: user_properties

definition connect_ack5_default :: connect_ack5 where
  "connect_ack5_default =
     \<lparr>cak_session_present = False, cak_reason_code = CAR5_Success,
      cak_session_expiry_interval_secs = None, cak_receive_max = RECEIVE_MAX_DEFAULT,
      cak_max_qos = ExactlyOnce, cak_max_packet_size = None, cak_assigned_client_id = None,
      cak_topic_alias_max = 0, cak_retain_available = True,
      cak_wildcard_subscription_available = True, cak_subscription_identifiers_available = True,
      cak_shared_subscription_available = True, cak_server_keepalive_sec = None,
      cak_response_info = None, cak_server_reference = None, cak_auth_method = None,
      cak_auth_data = None, cak_reason_string = None, cak_user_properties = []\<rparr>"

section \<open>Decoding\<close>

text \<open>The locals of \<open>ConnectAck::decode\<close> that its property loop sets.\<close>

record connect_ack_locals =
  cl_session_expiry_interval_secs :: "u32 option"
  cl_receive_max :: "u16 option"
  cl_max_qos :: "qos option"
  cl_retain_available :: "bool option"
  cl_max_packet_size :: "u32 option"
  cl_assigned_client_id :: "bytes option"
  cl_topic_alias_max :: "u16 option"
  cl_reason_string :: "bytes option"
  cl_user_properties :: user_properties
  cl_wildcard_sub_avail :: "bool option"
  cl_sub_ids_avail :: "bool option"
  cl_shared_sub_avail :: "bool option"
  cl_server_ka_sec :: "u16 option"
  cl_response_info :: "bytes option"
  cl_server_reference :: "bytes option"
  cl_auth_method :: "bytes option"
  cl_auth_data :: "bytes option"

definition connect_ack_locals_init :: connect_ack_locals where
  "connect_ack_locals_init =
     \<lparr>cl_session_expiry_interval_secs = None,
      cl_receive_max = None,
      cl_max_qos = None,
      cl_retain_available = None,
      cl_max_packet_size = None,
      cl_assigned_client_id = None,
      cl_topic_alias_max = None,
      cl_reason_string = None,
      cl_user_properties = [],
      cl_wildcard_sub_avail = None,
      cl_sub_ids_avail = None,
      cl_shared_sub_avail = None,
      cl_server_ka_sec = None,
      cl_response_info = None,
      cl_server_reference = None,
      cl_auth_method = None,
      cl_auth_data = None\<rparr>"

text \<open>The value of the \<open>MAX_QOS\<close> property, read after \<open>ensure!(max_qos.is_none(), ..)\<close>.\<close>

definition decode_max_qos :: "qos dec" where
  "decode_max_qos =
     dec_bind (ensure_remaining 1 InvalidLength) (\<lambda>_.
     dec_bind get_u8 (\<lambda>b.
     dec_lift (qos_try_from b)))"

definition connect_ack_props_body :: "(bytes \<Rightarrow> bool) \<Rightarrow> connect_ack_locals \<Rightarrow> connect_ack_locals dec" where
  "connect_ack_props_body utf8 l =
     dec_bind get_u8 (\<lambda>prop_id.
     if prop_id = pt_SESS_EXPIRY_INT then
       read_into decode_u32 (cl_session_expiry_interval_secs l) (\<lambda>v. l\<lparr>cl_session_expiry_interval_secs := v\<rparr>)
     else if prop_id = pt_RECEIVE_MAX then
       read_into decode_nonzero_u16 (cl_receive_max l) (\<lambda>v. l\<lparr>cl_receive_max := v\<rparr>)
     else if prop_id = pt_MAX_QOS then
       read_into decode_max_qos (cl_max_qos l) (\<lambda>v. l\<lparr>cl_max_qos := v\<rparr>)
     else if prop_id = pt_RETAIN_AVAIL then
       read_into decode_bool (cl_retain_available l) (\<lambda>v. l\<lparr>cl_retain_available := v\<rparr>)
     else if prop_id = pt_MAX_PACKET_SIZE then
       read_into decode_u32 (cl_max_packet_size l) (\<lambda>v. l\<lparr>cl_max_packet_size := v\<rparr>)
     else if prop_id = pt_ASSND_CLIENT_ID then
       read_into (decode_bytestring utf8) (cl_assigned_client_id l) (\<lambda>v. l\<lparr>cl_assigned_client_id := v\<rparr>)
     else if prop_id = pt_TOPIC_ALIAS_MAX then
       read_into decode_u16 (cl_topic_alias_max l) (\<lambda>v. l\<lparr>cl_topic_alias_max := v\<rparr>)
     else if prop_id = pt_REASON_STRING then
       read_into (decode_bytestring utf8) (cl_reason_string l) (\<lambda>v. l\<lparr>cl_reason_string := v\<rparr>)
     else if prop_id = pt_USER then push_user utf8 (\<lambda>p. l\<lparr>cl_user_properties := cl_user_properties l @ [p]\<rparr>)
     else if prop_id = pt_WILDCARD_SUB_AVAIL then
       read_into decode_bool (cl_wildcard_sub_avail l) (\<lambda>v. l\<lparr>cl_wildcard_sub_avail := v\<rparr>)
     else if prop_id = pt_SUB_IDS_AVAIL then
       read_into decode_bool (cl_sub_ids_avail l) (\<lambda>v. l\<lparr>cl_sub_ids_avail := v\<rparr>)
     else if prop_id = pt_SHARED_SUB_AVAIL then
       read_into decode_bool (cl_shared_sub_avail l) (\<lambda>v. l\<lparr>cl_shared_sub_avail := v\<rparr>)
     else if prop_id = pt_SERVER_KA then
       read_into decode_u16 (cl_server_ka_sec l) (\<lambda>v. l\<lparr>cl_server_ka_sec := v\<rparr>)
     else if prop_id = pt_RESP_INFO then
       read_into (decode_bytestring utf8) (cl_response_info l) (\<lambda>v. l\<lparr>cl_response_info := v\<rparr>)
     else if prop_id = pt_SERVER_REF then
       read_into (decode_bytestring utf8) (cl_server_reference l) (\<lambda>v. l\<lparr>cl_server_reference := v\<rparr>)
     else if prop_id = pt_AUTH_METHOD then
       read_into (decode_bytestring utf8) (cl_auth_method l) (\<lambda>v. l\<lparr>cl_auth_method := v\<rparr>)
     else if prop_id = pt_AUTH_DATA then
       read_into decode_bytes (cl_auth_data l) (\<lambda>v. l\<lparr>cl_auth_data := v\<rparr>)
     else dec_raise MalformedPacket)"

definition connect_ack_of_locals :: "u8 \<Rightarrow> connect_ack_reason5 \<Rightarrow> connect_ack_locals \<Rightarrow> connect_ack5" where
  "connect_ack_of_locals flags reason_code l =
     \<lparr>cak_session_present = flags_contains flags CAF_SESSION_PRESENT, cak_reason_code = reason_code,
      cak_session_expiry_interval_secs = cl_session_expiry_interval_secs l,
      cak_receive_max = unwrap_or (cl_receive_max l) RECEIVE_MAX_DEFAULT,
      cak_max_qos = unwrap_or (cl_max_qos l) ExactlyOnce,
      cak_max_packet_size = cl_max_packet_size l,
      cak_assigned_client_id = cl_assigned_client_id l,
      cak_topic_alias_max = unwrap_or (cl_topic_alias_max l) 0,
      cak_retain_available = unwrap_or (cl_retain_available l) True,
      cak_wildcard_subscription_available = unwrap_or (cl_wildcard_sub_avail l) True,
      cak_subscription_identifiers_available = unwrap_or (cl_sub_ids_avail l) True,
      cak_shared_subscription_available = unwrap_or (cl_shared_sub_avail l) True,
      cak_server_keepalive_sec = cl_server_ka_sec l,
      cak_response_info = cl_response_info l,
      cak_server_reference = cl_server_reference l,
      cak_auth_method = cl_auth_method l,
      cak_auth_data = cl_auth_data l,
      cak_reason_string = cl_reason_string l,
      cak_user_properties = cl_user_properties l\<rparr>"

definition connect_ack5_decode :: "(bytes \<Rightarrow> bool) \<Rightarrow> connect_ack5 dec" where
  "connect_ack5_decode utf8 =
     dec_bind (ensure_remaining 2 InvalidLength) (\<lambda>_.
     dec_bind get_u8 (\<lambda>bits.
     dec_bind (dec_lift (case flags_from_bits CAF_SESSION_PRESENT bits of
                 None \<Rightarrow> Inl ConnAckReservedFlagSet | Some f \<Rightarrow> Inr f)) (\<lambda>flags.
     dec_bind get_u8 (\<lambda>code.
     dec_bind (dec_lift (prim_try_from car5_to_u8 car5_variants code)) (\<lambda>reason_code.
     dec_bind take_properties (\<lambda>prop_src.
     dec_bind (on_props prop_src
       (dec_while (connect_ack_props_body utf8) connect_ack_locals_init)) (\<lambda>l.
     dec_bind (ensure_end InvalidLength) (\<lambda>_.
     dec_return (connect_ack_of_locals flags reason_code l)))))))))"

section \<open>Encoding\<close>

definition connect_ack5_encoded_size :: "connect_ack5 \<Rightarrow> u32 \<Rightarrow> nat" where
  "connect_ack5_encoded_size a limit =
     (let prop_len =
        encoded_property_size encoded_size_u32 (cak_session_expiry_interval_secs a)
        + encoded_property_size_default encoded_size_u16 (cak_receive_max a) RECEIVE_MAX_DEFAULT
        + (if cak_max_qos a < ExactlyOnce then 1 + 1 else 0)
        + encoded_property_size encoded_size_u32 (cak_max_packet_size a)
        + encoded_property_size encoded_size_bytes (cak_assigned_client_id a)
        + encoded_property_size_default encoded_size_bool (cak_retain_available a) True
        + encoded_property_size_default encoded_size_bool (cak_wildcard_subscription_available a) True
        + encoded_property_size_default encoded_size_bool (cak_subscription_identifiers_available a) True
        + encoded_property_size_default encoded_size_bool (cak_shared_subscription_available a) True
        + encoded_property_size encoded_size_u16 (cak_server_keepalive_sec a)
        + encoded_property_size encoded_size_bytes (cak_response_info a)
        + encoded_property_size encoded_size_bytes (cak_server_reference a)
        + encoded_property_size encoded_size_bytes (cak_auth_method a)
        + encoded_property_size encoded_size_bytes (cak_auth_data a);
        prop_len = (if cak_topic_alias_max a > 0
                    then prop_len + (1 + encoded_size_u16 (cak_topic_alias_max a)) else prop_len);
        diag_len = encoded_size_opt_props (cak_user_properties a) (cak_reason_string a)
          (reduce_limit limit (2 + 4 + prop_len));
        prop_len = prop_len + diag_len
      in 2 + unat (var_int_len prop_len) + prop_len)"

definition connect_ack5_encode :: "connect_ack5 \<Rightarrow> u32 \<Rightarrow> enc" where
  "connect_ack5_encode a sz =
     enc_then (enc_all
       [put [if cak_session_present a then 1 else 0, car5_to_u8 (cak_reason_code a)],
        write_variable_length (var_int_len_from_size (sz - 2)),
        encode_property encode_u32 (cak_session_expiry_interval_secs a) pt_SESS_EXPIRY_INT,
        encode_property_default encode_u16 (cak_receive_max a) RECEIVE_MAX_DEFAULT pt_RECEIVE_MAX,
        (if cak_max_qos a < ExactlyOnce then put [pt_MAX_QOS, qos_value (cak_max_qos a)] else put []),
        encode_property_default encode_bool (cak_retain_available a) True pt_RETAIN_AVAIL,
        encode_property encode_u32 (cak_max_packet_size a) pt_MAX_PACKET_SIZE,
        encode_property encode_bytes (cak_assigned_client_id a) pt_ASSND_CLIENT_ID,
        encode_property_default encode_u16 (cak_topic_alias_max a) 0 pt_TOPIC_ALIAS_MAX,
        encode_property_default encode_bool (cak_wildcard_subscription_available a) True pt_WILDCARD_SUB_AVAIL,
        encode_property_default encode_bool (cak_subscription_identifiers_available a) True pt_SUB_IDS_AVAIL,
        encode_property_default encode_bool (cak_shared_subscription_available a) True pt_SHARED_SUB_AVAIL,
        encode_property encode_u16 (cak_server_keepalive_sec a) pt_SERVER_KA,
        encode_property encode_bytes (cak_response_info a) pt_RESP_INFO,
        encode_property encode_bytes (cak_server_reference a) pt_SERVER_REF,
        encode_property encode_bytes (cak_auth_method a) pt_AUTH_METHOD,
        encode_property encode_bytes (cak_auth_data a) pt_AUTH_DATA])
     (\<lambda>written. encode_opt_props (cak_user_properties a) (cak_reason_string a)
        (sz - word_of_nat written))"

section \<open>CONNACK satisfies the contract\<close>

interpretation car5: prim_enum car5_to_u8 car5_variants
proof
  show "c \<in> set car5_variants" for c by (cases c) (simp_all add: car5_variants_def)
qed (simp add: car5_variants_def)

definition out_max_qos :: "qos \<Rightarrow> bytes" where
  "out_max_qos q = [qos_value q]"

interpretation max_qos: wire_value decode_max_qos "\<lambda>q. put [qos_value q]" "\<lambda>_. 1" out_max_qos "\<lambda>_. True"
proof
  show "safe_from 0 decode_max_qos"
    unfolding decode_max_qos_def by (rule safe_bind_known safe_intros | simp)+
  show "consumes decode_max_qos"
    unfolding decode_max_qos_def by (intro consumes_bind2 consumes_bind1 consumes_intros safe_intros)
qed (simp_all add: out_max_qos_def decode_max_qos_def)

lemmas max_qos_wire [wire_simps] = max_qos.read_into_out
lemmas max_qos_safe [safe_intros] = max_qos.read_into_safe max_qos.read_into_nongrow

definition connect_ack_locals_of :: "connect_ack5 \<Rightarrow> connect_ack_locals" where
  "connect_ack_locals_of a =
     \<lparr>cl_session_expiry_interval_secs = cak_session_expiry_interval_secs a,
      cl_receive_max = unless_default (cak_receive_max a) RECEIVE_MAX_DEFAULT,
      cl_max_qos = unless_default (cak_max_qos a) ExactlyOnce,
      cl_retain_available = unless_default (cak_retain_available a) True,
      cl_max_packet_size = cak_max_packet_size a,
      cl_assigned_client_id = cak_assigned_client_id a,
      cl_topic_alias_max = unless_default (cak_topic_alias_max a) 0,
      cl_reason_string = cak_reason_string a,
      cl_user_properties = cak_user_properties a,
      cl_wildcard_sub_avail = unless_default (cak_wildcard_subscription_available a) True,
      cl_sub_ids_avail = unless_default (cak_subscription_identifiers_available a) True,
      cl_shared_sub_avail = unless_default (cak_shared_subscription_available a) True,
      cl_server_ka_sec = cak_server_keepalive_sec a,
      cl_response_info = cak_response_info a,
      cl_server_reference = cak_server_reference a,
      cl_auth_method = cak_auth_method a,
      cl_auth_data = cak_auth_data a\<rparr>"

definition connect_ack_props :: "connect_ack_locals \<Rightarrow> bytes" where
  "connect_ack_props l =
     out_prop pt_SESS_EXPIRY_INT put_u32 (cl_session_expiry_interval_secs l)
     @ out_prop pt_RECEIVE_MAX put_u16 (cl_receive_max l)
     @ out_prop pt_MAX_QOS out_max_qos (cl_max_qos l)
     @ out_prop pt_RETAIN_AVAIL out_bool (cl_retain_available l)
     @ out_prop pt_MAX_PACKET_SIZE put_u32 (cl_max_packet_size l)
     @ out_prop pt_ASSND_CLIENT_ID out_bytes (cl_assigned_client_id l)
     @ out_prop pt_TOPIC_ALIAS_MAX put_u16 (cl_topic_alias_max l)
     @ out_prop pt_WILDCARD_SUB_AVAIL out_bool (cl_wildcard_sub_avail l)
     @ out_prop pt_SUB_IDS_AVAIL out_bool (cl_sub_ids_avail l)
     @ out_prop pt_SHARED_SUB_AVAIL out_bool (cl_shared_sub_avail l)
     @ out_prop pt_SERVER_KA put_u16 (cl_server_ka_sec l)
     @ out_prop pt_RESP_INFO out_bytes (cl_response_info l)
     @ out_prop pt_SERVER_REF out_bytes (cl_server_reference l)
     @ out_prop pt_AUTH_METHOD out_bytes (cl_auth_method l)
     @ out_prop pt_AUTH_DATA out_bytes (cl_auth_data l)"

definition connect_ack_locals_wf :: "(bytes \<Rightarrow> bool) \<Rightarrow> connect_ack_locals \<Rightarrow> bool" where
  "connect_ack_locals_wf utf8 l \<longleftrightarrow>
     pred_option (\<lambda>w. w \<noteq> 0) (cl_receive_max l) \<and>
     pred_option (ok_string utf8) (cl_assigned_client_id l) \<and>
     pred_option (ok_string utf8) (cl_response_info l) \<and>
     pred_option (ok_string utf8) (cl_server_reference l) \<and>
     pred_option (ok_string utf8) (cl_auth_method l) \<and> pred_option short (cl_auth_data l) \<and>
     ok_opt utf8 (cl_user_properties l, cl_reason_string l)"

lemma connect_ack_loop_steps:
  "cl_session_expiry_interval_secs l = None \<Longrightarrow> 
     dec_while (connect_ack_props_body utf8) l (out_prop pt_SESS_EXPIRY_INT put_u32 vu32 @ r)
       = dec_while (connect_ack_props_body utf8) (l\<lparr>cl_session_expiry_interval_secs := vu32\<rparr>) r"
  "cl_receive_max l = None \<Longrightarrow> pred_option (\<lambda>w. w \<noteq> 0) vu16 \<Longrightarrow> 
     dec_while (connect_ack_props_body utf8) l (out_prop pt_RECEIVE_MAX put_u16 vu16 @ r)
       = dec_while (connect_ack_props_body utf8) (l\<lparr>cl_receive_max := vu16\<rparr>) r"
  "cl_max_qos l = None \<Longrightarrow> 
     dec_while (connect_ack_props_body utf8) l (out_prop pt_MAX_QOS out_max_qos vqos @ r)
       = dec_while (connect_ack_props_body utf8) (l\<lparr>cl_max_qos := vqos\<rparr>) r"
  "cl_retain_available l = None \<Longrightarrow> 
     dec_while (connect_ack_props_body utf8) l (out_prop pt_RETAIN_AVAIL out_bool vbool @ r)
       = dec_while (connect_ack_props_body utf8) (l\<lparr>cl_retain_available := vbool\<rparr>) r"
  "cl_max_packet_size l = None \<Longrightarrow> 
     dec_while (connect_ack_props_body utf8) l (out_prop pt_MAX_PACKET_SIZE put_u32 vu32 @ r)
       = dec_while (connect_ack_props_body utf8) (l\<lparr>cl_max_packet_size := vu32\<rparr>) r"
  "cl_assigned_client_id l = None \<Longrightarrow> pred_option (ok_string utf8) v \<Longrightarrow> 
     dec_while (connect_ack_props_body utf8) l (out_prop pt_ASSND_CLIENT_ID out_bytes v @ r)
       = dec_while (connect_ack_props_body utf8) (l\<lparr>cl_assigned_client_id := v\<rparr>) r"
  "cl_topic_alias_max l = None \<Longrightarrow> 
     dec_while (connect_ack_props_body utf8) l (out_prop pt_TOPIC_ALIAS_MAX put_u16 vu16 @ r)
       = dec_while (connect_ack_props_body utf8) (l\<lparr>cl_topic_alias_max := vu16\<rparr>) r"
  "cl_reason_string l = None \<Longrightarrow> pred_option (ok_string utf8) v \<Longrightarrow> 
     dec_while (connect_ack_props_body utf8) l (out_prop pt_REASON_STRING out_bytes v @ r)
       = dec_while (connect_ack_props_body utf8) (l\<lparr>cl_reason_string := v\<rparr>) r"
  "cl_wildcard_sub_avail l = None \<Longrightarrow> 
     dec_while (connect_ack_props_body utf8) l (out_prop pt_WILDCARD_SUB_AVAIL out_bool vbool @ r)
       = dec_while (connect_ack_props_body utf8) (l\<lparr>cl_wildcard_sub_avail := vbool\<rparr>) r"
  "cl_sub_ids_avail l = None \<Longrightarrow> 
     dec_while (connect_ack_props_body utf8) l (out_prop pt_SUB_IDS_AVAIL out_bool vbool @ r)
       = dec_while (connect_ack_props_body utf8) (l\<lparr>cl_sub_ids_avail := vbool\<rparr>) r"
  "cl_shared_sub_avail l = None \<Longrightarrow> 
     dec_while (connect_ack_props_body utf8) l (out_prop pt_SHARED_SUB_AVAIL out_bool vbool @ r)
       = dec_while (connect_ack_props_body utf8) (l\<lparr>cl_shared_sub_avail := vbool\<rparr>) r"
  "cl_server_ka_sec l = None \<Longrightarrow> 
     dec_while (connect_ack_props_body utf8) l (out_prop pt_SERVER_KA put_u16 vu16 @ r)
       = dec_while (connect_ack_props_body utf8) (l\<lparr>cl_server_ka_sec := vu16\<rparr>) r"
  "cl_response_info l = None \<Longrightarrow> pred_option (ok_string utf8) v \<Longrightarrow> 
     dec_while (connect_ack_props_body utf8) l (out_prop pt_RESP_INFO out_bytes v @ r)
       = dec_while (connect_ack_props_body utf8) (l\<lparr>cl_response_info := v\<rparr>) r"
  "cl_server_reference l = None \<Longrightarrow> pred_option (ok_string utf8) v \<Longrightarrow> 
     dec_while (connect_ack_props_body utf8) l (out_prop pt_SERVER_REF out_bytes v @ r)
       = dec_while (connect_ack_props_body utf8) (l\<lparr>cl_server_reference := v\<rparr>) r"
  "cl_auth_method l = None \<Longrightarrow> pred_option (ok_string utf8) v \<Longrightarrow> 
     dec_while (connect_ack_props_body utf8) l (out_prop pt_AUTH_METHOD out_bytes v @ r)
       = dec_while (connect_ack_props_body utf8) (l\<lparr>cl_auth_method := v\<rparr>) r"
  "cl_auth_data l = None \<Longrightarrow> pred_option short v \<Longrightarrow> 
     dec_while (connect_ack_props_body utf8) l (out_prop pt_AUTH_DATA out_bytes v @ r)
       = dec_while (connect_ack_props_body utf8) (l\<lparr>cl_auth_data := v\<rparr>) r"
  by (rule dec_while_prop; auto simp: connect_ack_props_body_def wire_simps intro: connect_ack_locals.equality)+

lemma connect_ack_loop_users:
  assumes "list_all (ok_pair utf8) ps"
  shows "dec_while (connect_ack_props_body utf8) l (out_users ps @ r)
    = dec_while (connect_ack_props_body utf8) (l\<lparr>cl_user_properties := cl_user_properties l @ ps\<rparr>) r"
proof -
  let ?upd = "\<lambda>l p. l\<lparr>cl_user_properties := cl_user_properties l @ [p]\<rparr>"
  have "foldl ?upd l ps = l\<lparr>cl_user_properties := cl_user_properties l @ ps\<rparr>"
    by (induction ps arbitrary: l) simp_all
  moreover have "dec_while (connect_ack_props_body utf8) l (out_users ps @ r)
      = dec_while (connect_ack_props_body utf8) (foldl ?upd l ps) r"
    using assms by (intro dec_while_users) (auto simp: connect_ack_props_body_def out_user_def wire_simps)
  ultimately show ?thesis by simp
qed

lemma connect_ack_loop:
  assumes "connect_ack_locals_wf utf8 l"
  shows "dec_while (connect_ack_props_body utf8) connect_ack_locals_init
      (connect_ack_props l @ out_opt (cl_user_properties l, cl_reason_string l) @ r)
    = dec_while (connect_ack_props_body utf8) l r"
  using assms unfolding connect_ack_props_def append_assoc out_opt_def case_prod_conv
  by (cases l) (simp add: connect_ack_locals_wf_def ok_opt_def connect_ack_locals_init_def
      connect_ack_loop_steps connect_ack_loop_users)

definition connect_ack5_props :: "connect_ack5 \<Rightarrow> bytes" where
  "connect_ack5_props a = connect_ack_props (connect_ack_locals_of a)"

definition connect_ack5_body :: "connect_ack5 \<Rightarrow> bytes" where
  "connect_ack5_body a =
     (if cak_session_present a then 1 else 0) # car5_to_u8 (cak_reason_code a) #
       out_block (connect_ack5_props a @ out_opt (cak_user_properties a, cak_reason_string a))"

definition connect_ack5_fit :: "u32 \<Rightarrow> connect_ack5 \<Rightarrow> user_properties \<times> bytes option" where
  "connect_ack5_fit limit a = fit_opt_props (cak_user_properties a) (cak_reason_string a)
     (unat (reduce_limit limit (2 + 4 + length (connect_ack5_props a))))"

definition connect_ack5_trim :: "u32 \<Rightarrow> connect_ack5 \<Rightarrow> connect_ack5" where
  "connect_ack5_trim limit a =
     a\<lparr>cak_user_properties := fst (connect_ack5_fit limit a),
       cak_reason_string := snd (connect_ack5_fit limit a)\<rparr>"

definition connect_ack5_wf :: "(bytes \<Rightarrow> bool) \<Rightarrow> connect_ack5 \<Rightarrow> bool" where
  "connect_ack5_wf utf8 a \<longleftrightarrow> cak_receive_max a \<noteq> 0 \<and>
     pred_option (ok_string utf8) (cak_assigned_client_id a) \<and>
     pred_option (ok_string utf8) (cak_response_info a) \<and>
     pred_option (ok_string utf8) (cak_server_reference a) \<and>
     pred_option (ok_string utf8) (cak_auth_method a) \<and> pred_option short (cak_auth_data a) \<and>
     ok_opt utf8 (cak_user_properties a, cak_reason_string a)"

lemma connect_ack_locals_of_wf:
  "connect_ack5_wf utf8 a \<Longrightarrow> connect_ack_locals_wf utf8 (connect_ack_locals_of a)"
  by (simp add: connect_ack5_wf_def connect_ack_locals_wf_def connect_ack_locals_of_def unless_default_def)

lemma connect_ack_of_locals_of:
  "connect_ack_of_locals (if cak_session_present a then 1 else 0) (cak_reason_code a) (connect_ack_locals_of a) = a"
  by (cases a) (simp add: connect_ack_of_locals_def connect_ack_locals_of_def flags_contains_def)

lemma connect_ack5_decode_body:
  assumes "connect_ack5_wf utf8 a" and "length (connect_ack5_body a) \<le> unat MAX_PACKET_SIZE"
  shows "connect_ack5_decode utf8 (connect_ack5_body a) = Inr (a, [])"
proof -
  let ?l = "connect_ack_locals_of a"
  have opt: "out_opt (cak_user_properties a, cak_reason_string a) = out_opt (cl_user_properties ?l, cl_reason_string ?l)"
    by (simp add: connect_ack_locals_of_def)
  have "length (connect_ack5_props a @ out_opt (cak_user_properties a, cak_reason_string a)) \<le> unat MAX_PACKET_SIZE"
    using assms(2) by (simp add: connect_ack5_body_def out_block_def)
  moreover have "dec_while (connect_ack_props_body utf8) connect_ack_locals_init
      (connect_ack5_props a @ out_opt (cak_user_properties a, cak_reason_string a)) = Inr (?l, [])"
    using connect_ack_loop [OF connect_ack_locals_of_wf [OF assms(1)], of "[]"]
    by (simp add: connect_ack5_props_def opt)
  moreover have "flags_from_bits CAF_SESSION_PRESENT (if cak_session_present a then 1 else 0)
      = Some (if cak_session_present a then 1 else 0)"
    by (simp add: flags_from_bits_def)
  ultimately show ?thesis
    unfolding connect_ack5_decode_def connect_ack5_body_def
    by (simp add: car5.try_from_code take_properties_block_Nil connect_ack_of_locals_of del: if_split)
qed

lemma connect_ack_props_safe [safe_intros]: "safe_from n (dec_while (connect_ack_props_body utf8) l)"
  unfolding connect_ack_props_body_def by (intro safe_intros)

lemma connect_ack5_decode_safe: "safe_from 0 (connect_ack5_decode utf8)"
  unfolding connect_ack5_decode_def
  by (rule safe_bind_known safe_intros safe_bind | simp)+

lemma less_ExactlyOnce: "q < ExactlyOnce \<longleftrightarrow> q \<noteq> ExactlyOnce"
  by (cases q) (simp_all add: less_qos_def word_less_nat_alt)

lemma max_qos_out:
  "(if q < ExactlyOnce then 1 + 1 else 0) = prop_len out_max_qos (unless_default q ExactlyOnce)"
  "(if q < ExactlyOnce then put [pt_MAX_QOS, qos_value q] else put [])
     = Inr (out_prop pt_MAX_QOS out_max_qos (unless_default q ExactlyOnce))"
  by (simp_all add: less_ExactlyOnce unless_default_def out_max_qos_def)

lemma topic_alias_max_len:
  "(if w > 0 then n + (1 + encoded_size_u16 w) else n) = n + prop_len put_u16 (unless_default w 0)"
  by (simp add: unless_default_def encoded_size_u16_def word_gt_0)

lemma connect_ack5_size:
  assumes "connect_ack5_wf utf8 a" and "connect_ack5_encoded_size a l \<le> unat MAX_PACKET_SIZE"
  shows "connect_ack5_encoded_size a l = 2 + length (out_block (connect_ack5_props a @ out_opt (connect_ack5_fit l a)))"
    and "length (connect_ack5_props a @ out_opt (connect_ack5_fit l a)) \<le> unat MAX_PACKET_SIZE"
proof -
  have size: "connect_ack5_encoded_size a l =
     (let n = length (connect_ack5_props a @ out_opt (connect_ack5_fit l a)) in 2 + unat (var_int_len n) + n)"
    using assms(1)
    unfolding connect_ack5_encoded_size_def Let_def topic_alias_max_len max_qos_out connect_ack5_fit_def
      encoded_size_opt_props_fit connect_ack5_props_def connect_ack_props_def connect_ack_locals_of_def
    by (simp add: connect_ack5_wf_def u32.property_size_out u16.property_size_out
        nonzero_u16.property_size_default_out bool.property_size_default_out
        string.property_size_out [of utf8] bytes.property_size_out option.pred_True
        unless_default_def [symmetric] ac_simps)
  show le: "length (connect_ack5_props a @ out_opt (connect_ack5_fit l a)) \<le> unat MAX_PACKET_SIZE"
    using assms(2) size by (simp add: Let_def)
  show "connect_ack5_encoded_size a l = 2 + length (out_block (connect_ack5_props a @ out_opt (connect_ack5_fit l a)))"
    unfolding size Let_def length_out_block [OF le] by simp
qed

lemma connect_ack5_trim_props: "connect_ack5_props (connect_ack5_trim l a) = connect_ack5_props a"
  by (simp add: connect_ack5_props_def connect_ack_props_def connect_ack_locals_of_def connect_ack5_trim_def)

lemma connect_ack5_encode_body:
  assumes "connect_ack5_wf utf8 a" and "connect_ack5_encoded_size a l \<le> unat MAX_PACKET_SIZE"
  shows "connect_ack5_encode a (word_of_nat (connect_ack5_encoded_size a l))
    = Inr (connect_ack5_body (connect_ack5_trim l a))"
proof -
  have ok: "ok_opt utf8 (cak_user_properties a, cak_reason_string a)"
    using assms(1) by (simp add: connect_ack5_wf_def)
  note size = connect_ack5_size [OF assms]
  note block = limited_block [OF ok connect_ack5_fit_def [of l a, THEN arg_cong, of out_opt] size(2)
      arg_cong [OF size(1), of word_of_nat]]
  let ?sz = "word_of_nat (connect_ack5_encoded_size a l) :: u32"
  have enc: "enc_all
       [put [if cak_session_present a then 1 else 0, car5_to_u8 (cak_reason_code a)],
        write_variable_length (var_int_len_from_size (?sz - 2)),
        encode_property encode_u32 (cak_session_expiry_interval_secs a) pt_SESS_EXPIRY_INT,
        encode_property_default encode_u16 (cak_receive_max a) RECEIVE_MAX_DEFAULT pt_RECEIVE_MAX,
        (if cak_max_qos a < ExactlyOnce then put [pt_MAX_QOS, qos_value (cak_max_qos a)] else put []),
        encode_property_default encode_bool (cak_retain_available a) True pt_RETAIN_AVAIL,
        encode_property encode_u32 (cak_max_packet_size a) pt_MAX_PACKET_SIZE,
        encode_property encode_bytes (cak_assigned_client_id a) pt_ASSND_CLIENT_ID,
        encode_property_default encode_u16 (cak_topic_alias_max a) 0 pt_TOPIC_ALIAS_MAX,
        encode_property_default encode_bool (cak_wildcard_subscription_available a) True pt_WILDCARD_SUB_AVAIL,
        encode_property_default encode_bool (cak_subscription_identifiers_available a) True pt_SUB_IDS_AVAIL,
        encode_property_default encode_bool (cak_shared_subscription_available a) True pt_SHARED_SUB_AVAIL,
        encode_property encode_u16 (cak_server_keepalive_sec a) pt_SERVER_KA,
        encode_property encode_bytes (cak_response_info a) pt_RESP_INFO,
        encode_property encode_bytes (cak_server_reference a) pt_SERVER_REF,
        encode_property encode_bytes (cak_auth_method a) pt_AUTH_METHOD,
        encode_property encode_bytes (cak_auth_data a) pt_AUTH_DATA]
      = Inr ((if cak_session_present a then 1 else 0) # car5_to_u8 (cak_reason_code a) #
          out_varlen (word_of_nat (length (connect_ack5_props a @ out_opt (connect_ack5_fit l a))))
            @ connect_ack5_props a)"
    using assms(1) block(1,2)
    unfolding connect_ack5_props_def connect_ack_props_def connect_ack_locals_of_def max_qos_out
    by (simp add: connect_ack5_wf_def u32.encode_property_out u16.encode_property_out
        nonzero_u16.encode_property_default_out u16.encode_property_default_out
        bool.encode_property_default_out string.encode_property_out [of utf8] bytes.encode_property_out
        option.pred_True unless_default_def [symmetric])
  show ?thesis
    unfolding connect_ack5_encode_def enc
    using block(3)
    by (simp only: enc_then_simps) (simp add: connect_ack5_body_def out_block_def connect_ack5_trim_def
        connect_ack5_trim_props [unfolded connect_ack5_trim_def] add.assoc)
qed

interpretation connect_ack5: limited_packet "\<lambda>_. connect_ack5_decode utf8" connect_ack5_encoded_size
  connect_ack5_encode "\<lambda>_. t" connect_ack5_body connect_ack5_trim "connect_ack5_wf utf8" for utf8 t
proof
  fix a l
  show "safe_from 0 (connect_ack5_decode utf8)" by (rule connect_ack5_decode_safe)
  show "connect_ack5_wf utf8 a \<Longrightarrow> connect_ack5_wf utf8 (connect_ack5_trim l a)"
    using ok_fit_opt_props [of utf8 "cak_user_properties a" "cak_reason_string a"]
    by (simp add: connect_ack5_wf_def connect_ack5_trim_def connect_ack5_fit_def)
  show "connect_ack5_wf utf8 a \<Longrightarrow> connect_ack5_encoded_size a l \<le> unat MAX_PACKET_SIZE \<Longrightarrow>
      connect_ack5_encoded_size a l = length (connect_ack5_body (connect_ack5_trim l a))"
    using connect_ack5_size [of utf8 a l]
    by (simp add: connect_ack5_body_def connect_ack5_trim_props) (simp add: connect_ack5_trim_def)
  show "length (connect_ack5_body a) + 8 \<le> unat l \<Longrightarrow>
      length (connect_ack5_body a) \<le> unat MAX_PACKET_SIZE \<Longrightarrow> connect_ack5_trim l a = a"
    using length_block_bound [of "connect_ack5_props a @ out_opt (cak_user_properties a, cak_reason_string a)", OF order_refl]
    by (simp add: connect_ack5_body_def connect_ack5_trim_def connect_ack5_fit_def reduce_limit_enough)
qed (simp_all add: connect_ack5_encode_body connect_ack5_decode_body)

end
