(* ===== verification/V5_Publish.thy ===== *)
theory V5_Publish
  imports V5_Common
begin

text \<open>
  \<open>v5/packet/publish.rs\<close>: the PUBLISH packet and its properties. A PUBLISH without properties is
  written with the default ones and read back with them; otherwise it satisfies the contract
  \<open>limited_packet\<close>, with the flags of the first byte.
\<close>

section \<open>Decoding\<close>

definition publish_properties_default :: publish_properties where
  "publish_properties_default =
     \<lparr>pp_topic_alias = None, pp_correlation_data = None, pp_message_expiry_interval = None,
      pp_content_type = None, pp_user_properties = [], pp_is_utf8_payload = False,
      pp_response_topic = None, pp_subscription_ids = []\<rparr>"

definition publish_properties_from :: "user_properties \<Rightarrow> publish_properties" where
  "publish_properties_from props = publish_properties_default\<lparr>pp_user_properties := props\<rparr>"

text \<open>
  The locals of the loop of \<open>parse_publish_properties\<close>: those that are fields of the result, and
  \<open>is_utf8_payload\<close>, which is an option until the loop ends.
\<close>

definition publish_props_body ::
  "(bytes \<Rightarrow> bool) \<Rightarrow> publish_properties \<times> bool option \<Rightarrow> (publish_properties \<times> bool option) dec" where
  "publish_props_body utf8 = (\<lambda>(p, is_utf8_payload).
     dec_bind get_u8 (\<lambda>prop_id.
     if prop_id = pt_UTF8_PAYLOAD then
       read_into decode_bool is_utf8_payload (\<lambda>v. (p, v))
     else if prop_id = pt_MSG_EXPIRY_INT then
       read_into decode_nonzero_u32 (pp_message_expiry_interval p)
         (\<lambda>v. (p\<lparr>pp_message_expiry_interval := v\<rparr>, is_utf8_payload))
     else if prop_id = pt_CONTENT_TYPE then
       read_into (decode_bytestring utf8) (pp_content_type p)
         (\<lambda>v. (p\<lparr>pp_content_type := v\<rparr>, is_utf8_payload))
     else if prop_id = pt_RESP_TOPIC then
       read_into (decode_bytestring utf8) (pp_response_topic p)
         (\<lambda>v. (p\<lparr>pp_response_topic := v\<rparr>, is_utf8_payload))
     else if prop_id = pt_CORR_DATA then
       read_into decode_bytes (pp_correlation_data p)
         (\<lambda>v. (p\<lparr>pp_correlation_data := v\<rparr>, is_utf8_payload))
     else if prop_id = pt_SUB_ID then
       dec_bind decode_sub_id (\<lambda>i.
       dec_return (p\<lparr>pp_subscription_ids := pp_subscription_ids p @ [i]\<rparr>, is_utf8_payload))
     else if prop_id = pt_TOPIC_ALIAS then
       read_into decode_nonzero_u16 (pp_topic_alias p)
         (\<lambda>v. (p\<lparr>pp_topic_alias := v\<rparr>, is_utf8_payload))
     else if prop_id = pt_USER then
       push_user utf8 (\<lambda>u. (p\<lparr>pp_user_properties := pp_user_properties p @ [u]\<rparr>, is_utf8_payload))
     else dec_raise MalformedPacket))"

definition parse_publish_properties :: "(bytes \<Rightarrow> bool) \<Rightarrow> publish_properties dec" where
  "parse_publish_properties utf8 =
     dec_bind take_properties (\<lambda>prop_src.
     dec_bind (on_props prop_src
       (dec_while (publish_props_body utf8) (publish_properties_default, None))) (\<lambda>(p, is_utf8_payload).
     dec_return (p\<lparr>pp_is_utf8_payload := unwrap_or is_utf8_payload False\<rparr>)))"

definition publish_decode :: "(bytes \<Rightarrow> bool) \<Rightarrow> u8 \<Rightarrow> publish dec" where
  "publish_decode utf8 packet_flags =
     dec_bind (decode_bytestring utf8) (\<lambda>topic.
     dec_bind (dec_lift (qos_try_from (drop_bit 1 (packet_flags AND 0x06)))) (\<lambda>q.
     dec_bind (dec_when (q \<noteq> AtMostOnce) decode_nonzero_u16) (\<lambda>packet_id.
     dec_bind (parse_publish_properties utf8) (\<lambda>properties.
     dec_bind dec_rest (\<lambda>payload.
     dec_return
       \<lparr>pub_dup = (packet_flags AND 0x08 = 0x08), pub_retain = (packet_flags AND 0x01 = 0x01),
        pub_qos = q, pub_topic = topic, pub_packet_id = packet_id, pub_payload = payload,
        pub_properties = Some properties\<rparr>)))))"

section \<open>Encoding\<close>

definition publish_properties_encoded_size :: "publish_properties \<Rightarrow> u32 \<Rightarrow> nat" where
  "publish_properties_encoded_size p limit =
     (let prop_len =
        encoded_property_size encoded_size_u16 (pp_topic_alias p)
        + encoded_property_size encoded_size_bytes (pp_correlation_data p)
        + encoded_property_size encoded_size_u32 (pp_message_expiry_interval p)
        + encoded_property_size encoded_size_bytes (pp_content_type p)
        + encoded_property_size_default encoded_size_bool (pp_is_utf8_payload p) False
        + encoded_property_size encoded_size_bytes (pp_response_topic p)
        + foldl (\<lambda>acc i. acc + 1 + unat (var_int_len (unat i))) 0 (pp_subscription_ids p)
        + encoded_size_user_properties (pp_user_properties p)
      in prop_len + unat (var_int_len prop_len))"

definition publish_properties_encode :: "publish_properties \<Rightarrow> u32 \<Rightarrow> enc" where
  "publish_properties_encode p sz =
     enc_all
       [write_variable_length (var_int_len_from_size sz),
        encode_property encode_u16 (pp_topic_alias p) pt_TOPIC_ALIAS,
        encode_property encode_bytes (pp_correlation_data p) pt_CORR_DATA,
        encode_property encode_u32 (pp_message_expiry_interval p) pt_MSG_EXPIRY_INT,
        encode_property encode_bytes (pp_content_type p) pt_CONTENT_TYPE,
        encode_property_default encode_bool (pp_is_utf8_payload p) False pt_UTF8_PAYLOAD,
        encode_property encode_bytes (pp_response_topic p) pt_RESP_TOPIC,
        enc_all (map (\<lambda>i. enc_seq (put [pt_SUB_ID]) (write_variable_length i)) (pp_subscription_ids p)),
        encode_user_properties (pp_user_properties p)]"

definition publish_encoded_size :: "publish \<Rightarrow> u32 \<Rightarrow> nat" where
  "publish_encoded_size p limit =
     encoded_size_bytes (pub_topic p) + (if pub_qos p = AtMostOnce then 0 else 2)
     + (case pub_properties p of
          Some q \<Rightarrow> publish_properties_encoded_size q limit
        | None \<Rightarrow> publish_properties_encoded_size publish_properties_default limit)
     + length (pub_payload p)"

definition publish_encode :: "publish \<Rightarrow> u32 \<Rightarrow> enc" where
  "publish_encode p sz =
     enc_seq
       (enc_then
         (enc_seq (encode_bytes (pub_topic p))
           (if pub_qos p = AtMostOnce
            then (if pub_packet_id p \<noteq> None then Inl (Raised EncMalformedPacket) else put [])
            else (case pub_packet_id p of
                    None \<Rightarrow> Inl (Raised EncPacketIdRequired)
                  | Some i \<Rightarrow> encode_u16 i)))
         (\<lambda>written.
           case pub_properties p of
             Some q \<Rightarrow> publish_properties_encode q (sz - word_of_nat (written + length (pub_payload p)))
           | None \<Rightarrow> publish_properties_encode publish_properties_default
                       (sz - word_of_nat (written + length (pub_payload p)))))
       (put (pub_payload p))"

section \<open>PUBLISH satisfies the contract\<close>

definition out_sub_ids :: "u32 list \<Rightarrow> bytes" where
  "out_sub_ids ids = concat (map (\<lambda>i. pt_SUB_ID # out_varlen i) ids)"

definition publish_props :: "publish_properties \<Rightarrow> bytes" where
  "publish_props p =
     out_prop pt_TOPIC_ALIAS put_u16 (pp_topic_alias p)
     @ out_prop pt_CORR_DATA out_bytes (pp_correlation_data p)
     @ out_prop pt_MSG_EXPIRY_INT put_u32 (pp_message_expiry_interval p)
     @ out_prop pt_CONTENT_TYPE out_bytes (pp_content_type p)
     @ out_prop pt_UTF8_PAYLOAD out_bool (unless_default (pp_is_utf8_payload p) False)
     @ out_prop pt_RESP_TOPIC out_bytes (pp_response_topic p)
     @ out_sub_ids (pp_subscription_ids p)
     @ out_users (pp_user_properties p)"

definition publish_properties_wf :: "(bytes \<Rightarrow> bool) \<Rightarrow> publish_properties \<Rightarrow> bool" where
  "publish_properties_wf utf8 p \<longleftrightarrow>
     pred_option (\<lambda>w. w \<noteq> 0) (pp_topic_alias p) \<and> pred_option short (pp_correlation_data p) \<and>
     pred_option (\<lambda>w. w \<noteq> 0) (pp_message_expiry_interval p) \<and>
     pred_option (ok_string utf8) (pp_content_type p) \<and>
     pred_option (ok_string utf8) (pp_response_topic p) \<and>
     list_all ok_sub_id (pp_subscription_ids p) \<and> list_all (ok_pair utf8) (pp_user_properties p)"

definition publish_body :: "publish \<Rightarrow> bytes" where
  "publish_body p =
     out_bytes (pub_topic p) @ (case pub_packet_id p of None \<Rightarrow> [] | Some i \<Rightarrow> put_u16 i)
     @ out_block (publish_props (case pub_properties p of None \<Rightarrow> publish_properties_default | Some q \<Rightarrow> q))
     @ pub_payload p"

definition publish_wf :: "(bytes \<Rightarrow> bool) \<Rightarrow> publish \<Rightarrow> bool" where
  "publish_wf utf8 p \<longleftrightarrow>
     ok_string utf8 (pub_topic p) \<and>
     (pub_packet_id p = None \<longleftrightarrow> pub_qos p = AtMostOnce) \<and> pub_packet_id p \<noteq> Some 0 \<and>
     (\<exists>q. pub_properties p = Some q \<and> publish_properties_wf utf8 q)"

lemma publish_loop_steps:
  "pp_topic_alias p = None \<Longrightarrow> pred_option (\<lambda>w. w \<noteq> 0) a \<Longrightarrow>
     dec_while (publish_props_body utf8) (p, u) (out_prop pt_TOPIC_ALIAS put_u16 a @ r)
       = dec_while (publish_props_body utf8) (p\<lparr>pp_topic_alias := a\<rparr>, u) r"
  "pp_correlation_data p = None \<Longrightarrow> pred_option short v \<Longrightarrow>
     dec_while (publish_props_body utf8) (p, u) (out_prop pt_CORR_DATA out_bytes v @ r)
       = dec_while (publish_props_body utf8) (p\<lparr>pp_correlation_data := v\<rparr>, u) r"
  "pp_message_expiry_interval p = None \<Longrightarrow> pred_option (\<lambda>w. w \<noteq> 0) e \<Longrightarrow>
     dec_while (publish_props_body utf8) (p, u) (out_prop pt_MSG_EXPIRY_INT put_u32 e @ r)
       = dec_while (publish_props_body utf8) (p\<lparr>pp_message_expiry_interval := e\<rparr>, u) r"
  "pp_content_type p = None \<Longrightarrow> pred_option (ok_string utf8) v \<Longrightarrow>
     dec_while (publish_props_body utf8) (p, u) (out_prop pt_CONTENT_TYPE out_bytes v @ r)
       = dec_while (publish_props_body utf8) (p\<lparr>pp_content_type := v\<rparr>, u) r"
  "dec_while (publish_props_body utf8) (p, None) (out_prop pt_UTF8_PAYLOAD out_bool b @ r)
       = dec_while (publish_props_body utf8) (p, b) r"
  "pp_response_topic p = None \<Longrightarrow> pred_option (ok_string utf8) v \<Longrightarrow>
     dec_while (publish_props_body utf8) (p, u) (out_prop pt_RESP_TOPIC out_bytes v @ r)
       = dec_while (publish_props_body utf8) (p\<lparr>pp_response_topic := v\<rparr>, u) r"
  by (rule dec_while_prop; auto simp: publish_props_body_def wire_simps intro: publish_properties.equality)+

lemma publish_loop_users:
  assumes "list_all (ok_pair utf8) ps"
  shows "dec_while (publish_props_body utf8) (p, u) (out_users ps @ r)
    = dec_while (publish_props_body utf8) (p\<lparr>pp_user_properties := pp_user_properties p @ ps\<rparr>, u) r"
proof -
  let ?upd = "\<lambda>(p, u :: bool option) x. (p\<lparr>pp_user_properties := pp_user_properties p @ [x]\<rparr>, u)"
  have "foldl ?upd (p, u) ps = (p\<lparr>pp_user_properties := pp_user_properties p @ ps\<rparr>, u)"
    by (induction ps arbitrary: p) simp_all
  moreover have "dec_while (publish_props_body utf8) (p, u) (out_users ps @ r)
      = dec_while (publish_props_body utf8) (foldl ?upd (p, u) ps) r"
    using assms by (intro dec_while_users) (auto simp: publish_props_body_def out_user_def wire_simps)
  ultimately show ?thesis by simp
qed

lemma publish_loop_sub_ids:
  assumes "list_all ok_sub_id ids"
  shows "dec_while (publish_props_body utf8) (p, u) (out_sub_ids ids @ r)
    = dec_while (publish_props_body utf8) (p\<lparr>pp_subscription_ids := pp_subscription_ids p @ ids\<rparr>, u) r"
proof -
  let ?upd = "\<lambda>(p, u :: bool option) x. (p\<lparr>pp_subscription_ids := pp_subscription_ids p @ [x]\<rparr>, u)"
  have "foldl ?upd (p, u) ids = (p\<lparr>pp_subscription_ids := pp_subscription_ids p @ ids\<rparr>, u)"
    by (induction ids arbitrary: p) simp_all
  moreover have "dec_while (publish_props_body utf8) (p, u) (out_sub_ids ids @ r)
      = dec_while (publish_props_body utf8) (foldl ?upd (p, u) ids) r"
    unfolding out_sub_ids_def
    using assms by (intro dec_while_concat) (auto simp: publish_props_body_def list_all_iff wire_simps)
  ultimately show ?thesis by simp
qed

lemma publish_loop:
  assumes "publish_properties_wf utf8 p"
  shows "dec_while (publish_props_body utf8) (publish_properties_default, None) (publish_props p @ r)
    = dec_while (publish_props_body utf8)
        (p\<lparr>pp_is_utf8_payload := False\<rparr>, unless_default (pp_is_utf8_payload p) False) r"
  using assms unfolding publish_props_def append_assoc
  by (cases p) (simp add: publish_properties_wf_def publish_properties_default_def publish_loop_steps
      publish_loop_users publish_loop_sub_ids del: if_split)

lemma parse_publish_properties_out [wire_simps]:
  assumes "publish_properties_wf utf8 p" and "length (publish_props p) \<le> unat MAX_PACKET_SIZE"
  shows "parse_publish_properties utf8 (out_block (publish_props p) @ r) = Inr (p, r)"
  using publish_loop [OF assms(1), of "[]"] assms(2)
  by (cases p) (simp add: parse_publish_properties_def take_properties_block split: if_splits)

lemma publish_decode_body:
  assumes "publish_wf utf8 p" and "length (publish_body p) \<le> unat MAX_PACKET_SIZE"
  shows "publish_decode utf8 (publish_first_byte p AND 0x0F) (publish_body p) = Inr (p, [])"
proof -
  obtain q where q: "pub_properties p = Some q" "publish_properties_wf utf8 q"
    using assms(1) by (auto simp: publish_wf_def)
  with assms(2) have "length (publish_props q) \<le> unat MAX_PACKET_SIZE"
    by (simp add: publish_body_def out_block_def)
  with assms(1) q show ?thesis
    by (cases "pub_packet_id p")
      (auto simp: publish_decode_def publish_body_def publish_wf_def wire_simps publish_first_byte_bits
         dec_rest_def)
qed

lemma publish_props_safe [safe_intros]: "safe_from n (dec_while (publish_props_body utf8) acc)"
  unfolding publish_props_body_def case_prod_beta by (intro safe_bind safe_intros)

lemma publish_decode_safe: "safe_from 0 (publish_decode utf8 flags)"
  unfolding publish_decode_def parse_publish_properties_def case_prod_beta
  by (intro safe_bind safe_intros)

lemma publish_sub_ids_size:
  "list_all ok_sub_id ids \<Longrightarrow>
     foldl (\<lambda>acc i. Suc (acc + unat (var_int_len (unat i)))) a ids = a + length (out_sub_ids ids)"
  by (induction ids arbitrary: a) (auto simp: out_sub_ids_def sub_id.size_out)

lemma publish_properties_size:
  assumes "publish_properties_wf utf8 p"
  shows "publish_properties_encoded_size p l
    = length (publish_props p) + unat (var_int_len (length (publish_props p)))"
proof -
  have "encoded_property_size encoded_size_u16 (pp_topic_alias p)
        + encoded_property_size encoded_size_bytes (pp_correlation_data p)
        + encoded_property_size encoded_size_u32 (pp_message_expiry_interval p)
        + encoded_property_size encoded_size_bytes (pp_content_type p)
        + encoded_property_size_default encoded_size_bool (pp_is_utf8_payload p) False
        + encoded_property_size encoded_size_bytes (pp_response_topic p)
        + foldl (\<lambda>acc i. acc + 1 + unat (var_int_len (unat i))) 0 (pp_subscription_ids p)
        + encoded_size_user_properties (pp_user_properties p) = length (publish_props p)"
    using assms
    by (simp add: publish_properties_wf_def publish_props_def publish_sub_ids_size
        encoded_size_user_properties_out nonzero_u16.property_size_out bytes.property_size_out
        nonzero_u32.property_size_out string.property_size_out [of utf8]
        bool.property_size_default_out)
  then show ?thesis by (simp only: publish_properties_encoded_size_def Let_def)
qed

lemma publish_properties_encode_out:
  assumes "publish_properties_wf utf8 p" and "length (publish_props p) \<le> unat MAX_PACKET_SIZE"
    and "sz = word_of_nat (length (out_block (publish_props p)))"
  shows "publish_properties_encode p sz = Inr (out_block (publish_props p))"
proof -
  have "var_int_len_from_size sz = word_of_nat (length (publish_props p))"
    unfolding assms(3) length_out_block [OF assms(2)] add.commute [of "unat _"]
    by (rule var_int_len_from_size_inverse [OF assms(2)])
  moreover have "enc_all (map (\<lambda>i. enc_seq (put [pt_SUB_ID]) (write_variable_length i)) (pp_subscription_ids p))
      = Inr (out_sub_ids (pp_subscription_ids p))"
    using assms(1) unfolding out_sub_ids_def
    by (intro enc_all_map_Inr) (auto simp: publish_properties_wf_def list_all_iff sub_id.encode_out)
  moreover have "encode_user_properties (pp_user_properties p) = Inr (out_users (pp_user_properties p))"
    using assms(1) by (auto simp: publish_properties_wf_def intro: encode_user_properties_out)
  ultimately show ?thesis
    using assms(1) write_variable_length_out [OF word_of_nat_le_MAX [OF assms(2)]]
    unfolding publish_properties_encode_def out_block_def publish_properties_wf_def publish_props_def
    by (simp add: nonzero_u16.encode_property_out nonzero_u32.encode_property_out
        bytes.encode_property_out string.encode_property_out [of utf8]
        bool.encode_property_default_out del: if_split)
qed

lemma publish_size:
  assumes "publish_wf utf8 p" and "publish_encoded_size p l \<le> unat MAX_PACKET_SIZE"
    and "pub_properties p = Some q"
  shows "publish_encoded_size p l = length (publish_body p)"
    and "length (publish_props q) \<le> unat MAX_PACKET_SIZE"
proof -
  have wf: "publish_properties_wf utf8 q" using assms by (simp add: publish_wf_def)
  show le: "length (publish_props q) \<le> unat MAX_PACKET_SIZE"
    using assms(2,3) by (simp add: publish_encoded_size_def publish_properties_size [OF wf])
  show "publish_encoded_size p l = length (publish_body p)"
    using assms(1,3)
    by (auto simp: publish_encoded_size_def publish_body_def publish_properties_size [OF wf]
        length_out_block [OF le] encoded_size_bytes_def publish_wf_def split: option.splits)
qed

lemma publish_encode_body:
  assumes "publish_wf utf8 p" and "publish_encoded_size p l \<le> unat MAX_PACKET_SIZE"
  shows "publish_encode p (word_of_nat (publish_encoded_size p l)) = Inr (publish_body p)"
proof -
  obtain q where q: "pub_properties p = Some q" and wf: "publish_properties_wf utf8 q"
    using assms(1) by (auto simp: publish_wf_def)
  note size = publish_size [OF assms q]
  let ?id = "case pub_packet_id p of None \<Rightarrow> [] | Some i \<Rightarrow> put_u16 i"
  let ?sz = "word_of_nat (publish_encoded_size p l) -
    word_of_nat (length (out_bytes (pub_topic p) @ ?id) + length (pub_payload p)) :: u32"
  have "?sz = word_of_nat (length (out_block (publish_props q)))"
    unfolding size(1) by (simp add: publish_body_def q)
  then have props: "publish_properties_encode q ?sz = Inr (out_block (publish_props q))"
    by (rule publish_properties_encode_out [OF wf size(2)])
  have "enc_seq (encode_bytes (pub_topic p))
           (if pub_qos p = AtMostOnce
            then (if pub_packet_id p \<noteq> None then Inl (Raised EncMalformedPacket) else put [])
            else (case pub_packet_id p of
                    None \<Rightarrow> Inl (Raised EncPacketIdRequired)
                  | Some i \<Rightarrow> encode_u16 i)) = Inr (out_bytes (pub_topic p) @ ?id)"
    using assms(1) by (auto simp: publish_wf_def encode_bytes_out u16.encode_out split: option.splits)
  then show ?thesis
    unfolding publish_encode_def by (simp only: enc_then_simps q option.case props) (simp add: publish_body_def q)
qed

interpretation publish: limited_packet "\<lambda>b. publish_decode utf8 (b AND 0x0F)" publish_encoded_size
  publish_encode publish_first_byte publish_body "\<lambda>_ p. p" "publish_wf utf8" for utf8
proof
  fix p l
  show "publish_wf utf8 p \<Longrightarrow> publish_encoded_size p l \<le> unat MAX_PACKET_SIZE \<Longrightarrow>
      publish_encoded_size p l = length (publish_body p)"
    by (auto simp: publish_wf_def intro!: publish_size(1) [of utf8])
qed (simp_all add: publish_decode_safe publish_encode_body publish_decode_body)

text \<open>Without properties, the default ones are written.\<close>

lemma publish_encode_None:
  "pub_properties p = None \<Longrightarrow>
     publish_encode p sz = publish_encode (p\<lparr>pub_properties := Some publish_properties_default\<rparr>) sz"
  "pub_properties p = None \<Longrightarrow>
     publish_encoded_size p l = publish_encoded_size (p\<lparr>pub_properties := Some publish_properties_default\<rparr>) l"
  by (simp_all add: publish_encode_def publish_encoded_size_def)

end
