(* ===== verification/V5_Acks.thy ===== *)
theory V5_Acks
  imports V5_Common
begin

text \<open>
  \<open>v5/packet/pubacks.rs\<close>, \<open>v5/packet/disconnect.rs\<close> and \<open>v5/packet/auth.rs\<close>: the packets that carry a
  reason code and diagnostic properties. Each satisfies the contract \<open>limited_packet\<close>.
\<close>

section \<open>PUBACK, PUBREC, PUBREL, PUBCOMP\<close>

datatype publish_ack_reason =
    PAR_Success | PAR_NoMatchingSubscribers | PAR_UnspecifiedError | PAR_ImplementationSpecificError
  | PAR_NotAuthorized | PAR_TopicNameInvalid | PAR_PacketIdentifierInUse | PAR_QuotaExceeded
  | PAR_PayloadFormatInvalid

fun par_to_u8 :: "publish_ack_reason \<Rightarrow> u8" where
  "par_to_u8 PAR_Success = 0"
| "par_to_u8 PAR_NoMatchingSubscribers = 16"
| "par_to_u8 PAR_UnspecifiedError = 128"
| "par_to_u8 PAR_ImplementationSpecificError = 131"
| "par_to_u8 PAR_NotAuthorized = 135"
| "par_to_u8 PAR_TopicNameInvalid = 144"
| "par_to_u8 PAR_PacketIdentifierInUse = 145"
| "par_to_u8 PAR_QuotaExceeded = 151"
| "par_to_u8 PAR_PayloadFormatInvalid = 153"

definition par_variants :: "publish_ack_reason list" where
  "par_variants =
     [PAR_Success, PAR_NoMatchingSubscribers, PAR_UnspecifiedError, PAR_ImplementationSpecificError,
      PAR_NotAuthorized, PAR_TopicNameInvalid, PAR_PacketIdentifierInUse, PAR_QuotaExceeded,
      PAR_PayloadFormatInvalid]"

fun par_should_disconnect :: "publish_ack_reason \<Rightarrow> bool" where
  "par_should_disconnect PAR_UnspecifiedError = True"
| "par_should_disconnect PAR_ImplementationSpecificError = True"
| "par_should_disconnect PAR_NotAuthorized = True"
| "par_should_disconnect PAR_TopicNameInvalid = True"
| "par_should_disconnect _ = False"

fun par_to_reason_code :: "publish_ack_reason \<Rightarrow> disconnect_reason_code" where
  "par_to_reason_code PAR_Success = DRC_NormalDisconnection"
| "par_to_reason_code PAR_NoMatchingSubscribers = DRC_NormalDisconnection"
| "par_to_reason_code PAR_UnspecifiedError = DRC_UnspecifiedError"
| "par_to_reason_code PAR_ImplementationSpecificError = DRC_ImplementationSpecificError"
| "par_to_reason_code PAR_NotAuthorized = DRC_NotAuthorized"
| "par_to_reason_code PAR_TopicNameInvalid = DRC_TopicNameInvalid"
| "par_to_reason_code PAR_PacketIdentifierInUse = DRC_ProtocolError"
| "par_to_reason_code PAR_QuotaExceeded = DRC_QuotaExceeded"
| "par_to_reason_code PAR_PayloadFormatInvalid = DRC_PayloadFormatInvalid"

datatype publish_ack2_reason = PA2R_Success | PA2R_PacketIdNotFound

fun pa2r_to_u8 :: "publish_ack2_reason \<Rightarrow> u8" where
  "pa2r_to_u8 PA2R_Success = 0"
| "pa2r_to_u8 PA2R_PacketIdNotFound = 146"

definition pa2r_variants :: "publish_ack2_reason list" where
  "pa2r_variants = [PA2R_Success, PA2R_PacketIdNotFound]"

fun pa2r_should_disconnect :: "publish_ack2_reason \<Rightarrow> bool" where
  "pa2r_should_disconnect PA2R_PacketIdNotFound = True"
| "pa2r_should_disconnect PA2R_Success = False"

fun pa2r_to_reason_code :: "publish_ack2_reason \<Rightarrow> disconnect_reason_code" where
  "pa2r_to_reason_code PA2R_Success = DRC_NormalDisconnection"
| "pa2r_to_reason_code PA2R_PacketIdNotFound = DRC_ImplementationSpecificError"

text \<open>\<open>PublishAck\<close> and \<open>PublishAck2\<close> differ only in the type of the reason code.\<close>

record 'r pub_ack =
  pa_packet_id :: u16
  pa_reason_code :: 'r
  pa_properties :: user_properties
  pa_reason_string :: "bytes option"

type_synonym publish_ack = "publish_ack_reason pub_ack"
type_synonym publish_ack2 = "publish_ack2_reason pub_ack"

definition publish_ack_default :: publish_ack where
  "publish_ack_default =
     \<lparr>pa_packet_id = 1, pa_reason_code = PAR_Success, pa_properties = [], pa_reason_string = None\<rparr>"

definition publish_ack2_default :: publish_ack2 where
  "publish_ack2_default =
     \<lparr>pa_packet_id = 1, pa_reason_code = PA2R_Success, pa_properties = [], pa_reason_string = None\<rparr>"

text \<open>The two decoders, word for word the same up to the conversion of the reason code.\<close>

definition pub_ack_decode ::
  "(bytes \<Rightarrow> bool) \<Rightarrow> (u8 \<Rightarrow> decode_error + 'r) \<Rightarrow> 'r pub_ack \<Rightarrow> 'r pub_ack dec" where
  "pub_ack_decode utf8 try_into dflt =
     dec_bind decode_nonzero_u16 (\<lambda>packet_id.
     if_remaining
       (dec_bind get_u8 (\<lambda>b.
        dec_bind (dec_lift (try_into b)) (\<lambda>reason_code.
        if_remaining
          (dec_bind (ack_props_decode utf8) (\<lambda>(properties, reason_string).
           dec_bind (ensure_end InvalidLength) (\<lambda>_.
           dec_return \<lparr>pa_packet_id = packet_id, pa_reason_code = reason_code,
                       pa_properties = properties, pa_reason_string = reason_string\<rparr>)))
          (dec_return (dflt\<lparr>pa_packet_id := packet_id, pa_reason_code := reason_code\<rparr>)))))
       (dec_return (dflt\<lparr>pa_packet_id := packet_id\<rparr>)))"

definition publish_ack_decode :: "(bytes \<Rightarrow> bool) \<Rightarrow> publish_ack dec" where
  "publish_ack_decode utf8 =
     pub_ack_decode utf8 (prim_try_from par_to_u8 par_variants) publish_ack_default"

definition publish_ack2_decode :: "(bytes \<Rightarrow> bool) \<Rightarrow> publish_ack2 dec" where
  "publish_ack2_decode utf8 =
     pub_ack_decode utf8 (prim_try_from pa2r_to_u8 pa2r_variants) publish_ack2_default"

text \<open>\<open>limit - HEADER_LEN - 4\<close> on \<open>u32\<close>.\<close>

definition pub_ack_encoded_size :: "'r pub_ack \<Rightarrow> u32 \<Rightarrow> nat" where
  "pub_ack_encoded_size a limit =
     3 + ack_props_encoded_size (pa_properties a) (pa_reason_string a) (limit - 3 - 4)"

definition pub_ack_encode :: "('r \<Rightarrow> u8) \<Rightarrow> 'r pub_ack \<Rightarrow> u32 \<Rightarrow> enc" where
  "pub_ack_encode to_u8 a sz =
     enc_all [encode_u16 (pa_packet_id a), put [to_u8 (pa_reason_code a)],
       ack_props_encode (pa_properties a) (pa_reason_string a) (sz - 3)]"

definition publish_ack_encoded_size :: "publish_ack \<Rightarrow> u32 \<Rightarrow> nat" where
  "publish_ack_encoded_size = pub_ack_encoded_size"

definition publish_ack_encode :: "publish_ack \<Rightarrow> u32 \<Rightarrow> enc" where
  "publish_ack_encode = pub_ack_encode par_to_u8"

definition publish_ack2_encoded_size :: "publish_ack2 \<Rightarrow> u32 \<Rightarrow> nat" where
  "publish_ack2_encoded_size = pub_ack_encoded_size"

definition publish_ack2_encode :: "publish_ack2 \<Rightarrow> u32 \<Rightarrow> enc" where
  "publish_ack2_encode = pub_ack_encode pa2r_to_u8"

section \<open>DISCONNECT\<close>

fun drc_to_u8 :: "disconnect_reason_code \<Rightarrow> u8" where
  "drc_to_u8 DRC_NormalDisconnection = 0"
| "drc_to_u8 DRC_DisconnectWithWillMessage = 4"
| "drc_to_u8 DRC_UnspecifiedError = 128"
| "drc_to_u8 DRC_MalformedPacket = 129"
| "drc_to_u8 DRC_ProtocolError = 130"
| "drc_to_u8 DRC_ImplementationSpecificError = 131"
| "drc_to_u8 DRC_NotAuthorized = 135"
| "drc_to_u8 DRC_ServerBusy = 137"
| "drc_to_u8 DRC_ServerShuttingDown = 139"
| "drc_to_u8 DRC_BadAuthenticationMethod = 140"
| "drc_to_u8 DRC_KeepAliveTimeout = 141"
| "drc_to_u8 DRC_SessionTakenOver = 142"
| "drc_to_u8 DRC_TopicFilterInvalid = 143"
| "drc_to_u8 DRC_TopicNameInvalid = 144"
| "drc_to_u8 DRC_ReceiveMaximumExceeded = 147"
| "drc_to_u8 DRC_TopicAliasInvalid = 148"
| "drc_to_u8 DRC_PacketTooLarge = 149"
| "drc_to_u8 DRC_MessageRateTooHigh = 150"
| "drc_to_u8 DRC_QuotaExceeded = 151"
| "drc_to_u8 DRC_AdministrativeAction = 152"
| "drc_to_u8 DRC_PayloadFormatInvalid = 153"
| "drc_to_u8 DRC_RetainNotSupported = 154"
| "drc_to_u8 DRC_QosNotSupported = 155"
| "drc_to_u8 DRC_UseAnotherServer = 156"
| "drc_to_u8 DRC_ServerMoved = 157"
| "drc_to_u8 DRC_SharedSubscriptionNotSupported = 158"
| "drc_to_u8 DRC_ConnectionRateExceeded = 159"
| "drc_to_u8 DRC_MaximumConnectTime = 160"
| "drc_to_u8 DRC_SubscriptionIdentifiersNotSupported = 161"
| "drc_to_u8 DRC_WildcardSubscriptionsNotSupported = 162"

definition drc_variants :: "disconnect_reason_code list" where
  "drc_variants =
     [DRC_NormalDisconnection, DRC_DisconnectWithWillMessage, DRC_UnspecifiedError,
      DRC_MalformedPacket, DRC_ProtocolError, DRC_ImplementationSpecificError, DRC_NotAuthorized,
      DRC_ServerBusy, DRC_ServerShuttingDown, DRC_BadAuthenticationMethod, DRC_KeepAliveTimeout,
      DRC_SessionTakenOver, DRC_TopicFilterInvalid, DRC_TopicNameInvalid,
      DRC_ReceiveMaximumExceeded, DRC_TopicAliasInvalid, DRC_PacketTooLarge, DRC_MessageRateTooHigh,
      DRC_QuotaExceeded, DRC_AdministrativeAction, DRC_PayloadFormatInvalid, DRC_RetainNotSupported,
      DRC_QosNotSupported, DRC_UseAnotherServer, DRC_ServerMoved,
      DRC_SharedSubscriptionNotSupported, DRC_ConnectionRateExceeded, DRC_MaximumConnectTime,
      DRC_SubscriptionIdentifiersNotSupported, DRC_WildcardSubscriptionsNotSupported]"

record disconnect =
  di_reason_code :: disconnect_reason_code
  di_session_expiry_interval_secs :: "u32 option"
  di_server_reference :: "bytes option"
  di_reason_string :: "bytes option"
  di_user_properties :: user_properties

definition disconnect_new :: "disconnect_reason_code \<Rightarrow> disconnect" where
  "disconnect_new reason_code =
     \<lparr>di_reason_code = reason_code, di_session_expiry_interval_secs = None, di_server_reference = None,
      di_reason_string = None, di_user_properties = []\<rparr>"

definition disconnect_default :: disconnect where
  "disconnect_default = disconnect_new DRC_NormalDisconnection"

text \<open>The locals of the property loop, updated in the packet that is being built.\<close>

definition disconnect_props_body :: "(bytes \<Rightarrow> bool) \<Rightarrow> disconnect \<Rightarrow> disconnect dec" where
  "disconnect_props_body utf8 d =
     dec_bind get_u8 (\<lambda>prop_id.
     if prop_id = pt_SESS_EXPIRY_INT then
       read_into decode_u32 (di_session_expiry_interval_secs d)
         (\<lambda>v. d\<lparr>di_session_expiry_interval_secs := v\<rparr>)
     else if prop_id = pt_REASON_STRING then
       read_into (decode_bytestring utf8) (di_reason_string d) (\<lambda>v. d\<lparr>di_reason_string := v\<rparr>)
     else if prop_id = pt_USER then
       push_user utf8 (\<lambda>p. d\<lparr>di_user_properties := di_user_properties d @ [p]\<rparr>)
     else if prop_id = pt_SERVER_REF then
       read_into (decode_bytestring utf8) (di_server_reference d) (\<lambda>v. d\<lparr>di_server_reference := v\<rparr>)
     else dec_raise MalformedPacket)"

definition disconnect_decode :: "(bytes \<Rightarrow> bool) \<Rightarrow> disconnect dec" where
  "disconnect_decode utf8 =
     if_remaining
       (dec_bind get_u8 (\<lambda>b.
        dec_bind (dec_lift (prim_try_from drc_to_u8 drc_variants b)) (\<lambda>reason_code.
        if_remaining
          (dec_bind take_properties (\<lambda>prop_src.
           dec_bind (on_props prop_src
             (dec_while (disconnect_props_body utf8) (disconnect_new reason_code))) (\<lambda>d.
           dec_bind (ensure_end InvalidLength) (\<lambda>_.
           dec_return d))))
          (dec_return (disconnect_default\<lparr>di_reason_code := reason_code\<rparr>)))))
       (dec_return disconnect_default)"

definition disconnect_encoded_size :: "disconnect \<Rightarrow> u32 \<Rightarrow> nat" where
  "disconnect_encoded_size d limit =
     (let prop_len = encoded_property_size encoded_size_u32 (di_session_expiry_interval_secs d)
            + encoded_property_size encoded_size_bytes (di_server_reference d);
          diag_len = encoded_size_opt_props (di_user_properties d) (di_reason_string d)
            (reduce_limit limit (prop_len + 1 + 4));
          prop_len' = prop_len + diag_len
      in 1 + unat (var_int_len prop_len') + prop_len')"

definition disconnect_encode :: "disconnect \<Rightarrow> u32 \<Rightarrow> enc" where
  "disconnect_encode d sz =
     enc_then (enc_all
       [put [drc_to_u8 (di_reason_code d)],
        write_variable_length (var_int_len_from_size (sz - 1)),
        encode_property encode_u32 (di_session_expiry_interval_secs d) pt_SESS_EXPIRY_INT,
        encode_property encode_bytes (di_server_reference d) pt_SERVER_REF])
     (\<lambda>written. encode_opt_props (di_user_properties d) (di_reason_string d)
        (sz - word_of_nat written))"

section \<open>AUTH\<close>

datatype auth_reason_code = ARC_Success | ARC_ContinueAuth | ARC_ReAuth

fun arc_to_u8 :: "auth_reason_code \<Rightarrow> u8" where
  "arc_to_u8 ARC_Success = 0"
| "arc_to_u8 ARC_ContinueAuth = 24"
| "arc_to_u8 ARC_ReAuth = 25"

definition arc_variants :: "auth_reason_code list" where
  "arc_variants = [ARC_Success, ARC_ContinueAuth, ARC_ReAuth]"

record auth =
  au_reason_code :: auth_reason_code
  au_auth_method :: "bytes option"
  au_auth_data :: "bytes option"
  au_reason_string :: "bytes option"
  au_user_properties :: user_properties

definition auth_default :: auth where
  "auth_default =
     \<lparr>au_reason_code = ARC_Success, au_auth_method = None, au_auth_data = None,
      au_reason_string = None, au_user_properties = []\<rparr>"

definition auth_props_body :: "(bytes \<Rightarrow> bool) \<Rightarrow> auth \<Rightarrow> auth dec" where
  "auth_props_body utf8 a =
     dec_bind get_u8 (\<lambda>prop_id.
     if prop_id = pt_AUTH_METHOD then
       read_into (decode_bytestring utf8) (au_auth_method a) (\<lambda>v. a\<lparr>au_auth_method := v\<rparr>)
     else if prop_id = pt_AUTH_DATA then
       read_into decode_bytes (au_auth_data a) (\<lambda>v. a\<lparr>au_auth_data := v\<rparr>)
     else if prop_id = pt_REASON_STRING then
       read_into (decode_bytestring utf8) (au_reason_string a) (\<lambda>v. a\<lparr>au_reason_string := v\<rparr>)
     else if prop_id = pt_USER then
       push_user utf8 (\<lambda>p. a\<lparr>au_user_properties := au_user_properties a @ [p]\<rparr>)
     else dec_raise MalformedPacket)"

definition auth_decode :: "(bytes \<Rightarrow> bool) \<Rightarrow> auth dec" where
  "auth_decode utf8 =
     if_remaining
       (dec_bind get_u8 (\<lambda>b.
        dec_bind (dec_lift (prim_try_from arc_to_u8 arc_variants b)) (\<lambda>reason_code.
        if_remaining
          (dec_bind (dec_peek (\<lambda>src. reason_code \<noteq> ARC_Success \<or> src \<noteq> [])) (\<lambda>c.
           if c then
             dec_bind take_properties (\<lambda>prop_src.
             dec_bind (on_props prop_src
               (dec_while (auth_props_body utf8) (auth_default\<lparr>au_reason_code := reason_code\<rparr>))) (\<lambda>a.
             dec_bind (ensure_end InvalidLength) (\<lambda>_.
             dec_return a)))
           else dec_return (auth_default\<lparr>au_reason_code := reason_code\<rparr>)))
          (dec_return (auth_default\<lparr>au_reason_code := reason_code\<rparr>)))))
       (dec_return auth_default)"

definition auth_encoded_size :: "auth \<Rightarrow> u32 \<Rightarrow> nat" where
  "auth_encoded_size a limit =
     (let prop_len = encoded_property_size encoded_size_bytes (au_auth_method a)
            + encoded_property_size encoded_size_bytes (au_auth_data a);
          diag_len = encoded_size_opt_props (au_user_properties a) (au_reason_string a)
            (reduce_limit limit (prop_len + 1 + 4));
          prop_len' = prop_len + diag_len
      in 1 + unat (var_int_len prop_len') + prop_len')"

definition auth_encode :: "auth \<Rightarrow> u32 \<Rightarrow> enc" where
  "auth_encode a sz =
     enc_then (enc_all
       [put [arc_to_u8 (au_reason_code a)],
        write_variable_length (var_int_len_from_size (sz - 1)),
        encode_property encode_bytes (au_auth_method a) pt_AUTH_METHOD,
        encode_property encode_bytes (au_auth_data a) pt_AUTH_DATA])
     (\<lambda>written. encode_opt_props (au_user_properties a) (au_reason_string a)
        (sz - word_of_nat written))"

section \<open>Reason codes\<close>

interpretation par: prim_enum par_to_u8 par_variants
proof
  show "c \<in> set par_variants" for c by (cases c) (simp_all add: par_variants_def)
qed (simp add: par_variants_def)

interpretation pa2r: prim_enum pa2r_to_u8 pa2r_variants
proof
  show "c \<in> set pa2r_variants" for c by (cases c) (simp_all add: pa2r_variants_def)
qed (simp add: pa2r_variants_def)

interpretation drc: prim_enum drc_to_u8 drc_variants
proof
  show "c \<in> set drc_variants" for c by (cases c) (simp_all add: drc_variants_def)
qed (simp add: drc_variants_def)

interpretation arc: prim_enum arc_to_u8 arc_variants
proof
  show "c \<in> set arc_variants" for c by (cases c) (simp_all add: arc_variants_def)
qed (simp add: arc_variants_def)

section \<open>Publish acknowledgements satisfy the contract\<close>

definition pub_ack_body :: "('r \<Rightarrow> u8) \<Rightarrow> 'r pub_ack \<Rightarrow> bytes" where
  "pub_ack_body to_u8 a =
     put_u16 (pa_packet_id a) @ to_u8 (pa_reason_code a) #
       out_block (out_opt (pa_properties a, pa_reason_string a))"

definition pub_ack_trim :: "u32 \<Rightarrow> 'r pub_ack \<Rightarrow> 'r pub_ack" where
  "pub_ack_trim limit a =
     (case ack_props_fit (pa_properties a) (pa_reason_string a) (limit - 3 - 4) of
        (ups, reason) \<Rightarrow> a\<lparr>pa_properties := ups, pa_reason_string := reason\<rparr>)"

definition pub_ack_wf :: "(bytes \<Rightarrow> bool) \<Rightarrow> 'r pub_ack \<Rightarrow> bool" where
  "pub_ack_wf utf8 a \<longleftrightarrow> pa_packet_id a \<noteq> 0 \<and> ok_opt utf8 (pa_properties a, pa_reason_string a)"

lemma pub_ack_trim_simps:
  "pa_packet_id (pub_ack_trim l a) = pa_packet_id a"
  "pa_reason_code (pub_ack_trim l a) = pa_reason_code a"
  "(pa_properties (pub_ack_trim l a), pa_reason_string (pub_ack_trim l a))
     = ack_props_fit (pa_properties a) (pa_reason_string a) (l - 3 - 4)"
  by (simp_all add: pub_ack_trim_def split: prod.splits)

lemma pub_ack_trim_all:
  assumes "length (pub_ack_body to_u8 a) + 8 \<le> unat l" and "length (pub_ack_body to_u8 a) \<le> unat MAX_PACKET_SIZE"
  shows "pub_ack_trim l a = a"
proof -
  have "length (out_opt (pa_properties a, pa_reason_string a)) + 3 < length (pub_ack_body to_u8 a)"
    using assms(2) length_block_bound [of "out_opt (pa_properties a, pa_reason_string a)", OF order_refl]
    by (simp add: pub_ack_body_def)
  then have "length (out_opt (pa_properties a, pa_reason_string a)) + 11 \<le> unat l"
    using assms(1) by linarith
  then have "ack_props_fit (pa_properties a) (pa_reason_string a) (l - 3 - 4) = (pa_properties a, pa_reason_string a)"
    using unat_diff [of 7 l] by (intro ack_props_fit_all) simp
  then show ?thesis by (simp add: pub_ack_trim_def)
qed

lemma pub_ack_size_body:
  assumes "pub_ack_encoded_size a l \<le> unat MAX_PACKET_SIZE"
  shows "pub_ack_encoded_size a l = length (pub_ack_body to_u8 (pub_ack_trim l a))"
proof -
  have "ack_props_encoded_size (pa_properties a) (pa_reason_string a) (l - 3 - 4) \<le> unat MAX_PACKET_SIZE"
    using assms by (simp add: pub_ack_encoded_size_def)
  from ack_props_size_fit(1) [OF this] show ?thesis
    unfolding pub_ack_body_def pub_ack_trim_simps by (simp add: pub_ack_encoded_size_def)
qed

lemma pub_ack_encode_body:
  assumes "pub_ack_wf utf8 a" and "pub_ack_encoded_size a l \<le> unat MAX_PACKET_SIZE"
  shows "pub_ack_encode to_u8 a (word_of_nat (pub_ack_encoded_size a l))
    = Inr (pub_ack_body to_u8 (pub_ack_trim l a))"
proof -
  let ?n = "ack_props_encoded_size (pa_properties a) (pa_reason_string a) (l - 3 - 4)"
  have "?n \<le> unat MAX_PACKET_SIZE" using assms by (simp add: pub_ack_encoded_size_def)
  then have "ack_props_encode (pa_properties a) (pa_reason_string a) (word_of_nat ?n) = Inr (out_block
      (out_opt (ack_props_fit (pa_properties a) (pa_reason_string a) (l - 3 - 4))))"
    using assms by (intro ack_props_encode_fit) (auto simp: pub_ack_wf_def)
  then show ?thesis
    unfolding pub_ack_body_def pub_ack_trim_simps
    by (simp add: pub_ack_encode_def pub_ack_encoded_size_def u16.encode_out)
qed

lemma pub_ack_trim_wf: "pub_ack_wf utf8 a \<Longrightarrow> pub_ack_wf utf8 (pub_ack_trim l a)"
  unfolding pub_ack_wf_def pub_ack_trim_simps by (simp add: ok_ack_props_fit)

lemma pub_ack_decode_safe: "safe_from 0 (pub_ack_decode utf8 try_into dflt)"
  unfolding pub_ack_decode_def case_prod_beta
  by (rule safe_bind_known safe_intros safe_bind | simp)+

context prim_enum
begin

lemma pub_ack_decode_body:
  assumes "pub_ack_wf utf8 a" and "length (pub_ack_body code a) \<le> unat MAX_PACKET_SIZE"
  shows "pub_ack_decode utf8 (prim_try_from code variants) dflt (pub_ack_body code a) = Inr (a, [])"
proof -
  have "length (out_opt (pa_properties a, pa_reason_string a)) \<le> unat MAX_PACKET_SIZE"
    using assms(2) by (simp add: pub_ack_body_def out_block_def)
  with assms(1) show ?thesis
    by (simp add: pub_ack_decode_def pub_ack_body_def pub_ack_wf_def wire_simps try_from_code)
qed

lemma pub_ack_contract:
  "limited_packet (\<lambda>_. pub_ack_decode utf8 (prim_try_from code variants) dflt) pub_ack_encoded_size
     (pub_ack_encode code) (\<lambda>_. t) (pub_ack_body code) pub_ack_trim (pub_ack_wf utf8)"
  by unfold_locales
    (auto simp: pub_ack_decode_safe pub_ack_trim_wf pub_ack_size_body pub_ack_encode_body
       pub_ack_decode_body intro: pub_ack_trim_all)

end

interpretation publish_ack: limited_packet "\<lambda>_. publish_ack_decode utf8" publish_ack_encoded_size
  publish_ack_encode "\<lambda>_. t" "pub_ack_body par_to_u8" pub_ack_trim "pub_ack_wf utf8" for utf8 t
  unfolding publish_ack_decode_def publish_ack_encoded_size_def publish_ack_encode_def
  by (rule par.pub_ack_contract)

interpretation publish_ack2: limited_packet "\<lambda>_. publish_ack2_decode utf8" publish_ack2_encoded_size
  publish_ack2_encode "\<lambda>_. t" "pub_ack_body pa2r_to_u8" pub_ack_trim "pub_ack_wf utf8" for utf8 t
  unfolding publish_ack2_decode_def publish_ack2_encoded_size_def publish_ack2_encode_def
  by (rule pa2r.pub_ack_contract)

section \<open>DISCONNECT satisfies the contract\<close>

definition disconnect_props :: "disconnect \<Rightarrow> bytes" where
  "disconnect_props d =
     out_prop pt_SESS_EXPIRY_INT put_u32 (di_session_expiry_interval_secs d)
     @ out_prop pt_SERVER_REF out_bytes (di_server_reference d)"

definition disconnect_body :: "disconnect \<Rightarrow> bytes" where
  "disconnect_body d =
     drc_to_u8 (di_reason_code d) #
       out_block (disconnect_props d @ out_opt (di_user_properties d, di_reason_string d))"

definition disconnect_fit :: "u32 \<Rightarrow> disconnect \<Rightarrow> user_properties \<times> bytes option" where
  "disconnect_fit limit d = fit_opt_props (di_user_properties d) (di_reason_string d)
     (unat (reduce_limit limit (length (disconnect_props d) + 1 + 4)))"

definition disconnect_trim :: "u32 \<Rightarrow> disconnect \<Rightarrow> disconnect" where
  "disconnect_trim limit d =
     d\<lparr>di_user_properties := fst (disconnect_fit limit d), di_reason_string := snd (disconnect_fit limit d)\<rparr>"

definition disconnect_wf :: "(bytes \<Rightarrow> bool) \<Rightarrow> disconnect \<Rightarrow> bool" where
  "disconnect_wf utf8 d \<longleftrightarrow>
     pred_option (ok_string utf8) (di_server_reference d) \<and>
     ok_opt utf8 (di_user_properties d, di_reason_string d)"

lemma disconnect_loop_steps:
  "di_session_expiry_interval_secs d = None \<Longrightarrow>
     dec_while (disconnect_props_body utf8) d (out_prop pt_SESS_EXPIRY_INT put_u32 e @ r)
       = dec_while (disconnect_props_body utf8) (d\<lparr>di_session_expiry_interval_secs := e\<rparr>) r"
  "di_server_reference d = None \<Longrightarrow> pred_option (ok_string utf8) v \<Longrightarrow>
     dec_while (disconnect_props_body utf8) d (out_prop pt_SERVER_REF out_bytes v @ r)
       = dec_while (disconnect_props_body utf8) (d\<lparr>di_server_reference := v\<rparr>) r"
  "di_reason_string d = None \<Longrightarrow> pred_option (ok_string utf8) v \<Longrightarrow>
     dec_while (disconnect_props_body utf8) d (out_prop pt_REASON_STRING out_bytes v @ r)
       = dec_while (disconnect_props_body utf8) (d\<lparr>di_reason_string := v\<rparr>) r"
  by (rule dec_while_prop; auto simp: disconnect_props_body_def wire_simps intro: disconnect.equality)+

lemma disconnect_loop_users:
  assumes "list_all (ok_pair utf8) ps"
  shows "dec_while (disconnect_props_body utf8) d (out_users ps @ r)
    = dec_while (disconnect_props_body utf8) (d\<lparr>di_user_properties := di_user_properties d @ ps\<rparr>) r"
proof -
  let ?upd = "\<lambda>d p. d\<lparr>di_user_properties := di_user_properties d @ [p]\<rparr>"
  have "foldl ?upd d ps = d\<lparr>di_user_properties := di_user_properties d @ ps\<rparr>"
    by (induction ps arbitrary: d) simp_all
  moreover have "dec_while (disconnect_props_body utf8) d (out_users ps @ r)
      = dec_while (disconnect_props_body utf8) (foldl ?upd d ps) r"
    using assms by (intro dec_while_users) (auto simp: disconnect_props_body_def out_user_def wire_simps)
  ultimately show ?thesis by simp
qed

lemma disconnect_loop:
  assumes "disconnect_wf utf8 d"
  shows "dec_while (disconnect_props_body utf8) (disconnect_new (di_reason_code d))
      (disconnect_props d @ out_opt (di_user_properties d, di_reason_string d) @ r)
    = dec_while (disconnect_props_body utf8) d r"
  using assms
  by (cases d) (simp add: disconnect_props_def out_opt_def disconnect_wf_def ok_opt_def disconnect_new_def
      disconnect_loop_steps disconnect_loop_users)

lemma disconnect_decode_body:
  assumes "disconnect_wf utf8 d" and "length (disconnect_body d) \<le> unat MAX_PACKET_SIZE"
  shows "disconnect_decode utf8 (disconnect_body d) = Inr (d, [])"
proof -
  let ?ps = "disconnect_props d @ out_opt (di_user_properties d, di_reason_string d)"
  have "length ?ps \<le> unat MAX_PACKET_SIZE"
    using assms(2) by (simp add: disconnect_body_def out_block_def)
  with disconnect_loop [OF assms(1), of "[]"] show ?thesis
    by (simp add: disconnect_decode_def disconnect_body_def drc.try_from_code
        take_properties_block_Nil)
qed

lemma disconnect_props_safe [safe_intros]: "safe_from n (dec_while (disconnect_props_body utf8) d)"
  unfolding disconnect_props_body_def by (intro safe_intros)

lemma disconnect_decode_safe: "safe_from 0 (disconnect_decode utf8)"
  unfolding disconnect_decode_def
  by (rule safe_bind_known safe_intros safe_bind | simp)+

lemma disconnect_size:
  assumes "disconnect_wf utf8 d" and "disconnect_encoded_size d l \<le> unat MAX_PACKET_SIZE"
  shows "disconnect_encoded_size d l = 1 + length (out_block (disconnect_props d @ out_opt (disconnect_fit l d)))"
    and "length (disconnect_props d @ out_opt (disconnect_fit l d)) \<le> unat MAX_PACKET_SIZE"
proof -
  have pl: "encoded_property_size encoded_size_u32 (di_session_expiry_interval_secs d)
      + encoded_property_size encoded_size_bytes (di_server_reference d) = length (disconnect_props d)"
    using assms(1)
    by (simp add: disconnect_props_def disconnect_wf_def option.pred_True
        string.property_size_out [of utf8] u32.property_size_out)
  show le: "length (disconnect_props d @ out_opt (disconnect_fit l d)) \<le> unat MAX_PACKET_SIZE"
    using assms(2) unfolding disconnect_encoded_size_def pl Let_def encoded_size_opt_props_fit
    by (simp add: disconnect_fit_def)
  show "disconnect_encoded_size d l = 1 + length (out_block (disconnect_props d @ out_opt (disconnect_fit l d)))"
    unfolding disconnect_encoded_size_def pl Let_def encoded_size_opt_props_fit length_out_block [OF le]
    by (simp add: disconnect_fit_def)
qed

lemma disconnect_encode_body:
  assumes "disconnect_wf utf8 d" and "disconnect_encoded_size d l \<le> unat MAX_PACKET_SIZE"
  shows "disconnect_encode d (word_of_nat (disconnect_encoded_size d l))
    = Inr (disconnect_body (disconnect_trim l d))"
proof -
  have ok: "ok_opt utf8 (di_user_properties d, di_reason_string d)"
    using assms(1) by (simp add: disconnect_wf_def)
  note size = disconnect_size [OF assms]
  note block = limited_block [OF ok disconnect_fit_def [of l d, THEN arg_cong, of out_opt] size(2)
      arg_cong [OF size(1), of word_of_nat]]
  show ?thesis
    using assms(1) block
    by (simp add: disconnect_encode_def disconnect_body_def disconnect_trim_def disconnect_wf_def
       disconnect_props_def u32.encode_property_out string.encode_property_out [of utf8] option.pred_True
       out_block_def add.assoc)
qed

lemma disconnect_trim_props [simp]: "disconnect_props (disconnect_trim l d) = disconnect_props d"
  by (simp add: disconnect_props_def disconnect_trim_def)

interpretation disconnect: limited_packet "\<lambda>_. disconnect_decode utf8" disconnect_encoded_size
  disconnect_encode "\<lambda>_. t" disconnect_body disconnect_trim "disconnect_wf utf8" for utf8 t
proof
  fix d l
  show "safe_from 0 (disconnect_decode utf8)" by (rule disconnect_decode_safe)
  show "disconnect_wf utf8 d \<Longrightarrow> disconnect_wf utf8 (disconnect_trim l d)"
    using ok_fit_opt_props [of utf8 "di_user_properties d" "di_reason_string d"]
    by (simp add: disconnect_wf_def disconnect_trim_def disconnect_fit_def)
  show "disconnect_wf utf8 d \<Longrightarrow> disconnect_encoded_size d l \<le> unat MAX_PACKET_SIZE \<Longrightarrow>
      disconnect_encoded_size d l = length (disconnect_body (disconnect_trim l d))"
    using disconnect_size [of utf8 d l] by (simp add: disconnect_body_def) (simp add: disconnect_trim_def)
  show "length (disconnect_body d) + 8 \<le> unat l \<Longrightarrow>
      length (disconnect_body d) \<le> unat MAX_PACKET_SIZE \<Longrightarrow> disconnect_trim l d = d"
    using length_block_bound [of "disconnect_props d @ out_opt (di_user_properties d, di_reason_string d)", OF order_refl]
    by (simp add: disconnect_body_def disconnect_trim_def disconnect_fit_def reduce_limit_enough)
qed (simp_all add: disconnect_encode_body disconnect_decode_body)

section \<open>AUTH satisfies the contract\<close>

definition auth_props :: "auth \<Rightarrow> bytes" where
  "auth_props a =
     out_prop pt_AUTH_METHOD out_bytes (au_auth_method a)
     @ out_prop pt_AUTH_DATA out_bytes (au_auth_data a)"

definition auth_body :: "auth \<Rightarrow> bytes" where
  "auth_body a =
     arc_to_u8 (au_reason_code a) #
       out_block (auth_props a @ out_opt (au_user_properties a, au_reason_string a))"

definition auth_fit :: "u32 \<Rightarrow> auth \<Rightarrow> user_properties \<times> bytes option" where
  "auth_fit limit a = fit_opt_props (au_user_properties a) (au_reason_string a)
     (unat (reduce_limit limit (length (auth_props a) + 1 + 4)))"

definition auth_trim :: "u32 \<Rightarrow> auth \<Rightarrow> auth" where
  "auth_trim limit a =
     a\<lparr>au_user_properties := fst (auth_fit limit a), au_reason_string := snd (auth_fit limit a)\<rparr>"

definition auth_wf :: "(bytes \<Rightarrow> bool) \<Rightarrow> auth \<Rightarrow> bool" where
  "auth_wf utf8 a \<longleftrightarrow>
     pred_option (ok_string utf8) (au_auth_method a) \<and> pred_option short (au_auth_data a) \<and>
     ok_opt utf8 (au_user_properties a, au_reason_string a)"

lemma auth_loop_steps:
  "au_auth_method a = None \<Longrightarrow> pred_option (ok_string utf8) v \<Longrightarrow>
     dec_while (auth_props_body utf8) a (out_prop pt_AUTH_METHOD out_bytes v @ r)
       = dec_while (auth_props_body utf8) (a\<lparr>au_auth_method := v\<rparr>) r"
  "au_auth_data a = None \<Longrightarrow> pred_option short v \<Longrightarrow>
     dec_while (auth_props_body utf8) a (out_prop pt_AUTH_DATA out_bytes v @ r)
       = dec_while (auth_props_body utf8) (a\<lparr>au_auth_data := v\<rparr>) r"
  "au_reason_string a = None \<Longrightarrow> pred_option (ok_string utf8) v \<Longrightarrow>
     dec_while (auth_props_body utf8) a (out_prop pt_REASON_STRING out_bytes v @ r)
       = dec_while (auth_props_body utf8) (a\<lparr>au_reason_string := v\<rparr>) r"
  by (rule dec_while_prop; auto simp: auth_props_body_def wire_simps intro: auth.equality)+

lemma auth_loop_users:
  assumes "list_all (ok_pair utf8) ps"
  shows "dec_while (auth_props_body utf8) a (out_users ps @ r)
    = dec_while (auth_props_body utf8) (a\<lparr>au_user_properties := au_user_properties a @ ps\<rparr>) r"
proof -
  let ?upd = "\<lambda>a p. a\<lparr>au_user_properties := au_user_properties a @ [p]\<rparr>"
  have "foldl ?upd a ps = a\<lparr>au_user_properties := au_user_properties a @ ps\<rparr>"
    by (induction ps arbitrary: a) simp_all
  moreover have "dec_while (auth_props_body utf8) a (out_users ps @ r)
      = dec_while (auth_props_body utf8) (foldl ?upd a ps) r"
    using assms by (intro dec_while_users) (auto simp: auth_props_body_def out_user_def wire_simps)
  ultimately show ?thesis by simp
qed

lemma auth_loop:
  assumes "auth_wf utf8 a"
  shows "dec_while (auth_props_body utf8) (auth_default\<lparr>au_reason_code := au_reason_code a\<rparr>)
      (auth_props a @ out_opt (au_user_properties a, au_reason_string a) @ r)
    = dec_while (auth_props_body utf8) a r"
  using assms
  by (cases a) (simp add: auth_props_def out_opt_def auth_wf_def ok_opt_def auth_default_def
      auth_loop_steps auth_loop_users)

lemma auth_decode_body:
  assumes "auth_wf utf8 a" and "length (auth_body a) \<le> unat MAX_PACKET_SIZE"
  shows "auth_decode utf8 (auth_body a) = Inr (a, [])"
proof -
  let ?ps = "auth_props a @ out_opt (au_user_properties a, au_reason_string a)"
  have "length ?ps \<le> unat MAX_PACKET_SIZE"
    using assms(2) by (simp add: auth_body_def out_block_def)
  with auth_loop [OF assms(1), of "[]"] show ?thesis
    by (simp add: auth_decode_def auth_body_def arc.try_from_code take_properties_block_Nil)
qed

lemma auth_props_safe [safe_intros]: "safe_from n (dec_while (auth_props_body utf8) a)"
  unfolding auth_props_body_def by (intro safe_intros)

lemma auth_decode_safe: "safe_from 0 (auth_decode utf8)"
  unfolding auth_decode_def
  by (rule safe_bind_known safe_intros safe_bind | simp)+

lemma auth_size:
  assumes "auth_wf utf8 a" and "auth_encoded_size a l \<le> unat MAX_PACKET_SIZE"
  shows "auth_encoded_size a l = 1 + length (out_block (auth_props a @ out_opt (auth_fit l a)))"
    and "length (auth_props a @ out_opt (auth_fit l a)) \<le> unat MAX_PACKET_SIZE"
proof -
  have pl: "encoded_property_size encoded_size_bytes (au_auth_method a)
      + encoded_property_size encoded_size_bytes (au_auth_data a) = length (auth_props a)"
    using assms(1)
    by (simp add: auth_props_def auth_wf_def string.property_size_out [of utf8]
        bytes.property_size_out)
  show le: "length (auth_props a @ out_opt (auth_fit l a)) \<le> unat MAX_PACKET_SIZE"
    using assms(2) unfolding auth_encoded_size_def pl Let_def encoded_size_opt_props_fit
    by (simp add: auth_fit_def)
  show "auth_encoded_size a l = 1 + length (out_block (auth_props a @ out_opt (auth_fit l a)))"
    unfolding auth_encoded_size_def pl Let_def encoded_size_opt_props_fit length_out_block [OF le]
    by (simp add: auth_fit_def)
qed

lemma auth_encode_body:
  assumes "auth_wf utf8 a" and "auth_encoded_size a l \<le> unat MAX_PACKET_SIZE"
  shows "auth_encode a (word_of_nat (auth_encoded_size a l)) = Inr (auth_body (auth_trim l a))"
proof -
  have ok: "ok_opt utf8 (au_user_properties a, au_reason_string a)"
    using assms(1) by (simp add: auth_wf_def)
  note size = auth_size [OF assms]
  note block = limited_block [OF ok auth_fit_def [of l a, THEN arg_cong, of out_opt] size(2)
      arg_cong [OF size(1), of word_of_nat]]
  show ?thesis
    using assms(1) block
    by (simp add: auth_encode_def auth_body_def auth_trim_def auth_wf_def auth_props_def
       bytes.encode_property_out string.encode_property_out [of utf8] out_block_def add.assoc)
qed

lemma auth_trim_props [simp]: "auth_props (auth_trim l a) = auth_props a"
  by (simp add: auth_props_def auth_trim_def)

interpretation auth: limited_packet "\<lambda>_. auth_decode utf8" auth_encoded_size
  auth_encode "\<lambda>_. t" auth_body auth_trim "auth_wf utf8" for utf8 t
proof
  fix a l
  show "safe_from 0 (auth_decode utf8)" by (rule auth_decode_safe)
  show "auth_wf utf8 a \<Longrightarrow> auth_wf utf8 (auth_trim l a)"
    using ok_fit_opt_props [of utf8 "au_user_properties a" "au_reason_string a"]
    by (simp add: auth_wf_def auth_trim_def auth_fit_def)
  show "auth_wf utf8 a \<Longrightarrow> auth_encoded_size a l \<le> unat MAX_PACKET_SIZE \<Longrightarrow>
      auth_encoded_size a l = length (auth_body (auth_trim l a))"
    using auth_size [of utf8 a l] by (simp add: auth_body_def) (simp add: auth_trim_def)
  show "length (auth_body a) + 8 \<le> unat l \<Longrightarrow>
      length (auth_body a) \<le> unat MAX_PACKET_SIZE \<Longrightarrow> auth_trim l a = a"
    using length_block_bound [of "auth_props a @ out_opt (au_user_properties a, au_reason_string a)", OF order_refl]
    by (simp add: auth_body_def auth_trim_def auth_fit_def reduce_limit_enough)
qed (simp_all add: auth_encode_body auth_decode_body)

section \<open>Properties\<close>

text \<open>A byte is a DISCONNECT reason code exactly when it is the code of one of the thirty reasons of
  the protocol, and it is decoded to that reason; every other byte is a malformed packet.\<close>

theorem disconnect_reason_code_exact:
  "prim_try_from drc_to_u8 drc_variants b = Inr c \<longleftrightarrow> b = drc_to_u8 c"
  by (rule drc.try_from_Inr)

end
