(* ===== verification/V5_Subscribe.thy ===== *)
theory V5_Subscribe
  imports V5_Common
begin

text \<open>
  \<open>v5/packet/subscribe.rs\<close>: SUBSCRIBE, SUBACK, UNSUBSCRIBE and UNSUBACK. Each satisfies the contract
  \<open>limited_packet\<close>.
\<close>

section \<open>Data\<close>

datatype retain_handling = RH_AtSubscribe | RH_AtSubscribeNew | RH_NoAtSubscribe

fun rh_to_u8 :: "retain_handling \<Rightarrow> u8" where
  "rh_to_u8 RH_AtSubscribe = 0"
| "rh_to_u8 RH_AtSubscribeNew = 1"
| "rh_to_u8 RH_NoAtSubscribe = 2"

definition rh_variants :: "retain_handling list" where
  "rh_variants = [RH_AtSubscribe, RH_AtSubscribeNew, RH_NoAtSubscribe]"

record subscription_options =
  so_qos :: qos
  so_no_local :: bool
  so_retain_as_published :: bool
  so_retain_handling :: retain_handling

definition subscription_options_default :: subscription_options where
  "subscription_options_default =
     \<lparr>so_qos = AtMostOnce, so_no_local = False, so_retain_as_published = False,
      so_retain_handling = RH_AtSubscribe\<rparr>"

record subscribe =
  sub_packet_id :: u16
  sub_id :: "u32 option"
  sub_user_properties :: user_properties
  sub_topic_filters :: "(bytes \<times> subscription_options) list"

record unsubscribe =
  uns_packet_id :: u16
  uns_user_properties :: user_properties
  uns_topic_filters :: "bytes list"

text \<open>\<open>SubscribeAck\<close> and \<open>UnsubscribeAck\<close> differ in the type of the status codes.\<close>

record 's status_ack =
  sa_packet_id :: u16
  sa_properties :: user_properties
  sa_reason_string :: "bytes option"
  sa_status :: "'s list"

datatype subscribe_ack_reason =
    SAR_GrantedQos0 | SAR_GrantedQos1 | SAR_GrantedQos2 | SAR_UnspecifiedError
  | SAR_ImplementationSpecificError | SAR_NotAuthorized | SAR_TopicFilterInvalid
  | SAR_PacketIdentifierInUse | SAR_QuotaExceeded | SAR_SharedSubscriptionNotSupported
  | SAR_SubscriptionIdentifiersNotSupported | SAR_WildcardSubscriptionsNotSupported

fun sar_to_u8 :: "subscribe_ack_reason \<Rightarrow> u8" where
  "sar_to_u8 SAR_GrantedQos0 = 0"
| "sar_to_u8 SAR_GrantedQos1 = 1"
| "sar_to_u8 SAR_GrantedQos2 = 2"
| "sar_to_u8 SAR_UnspecifiedError = 128"
| "sar_to_u8 SAR_ImplementationSpecificError = 131"
| "sar_to_u8 SAR_NotAuthorized = 135"
| "sar_to_u8 SAR_TopicFilterInvalid = 143"
| "sar_to_u8 SAR_PacketIdentifierInUse = 145"
| "sar_to_u8 SAR_QuotaExceeded = 151"
| "sar_to_u8 SAR_SharedSubscriptionNotSupported = 158"
| "sar_to_u8 SAR_SubscriptionIdentifiersNotSupported = 161"
| "sar_to_u8 SAR_WildcardSubscriptionsNotSupported = 162"

definition sar_variants :: "subscribe_ack_reason list" where
  "sar_variants =
     [SAR_GrantedQos0, SAR_GrantedQos1, SAR_GrantedQos2, SAR_UnspecifiedError,
      SAR_ImplementationSpecificError, SAR_NotAuthorized, SAR_TopicFilterInvalid,
      SAR_PacketIdentifierInUse, SAR_QuotaExceeded, SAR_SharedSubscriptionNotSupported,
      SAR_SubscriptionIdentifiersNotSupported, SAR_WildcardSubscriptionsNotSupported]"

datatype unsubscribe_ack_reason =
    UAR_Success | UAR_NoSubscriptionExisted | UAR_UnspecifiedError
  | UAR_ImplementationSpecificError | UAR_NotAuthorized | UAR_TopicFilterInvalid
  | UAR_PacketIdentifierInUse

fun uar_to_u8 :: "unsubscribe_ack_reason \<Rightarrow> u8" where
  "uar_to_u8 UAR_Success = 0"
| "uar_to_u8 UAR_NoSubscriptionExisted = 17"
| "uar_to_u8 UAR_UnspecifiedError = 128"
| "uar_to_u8 UAR_ImplementationSpecificError = 131"
| "uar_to_u8 UAR_NotAuthorized = 135"
| "uar_to_u8 UAR_TopicFilterInvalid = 143"
| "uar_to_u8 UAR_PacketIdentifierInUse = 145"

definition uar_variants :: "unsubscribe_ack_reason list" where
  "uar_variants =
     [UAR_Success, UAR_NoSubscriptionExisted, UAR_UnspecifiedError, UAR_ImplementationSpecificError,
      UAR_NotAuthorized, UAR_TopicFilterInvalid, UAR_PacketIdentifierInUse]"

type_synonym subscribe_ack = "subscribe_ack_reason status_ack"
type_synonym unsubscribe_ack = "unsubscribe_ack_reason status_ack"

section \<open>Decoding\<close>

definition subscription_options_decode :: "subscription_options dec" where
  "subscription_options_decode =
     dec_bind (ensure_remaining 1 InvalidLength) (\<lambda>_.
     dec_bind get_u8 (\<lambda>val.
     dec_bind (dec_lift (qos_try_from (val AND 0x03))) (\<lambda>q.
     dec_bind (dec_lift (prim_try_from rh_to_u8 rh_variants (drop_bit 4 (val AND 0x30)))) (\<lambda>rh.
     dec_return \<lparr>so_qos = q, so_no_local = (val AND 0x04 \<noteq> 0),
                 so_retain_as_published = (val AND 0x08 \<noteq> 0), so_retain_handling = rh\<rparr>))))"

definition subscribe_props_body ::
  "(bytes \<Rightarrow> bool) \<Rightarrow> u32 option \<times> user_properties \<Rightarrow> (u32 option \<times> user_properties) dec" where
  "subscribe_props_body utf8 = (\<lambda>(sub_id, user_properties).
     dec_bind get_u8 (\<lambda>prop_id.
     if prop_id = pt_SUB_ID then read_into decode_sub_id sub_id (\<lambda>v. (v, user_properties))
     else if prop_id = pt_USER then push_user utf8 (\<lambda>p. (sub_id, user_properties @ [p]))
     else dec_raise MalformedPacket))"

definition subscribe_filters_body ::
  "(bytes \<Rightarrow> bool) \<Rightarrow> (bytes \<times> subscription_options) list \<Rightarrow> (bytes \<times> subscription_options) list dec" where
  "subscribe_filters_body utf8 topic_filters =
     dec_bind (decode_bytestring utf8) (\<lambda>topic.
     dec_bind subscription_options_decode (\<lambda>opts.
     dec_return (topic_filters @ [(topic, opts)])))"

definition subscribe_decode :: "(bytes \<Rightarrow> bool) \<Rightarrow> subscribe dec" where
  "subscribe_decode utf8 =
     dec_bind decode_nonzero_u16 (\<lambda>packet_id.
     dec_bind take_properties (\<lambda>prop_src.
     dec_bind (on_props prop_src (dec_while (subscribe_props_body utf8) (None, []))) (\<lambda>(sub_id, user_properties).
     dec_bind (dec_while (subscribe_filters_body utf8) []) (\<lambda>topic_filters.
     dec_bind (ensure (topic_filters \<noteq> []) InvalidTopicFilter) (\<lambda>_.
     dec_return \<lparr>sub_packet_id = packet_id, sub_id = sub_id, sub_user_properties = user_properties,
                 sub_topic_filters = topic_filters\<rparr>)))))"

definition status_ack_decode ::
  "(bytes \<Rightarrow> bool) \<Rightarrow> (u8 \<Rightarrow> decode_error + 's) \<Rightarrow> 's status_ack dec" where
  "status_ack_decode utf8 try_into =
     dec_bind decode_nonzero_u16 (\<lambda>packet_id.
     dec_bind (ack_props_decode utf8) (\<lambda>(properties, reason_string).
     dec_bind (dec_peek (\<lambda>src. src)) (\<lambda>codes.
     dec_bind (dec_lift (try_map try_into codes)) (\<lambda>status.
     dec_return \<lparr>sa_packet_id = packet_id, sa_properties = properties,
                 sa_reason_string = reason_string, sa_status = status\<rparr>))))"

definition subscribe_ack_decode :: "(bytes \<Rightarrow> bool) \<Rightarrow> subscribe_ack dec" where
  "subscribe_ack_decode utf8 = status_ack_decode utf8 (prim_try_from sar_to_u8 sar_variants)"

definition unsubscribe_ack_decode :: "(bytes \<Rightarrow> bool) \<Rightarrow> unsubscribe_ack dec" where
  "unsubscribe_ack_decode utf8 = status_ack_decode utf8 (prim_try_from uar_to_u8 uar_variants)"

definition unsubscribe_props_body :: "(bytes \<Rightarrow> bool) \<Rightarrow> user_properties \<Rightarrow> user_properties dec" where
  "unsubscribe_props_body utf8 user_properties =
     dec_bind get_u8 (\<lambda>prop_id.
     if prop_id = pt_USER then push_user utf8 (\<lambda>p. user_properties @ [p])
     else dec_raise MalformedPacket)"

definition unsubscribe_filters_body :: "(bytes \<Rightarrow> bool) \<Rightarrow> bytes list \<Rightarrow> bytes list dec" where
  "unsubscribe_filters_body utf8 topic_filters =
     dec_bind (decode_bytestring utf8) (\<lambda>topic. dec_return (topic_filters @ [topic]))"

definition unsubscribe_decode :: "(bytes \<Rightarrow> bool) \<Rightarrow> unsubscribe dec" where
  "unsubscribe_decode utf8 =
     dec_bind decode_nonzero_u16 (\<lambda>packet_id.
     dec_bind take_properties (\<lambda>prop_src.
     dec_bind (on_props prop_src (dec_while (unsubscribe_props_body utf8) [])) (\<lambda>user_properties.
     dec_bind (dec_while (unsubscribe_filters_body utf8) []) (\<lambda>topic_filters.
     dec_bind (ensure (topic_filters \<noteq> []) InvalidTopicFilter) (\<lambda>_.
     dec_return \<lparr>uns_packet_id = packet_id, uns_user_properties = user_properties,
                 uns_topic_filters = topic_filters\<rparr>)))))"

section \<open>Encoding\<close>

definition subscription_options_byte :: "subscription_options \<Rightarrow> u8" where
  "subscription_options_byte o' =
     qos_value (so_qos o') OR push_bit 2 (if so_no_local o' then 1 else 0)
       OR push_bit 3 (if so_retain_as_published o' then 1 else 0)
       OR push_bit 4 (rh_to_u8 (so_retain_handling o'))"

definition subscribe_encoded_size :: "subscribe \<Rightarrow> u32 \<Rightarrow> nat" where
  "subscribe_encoded_size s limit =
     (let prop_len = (case sub_id s of None \<Rightarrow> 0 | Some v \<Rightarrow> 1 + unat (var_int_len (unat v)))
            + encoded_size_user_properties (sub_user_properties s);
          payload_len = foldl (\<lambda>acc (filter, _). acc + encoded_size_bytes filter + 1) 0 (sub_topic_filters s)
      in encoded_size_u16 (sub_packet_id s) + unat (var_int_len prop_len) + prop_len + payload_len)"

definition subscribe_encode :: "subscribe \<Rightarrow> u32 \<Rightarrow> enc" where
  "subscribe_encode s sz =
     (let prop_len = (case sub_id s of None \<Rightarrow> 0 | Some v \<Rightarrow> 1 + var_int_len (unat v))
            + word_of_nat (encoded_size_user_properties (sub_user_properties s))
      in enc_all
        [encode_u16 (sub_packet_id s),
         write_variable_length prop_len,
         (case sub_id s of None \<Rightarrow> put []
          | Some v \<Rightarrow> enc_seq (put [pt_SUB_ID]) (write_variable_length v)),
         encode_user_properties (sub_user_properties s),
         enc_all (map (\<lambda>(filter, opts).
           enc_seq (encode_bytes filter) (put [subscription_options_byte opts])) (sub_topic_filters s))])"

text \<open>\<open>limit - 2 - len as u32\<close> on \<open>u32\<close>; the early return keeps \<open>usize::MAX\<close> (64 bits).\<close>

definition subscribe_ack_encoded_size :: "subscribe_ack \<Rightarrow> u32 \<Rightarrow> nat" where
  "subscribe_ack_encoded_size a limit =
     (let len = length (sa_status a)
      in if len > unat (- 1 - 2 :: u32) then 2 ^ 64 - 1
         else 2 + ack_props_encoded_size (sa_properties a) (sa_reason_string a)
                    (limit - 2 - word_of_nat len) + len)"

definition unsubscribe_ack_encoded_size :: "unsubscribe_ack \<Rightarrow> u32 \<Rightarrow> nat" where
  "unsubscribe_ack_encoded_size a limit =
     (let len = length (sa_status a)
      in 2 + len + ack_props_encoded_size (sa_properties a) (sa_reason_string a)
                     (reduce_limit limit (2 + len)))"

definition status_ack_encode :: "('s \<Rightarrow> u8) \<Rightarrow> 's status_ack \<Rightarrow> u32 \<Rightarrow> enc" where
  "status_ack_encode to_u8 a sz =
     enc_all
       [encode_u16 (sa_packet_id a),
        ack_props_encode (sa_properties a) (sa_reason_string a)
          (sz - 2 - word_of_nat (length (sa_status a))),
        put (map to_u8 (sa_status a))]"

definition subscribe_ack_encode :: "subscribe_ack \<Rightarrow> u32 \<Rightarrow> enc" where
  "subscribe_ack_encode = status_ack_encode sar_to_u8"

definition unsubscribe_ack_encode :: "unsubscribe_ack \<Rightarrow> u32 \<Rightarrow> enc" where
  "unsubscribe_ack_encode = status_ack_encode uar_to_u8"

definition unsubscribe_encoded_size :: "unsubscribe \<Rightarrow> u32 \<Rightarrow> nat" where
  "unsubscribe_encoded_size u limit =
     (let prop_len = encoded_size_user_properties (uns_user_properties u)
      in 2 + unat (var_int_len prop_len) + prop_len
         + foldl (\<lambda>acc filter. acc + 2 + length filter) 0 (uns_topic_filters u))"

definition unsubscribe_encode :: "unsubscribe \<Rightarrow> u32 \<Rightarrow> enc" where
  "unsubscribe_encode u sz =
     enc_all
       [encode_u16 (uns_packet_id u),
        write_variable_length (word_of_nat (encoded_size_user_properties (uns_user_properties u))),
        encode_user_properties (uns_user_properties u),
        enc_all (map encode_bytes (uns_topic_filters u))]"

section \<open>Enumerations\<close>

interpretation rh: prim_enum rh_to_u8 rh_variants
proof
  show "c \<in> set rh_variants" for c by (cases c) (simp_all add: rh_variants_def)
qed (simp add: rh_variants_def)

interpretation sar: prim_enum sar_to_u8 sar_variants
proof
  show "c \<in> set sar_variants" for c by (cases c) (simp_all add: sar_variants_def)
qed (simp add: sar_variants_def)

interpretation uar: prim_enum uar_to_u8 uar_variants
proof
  show "c \<in> set uar_variants" for c by (cases c) (simp_all add: uar_variants_def)
qed (simp add: uar_variants_def)

section \<open>SUBACK and UNSUBACK satisfy the contract\<close>

definition status_ack_body :: "('s \<Rightarrow> u8) \<Rightarrow> 's status_ack \<Rightarrow> bytes" where
  "status_ack_body to_u8 a =
     put_u16 (sa_packet_id a) @ out_block (out_opt (sa_properties a, sa_reason_string a))
       @ map to_u8 (sa_status a)"

definition status_ack_trim :: "u32 \<Rightarrow> 's status_ack \<Rightarrow> 's status_ack" where
  "status_ack_trim limit a =
     (case ack_props_fit (sa_properties a) (sa_reason_string a) limit of
        (ups, reason) \<Rightarrow> a\<lparr>sa_properties := ups, sa_reason_string := reason\<rparr>)"

definition subscribe_ack_trim :: "u32 \<Rightarrow> subscribe_ack \<Rightarrow> subscribe_ack" where
  "subscribe_ack_trim limit a = status_ack_trim (limit - 2 - word_of_nat (length (sa_status a))) a"

definition unsubscribe_ack_trim :: "u32 \<Rightarrow> unsubscribe_ack \<Rightarrow> unsubscribe_ack" where
  "unsubscribe_ack_trim limit a = status_ack_trim (reduce_limit limit (2 + length (sa_status a))) a"

definition status_ack_wf :: "(bytes \<Rightarrow> bool) \<Rightarrow> 's status_ack \<Rightarrow> bool" where
  "status_ack_wf utf8 a \<longleftrightarrow> sa_packet_id a \<noteq> 0 \<and> ok_opt utf8 (sa_properties a, sa_reason_string a)"

lemma status_ack_trim_simps:
  "sa_packet_id (status_ack_trim l a) = sa_packet_id a"
  "sa_status (status_ack_trim l a) = sa_status a"
  "(sa_properties (status_ack_trim l a), sa_reason_string (status_ack_trim l a))
     = ack_props_fit (sa_properties a) (sa_reason_string a) l"
  by (simp_all add: status_ack_trim_def split: prod.splits)

lemma status_ack_trim_wf: "status_ack_wf utf8 a \<Longrightarrow> status_ack_wf utf8 (status_ack_trim l a)"
  unfolding status_ack_wf_def status_ack_trim_simps by (simp add: ok_ack_props_fit)

lemma status_ack_trim_all:
  assumes "length (status_ack_body to_u8 a) \<le> unat MAX_PACKET_SIZE"
    and "length (status_ack_body to_u8 a) + 8 \<le> m" and "unat l = m - (2 + length (sa_status a))"
  shows "status_ack_trim l a = a"
proof -
  have "length (out_opt (sa_properties a, sa_reason_string a)) + 2 + length (sa_status a)
      < length (status_ack_body to_u8 a)"
    using assms(1) length_block_bound [of "out_opt (sa_properties a, sa_reason_string a)", OF order_refl]
    by (simp add: status_ack_body_def)
  then have "ack_props_fit (sa_properties a) (sa_reason_string a) l = (sa_properties a, sa_reason_string a)"
    using assms by (intro ack_props_fit_all) simp
  then show ?thesis by (simp add: status_ack_trim_def)
qed

lemma status_ack_size_body:
  assumes "ack_props_encoded_size (sa_properties a) (sa_reason_string a) l \<le> unat MAX_PACKET_SIZE"
  shows "2 + ack_props_encoded_size (sa_properties a) (sa_reason_string a) l + length (sa_status a)
    = length (status_ack_body to_u8 (status_ack_trim l a))"
  unfolding status_ack_body_def status_ack_trim_simps ack_props_size_fit(1) [OF assms] by simp

lemma status_ack_encode_body:
  assumes "status_ack_wf utf8 a"
    and "ack_props_encoded_size (sa_properties a) (sa_reason_string a) l \<le> unat MAX_PACKET_SIZE"
    and "sz = word_of_nat (2 + ack_props_encoded_size (sa_properties a) (sa_reason_string a) l
                + length (sa_status a))"
  shows "status_ack_encode to_u8 a sz = Inr (status_ack_body to_u8 (status_ack_trim l a))"
proof -
  let ?n = "ack_props_encoded_size (sa_properties a) (sa_reason_string a) l"
  have "sz - 2 - word_of_nat (length (sa_status a)) = word_of_nat ?n"
    unfolding assms(3) by simp
  moreover have "ack_props_encode (sa_properties a) (sa_reason_string a) (word_of_nat ?n)
      = Inr (out_block (out_opt (ack_props_fit (sa_properties a) (sa_reason_string a) l)))"
    using assms by (intro ack_props_encode_fit) (auto simp: status_ack_wf_def)
  ultimately show ?thesis
    unfolding status_ack_body_def status_ack_trim_simps
    by (simp add: status_ack_encode_def u16.encode_out)
qed

lemma status_ack_decode_safe: "safe_from 0 (status_ack_decode utf8 try_into)"
  unfolding status_ack_decode_def case_prod_beta
  by (intro safe_bind safe_intros)

context prim_enum
begin

lemma status_ack_decode_body:
  assumes "status_ack_wf utf8 a" and "length (status_ack_body code a) \<le> unat MAX_PACKET_SIZE"
  shows "dec_run (status_ack_decode utf8 (prim_try_from code variants)) (status_ack_body code a) = Inr a"
proof -
  have "length (out_opt (sa_properties a, sa_reason_string a)) \<le> unat MAX_PACKET_SIZE"
    using assms(2) by (simp add: status_ack_body_def out_block_def)
  with assms(1) show ?thesis
    by (simp add: status_ack_decode_def status_ack_body_def status_ack_wf_def wire_simps try_from_code)
qed

end

interpretation subscribe_ack: limited_packet "\<lambda>_. subscribe_ack_decode utf8" subscribe_ack_encoded_size
  subscribe_ack_encode "\<lambda>_. t" "status_ack_body sar_to_u8" subscribe_ack_trim "status_ack_wf utf8"
  for utf8 t
proof
  fix a :: subscribe_ack and l :: u32
  let ?l = "l - 2 - word_of_nat (length (sa_status a))"
  have unfold: "subscribe_ack_encoded_size a l \<le> unat MAX_PACKET_SIZE \<Longrightarrow>
      subscribe_ack_encoded_size a l
        = 2 + ack_props_encoded_size (sa_properties a) (sa_reason_string a) ?l + length (sa_status a)"
    by (simp add: subscribe_ack_encoded_size_def Let_def split: if_splits)
  show "safe_from 0 (subscribe_ack_decode utf8)"
    unfolding subscribe_ack_decode_def by (rule status_ack_decode_safe)
  show "status_ack_wf utf8 a \<Longrightarrow> status_ack_wf utf8 (subscribe_ack_trim l a)"
    by (simp add: subscribe_ack_trim_def status_ack_trim_wf)
  show "length (status_ack_body sar_to_u8 a) + 8 \<le> unat l \<Longrightarrow>
      length (status_ack_body sar_to_u8 a) \<le> unat MAX_PACKET_SIZE \<Longrightarrow> subscribe_ack_trim l a = a"
    using unat_diff [of "2 + length (sa_status a)" l] unfolding subscribe_ack_trim_def
    by (intro status_ack_trim_all [of sar_to_u8 a "unat l"])
      (auto simp: status_ack_body_def diff_diff_eq)
  show "subscribe_ack_encoded_size a l \<le> unat MAX_PACKET_SIZE \<Longrightarrow>
      subscribe_ack_encoded_size a l = length (status_ack_body sar_to_u8 (subscribe_ack_trim l a))"
    using unfold status_ack_size_body [of a ?l sar_to_u8] by (simp add: subscribe_ack_trim_def)
  show "status_ack_wf utf8 a \<Longrightarrow> subscribe_ack_encoded_size a l \<le> unat MAX_PACKET_SIZE \<Longrightarrow>
      subscribe_ack_encode a (word_of_nat (subscribe_ack_encoded_size a l))
        = Inr (status_ack_body sar_to_u8 (subscribe_ack_trim l a))"
    using unfold unfolding subscribe_ack_encode_def subscribe_ack_trim_def
    by (intro status_ack_encode_body) auto
qed (simp_all add: subscribe_ack_decode_def sar.status_ack_decode_body)

interpretation unsubscribe_ack: limited_packet "\<lambda>_. unsubscribe_ack_decode utf8"
  unsubscribe_ack_encoded_size unsubscribe_ack_encode "\<lambda>_. t" "status_ack_body uar_to_u8"
  unsubscribe_ack_trim "status_ack_wf utf8" for utf8 t
proof
  fix a :: unsubscribe_ack and l :: u32
  let ?l = "reduce_limit l (2 + length (sa_status a))"
  have unfold: "unsubscribe_ack_encoded_size a l
      = 2 + ack_props_encoded_size (sa_properties a) (sa_reason_string a) ?l + length (sa_status a)"
    by (simp add: unsubscribe_ack_encoded_size_def Let_def)
  show "safe_from 0 (unsubscribe_ack_decode utf8)"
    unfolding unsubscribe_ack_decode_def by (rule status_ack_decode_safe)
  show "status_ack_wf utf8 a \<Longrightarrow> status_ack_wf utf8 (unsubscribe_ack_trim l a)"
    by (simp add: unsubscribe_ack_trim_def status_ack_trim_wf)
  show "length (status_ack_body uar_to_u8 a) + 8 \<le> unat l \<Longrightarrow>
      length (status_ack_body uar_to_u8 a) \<le> unat MAX_PACKET_SIZE \<Longrightarrow> unsubscribe_ack_trim l a = a"
    using unat_diff [of "2 + length (sa_status a)" l] unfolding unsubscribe_ack_trim_def
    by (intro status_ack_trim_all [of uar_to_u8 a "unat l"])
      (auto simp: status_ack_body_def reduce_limit_def)
  show "unsubscribe_ack_encoded_size a l \<le> unat MAX_PACKET_SIZE \<Longrightarrow>
      unsubscribe_ack_encoded_size a l = length (status_ack_body uar_to_u8 (unsubscribe_ack_trim l a))"
    using unfold status_ack_size_body [of a ?l uar_to_u8] by (simp add: unsubscribe_ack_trim_def)
  show "status_ack_wf utf8 a \<Longrightarrow> unsubscribe_ack_encoded_size a l \<le> unat MAX_PACKET_SIZE \<Longrightarrow>
      unsubscribe_ack_encode a (word_of_nat (unsubscribe_ack_encoded_size a l))
        = Inr (status_ack_body uar_to_u8 (unsubscribe_ack_trim l a))"
    using unfold unfolding unsubscribe_ack_encode_def unsubscribe_ack_trim_def
    by (intro status_ack_encode_body) auto
qed (simp_all add: unsubscribe_ack_decode_def uar.status_ack_decode_body)

section \<open>SUBSCRIBE satisfies the contract\<close>

definition out_filter :: "bytes \<times> subscription_options \<Rightarrow> bytes" where
  "out_filter = (\<lambda>(f, opts). out_bytes f @ [subscription_options_byte opts])"

definition subscribe_props :: "subscribe \<Rightarrow> bytes" where
  "subscribe_props s = out_prop pt_SUB_ID out_varlen (sub_id s) @ out_users (sub_user_properties s)"

definition subscribe_body :: "subscribe \<Rightarrow> bytes" where
  "subscribe_body s =
     put_u16 (sub_packet_id s) @ out_block (subscribe_props s)
       @ concat (map out_filter (sub_topic_filters s))"

definition subscribe_wf :: "(bytes \<Rightarrow> bool) \<Rightarrow> subscribe \<Rightarrow> bool" where
  "subscribe_wf utf8 s \<longleftrightarrow>
     sub_packet_id s \<noteq> 0 \<and> pred_option ok_sub_id (sub_id s) \<and>
     list_all (ok_pair utf8) (sub_user_properties s) \<and>
     sub_topic_filters s \<noteq> [] \<and> list_all (\<lambda>(f, _). ok_string utf8 f) (sub_topic_filters s)"

lemma subscription_options_wire [wire_simps]:
  "subscription_options_decode (subscription_options_byte opts # r) = Inr (opts, r)"
proof -
  let ?b = "subscription_options_byte opts"
  have "?b AND 0x03 = qos_value (so_qos opts)"
    and "drop_bit 4 ?b AND 3 = rh_to_u8 (so_retain_handling opts)"
    and "(?b AND 0x04 \<noteq> 0) = so_no_local opts" and "(?b AND 0x08 \<noteq> 0) = so_retain_as_published opts"
    by (cases "so_qos opts"; cases "so_retain_handling opts"; cases "so_no_local opts";
        cases "so_retain_as_published opts"; simp add: subscription_options_byte_def)+
  then show ?thesis
    by (simp add: subscription_options_decode_def rh.try_from_code)
qed

lemma subscribe_props_steps:
  "ok_pair utf8 p \<Longrightarrow> subscribe_props_body utf8 (v, ups) (out_user p @ r) = Inr ((v, ups @ [p]), r)"
  "ok_sub_id i \<Longrightarrow> subscribe_props_body utf8 (None, ups) (pt_SUB_ID # out_varlen i @ r) = Inr ((Some i, ups), r)"
  by (simp_all add: subscribe_props_body_def out_user_def wire_simps)

lemma subscribe_props_loop:
  assumes "subscribe_wf utf8 s"
  shows "dec_while (subscribe_props_body utf8) (None, []) (subscribe_props s)
    = Inr ((sub_id s, sub_user_properties s), [])"
proof -
  have fold: "foldl (\<lambda>(v, us) p. (v, us @ [p])) (v, a) ps = (v, a @ ps)" for a v and ps :: user_properties
    by (induction ps arbitrary: a) simp_all
  have "dec_while (subscribe_props_body utf8) (None, []) (out_prop pt_SUB_ID out_varlen (sub_id s)
          @ out_users (sub_user_properties s) @ [])
      = dec_while (subscribe_props_body utf8) (sub_id s, []) (out_users (sub_user_properties s) @ [])"
    using assms by (intro dec_while_prop [where upd = "\<lambda>v. (v, [])"])
      (auto simp: subscribe_wf_def subscribe_props_steps)
  also have "\<dots> = dec_while (subscribe_props_body utf8)
      (foldl (\<lambda>(v, us) p. (v, us @ [p])) (sub_id s, []) (sub_user_properties s)) []"
    using assms by (intro dec_while_users [of utf8]) (auto simp: subscribe_wf_def subscribe_props_steps)
  finally show ?thesis by (simp add: subscribe_props_def fold)
qed

lemma subscribe_filters_loop:
  assumes "list_all (\<lambda>(f, _). ok_string utf8 f) fs"
  shows "dec_while (subscribe_filters_body utf8) [] (concat (map out_filter fs)) = Inr (fs, [])"
proof -
  have "dec_while (subscribe_filters_body utf8) [] (concat (map out_filter fs) @ [])
      = dec_while (subscribe_filters_body utf8) (foldl (\<lambda>a x. a @ [x]) [] fs) []"
    using assms by (intro dec_while_concat)
      (auto simp: list_all_iff out_filter_def subscribe_filters_body_def wire_simps)
  then show ?thesis using foldl_append_singleton [of id "[]" fs] by simp
qed

lemma subscribe_decode_body:
  assumes "subscribe_wf utf8 s" and "length (subscribe_body s) \<le> unat MAX_PACKET_SIZE"
  shows "subscribe_decode utf8 (subscribe_body s) = Inr (s, [])"
proof -
  have "length (subscribe_props s) \<le> unat MAX_PACKET_SIZE"
    using assms(2) by (simp add: subscribe_body_def out_block_def)
  with assms(1) show ?thesis
    by (simp add: subscribe_decode_def subscribe_body_def wire_simps subscribe_props_loop
        subscribe_filters_loop subscribe_wf_def)
qed

lemma subscription_options_safe [safe_intros]:
  "safe_from n subscription_options_decode" "nongrow subscription_options_decode"
  unfolding subscription_options_decode_def
  by (rule safe_bind_known safe_intros | simp)+

lemma subscribe_filters_body_reads:
  "safe_from n (subscribe_filters_body utf8 acc)" "consumes (subscribe_filters_body utf8 acc)"
  unfolding subscribe_filters_body_def
  by (intro safe_bind safe_intros) (intro consumes_bind1 consumes_intros safe_intros)

lemma subscribe_props_safe [safe_intros]: "safe_from n (dec_while (subscribe_props_body utf8) acc)"
  unfolding subscribe_props_body_def case_prod_beta by (intro safe_intros)

lemma subscribe_decode_safe: "safe_from 0 (subscribe_decode utf8)"
  unfolding subscribe_decode_def case_prod_beta
  by (intro safe_bind safe_intros safe_dec_while subscribe_filters_body_reads)

lemma var_int_len_sub_id: "ok_sub_id v \<Longrightarrow> var_int_len (unat v) = word_of_nat (length (out_varlen v))"
  by (simp flip: sub_id.size_out)

lemma foldl_filters:
  "foldl (\<lambda>acc (f, _). acc + encoded_size_bytes f + 1) a fs = a + length (concat (map out_filter fs))"
  by (induction fs arbitrary: a) (auto simp: out_filter_def encoded_size_bytes_def)

lemma subscribe_prop_len:
  assumes "subscribe_wf utf8 s"
  shows "(case sub_id s of None \<Rightarrow> 0 | Some v \<Rightarrow> 1 + unat (var_int_len (unat v)))
      + encoded_size_user_properties (sub_user_properties s) = length (subscribe_props s)"
    and "(case sub_id s of None \<Rightarrow> 0 | Some v \<Rightarrow> 1 + var_int_len (unat v))
      + word_of_nat (encoded_size_user_properties (sub_user_properties s))
      = word_of_nat (length (subscribe_props s))"
proof -
  show "(case sub_id s of None \<Rightarrow> 0 | Some v \<Rightarrow> 1 + unat (var_int_len (unat v)))
      + encoded_size_user_properties (sub_user_properties s) = length (subscribe_props s)"
    using assms by (auto simp: subscribe_props_def subscribe_wf_def encoded_size_user_properties_out
      sub_id.size_out split: option.splits)
  show "(case sub_id s of None \<Rightarrow> 0 | Some v \<Rightarrow> 1 + var_int_len (unat v))
      + word_of_nat (encoded_size_user_properties (sub_user_properties s))
      = word_of_nat (length (subscribe_props s))"
    using assms by (auto simp: subscribe_props_def subscribe_wf_def encoded_size_user_properties_out
      var_int_len_sub_id split: option.splits)
qed

lemma subscribe_size_body:
  assumes "subscribe_wf utf8 s" and "subscribe_encoded_size s l \<le> unat MAX_PACKET_SIZE"
  shows "subscribe_encoded_size s l = length (subscribe_body s)"
    and "length (subscribe_props s) \<le> unat MAX_PACKET_SIZE"
proof -
  note size = subscribe_encoded_size_def [of s l, unfolded Let_def subscribe_prop_len(1) [OF assms(1)] foldl_filters]
  show le: "length (subscribe_props s) \<le> unat MAX_PACKET_SIZE" using assms(2) size by simp
  show "subscribe_encoded_size s l = length (subscribe_body s)"
    unfolding size by (simp add: subscribe_body_def length_out_block [OF le] encoded_size_u16_def)
qed

lemma subscribe_encode_body:
  assumes "subscribe_wf utf8 s" and "subscribe_encoded_size s l \<le> unat MAX_PACKET_SIZE"
  shows "subscribe_encode s sz = Inr (subscribe_body s)"
proof -
  have "enc_all (map (\<lambda>(f, opts). enc_seq (encode_bytes f) (put [subscription_options_byte opts]))
      (sub_topic_filters s)) = Inr (concat (map out_filter (sub_topic_filters s)))"
    using assms(1) by (intro enc_all_map_Inr)
      (auto simp: subscribe_wf_def list_all_iff out_filter_def encode_bytes_out)
  moreover have "write_variable_length (word_of_nat (length (subscribe_props s)))
      = Inr (out_varlen (word_of_nat (length (subscribe_props s))))"
    by (rule write_variable_length_out [OF word_of_nat_le_MAX [OF subscribe_size_body(2) [OF assms]]])
  moreover have "encode_user_properties (sub_user_properties s) = Inr (out_users (sub_user_properties s))"
    using assms(1) by (auto simp: subscribe_wf_def intro: encode_user_properties_out)
  moreover have "(case sub_id s of None \<Rightarrow> put [] | Some v \<Rightarrow> enc_seq (put [pt_SUB_ID]) (write_variable_length v))
      = Inr (out_prop pt_SUB_ID out_varlen (sub_id s))"
    using assms(1) by (auto simp: subscribe_wf_def sub_id.encode_out split: option.splits)
  ultimately show ?thesis
    unfolding subscribe_encode_def Let_def subscribe_prop_len(2) [OF assms(1)]
    by (simp add: u16.encode_out subscribe_body_def out_block_def subscribe_props_def)
qed

interpretation subscribe: limited_packet "\<lambda>_. subscribe_decode utf8" subscribe_encoded_size
  subscribe_encode "\<lambda>_. t" subscribe_body "\<lambda>_ s. s" "subscribe_wf utf8" for utf8 t
  by unfold_locales
    (auto simp: subscribe_decode_safe subscribe_encode_body subscribe_decode_body
       intro: subscribe_size_body(1))

section \<open>UNSUBSCRIBE satisfies the contract\<close>

definition unsubscribe_body :: "unsubscribe \<Rightarrow> bytes" where
  "unsubscribe_body u =
     put_u16 (uns_packet_id u) @ out_block (out_users (uns_user_properties u))
       @ concat (map out_bytes (uns_topic_filters u))"

definition unsubscribe_wf :: "(bytes \<Rightarrow> bool) \<Rightarrow> unsubscribe \<Rightarrow> bool" where
  "unsubscribe_wf utf8 u \<longleftrightarrow>
     uns_packet_id u \<noteq> 0 \<and> list_all (ok_pair utf8) (uns_user_properties u) \<and>
     uns_topic_filters u \<noteq> [] \<and> list_all (ok_string utf8) (uns_topic_filters u)"

lemma unsubscribe_props_loop:
  assumes "list_all (ok_pair utf8) ups"
  shows "dec_while (unsubscribe_props_body utf8) [] (out_users ups) = Inr (ups, [])"
proof -
  have "dec_while (unsubscribe_props_body utf8) [] (out_users ups @ [])
      = dec_while (unsubscribe_props_body utf8) (foldl (\<lambda>a p. a @ [p]) [] ups) []"
    using assms by (intro dec_while_users [of utf8])
      (auto simp: unsubscribe_props_body_def out_user_def wire_simps)
  then show ?thesis using foldl_append_singleton [of id "[]" ups] by simp
qed

lemma unsubscribe_filters_loop:
  assumes "list_all (ok_string utf8) fs"
  shows "dec_while (unsubscribe_filters_body utf8) [] (concat (map out_bytes fs)) = Inr (fs, [])"
proof -
  have "dec_while (unsubscribe_filters_body utf8) [] (concat (map out_bytes fs) @ [])
      = dec_while (unsubscribe_filters_body utf8) (foldl (\<lambda>a x. a @ [x]) [] fs) []"
    using assms by (intro dec_while_concat)
      (auto simp: list_all_iff unsubscribe_filters_body_def wire_simps)
  then show ?thesis using foldl_append_singleton [of id "[]" fs] by simp
qed

lemma unsubscribe_decode_body:
  assumes "unsubscribe_wf utf8 u" and "length (unsubscribe_body u) \<le> unat MAX_PACKET_SIZE"
  shows "unsubscribe_decode utf8 (unsubscribe_body u) = Inr (u, [])"
proof -
  have "length (out_users (uns_user_properties u)) \<le> unat MAX_PACKET_SIZE"
    using assms(2) by (simp add: unsubscribe_body_def out_block_def)
  with assms(1) show ?thesis
    by (simp add: unsubscribe_decode_def unsubscribe_body_def wire_simps unsubscribe_props_loop
        unsubscribe_filters_loop unsubscribe_wf_def)
qed

lemma unsubscribe_loops_safe [safe_intros]:
  "safe_from n (dec_while (unsubscribe_props_body utf8) acc)"
  "safe_from n (dec_while (unsubscribe_filters_body utf8) acc')"
  unfolding unsubscribe_props_body_def unsubscribe_filters_body_def
  by (intro safe_intros) (intro safe_dec_while safe_bind safe_intros consumes_bind1 consumes_intros)

lemma unsubscribe_decode_safe: "safe_from 0 (unsubscribe_decode utf8)"
  unfolding unsubscribe_decode_def by (intro safe_bind safe_intros)

lemma foldl_strings: "foldl (\<lambda>acc f. acc + 2 + length f) a fs = a + length (concat (map out_bytes fs))"
  by (induction fs arbitrary: a) auto

lemma unsubscribe_size_body:
  assumes "unsubscribe_encoded_size u l \<le> unat MAX_PACKET_SIZE"
  shows "unsubscribe_encoded_size u l = length (unsubscribe_body u)"
    and "length (out_users (uns_user_properties u)) \<le> unat MAX_PACKET_SIZE"
proof -
  note size = unsubscribe_encoded_size_def [of u l, unfolded Let_def encoded_size_user_properties_out foldl_strings]
  show le: "length (out_users (uns_user_properties u)) \<le> unat MAX_PACKET_SIZE" using assms size by simp
  show "unsubscribe_encoded_size u l = length (unsubscribe_body u)"
    unfolding size by (simp add: unsubscribe_body_def length_out_block [OF le])
qed

lemma unsubscribe_encode_body:
  assumes "unsubscribe_wf utf8 u" and "unsubscribe_encoded_size u l \<le> unat MAX_PACKET_SIZE"
  shows "unsubscribe_encode u sz = Inr (unsubscribe_body u)"
proof -
  have "enc_all (map encode_bytes (uns_topic_filters u)) = Inr (concat (map out_bytes (uns_topic_filters u)))"
    using assms(1) by (intro enc_all_map_Inr) (auto simp: unsubscribe_wf_def list_all_iff encode_bytes_out)
  moreover have "encode_user_properties (uns_user_properties u) = Inr (out_users (uns_user_properties u))"
    using assms(1) by (auto simp: unsubscribe_wf_def intro: encode_user_properties_out)
  ultimately show ?thesis
    using write_variable_length_out [OF word_of_nat_le_MAX [OF unsubscribe_size_body(2) [OF assms(2)]]]
    by (simp add: unsubscribe_encode_def u16.encode_out unsubscribe_body_def out_block_def
        encoded_size_user_properties_out)
qed

interpretation unsubscribe: limited_packet "\<lambda>_. unsubscribe_decode utf8" unsubscribe_encoded_size
  unsubscribe_encode "\<lambda>_. t" unsubscribe_body "\<lambda>_ u. u" "unsubscribe_wf utf8" for utf8 t
  by unfold_locales
    (auto simp: unsubscribe_decode_safe unsubscribe_encode_body unsubscribe_decode_body
       intro: unsubscribe_size_body(1))

end
