(* ===== verification/V5_Codec.thy ===== *)
theory V5_Codec
  imports V5_Connect V5_Connack V5_Publish V5_Acks V5_Subscribe Framing
begin

text \<open>
  The MQTT 5 codec: the packet type of \<open>v5/packet/mod.rs\<close>, the dispatchers of \<open>v5/decode.rs\<close> and
  \<open>v5/encode.rs\<close>, and \<open>v5/codec.rs\<close>. The contract of the single packets is lifted to the packet type
  (\<open>v5_packet\<close>), and from it the framing contract follows.
\<close>

section \<open>Packets\<close>

datatype packet5 =
    P5_Connect connect5
  | P5_ConnectAck connect_ack5
  | P5_Publish publish
  | P5_PublishAck publish_ack
  | P5_PublishReceived publish_ack
  | P5_PublishRelease publish_ack2
  | P5_PublishComplete publish_ack2
  | P5_Subscribe subscribe
  | P5_SubscribeAck subscribe_ack
  | P5_Unsubscribe unsubscribe
  | P5_UnsubscribeAck unsubscribe_ack
  | P5_PingRequest
  | P5_PingResponse
  | P5_Disconnect disconnect
  | P5_Auth auth

fun v5_packet_type :: "packet5 \<Rightarrow> u8" where
  "v5_packet_type (P5_Connect _) = PT_CONNECT"
| "v5_packet_type (P5_ConnectAck _) = PT_CONNACK"
| "v5_packet_type (P5_Publish _) = PT_PUBLISH_START"
| "v5_packet_type (P5_PublishAck _) = PT_PUBACK"
| "v5_packet_type (P5_PublishReceived _) = PT_PUBREC"
| "v5_packet_type (P5_PublishRelease _) = PT_PUBREL"
| "v5_packet_type (P5_PublishComplete _) = PT_PUBCOMP"
| "v5_packet_type (P5_Subscribe _) = PT_SUBSCRIBE"
| "v5_packet_type (P5_SubscribeAck _) = PT_SUBACK"
| "v5_packet_type (P5_Unsubscribe _) = PT_UNSUBSCRIBE"
| "v5_packet_type (P5_UnsubscribeAck _) = PT_UNSUBACK"
| "v5_packet_type P5_PingRequest = PT_PINGREQ"
| "v5_packet_type P5_PingResponse = PT_PINGRESP"
| "v5_packet_type (P5_Disconnect _) = PT_DISCONNECT"
| "v5_packet_type (P5_Auth _) = PT_AUTH"

definition dec_into :: "('a \<Rightarrow> 'b) \<Rightarrow> 'a dec \<Rightarrow> 'b dec" where
  "dec_into f d = dec_bind d (\<lambda>x. dec_return (f x))"

definition v5_decode_dispatch :: "(bytes \<Rightarrow> bool) \<Rightarrow> u8 \<Rightarrow> packet5 dec" where
  "v5_decode_dispatch utf8 first_byte =
     (if PT_PUBLISH_START \<le> first_byte \<and> first_byte \<le> PT_PUBLISH_END
        then dec_into P5_Publish (publish_decode utf8 (first_byte AND 0x0F))
      else if first_byte = PT_PUBACK then dec_into P5_PublishAck (publish_ack_decode utf8)
      else if first_byte = PT_PINGREQ then dec_return P5_PingRequest
      else if first_byte = PT_PINGRESP then dec_return P5_PingResponse
      else if first_byte = PT_SUBSCRIBE then dec_into P5_Subscribe (subscribe_decode utf8)
      else if first_byte = PT_SUBACK then dec_into P5_SubscribeAck (subscribe_ack_decode utf8)
      else if first_byte = PT_UNSUBSCRIBE then dec_into P5_Unsubscribe (unsubscribe_decode utf8)
      else if first_byte = PT_UNSUBACK then dec_into P5_UnsubscribeAck (unsubscribe_ack_decode utf8)
      else if first_byte = PT_CONNECT then dec_into P5_Connect (connect5_decode utf8)
      else if first_byte = PT_CONNACK then dec_into P5_ConnectAck (connect_ack5_decode utf8)
      else if first_byte = PT_DISCONNECT then dec_into P5_Disconnect (disconnect_decode utf8)
      else if first_byte = PT_AUTH then dec_into P5_Auth (auth_decode utf8)
      else if first_byte = PT_PUBREC then dec_into P5_PublishReceived (publish_ack_decode utf8)
      else if first_byte = PT_PUBREL then dec_into P5_PublishRelease (publish_ack2_decode utf8)
      else if first_byte = PT_PUBCOMP then dec_into P5_PublishComplete (publish_ack2_decode utf8)
      else dec_raise UnsupportedPacketType)"

definition v5_decode_packet :: "(bytes \<Rightarrow> bool) \<Rightarrow> bytes \<Rightarrow> u8 \<Rightarrow> decode_error fault + packet5" where
  "v5_decode_packet utf8 src first_byte = dec_run (v5_decode_dispatch utf8 first_byte) src"

fun v5_encoded_size :: "packet5 \<Rightarrow> u32 \<Rightarrow> nat" where
  "v5_encoded_size (P5_Connect c) limit = connect5_encoded_size c limit"
| "v5_encoded_size (P5_Publish p) limit = publish_encoded_size p limit"
| "v5_encoded_size (P5_ConnectAck a) limit = connect_ack5_encoded_size a limit"
| "v5_encoded_size (P5_PublishAck a) limit = publish_ack_encoded_size a limit"
| "v5_encoded_size (P5_PublishReceived a) limit = publish_ack_encoded_size a limit"
| "v5_encoded_size (P5_PublishRelease a) limit = publish_ack2_encoded_size a limit"
| "v5_encoded_size (P5_PublishComplete a) limit = publish_ack2_encoded_size a limit"
| "v5_encoded_size (P5_Subscribe s) limit = subscribe_encoded_size s limit"
| "v5_encoded_size (P5_SubscribeAck a) limit = subscribe_ack_encoded_size a limit"
| "v5_encoded_size (P5_Unsubscribe u) limit = unsubscribe_encoded_size u limit"
| "v5_encoded_size (P5_UnsubscribeAck a) limit = unsubscribe_ack_encoded_size a limit"
| "v5_encoded_size P5_PingRequest limit = 0"
| "v5_encoded_size P5_PingResponse limit = 0"
| "v5_encoded_size (P5_Disconnect d) limit = disconnect_encoded_size d limit"
| "v5_encoded_size (P5_Auth a) limit = auth_encoded_size a limit"

fun v5_encode :: "packet5 \<Rightarrow> u32 \<Rightarrow> enc" where
  "v5_encode (P5_Connect c) n =
     enc_all [put [PT_CONNECT], write_variable_length n, connect5_encode c n]"
| "v5_encode (P5_ConnectAck a) n =
     enc_all [put [PT_CONNACK], write_variable_length n, connect_ack5_encode a n]"
| "v5_encode (P5_Publish p) n =
     enc_all [put [publish_first_byte p], write_variable_length n, publish_encode p n]"
| "v5_encode (P5_PublishAck a) n =
     enc_all [put [PT_PUBACK], write_variable_length n, publish_ack_encode a n]"
| "v5_encode (P5_PublishReceived a) n =
     enc_all [put [PT_PUBREC], write_variable_length n, publish_ack_encode a n]"
| "v5_encode (P5_PublishRelease a) n =
     enc_all [put [PT_PUBREL], write_variable_length n, publish_ack2_encode a n]"
| "v5_encode (P5_PublishComplete a) n =
     enc_all [put [PT_PUBCOMP], write_variable_length n, publish_ack2_encode a n]"
| "v5_encode (P5_Subscribe s) n =
     enc_all [put [PT_SUBSCRIBE], write_variable_length n, subscribe_encode s n]"
| "v5_encode (P5_SubscribeAck a) n =
     enc_all [put [PT_SUBACK], write_variable_length n, subscribe_ack_encode a n]"
| "v5_encode (P5_Unsubscribe u) n =
     enc_all [put [PT_UNSUBSCRIBE], write_variable_length n, unsubscribe_encode u n]"
| "v5_encode (P5_UnsubscribeAck a) n =
     enc_all [put [PT_UNSUBACK], write_variable_length n, unsubscribe_ack_encode a n]"
| "v5_encode P5_PingRequest n = put [PT_PINGREQ, 0]"
| "v5_encode P5_PingResponse n = put [PT_PINGRESP, 0]"
| "v5_encode (P5_Disconnect d) n =
     enc_all [put [PT_DISCONNECT], write_variable_length n, disconnect_encode d n]"
| "v5_encode (P5_Auth a) n =
     enc_all [put [PT_AUTH], write_variable_length n, auth_encode a n]"

section \<open>The codec\<close>

abbreviation (input) NO_PROBLEM_INFO :: u8 where "NO_PROBLEM_INFO \<equiv> 0x01"
abbreviation (input) NO_RETAIN :: u8 where "NO_RETAIN \<equiv> 0x02"
abbreviation (input) NO_SUB_IDS :: u8 where "NO_SUB_IDS \<equiv> 0x08"

record v5_codec =
  v5c_state :: decode_state
  v5c_max_in_size :: u32
  v5c_max_out_size :: u32
  v5c_flags :: u8

definition v5_codec_new :: "u32 \<Rightarrow> u32 \<Rightarrow> v5_codec" where
  "v5_codec_new max_in_size max_out_size =
     \<lparr>v5c_state = FrameHeader, v5c_max_in_size = max_in_size, v5c_max_out_size = max_out_size,
      v5c_flags = 0\<rparr>"

definition v5_codec_default :: v5_codec where
  "v5_codec_default = v5_codec_new 0 0"

definition v5_set_max_inbound_size :: "u32 \<Rightarrow> v5_codec \<Rightarrow> v5_codec" where
  "v5_set_max_inbound_size sz c = c\<lparr>v5c_max_in_size := sz\<rparr>"

definition v5_set_max_outbound_size :: "u32 \<Rightarrow> v5_codec \<Rightarrow> v5_codec" where
  "v5_set_max_outbound_size sz c = c\<lparr>v5c_max_out_size := (if sz > 5 then sz - 5 else sz)\<rparr>"

text \<open>\<open>flags.set(flag, value)\<close>.\<close>

definition flags_set :: "u8 \<Rightarrow> bool \<Rightarrow> u8 \<Rightarrow> u8" where
  "flags_set f v bits = (if v then bits OR f else bits AND NOT f)"

definition v5_retain_available :: "v5_codec \<Rightarrow> bool" where
  "v5_retain_available c = (\<not> flags_contains (v5c_flags c) NO_RETAIN)"

definition v5_sub_ids_available :: "v5_codec \<Rightarrow> bool" where
  "v5_sub_ids_available c = (\<not> flags_contains (v5c_flags c) NO_SUB_IDS)"

definition v5_set_retain_available :: "bool \<Rightarrow> v5_codec \<Rightarrow> v5_codec" where
  "v5_set_retain_available v c = c\<lparr>v5c_flags := flags_set NO_RETAIN (\<not> v) (v5c_flags c)\<rparr>"

definition v5_set_sub_ids_available :: "bool \<Rightarrow> v5_codec \<Rightarrow> v5_codec" where
  "v5_set_sub_ids_available v c = c\<lparr>v5c_flags := flags_set NO_SUB_IDS (\<not> v) (v5c_flags c)\<rparr>"

definition v5_codec_decode :: "(bytes \<Rightarrow> bool) \<Rightarrow> v5_codec \<Rightarrow> bytes \<Rightarrow>
    (decode_error fault + (packet5 \<times> u32) option) \<times> v5_codec \<times> bytes" where
  "v5_codec_decode utf8 c src =
     (case frame_decode (v5_decode_packet utf8) (v5c_max_in_size c) (v5c_state c) src of
        (res, state, src') \<Rightarrow>
          (res,
           (case res of
              Inr (Some (P5_Connect pkt, _)) \<Rightarrow>
                c\<lparr>v5c_state := state,
                  v5c_flags := flags_set NO_PROBLEM_INFO (\<not> c5_request_problem_info pkt) (v5c_flags c)\<rparr>
            | _ \<Rightarrow> c\<lparr>v5c_state := state\<rparr>),
           src'))"

text \<open>[MQTT 3.1.2.11.7]: no diagnostic properties for a client that asked for none.\<close>

fun v5_strip_problem_info :: "packet5 \<Rightarrow> packet5" where
  "v5_strip_problem_info (P5_PublishAck a) = P5_PublishAck (a\<lparr>pa_properties := [], pa_reason_string := None\<rparr>)"
| "v5_strip_problem_info (P5_PublishReceived a) = P5_PublishReceived (a\<lparr>pa_properties := [], pa_reason_string := None\<rparr>)"
| "v5_strip_problem_info (P5_PublishRelease a) = P5_PublishRelease (a\<lparr>pa_properties := [], pa_reason_string := None\<rparr>)"
| "v5_strip_problem_info (P5_PublishComplete a) = P5_PublishComplete (a\<lparr>pa_properties := [], pa_reason_string := None\<rparr>)"
| "v5_strip_problem_info (P5_Subscribe s) = P5_Subscribe (s\<lparr>sub_user_properties := []\<rparr>)"
| "v5_strip_problem_info (P5_SubscribeAck a) = P5_SubscribeAck (a\<lparr>sa_properties := [], sa_reason_string := None\<rparr>)"
| "v5_strip_problem_info (P5_Unsubscribe u) = P5_Unsubscribe (u\<lparr>uns_user_properties := []\<rparr>)"
| "v5_strip_problem_info (P5_UnsubscribeAck a) = P5_UnsubscribeAck (a\<lparr>sa_properties := [], sa_reason_string := None\<rparr>)"
| "v5_strip_problem_info (P5_Auth a) = P5_Auth (a\<lparr>au_user_properties := [], au_reason_string := None\<rparr>)"
| "v5_strip_problem_info p = p"

definition v5_max_size :: "v5_codec \<Rightarrow> u32" where
  "v5_max_size c = (if v5c_max_out_size c \<noteq> 0 then v5c_max_out_size c else MAX_PACKET_SIZE)"

definition v5_codec_encode :: "v5_codec \<Rightarrow> packet5 \<Rightarrow> enc" where
  "v5_codec_encode c item =
     (let item = (if flags_contains (v5c_flags c) NO_PROBLEM_INFO then v5_strip_problem_info item else item);
          max_size = v5_max_size c;
          content_size = v5_encoded_size item max_size
      in if content_size > unat max_size
         then Inl (Raised (OverMaxPacketSize (word_of_nat content_size) max_size))
         else v5_encode item (word_of_nat content_size))"

section \<open>The contract of the packet type\<close>

fun v5_body :: "packet5 \<Rightarrow> bytes" where
  "v5_body (P5_Connect c) = connect5_body c"
| "v5_body (P5_ConnectAck a) = connect_ack5_body a"
| "v5_body (P5_Publish p) = publish_body p"
| "v5_body (P5_PublishAck a) = pub_ack_body par_to_u8 a"
| "v5_body (P5_PublishReceived a) = pub_ack_body par_to_u8 a"
| "v5_body (P5_PublishRelease a) = pub_ack_body pa2r_to_u8 a"
| "v5_body (P5_PublishComplete a) = pub_ack_body pa2r_to_u8 a"
| "v5_body (P5_Subscribe s) = subscribe_body s"
| "v5_body (P5_SubscribeAck a) = status_ack_body sar_to_u8 a"
| "v5_body (P5_Unsubscribe u) = unsubscribe_body u"
| "v5_body (P5_UnsubscribeAck a) = status_ack_body uar_to_u8 a"
| "v5_body P5_PingRequest = []"
| "v5_body P5_PingResponse = []"
| "v5_body (P5_Disconnect d) = disconnect_body d"
| "v5_body (P5_Auth a) = auth_body a"

fun v5_trim :: "u32 \<Rightarrow> packet5 \<Rightarrow> packet5" where
  "v5_trim l (P5_ConnectAck a) = P5_ConnectAck (connect_ack5_trim l a)"
| "v5_trim l (P5_PublishAck a) = P5_PublishAck (pub_ack_trim l a)"
| "v5_trim l (P5_PublishReceived a) = P5_PublishReceived (pub_ack_trim l a)"
| "v5_trim l (P5_PublishRelease a) = P5_PublishRelease (pub_ack_trim l a)"
| "v5_trim l (P5_PublishComplete a) = P5_PublishComplete (pub_ack_trim l a)"
| "v5_trim l (P5_SubscribeAck a) = P5_SubscribeAck (subscribe_ack_trim l a)"
| "v5_trim l (P5_UnsubscribeAck a) = P5_UnsubscribeAck (unsubscribe_ack_trim l a)"
| "v5_trim l (P5_Disconnect d) = P5_Disconnect (disconnect_trim l d)"
| "v5_trim l (P5_Auth a) = P5_Auth (auth_trim l a)"
| "v5_trim l p = p"

fun v5_wf :: "(bytes \<Rightarrow> bool) \<Rightarrow> packet5 \<Rightarrow> bool" where
  "v5_wf utf8 (P5_Connect c) = connect5_wf utf8 c"
| "v5_wf utf8 (P5_ConnectAck a) = connect_ack5_wf utf8 a"
| "v5_wf utf8 (P5_Publish p) = publish_wf utf8 p"
| "v5_wf utf8 (P5_PublishAck a) = pub_ack_wf utf8 a"
| "v5_wf utf8 (P5_PublishReceived a) = pub_ack_wf utf8 a"
| "v5_wf utf8 (P5_PublishRelease a) = pub_ack_wf utf8 a"
| "v5_wf utf8 (P5_PublishComplete a) = pub_ack_wf utf8 a"
| "v5_wf utf8 (P5_Subscribe s) = subscribe_wf utf8 s"
| "v5_wf utf8 (P5_SubscribeAck a) = status_ack_wf utf8 a"
| "v5_wf utf8 (P5_Unsubscribe u) = unsubscribe_wf utf8 u"
| "v5_wf utf8 (P5_UnsubscribeAck a) = status_ack_wf utf8 a"
| "v5_wf utf8 P5_PingRequest = True"
| "v5_wf utf8 P5_PingResponse = True"
| "v5_wf utf8 (P5_Disconnect d) = disconnect_wf utf8 d"
| "v5_wf utf8 (P5_Auth a) = auth_wf utf8 a"

definition v5_first :: "packet5 \<Rightarrow> u8" where
  "v5_first p = (case p of P5_Publish q \<Rightarrow> publish_first_byte q | _ \<Rightarrow> v5_packet_type p)"

text \<open>The part of a packet that follows the fixed header.\<close>

fun v5_encode_content :: "packet5 \<Rightarrow> u32 \<Rightarrow> enc" where
  "v5_encode_content (P5_Connect c) n = connect5_encode c n"
| "v5_encode_content (P5_ConnectAck a) n = connect_ack5_encode a n"
| "v5_encode_content (P5_Publish p) n = publish_encode p n"
| "v5_encode_content (P5_PublishAck a) n = publish_ack_encode a n"
| "v5_encode_content (P5_PublishReceived a) n = publish_ack_encode a n"
| "v5_encode_content (P5_PublishRelease a) n = publish_ack2_encode a n"
| "v5_encode_content (P5_PublishComplete a) n = publish_ack2_encode a n"
| "v5_encode_content (P5_Subscribe s) n = subscribe_encode s n"
| "v5_encode_content (P5_SubscribeAck a) n = subscribe_ack_encode a n"
| "v5_encode_content (P5_Unsubscribe u) n = unsubscribe_encode u n"
| "v5_encode_content (P5_UnsubscribeAck a) n = unsubscribe_ack_encode a n"
| "v5_encode_content P5_PingRequest n = put []"
| "v5_encode_content P5_PingResponse n = put []"
| "v5_encode_content (P5_Disconnect d) n = disconnect_encode d n"
| "v5_encode_content (P5_Auth a) n = auth_encode a n"

lemma dec_run_into [simp]: "dec_run (dec_into f d) s = map_sum id f (dec_run d s)"
  by (cases "d s") (auto simp: dec_run_def dec_into_def dec_bind_def)

lemma safe_dec_into [safe_intros]: "safe_from 0 d \<Longrightarrow> safe_from 0 (dec_into f d)"
  unfolding dec_into_def by (intro safe_bind safe_intros)

lemma dec_run_return [simp]: "dec_run (dec_return x) s = Inr x"
  by simp

lemma v5_dispatch_safe: "safe_from 0 (v5_decode_dispatch utf8 b)"
  unfolding v5_decode_dispatch_def
  by (intro safe_intros publish.decode_safe publish_ack.decode_safe publish_ack2.decode_safe
      subscribe.decode_safe subscribe_ack.decode_safe unsubscribe.decode_safe unsubscribe_ack.decode_safe
      connect5.decode_safe connect_ack5.decode_safe disconnect.decode_safe auth.decode_safe
      publish_decode_safe)

lemma v5_dispatch_type:
  "b = PT_PUBACK \<Longrightarrow> v5_decode_dispatch utf8 b = dec_into P5_PublishAck (publish_ack_decode utf8)"
  "b = PT_PUBREC \<Longrightarrow> v5_decode_dispatch utf8 b = dec_into P5_PublishReceived (publish_ack_decode utf8)"
  "b = PT_PUBREL \<Longrightarrow> v5_decode_dispatch utf8 b = dec_into P5_PublishRelease (publish_ack2_decode utf8)"
  "b = PT_PUBCOMP \<Longrightarrow> v5_decode_dispatch utf8 b = dec_into P5_PublishComplete (publish_ack2_decode utf8)"
  "b = PT_SUBSCRIBE \<Longrightarrow> v5_decode_dispatch utf8 b = dec_into P5_Subscribe (subscribe_decode utf8)"
  "b = PT_SUBACK \<Longrightarrow> v5_decode_dispatch utf8 b = dec_into P5_SubscribeAck (subscribe_ack_decode utf8)"
  "b = PT_UNSUBSCRIBE \<Longrightarrow> v5_decode_dispatch utf8 b = dec_into P5_Unsubscribe (unsubscribe_decode utf8)"
  "b = PT_UNSUBACK \<Longrightarrow> v5_decode_dispatch utf8 b = dec_into P5_UnsubscribeAck (unsubscribe_ack_decode utf8)"
  "b = PT_CONNECT \<Longrightarrow> v5_decode_dispatch utf8 b = dec_into P5_Connect (connect5_decode utf8)"
  "b = PT_CONNACK \<Longrightarrow> v5_decode_dispatch utf8 b = dec_into P5_ConnectAck (connect_ack5_decode utf8)"
  "b = PT_DISCONNECT \<Longrightarrow> v5_decode_dispatch utf8 b = dec_into P5_Disconnect (disconnect_decode utf8)"
  "b = PT_AUTH \<Longrightarrow> v5_decode_dispatch utf8 b = dec_into P5_Auth (auth_decode utf8)"
  "b = PT_PINGREQ \<Longrightarrow> v5_decode_dispatch utf8 b = dec_return P5_PingRequest"
  "b = PT_PINGRESP \<Longrightarrow> v5_decode_dispatch utf8 b = dec_return P5_PingResponse"
  by (simp_all add: v5_decode_dispatch_def word_le_nat_alt)

lemma v5_dispatch_publish:
  "v5_decode_dispatch utf8 (publish_first_byte p)
     = dec_into P5_Publish (publish_decode utf8 (publish_first_byte p AND 0x0F))"
  using publish_first_byte_bits(4,5) [of p] by (simp add: v5_decode_dispatch_def)

lemma v5_dispatch_body:
  assumes "v5_wf utf8 p" and "length (v5_body p) \<le> unat MAX_PACKET_SIZE"
  shows "dec_run (v5_decode_dispatch utf8 (v5_first p)) (v5_body p) = Inr p"
  using assms
  by (cases p)
    (simp_all add: v5_first_def v5_dispatch_type v5_dispatch_publish publish.decode_body publish_ack.decode_body
      publish_ack2.decode_body subscribe.decode_body subscribe_ack.decode_body unsubscribe.decode_body
      unsubscribe_ack.decode_body connect5.decode_body connect_ack5.decode_body disconnect.decode_body
      auth.decode_body)

text \<open>The facts of one law of the contract, for all packets.\<close>

lemmas v5_trim_wf = publish_ack.trim_wf publish_ack2.trim_wf subscribe_ack.trim_wf
  unsubscribe_ack.trim_wf connect_ack5.trim_wf disconnect.trim_wf auth.trim_wf

lemmas v5_trim_all = publish_ack.trim_all publish_ack2.trim_all subscribe_ack.trim_all
  unsubscribe_ack.trim_all connect_ack5.trim_all disconnect.trim_all auth.trim_all

lemmas v5_size_body = connect5.size_body connect_ack5.size_body publish.size_body
  publish_ack.size_body publish_ack2.size_body subscribe.size_body subscribe_ack.size_body
  unsubscribe.size_body unsubscribe_ack.size_body disconnect.size_body auth.size_body

lemmas v5_encode_body = connect5.encode_body connect_ack5.encode_body publish.encode_body
  publish_ack.encode_body publish_ack2.encode_body subscribe.encode_body subscribe_ack.encode_body
  unsubscribe.encode_body unsubscribe_ack.encode_body disconnect.encode_body auth.encode_body

interpretation v5_packet: limited_packet "v5_decode_dispatch utf8" v5_encoded_size v5_encode_content
  v5_first v5_body v5_trim "v5_wf utf8" for utf8
proof
  fix p l
  show "v5_wf utf8 p \<Longrightarrow> v5_wf utf8 (v5_trim l p)"
    by (cases p) (simp_all add: v5_trim_wf)
  show "v5_first (v5_trim l p) = v5_first p"
    by (cases p) (simp_all add: v5_first_def)
  show "v5_wf utf8 p \<Longrightarrow> length (v5_body p) + 8 \<le> unat l \<Longrightarrow>
      length (v5_body p) \<le> unat MAX_PACKET_SIZE \<Longrightarrow> v5_trim l p = p"
    by (cases p) (simp_all add: v5_trim_all [of utf8])
  show "v5_wf utf8 p \<Longrightarrow> v5_encoded_size p l \<le> unat MAX_PACKET_SIZE \<Longrightarrow>
      v5_encoded_size p l = length (v5_body (v5_trim l p))"
    by (cases p) (auto intro: v5_size_body [of utf8])
  show "v5_wf utf8 p \<Longrightarrow> v5_encoded_size p l \<le> unat MAX_PACKET_SIZE \<Longrightarrow>
      v5_encode_content p (word_of_nat (v5_encoded_size p l)) = Inr (v5_body (v5_trim l p))"
    by (cases p) (simp_all add: v5_encode_body [of utf8])
qed (rule v5_dispatch_safe, rule v5_dispatch_body)

interpretation v5_frames: framing "v5_decode_packet utf8" v5_first v5_body
  "\<lambda>p. v5_wf utf8 p \<and> length (v5_body p) \<le> unat MAX_PACKET_SIZE" for utf8
  by unfold_locales (simp add: v5_decode_packet_def v5_packet.decode_body)

lemma v5_encode_content_eq:
  assumes "n \<le> MAX_PACKET_SIZE" and "v5_encode_content p n = Inr b" and "n = word_of_nat (length b)"
  shows "v5_encode p n = Inr (v5_first p # out_varlen n @ b)"
  using assms
  by (cases p) (auto simp: v5_first_def write_variable_length_out)

lemma v5_decode_packet_not_panicked: "v5_decode_packet utf8 s b \<noteq> Inl Panicked"
  unfolding v5_decode_packet_def by (rule dec_run_not_panicked [OF v5_dispatch_safe])

text \<open>The packet the encoder writes: without problem information if the client wants none, and
  without the diagnostic properties that do not fit.\<close>

definition v5_sent :: "v5_codec \<Rightarrow> packet5 \<Rightarrow> packet5" where
  "v5_sent c item =
     v5_trim (v5_max_size c)
       (if flags_contains (v5c_flags c) NO_PROBLEM_INFO then v5_strip_problem_info item else item)"

lemma v5_strip_wf: "v5_wf utf8 p \<Longrightarrow> v5_wf utf8 (v5_strip_problem_info p)"
  by (cases p)
    (auto simp: pub_ack_wf_def subscribe_wf_def status_ack_wf_def unsubscribe_wf_def auth_wf_def ok_opt_def)

lemma v5_max_size_le:
  "v5c_max_out_size c \<le> MAX_PACKET_SIZE \<Longrightarrow> unat (v5_max_size c) \<le> unat MAX_PACKET_SIZE"
  by (simp add: v5_max_size_def word_le_nat_alt)

lemma v5_codec_encode_frame:
  fixes c item
  defines "p \<equiv> (if flags_contains (v5c_flags c) NO_PROBLEM_INFO then v5_strip_problem_info item else item)"
  assumes wf: "v5_wf utf8 item" and max: "v5c_max_out_size c \<le> MAX_PACKET_SIZE"
    and size: "v5_encoded_size p (v5_max_size c) \<le> unat (v5_max_size c)"
  shows "v5_codec_encode c item = Inr (frame_bytes v5_first v5_body (v5_sent c item))"
    and "v5_wf utf8 (v5_sent c item)"
    and "length (v5_body (v5_sent c item)) \<le> unat (v5_max_size c)"
proof -
  let ?m = "v5_max_size c"
  have wfp: "v5_wf utf8 p" using wf by (simp add: p_def v5_strip_wf)
  have le: "v5_encoded_size p ?m \<le> unat MAX_PACKET_SIZE" using size v5_max_size_le [OF max] by simp
  note len = v5_packet.size_body [OF wfp le]
  have sent: "v5_sent c item = v5_trim ?m p" by (simp add: v5_sent_def p_def)
  show "v5_wf utf8 (v5_sent c item)" unfolding sent by (rule v5_packet.trim_wf [OF wfp])
  show "length (v5_body (v5_sent c item)) \<le> unat ?m" using size len by (simp add: sent)
  have "v5_encode p (word_of_nat (v5_encoded_size p ?m))
      = Inr (v5_first p # out_varlen (word_of_nat (v5_encoded_size p ?m)) @ v5_body (v5_trim ?m p))"
    using v5_packet.encode_body [OF wfp le] len
    by (intro v5_encode_content_eq word_of_nat_le_MAX [OF le]) simp_all
  then have "v5_encode p (word_of_nat (v5_encoded_size p ?m)) = Inr (frame_bytes v5_first v5_body (v5_sent c item))"
    by (simp add: frame_bytes_def sent v5_packet.trim_first len)
  with size show "v5_codec_encode c item = Inr (frame_bytes v5_first v5_body (v5_sent c item))"
    unfolding v5_codec_encode_def Let_def p_def [symmetric] by simp
qed

lemma v5_codec_encode_over:
  assumes "v5_codec_encode c item = Inr bs"
  shows "v5_encoded_size (if flags_contains (v5c_flags c) NO_PROBLEM_INFO then v5_strip_problem_info item else item)
      (v5_max_size c) \<le> unat (v5_max_size c)"
  using assms by (auto simp: v5_codec_encode_def Let_def split: if_splits)

lemma v5_frame_decode:
  assumes "v5_wf utf8 p" and "length (v5_body p) \<le> unat MAX_PACKET_SIZE"
    and "m = 0 \<or> length (v5_body p) \<le> unat m"
  shows "frame_decode (v5_decode_packet utf8) m FrameHeader (frame_bytes v5_first v5_body p @ rest)
    = (Inr (Some (p, word_of_nat (length (v5_body p)))), FrameHeader, rest)"
  using v5_frames.decode_one [of utf8 p m "word_of_nat (length (v5_body p))" rest] assms
  by (simp add: frame_bytes_def del: frame_decode.simps)

lemma and_not_same: "(bits AND NOT f) AND f = (0 :: 'a::len word)"
  by (rule bit_word_eqI) (auto simp: bit_simps)

lemma or_and_same: "(bits OR f) AND f = (f :: 'a::len word)"
  by (rule bit_word_eqI) (auto simp: bit_simps)

lemma flags_set_contains: "flags_contains (flags_set f v bits) f = (v \<or> f = 0)"
  by (auto simp: flags_set_def flags_contains_def and_not_same or_and_same)

lemma length_frame_bytes:
  "length (v5_body p) \<le> unat MAX_PACKET_SIZE \<Longrightarrow>
     length (frame_bytes v5_first v5_body p) \<le> 5 + length (v5_body p)"
  using length_out_varlen [OF word_of_nat_le_MAX, of "length (v5_body p)"]
  by (simp add: frame_bytes_def unat_word_of_nat varint_groups_table)

lemmas v5_codec_defs = v5_codec_default_def v5_codec_new_def v5_max_size_def flags_contains_def

lemma v5_codec_safe: "fst (v5_codec_decode utf8 c src) \<noteq> Inl Panicked"
  using frame_decode_not_panicked [of "v5_decode_packet utf8", OF v5_decode_packet_not_panicked]
  by (auto simp: v5_codec_decode_def simp del: frame_decode.simps split: prod.splits)

section \<open>Properties\<close>

text \<open>C2. What the MQTT 5 codec writes for a well-formed packet is read back, whatever follows it, as
  the packet without the problem information the client refused and without the diagnostic
  properties that exceed the outbound limit.\<close>

theorem v5_codec_roundtrip:
  assumes "v5_wf utf8 item" and "v5c_max_out_size c \<le> MAX_PACKET_SIZE"
    and "v5_codec_encode c item = Inr bs"
    and "m = 0 \<or> length bs \<le> unat m"
  shows "\<exists>d n. v5_codec_decode utf8 (v5_codec_new m k) (bs @ rest) = (Inr (Some (v5_sent c item, n)), d, rest) \<and>
    v5c_state d = FrameHeader"
proof -
  note sent = v5_codec_encode_frame [OF assms(1,2) v5_codec_encode_over [OF assms(3)]]
  have bs: "bs = frame_bytes v5_first v5_body (v5_sent c item)" using sent(1) assms(3) by simp
  have "length (v5_body (v5_sent c item)) \<le> unat MAX_PACKET_SIZE"
    using sent(3) v5_max_size_le [OF assms(2)] by simp
  moreover have "m = 0 \<or> length (v5_body (v5_sent c item)) \<le> unat m"
    using assms(4) by (auto simp: bs frame_bytes_def)
  ultimately have "frame_decode (v5_decode_packet utf8) m FrameHeader (bs @ rest)
      = (Inr (Some (v5_sent c item, word_of_nat (length (v5_body (v5_sent c item))))), FrameHeader, rest)"
    unfolding bs by (rule v5_frame_decode [OF sent(2)])
  then show ?thesis
    by (auto simp: v5_codec_decode_def v5_codec_new_def simp del: frame_decode.simps split: packet5.split)
qed

text \<open>The acknowledgement used in the witnesses: a user property and a reason string.\<close>

definition sample_ack :: packet5 where
  "sample_ack = P5_PublishAck \<lparr>pa_packet_id = 7, pa_reason_code = PAR_Success,
     pa_properties = [([97], [98])], pa_reason_string = Some [99]\<rparr>"

theorem v5_codec_roundtrip_witness:
  "\<exists>d n. v5_codec_decode (\<lambda>_. True) (v5_codec_new 0 0) ([0x40, 11, 0, 7, 0, 7, 0x26, 0, 1, 97, 0, 1, 98] @ [1])
     = (Inr (Some (P5_PublishAck \<lparr>pa_packet_id = 7, pa_reason_code = PAR_Success,
          pa_properties = [([97], [98])], pa_reason_string = None\<rparr>, n)), d, [1]) \<and> v5c_state d = FrameHeader"
proof -
  let ?c = "v5_codec_new 0 21"
  have "v5_sent ?c sample_ack = P5_PublishAck \<lparr>pa_packet_id = 7, pa_reason_code = PAR_Success,
      pa_properties = [([97], [98])], pa_reason_string = None\<rparr>"
    by (simp add: v5_sent_def sample_ack_def v5_codec_defs pub_ack_trim_def ack_props_fit_def
        encoded_size_pair_def encoded_size_bytes_def)
  moreover have "v5_wf (\<lambda>_. True) sample_ack"
    by (simp add: sample_ack_def pub_ack_wf_def ok_opt_def ok_pair_def ok_string_def short_def)
  moreover have "v5_codec_encode ?c sample_ack = Inr [0x40, 11, 0, 7, 0, 7, 0x26, 0, 1, 97, 0, 1, 98]"
    by (simp add: v5_codec_encode_def sample_ack_def v5_codec_defs publish_ack_encoded_size_def
        pub_ack_encoded_size_def ack_props_encoded_size_def encoded_size_pair_def encoded_size_bytes_def
        unat_var_int_len varint_groups_table publish_ack_encode_def pub_ack_encode_def
        ack_props_encode_def var_int_len_from_size_def var_int_len_u32_groups write_variable_length_def
        encode_u16_def put_u16_def encode_pair_def encode_bytes_def enc_seq_def Let_def)
  ultimately show ?thesis
    using v5_codec_roundtrip [of "\<lambda>_. True" sample_ack ?c "[0x40, 11, 0, 7, 0, 7, 0x26, 0, 1, 97, 0, 1, 98]" 0 0 "[1]"]
    by (simp add: v5_codec_new_def)
qed

text \<open>A well-formed MQTT 5 packet that fits the protocol's maximum with eight bytes to spare is
  written by a fresh codec and decoded by a fresh codec to the same packet, with all its properties.\<close>

theorem v5_codec_full_roundtrip:
  assumes "v5_wf utf8 item" and "v5_encoded_size item MAX_PACKET_SIZE \<le> unat MAX_PACKET_SIZE"
    and "length (v5_body item) + 8 \<le> unat MAX_PACKET_SIZE"
  shows "\<exists>bs n d. v5_codec_encode v5_codec_default item = Inr bs \<and>
    v5_codec_decode utf8 v5_codec_default (bs @ rest) = (Inr (Some (item, n)), d, rest)"
proof -
  let ?c = v5_codec_default
  have c: "v5_max_size ?c = MAX_PACKET_SIZE" "\<not> flags_contains (v5c_flags ?c) NO_PROBLEM_INFO"
    "v5c_max_out_size ?c \<le> MAX_PACKET_SIZE"
    by (simp_all add: v5_codec_defs)
  have "v5_trim MAX_PACKET_SIZE item = item"
    using assms by (intro v5_packet.trim_all [of utf8]) simp_all
  then have sent: "v5_sent ?c item = item" using c by (simp add: v5_sent_def)
  then have "v5_codec_encode ?c item = Inr (frame_bytes v5_first v5_body item)"
    using v5_codec_encode_frame(1) [OF assms(1) c(3)] c assms(2) by simp
  moreover have "frame_decode (v5_decode_packet utf8) 0 FrameHeader (frame_bytes v5_first v5_body item @ rest)
      = (Inr (Some (item, word_of_nat (length (v5_body item)))), FrameHeader, rest)"
    using assms by (intro v5_frame_decode) simp_all
  ultimately show ?thesis
    by (auto simp: v5_codec_decode_def v5_codec_default_def v5_codec_new_def simp del: frame_decode.simps)
qed

theorem v5_codec_full_roundtrip_witness:
  "\<exists>bs n d. v5_codec_encode v5_codec_default sample_ack = Inr bs \<and>
    v5_codec_decode (\<lambda>_. True) v5_codec_default (bs @ [1]) = (Inr (Some (sample_ack, n)), d, [1])"
proof (rule v5_codec_full_roundtrip)
  show "v5_wf (\<lambda>_. True) sample_ack"
    by (simp add: sample_ack_def pub_ack_wf_def ok_opt_def ok_pair_def ok_string_def short_def)
  show "v5_encoded_size sample_ack MAX_PACKET_SIZE \<le> unat MAX_PACKET_SIZE"
    by (simp add: sample_ack_def publish_ack_encoded_size_def pub_ack_encoded_size_def
        ack_props_encoded_size_def encoded_size_pair_def encoded_size_bytes_def unat_var_int_len
        varint_groups_table)
  show "length (v5_body sample_ack) + 8 \<le> unat MAX_PACKET_SIZE"
    by (simp add: sample_ack_def pub_ack_body_def out_block_def out_varlen_def write_variable_length_def
        out_opt_def out_users_def out_user_def out_pair_def out_bytes_def)
qed

text \<open>No byte string, no codec state and no size limit makes the MQTT 5 codec panic while decoding.\<close>

theorem v5_codec_decode_not_panicked: "fst (v5_codec_decode utf8 c src) \<noteq> Inl Panicked"
  by (rule v5_codec_safe)

text \<open>Encoding a well-formed packet under a limit the protocol can express never panics: it writes a
  frame of at most five bytes more than the limit, or reports that the packet is too large.\<close>

theorem v5_codec_encode_total:
  assumes "v5_wf utf8 item" and "v5c_max_out_size c \<le> MAX_PACKET_SIZE"
  shows "(\<exists>bs. v5_codec_encode c item = Inr bs \<and> length bs \<le> unat (v5_max_size c) + 5) \<or>
    (\<exists>n. v5_codec_encode c item = Inl (Raised (OverMaxPacketSize n (v5_max_size c))))"
proof (cases "v5_encoded_size (if flags_contains (v5c_flags c) NO_PROBLEM_INFO then v5_strip_problem_info item else item)
      (v5_max_size c) \<le> unat (v5_max_size c)")
  case True
  note frame = v5_codec_encode_frame [OF assms True]
  have "length (frame_bytes v5_first v5_body (v5_sent c item)) \<le> unat (v5_max_size c) + 5"
    using length_frame_bytes [of "v5_sent c item"] frame(3) v5_max_size_le [OF assms(2)] by simp
  with frame(1) show ?thesis by blast
next
  case False
  then show ?thesis by (simp add: v5_codec_encode_def Let_def)
qed

theorem v5_codec_encode_total_witness:
  "(\<exists>bs. v5_codec_encode (v5_codec_new 0 21) P5_PingResponse = Inr bs \<and> length bs \<le> 26) \<or>
    (\<exists>n. v5_codec_encode (v5_codec_new 0 21) P5_PingResponse = Inl (Raised (OverMaxPacketSize n 21)))"
  using v5_codec_encode_total [of "\<lambda>_. True" P5_PingResponse "v5_codec_new 0 21"]
  by (simp add: v5_codec_new_def v5_max_size_def)



text \<open>After a CONNECT that asks for no problem information the codec writes every packet without
  its reason string and user properties; after one that accepts problem information it writes the packet as it is.\<close>

theorem v5_problem_information:
  assumes "v5_codec_decode utf8 c src = (Inr (Some (P5_Connect pkt, n)), c', rest)"
  shows "v5_codec_encode c' item =
    v5_codec_encode (c'\<lparr>v5c_flags := 0\<rparr>)
      (if c5_request_problem_info pkt then item else v5_strip_problem_info item)"
proof -
  have "v5c_flags c' = flags_set NO_PROBLEM_INFO (\<not> c5_request_problem_info pkt) (v5c_flags c)"
    using assms by (auto simp: v5_codec_decode_def split: prod.splits simp del: frame_decode.simps)
  moreover have "\<not> flags_contains 0 NO_PROBLEM_INFO" by (simp add: flags_contains_def)
  ultimately show ?thesis
    by (simp add: v5_codec_encode_def v5_max_size_def flags_set_contains)
qed

definition sample_connect :: connect5 where
  "sample_connect = connect5_default\<lparr>c5_clean_start := True, c5_request_problem_info := False\<rparr>"

lemma sample_connect_wf:
  "connect5_wf (\<lambda>_. True) sample_connect" "length (v5_body (P5_Connect sample_connect)) = 15"
  by (simp_all add: connect5_wf_def sample_connect_def connect5_default_def ok_string_def short_def
      connect5_body_def out_bytes_def MQTT_def out_block_def connect5_props_def unless_default_def
      out_varlen_def write_variable_length_def out_users_def out_bool_def)

theorem v5_problem_information_witness:
  "v5_codec_encode (fst (snd (v5_codec_decode (\<lambda>_. True) v5_codec_default
      (frame_bytes v5_first v5_body (P5_Connect sample_connect))))) sample_ack
    = v5_codec_encode v5_codec_default (v5_strip_problem_info sample_ack)"
proof -
  have "frame_decode (v5_decode_packet (\<lambda>_. True)) 0 FrameHeader
      (frame_bytes v5_first v5_body (P5_Connect sample_connect) @ [])
    = (Inr (Some (P5_Connect sample_connect, 15)), FrameHeader, [])"
    using v5_frame_decode [of "\<lambda>_. True" "P5_Connect sample_connect" 0 "[]"] sample_connect_wf
    by (simp del: frame_decode.simps)
  then have "v5_codec_decode (\<lambda>_. True) v5_codec_default (frame_bytes v5_first v5_body (P5_Connect sample_connect))
    = (Inr (Some (P5_Connect sample_connect, 15)), v5_codec_default\<lparr>v5c_flags := NO_PROBLEM_INFO\<rparr>, [])"
    by (simp add: v5_codec_decode_def v5_codec_default_def v5_codec_new_def sample_connect_def flags_set_def
        del: frame_decode.simps)
  from v5_problem_information [OF this] this show ?thesis
    by (simp add: sample_connect_def v5_codec_default_def v5_codec_new_def)
qed

text \<open>C13. However the bytes of a sequence of encoded MQTT 5 packets are cut into network reads, draining
  the codec after each read yields the packets that were sent, in order, and no error.\<close>

theorem v5_stream_chunks:
  assumes "\<And>p. p \<in> set ps \<Longrightarrow> v5_wf utf8 p" and "v5c_max_out_size c \<le> MAX_PACKET_SIZE"
    and "m = 0 \<or> v5_max_size c \<le> m"
    and "enc_all (map (v5_codec_encode c) ps) = Inr (concat chunks)"
  shows "map fst (fst (feed (v5_decode_packet utf8) m FrameHeader [] chunks)) = map (v5_sent c) ps \<and>
    snd (feed (v5_decode_packet utf8) m FrameHeader [] chunks) = None"
proof -
  have frame: "v5_codec_encode c p = Inr (frame_bytes v5_first v5_body (v5_sent c p))"
    "v5_wf utf8 (v5_sent c p)" "length (v5_body (v5_sent c p)) \<le> unat (v5_max_size c)" if "p \<in> set ps" for p
    using v5_codec_encode_frame [OF assms(1) assms(2) v5_codec_encode_over] enc_all_map_InrD [OF assms(4)] that
    by metis+
  then have "concat chunks = concat (map (frame_bytes v5_first v5_body) (map (v5_sent c) ps))"
    using assms(4) by (simp add: comp_def)
  moreover have "drain (v5_decode_packet utf8) m FrameHeader
      (concat (map (frame_bytes v5_first v5_body) (map (v5_sent c) ps)))
    = (map (\<lambda>p. (p, word_of_nat (length (v5_body p)))) (map (v5_sent c) ps), None, FrameHeader, [])"
    using frame v5_max_size_le [OF assms(2)] assms(3)
    by (intro v5_frames.drain_frames) (fastforce simp: word_le_nat_alt)
  ultimately show ?thesis by (simp add: feed_chunks comp_def)
qed

theorem v5_stream_chunks_witness:
  "map fst (fst (feed (v5_decode_packet (\<lambda>_. True)) 0 FrameHeader [] [[0xC0], [0, 0xD0], [0]]))
     = [P5_PingRequest, P5_PingResponse]"
proof -
  have "map fst (fst (feed (v5_decode_packet (\<lambda>_. True)) 0 FrameHeader [] [[0xC0], [0, 0xD0], [0]]))
      = map (v5_sent v5_codec_default) [P5_PingRequest, P5_PingResponse]"
    by (rule v5_stream_chunks [THEN conjunct1]) (auto simp: v5_codec_encode_def v5_codec_defs)
  then show ?thesis by (simp add: v5_sent_def v5_codec_defs del: feed.simps)
qed

end
