(* ===== verification/Mqtt_Codec.thy ===== *)
theory Mqtt_Codec
  imports V3_Codec V5_Codec
begin

text \<open>
  \<open>ferromq-codec/src/version.rs\<close> (detection of the protocol version in the first CONNECT) and
  \<open>ferromq-codec/src/lib.rs\<close> (\<open>MqttCodec\<close>, which dispatches to the codec of the negotiated version).

  Shown: the version detected in the frame of a CONNECT is the version of the codec that wrote it,
  whatever follows the frame; detection neither panics nor consumes bytes, so that the codec of the
  detected version reads the same CONNECT.
\<close>

section \<open>Version detection\<close>

datatype protocol_version = MQTT3 | MQTT5

text \<open>The slice \<open>src[i..j]\<close> of a buffer, and the byte \<open>src[i]\<close>: both panic out of bounds.\<close>

definition slice_range :: "bytes \<Rightarrow> nat \<Rightarrow> nat \<Rightarrow> bytes option" where
  "slice_range src i j = (if i \<le> j \<and> j \<le> length src then Some (take (j - i) (drop i src)) else None)"

definition index_at :: "bytes \<Rightarrow> nat \<Rightarrow> u8 option" where
  "index_at src i = (if i < length src then Some (src ! i) else None)"

fun be_u16 :: "bytes \<Rightarrow> u16" where
  "be_u16 (a # b # _) = from_be16 a b"
| "be_u16 _ = 0"

definition version_level ::
  "bytes \<Rightarrow> nat \<Rightarrow> decode_error fault + protocol_version option" where
  "version_level src pos =
     (case index_at src pos of
        None \<Rightarrow> Inl Panicked
      | Some level \<Rightarrow>
          if level = MQTT_LEVEL_31 \<or> level = MQTT_LEVEL_311 then Inr (Some MQTT3)
          else if level = MQTT_LEVEL_5 then Inr (Some MQTT5)
          else Inl (Raised InvalidProtocol))"

definition version_decode :: "bytes \<Rightarrow> decode_error fault + protocol_version option" where
  "version_decode src =
     (if length src < 2 then Inr None
      else case decode_variable_length (drop 1 src) of
          Inl e \<Rightarrow> Inl e
        | Inr None \<Rightarrow> Inr None
        | Inr (Some (_, consumed)) \<Rightarrow>
            let consumed = consumed + 1 in
            if hd src = PT_CONNECT then
              if length src \<le> consumed + 6 then Inr None
              else case slice_range src consumed (consumed + 2) of
                  None \<Rightarrow> Inl Panicked
                | Some len_bytes \<Rightarrow>
                    let protocol_len = be_u16 len_bytes in
                    if protocol_len = 4 then
                      (case slice_range src (consumed + 2) (consumed + 6) of
                         None \<Rightarrow> Inl Panicked
                       | Some name \<Rightarrow>
                           if name \<noteq> MQTT then Inl (Raised InvalidProtocol)
                           else version_level src (consumed + 2 + unat protocol_len))
                    else if protocol_len = 6 then
                      if length src \<le> consumed + 8 then Inr None
                      else (case slice_range src (consumed + 2) (consumed + 8) of
                              None \<Rightarrow> Inl Panicked
                            | Some name \<Rightarrow>
                                if name \<noteq> MQISDP then Inl (Raised InvalidProtocol)
                                else version_level src (consumed + 2 + unat protocol_len))
                    else Inl (Raised InvalidProtocol)
            else Inl (Raised UnsupportedPacketType))"

definition version_encode :: "protocol_version \<Rightarrow> enc" where
  "version_encode v = Inl (Raised EncUnsupportedVersion)"

section \<open>The codec of a connection\<close>

datatype mqtt_codec = MC_V3 v3_codec | MC_V5 v5_codec | MC_Version

datatype mqtt_packet = MP_V3 packet3 | MP_V5 packet5 | MP_Version protocol_version

definition mqtt_encode :: "mqtt_codec \<Rightarrow> mqtt_packet \<Rightarrow> enc" where
  "mqtt_encode codec item =
     (case codec of
        MC_V3 c \<Rightarrow> (case item of MP_V3 p \<Rightarrow> v3_codec_encode p | _ \<Rightarrow> Inl (Raised EncMalformedPacket))
      | MC_V5 c \<Rightarrow> (case item of MP_V5 p \<Rightarrow> v5_codec_encode c p | _ \<Rightarrow> Inl (Raised EncMalformedPacket))
      | MC_Version \<Rightarrow> Inl (Raised EncUnsupportedVersion))"

definition mqtt_decode :: "(bytes \<Rightarrow> bool) \<Rightarrow> mqtt_codec \<Rightarrow> bytes \<Rightarrow>
    (decode_error fault + (mqtt_packet \<times> u32) option) \<times> mqtt_codec \<times> bytes" where
  "mqtt_decode utf8 codec src =
     (case codec of
        MC_V3 c \<Rightarrow>
          (case v3_codec_decode utf8 c src of
             (res, c', src') \<Rightarrow>
               (map_sum id (map_option (\<lambda>(p, remaining). (MP_V3 p, remaining))) res, MC_V3 c', src'))
      | MC_V5 c \<Rightarrow>
          (case v5_codec_decode utf8 c src of
             (res, c', src') \<Rightarrow>
               (map_sum id (map_option (\<lambda>(p, remaining). (MP_V5 p, remaining))) res, MC_V5 c', src'))
      | MC_Version \<Rightarrow>
          (map_sum id (map_option (\<lambda>v. (MP_Version v, 0))) (version_decode src), MC_Version, src))"

section \<open>Facts\<close>

lemma slice_range_Some: "i \<le> j \<Longrightarrow> j \<le> length src \<Longrightarrow> slice_range src i j = Some (take (j - i) (drop i src))"
  by (simp add: slice_range_def)

lemma version_decode_not_panicked: "version_decode src \<noteq> Inl Panicked"
  using decode_variable_length_not_panicked [of "drop 1 src"]
  by (auto simp: version_decode_def version_level_def slice_range_Some index_at_def Let_def
      split: sum.splits option.splits)

text \<open>The version found in a frame whose body starts with the protocol name and a level.\<close>

lemma version_decode_connect:
  assumes "n \<le> MAX_PACKET_SIZE" and "rest = out_bytes MQTT @ level # r"
  shows "version_decode (PT_CONNECT # out_varlen n @ rest)
    = (if level = MQTT_LEVEL_31 \<or> level = MQTT_LEVEL_311 then Inr (Some MQTT3)
       else if level = MQTT_LEVEL_5 then Inr (Some MQTT5) else Inl (Raised InvalidProtocol))"
proof -
  let ?v = "out_varlen n" and ?src = "PT_CONNECT # out_varlen n @ rest"
  have v: "?v \<noteq> []" using assms(1) by simp
  have pre: "drop (length ?v + 1 + k) ?src = drop k rest" for k by simp
  have name: "out_bytes MQTT = [0, 4, 77, 81, 84, 84]"
    by (simp add: out_bytes_def put_u16_def MQTT_def)
  have dvl: "decode_variable_length (drop 1 ?src) = Inr (Some (n, length ?v))"
    using decode_variable_length_out [OF assms(1), of rest] by simp
  have s1: "slice_range ?src (length ?v + 1) (length ?v + 1 + 2) = Some [0, 4]"
    by (simp add: slice_range_def assms(2) name)
  have s2: "slice_range ?src (length ?v + 1 + 2) (length ?v + 1 + 6) = Some MQTT"
    using pre [of 2] by (simp add: slice_range_def assms(2) name) (simp add: MQTT_def)
  have i: "index_at ?src (length ?v + 1 + 2 + 4) = Some level"
    by (simp add: index_at_def assms(2) name nth_append)
  have be: "from_be16 0 4 = 4" by (simp add: from_be16_def)
  show ?thesis
    unfolding version_decode_def dvl
    using v s1 s2 i
    by (simp add: be version_level_def assms(2) name Let_def)
qed

lemma version_decode_v3:
  assumes "length (v3_body (P3_Connect c)) \<le> unat MAX_PACKET_SIZE"
  shows "version_decode (frame_bytes v3_first v3_body (P3_Connect c) @ rest) = Inr (Some MQTT3)"
proof -
  obtain r where r: "v3_body (P3_Connect c) @ rest = out_bytes MQTT @ MQTT_LEVEL_311 # r"
    by (simp add: v3_connect_body_def)
  show ?thesis
    using version_decode_connect [OF word_of_nat_le_MAX [OF assms] r]
    by (simp add: frame_bytes_def v3_first_def)
qed

lemma version_decode_v5:
  assumes "length (v5_body (P5_Connect c)) \<le> unat MAX_PACKET_SIZE"
  shows "version_decode (frame_bytes v5_first v5_body (P5_Connect c) @ rest) = Inr (Some MQTT5)"
proof -
  obtain r where r: "v5_body (P5_Connect c) @ rest = out_bytes MQTT @ MQTT_LEVEL_5 # r"
    by (simp add: connect5_body_def)
  show ?thesis
    using version_decode_connect [OF word_of_nat_le_MAX [OF assms] r]
    by (simp add: frame_bytes_def v5_first_def)
qed

lemma slice_range_append: "slice_range src i j = Some x \<Longrightarrow> slice_range (src @ t) i j = Some x"
  by (auto simp: slice_range_def split: if_splits)

lemma index_at_append: "index_at src i = Some x \<Longrightarrow> index_at (src @ t) i = Some x"
  by (auto simp: index_at_def nth_append split: if_splits)

lemma version_level_append: "version_level src i = Inr v \<Longrightarrow> version_level (src @ t) i = Inr v"
  by (auto simp: version_level_def index_at_append split: option.splits)

lemma version_decode_append:
  assumes "version_decode src = Inr (Some v)"
  shows "version_decode (src @ t) = Inr (Some v)"
proof -
  from assms obtain n k where len: "2 \<le> length src"
    and d: "decode_variable_length (drop 1 src) = Inr (Some (n, k))"
    by (auto simp: version_decode_def split: if_splits sum.splits option.splits)
  have d': "decode_variable_length (drop 1 (src @ t)) = Inr (Some (n, k))"
    using decode_variable_length_append [OF d, of t] len by (simp add: drop1_append)
  have hd: "hd (src @ t) = hd src" using len by (cases src) auto
  show ?thesis
    using assms len unfolding version_decode_def d d' hd
    by (auto simp: Let_def slice_range_append version_level_append split: if_splits option.splits)
qed

section \<open>Properties\<close>

text \<open>The first bytes of a connection: when an MQTT 3.1.1 CONNECT arrives, the codec in the version
  state reports MQTT 3 and consumes nothing, and the version 3 codec then decodes the same CONNECT
  and leaves what follows it.\<close>

theorem handshake_v3:
  assumes "v3_wf utf8 (P3_Connect c)" and "v3_get_encoded_size (P3_Connect c) \<le> unat MAX_PACKET_SIZE"
    and "m = 0 \<or> v3_get_encoded_size (P3_Connect c) \<le> unat m"
  shows "\<exists>bs. mqtt_encode (MC_V3 k) (MP_V3 (P3_Connect c)) = Inr bs \<and>
    mqtt_decode utf8 MC_Version (bs @ rest) = (Inr (Some (MP_Version MQTT3, 0)), MC_Version, bs @ rest) \<and>
    mqtt_decode utf8 (MC_V3 (v3_codec_new m)) (bs @ rest)
      = (Inr (Some (MP_V3 (P3_Connect c), word_of_nat (v3_get_encoded_size (P3_Connect c)))),
         MC_V3 (v3_codec_new m), rest)"
proof -
  let ?p = "P3_Connect c" and ?bs = "frame_bytes v3_first v3_body (P3_Connect c)"
  have len: "length (v3_body ?p) = v3_get_encoded_size ?p" by (simp only: v3_length_body [OF assms(1)])
  have "frame_decode (v3_decode_packet utf8) m FrameHeader (?bs @ rest)
      = (Inr (Some (?p, word_of_nat (v3_get_encoded_size ?p))), FrameHeader, rest)"
    using v3_frames.decode_one [OF assms(1), of m "word_of_nat (v3_get_encoded_size ?p)" rest] assms(2,3) len
    by (simp add: frame_bytes_def del: frame_decode.simps v3_body.simps v3_get_encoded_size.simps)
  then have "v3_codec_decode utf8 (v3_codec_new m) (?bs @ rest)
      = (Inr (Some (?p, word_of_nat (v3_get_encoded_size ?p))), v3_codec_new m, rest)"
    by (simp add: v3_codec_decode_def v3_codec_new_def del: frame_decode.simps v3_get_encoded_size.simps)
  moreover have "version_decode (?bs @ rest) = Inr (Some MQTT3)"
    using assms(2) len by (intro version_decode_v3) simp
  ultimately show ?thesis
    using v3_codec_encode_frame [OF assms(1,2)] by (auto simp: mqtt_encode_def mqtt_decode_def)
qed

definition sample_connect3 :: connect3 where
  "sample_connect3 = \<lparr>c3_protocol = Protocol MQTT_LEVEL_311, c3_clean_session = True, c3_keep_alive = 60, c3_last_will = None,
     c3_client_id = [97], c3_username = None, c3_password = None, c3_cert = None\<rparr>"

theorem handshake_v3_witness:
  "\<exists>bs. mqtt_encode (MC_V3 (v3_codec_new 0)) (MP_V3 (P3_Connect sample_connect3)) = Inr bs \<and>
    mqtt_decode (\<lambda>_. True) MC_Version (bs @ [1]) = (Inr (Some (MP_Version MQTT3, 0)), MC_Version, bs @ [1]) \<and>
    mqtt_decode (\<lambda>_. True) (MC_V3 (v3_codec_new 0)) (bs @ [1])
      = (Inr (Some (MP_V3 (P3_Connect sample_connect3), word_of_nat (v3_get_encoded_size (P3_Connect sample_connect3)))),
         MC_V3 (v3_codec_new 0), [1])"
  by (rule handshake_v3)
    (simp_all add: sample_connect3_def v3_wf_connect_def ok_string_def short_def)

text \<open>The same for MQTT 5: the version state reports MQTT 5 for the CONNECT a version 5 codec writes
  and consumes nothing, and the version 5 codec decodes that CONNECT.\<close>

theorem handshake_v5:
  assumes "v5_wf utf8 (P5_Connect c)" and "mqtt_encode (MC_V5 v5_codec_default) (MP_V5 (P5_Connect c)) = Inr bs"
    and "m = 0 \<or> length bs \<le> unat m"
  shows "mqtt_decode utf8 MC_Version (bs @ rest) = (Inr (Some (MP_Version MQTT5, 0)), MC_Version, bs @ rest) \<and>
    (\<exists>n d. mqtt_decode utf8 (MC_V5 (v5_codec_new m k)) (bs @ rest)
       = (Inr (Some (MP_V5 (P5_Connect c), n)), MC_V5 d, rest))"
proof -
  let ?p = "P5_Connect c" and ?d = v5_codec_default
  have d: "v5c_max_out_size ?d \<le> MAX_PACKET_SIZE" "v5_sent ?d ?p = ?p"
    by (simp_all add: v5_codec_defs v5_sent_def)
  have enc: "v5_codec_encode ?d ?p = Inr bs" using assms(2) by (simp add: mqtt_encode_def)
  note frame = v5_codec_encode_frame [OF assms(1) d(1) v5_codec_encode_over [OF enc]]
  have bs: "bs = frame_bytes v5_first v5_body ?p" using frame(1) enc d by simp
  have le: "length (v5_body ?p) \<le> unat MAX_PACKET_SIZE"
    using frame(3) v5_max_size_le [OF d(1)] d(2) by simp
  have "m = 0 \<or> length (v5_body ?p) \<le> unat m" using assms(3) by (auto simp: bs frame_bytes_def)
  from v5_frame_decode [OF assms(1) le this] version_decode_v5 [OF le] show ?thesis
    by (simp add: bs mqtt_decode_def v5_codec_decode_def v5_codec_new_def del: frame_decode.simps v5_body.simps)
qed

lemma sample_connect_encode:
  "v5_codec_encode v5_codec_default (P5_Connect sample_connect)
     = Inr (frame_bytes v5_first v5_body (P5_Connect sample_connect))"
proof -
  have "connect5_encoded_size sample_connect MAX_PACKET_SIZE = 15"
    by (simp add: connect5_encoded_size_def connect5_properties_len_def sample_connect_def connect5_default_def
        encoded_property_size_def encoded_property_size_default_def encoded_size_user_properties_def
        encoded_size_bytes_def encoded_size_bool_def encoded_size_option_def unat_var_int_len varint_groups_table)
  then show ?thesis
    using v5_codec_encode_frame(1) [of "\<lambda>_. True" "P5_Connect sample_connect" v5_codec_default] sample_connect_wf(1)
    by (simp add: v5_codec_defs v5_sent_def)
qed

theorem handshake_v5_witness:
  "\<exists>bs n d. mqtt_decode (\<lambda>_. True) MC_Version (bs @ [1])
     = (Inr (Some (MP_Version MQTT5, 0)), MC_Version, bs @ [1]) \<and>
   mqtt_decode (\<lambda>_. True) (MC_V5 (v5_codec_new 0 0)) (bs @ [1])
     = (Inr (Some (MP_V5 (P5_Connect sample_connect), n)), MC_V5 d, [1])"
  using handshake_v5 [of "\<lambda>_. True" sample_connect "frame_bytes v5_first v5_body (P5_Connect sample_connect)" 0 "[1]" 0]
    sample_connect_encode sample_connect_wf(1)
  by (simp add: mqtt_encode_def) blast

text \<open>C14. No input and no codec state makes decoding panic, whichever version the connection has.\<close>

theorem mqtt_decode_not_panicked: "fst (mqtt_decode utf8 codec src) \<noteq> Inl Panicked"
proof (cases codec)
  case (MC_V3 c)
  obtain r x where "v3_codec_decode utf8 c src = (r, x)" by (cases "v3_codec_decode utf8 c src")
  with v3_codec_safe [of utf8 c src] MC_V3 show ?thesis
    by (cases r) (auto simp: mqtt_decode_def split: prod.splits)
next
  case (MC_V5 c)
  obtain r x where "v5_codec_decode utf8 c src = (r, x)" by (cases "v5_codec_decode utf8 c src")
  with v5_codec_safe [of utf8 c src] MC_V5 show ?thesis
    by (cases r) (auto simp: mqtt_decode_def split: prod.splits)
next
  case MC_Version
  with version_decode_not_panicked [of src] show ?thesis
    by (cases "version_decode src") (auto simp: mqtt_decode_def)
qed

text \<open>Version detection consumes nothing, and a version that has been detected stays detected when
  more bytes arrive.\<close>

theorem version_detection_stable:
  assumes "mqtt_decode utf8 MC_Version src = (Inr (Some (MP_Version v, n)), codec, rest)"
  shows "codec = MC_Version \<and> rest = src \<and>
    mqtt_decode utf8 MC_Version (src @ t) = (Inr (Some (MP_Version v, n)), MC_Version, src @ t)"
  using assms by (cases "version_decode src") (auto simp: mqtt_decode_def version_decode_append)

theorem version_detection_stable_witness:
  "mqtt_decode (\<lambda>_. True) MC_Version ([0x10, 16, 0, 4, 77, 81, 84, 84, 5] @ [2])
    = (Inr (Some (MP_Version MQTT5, 0)), MC_Version, [0x10, 16, 0, 4, 77, 81, 84, 84, 5] @ [2])"
proof -
  have "version_decode [0x10, 16, 0, 4, 77, 81, 84, 84, 5] = Inr (Some MQTT5)"
    using version_decode_connect [of 16 "[0, 4, 77, 81, 84, 84, 5]" 5 "[]"]
    by (simp add: out_varlen_def write_variable_length_def out_bytes_def MQTT_def put_u16_def)
  then show ?thesis
    by (intro version_detection_stable [THEN conjunct2, THEN conjunct2]) (simp add: mqtt_decode_def)
qed

end
