(* ===== verification/Topic.thy ===== *)
theory Topic
  imports Prelude "HOL-Library.List_Lexorder" "HOL-Library.Char_ord"
begin

text \<open>
  \<open>ferromq/src/topic.rs\<close>: levels, topics and topic filters, their parser and printer, and the wildcard
  matching of \<open>Topic::matches\<close> and \<open>Topic::matches_str\<close>. A Rust string is the list of the bytes of
  its UTF-8 form; the separators and wildcards are ASCII, so splitting and searching are bytewise.

  Shown: parsing and printing are inverse on valid topics, parsing accepts exactly the well-formed
  level lists, and \<open>matches_str\<close> is the matching relation of the MQTT standard (\<open>mqtt_match\<close>) on the
  topics where no other level than the first starts with a dollar sign, except for a filter that starts
  with \<open>+\<close> (which the code lets match a \<open>$\<close> topic in some cases).
\<close>

section \<open>Levels and topics\<close>

datatype topic_error = InvalidTopic string | InvalidLevel string

datatype level = Normal string | Metadata string | Blank | SingleWildcard | MultiWildcard

datatype topic = Topic (levels: "level list")

definition str_is_metadata :: "string \<Rightarrow> bool" where
  "str_is_metadata s = (case s of [] \<Rightarrow> False | c # _ \<Rightarrow> c = CHR ''$'')"

text \<open>\<open>s.contains(['+', '#'])\<close>.\<close>

definition contains_wildcard :: "string \<Rightarrow> bool" where
  "contains_wildcard s = list_ex (\<lambda>c. c = CHR ''+'' \<or> c = CHR ''#'') s"

definition level_from_str :: "string \<Rightarrow> topic_error + level" where
  "level_from_str s =
     (if s = ''+'' then Inr SingleWildcard
      else if s = ''#'' then Inr MultiWildcard
      else if s = [] then Inr Blank
      else if contains_wildcard s then Inl (InvalidLevel (''invalid level `'' @ s @ ''` contains +|#''))
      else if str_is_metadata s then Inr (Metadata s)
      else Inr (Normal s))"

definition level_parse :: "string \<Rightarrow> topic_error + level" where
  "level_parse s = level_from_str s"

definition level_normal :: "string \<Rightarrow> topic_error + level" where
  "level_normal s =
     (if contains_wildcard s then Inl (InvalidLevel (''invalid normal level `'' @ s @ ''` contains +|#''))
      else if str_is_metadata s then Inl (InvalidLevel (''invalid normal level `'' @ s @ ''` starts with $''))
      else Inr (Normal s))"

definition level_metadata :: "string \<Rightarrow> topic_error + level" where
  "level_metadata s =
     (if contains_wildcard s then Inl (InvalidLevel (''invalid metadata level `'' @ s @ ''` contains +|#''))
      else if \<not> str_is_metadata s then Inl (InvalidLevel (''invalid metadata level `'' @ s @ ''` not starts with $''))
      else Inr (Metadata s))"

fun level_value :: "level \<Rightarrow> string option" where
  "level_value (Normal s) = Some s"
| "level_value (Metadata s) = Some s"
| "level_value _ = None"

fun level_is_normal :: "level \<Rightarrow> bool" where
  "level_is_normal (Normal _) = True"
| "level_is_normal _ = False"

fun level_is_metadata :: "level \<Rightarrow> bool" where
  "level_is_metadata (Metadata _) = True"
| "level_is_metadata _ = False"

fun level_is_valid :: "level \<Rightarrow> bool" where
  "level_is_valid (Normal s) = (\<not> str_is_metadata s \<and> \<not> contains_wildcard s)"
| "level_is_valid (Metadata s) = (str_is_metadata s \<and> \<not> contains_wildcard s)"
| "level_is_valid _ = True"

text \<open>\<open>iter.position(p)\<close>: the index of the first element that satisfies \<open>p\<close>.\<close>

fun position :: "('a \<Rightarrow> bool) \<Rightarrow> 'a list \<Rightarrow> nat option" where
  "position p [] = None"
| "position p (x # xs) = (if p x then Some 0 else map_option Suc (position p xs))"

definition topic_is_valid :: "topic \<Rightarrow> bool" where
  "topic_is_valid t =
     ((case position (\<lambda>level. \<not> level_is_valid level) (levels t) of
         Some p \<Rightarrow> Some p
       | None \<Rightarrow>
           position (\<lambda>(pos, level).
               case level of
                 MultiWildcard \<Rightarrow> pos \<noteq> length (levels t) - 1
               | Metadata _ \<Rightarrow> pos \<noteq> 0
               | _ \<Rightarrow> False)
             (zip [0..<length (levels t)] (levels t))) = None)"

section \<open>Parsing and printing\<close>

text \<open>\<open>s.split('/')\<close>.\<close>

fun split_slash :: "string \<Rightarrow> string list" where
  "split_slash [] = [[]]"
| "split_slash (c # cs) =
     (if c = CHR ''/'' then [] # split_slash cs
      else case split_slash cs of [] \<Rightarrow> [[c]] | p # ps \<Rightarrow> (c # p) # ps)"

text \<open>\<open>strings.join("/")\<close>.\<close>

fun join_slash :: "string list \<Rightarrow> string" where
  "join_slash [] = []"
| "join_slash [s] = s"
| "join_slash (s # ss) = s @ CHR ''/'' # join_slash ss"

text \<open>\<open>iter.map(f).collect::<Result<Vec<_>, _>>()\<close>: the first error, or all values.\<close>

fun collect_results :: "('a \<Rightarrow> 'e + 'b) \<Rightarrow> 'a list \<Rightarrow> 'e + 'b list" where
  "collect_results f [] = Inr []"
| "collect_results f (x # xs) =
     (case f x of Inl e \<Rightarrow> Inl e
      | Inr y \<Rightarrow> (case collect_results f xs of Inl e \<Rightarrow> Inl e | Inr ys \<Rightarrow> Inr (y # ys)))"

definition topic_from_str :: "string \<Rightarrow> topic_error + topic" where
  "topic_from_str s =
     (case collect_results level_from_str (split_slash s) of
        Inl e \<Rightarrow> Inl e
      | Inr ls \<Rightarrow>
          let topic = Topic ls
          in if topic_is_valid topic then Inr topic
             else Inl (InvalidTopic (''invalid topic `'' @ s @ ''`'')))"

fun level_to_string :: "level \<Rightarrow> string" where
  "level_to_string (Normal s) = s"
| "level_to_string (Metadata s) = s"
| "level_to_string Blank = []"
| "level_to_string SingleWildcard = ''+''"
| "level_to_string MultiWildcard = ''#''"

fun topic_fmt :: "bool \<Rightarrow> level list \<Rightarrow> string" where
  "topic_fmt first [] = []"
| "topic_fmt first (l # ls) = (if first then [] else ''/'') @ level_to_string l @ topic_fmt False ls"

definition topic_to_string :: "topic \<Rightarrow> string" where
  "topic_to_string t = topic_fmt True (levels t)"

definition to_string_skip :: "topic \<Rightarrow> nat \<Rightarrow> string" where
  "to_string_skip t skip = join_slash (map level_to_string (drop skip (levels t)))"

text \<open>
  \<open>write_level\<close> and \<open>write_topic\<close> on a writer that takes every byte (such as \<open>Vec<u8>\<close>): what is
  appended, and the count that is returned.
\<close>

definition write_level :: "level \<Rightarrow> string \<Rightarrow> nat \<times> string" where
  "write_level l out = (let s = level_to_string l in (length s, out @ s))"

fun write_levels :: "bool \<Rightarrow> nat \<Rightarrow> level list \<Rightarrow> string \<Rightarrow> nat \<times> string" where
  "write_levels first n [] out = (n, out)"
| "write_levels first n (l # ls) out =
     (let (n, out) = (if first then (n, out) else (n + 1, out @ ''/''));
          (k, out) = write_level l out
      in write_levels False (n + k) ls out)"

definition write_topic :: "topic \<Rightarrow> string \<Rightarrow> nat \<times> string" where
  "write_topic t out = write_levels True 0 (levels t) out"

section \<open>Matching\<close>

text \<open>\<open>MatchLevel\<close> for a level and for a string.\<close>

definition level_match_level :: "level \<Rightarrow> level \<Rightarrow> bool" where
  "level_match_level self level =
     (case level of
        Normal lhs \<Rightarrow> (case self of Normal rhs \<Rightarrow> lhs = rhs | _ \<Rightarrow> False)
      | Metadata lhs \<Rightarrow> (case self of Metadata rhs \<Rightarrow> lhs = rhs | _ \<Rightarrow> False)
      | Blank \<Rightarrow> True
      | SingleWildcard \<Rightarrow> \<not> level_is_metadata self
      | MultiWildcard \<Rightarrow> \<not> level_is_metadata self)"

definition str_match_level :: "string \<Rightarrow> level \<Rightarrow> bool" where
  "str_match_level self level =
     (case level of
        Normal lhs \<Rightarrow> \<not> str_is_metadata self \<and> lhs = self
      | Metadata lhs \<Rightarrow> str_is_metadata self \<and> lhs = self
      | Blank \<Rightarrow> self = []
      | SingleWildcard \<Rightarrow> \<not> str_is_metadata self
      | MultiWildcard \<Rightarrow> \<not> str_is_metadata self)"

text \<open>The macro \<open>matches!\<close>: the loop over the right-hand levels, and what follows it.\<close>

fun matches_end :: "level list \<Rightarrow> bool" where
  "matches_end (MultiWildcard # _) = True"
| "matches_end (_ # _) = False"
| "matches_end [] = True"

fun matches_loop :: "('r \<Rightarrow> level \<Rightarrow> bool) \<Rightarrow> level list \<Rightarrow> 'r list \<Rightarrow> bool" where
  "matches_loop match_level lhs [] = matches_end lhs"
| "matches_loop match_level lhs (rhs # rest) =
     (case lhs of
        SingleWildcard # ls \<Rightarrow>
          (if \<not> match_level rhs SingleWildcard then matches_end ls else matches_loop match_level ls rest)
      | MultiWildcard # ls \<Rightarrow> match_level rhs MultiWildcard
      | level # ls \<Rightarrow> (if match_level rhs level then matches_loop match_level ls rest else False)
      | [] \<Rightarrow> False)"

definition topic_matches :: "topic \<Rightarrow> topic \<Rightarrow> bool" where
  "topic_matches filter_topic t = matches_loop level_match_level (levels filter_topic) (levels t)"

definition topic_matches_str :: "topic \<Rightarrow> string \<Rightarrow> bool" where
  "topic_matches_str filter_topic s = matches_loop str_match_level (levels filter_topic) (split_slash s)"

section \<open>The order of levels\<close>

text \<open>The derived \<open>Ord\<close>: by constructor, then by string.\<close>

fun level_rank :: "level \<Rightarrow> nat" where
  "level_rank (Normal _) = 0"
| "level_rank (Metadata _) = 1"
| "level_rank Blank = 2"
| "level_rank SingleWildcard = 3"
| "level_rank MultiWildcard = 4"

definition level_cmp :: "level \<Rightarrow> level \<Rightarrow> bool" where
  "level_cmp a b \<longleftrightarrow>
     level_rank a < level_rank b \<or>
     level_rank a = level_rank b \<and> level_to_string a \<le> level_to_string b"

lemma level_cmp_antisym: "level_cmp a b \<Longrightarrow> level_cmp b a \<Longrightarrow> a = b"
  by (cases a; cases b) (auto simp: level_cmp_def)

instantiation level :: linorder
begin

definition less_eq_level :: "level \<Rightarrow> level \<Rightarrow> bool" where
  "less_eq_level a b = level_cmp a b"

definition less_level :: "level \<Rightarrow> level \<Rightarrow> bool" where
  "less_level a b = (level_cmp a b \<and> \<not> level_cmp b a)"

instance
proof
  fix a b c :: level
  show "a < b \<longleftrightarrow> a \<le> b \<and> \<not> b \<le> a" by (simp add: less_level_def less_eq_level_def)
  show "a \<le> a" by (simp add: less_eq_level_def level_cmp_def)
  show "a \<le> b \<Longrightarrow> b \<le> c \<Longrightarrow> a \<le> c" by (auto simp: less_eq_level_def level_cmp_def)
  show "a \<le> b \<Longrightarrow> b \<le> a \<Longrightarrow> a = b" by (simp add: less_eq_level_def level_cmp_antisym)
  show "a \<le> b \<or> b \<le> a" by (auto simp: less_eq_level_def level_cmp_def)
qed

end

section \<open>Valid topics\<close>

lemma position_None: "position p xs = None \<longleftrightarrow> (\<forall>x \<in> set xs. \<not> p x)"
  by (induction xs) auto

text \<open>What the levels after the first must satisfy.\<close>

fun inner_ok :: "level list \<Rightarrow> bool" where
  "inner_ok [] = True"
| "inner_ok (l # ls) =
     (level_is_valid l \<and> \<not> level_is_metadata l \<and> (l = MultiWildcard \<longrightarrow> ls = []) \<and> inner_ok ls)"

fun levels_ok :: "level list \<Rightarrow> bool" where
  "levels_ok [] = True"
| "levels_ok (l # ls) = (level_is_valid l \<and> (l = MultiWildcard \<longrightarrow> ls = []) \<and> inner_ok ls)"

lemma inner_ok_nth:
  "inner_ok ls \<longleftrightarrow>
     (\<forall>l \<in> set ls. level_is_valid l) \<and>
     (\<forall>i < length ls. \<not> level_is_metadata (ls ! i) \<and> (ls ! i = MultiWildcard \<longrightarrow> Suc i = length ls))"
  by (induction ls) (auto simp: All_less_Suc2)

lemma levels_ok_nth:
  "levels_ok ls \<longleftrightarrow>
     (\<forall>l \<in> set ls. level_is_valid l) \<and>
     (\<forall>i < length ls. (level_is_metadata (ls ! i) \<longrightarrow> i = 0) \<and> (ls ! i = MultiWildcard \<longrightarrow> Suc i = length ls))"
  by (cases ls) (auto simp: inner_ok_nth All_less_Suc2)

lemma level_bad_position:
  "(case level of MultiWildcard \<Rightarrow> pos \<noteq> n | Metadata _ \<Rightarrow> pos \<noteq> 0 | _ \<Rightarrow> False)
     \<longleftrightarrow> level = MultiWildcard \<and> pos \<noteq> n \<or> level_is_metadata level \<and> pos \<noteq> (0 :: nat)"
  by (cases level) auto

lemma option_or_else_None: "(case a of Some p \<Rightarrow> Some p | None \<Rightarrow> b) = None \<longleftrightarrow> a = None \<and> b = None"
  by (cases a) auto

lemma ball_enumerate:
  "(\<forall>x \<in> set (zip [0..<length ls] ls). P x) \<longleftrightarrow> (\<forall>i < length ls. P (i, ls ! i))"
  by (force simp: set_zip)

lemma topic_is_valid_levels: "topic_is_valid t = levels_ok (levels t)"
proof -
  have last: "i < n \<Longrightarrow> i = n - Suc 0 \<longleftrightarrow> Suc i = n" for i n :: nat by linarith
  show ?thesis
    unfolding topic_is_valid_def option_or_else_None position_None level_bad_position levels_ok_nth
      ball_enumerate
    by (auto simp: last)
qed

section \<open>Parsing and printing are inverse\<close>

lemma split_slash_not_Nil [simp]: "split_slash s \<noteq> []"
  by (induction s) (auto split: list.splits)

lemma join_slash_Cons: "ss \<noteq> [] \<Longrightarrow> join_slash (s # ss) = s @ CHR ''/'' # join_slash ss"
  by (cases ss) auto

lemma join_split: "join_slash (split_slash s) = s"
proof (induction s)
  case (Cons c cs)
  obtain p ps where "split_slash cs = p # ps" by (cases "split_slash cs") auto
  with Cons show ?case by (cases ps) (auto simp: join_slash_Cons)
qed simp

lemma split_slash_append:
  "CHR ''/'' \<notin> set s \<Longrightarrow> split_slash (s @ CHR ''/'' # t) = s # split_slash t"
  by (induction s) auto

lemma split_slash_one: "CHR ''/'' \<notin> set s \<Longrightarrow> split_slash s = [s]"
  by (induction s) auto

lemma split_join:
  "ss \<noteq> [] \<Longrightarrow> (\<And>s. s \<in> set ss \<Longrightarrow> CHR ''/'' \<notin> set s) \<Longrightarrow> split_slash (join_slash ss) = ss"
  by (induction ss rule: join_slash.induct) (auto simp: split_slash_one split_slash_append)

lemma split_slash_parts: "p \<in> set (split_slash s) \<Longrightarrow> CHR ''/'' \<notin> set p"
proof (induction s arbitrary: p)
  case (Cons c cs)
  obtain q qs where "split_slash cs = q # qs" by (cases "split_slash cs") auto
  with Cons show ?case by (auto split: if_splits)
qed simp

lemma topic_fmt_join: "topic_fmt True ls = join_slash (map level_to_string ls)"
proof -
  have False_fmt: "topic_fmt False ls = (if ls = [] then [] else CHR ''/'' # join_slash (map level_to_string ls))" for ls
    by (induction ls) (auto simp: join_slash_Cons)
  show ?thesis by (cases ls) (auto simp: False_fmt join_slash_Cons)
qed

text \<open>A level that the parser can produce.\<close>

definition level_canonical :: "level \<Rightarrow> bool" where
  "level_canonical l \<longleftrightarrow> level_is_valid l \<and> l \<noteq> Normal [] \<and> CHR ''/'' \<notin> set (level_to_string l)"

lemma level_from_str_Inr:
  assumes "CHR ''/'' \<notin> set s"
  shows "level_from_str s = Inr l \<longleftrightarrow> level_canonical l \<and> level_to_string l = s"
  using assms
  by (cases l) (auto simp: level_from_str_def level_canonical_def contains_wildcard_def str_is_metadata_def split: if_splits)

lemma collect_results_Inr:
  "collect_results f xs = Inr ys \<longleftrightarrow> list_all2 (\<lambda>x y. f x = Inr y) xs ys"
proof (induction xs arbitrary: ys)
  case (Cons x xs)
  show ?case
    by (cases ys; cases "f x"; cases "collect_results f xs") (auto simp: Cons.IH [symmetric])
qed auto

lemma collect_levels:
  "collect_results level_from_str (split_slash s) = Inr ls \<longleftrightarrow>
     ls \<noteq> [] \<and> list_all level_canonical ls \<and> join_slash (map level_to_string ls) = s"
    (is "?L \<longleftrightarrow> ?R")
proof
  assume L: ?L
  then have all: "list_all2 (\<lambda>p l. level_canonical l \<and> level_to_string l = p) (split_slash s) ls"
    unfolding collect_results_Inr
    by (rule list.rel_mono_strong) (metis level_from_str_Inr split_slash_parts)
  then have "map level_to_string ls = split_slash s"
    by (auto simp: list_all2_conv_all_nth intro: nth_equalityI)
  moreover from this have "ls \<noteq> []" by (metis list.simps(8) split_slash_not_Nil)
  ultimately show ?R
    using all by (auto simp: join_split list_all2_conv_all_nth list_all_length)
next
  assume R: ?R
  then have "split_slash s = map level_to_string ls"
    by (auto simp: list_all_iff level_canonical_def intro!: split_join)
  with R show ?L
    by (auto simp: collect_results_Inr list.rel_map list_all_iff level_canonical_def level_from_str_Inr
        intro!: list.rel_refl_strong)
qed

section \<open>Matching is the matching of the standard\<close>

text \<open>
  The reference, section 4.7 of the standard, on the levels of a filter and of a topic name: a literal
  level equals the level of the topic, \<open>+\<close> stands for one level, \<open>#\<close> for any number of further levels,
  including none; a wildcard at the start does not match a topic that starts with a dollar sign.
\<close>

fun level_accepts :: "level \<Rightarrow> string \<Rightarrow> bool" where
  "level_accepts (Normal s) t = (s = t)"
| "level_accepts (Metadata s) t = (s = t)"
| "level_accepts Blank t = (t = [])"
| "level_accepts SingleWildcard t = True"
| "level_accepts MultiWildcard t = False"

fun levels_match :: "level list \<Rightarrow> string list \<Rightarrow> bool" where
  "levels_match [] ts = (ts = [])"
| "levels_match [MultiWildcard] ts = True"
| "levels_match (l # ls) [] = False"
| "levels_match (l # ls) (t # ts) = (level_accepts l t \<and> levels_match ls ts)"

definition is_wildcard :: "level \<Rightarrow> bool" where
  "is_wildcard l \<longleftrightarrow> l = SingleWildcard \<or> l = MultiWildcard"

definition mqtt_match :: "level list \<Rightarrow> string list \<Rightarrow> bool" where
  "mqtt_match ls ts \<longleftrightarrow>
     levels_match ls ts \<and> \<not> (ls \<noteq> [] \<and> ts \<noteq> [] \<and> is_wildcard (hd ls) \<and> str_is_metadata (hd ts))"

lemma levels_match_Nil: "inner_ok ls \<Longrightarrow> levels_match ls [] = matches_end ls"
  by (cases ls; cases "hd ls"; cases "tl ls") auto

lemma str_match_level_accepts:
  assumes "level_is_valid l" and "l \<noteq> MultiWildcard" and "is_wildcard l \<Longrightarrow> \<not> str_is_metadata t"
  shows "str_match_level t l = level_accepts l t"
  using assms by (cases l) (auto simp: str_match_level_def is_wildcard_def)

lemma matches_loop_inner:
  assumes "inner_ok ls" and "list_all (\<lambda>t. \<not> str_is_metadata t) ts"
  shows "matches_loop str_match_level ls ts = levels_match ls ts"
  using assms
proof (induction ts arbitrary: ls)
  case Nil
  then show ?case by (simp add: levels_match_Nil)
next
  case (Cons t ts)
  show ?case
  proof (cases ls)
    case (Cons l ls')
    with Cons.prems Cons.IH [of ls'] show ?thesis
      using str_match_level_accepts [of l t]
      by (cases l; cases ls') (auto simp: str_match_level_def is_wildcard_def)
  qed simp
qed


lemma matches_str_levels:
  assumes "levels_ok ls" and "list_all (\<lambda>t. \<not> str_is_metadata t) (tl ts)" and "ts \<noteq> []"
    and "str_is_metadata (hd ts) \<Longrightarrow> ls \<noteq> [] \<Longrightarrow> hd ls \<noteq> SingleWildcard"
  shows "matches_loop str_match_level ls ts = mqtt_match ls ts"
proof -
  obtain t ts' where ts: "ts = t # ts'" using assms(3) by (cases ts) auto
  show ?thesis
  proof (cases ls)
    case (Cons l ls')
    have inner: "matches_loop str_match_level ls' ts' = levels_match ls' ts'"
      using assms(1,2) Cons ts by (intro matches_loop_inner) auto
    show ?thesis
    proof (cases "is_wildcard l")
      case True
      with assms(1,4) Cons ts inner show ?thesis
        by (cases ls') (auto simp: is_wildcard_def mqtt_match_def str_match_level_def)
    next
      case False
      then have "levels_match ls ts = (level_accepts l t \<and> levels_match ls' ts')"
        using Cons ts by (cases l) (auto simp: is_wildcard_def)
      moreover have "str_match_level t l = level_accepts l t"
        using False assms(1) Cons by (intro str_match_level_accepts) (auto simp: is_wildcard_def)
      moreover have "matches_loop str_match_level ls ts
          = (str_match_level t l \<and> matches_loop str_match_level ls' ts')"
        using False Cons ts by (cases l) (auto simp: is_wildcard_def)
      ultimately show ?thesis using inner False Cons by (simp add: mqtt_match_def)
    qed
  qed (simp add: ts mqtt_match_def)
qed

text \<open>Matching a parsed topic and matching its string.\<close>

lemma level_match_parsed:
  assumes "level_canonical l" and "l \<noteq> Blank" and "level_canonical r"
  shows "level_match_level r l = str_match_level (level_to_string r) l"
  using assms
  by (cases l; cases r)
    (auto simp: level_match_level_def str_match_level_def level_canonical_def contains_wildcard_def
      str_is_metadata_def)

lemma matches_loop_parsed:
  assumes "list_all level_canonical ls" and "Blank \<notin> set ls" and "list_all level_canonical rs"
  shows "matches_loop level_match_level ls rs = matches_loop str_match_level ls (map level_to_string rs)"
  using assms
proof (induction rs arbitrary: ls)
  case (Cons r rs)
  show ?case
  proof (cases ls)
    case (Cons l ls')
    with Cons.prems level_match_parsed [of l r] Cons.IH [of ls'] show ?thesis
      by (cases l) auto
  qed simp
qed simp

lemma topic_from_str_levels:
  "topic_from_str s = Inr t \<longleftrightarrow>
     topic_is_valid t \<and> levels t \<noteq> [] \<and> list_all level_canonical (levels t) \<and> topic_to_string t = s"
  by (cases t; cases "collect_results level_from_str (split_slash s)")
    (auto simp: topic_from_str_def Let_def collect_levels [symmetric] topic_to_string_def topic_fmt_join)

lemma split_to_string:
  "levels t \<noteq> [] \<Longrightarrow> list_all level_canonical (levels t) \<Longrightarrow>
     split_slash (topic_to_string t) = map level_to_string (levels t)"
  by (auto simp: topic_to_string_def topic_fmt_join list_all_iff level_canonical_def intro!: split_join)

lemma write_levels_fmt:
  "write_levels first n ls out = (n + length (topic_fmt first ls), out @ topic_fmt first ls)"
  by (induction first n ls out rule: write_levels.induct) (auto simp: write_level_def Let_def)

text \<open>An empty level of a filter matches every level of a parsed topic.\<close>

lemma blank_matches_any_level:
  "topic_matches (Topic (Blank # ls)) (Topic (r # rs)) = topic_matches (Topic ls) (Topic rs)"
  by (simp add: topic_matches_def level_match_level_def)

section \<open>Properties\<close>

text \<open>C37. Parsing is the inverse of printing: a string parses to a topic exactly when it is the text of
  that topic and the topic is valid, has at least one level and only levels the parser produces.\<close>

theorem topic_parse_print:
  "topic_from_str s = Inr t \<longleftrightarrow>
     topic_is_valid t \<and> levels t \<noteq> [] \<and> list_all level_canonical (levels t) \<and> topic_to_string t = s"
  by (rule topic_from_str_levels)

text \<open>A filter matches a topic string as the standard says, when no level of the topic after the
  first starts with a dollar sign and the filter does not start with \<open>+\<close> on a topic that does.\<close>

theorem topic_matches_str_standard:
  assumes "topic_is_valid f" and "list_all (\<lambda>t. \<not> str_is_metadata t) (tl (split_slash s))"
    and "str_is_metadata (hd (split_slash s)) \<Longrightarrow> levels f \<noteq> [] \<Longrightarrow> hd (levels f) \<noteq> SingleWildcard"
  shows "topic_matches_str f s = mqtt_match (levels f) (split_slash s)"
  using assms unfolding topic_matches_str_def
  by (intro matches_str_levels) (simp_all add: topic_is_valid_levels)

theorem topic_matches_str_standard_witness:
  "topic_matches_str (Topic [Normal ''sport'', SingleWildcard, MultiWildcard]) ''sport/tennis''"
  using topic_matches_str_standard [of "Topic [Normal ''sport'', SingleWildcard, MultiWildcard]" "''sport/tennis''"]
  by (simp add: topic_is_valid_levels contains_wildcard_def str_is_metadata_def mqtt_match_def is_wildcard_def)

text \<open>For a parsed filter without empty levels, matching a parsed topic is the same as matching the
  string it was parsed from.\<close>

theorem topic_matches_parsed:
  assumes "topic_from_str fs = Inr f" and "topic_from_str s = Inr t" and "Blank \<notin> set (levels f)"
  shows "topic_matches f t = topic_matches_str f s"
proof -
  have "split_slash s = map level_to_string (levels t)"
    using assms(2) split_to_string [of t] by (auto simp: topic_from_str_levels)
  then show ?thesis
    using assms matches_loop_parsed [of "levels f" "levels t"]
    by (simp add: topic_matches_def topic_matches_str_def topic_from_str_levels)
qed

theorem topic_matches_parsed_witness:
  "topic_matches (Topic [SingleWildcard, Normal ''b'']) (Topic [Normal ''a'', Normal ''b''])
     = topic_matches_str (Topic [SingleWildcard, Normal ''b'']) ''a/b''"
  by (rule topic_matches_parsed [of "''+/b''"])
    (simp_all add: topic_from_str_def level_from_str_def contains_wildcard_def str_is_metadata_def
      topic_is_valid_def)

text \<open>Writing a topic to a buffer appends its text and returns the number of bytes written, and
  the text that skips \<open>n\<close> levels is the text of the remaining levels.\<close>

theorem write_topic_text:
  "write_topic t out = (length (topic_to_string t), out @ topic_to_string t) \<and>
   to_string_skip t n = topic_to_string (Topic (drop n (levels t)))"
  by (simp add: write_topic_def write_levels_fmt topic_to_string_def to_string_skip_def topic_fmt_join)

text \<open>A filter that starts with \<open>+\<close> and a topic that starts with a dollar sign: the loop is left at
  the first level, and the topic matches whenever nothing or a \<open>#\<close> follows the \<open>+\<close>, where the
  standard forbids a match.\<close>

theorem plus_matches_dollar_topic:
  assumes "str_is_metadata (hd (split_slash s))"
  shows "topic_matches_str (Topic (SingleWildcard # ls)) s = matches_end ls \<and>
    \<not> mqtt_match (SingleWildcard # ls) (split_slash s)"
  using assms
  by (cases "split_slash s") (auto simp: topic_matches_str_def str_match_level_def mqtt_match_def is_wildcard_def)

theorem plus_matches_dollar_topic_witness:
  "topic_matches_str (Topic [SingleWildcard, MultiWildcard]) ''$SYS/x'' \<and>
   \<not> mqtt_match [SingleWildcard, MultiWildcard] (split_slash ''$SYS/x'')"
  using plus_matches_dollar_topic [of "''$SYS/x''" "[MultiWildcard]"] by (simp add: str_is_metadata_def)

end
