(* ===== verification/Trie.thy ===== *)
theory Trie
  imports Topic "HOL-Library.AList"
begin

text \<open>
  \<open>ferromq/src/trie.rs\<close>: the topic tree that holds subscriptions, retained topics and access rules. A
  node has a sorted set of values (\<open>BTreeSet\<close>, here the sorted list of its elements) and branches
  (\<open>HashMap<Level, Node>\<close>, here an association list in the order in which the map iterates).

  Matching is an iterator with a state of its own: \<open>mi_next\<close> is \<open>MatchedIter::next\<close>, with the pending
  items, the pending sub-iterators and the path that \<open>prepare\<close> expands at the first call.

  Shown: insertion and removal change the values of exactly one filter, the tree stays well-formed and
  free of dead branches; the iterator ends and yields exactly the stored filters that match the topic
  by the MQTT rules, with their values.
\<close>

section \<open>Nodes\<close>

datatype 'v node = Node (node_values: "'v list") (node_branches: "(level \<times> 'v node) list")

definition node_default :: "'v node" where
  "node_default = Node [] []"

text \<open>\<open>BTreeSet::insert\<close> and \<open>BTreeSet::remove\<close> tell whether the set has changed.\<close>

fun set_insert :: "'v::linorder \<Rightarrow> 'v list \<Rightarrow> bool \<times> 'v list" where
  "set_insert v [] = (True, [v])"
| "set_insert v (x # xs) =
     (if v = x then (False, x # xs)
      else if v < x then (True, v # x # xs)
      else (case set_insert v xs of (b, ys) \<Rightarrow> (b, x # ys)))"

definition set_remove :: "'v \<Rightarrow> 'v list \<Rightarrow> bool \<times> 'v list" where
  "set_remove v xs = (v \<in> set xs, removeAll v xs)"

fun node_insert_path :: "level list \<Rightarrow> 'v::linorder \<Rightarrow> 'v node \<Rightarrow> bool \<times> 'v node" where
  "node_insert_path [] value (Node vs bs) =
     (case set_insert value vs of (res, vs') \<Rightarrow> (res, Node vs' bs))"
| "node_insert_path (first # path) value (Node vs bs) =
     (case node_insert_path path value
             (case map_of bs first of None \<Rightarrow> node_default | Some n \<Rightarrow> n) of
        (res, n') \<Rightarrow> (res, Node vs (AList.update first n' bs)))"

text \<open>The source reverses the levels and pops them from the end, so that they are taken in order.\<close>

definition node_insert :: "topic \<Rightarrow> 'v::linorder \<Rightarrow> 'v node \<Rightarrow> bool \<times> 'v node" where
  "node_insert topic_filter value n = node_insert_path (levels topic_filter) value n"

fun node_remove_path :: "level list \<Rightarrow> 'v \<Rightarrow> 'v node \<Rightarrow> bool \<times> 'v node" where
  "node_remove_path [] value (Node vs bs) =
     (case set_remove value vs of (res, vs') \<Rightarrow> (res, Node vs' bs))"
| "node_remove_path (t # path) value (Node vs bs) =
     (case map_of bs t of
        Some x \<Rightarrow>
          (case node_remove_path path value x of
             (res, x') \<Rightarrow>
               if node_values x' = [] \<and> node_branches x' = [] then (res, Node vs (AList.delete t bs))
               else (res, Node vs (AList.update t x' bs)))
      | None \<Rightarrow> (False, Node vs bs))"

definition node_remove :: "topic \<Rightarrow> 'v \<Rightarrow> 'v node \<Rightarrow> bool \<times> 'v node" where
  "node_remove topic_filter value n = node_remove_path (levels topic_filter) value n"

fun values_size :: "'v node \<Rightarrow> nat" where
  "values_size (Node vs bs) = length vs + sum_list (map (\<lambda>(_, n). values_size n) bs)"

fun nodes_size :: "'v node \<Rightarrow> nat" where
  "nodes_size (Node vs bs) = length bs + sum_list (map (\<lambda>(_, n). nodes_size n) bs)"

definition node_child :: "'v node \<Rightarrow> level \<Rightarrow> 'v node option" where
  "node_child n l = map_of (node_branches n) l"

section \<open>Matching\<close>

type_synonym 'v item = "level list \<times> 'v list"

datatype 'v matched_iter =
  MatchedIter (mi_node: "'v node") (mi_path: "level list") (mi_sub_path: "level list option")
    (mi_curr_items: "'v item list") (mi_sub_iters: "'v matched_iter list")

definition mi_new :: "'v node \<Rightarrow> level list \<Rightarrow> level list \<Rightarrow> 'v matched_iter" where
  "mi_new node path sub_path = MatchedIter node path (Some sub_path) [] []"

text \<open>\<open>add_to_items\<close>: an empty set is not an item.\<close>

definition add_to_items :: "level list \<Rightarrow> 'v list \<Rightarrow> 'v item list \<Rightarrow> 'v item list" where
  "add_to_items ls v_set items = (if v_set \<noteq> [] then items @ [(ls, v_set)] else items)"

text \<open>The items that the branch \<open>#\<close> of a node adds.\<close>

definition add_multi :: "'v node \<Rightarrow> level list \<Rightarrow> 'v item list \<Rightarrow> 'v item list" where
  "add_multi node sub_path items =
     (case map_of (node_branches node) MultiWildcard of
        Some b_node \<Rightarrow>
          if node_values b_node \<noteq> [] then add_to_items (sub_path @ [MultiWildcard]) (node_values b_node) items
          else items
      | None \<Rightarrow> items)"

definition has_key :: "'v node \<Rightarrow> level \<Rightarrow> bool" where
  "has_key node l = (map_of (node_branches node) l \<noteq> None)"

definition wildcards_allowed :: "'v node \<Rightarrow> level \<Rightarrow> level list \<Rightarrow> bool" where
  "wildcards_allowed node l sub_path \<longleftrightarrow>
     \<not> (sub_path = [] \<and> l \<noteq> Blank \<and> level_is_metadata l
         \<and> (has_key node MultiWildcard \<or> has_key node SingleWildcard))"

text \<open>A sub-iterator for a branch, if the node has it.\<close>

definition sub_iter :: "'v node \<Rightarrow> level \<Rightarrow> level list \<Rightarrow> level list \<Rightarrow> 'v matched_iter list" where
  "sub_iter node l path sub_path =
     (case map_of (node_branches node) l of
        Some b_node \<Rightarrow> [mi_new b_node path (sub_path @ [l])]
      | None \<Rightarrow> [])"

fun mi_prepare :: "'v matched_iter \<Rightarrow> 'v matched_iter option" where
  "mi_prepare (MatchedIter node path None items subs) = None"
| "mi_prepare (MatchedIter node [] (Some sub_path) items subs) =
     Some (MatchedIter node [] None
       (add_to_items sub_path (node_values node) (add_multi node sub_path items)) subs)"
| "mi_prepare (MatchedIter node (l # ls) (Some sub_path) items subs) =
     Some (if wildcards_allowed node l sub_path
           then MatchedIter node (l # ls) None (add_multi node sub_path items)
                  (subs @ sub_iter node SingleWildcard ls sub_path @ sub_iter node l ls sub_path)
           else MatchedIter node (l # ls) None items (subs @ sub_iter node l ls sub_path))"

text \<open>
  A measure for the recursion: what an iterator can still expand. A call of \<open>next\<close> on an iterator with
  \<open>n\<close> levels left creates at most two iterators with \<open>n - 1\<close> levels left.
\<close>

fun expansion :: "nat \<Rightarrow> nat" where
  "expansion 0 = 1"
| "expansion (Suc n) = 3 + 2 * expansion n"

fun mi_size :: "'v matched_iter \<Rightarrow> nat" where
  "mi_size (MatchedIter node path sub_path items subs) =
     1 + (case sub_path of None \<Rightarrow> 0 | Some _ \<Rightarrow> expansion (length path)) + sum_list (map mi_size subs)"

lemma update_same: "map_of xs k = Some v \<Longrightarrow> AList.update k v xs = xs"
  by (induction xs) auto

lemma mi_size_pos [simp]: "0 < mi_size it"
  by (cases it) simp

lemma sub_iter_size: "sum_list (map mi_size (sub_iter node l path sub)) \<le> 1 + expansion (length path)"
  by (auto simp: sub_iter_def mi_new_def split: option.splits)

lemma mi_prepare_size:
  "mi_prepare it = Some it' \<Longrightarrow> mi_sub_iters it = [] \<Longrightarrow> mi_size it' < mi_size it"
proof (induction it rule: mi_prepare.induct)
  case (3 node l ls sub_path items subs)
  then show ?case
    using sub_iter_size [of node SingleWildcard ls sub_path] sub_iter_size [of node l ls sub_path]
    by (auto split: if_splits)
qed auto

text \<open>
  \<open>next_item\<close> pops the last item, or takes the next item of the first sub-iterator that has one and
  drops the exhausted ones before it. \<open>next\<close> tries that, prepares if that has not been done, and tries
  again. When \<open>next_item\<close> has found nothing, no items and no sub-iterators are left.
\<close>

function (sequential) mi_next :: "'v matched_iter \<Rightarrow> 'v item option \<times> 'v matched_iter"
  and mi_next_item :: "'v matched_iter \<Rightarrow> 'v item option \<times> 'v matched_iter"
  and mi_next_sub :: "'v matched_iter list \<Rightarrow> 'v item option \<times> 'v matched_iter list" where
  "mi_next it =
     (case mi_next_item it of
        (Some x, it') \<Rightarrow> (Some x, it')
      | (None, _) \<Rightarrow>
          (let it' = MatchedIter (mi_node it) (mi_path it) (mi_sub_path it) [] []
           in case mi_prepare it' of None \<Rightarrow> (None, it') | Some it'' \<Rightarrow> mi_next_item it''))"
| "mi_next_item (MatchedIter node path sub_path items subs) =
     (if items \<noteq> [] then (Some (last items), MatchedIter node path sub_path (butlast items) subs)
      else case mi_next_sub subs of (r, subs') \<Rightarrow> (r, MatchedIter node path sub_path items subs'))"
| "mi_next_sub [] = (None, [])"
| "mi_next_sub (s # ss) =
     (case mi_next s of
        (Some x, s') \<Rightarrow> (Some x, s' # ss)
      | (None, _) \<Rightarrow> mi_next_sub ss)"
  by pat_completeness auto
termination
proof (relation "measure (\<lambda>x. case x of
    Inl it \<Rightarrow> 3 * mi_size it + 2
  | Inr (Inl it) \<Rightarrow> 3 * mi_size it + 1
  | Inr (Inr ss) \<Rightarrow> 3 * sum_list (map mi_size ss) + 3)", goal_cases)
  case (3 it a b x it')
  then show ?case
    using mi_prepare_size [of "MatchedIter (mi_node it) (mi_path it) (mi_sub_path it) [] []"]
    by (cases it) (fastforce split: option.splits)
qed auto

declare mi_next.simps [simp del] mi_next_item.simps [simp del] mi_next_sub.simps [simp del]

definition node_matches :: "'v node \<Rightarrow> topic \<Rightarrow> 'v matched_iter" where
  "node_matches n t = mi_new n (levels t) []"

definition node_is_match :: "'v node \<Rightarrow> topic \<Rightarrow> bool" where
  "node_is_match n t = (fst (mi_next (node_matches n t)) \<noteq> None)"

text \<open>A loop over the iterator, at most \<open>k\<close> times: what has been yielded, and the iterator then.\<close>

fun mi_take :: "nat \<Rightarrow> 'v matched_iter \<Rightarrow> 'v item list \<times> 'v matched_iter" where
  "mi_take 0 it = ([], it)"
| "mi_take (Suc k) it =
     (case mi_next it of
        (None, it') \<Rightarrow> ([], it')
      | (Some x, it') \<Rightarrow> (case mi_take k it' of (xs, it'') \<Rightarrow> (x # xs, it'')))"

text \<open>\<open>VecToString\<close> and \<open>VecToTopic\<close> for the levels of an item.\<close>

definition levels_to_string :: "level list \<Rightarrow> string" where
  "levels_to_string ls = join_slash (map level_to_string ls)"

definition to_topic :: "level list \<Rightarrow> topic" where
  "to_topic ls = Topic ls"

definition to_topic_filter :: "level list \<Rightarrow> string" where
  "to_topic_filter ls = topic_to_string (to_topic ls)"

section \<open>Well-formed trees\<close>

definition node_is_empty :: "'v node \<Rightarrow> bool" where
  "node_is_empty n \<longleftrightarrow> node_values n = [] \<and> node_branches n = []"

fun node_wf :: "'v::linorder node \<Rightarrow> bool" where
  "node_wf (Node vs bs) \<longleftrightarrow>
     sorted_wrt (<) vs \<and> distinct (map fst bs) \<and> list_all (\<lambda>(_, n). node_wf n \<and> \<not> node_is_empty n) bs"

fun values_at :: "'v node \<Rightarrow> level list \<Rightarrow> 'v list" where
  "values_at (Node vs bs) [] = vs"
| "values_at (Node vs bs) (l # ls) = (case map_of bs l of None \<Rightarrow> [] | Some n \<Rightarrow> values_at n ls)"

lemma set_insert_set: "set (snd (set_insert v xs)) = insert v (set xs)"
  by (induction xs) (auto simp: split_def)

lemma set_insert_sorted: "sorted_wrt (<) xs \<Longrightarrow> sorted_wrt (<) (snd (set_insert v xs))"
proof (induction xs)
  case (Cons x xs)
  then show ?case
    using set_insert_set [of v xs] by (auto simp: split_def)
qed simp

lemma set_insert_fst: "sorted_wrt (<) xs \<Longrightarrow> fst (set_insert v xs) \<longleftrightarrow> v \<notin> set xs"
  by (induction xs) (auto simp: split_def)

lemma set_insert_not_Nil [simp]: "snd (set_insert v xs) \<noteq> []"
  by (cases xs) (auto simp: split_def)

lemma values_at_default [simp]: "values_at node_default f = []"
  by (cases f) (auto simp: node_default_def)

lemma node_wf_default [simp]: "node_wf node_default"
  by (simp add: node_default_def)

lemma node_wf_branch:
  "node_wf (Node vs bs) \<Longrightarrow> map_of bs l = Some n \<Longrightarrow> node_wf n \<and> \<not> node_is_empty n"
  by (auto simp: list_all_iff dest: map_of_SomeD)

lemma node_wf_child:
  "node_wf (Node vs bs) \<Longrightarrow> node_wf (case map_of bs l of None \<Rightarrow> node_default | Some n \<Rightarrow> n)"
  by (cases "map_of bs l") (simp_all add: node_wf_branch del: node_wf.simps)

lemma values_at_sorted: "node_wf n \<Longrightarrow> sorted_wrt (<) (values_at n f)"
proof (induction n f rule: values_at.induct)
  case (2 vs bs l ls)
  then show ?case using node_wf_branch [OF "2.prems", of l] by (auto split: option.splits)
qed simp

lemma update_wf:
  assumes "node_wf (Node vs bs)" and "node_wf n" and "\<not> node_is_empty n"
  shows "node_wf (Node vs (AList.update l n bs))"
proof -
  have "set (AList.update l n bs) \<subseteq> insert (l, n) (set bs)"
    by (induction bs) auto
  with assms show ?thesis by (auto simp: list_all_iff distinct_update)
qed

lemma delete_wf: "node_wf (Node vs bs) \<Longrightarrow> node_wf (Node vs (AList.delete l bs))"
  by (auto simp: list_all_iff distinct_delete) (auto simp: AList.delete_eq)

section \<open>Insertion and removal\<close>

lemma insert_not_empty: "\<not> node_is_empty (snd (node_insert_path f v n))"
proof (induction f v n rule: node_insert_path.induct)
  case (2 first path val vs bs)
  have "AList.update l n bs \<noteq> []" for l n by (cases bs) auto
  then show ?case by (simp add: node_is_empty_def split_def)
qed (simp add: node_is_empty_def split_def)

lemma insert_wf: "node_wf n \<Longrightarrow> node_wf (snd (node_insert_path f v n))"
proof (induction f v n rule: node_insert_path.induct)
  case (1 val vs bs)
  then show ?case using set_insert_sorted [of vs val] by (auto split: prod.splits)
next
  case (2 first path val vs bs)
  then show ?case
    using update_wf [OF "2.prems" _ insert_not_empty] node_wf_child [OF "2.prems", of first]
    by (simp add: split_def del: node_wf.simps)
qed

lemma insert_fst: "node_wf n \<Longrightarrow> fst (node_insert_path f v n) \<longleftrightarrow> v \<notin> set (values_at n f)"
proof (induction f v n rule: node_insert_path.induct)
  case (1 val vs bs)
  then show ?case using set_insert_fst [of vs val] by (auto split: prod.splits)
next
  case (2 first path val vs bs)
  from "2.IH" [OF node_wf_child [OF "2.prems"]] show ?case
    by (auto split: prod.splits option.splits)
qed

lemma insert_values_at:
  "values_at (snd (node_insert_path f v n)) g
     = (if g = f then snd (set_insert v (values_at n f)) else values_at n g)"
proof (induction f v n arbitrary: g rule: node_insert_path.induct)
  case (1 val vs bs)
  then show ?case by (cases g) (auto split: prod.splits)
next
  case (2 first path val vs bs)
  show ?case
  proof (cases g)
    case Nil
    then show ?thesis by (simp split: prod.splits)
  next
    case (Cons l ls)
    then show ?thesis
      using "2.IH" [of ls] by (auto simp: AList.update_conv' split: prod.splits option.splits)
  qed
qed

lemma remove_fst: "fst (node_remove_path f v n) \<longleftrightarrow> v \<in> set (values_at n f)"
  by (induction f v n rule: node_remove_path.induct)
    (auto simp: set_remove_def split: prod.splits option.splits)

lemma values_at_empty: "node_is_empty n \<Longrightarrow> values_at n f = []"
  by (cases n; cases f) (auto simp: node_is_empty_def)

lemma remove_values_at:
  "values_at (snd (node_remove_path f v n)) g
     = (if g = f then removeAll v (values_at n f) else values_at n g)"
proof (induction f v n arbitrary: g rule: node_remove_path.induct)
  case (1 val vs bs)
  then show ?case by (cases g) (auto simp: set_remove_def)
next
  case (2 t path val vs bs)
  show ?case
  proof (cases "map_of bs t")
    case (Some x)
    obtain res x' where x': "node_remove_path path val x = (res, x')" by fastforce
    have IH: "values_at x' h = (if h = path then removeAll val (values_at x path) else values_at x h)" for h
      using "2.IH" [OF Some, of h] x' by simp
    show ?thesis
    proof (cases g)
      case (Cons l ls)
      then show ?thesis
        using Some x' IH [of ls] values_at_empty [of x' ls]
        by (auto simp: node_is_empty_def AList.update_conv' AList.delete_conv' split: option.splits)
    qed (use Some x' in auto)
  qed (cases g; auto)
qed

lemma remove_wf: "node_wf n \<Longrightarrow> node_wf (snd (node_remove_path f v n))"
proof (induction f v n rule: node_remove_path.induct)
  case (1 val vs bs)
  then show ?case by (auto simp: set_remove_def removeAll_filter_not_eq sorted_wrt_filter)
next
  case (2 t path val vs bs)
  then show ?case
    using node_wf_branch [OF "2.prems"] update_wf [OF "2.prems"] delete_wf [OF "2.prems"]
    by (auto split: prod.splits option.splits simp: node_is_empty_def simp del: node_wf.simps)
qed

section \<open>What the iterator yields\<close>

definition entry :: "level list \<Rightarrow> 'v list \<Rightarrow> 'v item list" where
  "entry ls vs = (if vs = [] then [] else [(ls, vs)])"

definition multi_items :: "'v node \<Rightarrow> level list \<Rightarrow> 'v item list" where
  "multi_items n sub = (case node_child n MultiWildcard of None \<Rightarrow> [] | Some b \<Rightarrow> entry (sub @ [MultiWildcard]) (node_values b))"

text \<open>The items of a node for a path, in the order in which the iterator yields them.\<close>

fun trie_match :: "'v node \<Rightarrow> level list \<Rightarrow> level list \<Rightarrow> 'v item list" where
  "trie_match n [] sub = entry sub (node_values n) @ multi_items n sub"
| "trie_match n (l # ls) sub =
     (if wildcards_allowed n l sub then
        multi_items n sub @
        (case node_child n SingleWildcard of None \<Rightarrow> [] | Some b \<Rightarrow> trie_match b ls (sub @ [SingleWildcard]))
      else []) @
     (case node_child n l of None \<Rightarrow> [] | Some b \<Rightarrow> trie_match b ls (sub @ [l]))"

fun pending :: "'v matched_iter \<Rightarrow> 'v item list" where
  "pending (MatchedIter n p sub items subs) =
     rev items @ concat (map pending subs) @ (case sub of None \<Rightarrow> [] | Some s \<Rightarrow> trie_match n p s)"

definition hd_opt :: "'a list \<Rightarrow> 'a option" where
  "hd_opt xs = (case xs of [] \<Rightarrow> None | x # _ \<Rightarrow> Some x)"

lemma hd_opt_simps [simp]: "hd_opt [] = None" "hd_opt (x # xs) = Some x"
  by (simp_all add: hd_opt_def)

lemma hd_opt_append: "hd_opt (xs @ ys) = (if xs = [] then hd_opt ys else hd_opt xs)"
  by (cases xs) auto

lemma hd_opt_None [simp]: "hd_opt xs = None \<longleftrightarrow> xs = []"
  by (cases xs) auto

lemma rev_add_multi: "rev (add_multi n sub items) = multi_items n sub @ rev items"
  by (auto simp: add_multi_def multi_items_def node_child_def add_to_items_def entry_def split: option.splits)

lemma rev_add_to_items: "rev (add_to_items ls vs items) = entry ls vs @ rev items"
  by (simp add: add_to_items_def entry_def)

lemma pending_sub_iter:
  "concat (map pending (sub_iter n l p sub))
     = (case node_child n l of None \<Rightarrow> [] | Some b \<Rightarrow> trie_match b p (sub @ [l]))"
  by (simp add: sub_iter_def node_child_def mi_new_def split: option.splits)

lemma pending_prepare:
  "mi_prepare (MatchedIter n p sub [] []) = Some it \<Longrightarrow> pending it = pending (MatchedIter n p sub [] []) \<and> mi_sub_path it = None"
  by (cases p; cases sub)
    (auto simp: rev_add_multi rev_add_to_items pending_sub_iter split: if_splits)

text \<open>What \<open>next_item\<close> can return without preparing.\<close>

definition ready :: "'v matched_iter \<Rightarrow> 'v item list" where
  "ready it = rev (mi_curr_items it) @ concat (map pending (mi_sub_iters it))"

lemma pending_ready:
  "pending it = ready it @ (case mi_sub_path it of None \<Rightarrow> [] | Some s \<Rightarrow> trie_match (mi_node it) (mi_path it) s)"
  by (cases it) (auto simp: ready_def split: option.splits)

lemma next_pending:
  fixes it :: "'v matched_iter" and ss :: "'v matched_iter list"
  shows "fst (mi_next it) = hd_opt (pending it) \<and> pending (snd (mi_next it)) = tl (pending it)"
    and "fst (mi_next_item it) = hd_opt (ready it) \<and> ready (snd (mi_next_item it)) = tl (ready it)
      \<and> mi_sub_path (snd (mi_next_item it)) = mi_sub_path it \<and> mi_node (snd (mi_next_item it)) = mi_node it
      \<and> mi_path (snd (mi_next_item it)) = mi_path it"
    and "fst (mi_next_sub ss) = hd_opt (concat (map pending ss))
      \<and> concat (map pending (snd (mi_next_sub ss))) = tl (concat (map pending ss))"
proof (induction it and it and ss rule: mi_next_mi_next_item_mi_next_sub.induct)
  case (1 it)
  let ?it = "MatchedIter (mi_node it) (mi_path it) (mi_sub_path it) [] []"
  obtain r it' where item: "mi_next_item it = (r, it')" by fastforce
  show ?case
  proof (cases r)
    case (Some x)
    with item have "mi_next it = (Some x, it')" by (simp add: mi_next.simps [of it])
    moreover from item Some 1(1) have "ready it \<noteq> []" by (metis fst_conv hd_opt_None option.distinct(1))
    ultimately show ?thesis using item Some 1(1)
      by (auto simp: pending_ready hd_opt_append cong: option.case_cong)
  next
    case None
    with item 1(1) have empty: "ready it = []" by (metis fst_conv hd_opt_None)
    then have pend: "pending it = pending ?it" by (simp add: pending_ready [of it])
    show ?thesis
    proof (cases "mi_prepare ?it")
      case None
      then have "mi_sub_path it = None" by (cases "mi_path it"; cases "mi_sub_path it") (auto split: if_splits)
      with None item \<open>r = None\<close> pend show ?thesis by (simp add: mi_next.simps [of it] Let_def)
    next
      case (Some it'')
      have next_it: "mi_next it = mi_next_item it''"
        using item \<open>r = None\<close> Some by (simp add: mi_next.simps [of it] Let_def)
      have prep: "pending it'' = pending ?it" "mi_sub_path it'' = None"
        using pending_prepare [OF Some] by auto
      then show ?thesis
        using 1(2) [OF item [symmetric] \<open>r = None\<close> refl Some] pend
        by (simp add: next_it pending_ready)
    qed
  qed
next
  case (2 node path sub_path items subs)
  then show ?case
    by (cases items rule: rev_cases) (auto simp: mi_next_item.simps ready_def split: prod.splits)
next
  case 3
  then show ?case by (simp add: mi_next_sub.simps)
next
  case (4 s ss)
  obtain r s' where s: "mi_next s = (r, s')" by fastforce
  show ?case
  proof (cases r)
    case None
    then have "pending s = []" using 4(1) s by (metis fst_conv hd_opt_None)
    with 4(2) [OF s [symmetric] None] s None show ?thesis by (simp add: mi_next_sub.simps)
  next
    case (Some x)
    then have "mi_next_sub (s # ss) = (Some x, s' # ss)" using s by (simp add: mi_next_sub.simps)
    moreover have "pending s \<noteq> []" using 4(1) s Some by (metis fst_conv hd_opt_None option.distinct(1))
    ultimately show ?thesis using 4(1) s Some by (simp add: hd_opt_append)
  qed
qed

lemma mi_take_pending:
  "fst (mi_take k it) = take k (pending it) \<and> pending (snd (mi_take k it)) = drop k (pending it)"
proof (induction k arbitrary: it)
  case (Suc k)
  obtain r it' where n: "mi_next it = (r, it')" by fastforce
  with next_pending(1) [of it] Suc [of it'] show ?case
    by (cases "pending it") (auto split: prod.splits)
qed simp

lemma pending_matches: "pending (node_matches n t) = trie_match n (levels t) []"
  by (simp add: node_matches_def mi_new_def)

section \<open>The matching filters\<close>

text \<open>The filters that a path selects: \<open>#\<close> ends a filter, \<open>+\<close> stands for any level, every other level
  for itself; wildcards at the root are not followed for a path that starts with a metadata level.\<close>

fun path_match :: "level list \<Rightarrow> level list \<Rightarrow> bool" where
  "path_match f [] = (f = [] \<or> f = [MultiWildcard])"
| "path_match f (l # ls) =
     (f = [MultiWildcard] \<or>
      (case f of [] \<Rightarrow> False | x # f' \<Rightarrow> (x = SingleWildcard \<or> x = l) \<and> path_match f' ls))"

definition root_match :: "level list \<Rightarrow> level list \<Rightarrow> level list \<Rightarrow> bool" where
  "root_match sub f p \<longleftrightarrow>
     path_match f p \<and>
     \<not> (sub = [] \<and> f \<noteq> [] \<and> p \<noteq> [] \<and> is_wildcard (hd f) \<and> level_is_metadata (hd p))"

lemma values_at_child: "values_at n (l # ls) = (case node_child n l of None \<Rightarrow> [] | Some b \<Rightarrow> values_at b ls)"
  by (cases n) (simp add: node_child_def)

lemma values_at_Nil: "values_at n [] = node_values n"
  by (cases n) simp

lemma entry_set [simp]: "set (entry ls vs) = (if vs = [] then {} else {(ls, vs)})"
  by (simp add: entry_def)

definition matched :: "'v node \<Rightarrow> level list \<Rightarrow> (level list \<Rightarrow> bool) \<Rightarrow> 'v item set" where
  "matched n sub sel = {(sub @ f, values_at n f) |f. values_at n f \<noteq> [] \<and> sel f}"

lemma multi_items_set:
  "set (multi_items n sub) = matched n sub (\<lambda>f. f = [MultiWildcard])"
  by (auto simp: multi_items_def matched_def values_at_child values_at_Nil split: option.splits)

lemma matched_child:
  "(case node_child n l of None \<Rightarrow> {} | Some b \<Rightarrow> matched b (sub @ [l]) sel)
     = matched n sub (\<lambda>f. f \<noteq> [] \<and> hd f = l \<and> sel (tl f))"
proof -
  have "x \<in> (case node_child n l of None \<Rightarrow> {} | Some b \<Rightarrow> matched b (sub @ [l]) sel)
      \<longleftrightarrow> x \<in> matched n sub (\<lambda>f. f \<noteq> [] \<and> hd f = l \<and> sel (tl f))" for x
  proof (cases "node_child n l")
    case None
    then show ?thesis by (auto simp: matched_def neq_Nil_conv values_at_child)
  next
    case (Some b)
    then have at: "values_at n (l # f) = values_at b f" for f by (simp add: values_at_child)
    have "(\<exists>f. x = (sub @ l # f, values_at b f) \<and> values_at b f \<noteq> [] \<and> sel f) \<longleftrightarrow>
        (\<exists>f. x = (sub @ f, values_at n f) \<and> values_at n f \<noteq> [] \<and> f \<noteq> [] \<and> hd f = l \<and> sel (tl f))"
      by (metis at list.collapse list.distinct(1) list.sel(1,3))
    with Some show ?thesis by (simp add: matched_def)
  qed
  then show ?thesis by blast
qed

lemma matched_Un: "matched n sub P \<union> matched n sub Q = matched n sub (\<lambda>f. P f \<or> Q f)"
  by (auto simp: matched_def)

lemma matched_cong: "(\<And>f. values_at n f \<noteq> [] \<Longrightarrow> P f = Q f) \<Longrightarrow> matched n sub P = matched n sub Q"
  by (auto simp: matched_def)

lemma no_key_no_values:
  "\<not> has_key n l \<Longrightarrow> values_at n f \<noteq> [] \<Longrightarrow> f = [] \<or> hd f \<noteq> l"
  by (cases f) (auto simp: has_key_def values_at_child node_child_def)

lemma trie_match_set: "set (trie_match n p sub) = matched n sub (\<lambda>f. root_match sub f p)"
proof (induction p arbitrary: n sub)
  case Nil
  have "matched n sub (\<lambda>f. f = []) = set (entry sub (node_values n))"
    by (auto simp: matched_def values_at_Nil)
  then show ?case
    by (simp add: multi_items_set matched_Un root_match_def flip: matched_Un)
next
  case (Cons l ls)
  let ?below = "\<lambda>x. matched n sub (\<lambda>f. f \<noteq> [] \<and> hd f = x \<and> path_match (tl f) ls)"
  have below: "set (case node_child n x of None \<Rightarrow> [] | Some b \<Rightarrow> trie_match b ls (sub @ [x])) = ?below x" for x
    using Cons [where sub = "sub @ [x]"]
      matched_child [where n = n and l = x and sub = sub and sel = "\<lambda>f. path_match f ls"]
    by (simp add: root_match_def split: option.splits)
  show ?case
  proof (cases "wildcards_allowed n l sub")
    case True
    have "set (trie_match n (l # ls) sub)
        = matched n sub (\<lambda>f. f = [MultiWildcard] \<or> f \<noteq> [] \<and> hd f = SingleWildcard \<and> path_match (tl f) ls
            \<or> f \<noteq> [] \<and> hd f = l \<and> path_match (tl f) ls)"
      using True by (simp add: below multi_items_set matched_Un Un_assoc)
    also have "\<dots> = matched n sub (\<lambda>f. root_match sub f (l # ls))"
    proof (rule matched_cong)
      fix f assume "values_at n f \<noteq> []"
      then have "\<not> (sub = [] \<and> f \<noteq> [] \<and> is_wildcard (hd f) \<and> level_is_metadata l)"
        using True no_key_no_values [of n MultiWildcard f] no_key_no_values [of n SingleWildcard f]
        by (cases l) (auto simp: wildcards_allowed_def is_wildcard_def)
      then show "(f = [MultiWildcard] \<or> f \<noteq> [] \<and> hd f = SingleWildcard \<and> path_match (tl f) ls
            \<or> f \<noteq> [] \<and> hd f = l \<and> path_match (tl f) ls) = root_match sub f (l # ls)"
        by (cases f) (auto simp: root_match_def)
    qed
    finally show ?thesis .
  next
    case False
    then have "set (trie_match n (l # ls) sub) = ?below l" by (simp add: below)
    also have "\<dots> = matched n sub (\<lambda>f. root_match sub f (l # ls))"
    proof (rule matched_cong)
      fix f assume "values_at n f \<noteq> []"
      show "(f \<noteq> [] \<and> hd f = l \<and> path_match (tl f) ls) = root_match sub f (l # ls)"
        using False by (cases f; cases l) (auto simp: wildcards_allowed_def root_match_def is_wildcard_def)
    qed
    finally show ?thesis .
  qed
qed

lemma trie_match_prefix: "x \<in> set (trie_match n p sub) \<Longrightarrow> \<exists>f. fst x = sub @ f"
  by (auto simp: trie_match_set matched_def)

lemma disjoint_subsets: "A \<subseteq> X \<Longrightarrow> B \<subseteq> Y \<Longrightarrow> X \<inter> Y = {} \<Longrightarrow> A \<inter> B = {}"
  by blast

lemma distinct_map_three:
  "distinct (map f a) \<Longrightarrow> distinct (map f b) \<Longrightarrow> distinct (map f d) \<Longrightarrow>
   f ` set a \<inter> f ` set b = {} \<Longrightarrow> f ` set a \<inter> f ` set d = {} \<Longrightarrow> f ` set b \<inter> f ` set d = {} \<Longrightarrow>
     distinct (map f ((if c then a @ b else []) @ d))"
  by auto

text \<open>For a path without wildcards no filter is yielded twice.\<close>

lemma trie_match_distinct:
  assumes "list_all (\<lambda>l. \<not> is_wildcard l) p"
  shows "distinct (map fst (trie_match n p sub))"
  using assms
proof (induction p arbitrary: n sub)
  case Nil
  then show ?case by (auto simp: multi_items_def entry_def split: option.splits)
next
  case (Cons l ls)
  let ?sub = "\<lambda>x. case node_child n x of None \<Rightarrow> [] | Some b \<Rightarrow> trie_match b ls (sub @ [x])"
  have below: "distinct (map fst (?sub x))" for x
    using Cons by (simp split: option.split)
  have prefix: "fst ` set (?sub x) \<subseteq> {sub @ x # f |f. True}" for x
  proof (cases "node_child n x")
    case (Some b)
    then show ?thesis using trie_match_prefix [of _ b ls "sub @ [x]"] by fastforce
  qed simp
  have multi: "distinct (map fst (multi_items n sub))" "fst ` set (multi_items n sub) \<subseteq> {sub @ [MultiWildcard]}"
    by (auto simp: multi_items_def entry_def split: option.splits if_splits)
  have ne: "l \<noteq> SingleWildcard" "l \<noteq> MultiWildcard" using Cons.prems by (auto simp: is_wildcard_def)
  have disj: "fst ` set (?sub x) \<inter> fst ` set (?sub y) = {}" if "x \<noteq> y" for x y
    by (rule disjoint_subsets [OF prefix prefix]) (use that in auto)
  have disj_multi: "fst ` set (multi_items n sub) \<inter> fst ` set (?sub x) = {}" if "x \<noteq> MultiWildcard" for x
    by (rule disjoint_subsets [OF multi(2) prefix]) (use that in auto)
  have "SingleWildcard \<noteq> MultiWildcard" by simp
  then show ?case
    unfolding trie_match.simps
    by (rule distinct_map_three [OF multi(1) below below disj_multi disj_multi [OF ne(2)] disj [OF ne(1) [symmetric]]])
qed

section \<open>Matching is the matching of the standard\<close>

fun multi_last :: "level list \<Rightarrow> bool" where
  "multi_last [] = True"
| "multi_last (l # ls) = ((l = MultiWildcard \<longrightarrow> ls = []) \<and> multi_last ls)"

lemma levels_ok_multi_last: "levels_ok ls \<Longrightarrow> multi_last ls"
proof -
  have "inner_ok ls \<Longrightarrow> multi_last ls" for ls by (induction ls) auto
  then show "levels_ok ls \<Longrightarrow> multi_last ls" by (cases ls) auto
qed

lemma level_accepts_canonical:
  assumes "level_canonical x" and "level_canonical l" and "\<not> is_wildcard l" and "x \<noteq> MultiWildcard"
  shows "level_accepts x (level_to_string l) \<longleftrightarrow> x = SingleWildcard \<or> x = l"
  using assms
  by (cases x; cases l)
    (auto simp: level_canonical_def is_wildcard_def str_is_metadata_def contains_wildcard_def)

lemma path_match_standard:
  assumes "list_all level_canonical f" and "multi_last f"
    and "list_all level_canonical p" and "list_all (\<lambda>l. \<not> is_wildcard l) p"
  shows "path_match f p = levels_match f (map level_to_string p)"
  using assms
proof (induction p arbitrary: f)
  case Nil
  then show ?case by (cases f; cases "hd f"; cases "tl f") auto
next
  case (Cons l p)
  show ?case
  proof (cases f)
    case (Cons x f')
    then show ?thesis
      using Cons.prems Cons.IH [of f'] level_accepts_canonical [of x l]
      by (cases "x = MultiWildcard"; cases f'; cases x) auto
  qed simp
qed

lemma root_match_standard:
  assumes "levels_ok f" and "list_all level_canonical f"
    and "list_all level_canonical p" and "list_all (\<lambda>l. \<not> is_wildcard l) p"
  shows "root_match [] f p = mqtt_match f (map level_to_string p)"
proof -
  have "level_is_metadata (hd p) = str_is_metadata (level_to_string (hd p))" if "p \<noteq> []"
    using that assms(3)
    by (cases p; cases "hd p") (auto simp: level_canonical_def str_is_metadata_def)
  then show ?thesis
    using path_match_standard [OF assms(2) levels_ok_multi_last [OF assms(1)] assms(3,4)]
    by (cases p) (auto simp: root_match_def mqtt_match_def)
qed

section \<open>Histories\<close>

datatype 'v store_op = Insert topic 'v | Remove topic 'v

text \<open>What a history stores, as a map from filters to sets.\<close>

fun stored_step :: "'v store_op \<Rightarrow> (level list \<Rightarrow> 'v set) \<Rightarrow> level list \<Rightarrow> 'v set" where
  "stored_step (Insert f v) m = m(levels f := insert v (m (levels f)))"
| "stored_step (Remove f v) m = m(levels f := m (levels f) - {v})"

definition stored :: "'v store_op list \<Rightarrow> level list \<Rightarrow> 'v set" where
  "stored ops = fold stored_step ops (\<lambda>_. {})"

fun store_step :: "(topic \<Rightarrow> 'v \<Rightarrow> 's \<Rightarrow> bool \<times> 's) \<Rightarrow> (topic \<Rightarrow> 'v \<Rightarrow> 's \<Rightarrow> bool \<times> 's) \<Rightarrow>
    'v store_op \<Rightarrow> 's \<Rightarrow> 's" where
  "store_step ins rem (Insert f v) s = snd (ins f v s)"
| "store_step ins rem (Remove f v) s = snd (rem f v s)"

lemma stored_snoc: "stored (ops @ [op]) = stored_step op (stored ops)"
  by (simp add: stored_def)

lemma stored_inserted: "stored ops f \<noteq> {} \<Longrightarrow> \<exists>t v. levels t = f \<and> Insert t v \<in> set ops"
proof (induction ops rule: rev_induct)
  case (snoc op ops)
  then show ?case by (cases op) (auto simp: stored_snoc split: if_splits)
qed (simp add: stored_def)

text \<open>
  The contract of a store of values under topic filters, which the users of the topic tree (the router,
  the retained messages, the access rules) rely on.
\<close>

locale topic_store =
  fixes empty :: 's and ins :: "topic \<Rightarrow> 'v \<Rightarrow> 's \<Rightarrow> bool \<times> 's" and rem :: "topic \<Rightarrow> 'v \<Rightarrow> 's \<Rightarrow> bool \<times> 's"
    and at :: "'s \<Rightarrow> level list \<Rightarrow> 'v set" and inv :: "'s \<Rightarrow> bool"
  assumes empty_at: "at empty f = {}" and empty_inv: "inv empty"
    and ins_inv: "inv s \<Longrightarrow> inv (snd (ins t v s))" and rem_inv: "inv s \<Longrightarrow> inv (snd (rem t v s))"
    and ins_at: "at (snd (ins t v s)) f = (if f = levels t then insert v (at s f) else at s f)"
    and rem_at: "at (snd (rem t v s)) f = (if f = levels t then at s f - {v} else at s f)"
    and ins_res: "inv s \<Longrightarrow> fst (ins t v s) \<longleftrightarrow> v \<notin> at s (levels t)"
    and rem_res: "fst (rem t v s) \<longleftrightarrow> v \<in> at s (levels t)"
begin

lemma history_inv: "inv (fold (store_step ins rem) ops empty)"
proof (induction ops rule: rev_induct)
  case (snoc op ops)
  then show ?case by (cases op) (simp_all add: ins_inv rem_inv)
qed (simp add: empty_inv)

lemma history_at: "at (fold (store_step ins rem) ops empty) = stored ops"
proof (induction ops rule: rev_induct)
  case (snoc op ops)
  then show ?case by (cases op) (simp_all add: stored_snoc fun_eq_iff ins_at rem_at)
qed (simp add: fun_eq_iff empty_at stored_def)

end

interpretation tree: topic_store node_default node_insert node_remove "\<lambda>n f. set (values_at n f)" node_wf
  by unfold_locales
    (auto simp: node_insert_def node_remove_def insert_wf remove_wf insert_values_at remove_values_at
      set_insert_set insert_fst remove_fst)

definition trie_run :: "'v::linorder store_op list \<Rightarrow> 'v node" where
  "trie_run ops = fold (store_step node_insert node_remove) ops node_default"

lemma trie_run_wf: "node_wf (trie_run ops)"
  unfolding trie_run_def by (rule tree.history_inv)

lemma trie_run_values: "values_at (trie_run ops) f = sorted_list_of_set (stored ops f)"
proof -
  have "set (values_at (trie_run ops) f) = stored ops f"
    using tree.history_at [of ops] by (simp add: trie_run_def fun_eq_iff)
  moreover have "sorted_wrt (<) (values_at (trie_run ops) f)" by (rule values_at_sorted [OF trie_run_wf])
  ultimately show ?thesis
    by (metis sorted_list_of_set.idem_if_sorted_distinct strict_sorted_iff)
qed

lemma mi_take_all:
  assumes "length (pending it) \<le> k"
  shows "fst (mi_take k it) = pending it" and "fst (mi_next (snd (mi_take k it))) = None"
  using mi_take_pending [of k it] next_pending(1) [of "snd (mi_take k it)"] assms by auto

section \<open>Properties\<close>

text \<open>The tree is a map from filters to sets: insertion and removal change the values of one filter,
  report whether the set has changed, and keep the tree well-formed (sorted values, distinct branches,
  no dead branch).\<close>

theorem trie_refines_map:
  assumes "node_wf n"
  shows "set (values_at (snd (node_insert t v n)) f) = (if f = levels t then insert v (set (values_at n f)) else set (values_at n f)) \<and>
    set (values_at (snd (node_remove t v n)) f) = (if f = levels t then set (values_at n f) - {v} else set (values_at n f)) \<and>
    (fst (node_insert t v n) \<longleftrightarrow> v \<notin> set (values_at n (levels t))) \<and>
    (fst (node_remove t v n) \<longleftrightarrow> v \<in> set (values_at n (levels t))) \<and>
    node_wf (snd (node_insert t v n)) \<and> node_wf (snd (node_remove t v n))"
  by (intro conjI tree.ins_at tree.rem_at tree.ins_res tree.rem_res tree.ins_inv tree.rem_inv assms)

theorem trie_refines_map_witness:
  "set (values_at (snd (node_insert (Topic [Blank]) (3 :: nat) node_default)) [Blank]) = {3}"
  using trie_refines_map [of node_default "Topic [Blank]" "3 :: nat" "[Blank]", THEN conjunct1] by simp

text \<open>After any history of insertions and removals the tree is well-formed, and the values under
  every filter are those that the history has inserted and not removed, in ascending order.\<close>

theorem trie_history_wf:
  "node_wf (trie_run ops) \<and> values_at (trie_run ops) f = sorted_list_of_set (stored ops f)"
  by (simp add: trie_run_wf trie_run_values)

text \<open>C3. After any history of insertions of parsed filters and removals, the iterator over the matches of
  a parsed topic without wildcards ends, and has yielded exactly the stored filters that match
  the topic by the rules of the standard, each once, with their values in ascending order.\<close>

theorem trie_matches_standard:
  assumes filters: "\<And>t v. Insert t v \<in> set ops \<Longrightarrow> \<exists>fs. topic_from_str fs = Inr t"
    and topic: "topic_from_str s = Inr t" and names: "list_all (\<lambda>l. \<not> is_wildcard l) (levels t)"
  shows "\<exists>items. (\<forall>k \<ge> length items. fst (mi_take k (node_matches (trie_run ops) t)) = items \<and>
        fst (mi_next (snd (mi_take k (node_matches (trie_run ops) t)))) = None) \<and>
      distinct (map fst items) \<and>
      set items = {(f, sorted_list_of_set (stored ops f)) |f. stored ops f \<noteq> {} \<and> mqtt_match f (split_slash s)}"
proof -
  let ?n = "trie_run ops"
  have path: "list_all level_canonical (levels t)" "split_slash s = map level_to_string (levels t)"
    using topic split_to_string [of t] by (auto simp: topic_from_str_levels)
  have ok: "levels_ok f \<and> list_all level_canonical f" if "stored ops f \<noteq> {}" for f
    using stored_inserted [OF that] filters by (fastforce simp: topic_from_str_levels topic_is_valid_levels)
  have at: "values_at ?n f \<noteq> [] \<longleftrightarrow> stored ops f \<noteq> {}" for f
    using tree.history_at [of ops] by (metis set_empty trie_run_def)
  have "matched ?n [] (\<lambda>f. root_match [] f (levels t)) = matched ?n [] (\<lambda>f. mqtt_match f (split_slash s))"
    using ok at path names by (intro matched_cong) (simp add: root_match_standard)
  then have "set (pending (node_matches ?n t))
      = {(f, sorted_list_of_set (stored ops f)) |f. stored ops f \<noteq> {} \<and> mqtt_match f (split_slash s)}"
    unfolding pending_matches trie_match_set by (simp add: matched_def at trie_run_values [symmetric])
  moreover have "distinct (map fst (pending (node_matches ?n t)))"
    unfolding pending_matches by (rule trie_match_distinct [OF names])
  ultimately show ?thesis using mi_take_all [of "node_matches ?n t"] by blast
qed

definition sample_ops :: "nat store_op list" where
  "sample_ops = [Insert (Topic [SingleWildcard, MultiWildcard]) 7]"

theorem trie_matches_standard_witness:
  "\<exists>items. fst (mi_take (length items) (node_matches (trie_run sample_ops) (Topic [Normal ''a'']))) = items \<and>
     set items = {(f, sorted_list_of_set (stored sample_ops f)) |f. stored sample_ops f \<noteq> {} \<and> mqtt_match f (split_slash ''a'')}"
proof -
  have parse: "topic_from_str ''+/#'' = Inr (Topic [SingleWildcard, MultiWildcard])" "topic_from_str ''a'' = Inr (Topic [Normal ''a''])"
    by (simp_all add: topic_from_str_def level_from_str_def topic_is_valid_levels contains_wildcard_def str_is_metadata_def)
  have "\<exists>fs. topic_from_str fs = Inr t" if "Insert t v \<in> set sample_ops" for t v
    using that parse(1) by (auto simp: sample_ops_def)
  moreover have "list_all (\<lambda>l. \<not> is_wildcard l) (levels (Topic [Normal ''a'']))" by (simp add: is_wildcard_def)
  ultimately show ?thesis using trie_matches_standard [OF _ parse(2)] by blast
qed

end
