(* ===== verification/Counters.thy ===== *)
theory Counters
  imports Prelude
begin

text \<open>
  \<open>ferromq-utils/src/counter.rs\<close>: the counters that the router, the sessions and the statistics keep. An
  operation is the sequence of its atomic accesses, run without interference; \<open>isize\<close> values are
  integers, since a counter counts live objects or events and stays far below the bound of the type.
\<close>

datatype stats_merge_mode = MergeNone | MergeSum | MergeAverage | MergeMax | MergeMin

record counter =
  cnt_current :: int
  cnt_max :: int
  cnt_mode :: stats_merge_mode

definition counter_new :: counter where
  "counter_new = \<lparr>cnt_current = 0, cnt_max = 0, cnt_mode = MergeNone\<rparr>"

definition counter_new_with :: "int \<Rightarrow> int \<Rightarrow> stats_merge_mode \<Rightarrow> counter" where
  "counter_new_with c mx m = \<lparr>cnt_current = c, cnt_max = mx, cnt_mode = m\<rparr>"

definition counter_incs :: "int \<Rightarrow> counter \<Rightarrow> counter" where
  "counter_incs c s =
     (let prev = cnt_current s; s = s\<lparr>cnt_current := prev + c\<rparr>
      in s\<lparr>cnt_max := max (cnt_max s) (prev + c)\<rparr>)"

definition counter_inc :: "counter \<Rightarrow> counter" where
  "counter_inc s = counter_incs 1 s"

definition counter_current_incs :: "int \<Rightarrow> counter \<Rightarrow> counter" where
  "counter_current_incs c s = s\<lparr>cnt_current := cnt_current s + c\<rparr>"

definition counter_current_inc :: "counter \<Rightarrow> counter" where
  "counter_current_inc s = counter_current_incs 1 s"

definition counter_current_set :: "int \<Rightarrow> counter \<Rightarrow> counter" where
  "counter_current_set c s = s\<lparr>cnt_current := c\<rparr>"

definition counter_sets :: "int \<Rightarrow> counter \<Rightarrow> counter" where
  "counter_sets c s = (let s = counter_current_set c s in s\<lparr>cnt_max := max (cnt_max s) c\<rparr>)"

definition counter_decs :: "int \<Rightarrow> counter \<Rightarrow> counter" where
  "counter_decs c s = s\<lparr>cnt_current := cnt_current s - c\<rparr>"

definition counter_dec :: "counter \<Rightarrow> counter" where
  "counter_dec s = counter_decs 1 s"

definition counter_count_min :: "int \<Rightarrow> counter \<Rightarrow> counter" where
  "counter_count_min c s = s\<lparr>cnt_current := min (cnt_current s) c\<rparr>"

definition counter_count_max :: "int \<Rightarrow> counter \<Rightarrow> counter" where
  "counter_count_max c s = s\<lparr>cnt_current := max (cnt_current s) c\<rparr>"

definition counter_max_max :: "int \<Rightarrow> counter \<Rightarrow> counter" where
  "counter_max_max mx s = s\<lparr>cnt_max := max (cnt_max s) mx\<rparr>"

definition counter_max_min :: "int \<Rightarrow> counter \<Rightarrow> counter" where
  "counter_max_min mx s = s\<lparr>cnt_max := min (cnt_max s) mx\<rparr>"

definition counter_add :: "counter \<Rightarrow> counter \<Rightarrow> counter" where
  "counter_add other s =
     s\<lparr>cnt_current := cnt_current s + cnt_current other, cnt_max := cnt_max s + cnt_max other\<rparr>"

definition counter_set :: "counter \<Rightarrow> counter \<Rightarrow> counter" where
  "counter_set other s = s\<lparr>cnt_current := cnt_current other, cnt_max := cnt_max other\<rparr>"

definition stats_merge :: "stats_merge_mode \<Rightarrow> counter \<Rightarrow> counter \<Rightarrow> counter" where
  "stats_merge mode c other =
     (case mode of
        MergeNone \<Rightarrow> c
      | MergeSum \<Rightarrow> counter_add other c
      | MergeMax \<Rightarrow> counter_max_max (cnt_max other) (counter_count_max (cnt_current other) c)
      | MergeMin \<Rightarrow> counter_max_min (cnt_max other) (counter_count_min (cnt_current other) c)
      | MergeAverage \<Rightarrow> c)"

definition counter_merge :: "counter \<Rightarrow> counter \<Rightarrow> counter" where
  "counter_merge other s = stats_merge (cnt_mode s) s other"

lemmas counter_defs =
  counter_new_def counter_incs_def counter_inc_def counter_decs_def counter_dec_def counter_sets_def
  counter_current_set_def counter_current_incs_def counter_current_inc_def counter_count_min_def
  counter_count_max_def counter_max_max_def counter_max_min_def counter_add_def counter_set_def
  stats_merge_def counter_merge_def

lemma counter_current_simps [simp]:
  "cnt_current counter_new = 0"
  "cnt_current (counter_inc c) = cnt_current c + 1"
  "cnt_current (counter_dec c) = cnt_current c - 1"
  by (simp_all add: counter_defs Let_def)

text \<open>The maximum bounds the current value: kept by every operation that adjusts both, and by
  decrements.\<close>

definition counter_ok :: "counter \<Rightarrow> bool" where
  "counter_ok s \<longleftrightarrow> cnt_current s \<le> cnt_max s"

lemma counter_ok_ops [simp, intro]:
  "counter_ok counter_new"
  "counter_ok (counter_incs n s)"
  "counter_ok (counter_inc s)"
  "counter_ok (counter_sets n s)"
  "counter_ok s \<Longrightarrow> counter_ok (counter_dec s)"
  "counter_ok s \<Longrightarrow> counter_ok other \<Longrightarrow> counter_ok (counter_merge other s)"
  by (cases "cnt_mode s"; auto simp: counter_ok_def counter_defs Let_def)+

end
