(* ===== verification/Broker_Types.thy ===== *)
theory Broker_Types
  imports Mqtt_Codec Topic Counters
begin

text \<open>
  The data of the broker: \<open>ferromq/src/types.rs\<close> and \<open>ferromq-net/src/error.rs\<close>. Identities, messages,
  subscription options, results and reasons, and the parser of extended topic filters. (The table of a
  session's subscriptions is in \<open>Session_Subs\<close>.) The crate is modelled with its feature \<open>full\<close>.

  \<open>ByteString\<close> values of the broker (client identifiers, topic filters) are strings; those inside
  a packet are the bytes of the wire, and \<open>text_of\<close> reads them. The clock is a parameter \<open>now\<close>, in milliseconds
  (an \<open>i64\<close>, here an integer). JSON and serde representations are not modelled.

  Shown: the parser of filters and its inverse, and that reasons are reported with error codes.
\<close>

section \<open>Identities\<close>

type_synonym u64 = "64 word"
type_synonym node_id = u64
type_synonym client_id = string
type_synonym topic_filter = string
type_synonym shared_group = string
type_synonym timestamp = int

definition text_of :: "bytes \<Rightarrow> string" where
  "text_of bs = map (\<lambda>b. char_of (unat b)) bs"

definition text_bytes :: "string \<Rightarrow> bytes" where
  "text_bytes s = map (\<lambda>c. word_of_nat (of_char c)) s"

lemma text_of_text_bytes [simp]: "text_of (text_bytes s) = s"
  by (induction s) (simp_all add: text_of_def text_bytes_def unat_of_nat)

datatype socket_addr = SocketV4 u32 u16 | SocketV6 "128 word" u16

record ident =
  id_node_id :: node_id
  id_lid :: u16
  id_local_addr :: "socket_addr option"
  id_remote_addr :: "socket_addr option"
  id_client_id :: client_id
  id_username :: "string option"
  id_create_time :: timestamp

definition id_new :: "timestamp \<Rightarrow> node_id \<Rightarrow> u16 \<Rightarrow> socket_addr option \<Rightarrow> socket_addr option \<Rightarrow>
    client_id \<Rightarrow> string option \<Rightarrow> ident" where
  "id_new now node_id lid local_addr remote_addr client_id username =
     \<lparr>id_node_id = node_id, id_lid = lid, id_local_addr = local_addr, id_remote_addr = remote_addr,
      id_client_id = client_id, id_username = username, id_create_time = now\<rparr>"

definition id_from :: "timestamp \<Rightarrow> node_id \<Rightarrow> client_id \<Rightarrow> ident" where
  "id_from now node_id client_id = id_new now node_id 0 None None client_id None"

definition id_username_ref :: "ident \<Rightarrow> string" where
  "id_username_ref i = (case id_username i of Some u \<Rightarrow> u | None \<Rightarrow> ''undefined'')"

datatype from_type = FromCustom | FromAdmin | FromSystem | FromLastWill | FromBridge

record msg_from =
  from_typ :: from_type
  from_id :: ident

fun from_type_as_str :: "from_type \<Rightarrow> string" where
  "from_type_as_str FromCustom = ''custom''"
| "from_type_as_str FromAdmin = ''admin''"
| "from_type_as_str FromSystem = ''system''"
| "from_type_as_str FromLastWill = ''lastwill''"
| "from_type_as_str FromBridge = ''bridge''"

definition from_is_system :: "msg_from \<Rightarrow> bool" where
  "from_is_system f = (from_typ f = FromSystem)"

definition from_is_custom :: "msg_from \<Rightarrow> bool" where
  "from_is_custom f = (from_typ f = FromCustom)"

section \<open>Connections\<close>

datatype connect_info = CI_V3 ident connect3 | CI_V5 ident connect5

fun ci_id :: "connect_info \<Rightarrow> ident" where
  "ci_id (CI_V3 i _) = i"
| "ci_id (CI_V5 i _) = i"

definition ci_client_id :: "connect_info \<Rightarrow> client_id" where
  "ci_client_id c = id_client_id (ci_id c)"

datatype last_will = LW_V3 last_will3 | LW_V5 last_will5

fun ci_last_will :: "connect_info \<Rightarrow> last_will option" where
  "ci_last_will (CI_V3 _ c) = map_option LW_V3 (c3_last_will c)"
| "ci_last_will (CI_V5 _ c) = map_option LW_V5 (c5_last_will c)"

fun ci_keep_alive :: "connect_info \<Rightarrow> u16" where
  "ci_keep_alive (CI_V3 _ c) = c3_keep_alive c"
| "ci_keep_alive (CI_V5 _ c) = c5_keep_alive c"

fun ci_username :: "connect_info \<Rightarrow> bytes option" where
  "ci_username (CI_V3 _ c) = c3_username c"
| "ci_username (CI_V5 _ c) = c5_username c"

fun ci_password :: "connect_info \<Rightarrow> bytes option" where
  "ci_password (CI_V3 _ c) = c3_password c"
| "ci_password (CI_V5 _ c) = c5_password c"

definition ci_ipaddress :: "connect_info \<Rightarrow> socket_addr option" where
  "ci_ipaddress c = id_remote_addr (ci_id c)"

fun ci_clean_start :: "connect_info \<Rightarrow> bool" where
  "ci_clean_start (CI_V3 _ c) = c3_clean_session c"
| "ci_clean_start (CI_V5 _ c) = c5_clean_start c"

fun ci_proto_ver :: "connect_info \<Rightarrow> u8" where
  "ci_proto_ver (CI_V3 _ c) = protocol_level (c3_protocol c)"
| "ci_proto_ver (CI_V5 _ _) = MQTT_LEVEL_5"

fun ci_max_packet_size :: "connect_info \<Rightarrow> u32 option" where
  "ci_max_packet_size (CI_V5 _ c) = c5_max_packet_size c"
| "ci_max_packet_size _ = None"

fun ci_auth_method :: "connect_info \<Rightarrow> bytes option" where
  "ci_auth_method (CI_V5 _ c) = c5_auth_method c"
| "ci_auth_method _ = None"

fun ci_cert :: "connect_info \<Rightarrow> cert_info option" where
  "ci_cert (CI_V3 _ c) = c3_cert c"
| "ci_cert (CI_V5 _ c) = c5_cert c"

datatype broker_disconnect = D_V3 | D_V5 disconnect | D_Other string

fun bd_reason_code :: "broker_disconnect \<Rightarrow> disconnect_reason_code option" where
  "bd_reason_code D_V3 = None"
| "bd_reason_code (D_V5 d) = Some (di_reason_code d)"
| "bd_reason_code (D_Other _) = None"

fun bd_reason :: "broker_disconnect \<Rightarrow> string option" where
  "bd_reason D_V3 = None"
| "bd_reason (D_V5 d) = map_option text_of (di_reason_string d)"
| "bd_reason (D_Other r) = Some r"

datatype any_connack_reason = CAR_V3 connect_ack_reason3 | CAR_V5 connect_ack_reason5

definition car_success :: "any_connack_reason \<Rightarrow> bool" where
  "car_success r \<longleftrightarrow> r = CAR_V3 CAR3_ConnectionAccepted \<or> r = CAR_V5 CAR5_Success"

definition car_not_authorized :: "any_connack_reason \<Rightarrow> bool" where
  "car_not_authorized r \<longleftrightarrow>
     r = CAR_V3 CAR3_NotAuthorized \<or> r = CAR_V3 CAR3_BadUserNameOrPassword
     \<or> r = CAR_V5 CAR5_NotAuthorized \<or> r = CAR_V5 CAR5_BadUserNameOrPassword"

definition car_success_or_auth_error :: "any_connack_reason \<Rightarrow> bool \<times> bool" where
  "car_success_or_auth_error r =
     (case r of
        CAR_V3 CAR3_ConnectionAccepted \<Rightarrow> (True, False)
      | CAR_V5 CAR5_Success \<Rightarrow> (True, False)
      | CAR_V3 CAR3_NotAuthorized \<Rightarrow> (False, True)
      | CAR_V3 CAR3_BadUserNameOrPassword \<Rightarrow> (False, True)
      | CAR_V5 CAR5_NotAuthorized \<Rightarrow> (False, True)
      | CAR_V5 CAR5_BadUserNameOrPassword \<Rightarrow> (False, True)
      | _ \<Rightarrow> (False, False))"

section \<open>Messages\<close>

record msg_publish =
  mp_inner :: publish
  mp_target_clientid :: "client_id option"
  mp_delay_interval :: "u32 option"
  mp_create_time :: "timestamp option"

definition mp_new :: "publish \<Rightarrow> client_id option \<Rightarrow> u32 option \<Rightarrow> timestamp option \<Rightarrow> msg_publish" where
  "mp_new inner target delay create =
     \<lparr>mp_inner = inner, mp_target_clientid = target, mp_delay_interval = delay, mp_create_time = create\<rparr>"

definition mp_from :: "publish \<Rightarrow> msg_publish" where
  "mp_from p = mp_new p None None None"

definition mp_set_target_clientid :: "client_id \<Rightarrow> msg_publish \<Rightarrow> msg_publish" where
  "mp_set_target_clientid c p = p\<lparr>mp_target_clientid := Some c\<rparr>"

definition mp_set_delay_interval :: "u32 \<Rightarrow> msg_publish \<Rightarrow> msg_publish" where
  "mp_set_delay_interval d p = p\<lparr>mp_delay_interval := Some d\<rparr>"

definition mp_set_create_time :: "timestamp \<Rightarrow> msg_publish \<Rightarrow> msg_publish" where
  "mp_set_create_time t p = p\<lparr>mp_create_time := Some t\<rparr>"

fun lw_will_delay_interval :: "last_will \<Rightarrow> u32 option" where
  "lw_will_delay_interval (LW_V3 _) = None"
| "lw_will_delay_interval (LW_V5 w) = lw5_will_delay_interval_sec w"

fun lw_retain :: "last_will \<Rightarrow> bool" where
  "lw_retain (LW_V3 w) = lw3_retain w"
| "lw_retain (LW_V5 w) = lw5_retain w"

text \<open>The position of the first question mark, and the bytes after it.\<close>

fun after_question :: "bytes \<Rightarrow> bytes option" where
  "after_question [] = None"
| "after_question (b # bs) = (if b = 63 then Some bs else after_question bs)"

text \<open>\<open>Publish::try_from(LastWill)\<close>; \<open>form_urlencoded\<close> is the parser of the crate \<open>url\<close>.\<close>

definition publish_from_last_will ::
  "(bytes \<Rightarrow> user_properties) \<Rightarrow> timestamp \<Rightarrow> last_will \<Rightarrow> msg_publish" where
  "publish_from_last_will form_urlencoded now lw =
     (let (retain, qos, topic, payload, props) =
        (case lw of
           LW_V3 w \<Rightarrow>
             (let ups = (case after_question (lw3_topic w) of Some q \<Rightarrow> form_urlencoded q | None \<Rightarrow> [])
              in (lw3_retain w, lw3_qos w, lw3_topic w, lw3_message w,
                  publish_properties_default\<lparr>pp_user_properties := ups\<rparr>))
         | LW_V5 w \<Rightarrow>
             (lw5_retain w, lw5_qos w, lw5_topic w, lw5_message w,
              publish_properties_default\<lparr>
                pp_correlation_data := lw5_correlation_data w,
                pp_message_expiry_interval := lw5_message_expiry_interval w,
                pp_content_type := lw5_content_type w,
                pp_user_properties := lw5_user_properties w,
                pp_is_utf8_payload := (case lw5_is_utf8_payload w of Some b \<Rightarrow> b | None \<Rightarrow> False),
                pp_response_topic := lw5_response_topic w\<rparr>))
      in mp_set_create_time now
           (mp_from \<lparr>pub_dup = False, pub_retain = retain, pub_qos = qos, pub_topic = topic,
             pub_packet_id = None, pub_payload = payload, pub_properties = Some props\<rparr>))"

record stored_message =
  sm_msg_id :: nat
  sm_from :: msg_from
  sm_publish :: msg_publish
  sm_expiry_time_at :: timestamp

definition sm_is_expiry :: "timestamp \<Rightarrow> stored_message \<Rightarrow> bool" where
  "sm_is_expiry now m = (sm_expiry_time_at m < now)"

record retain_msg =
  rt_msg_id :: "nat option"
  rt_from :: msg_from
  rt_publish :: msg_publish

datatype expiry_check = Expiry | Remaining "u32 option"

fun is_expiry :: "expiry_check \<Rightarrow> bool" where
  "is_expiry Expiry = True"
| "is_expiry (Remaining _) = False"

fun ec_message_expiry_interval :: "expiry_check \<Rightarrow> u32 option" where
  "ec_message_expiry_interval Expiry = None"
| "ec_message_expiry_interval (Remaining i) = i"

section \<open>Results and reasons\<close>

record publish_result =
  pr_reason_code :: publish_ack_reason
  pr_properties :: user_properties
  pr_reason_string :: "string option"
  pr_disconnect :: bool

definition pr_default :: publish_result where
  "pr_default = \<lparr>pr_reason_code = PAR_Success, pr_properties = [], pr_reason_string = None, pr_disconnect = False\<rparr>"

definition pr_success :: publish_result where
  "pr_success = pr_default\<lparr>pr_reason_code := PAR_Success\<rparr>"

definition pr_of_reason_code :: "publish_ack_reason \<Rightarrow> string option \<Rightarrow> bool \<Rightarrow> publish_result" where
  "pr_of_reason_code code reason disc =
     pr_default\<lparr>pr_reason_code := code, pr_reason_string := reason, pr_disconnect := disc\<rparr>"

definition pr_is_success :: "publish_result \<Rightarrow> bool" where
  "pr_is_success r = (pr_reason_code r = PAR_Success)"

definition acl_allow :: publish_result where
  "acl_allow = pr_of_reason_code PAR_Success None False"

definition acl_rejected :: "bool \<Rightarrow> string option \<Rightarrow> publish_result" where
  "acl_rejected disc reason =
     pr_of_reason_code PAR_NotAuthorized
       (Some (case reason of Some r \<Rightarrow> r | None \<Rightarrow> ''PublishRefused'')) disc"

definition acl_is_allow :: "publish_result \<Rightarrow> bool" where
  "acl_is_allow r = (pr_reason_code r = PAR_Success)"

datatype mqtt_error =
    MErrHandshake handshake_error | MErrProtocol protocol_error | MErrDecode decode_error
  | MErrEncode encode_error | MErrSendPacket send_packet_error
  | MErrReadTimeout | MErrWriteTimeout | MErrFlushTimeout | MErrCloseTimeout
  | MErrPublishAckReason publish_ack_reason string | MErrServiceUnavailable | MErrInvalidProtocol
  | MErrTooManySubscriptions | MErrTooManyTopicLevels | MErrSubscribeLimited string
  | MErrIdentifierRejected | MErrPacketIdInUse u16 | MErrNone

fun mqtt_error_to_reason_code :: "mqtt_error \<Rightarrow> disconnect_reason_code" where
  "mqtt_error_to_reason_code (MErrHandshake e) = handshake_error_to_reason_code e"
| "mqtt_error_to_reason_code (MErrProtocol e) = protocol_error_to_reason_code e"
| "mqtt_error_to_reason_code (MErrDecode e) = decode_error_to_reason_code e"
| "mqtt_error_to_reason_code (MErrEncode e) = encode_error_to_reason_code e"
| "mqtt_error_to_reason_code (MErrSendPacket e) = send_packet_error_to_reason_code e"
| "mqtt_error_to_reason_code MErrReadTimeout = DRC_KeepAliveTimeout"
| "mqtt_error_to_reason_code MErrWriteTimeout = DRC_KeepAliveTimeout"
| "mqtt_error_to_reason_code MErrFlushTimeout = DRC_KeepAliveTimeout"
| "mqtt_error_to_reason_code MErrCloseTimeout = DRC_KeepAliveTimeout"
| "mqtt_error_to_reason_code (MErrPublishAckReason _ _) = DRC_ImplementationSpecificError"
| "mqtt_error_to_reason_code MErrServiceUnavailable = DRC_ServerBusy"
| "mqtt_error_to_reason_code MErrInvalidProtocol = DRC_ProtocolError"
| "mqtt_error_to_reason_code MErrTooManySubscriptions = DRC_QuotaExceeded"
| "mqtt_error_to_reason_code MErrTooManyTopicLevels = DRC_TopicNameInvalid"
| "mqtt_error_to_reason_code (MErrSubscribeLimited _) = DRC_QuotaExceeded"
| "mqtt_error_to_reason_code MErrIdentifierRejected = DRC_NotAuthorized"
| "mqtt_error_to_reason_code (MErrPacketIdInUse _) = DRC_UnspecifiedError"
| "mqtt_error_to_reason_code MErrNone = DRC_UnspecifiedError"

datatype reason =
    R_ConnectDisconnect "broker_disconnect option" | R_ConnectReadWriteTimeout | R_ConnectReadWriteError
  | R_ConnectRemoteClose | R_ConnectKeepaliveTimeout | R_ConnectKicked bool | R_HandshakeRateExceeded
  | R_SessionExpiration | R_SubscribeFailed "string option" | R_UnsubscribeFailed "string option"
  | R_PublishResult publish_result | R_SubscribeRefused | R_DelayedPublishRefused | R_MessageExpiration
  | R_MessageQueueFull | R_InflightWindowFull | R_ProtocolError string | R_Error string
  | R_MqttError mqtt_error | R_Reasons "reason list" | R_Unknown

fun reason_is_kicked :: "reason \<Rightarrow> bool \<Rightarrow> bool" where
  "reason_is_kicked (R_ConnectKicked a) admin_opt = (a = admin_opt)"
| "reason_is_kicked _ _ = False"

fun reason_is_kicked_by_admin :: "reason \<Rightarrow> bool" where
  "reason_is_kicked_by_admin (R_ConnectKicked True) = True"
| "reason_is_kicked_by_admin _ = False"

definition pr_of :: "publish_ack_reason \<Rightarrow> string \<Rightarrow> bool \<Rightarrow> publish_result" where
  "pr_of code msg disc = \<lparr>pr_reason_code = code, pr_properties = [], pr_reason_string = Some msg, pr_disconnect = disc\<rparr>"

fun publish_result_from_reason :: "reason \<Rightarrow> publish_result" where
  "publish_result_from_reason (R_PublishResult r) = r"
| "publish_result_from_reason R_MessageQueueFull = pr_of PAR_QuotaExceeded ''Message queue full'' False"
| "publish_result_from_reason R_InflightWindowFull = pr_of PAR_QuotaExceeded ''Inflight window full'' False"
| "publish_result_from_reason R_SubscribeRefused = pr_of PAR_ImplementationSpecificError ''Publish refused'' False"
| "publish_result_from_reason R_DelayedPublishRefused = pr_of PAR_ImplementationSpecificError ''Publish refused'' False"
| "publish_result_from_reason R_MessageExpiration = pr_of PAR_UnspecifiedError ''Message expired'' True"
| "publish_result_from_reason (R_ProtocolError msg) = pr_of PAR_UnspecifiedError (''Protocol error: '' @ msg) True"
| "publish_result_from_reason (R_Error msg) = pr_of PAR_ImplementationSpecificError msg True"
| "publish_result_from_reason (R_MqttError _) = pr_of PAR_UnspecifiedError ''MQTT internal error'' True"
| "publish_result_from_reason _ = pr_of PAR_UnspecifiedError ''Connection or session related error'' True"

fun reason_to_reason_code :: "reason \<Rightarrow> disconnect_reason_code" where
  "reason_to_reason_code (R_ConnectDisconnect (Some (D_V5 d))) = di_reason_code d"
| "reason_to_reason_code (R_ConnectDisconnect _) = DRC_NormalDisconnection"
| "reason_to_reason_code R_ConnectReadWriteTimeout = DRC_KeepAliveTimeout"
| "reason_to_reason_code R_ConnectReadWriteError = DRC_UnspecifiedError"
| "reason_to_reason_code R_ConnectRemoteClose = DRC_ServerShuttingDown"
| "reason_to_reason_code R_ConnectKeepaliveTimeout = DRC_KeepAliveTimeout"
| "reason_to_reason_code (R_ConnectKicked is_admin) =
     (if is_admin then DRC_AdministrativeAction else DRC_NotAuthorized)"
| "reason_to_reason_code R_HandshakeRateExceeded = DRC_ConnectionRateExceeded"
| "reason_to_reason_code R_SessionExpiration = DRC_SessionTakenOver"
| "reason_to_reason_code (R_SubscribeFailed _) = DRC_UnspecifiedError"
| "reason_to_reason_code (R_UnsubscribeFailed _) = DRC_UnspecifiedError"
| "reason_to_reason_code R_SubscribeRefused = DRC_NotAuthorized"
| "reason_to_reason_code (R_PublishResult r) = par_to_reason_code (pr_reason_code r)"
| "reason_to_reason_code R_DelayedPublishRefused = DRC_NotAuthorized"
| "reason_to_reason_code R_MessageExpiration = DRC_MessageRateTooHigh"
| "reason_to_reason_code R_MessageQueueFull = DRC_QuotaExceeded"
| "reason_to_reason_code R_InflightWindowFull = DRC_ReceiveMaximumExceeded"
| "reason_to_reason_code (R_ProtocolError _) = DRC_ProtocolError"
| "reason_to_reason_code (R_Error _) = DRC_UnspecifiedError"
| "reason_to_reason_code (R_MqttError e) = mqtt_error_to_reason_code e"
| "reason_to_reason_code (R_Reasons rs) =
     (case rs of r # _ \<Rightarrow> reason_to_reason_code r | [] \<Rightarrow> DRC_UnspecifiedError)"
| "reason_to_reason_code R_Unknown = DRC_UnspecifiedError"

section \<open>Extended topic filters\<close>

datatype filter_error = IllegalTopicFilter string | SharedNotEnabled string | LimitNotEnabled string

text \<open>\<open>s.splitn(n, '/')\<close>: at most \<open>n\<close> parts, the last one unsplit.\<close>

fun splitn_slash :: "nat \<Rightarrow> string \<Rightarrow> string list" where
  "splitn_slash 0 s = []"
| "splitn_slash (Suc 0) s = [s]"
| "splitn_slash (Suc (Suc n)) [] = [[]]"
| "splitn_slash (Suc (Suc n)) (c # cs) =
     (if c = CHR ''/'' then [] # splitn_slash (Suc n) cs
      else case splitn_slash (Suc (Suc n)) cs of [] \<Rightarrow> [[c]] | p # ps \<Rightarrow> (c # p) # ps)"

text \<open>\<open>s.parse::<usize>()\<close>: an optional plus sign, then decimal digits, within 64 bits.\<close>

definition digit_val :: "char \<Rightarrow> nat option" where
  "digit_val c = (let n = of_char c :: nat in if 48 \<le> n \<and> n \<le> 57 then Some (n - 48) else None)"

fun parse_digits :: "nat \<Rightarrow> string \<Rightarrow> nat option" where
  "parse_digits acc [] = Some acc"
| "parse_digits acc (c # cs) =
     (case digit_val c of
        None \<Rightarrow> None
      | Some d \<Rightarrow> if 10 * acc + d < 2 ^ 64 then parse_digits (10 * acc + d) cs else None)"

definition parse_usize :: "string \<Rightarrow> nat option" where
  "parse_usize s =
     (let ds = (case s of c # cs \<Rightarrow> if c = CHR ''+'' then cs else s | [] \<Rightarrow> [])
      in if ds = [] then None else parse_digits 0 ds)"

text \<open>\<open>s.trim_start_matches("$exclusive/")\<close> removes the prefix as often as it occurs.\<close>

fun trim_start :: "nat \<Rightarrow> string \<Rightarrow> string \<Rightarrow> string" where
  "trim_start 0 pre s = s"
| "trim_start (Suc n) pre s =
     (if pre \<noteq> [] \<and> take (length pre) s = pre then trim_start n pre (drop (length pre) s) else s)"

definition trim_start_matches :: "string \<Rightarrow> string \<Rightarrow> string" where
  "trim_start_matches pre s = trim_start (length s) pre s"

definition nth_level :: "string list \<Rightarrow> nat \<Rightarrow> string option" where
  "nth_level ls i = (if i < length ls then Some (ls ! i) else None)"

definition parse_topic_filter :: "string \<Rightarrow> bool \<Rightarrow> bool \<Rightarrow>
    filter_error + topic_filter \<times> shared_group option \<times> nat option" where
  "parse_topic_filter topic_filter shared_subscription limit_subscription =
     (let res =
        (if shared_subscription \<or> limit_subscription then
           (let ls = splitn_slash 3 topic_filter
            in if nth_level ls 0 = Some ''$share'' then
                 (if shared_subscription then
                    (case (nth_level ls 1, nth_level ls 2) of
                       (Some grp, Some tf) \<Rightarrow> Inr (tf, Some grp, None)
                     | _ \<Rightarrow> Inl (IllegalTopicFilter topic_filter))
                  else Inl (SharedNotEnabled topic_filter))
               else if nth_level ls 0 = Some ''$limit'' then
                 (if limit_subscription then
                    (case (nth_level ls 1, nth_level ls 2) of
                       (Some limit, Some tf) \<Rightarrow>
                         (case parse_usize limit of
                            Some n \<Rightarrow> Inr (tf, None, Some n)
                          | None \<Rightarrow> Inl (IllegalTopicFilter topic_filter))
                     | _ \<Rightarrow> Inl (IllegalTopicFilter topic_filter))
                  else Inl (LimitNotEnabled topic_filter))
               else if nth_level ls 0 = Some ''$exclusive'' then
                 (if limit_subscription
                  then Inr (trim_start_matches ''$exclusive/'' topic_filter, None, Some 1)
                  else Inl (LimitNotEnabled topic_filter))
               else Inr (topic_filter, None, None))
         else Inr (topic_filter, None, None))
      in case res of
           Inl e \<Rightarrow> Inl e
         | Inr (topic, grp, limit) \<Rightarrow>
             if topic = [] then Inl (IllegalTopicFilter topic_filter) else Inr (topic, grp, limit))"

section \<open>Subscriptions\<close>

record sub_options_v3 =
  s3_qos :: qos
  s3_shared_group :: "shared_group option"
  s3_limit_subs :: "nat option"

record sub_options_v5 =
  s5_qos :: qos
  s5_shared_group :: "shared_group option"
  s5_limit_subs :: "nat option"
  s5_no_local :: bool
  s5_retain_as_published :: bool
  s5_retain_handling :: retain_handling
  s5_id :: "u32 option"

datatype sub_options = SO_V3 sub_options_v3 | SO_V5 sub_options_v5

definition so_default :: sub_options where
  "so_default = SO_V3 \<lparr>s3_qos = AtMostOnce, s3_shared_group = None, s3_limit_subs = None\<rparr>"

fun opt_no_local :: "sub_options \<Rightarrow> bool option" where
  "opt_no_local (SO_V3 _) = None"
| "opt_no_local (SO_V5 o5) = Some (s5_no_local o5)"

fun opt_retain_as_published :: "sub_options \<Rightarrow> bool option" where
  "opt_retain_as_published (SO_V3 _) = None"
| "opt_retain_as_published (SO_V5 o5) = Some (s5_retain_as_published o5)"

fun opt_retain_handling :: "sub_options \<Rightarrow> retain_handling option" where
  "opt_retain_handling (SO_V3 _) = None"
| "opt_retain_handling (SO_V5 o5) = Some (s5_retain_handling o5)"

fun opt_subscription_identifier :: "sub_options \<Rightarrow> u32 option" where
  "opt_subscription_identifier (SO_V3 _) = None"
| "opt_subscription_identifier (SO_V5 o5) = s5_id o5"

fun opt_qos :: "sub_options \<Rightarrow> qos" where
  "opt_qos (SO_V3 o3) = s3_qos o3"
| "opt_qos (SO_V5 o5) = s5_qos o5"

definition opt_qos_value :: "sub_options \<Rightarrow> u8" where
  "opt_qos_value opts = qos_value (opt_qos opts)"

fun opt_set_qos :: "qos \<Rightarrow> sub_options \<Rightarrow> sub_options" where
  "opt_set_qos q (SO_V3 o3) = SO_V3 (o3\<lparr>s3_qos := q\<rparr>)"
| "opt_set_qos q (SO_V5 o5) = SO_V5 (o5\<lparr>s5_qos := q\<rparr>)"

fun opt_shared_group :: "sub_options \<Rightarrow> shared_group option" where
  "opt_shared_group (SO_V3 o3) = s3_shared_group o3"
| "opt_shared_group (SO_V5 o5) = s5_shared_group o5"

definition has_shared_group :: "sub_options \<Rightarrow> bool" where
  "has_shared_group opts = (opt_shared_group opts \<noteq> None)"

fun opt_limit_subs :: "sub_options \<Rightarrow> nat option" where
  "opt_limit_subs (SO_V3 o3) = s3_limit_subs o3"
| "opt_limit_subs (SO_V5 o5) = s5_limit_subs o5"

definition has_limit_subs :: "sub_options \<Rightarrow> bool" where
  "has_limit_subs opts = (opt_limit_subs opts \<noteq> None)"

fun opt_is_v3 :: "sub_options \<Rightarrow> bool" where
  "opt_is_v3 (SO_V3 _) = True"
| "opt_is_v3 (SO_V5 _) = False"

definition sub_options_from_v3 :: "qos \<Rightarrow> shared_group option \<Rightarrow> nat option \<Rightarrow> sub_options" where
  "sub_options_from_v3 q grp limit = SO_V3 \<lparr>s3_qos = q, s3_shared_group = grp, s3_limit_subs = limit\<rparr>"

definition sub_options_from_v5 :: "subscription_options \<Rightarrow> shared_group option \<Rightarrow> nat option \<Rightarrow> u32 option \<Rightarrow>
    sub_options" where
  "sub_options_from_v5 opts grp limit sid =
     SO_V5 \<lparr>s5_qos = so_qos opts, s5_shared_group = grp, s5_limit_subs = limit,
       s5_no_local = so_no_local opts, s5_retain_as_published = so_retain_as_published opts,
       s5_retain_handling = so_retain_handling opts, s5_id = sid\<rparr>"

record broker_subscribe =
  bs_topic_filter :: topic_filter
  bs_opts :: sub_options

definition subscribe_from_v3 :: "string \<Rightarrow> qos \<Rightarrow> bool \<Rightarrow> bool \<Rightarrow> filter_error + broker_subscribe" where
  "subscribe_from_v3 tf q shared limit =
     (case parse_topic_filter tf shared limit of
        Inl e \<Rightarrow> Inl e
      | Inr (tf, grp, limit_subs) \<Rightarrow>
          Inr \<lparr>bs_topic_filter = tf, bs_opts = sub_options_from_v3 q grp limit_subs\<rparr>)"

definition subscribe_from_v5 :: "string \<Rightarrow> subscription_options \<Rightarrow> bool \<Rightarrow> bool \<Rightarrow> u32 option \<Rightarrow>
    filter_error + broker_subscribe" where
  "subscribe_from_v5 tf opts shared limit sid =
     (case parse_topic_filter tf shared limit of
        Inl e \<Rightarrow> Inl e
      | Inr (tf, grp, limit_subs) \<Rightarrow>
          Inr \<lparr>bs_topic_filter = tf, bs_opts = sub_options_from_v5 opts grp limit_subs sid\<rparr>)"

record broker_unsubscribe =
  bu_topic_filter :: topic_filter
  bu_shared_group :: "shared_group option"

definition unsubscribe_from :: "string \<Rightarrow> bool \<Rightarrow> bool \<Rightarrow> filter_error + broker_unsubscribe" where
  "unsubscribe_from tf shared limit =
     (case parse_topic_filter tf shared limit of
        Inl e \<Rightarrow> Inl e
      | Inr (tf, grp, _) \<Rightarrow> Inr \<lparr>bu_topic_filter = tf, bu_shared_group = grp\<rparr>)"

record subscribe_return =
  sr_ack_reason :: subscribe_ack_reason
  sr_prev_opts :: "sub_options option"

definition sr_new_success :: "qos \<Rightarrow> sub_options option \<Rightarrow> subscribe_return" where
  "sr_new_success q prev =
     \<lparr>sr_ack_reason =
        (case q of AtMostOnce \<Rightarrow> SAR_GrantedQos0 | AtLeastOnce \<Rightarrow> SAR_GrantedQos1 | ExactlyOnce \<Rightarrow> SAR_GrantedQos2),
      sr_prev_opts = prev\<rparr>"

definition sr_new_failure :: "subscribe_ack_reason \<Rightarrow> subscribe_return" where
  "sr_new_failure r = \<lparr>sr_ack_reason = r, sr_prev_opts = None\<rparr>"

definition sr_success :: "subscribe_return \<Rightarrow> qos option" where
  "sr_success r =
     (case sr_ack_reason r of
        SAR_GrantedQos0 \<Rightarrow> Some AtMostOnce
      | SAR_GrantedQos1 \<Rightarrow> Some AtLeastOnce
      | SAR_GrantedQos2 \<Rightarrow> Some ExactlyOnce
      | _ \<Rightarrow> None)"

definition sr_failure :: "subscribe_return \<Rightarrow> bool" where
  "sr_failure r \<longleftrightarrow>
     \<not> (sr_ack_reason r = SAR_GrantedQos0 \<or> sr_ack_reason r = SAR_GrantedQos1 \<or> sr_ack_reason r = SAR_GrantedQos2)"

section \<open>Facts\<close>

lemma splitn_prefix:
  "CHR ''/'' \<notin> set p \<Longrightarrow> splitn_slash (Suc (Suc n)) (p @ CHR ''/'' # s) = p # splitn_slash (Suc n) s"
  by (induction p) auto

lemma sr_success_iff: "sr_failure r \<longleftrightarrow> sr_success r = None"
  by (cases "sr_ack_reason r") (auto simp: sr_failure_def sr_success_def)

lemma nth_level_Cons [simp]:
  "nth_level (x # xs) 0 = Some x" "nth_level (x # xs) (Suc i) = nth_level xs i" "nth_level [] i = None"
  by (simp_all add: nth_level_def)

lemma splitn_first:
  "nth_level (splitn_slash (Suc (Suc n)) s) 0 = Some (takeWhile (\<lambda>c. c \<noteq> CHR ''/'') s)"
  by (induction s) (auto simp: nth_level_def split: list.splits)

text \<open>The codes of errors, as numbers.\<close>

lemma error_codes:
  "128 \<le> unat (drc_to_u8 (decode_error_to_reason_code d))"
  "128 \<le> unat (drc_to_u8 (encode_error_to_reason_code n))"
  by (cases d; simp) (cases n; simp)

lemma protocol_error_codes: "128 \<le> unat (drc_to_u8 (protocol_error_to_reason_code p))"
  by (cases p) (simp_all add: error_codes)

lemma mqtt_error_codes: "128 \<le> unat (drc_to_u8 (mqtt_error_to_reason_code e))"
proof (cases e)
  case (MErrHandshake h)
  then show ?thesis by (cases h) (simp_all add: protocol_error_codes)
next
  case (MErrSendPacket s)
  then show ?thesis by (cases s) (simp add: error_codes)
qed (simp_all add: error_codes protocol_error_codes)

text \<open>The reasons that are not errors: a DISCONNECT of the client and a publish result that is a success.\<close>

fun reason_is_normal :: "reason \<Rightarrow> bool" where
  "reason_is_normal (R_ConnectDisconnect _) = True"
| "reason_is_normal (R_PublishResult r) = (pr_reason_code r = PAR_Success \<or> pr_reason_code r = PAR_NoMatchingSubscribers)"
| "reason_is_normal (R_Reasons rs) = (case rs of r # _ \<Rightarrow> reason_is_normal r | [] \<Rightarrow> False)"
| "reason_is_normal _ = False"

section \<open>Properties\<close>

text \<open>Every reason for which a session ends, except a DISCONNECT of the client and a successful
  publish result, is reported with an error code, 0x80 or above; this includes every error of
  the codec, the protocol and the handshake.\<close>

theorem reason_error_codes:
  assumes "\<not> reason_is_normal r"
  shows "0x80 \<le> unat (drc_to_u8 (reason_to_reason_code r))"
  using assms
proof (induction r rule: reason_to_reason_code.induct)
  case (13 r)
  then show ?case by (cases "pr_reason_code r") simp_all
next
  case (21 rs)
  then show ?case by (cases rs) simp_all
qed (simp_all add: mqtt_error_codes)

theorem reason_error_codes_witness:
  "0x80 \<le> unat (drc_to_u8 (reason_to_reason_code (R_Reasons [R_MqttError MErrTooManySubscriptions])))"
  by (rule reason_error_codes) simp

text \<open>A filter \<open>$share/group/filter\<close> is a shared subscription of the group to the filter, and a
  filter \<open>$limit/n/filter\<close> a subscription of at most \<open>n\<close> clients, whatever the filter contains.\<close>

theorem extended_filters:
  assumes "CHR ''/'' \<notin> set g" and "tf \<noteq> []" and "CHR ''/'' \<notin> set n" and "parse_usize n = Some k"
  shows "parse_topic_filter (''$share/'' @ g @ ''/'' @ tf) True l = Inr (tf, Some g, None) \<and>
    parse_topic_filter (''$limit/'' @ n @ ''/'' @ tf) s True = Inr (tf, None, Some k)"
proof
  have "splitn_slash 3 (''$share'' @ CHR ''/'' # g @ CHR ''/'' # tf) = [''$share'', g, tf]"
    using splitn_prefix [of "''$share''" "Suc 0"] splitn_prefix [OF assms(1), of 0 tf] by (simp add: numeral_3_eq_3)
  then show "parse_topic_filter (''$share/'' @ g @ ''/'' @ tf) True l = Inr (tf, Some g, None)"
    using assms(2) by (simp add: parse_topic_filter_def numeral_2_eq_2)
  have "splitn_slash 3 (''$limit'' @ CHR ''/'' # n @ CHR ''/'' # tf) = [''$limit'', n, tf]"
    using splitn_prefix [of "''$limit''" "Suc 0"] splitn_prefix [OF assms(3), of 0 tf] by (simp add: numeral_3_eq_3)
  then show "parse_topic_filter (''$limit/'' @ n @ ''/'' @ tf) s True = Inr (tf, None, Some k)"
    using assms(2,4) by (simp add: parse_topic_filter_def numeral_2_eq_2)
qed

theorem extended_filters_witness:
  "parse_topic_filter (''$share/'' @ ''g1'' @ ''/'' @ ''a/+'') True False = Inr (''a/+'', Some ''g1'', None) \<and>
   parse_topic_filter (''$limit/'' @ ''12'' @ ''/'' @ ''a/+'') False True = Inr (''a/+'', None, Some 12)"
  by (rule extended_filters) (simp_all add: parse_usize_def digit_val_def of_char_def Let_def)

end
