(* ===== verification/Router.thy ===== *)
theory Router
  imports Broker_Types Trie
begin

text \<open>
  The router, \<open>ferromq/src/router.rs\<close> (\<open>DefaultRouter\<close>), with the collector of subscription relations of
  \<open>types.rs\<close>. Subscriptions live in two structures, the topic tree (\<open>Trie\<close>) and the map of relations (topic filter
  to client to identity and options), with two counters. Hash maps are association lists; the loops
  over them run in the order of the list.

  \<open>add\<close> and \<open>remove\<close> are split into the steps that hold a lock: sequentially they keep the invariant \<open>router_inv\<close>;
  interleaved steps of two tasks need not. The online test and the choice of a member of a shared group
  (plug-ins) are parameters.

  Shown: the two structures and the counters agree after any sequence of operations; a publication reaches
  exactly the clients with a matching subscription and one chosen member of each shared group; the interleaving
  of an unsubscription with a subscription that loses the latter.
\<close>

section \<open>The state\<close>

type_synonym relation = "ident \<times> sub_options"
type_synonym relations = "(topic_filter \<times> (client_id \<times> relation) list) list"

record router =
  rt_topics :: "unit node"
  rt_topics_count :: counter
  rt_relations :: relations
  rt_relations_count :: counter

definition router_new :: router where
  "router_new = \<lparr>rt_topics = node_default, rt_topics_count = counter_new, rt_relations = [],
     rt_relations_count = counter_new\<rparr>"

section \<open>Adding and removing\<close>

definition add_topic :: "topic \<Rightarrow> router \<Rightarrow> router" where
  "add_topic t r = r\<lparr>rt_topics := snd (node_insert t () (rt_topics r))\<rparr>"

text \<open>\<open>relations.entry(..).or_insert_with(..).insert(..)\<close>, under the lock of the entry.\<close>

definition add_relation :: "topic_filter \<Rightarrow> ident \<Rightarrow> sub_options \<Rightarrow> router \<Rightarrow> router" where
  "add_relation tf i opts r =
     (let (r, rels) = (case map_of (rt_relations r) tf of
                         Some rels \<Rightarrow> (r, rels)
                       | None \<Rightarrow> (r\<lparr>rt_topics_count := counter_inc (rt_topics_count r)\<rparr>, []));
          old = map_of rels (id_client_id i);
          r = r\<lparr>rt_relations := AList.update tf (AList.update (id_client_id i) (i, opts) rels) (rt_relations r)\<rparr>
      in if old = None then r\<lparr>rt_relations_count := counter_inc (rt_relations_count r)\<rparr> else r)"

definition router_add :: "topic_filter \<Rightarrow> ident \<Rightarrow> sub_options \<Rightarrow> router \<Rightarrow> (topic_error + unit) \<times> router" where
  "router_add tf i opts r =
     (case topic_from_str tf of
        Inl e \<Rightarrow> (Inl e, r)
      | Inr t \<Rightarrow> (Inr (), add_relation tf i opts (add_topic t r)))"

text \<open>The first step of \<open>remove\<close>: \<open>Some (is_empty, remove_ok)\<close> when the relation is the one of this identity.\<close>

definition remove_relation :: "topic_filter \<Rightarrow> ident \<Rightarrow> router \<Rightarrow> (bool \<times> bool) option \<times> router" where
  "remove_relation tf i r =
     (case map_of (rt_relations r) tf of
        None \<Rightarrow> (None, r)
      | Some rels \<Rightarrow>
          (let remove_enable = (case map_of rels (id_client_id i) of Some (s_id, _) \<Rightarrow> s_id = i | None \<Rightarrow> False)
           in if remove_enable then
                (let remove_ok = map_of rels (id_client_id i) \<noteq> None;
                     rels' = AList.delete (id_client_id i) rels;
                     r = r\<lparr>rt_relations := AList.update tf rels' (rt_relations r)\<rparr>;
                     r = (if remove_ok then r\<lparr>rt_relations_count := counter_dec (rt_relations_count r)\<rparr> else r)
                 in (Some (rels' = [], remove_ok), r))
              else (None, r)))"

definition remove_entry :: "topic_filter \<Rightarrow> router \<Rightarrow> router" where
  "remove_entry tf r =
     (if map_of (rt_relations r) tf \<noteq> None
      then r\<lparr>rt_relations := AList.delete tf (rt_relations r), rt_topics_count := counter_dec (rt_topics_count r)\<rparr>
      else r)"

definition remove_topic :: "topic \<Rightarrow> router \<Rightarrow> router" where
  "remove_topic t r = r\<lparr>rt_topics := snd (node_remove t () (rt_topics r))\<rparr>"

definition router_remove :: "topic_filter \<Rightarrow> ident \<Rightarrow> router \<Rightarrow> (topic_error + bool) \<times> router" where
  "router_remove tf i r =
     (case remove_relation tf i r of
        (Some (is_empty, remove_ok), r) \<Rightarrow>
          (if is_empty then
             (let r = remove_entry tf r
              in case topic_from_str tf of
                   Inl e \<Rightarrow> (Inl e, r)
                 | Inr t \<Rightarrow> (Inr remove_ok, remove_topic t r))
           else (Inr remove_ok, r))
      | (None, r) \<Rightarrow> (Inr False, r))"

section \<open>Collecting the subscribers\<close>

type_synonym shared_group_type = "shared_group \<times> bool \<times> client_id list"
type_synonym sub_relation = "topic_filter \<times> client_id \<times> sub_options \<times> u32 list option \<times> shared_group_type option"
type_synonym member = "node_id \<times> client_id \<times> sub_options \<times> u32 list option \<times> bool option"

record collector =
  col_v3_rels :: "sub_relation list"
  col_v5_rels :: "(client_id \<times> (topic_filter \<times> sub_options \<times> u32 list option \<times> shared_group_type option)) list"

definition collector_default :: collector where
  "collector_default = \<lparr>col_v3_rels = [], col_v5_rels = []\<rparr>"

definition collector_add :: "topic_filter \<Rightarrow> client_id \<Rightarrow> sub_options \<Rightarrow> shared_group_type option \<Rightarrow> collector \<Rightarrow> collector" where
  "collector_add tf c opts grp col =
     (if opt_is_v3 opts then col\<lparr>col_v3_rels := col_v3_rels col @ [(tf, c, opts, None, grp)]\<rparr>
      else col\<lparr>col_v5_rels :=
        AList.update c
          (case map_of (col_v5_rels col) c of
             Some (tf', opts', sub_ids, grp') \<Rightarrow>
               (tf', opts',
                (case opt_subscription_identifier opts of
                   Some sid \<Rightarrow> (case sub_ids of Some ids \<Rightarrow> Some (ids @ [sid]) | None \<Rightarrow> Some [sid])
                 | None \<Rightarrow> sub_ids),
                grp')
           | None \<Rightarrow> (tf, opts, map_option (\<lambda>sid. [sid]) (opt_subscription_identifier opts), grp))
          (col_v5_rels col)\<rparr>)"

definition collector_into :: "collector \<Rightarrow> sub_relation list" where
  "collector_into col =
     col_v3_rels col @ map (\<lambda>(c, (tf, opts, sub_ids, grp)). (tf, c, opts, sub_ids, grp)) (col_v5_rels col)"

text \<open>\<open>map.entry(k).or_default()\<close>, changed in place.\<close>

definition entry_modify :: "'k \<Rightarrow> 'v \<Rightarrow> ('v \<Rightarrow> 'v) \<Rightarrow> ('k \<times> 'v) list \<Rightarrow> ('k \<times> 'v) list" where
  "entry_modify k d f al = AList.update k (f (case map_of al k of Some v \<Rightarrow> v | None \<Rightarrow> d)) al"

section \<open>Matching\<close>

text \<open>The loop over the iterator of a tree.\<close>

lemma mi_next_Some_pending: "mi_next it = (Some x, it') \<Longrightarrow> pending it = x # pending it'"
  using next_pending(1) [of it] by (cases "pending it") auto

lemma mi_next_None_pending: "mi_next it = (None, it') \<Longrightarrow> pending it = []"
  using next_pending(1) [of it] by (cases "pending it") auto

function mi_collect :: "'v matched_iter \<Rightarrow> 'v item list" where
  "mi_collect it = (case mi_next it of (Some x, it') \<Rightarrow> x # mi_collect it' | (None, it') \<Rightarrow> [])"
  by pat_completeness auto
termination
  by (relation "measure (\<lambda>it. length (pending it))") (auto dest: mi_next_Some_pending [OF sym])

declare mi_collect.simps [simp del]

lemma mi_collect_pending: "mi_collect it = pending it"
proof (induction it rule: mi_collect.induct)
  case (1 it)
  then show ?case
    by (subst mi_collect.simps)
      (auto split: prod.splits option.splits dest: mi_next_Some_pending mi_next_None_pending)
qed

type_synonym choice_fn = "shared_group \<Rightarrow> ident \<Rightarrow> string \<Rightarrow> member list \<Rightarrow> (nat \<times> bool) option"
type_synonym collectors = "(node_id \<times> collector) list"

definition rel_step :: "(node_id \<Rightarrow> client_id \<Rightarrow> bool) \<Rightarrow> ident \<Rightarrow> topic_filter \<Rightarrow> client_id \<times> relation \<Rightarrow>
    (shared_group \<times> member list) list \<times> collectors \<Rightarrow> (shared_group \<times> member list) list \<times> collectors" where
  "rel_step is_online this_id tf = (\<lambda>(c, (i, opts)) (groups, cmap).
     if opt_no_local opts = Some True \<and> this_id = i then (groups, cmap)
     else
       (case opt_shared_group opts of
          Some g \<Rightarrow>
            (entry_modify g [] (\<lambda>ms. ms @ [(id_node_id i, c, opts, None, Some (is_online (id_node_id i) c))]) groups, cmap)
        | None \<Rightarrow> (groups, entry_modify (id_node_id i) collector_default (collector_add tf c opts None) cmap)))"

text \<open>The result \<open>None\<close> is the panic of \<open>s_subs.remove(idx)\<close>.\<close>

definition group_step :: "choice_fn \<Rightarrow> ident \<Rightarrow> string \<Rightarrow> topic_filter \<Rightarrow> shared_group \<times> member list \<Rightarrow>
    collectors \<Rightarrow> collectors option" where
  "group_step choice this_id topic_name tf = (\<lambda>(g, s_subs) cmap.
     let group_cids = map (\<lambda>(_, cid, _). cid) s_subs
     in case choice g this_id topic_name s_subs of
          Some (idx, is_online) \<Rightarrow>
            (if idx < length s_subs then
               (case s_subs ! idx of
                  (n, c, opts, _) \<Rightarrow>
                    Some (entry_modify n collector_default (collector_add tf c opts (Some (g, is_online, group_cids))) cmap))
             else None)
        | None \<Rightarrow> Some cmap)"

fun fold_option :: "('a \<Rightarrow> 'b \<Rightarrow> 'b option) \<Rightarrow> 'a list \<Rightarrow> 'b \<Rightarrow> 'b option" where
  "fold_option f [] b = Some b"
| "fold_option f (x # xs) b = (case f x b of None \<Rightarrow> None | Some b' \<Rightarrow> fold_option f xs b')"

definition filter_step :: "(node_id \<Rightarrow> client_id \<Rightarrow> bool) \<Rightarrow> choice_fn \<Rightarrow> relations \<Rightarrow> ident \<Rightarrow> string \<Rightarrow>
    unit item \<Rightarrow> collectors \<Rightarrow> collectors option" where
  "filter_step is_online choice rel_map this_id topic_name = (\<lambda>(ls, _) cmap.
     let tf = to_topic_filter ls;
         (groups, cmap) =
           (case map_of rel_map tf of
              Some rels \<Rightarrow> fold (rel_step is_online this_id tf) rels ([], cmap)
            | None \<Rightarrow> ([], cmap))
     in fold_option (group_step choice this_id topic_name tf) groups cmap)"

datatype match_error = MatchTopic topic_error | MatchPanic

definition router_matches :: "(node_id \<Rightarrow> client_id \<Rightarrow> bool) \<Rightarrow> choice_fn \<Rightarrow> ident \<Rightarrow> string \<Rightarrow> router \<Rightarrow>
    match_error + (node_id \<times> sub_relation list) list" where
  "router_matches is_online choice this_id topic_name r =
     (case topic_from_str topic_name of
        Inl e \<Rightarrow> Inl (MatchTopic e)
      | Inr t \<Rightarrow>
          (case fold_option (filter_step is_online choice (rt_relations r) this_id topic_name)
                  (mi_collect (node_matches (rt_topics r) t)) [] of
             None \<Rightarrow> Inl MatchPanic
           | Some cmap \<Rightarrow> Inr (map (\<lambda>(n, col). (n, collector_into col)) cmap)))"

definition has_matches :: "string \<Rightarrow> router \<Rightarrow> topic_error + bool" where
  "has_matches topic_name r =
     (case topic_from_str topic_name of Inl e \<Rightarrow> Inl e | Inr t \<Rightarrow> Inr (node_is_match (rt_topics r) t))"

section \<open>Queries\<close>

record route =
  route_node_id :: node_id
  route_topic :: topic_filter

record subs_search_params =
  q_limit :: nat
  q_clientid :: "string option"
  q_topic :: "string option"
  q_qos :: "u8 option"
  q_share :: "shared_group option"
  q_match_topic :: "string option"

record subs_search_result =
  sr_node_id :: node_id
  sr_clientid :: client_id
  sr_client_addr :: "socket_addr option"
  sr_topic :: topic_filter
  sr_opts :: sub_options

text \<open>\<open>unique()\<close> of an iterator: the first occurrence of every element.\<close>

definition unique :: "'a list \<Rightarrow> 'a list" where
  "unique xs = rev (remdups (rev xs))"

definition get_routes :: "node_id \<Rightarrow> string \<Rightarrow> router \<Rightarrow> topic_error + route list" where
  "get_routes node_id topic_name r =
     (case topic_from_str topic_name of
        Inl e \<Rightarrow> Inl e
      | Inr t \<Rightarrow> Inr (map (\<lambda>(ls, _). \<lparr>route_node_id = node_id, route_topic = to_topic_filter ls\<rparr>)
                        (unique (mi_collect (node_matches (rt_topics r) t)))))"

text \<open>The closure that counts in \<open>curr\<close> and passes at most \<open>limit\<close> elements, over one list and over the lists of a
  \<open>flat_map\<close>.\<close>

fun limited :: "nat \<Rightarrow> ('a \<Rightarrow> 'b) \<Rightarrow> 'a list \<Rightarrow> nat \<Rightarrow> 'b list \<times> nat" where
  "limited limit f [] n = ([], n)"
| "limited limit f (x # xs) n =
     (if n < limit then (case limited limit f xs (n + 1) of (ys, n') \<Rightarrow> (f x # ys, n'))
      else limited limit f xs n)"

fun limited_concat :: "nat \<Rightarrow> ('k \<Rightarrow> 'a \<Rightarrow> 'b) \<Rightarrow> ('k \<times> 'a list) list \<Rightarrow> nat \<Rightarrow> 'b list" where
  "limited_concat limit f [] n = []"
| "limited_concat limit f ((k, xs) # rest) n =
     (case limited limit (f k) xs n of (ys, n') \<Rightarrow> ys @ limited_concat limit f rest n')"

definition router_gets :: "nat \<Rightarrow> router \<Rightarrow> route list" where
  "router_gets limit r =
     limited_concat limit (\<lambda>tf node_id. \<lparr>route_node_id = node_id, route_topic = tf\<rparr>)
       (map (\<lambda>(tf, rels). (tf, unique (map (\<lambda>(_, (i, _)). id_node_id i) rels))) (rt_relations r)) 0"

definition router_get :: "string \<Rightarrow> router \<Rightarrow> topic_error + route list" where
  "router_get topic_name r =
     (case topic_from_str topic_name of
        Inl e \<Rightarrow> Inl e
      | Inr t \<Rightarrow>
          Inr (concat (map (\<lambda>(ls, _).
            (let tf = to_topic_filter ls
             in case map_of (rt_relations r) tf of
                  Some rels \<Rightarrow> map (\<lambda>node_id. \<lparr>route_node_id = node_id, route_topic = tf\<rparr>)
                                 (unique (map (\<lambda>(_, (i, _)). id_node_id i) rels))
                | None \<Rightarrow> []))
            (unique (mi_collect (node_matches (rt_topics r) t))))))"

definition query_filter :: "subs_search_params \<Rightarrow> client_id \<times> relation \<Rightarrow> bool" where
  "query_filter q = (\<lambda>(c, (i, opts)).
     (case q_clientid q of Some cid \<Rightarrow> cid = c | None \<Rightarrow> True) \<and>
     (case q_qos q of Some v \<Rightarrow> v = opt_qos_value opts | None \<Rightarrow> True) \<and>
     (case (q_share q, opt_shared_group opts) of
        (Some q_group, Some g) \<Rightarrow> q_group = g
      | (Some _, None) \<Rightarrow> False
      | _ \<Rightarrow> True))"

definition search_result :: "topic_filter \<Rightarrow> client_id \<times> relation \<Rightarrow> subs_search_result" where
  "search_result tf = (\<lambda>(c, (i, opts)).
     \<lparr>sr_node_id = id_node_id i, sr_clientid = c, sr_client_addr = id_remote_addr i, sr_topic = tf, sr_opts = opts\<rparr>)"

definition query_for_topic :: "subs_search_params \<Rightarrow> string \<Rightarrow> router \<Rightarrow> subs_search_result list" where
  "query_for_topic q topic_name r =
     (case map_of (rt_relations r) topic_name of
        Some rels \<Rightarrow> fst (limited (q_limit q) (search_result topic_name) (filter (query_filter q) rels) 0)
      | None \<Rightarrow> [])"

definition query_for_matches :: "subs_search_params \<Rightarrow> string \<Rightarrow> router \<Rightarrow> subs_search_result list" where
  "query_for_matches q match_topic r =
     (case topic_from_str match_topic of
        Inl _ \<Rightarrow> []
      | Inr t \<Rightarrow>
          limited_concat (q_limit q) search_result
            (map (\<lambda>(ls, _).
                (let tf = to_topic_filter ls
                 in (tf, case map_of (rt_relations r) tf of Some rels \<Rightarrow> filter (query_filter q) rels | None \<Rightarrow> [])))
              (unique (mi_collect (node_matches (rt_topics r) t)))) 0)"

definition query_for_other :: "subs_search_params \<Rightarrow> router \<Rightarrow> subs_search_result list" where
  "query_for_other q r =
     limited_concat (q_limit q) search_result (map (\<lambda>(tf, rels). (tf, filter (query_filter q) rels)) (rt_relations r)) 0"

definition query_subscriptions :: "subs_search_params \<Rightarrow> router \<Rightarrow> subs_search_result list" where
  "query_subscriptions q r =
     (case q_topic q of
        Some topic_name \<Rightarrow> query_for_topic q topic_name r
      | None \<Rightarrow>
          (case q_match_topic q of
             Some match_topic \<Rightarrow> query_for_matches q match_topic r
           | None \<Rightarrow> query_for_other q r))"

definition topics_tree :: "router \<Rightarrow> nat" where
  "topics_tree r = values_size (rt_topics r)"

text \<open>\<open>merge_topics\<close> and \<open>merge_routes\<close>: the first counter is taken over, of the others the smaller current
  value and the greater maximum.\<close>

definition merge_counters :: "(node_id \<times> counter) list \<Rightarrow> counter" where
  "merge_counters cs =
     (case cs of
        [] \<Rightarrow> counter_new
      | (_, c) # rest \<Rightarrow>
          fold (\<lambda>(_, c) acc. counter_max_max (cnt_max c) (counter_count_min (cnt_current c) acc)) rest (counter_set c counter_new))"

section \<open>The invariant\<close>

definition rels_ok :: "topic_filter \<times> (client_id \<times> relation) list \<Rightarrow> bool" where
  "rels_ok = (\<lambda>(tf, rels).
     (\<exists>t. topic_from_str tf = Inr t) \<and> rels \<noteq> [] \<and> distinct (map fst rels) \<and>
     (\<forall>(c, (i, _))\<in>set rels. id_client_id i = c))"

definition relations_size :: "relations \<Rightarrow> int" where
  "relations_size al = sum_list (map (\<lambda>(_, rels). int (length rels)) al)"

text \<open>The tree holds exactly the filters of the relations.\<close>

definition tree_agrees :: "unit node \<Rightarrow> topic_filter set \<Rightarrow> bool" where
  "tree_agrees n K \<longleftrightarrow>
     node_wf n \<and> (\<forall>f. values_at n f \<noteq> [] \<longleftrightarrow> (\<exists>tf\<in>K. \<exists>t. topic_from_str tf = Inr t \<and> levels t = f))"

definition router_inv :: "router \<Rightarrow> bool" where
  "router_inv r \<longleftrightarrow>
     distinct (map fst (rt_relations r)) \<and> list_all rels_ok (rt_relations r) \<and>
     tree_agrees (rt_topics r) (fst ` set (rt_relations r)) \<and>
     cnt_current (rt_topics_count r) = int (length (rt_relations r)) \<and>
     cnt_current (rt_relations_count r) = relations_size (rt_relations r)"

lemma router_new_inv: "router_inv router_new"
  by (simp add: router_inv_def router_new_def relations_size_def counter_new_def tree_agrees_def)

lemma alist_update_new: "k \<notin> fst ` set al \<Longrightarrow> AList.update k v al = al @ [(k, v)]"
  by (induction al) auto

lemma alist_update_set:
  "distinct (map fst al) \<Longrightarrow> set (AList.update k v al) = insert (k, v) {x \<in> set al. fst x \<noteq> k}"
  by (induction al) (auto simp: image_iff)

lemma alist_update_not_Nil [simp]: "AList.update k v al \<noteq> []"
  by (cases al) auto

lemma alist_delete_set: "set (AList.delete k al) = {x \<in> set al. fst x \<noteq> k}"
  by (auto simp: AList.delete_eq)

lemma alist_delete_update: "AList.delete k (AList.update k v al) = AList.delete k al"
  by (induction al) (auto simp: AList.delete_eq)

lemma alist_update_length: "k \<in> fst ` set al \<Longrightarrow> length (AList.update k v al) = length al"
  by (induction al) auto

lemma alist_update_keys: "fst ` set (AList.update k v al) = insert k (fst ` set al)"
  by (induction al) auto

lemma alist_delete_absent: "k \<notin> fst ` set al \<Longrightarrow> AList.delete k al = al"
  by (induction al) (auto simp: AList.delete_eq)

lemma alist_delete_length:
  "k \<in> fst ` set al \<Longrightarrow> distinct (map fst al) \<Longrightarrow> Suc (length (AList.delete k al)) = length al"
proof (induction al)
  case (Cons a al)
  show ?case
  proof (cases "fst a = k")
    case True
    with Cons.prems show ?thesis by (cases a) (simp add: alist_delete_absent)
  next
    case False
    with Cons show ?thesis by (cases a) auto
  qed
qed simp

lemma relations_size_append [simp]: "relations_size (al @ bl) = relations_size al + relations_size bl"
  by (simp add: relations_size_def)

lemma relations_size_Cons [simp]: "relations_size ((k, v) # al) = int (length v) + relations_size al" "relations_size [] = 0"
  by (simp_all add: relations_size_def)

lemma relations_size_update:
  "map_of al k = Some u \<Longrightarrow> distinct (map fst al) \<Longrightarrow>
     relations_size (AList.update k v al) = relations_size al - int (length u) + int (length v)"
proof (induction al)
  case (Cons a al)
  then show ?case by (cases a) auto
qed simp

lemma relations_size_delete:
  "map_of al k = Some u \<Longrightarrow> distinct (map fst al) \<Longrightarrow>
     relations_size (AList.delete k al) = relations_size al - int (length u)"
proof (induction al)
  case (Cons a al)
  then show ?case by (cases a) (auto simp: alist_delete_absent)
qed simp

lemma map_of_key: "map_of al k = Some v \<Longrightarrow> k \<in> fst ` set al"
  by (metis map_of_eq_None_iff option.distinct(1))

text \<open>A parsed filter is determined by its levels.\<close>

lemma parsed_filter_unique: "topic_from_str a = Inr s \<Longrightarrow> topic_from_str b = Inr t \<Longrightarrow> levels s = levels t \<Longrightarrow> a = b"
  by (auto simp: topic_from_str_levels topic_to_string_def)

lemma tree_agrees_insert:
  assumes "tree_agrees n K" and "topic_from_str tf = Inr t"
  shows "tree_agrees (snd (node_insert t () n)) (insert tf K)"
proof -
  have "set (values_at (snd (node_insert t () n)) f) \<noteq> {} \<longleftrightarrow> set (values_at n f) \<noteq> {} \<or> f = levels t" for f
    unfolding tree.ins_at by auto
  then have "values_at (snd (node_insert t () n)) f \<noteq> [] \<longleftrightarrow> values_at n f \<noteq> [] \<or> f = levels t" for f by simp
  with assms show ?thesis unfolding tree_agrees_def by (auto simp: tree.ins_inv)
qed

lemma tree_agrees_remove:
  assumes "tree_agrees n K" and "topic_from_str tf = Inr t"
  shows "tree_agrees (snd (node_remove t () n)) (K - {tf})"
proof -
  have "set (values_at (snd (node_remove t () n)) f) \<noteq> {} \<longleftrightarrow> set (values_at n f) \<noteq> {} \<and> f \<noteq> levels t" for f
    unfolding tree.rem_at by auto
  then have "values_at (snd (node_remove t () n)) f \<noteq> [] \<longleftrightarrow> values_at n f \<noteq> [] \<and> f \<noteq> levels t" for f by simp
  moreover have "tf' \<noteq> tf \<longleftrightarrow> levels t' \<noteq> levels t" if "topic_from_str tf' = Inr t'" for tf' t'
    using that assms(2) parsed_filter_unique by auto
  ultimately show ?thesis using assms unfolding tree_agrees_def
    by (simp add: tree.rem_inv) (metis DiffE DiffI singletonD singletonI)
qed

lemma router_add_inv:
  assumes inv: "router_inv r"
  shows "router_inv (snd (router_add tf i opts r))"
proof (cases "topic_from_str tf")
  case (Inr t)
  note I = inv [unfolded router_inv_def]
  show ?thesis
  proof (cases "map_of (rt_relations r) tf")
    case None
    then have new: "tf \<notin> fst ` set (rt_relations r)" by (simp add: map_of_eq_None_iff)
    have "rels_ok (tf, [(id_client_id i, i, opts)])" using Inr by (auto simp: rels_ok_def)
    with None Inr I new show ?thesis
      by (auto simp: router_add_def add_relation_def add_topic_def router_inv_def alist_update_new
          tree_agrees_insert Let_def)
  next
    case (Some rels)
    let ?rels = "AList.update (id_client_id i) (i, opts) rels"
    have ok: "rels_ok (tf, rels)" using I map_of_SomeD [OF Some] by (auto simp: list_all_iff)
    then have "rels_ok (tf, ?rels)"
      by (auto simp: rels_ok_def distinct_update alist_update_set alist_update_not_Nil)
    then have all: "list_all rels_ok (AList.update tf ?rels (rt_relations r))"
      using I by (auto simp: list_all_iff alist_update_set)
    have keys: "fst ` set (AList.update tf ?rels (rt_relations r)) = fst ` set (rt_relations r)"
      using I map_of_key [OF Some] by (auto simp: alist_update_set)
    have size: "relations_size (AList.update tf ?rels (rt_relations r))
        = relations_size (rt_relations r) + (if map_of rels (id_client_id i) = None then 1 else 0)"
      using relations_size_update [OF Some, of ?rels] I
      by (auto simp: alist_update_new alist_update_length map_of_eq_None_iff)
    have "tree_agrees (snd (node_insert t () (rt_topics r))) (fst ` set (rt_relations r))"
      using tree_agrees_insert [OF _ Inr] I map_of_key [OF Some] by (metis insert_absorb)
    then show ?thesis using I Some Inr all keys size map_of_key [OF Some]
      by (simp add: router_add_def add_relation_def add_topic_def router_inv_def distinct_update
          alist_update_length Let_def)
  qed
qed (use inv in \<open>simp add: router_add_def\<close>)

lemma router_remove_inv:
  assumes inv: "router_inv r"
  shows "router_inv (snd (router_remove tf i r))"
proof (cases "\<exists>rels opts. map_of (rt_relations r) tf = Some rels \<and> map_of rels (id_client_id i) = Some (i, opts)")
  case False
  then have "remove_relation tf i r = (None, r)"
    by (auto simp: remove_relation_def Let_def split: option.splits)
  then show ?thesis using inv by (simp add: router_remove_def)
next
  case True
  then obtain rels opts where Some: "map_of (rt_relations r) tf = Some rels" and rel: "map_of rels (id_client_id i) = Some (i, opts)"
    by blast
  note I = inv [unfolded router_inv_def]
  let ?rels = "AList.delete (id_client_id i) rels"
  have ok: "rels_ok (tf, rels)" using I map_of_SomeD [OF Some] by (auto simp: list_all_iff)
  have len: "Suc (length ?rels) = length rels"
    using ok map_of_key [OF rel] by (intro alist_delete_length) (auto simp: rels_ok_def)
  obtain t where t: "topic_from_str tf = Inr t" using ok by (auto simp: rels_ok_def)
  let ?al = "AList.update tf ?rels (rt_relations r)"
  let ?r = "r\<lparr>rt_relations := ?al, rt_relations_count := counter_dec (rt_relations_count r)\<rparr>"
  have step: "remove_relation tf i r = (Some (?rels = [], True), ?r)"
    using Some rel by (simp add: remove_relation_def Let_def)
  have keys: "fst ` set ?al = fst ` set (rt_relations r)"
    using I map_of_key [OF Some] by (auto simp: alist_update_set)
  have size: "relations_size ?al = relations_size (rt_relations r) - 1"
    using relations_size_update [OF Some, of ?rels] I len by simp
  show ?thesis
  proof (cases "?rels = []")
    case False
    then have "rels_ok (tf, ?rels)" using ok by (auto simp: rels_ok_def distinct_delete alist_delete_set)
    then have "list_all rels_ok ?al" using I by (auto simp: list_all_iff alist_update_set)
    with False I step size keys map_of_key [OF Some] show ?thesis
      by (simp add: router_remove_def router_inv_def distinct_update alist_update_length)
  next
    case True
    have del: "AList.delete tf ?al = AList.delete tf (rt_relations r)"
      by (rule alist_delete_update)
    have "router_remove tf i r = (Inr True, remove_topic t (remove_entry tf ?r))"
      using True step t by (simp add: router_remove_def)
    moreover have "router_inv (remove_topic t (remove_entry tf ?r))"
    proof -
      have "list_all rels_ok (AList.delete tf (rt_relations r))" using I by (auto simp: list_all_iff alist_delete_set)
      moreover have "fst ` set (AList.delete tf (rt_relations r)) = fst ` set (rt_relations r) - {tf}"
        by (auto simp: alist_delete_set)
      moreover have "relations_size (AList.delete tf (rt_relations r)) = relations_size (rt_relations r) - 1"
        using relations_size_delete [OF Some] I len True by simp
      moreover have "Suc (length (AList.delete tf (rt_relations r))) = length (rt_relations r)"
        using alist_delete_length [OF map_of_key [OF Some]] I by simp
      moreover have "map_of ?al tf \<noteq> None" by (simp add: update_conv')
      ultimately show ?thesis using I tree_agrees_remove [OF _ t]
        by (simp add: router_inv_def remove_topic_def remove_entry_def del distinct_delete)
    qed
    ultimately show ?thesis by simp
  qed
qed

section \<open>What matching collects\<close>

definition wants :: "ident \<Rightarrow> relation \<Rightarrow> bool" where
  "wants this_id = (\<lambda>(i, opts). \<not> (opt_no_local opts = Some True \<and> this_id = i))"

text \<open>The members of a shared group that may get the message, in the order of the relations.\<close>

definition in_group :: "ident \<Rightarrow> shared_group \<Rightarrow> client_id \<times> relation \<Rightarrow> bool" where
  "in_group this_id g = (\<lambda>(c, rel). wants this_id rel \<and> opt_shared_group (snd rel) = Some g)"

definition member_of :: "(node_id \<Rightarrow> client_id \<Rightarrow> bool) \<Rightarrow> client_id \<times> relation \<Rightarrow> member" where
  "member_of is_online = (\<lambda>(c, (i, opts)). (id_node_id i, c, opts, None, Some (is_online (id_node_id i) c)))"

definition group_members :: "(node_id \<Rightarrow> client_id \<Rightarrow> bool) \<Rightarrow> ident \<Rightarrow> (client_id \<times> relation) list \<Rightarrow> shared_group \<Rightarrow> member list" where
  "group_members is_online this_id rels g = map (member_of is_online) (filter (in_group this_id g) rels)"

text \<open>One call of \<open>collector_add\<close> on the collector of a node.\<close>

type_synonym addition = "node_id \<times> topic_filter \<times> client_id \<times> sub_options \<times> shared_group_type option"

definition do_add :: "addition \<Rightarrow> collectors \<Rightarrow> collectors" where
  "do_add = (\<lambda>(n, tf, c, opts, grp). entry_modify n collector_default (collector_add tf c opts grp))"

definition direct_adds :: "ident \<Rightarrow> topic_filter \<Rightarrow> (client_id \<times> relation) list \<Rightarrow> addition list" where
  "direct_adds this_id tf rels =
     map (\<lambda>(c, (i, opts)). (id_node_id i, tf, c, opts, None))
       (filter (\<lambda>(c, rel). wants this_id rel \<and> opt_shared_group (snd rel) = None) rels)"

definition pick_add :: "choice_fn \<Rightarrow> ident \<Rightarrow> string \<Rightarrow> topic_filter \<Rightarrow> shared_group \<times> member list \<Rightarrow> addition list" where
  "pick_add choice this_id topic_name tf = (\<lambda>(g, ms).
     case choice g this_id topic_name ms of
       Some (idx, is_online) \<Rightarrow>
         (case ms ! idx of (n, c, opts, _) \<Rightarrow> [(n, tf, c, opts, Some (g, is_online, map (\<lambda>(_, cid, _). cid) ms))])
     | None \<Rightarrow> [])"

text \<open>The contract of the choice: the index is one of the list.\<close>

definition choice_in_range :: "choice_fn \<Rightarrow> bool" where
  "choice_in_range choice \<longleftrightarrow>
     (\<forall>g i t ms idx on. choice g i t ms = Some (idx, on) \<longrightarrow> idx < length ms)"

lemma rel_step_cases:
  "rel_step is_online this_id tf (c, rel) (groups, cmap) =
     (if in_group this_id (the (opt_shared_group (snd rel))) (c, rel)
      then (entry_modify (the (opt_shared_group (snd rel))) [] (\<lambda>ms. ms @ [member_of is_online (c, rel)]) groups, cmap)
      else (groups, fold do_add (direct_adds this_id tf [(c, rel)]) cmap))"
  by (cases rel; cases "opt_shared_group (snd rel)")
    (auto simp: rel_step_def in_group_def member_of_def wants_def direct_adds_def do_add_def)

lemma direct_adds_append: "direct_adds this_id tf (xs @ ys) = direct_adds this_id tf xs @ direct_adds this_id tf ys"
  by (simp add: direct_adds_def)

lemma in_group_no_direct: "in_group this_id g (c, rel) \<Longrightarrow> direct_adds this_id tf [(c, rel)] = []"
  by (auto simp: in_group_def direct_adds_def)

lemma fold_rel_step_collectors:
  "snd (fold (rel_step is_online this_id tf) rels (groups, cmap)) = fold do_add (direct_adds this_id tf rels) cmap"
proof (induction rels arbitrary: groups cmap)
  case (Cons a rels)
  have "direct_adds this_id tf (a # rels) = direct_adds this_id tf [a] @ direct_adds this_id tf rels"
    by (rule direct_adds_append [of _ _ "[a]", simplified])
  with Cons show ?case by (cases a) (simp add: rel_step_cases in_group_no_direct)
qed (simp add: direct_adds_def)

lemma entry_modify_keys: "distinct (map fst al) \<Longrightarrow> distinct (map fst (entry_modify k d f al))"
  by (simp add: entry_modify_def distinct_update)

lemma entry_modify_lookup: "map_of (entry_modify k d f al) = (map_of al)(k \<mapsto> f (case map_of al k of Some v \<Rightarrow> v | None \<Rightarrow> d))"
  by (simp add: entry_modify_def update_conv')

definition some_members :: "'a list \<Rightarrow> 'a list option" where
  "some_members ms = (if ms = [] then None else Some ms)"

lemma fold_rel_step_groups:
  "distinct (map fst (fst (fold (rel_step is_online this_id tf) rels ([], cmap)))) \<and>
   map_of (fst (fold (rel_step is_online this_id tf) rels ([], cmap)))
     = (\<lambda>g. some_members (group_members is_online this_id rels g))"
proof (induction rels rule: rev_induct)
  case (snoc a rels)
  obtain groups cmap' where r: "fold (rel_step is_online this_id tf) rels ([], cmap) = (groups, cmap')" by fastforce
  obtain c rel where a: "a = (c, rel)" by (cases a)
  let ?g = "the (opt_shared_group (snd rel))"
  have mem: "group_members is_online this_id (rels @ [a]) g
      = group_members is_online this_id rels g @ (if in_group this_id g a then [member_of is_online a] else [])" for g
    by (simp add: group_members_def)
  have own: "in_group this_id g a \<longleftrightarrow> in_group this_id ?g a \<and> g = ?g" for g by (auto simp: in_group_def a)
  have IH: "distinct (map fst groups)" "map_of groups = (\<lambda>g. some_members (group_members is_online this_id rels g))"
    using snoc r by simp_all
  have step: "fold (rel_step is_online this_id tf) (rels @ [a]) ([], cmap) = rel_step is_online this_id tf (c, rel) (groups, cmap')"
    using r by (simp add: a)
  show ?case
  proof (cases "in_group this_id ?g a")
    case False
    then have "\<not> in_group this_id g a" for g using own by blast
    then have "group_members is_online this_id (rels @ [a]) g = group_members is_online this_id rels g" for g
      by (simp add: mem)
    with False IH show ?thesis unfolding step rel_step_cases by (simp add: a)
  next
    case True
    then have g: "in_group this_id g a \<longleftrightarrow> g = ?g" for g using own by blast
    have "(case map_of groups ?g of Some v \<Rightarrow> v | None \<Rightarrow> []) = group_members is_online this_id rels ?g"
      unfolding IH(2) by (simp add: some_members_def)
    then have "map_of (entry_modify ?g [] (\<lambda>ms. ms @ [member_of is_online a]) groups)
        = (\<lambda>g. some_members (group_members is_online this_id (rels @ [a]) g))"
      unfolding entry_modify_lookup IH(2) by (auto simp: mem g some_members_def)
    with True IH show ?thesis unfolding step rel_step_cases by (simp add: a entry_modify_keys)
  qed
qed (simp add: group_members_def some_members_def fun_eq_iff)

lemma fold_option_adds:
  assumes "\<And>x cmap. x \<in> set xs \<Longrightarrow> f x cmap = Some (fold do_add (adds x) cmap)"
  shows "fold_option f xs cmap = Some (fold do_add (concat (map adds xs)) cmap)"
  using assms by (induction xs arbitrary: cmap) simp_all

lemma group_step_adds:
  assumes "choice_in_range choice"
  shows "group_step choice this_id topic_name tf gm cmap = Some (fold do_add (pick_add choice this_id topic_name tf gm) cmap)"
proof -
  obtain g ms where gm: "gm = (g, ms)" by (cases gm)
  have "idx < length ms" if "choice g this_id topic_name ms = Some (idx, on)" for idx on
    using assms that unfolding choice_in_range_def by blast
  then show ?thesis
    by (auto simp: gm group_step_def pick_add_def do_add_def Let_def split: option.splits prod.splits)
qed

definition groups_of :: "(node_id \<Rightarrow> client_id \<Rightarrow> bool) \<Rightarrow> ident \<Rightarrow> (client_id \<times> relation) list \<Rightarrow> (shared_group \<times> member list) list" where
  "groups_of is_online this_id rels = fst (fold (rel_step is_online this_id []) rels ([], []))"

definition filter_adds :: "(node_id \<Rightarrow> client_id \<Rightarrow> bool) \<Rightarrow> choice_fn \<Rightarrow> ident \<Rightarrow> string \<Rightarrow> relations \<Rightarrow> topic_filter \<Rightarrow> addition list" where
  "filter_adds is_online choice this_id topic_name rel_map tf =
     (case map_of rel_map tf of
        Some rels \<Rightarrow>
          direct_adds this_id tf rels @ concat (map (pick_add choice this_id topic_name tf) (groups_of is_online this_id rels))
      | None \<Rightarrow> [])"

lemma fold_rel_step_groups_indep:
  "fst (fold (rel_step is_online this_id tf) rels (groups, cmap)) = fst (fold (rel_step is_online this_id tf') rels (groups, cmap'))"
proof (induction rels arbitrary: groups cmap cmap')
  case (Cons a rels)
  then show ?case by (cases a) (simp add: rel_step_cases)
qed simp

lemma filter_step_adds:
  assumes "choice_in_range choice"
  shows "filter_step is_online choice rel_map this_id topic_name item cmap
    = Some (fold do_add (filter_adds is_online choice this_id topic_name rel_map (to_topic_filter (fst item))) cmap)"
proof (cases item)
  case (Pair ls vs)
  show ?thesis
  proof (cases "map_of rel_map (to_topic_filter ls)")
    case (Some rels)
    let ?res = "fold (rel_step is_online this_id (to_topic_filter ls)) rels ([], cmap)"
    have "fst ?res = groups_of is_online this_id rels" unfolding groups_of_def by (rule fold_rel_step_groups_indep)
    moreover have "snd ?res = fold do_add (direct_adds this_id (to_topic_filter ls) rels) cmap"
      by (rule fold_rel_step_collectors)
    ultimately have "?res = (groups_of is_online this_id rels, fold do_add (direct_adds this_id (to_topic_filter ls) rels) cmap)"
      by (metis prod.collapse)
    then show ?thesis using Some Pair
      by (simp add: filter_step_def filter_adds_def Let_def
          fold_option_adds [OF group_step_adds [OF assms]])
  qed (simp add: Pair filter_step_def filter_adds_def)
qed

lemma router_matches_adds:
  assumes "choice_in_range choice" and "topic_from_str topic_name = Inr t"
  shows "router_matches is_online choice this_id topic_name r =
    Inr (map (\<lambda>(n, col). (n, collector_into col))
      (fold do_add (concat (map (filter_adds is_online choice this_id topic_name (rt_relations r))
         (map (\<lambda>it. to_topic_filter (fst it)) (mi_collect (node_matches (rt_topics r) t))))) []))"
proof -
  have "fold_option (filter_step is_online choice (rt_relations r) this_id topic_name) items [] =
      Some (fold do_add (concat (map (\<lambda>it. filter_adds is_online choice this_id topic_name (rt_relations r)
        (to_topic_filter (fst it))) items)) [])" for items
    by (rule fold_option_adds) (rule filter_step_adds [OF assms(1)])
  then show ?thesis using assms(2) by (simp add: router_matches_def comp_def)
qed

text \<open>Who is in the result: the clients of the additions.\<close>

definition receivers :: "(node_id \<times> sub_relation list) list \<Rightarrow> (node_id \<times> client_id) set" where
  "receivers m = {(n, c). \<exists>rs tf rest. (n, rs) \<in> set m \<and> (tf, c, rest) \<in> set rs}"

definition col_clients :: "collector \<Rightarrow> client_id set" where
  "col_clients col = (\<lambda>(tf, c, rest). c) ` set (collector_into col)"

lemma collector_add_clients: "col_clients (collector_add tf c opts grp col) = insert c (col_clients col)"
proof -
  have eq: "col_clients col = (\<lambda>(tf, c, rest). c) ` set (col_v3_rels col) \<union> fst ` set (col_v5_rels col)" for col
    by (auto simp: col_clients_def collector_into_def image_Un image_image split_beta)
  show ?thesis by (simp add: eq collector_add_def alist_update_keys)
qed

lemma collector_default_clients [simp]: "col_clients collector_default = {}"
  by (simp add: col_clients_def collector_into_def collector_default_def)

lemma fold_do_add_keys: "distinct (map fst cmap) \<Longrightarrow> distinct (map fst (fold do_add adds cmap))"
  by (induction adds arbitrary: cmap) (auto simp: do_add_def entry_modify_keys)

lemma fold_do_add_clients:
  assumes "distinct (map fst cmap)"
  shows "(\<exists>col. map_of (fold do_add adds cmap) n = Some col \<and> c \<in> col_clients col) \<longleftrightarrow>
    (\<exists>tf opts grp. (n, tf, c, opts, grp) \<in> set adds) \<or> (\<exists>col. map_of cmap n = Some col \<and> c \<in> col_clients col)"
  using assms
proof (induction adds arbitrary: cmap)
  case (Cons a adds)
  obtain n' tf c' opts grp where a: "a = (n', tf, c', opts, grp)" by (cases a)
  have "(\<exists>col. map_of (do_add a cmap) n = Some col \<and> c \<in> col_clients col) \<longleftrightarrow>
      n = n' \<and> c = c' \<or> (\<exists>col. map_of cmap n = Some col \<and> c \<in> col_clients col)"
    by (cases "map_of cmap n")
      (auto simp: a do_add_def entry_modify_lookup collector_add_clients)
  moreover have "distinct (map fst (do_add a cmap))" using Cons.prems by (simp add: a do_add_def entry_modify_keys)
  ultimately show ?case using Cons.IH [of "do_add a cmap"] by (auto simp: a)
qed simp

lemma receivers_adds:
  "receivers (map (\<lambda>(n, col). (n, collector_into col)) (fold do_add adds []))
     = {(n, c). \<exists>tf opts grp. (n, tf, c, opts, grp) \<in> set adds}"
proof -
  let ?m = "fold do_add adds []"
  have d: "distinct (map fst ?m)" by (rule fold_do_add_keys) simp
  have "(n, c) \<in> receivers (map (\<lambda>(n, col). (n, collector_into col)) ?m) \<longleftrightarrow>
      (\<exists>col. map_of ?m n = Some col \<and> c \<in> col_clients col)" for n c
    using d by (force simp: receivers_def col_clients_def)
  moreover have "(\<exists>col. map_of ?m n = Some col \<and> c \<in> col_clients col) \<longleftrightarrow>
      (\<exists>tf opts grp. (n, tf, c, opts, grp) \<in> set adds)" for n c
    using fold_do_add_clients [of "[]" adds n c] by simp
  ultimately show ?thesis by (simp add: set_eq_iff split_paired_All)
qed

section \<open>Which additions there are\<close>

definition filter_matches :: "topic_filter \<Rightarrow> string \<Rightarrow> bool" where
  "filter_matches tf topic_name =
     (case topic_from_str tf of Inr t \<Rightarrow> mqtt_match (levels t) (split_slash topic_name) | Inl _ \<Rightarrow> False)"

lemma matched_filters:
  assumes inv: "router_inv r" and topic: "topic_from_str topic_name = Inr t"
    and names: "list_all (\<lambda>l. \<not> is_wildcard l) (levels t)"
  shows "(\<lambda>it. to_topic_filter (fst it)) ` set (mi_collect (node_matches (rt_topics r) t))
      = {tf \<in> fst ` set (rt_relations r). filter_matches tf topic_name}" (is "?f ` ?items = ?R")
    and "distinct (map (\<lambda>it. to_topic_filter (fst it)) (mi_collect (node_matches (rt_topics r) t)))"
proof -
  let ?n = "rt_topics r"
  have agree: "values_at ?n f \<noteq> [] \<longleftrightarrow> (\<exists>tf\<in>fst ` set (rt_relations r). \<exists>t. topic_from_str tf = Inr t \<and> levels t = f)" for f
    using inv unfolding router_inv_def tree_agrees_def by blast
  have path: "list_all level_canonical (levels t)" "split_slash topic_name = map level_to_string (levels t)"
    using topic split_to_string [of t] by (auto simp: topic_from_str_levels)
  have name: "to_topic_filter f = tf" if "topic_from_str tf = Inr u" "levels u = f" for tf u f
    using that by (cases u) (auto simp: topic_from_str_levels to_topic_filter_def to_topic_def)
  have std: "root_match [] f (levels t) = mqtt_match f (split_slash topic_name)" if f: "values_at ?n f \<noteq> []" for f
  proof -
    obtain tf u where "topic_from_str tf = Inr u" "levels u = f" using f unfolding agree by blast
    then have "levels_ok f" "list_all level_canonical f" by (auto simp: topic_from_str_levels topic_is_valid_levels)
    from root_match_standard [OF this path(1) names] path(2) show ?thesis by simp
  qed
  have items: "fst ` ?items = {f. values_at ?n f \<noteq> [] \<and> mqtt_match f (split_slash topic_name)}"
  proof -
    have "fst ` matched ?n [] P = {f. values_at ?n f \<noteq> [] \<and> P f}" for P by (force simp: matched_def)
    then have "fst ` ?items = {f. values_at ?n f \<noteq> [] \<and> root_match [] f (levels t)}"
      by (simp add: mi_collect_pending pending_matches trie_match_set)
    then show ?thesis using std by auto
  qed
  have "?f ` ?items = to_topic_filter ` (fst ` ?items)" by (simp add: image_image)
  also have "\<dots> = ?R"
  proof (intro set_eqI iffI)
    fix tf assume "tf \<in> to_topic_filter ` (fst ` ?items)"
    then obtain f where f: "tf = to_topic_filter f" "values_at ?n f \<noteq> []" "mqtt_match f (split_slash topic_name)"
      unfolding items by blast
    then obtain tf' u where "tf' \<in> fst ` set (rt_relations r)" "topic_from_str tf' = Inr u" "levels u = f"
      unfolding agree by blast
    with name f show "tf \<in> ?R" by (auto simp: filter_matches_def)
  next
    fix tf assume "tf \<in> ?R"
    then obtain u where u: "tf \<in> fst ` set (rt_relations r)" "topic_from_str tf = Inr u" "mqtt_match (levels u) (split_slash topic_name)"
      by (auto simp: filter_matches_def split: sum.splits)
    then have "levels u \<in> fst ` ?items" unfolding items agree by blast
    moreover have "tf = to_topic_filter (levels u)" using name u(2) by simp
    ultimately show "tf \<in> to_topic_filter ` (fst ` ?items)" by blast
  qed
  finally show "?f ` ?items = ?R" .
  have "inj_on to_topic_filter (fst ` ?items)"
  proof (rule inj_onI)
    fix f g assume fg: "f \<in> fst ` ?items" "g \<in> fst ` ?items" "to_topic_filter f = to_topic_filter g"
    then obtain a u b v where "topic_from_str a = Inr u" "levels u = f" "topic_from_str b = Inr v" "levels v = g"
      unfolding items agree by blast
    with fg(3) name show "f = g" by (metis sum.inject(2))
  qed
  moreover have "distinct (map fst (mi_collect (node_matches ?n t)))"
    unfolding mi_collect_pending pending_matches by (rule trie_match_distinct [OF names])
  ultimately show "distinct (map (\<lambda>it. to_topic_filter (fst it)) (mi_collect (node_matches ?n t)))"
    using distinct_map [of to_topic_filter "map fst (mi_collect (node_matches ?n t))"] by (simp add: comp_def)
qed

lemma groups_of_lookup:
  "(g, ms) \<in> set (groups_of is_online this_id rels) \<longleftrightarrow> ms = group_members is_online this_id rels g \<and> ms \<noteq> []"
  "distinct (map fst (groups_of is_online this_id rels))"
proof -
  have d: "distinct (map fst (groups_of is_online this_id rels))"
    and m: "map_of (groups_of is_online this_id rels) g = some_members (group_members is_online this_id rels g)"
    using fold_rel_step_groups [of is_online this_id "[]" rels "[]"] by (simp_all add: groups_of_def)
  show "distinct (map fst (groups_of is_online this_id rels))" by (rule d)
  have "(g, ms) \<in> set (groups_of is_online this_id rels) \<longleftrightarrow> map_of (groups_of is_online this_id rels) g = Some ms"
    using d by simp
  then show "(g, ms) \<in> set (groups_of is_online this_id rels) \<longleftrightarrow> ms = group_members is_online this_id rels g \<and> ms \<noteq> []"
    using m by (auto simp: some_members_def split: if_splits)
qed

lemma pick_add_groups:
  assumes "choice_in_range choice"
  shows "(n, tf', c, opts, grp) \<in> set (concat (map (pick_add choice this_id topic_name tf) (groups_of is_online this_id rels))) \<longleftrightarrow>
    tf' = tf \<and> (\<exists>g idx on x y. choice g this_id topic_name (group_members is_online this_id rels g) = Some (idx, on) \<and>
      group_members is_online this_id rels g \<noteq> [] \<and> group_members is_online this_id rels g ! idx = (n, c, opts, x, y) \<and>
      grp = Some (g, on, map (\<lambda>(_, cid, _). cid) (group_members is_online this_id rels g)))"
    (is "?L \<longleftrightarrow> ?R")
proof -
  have "?L \<longleftrightarrow> (\<exists>g. group_members is_online this_id rels g \<noteq> [] \<and>
      (n, tf', c, opts, grp) \<in> set (pick_add choice this_id topic_name tf (g, group_members is_online this_id rels g)))"
    using groups_of_lookup(1) [where is_online = is_online and this_id = this_id and rels = rels] by (auto simp: Bex_def)
  also have "\<dots> \<longleftrightarrow> ?R" by (auto simp: pick_add_def split: option.splits prod.splits; metis)
  finally show ?thesis .
qed

definition directly_subscribed :: "ident \<Rightarrow> (client_id \<times> relation) list \<Rightarrow> node_id \<Rightarrow> client_id \<Rightarrow> bool" where
  "directly_subscribed this_id rels n c \<longleftrightarrow>
     (\<exists>i opts. map_of rels c = Some (i, opts) \<and> id_node_id i = n \<and> wants this_id (i, opts) \<and> opt_shared_group opts = None)"

definition chosen_member :: "(node_id \<Rightarrow> client_id \<Rightarrow> bool) \<Rightarrow> choice_fn \<Rightarrow> ident \<Rightarrow> string \<Rightarrow> (client_id \<times> relation) list \<Rightarrow>
    node_id \<Rightarrow> client_id \<Rightarrow> bool" where
  "chosen_member is_online choice this_id topic_name rels n c \<longleftrightarrow>
     (\<exists>g idx on opts x y. choice g this_id topic_name (group_members is_online this_id rels g) = Some (idx, on) \<and>
        group_members is_online this_id rels g \<noteq> [] \<and> group_members is_online this_id rels g ! idx = (n, c, opts, x, y))"

definition direct_receivers :: "router \<Rightarrow> ident \<Rightarrow> string \<Rightarrow> (node_id \<times> client_id) set" where
  "direct_receivers r this_id topic_name = {(n, c). \<exists>tf rels.
     map_of (rt_relations r) tf = Some rels \<and> filter_matches tf topic_name \<and> directly_subscribed this_id rels n c}"

definition chosen_receivers :: "(node_id \<Rightarrow> client_id \<Rightarrow> bool) \<Rightarrow> choice_fn \<Rightarrow> router \<Rightarrow> ident \<Rightarrow> string \<Rightarrow> (node_id \<times> client_id) set" where
  "chosen_receivers is_online choice r this_id topic_name = {(n, c). \<exists>tf rels.
     map_of (rt_relations r) tf = Some rels \<and> filter_matches tf topic_name \<and>
     chosen_member is_online choice this_id topic_name rels n c}"

lemma router_rels_distinct: "router_inv r \<Longrightarrow> map_of (rt_relations r) tf = Some rels \<Longrightarrow> distinct (map fst rels)"
  by (auto simp: router_inv_def list_all_iff rels_ok_def dest!: map_of_SomeD)

lemma filter_adds_receivers:
  assumes "choice_in_range choice" and "router_inv r" and "map_of (rt_relations r) tf = Some rels"
  shows "(\<exists>tf' opts grp. (n, tf', c, opts, grp) \<in> set (filter_adds is_online choice this_id topic_name (rt_relations r) tf)) \<longleftrightarrow>
    directly_subscribed this_id rels n c \<or> chosen_member is_online choice this_id topic_name rels n c"
proof -
  have d: "distinct (map fst rels)" by (rule router_rels_distinct [OF assms(2,3)])
  have direct: "(n, tf', c, opts, grp) \<in> set (direct_adds this_id tf rels) \<longleftrightarrow> tf' = tf \<and> grp = None \<and>
      (\<exists>i. (c, (i, opts)) \<in> set rels \<and> id_node_id i = n \<and> wants this_id (i, opts) \<and> opt_shared_group opts = None)" for tf' opts grp
    by (force simp: direct_adds_def)
  have eq: "filter_adds is_online choice this_id topic_name (rt_relations r) tf =
      direct_adds this_id tf rels @ concat (map (pick_add choice this_id topic_name tf) (groups_of is_online this_id rels))"
    using assms(3) by (simp add: filter_adds_def)
  show ?thesis
    unfolding eq set_append Un_iff direct directly_subscribed_def chosen_member_def pick_add_groups [OF assms(1)] map_of_eq_Some_iff [OF d]
    by (intro iffI; elim exE disjE conjE) (simp_all, metis+)
qed

lemma router_matches_receivers:
  assumes inv: "router_inv r" and choice: "choice_in_range choice" and topic: "topic_from_str topic_name = Inr t"
    and names: "list_all (\<lambda>l. \<not> is_wildcard l) (levels t)"
  shows "\<exists>m. router_matches is_online choice this_id topic_name r = Inr m \<and>
    receivers m = direct_receivers r this_id topic_name \<union> chosen_receivers is_online choice r this_id topic_name"
proof -
  let ?tfs = "map (\<lambda>it. to_topic_filter (fst it)) (mi_collect (node_matches (rt_topics r) t))"
  let ?adds = "concat (map (filter_adds is_online choice this_id topic_name (rt_relations r)) ?tfs)"
  let ?m = "map (\<lambda>(n, col). (n, collector_into col)) (fold do_add ?adds [])"
  have run: "router_matches is_online choice this_id topic_name r = Inr ?m" by (rule router_matches_adds [OF choice topic])
  have tfs: "set ?tfs = {tf \<in> fst ` set (rt_relations r). filter_matches tf topic_name}"
    using matched_filters(1) [OF inv topic names] by simp
  have keys: "tf \<in> fst ` set (rt_relations r) \<longleftrightarrow> (\<exists>rels. map_of (rt_relations r) tf = Some rels)" for tf
    by (metis map_of_eq_None_iff not_Some_eq)
  have "(n, c) \<in> receivers ?m \<longleftrightarrow> (\<exists>tf\<in>set ?tfs.
      \<exists>tf' opts grp. (n, tf', c, opts, grp) \<in> set (filter_adds is_online choice this_id topic_name (rt_relations r) tf))" for n c
    unfolding receivers_adds by (simp del: map_map) metis
  also have "\<dots> n c \<longleftrightarrow> (\<exists>tf rels. map_of (rt_relations r) tf = Some rels \<and> filter_matches tf topic_name \<and>
      (directly_subscribed this_id rels n c \<or> chosen_member is_online choice this_id topic_name rels n c))" for n c
    unfolding tfs using filter_adds_receivers [OF choice inv] keys by (simp cong: conj_cong) metis
  finally have "receivers ?m = direct_receivers r this_id topic_name \<union> chosen_receivers is_online choice r this_id topic_name"
    unfolding direct_receivers_def chosen_receivers_def by (intro set_eqI) (auto simp: split_paired_all)
  with run show ?thesis by blast
qed

section \<open>Properties\<close>

text \<open>C6: A publication reaches exactly the right clients. With a consistent router and a choice that respects
  its contract, matching a topic name returns normally, and the clients in the result are those with a
  subscription outside shared groups whose filter matches by the rules of the standard and whose No Local option
  does not exclude the publisher, together with the chosen member of every matching shared group.\<close>

theorem router_matches_exact:
  assumes inv: "router_inv r" and choice: "choice_in_range choice" and topic: "topic_from_str topic_name = Inr t"
    and names: "list_all (\<lambda>l. \<not> is_wildcard l) (levels t)"
  shows "\<exists>m. router_matches is_online choice this_id topic_name r = Inr m \<and>
    receivers m = direct_receivers r this_id topic_name \<union> chosen_receivers is_online choice r this_id topic_name"
  using assms by (rule router_matches_receivers)

datatype router_op = RAdd topic_filter ident sub_options | RRemove topic_filter ident

fun router_step :: "router_op \<Rightarrow> router \<Rightarrow> router" where
  "router_step (RAdd tf i opts) r = snd (router_add tf i opts r)"
| "router_step (RRemove tf i) r = snd (router_remove tf i r)"

lemma router_steps_inv: "router_inv (fold router_step ops router_new)"
proof (induction ops rule: rev_induct)
  case (snoc op ops)
  then show ?case by (cases op) (simp_all add: router_add_inv router_remove_inv)
qed (simp add: router_new_inv)

text \<open>C35: The two structures of the router stay consistent: after any sequence of subscriptions and
  unsubscriptions, the tree holds exactly the filters of the relations, every entry has a subscriber and a filter
  that parses, and the two counters are the numbers of filters and of relations.\<close>

theorem router_history_inv: "router_inv (fold router_step ops router_new)"
  by (rule router_steps_inv)

definition ex_ident :: "client_id \<Rightarrow> ident" where
  "ex_ident c = id_from 0 1 c"

definition ex_router :: router where
  "ex_router = fold router_step [RAdd ''a/+'' (ex_ident ''s'') so_default] router_new"

theorem router_matches_exact_witness:
  "\<exists>m. router_matches (\<lambda>_ _. True) (\<lambda>_ _ _ _. None) (ex_ident ''p'') ''a/b'' ex_router = Inr m \<and>
     receivers m = direct_receivers ex_router (ex_ident ''p'') ''a/b''"
proof -
  have "topic_from_str ''a/b'' = Inr (Topic [Normal ''a'', Normal ''b''])"
    by (simp add: topic_from_str_def level_from_str_def topic_is_valid_levels contains_wildcard_def str_is_metadata_def)
  moreover have "router_inv ex_router" unfolding ex_router_def by (rule router_steps_inv)
  moreover have "choice_in_range (\<lambda>_ _ _ _. None)" by (simp add: choice_in_range_def)
  ultimately show ?thesis
    using router_matches_exact [of ex_router "\<lambda>_ _ _ _. None" "''a/b''" "Topic [Normal ''a'', Normal ''b'']" "\<lambda>_ _. True" "ex_ident ''p''"]
    by (simp add: is_wildcard_def chosen_receivers_def chosen_member_def)
qed

text \<open>C40: Two tasks: while the last subscriber of a filter is removed, another client subscribes between the first
  and the second step of \<open>remove\<close>. The subscription is acknowledged and then deleted with the entry; the filter leaves
  the tree, and the counter of relations stays one too high.\<close>

theorem unsubscribe_subscribe_race:
  assumes inv: "router_inv r" and only: "map_of (rt_relations r) tf = Some [(id_client_id a, (a, oa))]"
    and topic: "topic_from_str tf = Inr t" and other: "id_client_id b \<noteq> id_client_id a"
  shows "\<exists>r1 r2. remove_relation tf a r = (Some (True, True), r1) \<and> router_add tf b ob r1 = (Inr (), r2) \<and>
    map_of (rt_relations (remove_topic t (remove_entry tf r2))) tf = None \<and>
    values_at (rt_topics (remove_topic t (remove_entry tf r2))) (levels t) = [] \<and>
    cnt_current (rt_relations_count (remove_topic t (remove_entry tf r2)))
      = relations_size (rt_relations (remove_topic t (remove_entry tf r2))) + 1"
proof -
  note I = inv [unfolded router_inv_def]
  let ?r1 = "r\<lparr>rt_relations := AList.update tf [] (rt_relations r), rt_relations_count := counter_dec (rt_relations_count r)\<rparr>"
  let ?al = "AList.update tf [(id_client_id b, (b, ob))] (AList.update tf [] (rt_relations r))"
  let ?r2 = "?r1\<lparr>rt_topics := snd (node_insert t () (rt_topics r)), rt_relations := ?al,
    rt_relations_count := counter_inc (counter_dec (rt_relations_count r))\<rparr>"
  have 1: "remove_relation tf a r = (Some (True, True), ?r1)" using only by (simp add: remove_relation_def)
  have 2: "router_add tf b ob ?r1 = (Inr (), ?r2)"
    using topic by (simp add: router_add_def add_relation_def add_topic_def update_conv' Let_def)
  have al: "AList.delete tf ?al = AList.delete tf (rt_relations r)" by (simp add: alist_delete_update)
  have "set (values_at (snd (node_remove t () (snd (node_insert t () (rt_topics r))))) (levels t)) = {}"
    unfolding tree.rem_at by auto
  moreover have "relations_size (AList.delete tf (rt_relations r)) = relations_size (rt_relations r) - 1"
    using relations_size_delete [OF only] I by simp
  ultimately have "map_of (rt_relations (remove_topic t (remove_entry tf ?r2))) tf = None \<and>
      values_at (rt_topics (remove_topic t (remove_entry tf ?r2))) (levels t) = [] \<and>
      cnt_current (rt_relations_count (remove_topic t (remove_entry tf ?r2)))
        = relations_size (rt_relations (remove_topic t (remove_entry tf ?r2))) + 1"
    using I by (simp add: remove_topic_def remove_entry_def update_conv' al delete_conv' alist_delete_update)
  with 1 2 show ?thesis by blast
qed

theorem unsubscribe_subscribe_race_witness:
  "\<exists>r1 r2. remove_relation ''a/+'' (ex_ident ''s'') ex_router = (Some (True, True), r1) \<and>
     router_add ''a/+'' (ex_ident ''q'') so_default r1 = (Inr (), r2) \<and>
     map_of (rt_relations (remove_topic (Topic [Normal ''a'', SingleWildcard]) (remove_entry ''a/+'' r2))) ''a/+'' = None"
proof -
  have t: "topic_from_str ''a/+'' = Inr (Topic [Normal ''a'', SingleWildcard])"
    by (simp add: topic_from_str_def level_from_str_def topic_is_valid_levels contains_wildcard_def str_is_metadata_def)
  have "map_of (rt_relations ex_router) ''a/+'' = Some [(''s'', (ex_ident ''s'', so_default))]"
    by (simp add: ex_router_def router_add_def t add_relation_def add_topic_def router_new_def Let_def ex_ident_def id_from_def id_new_def)
  moreover have "router_inv ex_router" unfolding ex_router_def by (rule router_steps_inv)
  moreover have "id_client_id (ex_ident c) = c" for c by (simp add: ex_ident_def id_from_def id_new_def)
  ultimately show ?thesis
    using unsubscribe_subscribe_race [of ex_router "''a/+''" "ex_ident ''s''" so_default _ "ex_ident ''q''" so_default] t by auto
qed

lemma limited_take: "limited limit f xs n = (map f (take (limit - n) xs), n + min (length xs) (limit - n))"
  by (induction xs arbitrary: n) (auto simp: take_Cons' min_def)

lemma limited_concat_take:
  "limited_concat limit f kxs n = take (limit - n) (concat (map (\<lambda>(k, xs). map (f k) xs) kxs))"
proof (induction kxs arbitrary: n)
  case (Cons a kxs)
  then show ?case by (cases a) (auto simp: limited_take take_map min_def)
qed simp

text \<open>A query returns the first \<open>limit\<close> subscriptions that satisfy its conditions, in the order of the map.\<close>

theorem query_other_exact:
  "query_for_other q r =
     take (q_limit q) (concat (map (\<lambda>(tf, rels). map (search_result tf) (filter (query_filter q) rels)) (rt_relations r)))"
  unfolding query_for_other_def limited_concat_take by (simp add: comp_def split_def)

end
