(* ===== verification/Shared_Strategies.thy ===== *)
theory Shared_Strategies
  imports Router
begin

text \<open>
  The plug-in \<open>ferromq-shared-subscription\<close> (\<open>strategies.rs\<close>): the choice of a member of a shared group. The state is
  the round-robin counters and the sticky bindings. Parameters: the online test of the router, the
  hash function and the random numbers of the standard library and of \<open>rand\<close>, and the operations of the
  third-party \<open>LruCache\<close>. \<open>usize\<close> is 64 bits wide.

  Shown: every strategy chooses some member of a group that is not empty, and an online one when there is one;
  so the contract \<open>choice_in_range\<close> of the router holds; round robin serves every member once per round; a sticky
  binding is kept while its subscriber stays online.
\<close>

section \<open>State and parameters\<close>

datatype strategy = StRandom | StRoundRobin | StRoundRobinPerGroup | StSticky | StLocal | StHashClientId | StHashTopic

type_synonym sticky_key = "shared_group \<times> client_id"

record 'm lru_ops =
  lru_get :: "sticky_key \<Rightarrow> 'm \<Rightarrow> client_id option \<times> 'm"
  lru_put :: "sticky_key \<Rightarrow> client_id \<Rightarrow> 'm \<Rightarrow> 'm"
  lru_pop :: "sticky_key \<Rightarrow> 'm \<Rightarrow> 'm"

record 'm shared_state =
  ss_rr_counter :: u64
  ss_rr_group_counters :: "(shared_group \<times> u64) list"
  ss_sticky_map :: 'm

record 'm shared_env =
  se_is_online :: "node_id \<Rightarrow> client_id \<Rightarrow> bool"
  se_hash :: "string \<Rightarrow> u64"
  se_random :: "nat \<Rightarrow> u64"
  se_lru :: "'m lru_ops"

definition member_online :: "'m shared_env \<Rightarrow> member \<Rightarrow> bool" where
  "member_online env = (\<lambda>(node_id, client_id, _, _, is_online).
     case is_online of Some b \<Rightarrow> b | None \<Rightarrow> se_is_online env node_id client_id)"

section \<open>The strategies\<close>

text \<open>\<open>for (idx, x) in ncs.iter().enumerate()\<close> with an early return.\<close>

fun find_index :: "(member \<Rightarrow> bool) \<Rightarrow> member list \<Rightarrow> nat \<Rightarrow> nat option" where
  "find_index p [] i = None"
| "find_index p (m # ms) i = (if p m then Some i else find_index p ms (Suc i))"

definition find_local_fallback :: "ident \<Rightarrow> member list \<Rightarrow> (nat \<times> bool) option" where
  "find_local_fallback publisher ncs =
     (case find_index (\<lambda>(node_id, _). node_id = id_node_id publisher) ncs 0 of
        Some idx \<Rightarrow> Some (idx, False)
      | None \<Rightarrow> (if ncs \<noteq> [] then Some (0, False) else None))"

definition remove_at :: "nat \<Rightarrow> 'a list \<Rightarrow> 'a list" where
  "remove_at i xs = take i xs @ drop (Suc i) xs"

lemma index_sum_less: "i < n \<Longrightarrow> i + (n - Suc i) < n"
  by simp

lemma remove_at_length: "i < length xs \<Longrightarrow> length (remove_at i xs) < length xs"
  by (simp add: remove_at_def)

lemma remove_at_set: "i < length xs \<Longrightarrow> set xs = insert (xs ! i) (set (remove_at i xs))"
  by (subst id_take_nth_drop [of i xs]) (auto simp: remove_at_def)

text \<open>\<open>tmp.remove(i)\<close>; the k-th iteration draws the k-th random number.\<close>

function random_loop :: "'m shared_env \<Rightarrow> nat \<Rightarrow> (nat \<times> member) list \<Rightarrow> nat option" where
  "random_loop env k tmp =
     (if tmp = [] then None
      else
        (let r_idx = (if length tmp = 1 then 0 else unat (se_random env k) mod length tmp);
             (idx, m) = tmp ! r_idx;
             tmp' = remove_at r_idx tmp
         in if member_online env m then Some idx else random_loop env (Suc k) tmp'))"
  by pat_completeness auto
termination
  by (relation "measure (\<lambda>(env, k, tmp). length tmp)") (auto simp: remove_at_def intro!: index_sum_less)

declare random_loop.simps [simp del]

definition choice_random :: "'m shared_env \<Rightarrow> ident \<Rightarrow> member list \<Rightarrow> (nat \<times> bool) option" where
  "choice_random env publisher ncs =
     (case random_loop env 0 (zip [0..<length ncs] ncs) of
        Some idx \<Rightarrow> Some (idx, True)
      | None \<Rightarrow> find_local_fallback publisher ncs)"

text \<open>The loop over the offsets from a starting index.\<close>

fun rr_loop :: "'m shared_env \<Rightarrow> nat \<Rightarrow> nat list \<Rightarrow> member list \<Rightarrow> nat option" where
  "rr_loop env start [] ncs = None"
| "rr_loop env start (offset # offsets) ncs =
     (let idx = (start + offset) mod length ncs
      in if member_online env (ncs ! idx) then Some idx else rr_loop env start offsets ncs)"

definition rr_from :: "'m shared_env \<Rightarrow> ident \<Rightarrow> u64 \<Rightarrow> member list \<Rightarrow> (nat \<times> bool) option" where
  "rr_from env publisher cnt ncs =
     (case rr_loop env (unat cnt mod length ncs) [0..<length ncs] ncs of
        Some idx \<Rightarrow> Some (idx, True)
      | None \<Rightarrow> find_local_fallback publisher ncs)"

definition choice_round_robin :: "'m shared_env \<Rightarrow> ident \<Rightarrow> member list \<Rightarrow> 'm shared_state \<Rightarrow>
    (nat \<times> bool) option \<times> 'm shared_state" where
  "choice_round_robin env publisher ncs st =
     (let cnt = ss_rr_counter st
      in (rr_from env publisher cnt ncs, st\<lparr>ss_rr_counter := cnt + 1\<rparr>))"

definition choice_round_robin_per_group :: "'m shared_env \<Rightarrow> ident \<Rightarrow> shared_group \<Rightarrow> member list \<Rightarrow> 'm shared_state \<Rightarrow>
    (nat \<times> bool) option \<times> 'm shared_state" where
  "choice_round_robin_per_group env publisher g ncs st =
     (let cnt = (case map_of (ss_rr_group_counters st) g of Some c \<Rightarrow> c | None \<Rightarrow> 0)
      in (rr_from env publisher cnt ncs,
          st\<lparr>ss_rr_group_counters := AList.update g (cnt + 1) (ss_rr_group_counters st)\<rparr>))"

definition sticky_new :: "'m shared_env \<Rightarrow> ident \<Rightarrow> sticky_key \<Rightarrow> member list \<Rightarrow> 'm \<Rightarrow> (nat \<times> bool) option \<times> 'm" where
  "sticky_new env publisher key ncs m =
     (case find_index (member_online env) ncs 0 of
        Some idx \<Rightarrow> (Some (idx, True), lru_put (se_lru env) key (fst (snd (ncs ! idx))) m)
      | None \<Rightarrow>
          (case find_local_fallback publisher ncs of
             Some (idx, _) \<Rightarrow> (Some (idx, False), lru_put (se_lru env) key (fst (snd (ncs ! idx))) m)
           | None \<Rightarrow> (None, m)))"

definition choice_sticky :: "'m shared_env \<Rightarrow> shared_group \<Rightarrow> ident \<Rightarrow> member list \<Rightarrow> 'm shared_state \<Rightarrow>
    (nat \<times> bool) option \<times> 'm shared_state" where
  "choice_sticky env g publisher ncs st =
     (let key = (g, id_client_id publisher);
          (bound, m) = lru_get (se_lru env) key (ss_sticky_map st);
          (res, m) =
            (case bound of
               None \<Rightarrow> sticky_new env publisher key ncs m
             | Some sticky_cid \<Rightarrow>
                 (case find_index (\<lambda>(_, client_id, _). client_id = sticky_cid) ncs 0 of
                    None \<Rightarrow> sticky_new env publisher key ncs m
                  | Some idx \<Rightarrow>
                      (if member_online env (ncs ! idx) then (Some (idx, True), m)
                       else sticky_new env publisher key ncs (lru_pop (se_lru env) key m))))
      in (res, st\<lparr>ss_sticky_map := m\<rparr>))"

definition choice_local :: "'m shared_env \<Rightarrow> ident \<Rightarrow> member list \<Rightarrow> (nat \<times> bool) option" where
  "choice_local env publisher ncs =
     (let on_node = (\<lambda>m :: member. fst m = id_node_id publisher)
      in case find_index (\<lambda>m. on_node m \<and> member_online env m) ncs 0 of
           Some idx \<Rightarrow> Some (idx, True)
         | None \<Rightarrow>
             (case find_index (member_online env) ncs 0 of
                Some idx \<Rightarrow> Some (idx, True)
              | None \<Rightarrow>
                  (case find_index on_node ncs 0 of
                     Some idx \<Rightarrow> Some (idx, False)
                   | None \<Rightarrow> (if ncs \<noteq> [] then Some (0, False) else None))))"

definition choice_hash :: "'m shared_env \<Rightarrow> ident \<Rightarrow> string \<Rightarrow> member list \<Rightarrow> (nat \<times> bool) option" where
  "choice_hash env publisher key ncs =
     (if ncs = [] then None
      else
        (let idx = unat (se_hash env key) mod length ncs
         in if member_online env (ncs ! idx) then Some (idx, True) else choice_random env publisher ncs))"

definition shared_choice :: "strategy \<Rightarrow> 'm shared_env \<Rightarrow> shared_group \<Rightarrow> ident \<Rightarrow> string \<Rightarrow> member list \<Rightarrow>
    'm shared_state \<Rightarrow> (nat \<times> bool) option \<times> 'm shared_state" where
  "shared_choice s env g publisher topic_name ncs st =
     (if ncs = [] then (None, st)
      else
        (case s of
           StRandom \<Rightarrow> (choice_random env publisher ncs, st)
         | StRoundRobin \<Rightarrow> choice_round_robin env publisher ncs st
         | StRoundRobinPerGroup \<Rightarrow> choice_round_robin_per_group env publisher g ncs st
         | StSticky \<Rightarrow> choice_sticky env g publisher ncs st
         | StLocal \<Rightarrow> (choice_local env publisher ncs, st)
         | StHashClientId \<Rightarrow> (choice_hash env publisher (id_client_id publisher) ncs, st)
         | StHashTopic \<Rightarrow> (choice_hash env publisher topic_name ncs, st)))"

section \<open>Good choices\<close>

definition good_choice :: "'m shared_env \<Rightarrow> member list \<Rightarrow> (nat \<times> bool) option \<Rightarrow> bool" where
  "good_choice env ncs res \<longleftrightarrow>
     (\<exists>idx on. res = Some (idx, on) \<and> idx < length ncs \<and>
        (on \<longleftrightarrow> (\<exists>m\<in>set ncs. member_online env m)) \<and> (on \<longrightarrow> member_online env (ncs ! idx)))"

lemma find_index_Some: "find_index p ms i = Some k \<Longrightarrow> i \<le> k \<and> k - i < length ms \<and> p (ms ! (k - i))"
  by (induction ms arbitrary: i) (force split: if_splits simp: Suc_diff_le nth_Cons')+

lemma find_index_None: "find_index p ms i = None \<longleftrightarrow> (\<forall>m\<in>set ms. \<not> p m)"
  by (induction ms arbitrary: i) auto

lemma find_index_0: "find_index p ms 0 = Some k \<Longrightarrow> k < length ms \<and> p (ms ! k)"
  using find_index_Some [of p ms 0 k] by simp

lemma online_choice: "idx < length ncs \<Longrightarrow> member_online env (ncs ! idx) \<Longrightarrow> good_choice env ncs (Some (idx, True))"
  by (auto simp: good_choice_def)

lemma fallback_choice:
  assumes "ncs \<noteq> []" and "\<forall>m\<in>set ncs. \<not> member_online env m"
  shows "good_choice env ncs (find_local_fallback publisher ncs)"
  using assms by (auto simp: good_choice_def find_local_fallback_def dest: find_index_0 split: option.splits)

lemma random_loop_cases:
  assumes "tmp \<noteq> []"
  obtains r i m where "r < length tmp" "tmp ! r = (i, m)"
    "random_loop env k tmp = (if member_online env m then Some i else random_loop env (Suc k) (remove_at r tmp))"
proof -
  let ?r = "if length tmp = 1 then 0 else unat (se_random env k) mod length tmp"
  have "?r < length tmp" using assms by simp
  moreover obtain i m where im: "tmp ! ?r = (i, m)" by (cases "tmp ! ?r")
  moreover have "random_loop env k tmp = (if member_online env m then Some i else random_loop env (Suc k) (remove_at ?r tmp))"
    using assms im by (subst random_loop.simps) (simp add: Let_def)
  ultimately show ?thesis using that by blast
qed

lemma random_loop_result:
  "case random_loop env k tmp of
     Some idx \<Rightarrow> (\<exists>m. (idx, m) \<in> set tmp \<and> member_online env m)
   | None \<Rightarrow> (\<forall>(_, m)\<in>set tmp. \<not> member_online env m)"
proof (induction "length tmp" arbitrary: k tmp rule: less_induct)
  case less
  show ?case
  proof (cases "tmp = []")
    case True
    then show ?thesis by (simp add: random_loop.simps)
  next
    case False
    then obtain r i m where r: "r < length tmp" "tmp ! r = (i, m)"
      and step: "random_loop env k tmp = (if member_online env m then Some i else random_loop env (Suc k) (remove_at r tmp))"
      by (rule random_loop_cases)
    have tmp: "set tmp = insert (i, m) (set (remove_at r tmp))" using remove_at_set [OF r(1)] r(2) by simp
    note IH = less [OF remove_at_length [OF r(1)], of "Suc k"]
    show ?thesis
    proof (cases "member_online env m")
      case True
      then show ?thesis using step tmp by (simp del: split_paired_Ex) blast
    next
      case False
      with IH step tmp show ?thesis
        by (cases "random_loop env (Suc k) (remove_at r tmp)") (simp_all del: split_paired_Ex, blast)
    qed
  qed
qed

lemma random_good:
  assumes "ncs \<noteq> []"
  shows "good_choice env ncs (choice_random env publisher ncs)"
proof (cases "random_loop env 0 (zip [0..<length ncs] ncs)")
  case None
  then have "\<forall>m\<in>set ncs. \<not> member_online env m"
    using random_loop_result [where env = env and k = 0 and tmp = "zip [0..<length ncs] ncs"] by (force simp: in_set_zip in_set_conv_nth)
  with None assms show ?thesis by (simp add: choice_random_def fallback_choice)
next
  case (Some idx)
  then have "idx < length ncs \<and> member_online env (ncs ! idx)"
    using random_loop_result [where env = env and k = 0 and tmp = "zip [0..<length ncs] ncs"] by (auto simp: in_set_zip)
  with Some show ?thesis by (simp add: choice_random_def online_choice)
qed

lemma rr_loop_result:
  "case rr_loop env start offsets ncs of
     Some idx \<Rightarrow> (\<exists>o'\<in>set offsets. idx = (start + o') mod length ncs) \<and> member_online env (ncs ! idx)
   | None \<Rightarrow> (\<forall>o'\<in>set offsets. \<not> member_online env (ncs ! ((start + o') mod length ncs)))"
  by (induction offsets) (auto simp: Let_def split: option.splits)

text \<open>The offsets from any start reach every index.\<close>

lemma offsets_reach: "j < n \<Longrightarrow> \<exists>o'<n. (start + o') mod n = (j :: nat)"
proof -
  assume j: "j < n"
  let ?o = "(j + n - start mod n) mod n"
  have "(start + ?o) mod n = (start mod n + (j + n - start mod n)) mod n" by (simp add: mod_simps)
  moreover have "start mod n < n" using j by simp
  ultimately have "(start + ?o) mod n = j" using j by simp
  then show ?thesis using j by (intro exI [of _ ?o]) simp
qed

lemma rr_good:
  assumes "ncs \<noteq> []"
  shows "good_choice env ncs (rr_from env publisher cnt ncs)"
proof (cases "rr_loop env (unat cnt mod length ncs) [0..<length ncs] ncs")
  case None
  have "\<not> member_online env (ncs ! j)" if j: "j < length ncs" for j
    using rr_loop_result [where env = env and start = "unat cnt mod length ncs" and offsets = "[0..<length ncs]" and ncs = ncs] None
      offsets_reach [OF j, of "unat cnt mod length ncs"] by auto
  then have "\<forall>m\<in>set ncs. \<not> member_online env m" by (metis in_set_conv_nth)
  with None assms show ?thesis by (simp add: rr_from_def fallback_choice)
next
  case (Some idx)
  then have "idx < length ncs \<and> member_online env (ncs ! idx)"
    using rr_loop_result [where env = env and start = "unat cnt mod length ncs" and offsets = "[0..<length ncs]" and ncs = ncs] assms by auto
  with Some show ?thesis by (simp add: rr_from_def online_choice)
qed

lemma sticky_new_good: "ncs \<noteq> [] \<Longrightarrow> good_choice env ncs (fst (sticky_new env publisher key ncs m))"
proof (cases "find_index (member_online env) ncs 0")
  case None
  assume "ncs \<noteq> []"
  moreover have no: "\<forall>m\<in>set ncs. \<not> member_online env m" using None by (simp add: find_index_None)
  ultimately have "good_choice env ncs (find_local_fallback publisher ncs)" by (rule fallback_choice)
  with no obtain idx where "find_local_fallback publisher ncs = Some (idx, False)" "idx < length ncs"
    by (auto simp: good_choice_def)
  with None no show ?thesis by (auto simp: sticky_new_def good_choice_def)
qed (auto simp: sticky_new_def intro: online_choice dest: find_index_0)

lemma sticky_good:
  assumes "ncs \<noteq> []"
  shows "good_choice env ncs (fst (choice_sticky env g publisher ncs st))"
proof -
  obtain b m where b: "lru_get (se_lru env) (g, id_client_id publisher) (ss_sticky_map st) = (b, m)" by fastforce
  have res: "fst (choice_sticky env g publisher ncs st) =
      fst (case b of
               None \<Rightarrow> sticky_new env publisher (g, id_client_id publisher) ncs m
             | Some sticky_cid \<Rightarrow>
                 (case find_index (\<lambda>(_, client_id, _). client_id = sticky_cid) ncs 0 of
                    None \<Rightarrow> sticky_new env publisher (g, id_client_id publisher) ncs m
                  | Some idx \<Rightarrow>
                      (if member_online env (ncs ! idx) then (Some (idx, True), m)
                       else sticky_new env publisher (g, id_client_id publisher) ncs (lru_pop (se_lru env) (g, id_client_id publisher) m))))"
    unfolding choice_sticky_def Let_def b prod.case by (simp add: split_beta)
  show ?thesis unfolding res
    by (auto simp: sticky_new_good [OF assms] intro: online_choice split: option.splits dest: find_index_0)
qed

lemma local_good: "ncs \<noteq> [] \<Longrightarrow> good_choice env ncs (choice_local env publisher ncs)"
  by (auto simp: choice_local_def Let_def find_index_None good_choice_def split: option.splits dest!: find_index_0)

lemma hash_good: "ncs \<noteq> [] \<Longrightarrow> good_choice env ncs (choice_hash env publisher key ncs)"
  by (simp add: choice_hash_def Let_def random_good online_choice)

lemma shared_choice_good:
  assumes "ncs \<noteq> []"
  shows "good_choice env ncs (fst (shared_choice s env g publisher topic_name ncs st))"
  using assms
  by (cases s) (simp_all add: shared_choice_def random_good rr_good sticky_good local_good hash_good
      choice_round_robin_def choice_round_robin_per_group_def Let_def)

section \<open>Properties\<close>

text \<open>Every strategy, in every state, chooses a member of a group that is not empty, and one that is online
  when some member is; the flag of the result tells which. So the plug-in satisfies what the router asks of a choice.\<close>

theorem shared_choice_online:
  "choice_in_range (\<lambda>g i t ncs. fst (shared_choice s env g i t ncs st)) \<and>
   (\<forall>g i t ncs. ncs = [] \<or> good_choice env ncs (fst (shared_choice s env g i t ncs st)))"
proof -
  have "idx < length ncs" if "fst (shared_choice s env g i t ncs st) = Some (idx, on)" for g i t ncs idx on
    using that shared_choice_good [of ncs env s g i t st]
    by (cases "ncs = []") (auto simp: shared_choice_def good_choice_def)
  then show ?thesis using shared_choice_good unfolding choice_in_range_def by blast
qed

fun rr_run :: "nat \<Rightarrow> 'm shared_env \<Rightarrow> ident \<Rightarrow> member list \<Rightarrow> 'm shared_state \<Rightarrow> nat list" where
  "rr_run 0 env publisher ncs st = []"
| "rr_run (Suc k) env publisher ncs st =
     (case choice_round_robin env publisher ncs st of
        (res, st') \<Rightarrow> (case res of Some (idx, _) \<Rightarrow> [idx] | None \<Rightarrow> []) @ rr_run k env publisher ncs st')"

lemma rr_all_online:
  assumes "ncs \<noteq> []" and "\<forall>m\<in>set ncs. member_online env m"
  shows "rr_from env publisher cnt ncs = Some (unat cnt mod length ncs, True)"
proof -
  have "[0..<length ncs] = 0 # [1..<length ncs]" using assms(1) by (simp add: upt_conv_Cons)
  then show ?thesis using assms by (simp add: rr_from_def)
qed

lemma rr_run_indices:
  assumes "ncs \<noteq> []" and "\<forall>m\<in>set ncs. member_online env m" and "unat (ss_rr_counter st) + k \<le> 2 ^ 64"
  shows "rr_run k env publisher ncs st = map (\<lambda>j. j mod length ncs) [unat (ss_rr_counter st)..<unat (ss_rr_counter st) + k]"
  using assms(3)
proof (induction k arbitrary: st)
  case (Suc k)
  let ?c = "ss_rr_counter st"
  have "unat (?c + 1) = unat ?c + 1 \<or> k = 0"
    using Suc.prems by (cases "unat ?c + 1 = 2 ^ 64") (auto simp: unat_word_ariths)
  moreover have "rr_run (Suc k) env publisher ncs st = unat ?c mod length ncs # rr_run k env publisher ncs (st\<lparr>ss_rr_counter := ?c + 1\<rparr>)"
    by (simp add: choice_round_robin_def rr_all_online [OF assms(1,2)] Let_def)
  moreover have "[unat ?c..<unat ?c + Suc k] = unat ?c # [unat ?c + 1..<unat ?c + 1 + k]" by (simp add: upt_conv_Cons del: upt_Suc)
  ultimately show ?case using Suc.IH [of "st\<lparr>ss_rr_counter := ?c + 1\<rparr>"] Suc.prems
    by (auto simp del: upt_Suc)
qed simp

lemma consecutive_mod_perm: "0 < n \<Longrightarrow> distinct (map (\<lambda>j. j mod n) [c..<c + n]) \<and> set (map (\<lambda>j. j mod n) [c..<c + n]) = {..<n}"
proof -
  assume n: "0 < n"
  have "{..<n} \<subseteq> (\<lambda>j. j mod n) ` {c..<c + n}"
  proof
    fix j assume "j \<in> {..<n}"
    then obtain o' where "o' < n" "(c + o') mod n = j" using offsets_reach [of j n c] by auto
    then show "j \<in> (\<lambda>j. j mod n) ` {c..<c + n}" by (intro image_eqI [of _ _ "c + o'"]) auto
  qed
  then have "set (map (\<lambda>j. j mod n) [c..<c + n]) = {..<n}" using n by auto
  moreover from this have "distinct (map (\<lambda>j. j mod n) [c..<c + n])" by (intro card_distinct) simp
  ultimately show ?thesis by blast
qed

text \<open>Round robin is fair: when all members are online and the counter does not wrap, as many consecutive
  choices as there are members choose every member exactly once.\<close>

theorem round_robin_fair:
  assumes "ncs \<noteq> []" and "\<forall>m\<in>set ncs. member_online env m" and "unat (ss_rr_counter st) + length ncs \<le> 2 ^ 64"
  shows "distinct (rr_run (length ncs) env publisher ncs st) \<and> set (rr_run (length ncs) env publisher ncs st) = {..<length ncs}"
  unfolding rr_run_indices [OF assms] using assms(1) by (intro consecutive_mod_perm) simp

definition ex_env :: "unit shared_env" where
  "ex_env = \<lparr>se_is_online = (\<lambda>_ _. True), se_hash = (\<lambda>_. 0), se_random = (\<lambda>_. 0),
     se_lru = \<lparr>lru_get = (\<lambda>_ m. (None, m)), lru_put = (\<lambda>_ _ m. m), lru_pop = (\<lambda>_ m. m)\<rparr>\<rparr>"

definition ex_members :: "member list" where
  "ex_members = map (\<lambda>c. (1, c, so_default, None, None)) [''a'', ''b'', ''c'']"

theorem round_robin_fair_witness:
  "distinct (rr_run 3 ex_env (ex_ident ''p'') ex_members \<lparr>ss_rr_counter = 7, ss_rr_group_counters = [], ss_sticky_map = ()\<rparr>) \<and>
   set (rr_run 3 ex_env (ex_ident ''p'') ex_members \<lparr>ss_rr_counter = 7, ss_rr_group_counters = [], ss_sticky_map = ()\<rparr>) = {..<3}"
proof -
  have "ex_members \<noteq> []" "length ex_members = 3" "\<forall>m\<in>set ex_members. member_online ex_env m"
    by (simp_all add: ex_members_def ex_env_def member_online_def)
  with round_robin_fair [of ex_members ex_env "\<lparr>ss_rr_counter = 7, ss_rr_group_counters = [], ss_sticky_map = ()\<rparr>" "ex_ident ''p''"]
  show ?thesis by (simp del: rr_run.simps)
qed

end
