(* ===== verification/Retain.thy ===== *)
theory Retain
  imports Broker_Types Trie
begin

text \<open>
  Retained messages: the tree and the storage in memory of \<open>ferromq/src/retain.rs\<close>, \<open>TimedValue\<close> of \<open>types.rs\<close>, and the
  storage \<open>RamRetainer\<close> of the plug-in \<open>ferromq-retainer\<close> (\<open>ram.rs\<close>), which puts limits around it. Lookups go the other way
  round than in the topic tree: the tree holds topic names and is asked with a filter.

  A hash map is an association list with distinct keys. The clock is a parameter \<open>now\<close>, an \<open>Instant\<close> and a \<open>Duration\<close> are
  integers in the same unit; that an \<open>Instant\<close> overflows is not modelled.

  Shown: the tree is a map from topic names to values; a lookup returns exactly the stored names that the filter matches by the
  rules of the standard, each once; the bulk removal removes what its predicate rejects; the storage counts its messages
  exactly and answers with the messages that were set last and have not expired; and that the storage with limits
  refuses every message, replacements and deletions too, once it is full.
\<close>

section \<open>Values with a time limit\<close>

datatype 'v timed_value = TimedValue (tv_value: 'v) (tv_deadline: "timestamp option")

definition tv_new :: "timestamp \<Rightarrow> 'v \<Rightarrow> int option \<Rightarrow> 'v timed_value" where
  "tv_new now v timeout_duration = TimedValue v (map_option (\<lambda>t. now + t) timeout_duration)"

definition tv_is_expired :: "timestamp \<Rightarrow> 'v timed_value \<Rightarrow> bool" where
  "tv_is_expired now tv = (case tv_deadline tv of Some e \<Rightarrow> now \<ge> e | None \<Rightarrow> False)"

definition tv_remaining :: "timestamp \<Rightarrow> 'v timed_value \<Rightarrow> int option" where
  "tv_remaining now tv = (case tv_deadline tv of Some d \<Rightarrow> (if d > now then Some (d - now) else None) | None \<Rightarrow> None)"

section \<open>The tree\<close>

datatype 'v rnode = RNode (rn_value: "'v option") (rn_branches: "(level \<times> 'v rnode) list")

definition rn_default :: "'v rnode" where
  "rn_default = RNode None []"

fun rn_insert_path :: "level list \<Rightarrow> 'v \<Rightarrow> 'v rnode \<Rightarrow> 'v rnode" where
  "rn_insert_path [] v (RNode _ bs) = RNode (Some v) bs"
| "rn_insert_path (first # path) v (RNode own bs) =
     RNode own (AList.update first
       (rn_insert_path path v (case map_of bs first of None \<Rightarrow> rn_default | Some n \<Rightarrow> n)) bs)"

definition rn_insert :: "topic \<Rightarrow> 'v \<Rightarrow> 'v rnode \<Rightarrow> 'v rnode" where
  "rn_insert t v n = rn_insert_path (levels t) v n"

fun rn_remove_path :: "level list \<Rightarrow> 'v rnode \<Rightarrow> 'v option \<times> 'v rnode" where
  "rn_remove_path [] (RNode own bs) = (own, RNode None bs)"
| "rn_remove_path (t # path) (RNode own bs) =
     (case map_of bs t of
        Some x \<Rightarrow>
          (let (res, x) = rn_remove_path path x
           in (res, RNode own (if rn_value x = None \<and> rn_branches x = [] then AList.delete t bs
                               else AList.update t x bs)))
      | None \<Rightarrow> (None, RNode own bs))"

definition rn_remove :: "topic \<Rightarrow> 'v rnode \<Rightarrow> 'v option \<times> 'v rnode" where
  "rn_remove t n = rn_remove_path (levels t) n"

text \<open>
  The closure \<open>f\<close> may change the value it is asked about and a state of its own. \<open>removeds\<close> is threaded through; the limit
  is tested on entry to a node only.
\<close>

lemma rn_branch_size: "(l, n) \<in> set bs \<Longrightarrow> size n < size_list (size_prod (\<lambda>_. 0) size) bs"
  by (induction bs) auto

fun rn_retain_node :: "('v \<Rightarrow> 's \<Rightarrow> bool \<times> 'v \<times> 's) \<Rightarrow> nat \<Rightarrow> 'v rnode \<Rightarrow> nat \<Rightarrow> 's \<Rightarrow> 'v rnode \<times> nat \<times> 's"
  and rn_retain_branches ::
    "('v \<Rightarrow> 's \<Rightarrow> bool \<times> 'v \<times> 's) \<Rightarrow> nat \<Rightarrow> (level \<times> 'v rnode) list \<Rightarrow> nat \<Rightarrow> 's \<Rightarrow> (level \<times> 'v rnode) list \<times> nat \<times> 's"
where
  "rn_retain_node f max_limit (RNode own bs) removeds st =
     (if removeds \<ge> max_limit then (RNode own bs, removeds, st)
      else (let (bs, removeds, st) = rn_retain_branches f max_limit bs removeds st
            in (RNode own bs, removeds, st)))"
| "rn_retain_branches f max_limit [] removeds st = ([], removeds, st)"
| "rn_retain_branches f max_limit ((l, child) # bs) removeds st =
     (let (child, removeds, st) = rn_retain_node f max_limit child removeds st;
          (child, removeds, st) =
            (case rn_value child of
               Some v \<Rightarrow> (let (keep, v, st) = f v st
                         in if keep then (RNode (Some v) (rn_branches child), removeds, st)
                            else (RNode None (rn_branches child), removeds + 1, st))
             | None \<Rightarrow> (child, removeds, st));
          (bs, removeds, st) = rn_retain_branches f max_limit bs removeds st
      in (if rn_value child = None \<and> rn_branches child = [] then bs else (l, child) # bs, removeds, st))"

definition rn_retain :: "nat \<Rightarrow> ('v \<Rightarrow> 's \<Rightarrow> bool \<times> 'v \<times> 's) \<Rightarrow> 'v rnode \<Rightarrow> 's \<Rightarrow> nat \<times> 'v rnode \<times> 's" where
  "rn_retain max_limit f n st =
     (let (n, removeds, st) = rn_retain_node f max_limit n 0 st in (removeds, n, st))"

section \<open>Lookup\<close>

text \<open>\<open>add_to_out\<close> when there is a value.\<close>

definition rn_own :: "level list \<Rightarrow> 'v rnode \<Rightarrow> (topic \<times> 'v) list" where
  "rn_own sub_path n = (case rn_value n of Some v \<Rightarrow> [(Topic sub_path, v)] | None \<Rightarrow> [])"

text \<open>The test for a filter that ends with \<open>#\<close> after the next level, which matches the parent too.\<close>

definition rn_parent :: "level list \<Rightarrow> level list \<Rightarrow> 'v rnode \<Rightarrow> (topic \<times> 'v) list" where
  "rn_parent path sub_path n =
     (if length path > 1 \<and> path ! 1 = MultiWildcard then rn_own sub_path n else [])"

definition rn_hidden :: "level list \<Rightarrow> level \<Rightarrow> bool" where
  "rn_hidden sub_path k \<longleftrightarrow> sub_path = [] \<and> k \<noteq> Blank \<and> level_is_metadata k"

lemma rn_child_size: "(l, n) \<in> set bs \<Longrightarrow> size n < size (RNode own bs)"
  by (drule rn_branch_size) simp

lemma rn_found_size: "map_of bs l = Some n \<Longrightarrow> size n < size (RNode own bs)"
  by (rule rn_child_size) (rule map_of_SomeD)

function rn_matches_path :: "'v rnode \<Rightarrow> level list \<Rightarrow> level list \<Rightarrow> (topic \<times> 'v) list" where
  "rn_matches_path (RNode own bs) path sub_path =
     (if bs = [] \<or> path = [] then (if path = [] then rn_own sub_path (RNode own bs) else [])
      else case map_of bs (hd path) of
        Some r \<Rightarrow>
          (let sub_path = sub_path @ [hd path]
           in rn_parent path sub_path r @ rn_matches_path r (tl path) sub_path)
      | None \<Rightarrow>
          if hd path = SingleWildcard then
            concat (map (\<lambda>(k, v).
              if rn_hidden sub_path k then []
              else (let sub_path = sub_path @ [k]
                    in rn_parent path sub_path v @ rn_matches_path v (tl path) sub_path)) bs)
          else if hd path = MultiWildcard then
            concat (map (\<lambda>(k, v).
              if rn_hidden sub_path k then []
              else (let sub_path = sub_path @ [k]
                    in if rn_branches v = [] then rn_own sub_path v
                       else rn_own sub_path v @ rn_matches_path v path sub_path)) bs)
          else [])"
  by pat_completeness auto
termination
  by (relation "measure (\<lambda>(n, _, _). size n)") (auto intro: rn_child_size rn_found_size simp del: rnode.size)

definition rn_matches :: "topic \<Rightarrow> 'v rnode \<Rightarrow> (topic \<times> 'v) list" where
  "rn_matches t n = rn_matches_path n (levels t) []"

section \<open>Sizes\<close>

fun rn_values_size :: "'v rnode \<Rightarrow> nat" where
  "rn_values_size (RNode own bs) =
     (let len = sum_list (map (\<lambda>(_, n). rn_values_size n) bs) in if own \<noteq> None then len + 1 else len)"

fun rn_nodes_size :: "'v rnode \<Rightarrow> nat" where
  "rn_nodes_size (RNode own bs) = length bs + sum_list (map (\<lambda>(_, n). rn_nodes_size n) bs)"

section \<open>The storage in memory\<close>

type_synonym retain_tree = "retain_msg timed_value rnode"

record retain_storage =
  rs_messages :: retain_tree
  rs_retaineds :: counter

definition rs_new :: retain_storage where
  "rs_new = \<lparr>rs_messages = rn_default, rs_retaineds = counter_new\<rparr>"

text \<open>\<open>usize::MAX\<close> is the limit.\<close>

definition usize_max :: nat where
  "usize_max = 2 ^ 64 - 1"

definition remove_expired_messages :: "timestamp \<Rightarrow> retain_storage \<Rightarrow> nat \<times> retain_storage" where
  "remove_expired_messages now s =
     (let (removeds, msgs, cnt) = rn_retain usize_max
            (\<lambda>tv cnt. if tv_is_expired now tv then (False, tv, counter_dec cnt) else (True, tv, cnt))
            (rs_messages s) (rs_retaineds s)
      in (removeds, \<lparr>rs_messages = msgs, rs_retaineds = cnt\<rparr>))"

definition set_with_timeout ::
  "timestamp \<Rightarrow> string \<Rightarrow> retain_msg \<Rightarrow> int option \<Rightarrow> retain_storage \<Rightarrow> (topic_error + unit) \<times> retain_storage" where
  "set_with_timeout now name retain timeout s =
     (case topic_from_str name of
        Inl e \<Rightarrow> (Inl e, s)
      | Inr t \<Rightarrow>
          (let (old, msgs) = rn_remove t (rs_messages s)
           in (Inr (),
               if pub_payload (mp_inner (rt_publish retain)) \<noteq> [] then
                 s\<lparr>rs_messages := rn_insert t (tv_new now retain timeout) msgs,
                   rs_retaineds := (if old = None then counter_inc (rs_retaineds s) else rs_retaineds s)\<rparr>
               else s\<lparr>rs_messages := msgs,
                      rs_retaineds := (if old \<noteq> None then counter_dec (rs_retaineds s) else rs_retaineds s)\<rparr>)))"

definition get_message :: "timestamp \<Rightarrow> string \<Rightarrow> retain_storage \<Rightarrow> topic_error + (string \<times> retain_msg) list" where
  "get_message now topic_filter s =
     (case topic_from_str topic_filter of
        Inl e \<Rightarrow> Inl e
      | Inr t \<Rightarrow>
          Inr (List.map_filter (\<lambda>(t, r). if tv_is_expired now r then None else Some (topic_to_string t, tv_value r))
                 (rn_matches t (rs_messages s))))"

definition get_all_paginated ::
  "timestamp \<Rightarrow> nat \<Rightarrow> nat \<Rightarrow> retain_storage \<Rightarrow> topic_error + ((string \<times> retain_msg \<times> int option) list \<times> bool)" where
  "get_all_paginated now offset limit s =
     (case topic_from_str ''#'' of
        Inl e \<Rightarrow> Inl e
      | Inr t \<Rightarrow>
          (let all_msgs = List.map_filter (\<lambda>(t, tv). if tv_is_expired now tv then None
                            else Some (topic_to_string t, tv_value tv, tv_remaining now tv))
                            (rn_matches t (rs_messages s));
               has_more = (offset + limit < length all_msgs)
           in Inr (take limit (drop offset all_msgs), has_more)))"

section \<open>The storage with limits\<close>

record retainer_cfg =
  rc_max_retained_messages :: int
  rc_max_payload_size :: nat
  rc_retained_message_ttl :: "int option"

definition ram_set ::
  "retainer_cfg \<Rightarrow> timestamp \<Rightarrow> string \<Rightarrow> retain_msg \<Rightarrow> int option \<Rightarrow> retain_storage \<Rightarrow> (topic_error + unit) \<times> retain_storage" where
  "ram_set cfg now name retain expiry_interval s =
     (if length (pub_payload (mp_inner (rt_publish retain))) > rc_max_payload_size cfg then (Inr (), s)
      else if rc_max_retained_messages cfg > 0 \<and> cnt_current (rs_retaineds s) \<ge> rc_max_retained_messages cfg then (Inr (), s)
      else (let expiry_interval = (case rc_retained_message_ttl cfg of
                                     Some ttl \<Rightarrow> (if ttl = 0 then None else Some ttl)
                                   | None \<Rightarrow> expiry_interval)
            in set_with_timeout now name retain expiry_interval s))"

section \<open>The tree is a map\<close>

definition rn_is_empty :: "'v rnode \<Rightarrow> bool" where
  "rn_is_empty n \<longleftrightarrow> rn_value n = None \<and> rn_branches n = []"

fun rn_wf :: "'v rnode \<Rightarrow> bool" where
  "rn_wf (RNode own bs) \<longleftrightarrow> distinct (map fst bs) \<and> list_all (\<lambda>(_, n). rn_wf n \<and> \<not> rn_is_empty n) bs"

fun rn_at :: "'v rnode \<Rightarrow> level list \<Rightarrow> 'v option" where
  "rn_at (RNode own bs) [] = own"
| "rn_at (RNode own bs) (l # ls) = (case map_of bs l of None \<Rightarrow> None | Some n \<Rightarrow> rn_at n ls)"

lemma rn_at_Nil: "rn_at n [] = rn_value n"
  by (cases n) simp

lemma rn_at_default [simp]: "rn_at rn_default p = None"
  by (cases p) (simp_all add: rn_default_def)

lemma rn_wf_default [simp]: "rn_wf rn_default"
  by (simp add: rn_default_def)

lemma rn_wf_branch: "rn_wf (RNode own bs) \<Longrightarrow> map_of bs l = Some n \<Longrightarrow> rn_wf n \<and> \<not> rn_is_empty n"
  by (auto simp: list_all_iff dest: map_of_SomeD)

lemma rn_wf_child: "rn_wf (RNode own bs) \<Longrightarrow> rn_wf (case map_of bs l of None \<Rightarrow> rn_default | Some n \<Rightarrow> n)"
  by (cases "map_of bs l") (simp_all add: rn_wf_branch del: rn_wf.simps)

lemma rn_update_wf:
  assumes "rn_wf (RNode own bs)" and "rn_wf n" and "\<not> rn_is_empty n"
  shows "rn_wf (RNode own (AList.update l n bs))"
proof -
  have "set (AList.update l n bs) \<subseteq> insert (l, n) (set bs)"
    by (induction bs) auto
  with assms show ?thesis by (auto simp: list_all_iff distinct_update)
qed

lemma rn_delete_wf: "rn_wf (RNode own bs) \<Longrightarrow> rn_wf (RNode own (AList.delete l bs))"
  by (auto simp: list_all_iff distinct_delete) (auto simp: AList.delete_eq)

lemma rn_insert_not_empty: "\<not> rn_is_empty (rn_insert_path p v n)"
proof (induction p v n rule: rn_insert_path.induct)
  case (2 first path v own bs)
  have "AList.update l n bs \<noteq> []" for l n by (cases bs) auto
  then show ?case by (simp add: rn_is_empty_def)
qed (simp add: rn_is_empty_def)

lemma rn_insert_wf: "rn_wf n \<Longrightarrow> rn_wf (rn_insert_path p v n)"
proof (induction p v n rule: rn_insert_path.induct)
  case (2 first path v own bs)
  then show ?case
    using rn_wf_child [OF "2.prems", of first]
    by (simp only: rn_insert_path.simps) (intro rn_update_wf rn_insert_not_empty "2.IH"; simp)
qed simp

lemma rn_insert_at: "rn_at (rn_insert_path p v n) q = (if q = p then Some v else rn_at n q)"
proof (induction p v n arbitrary: q rule: rn_insert_path.induct)
  case (1 v own bs)
  then show ?case by (cases q) auto
next
  case (2 first path v own bs)
  show ?case
  proof (cases q)
    case (Cons l ls)
    then show ?thesis
      using "2.IH" [of ls] by (cases "l = first"; cases "map_of bs first") (auto simp: update_conv')
  qed simp
qed

lemma rn_remove_fst: "fst (rn_remove_path p n) = rn_at n p"
  by (induction p n rule: rn_remove_path.induct) (auto simp: Let_def split: prod.splits option.splits)

lemma rn_empty_at: "rn_is_empty n \<Longrightarrow> rn_at n p = None"
  by (cases n; cases p) (auto simp: rn_is_empty_def)

lemma rn_remove_at: "rn_at (snd (rn_remove_path p n)) q = (if q = p then None else rn_at n q)"
proof (induction p n arbitrary: q rule: rn_remove_path.induct)
  case (1 own bs)
  then show ?case by (cases q) auto
next
  case (2 t path own bs)
  show ?case
  proof (cases "map_of bs t")
    case None
    then show ?thesis by (cases q) auto
  next
    case (Some x)
    obtain res x' where x': "rn_remove_path path x = (res, x')" by fastforce
    show ?thesis
    proof (cases q)
      case (Cons l ls)
      show ?thesis
        using "2.IH" [OF Some, of ls] x' Some Cons rn_empty_at [of x' ls]
        by (cases "l = t") (auto simp: rn_is_empty_def update_conv' delete_conv')
    qed (use Some x' in auto)
  qed
qed

lemma rn_remove_wf: "rn_wf n \<Longrightarrow> rn_wf (snd (rn_remove_path p n))"
proof (induction p n rule: rn_remove_path.induct)
  case (2 t path own bs)
  show ?case
  proof (cases "map_of bs t")
    case (Some x)
    obtain res x' where x': "rn_remove_path path x = (res, x')" by fastforce
    have "rn_wf x'" using "2.IH" [OF Some] rn_wf_branch [OF "2.prems" Some] x' by simp
    then show ?thesis
      using rn_update_wf [OF "2.prems", of x' t] rn_delete_wf [OF "2.prems", of t] Some x'
      by (simp add: rn_is_empty_def del: rn_wf.simps)
  qed (use "2.prems" in simp)
qed simp

section \<open>The entries of the tree\<close>

fun rn_entries :: "'v rnode \<Rightarrow> (level list \<times> 'v) list" where
  "rn_entries (RNode own bs) =
     (case own of Some v \<Rightarrow> [([], v)] | None \<Rightarrow> []) @
     concat (map (\<lambda>(l, n). map (\<lambda>(p, v). (l # p, v)) (rn_entries n)) bs)"

lemma rn_entries_length: "length (rn_entries n) = rn_values_size n"
proof (induction n rule: rn_entries.induct)
  case (1 own bs)
  have "map (\<lambda>x. length (case x of (l, n) \<Rightarrow> map (\<lambda>(p, v). (l # p, v)) (rn_entries n))) bs
      = map (\<lambda>(_, n). rn_values_size n) bs"
    using 1 by (intro map_cong) auto
  then show ?case by (simp only: rn_entries.simps rn_values_size.simps length_append length_concat map_map comp_def)
      (simp split: option.splits)
qed

lemma map_of_unique: "distinct (map fst bs) \<Longrightarrow> (l, n) \<in> set bs \<longleftrightarrow> map_of bs l = Some n"
  by auto

lemma rn_entries_set: "rn_wf n \<Longrightarrow> set (rn_entries n) = {(p, v). rn_at n p = Some v}"
proof (induction n rule: rn_entries.induct)
  case (1 own bs)
  have d: "distinct (map fst bs)" using "1.prems" by simp
  have below: "(p, v) \<in> set (rn_entries n) \<longleftrightarrow> rn_at n p = Some v" if "(l, n) \<in> set bs" for l n p v
    using 1 that by (fastforce simp: list_all_iff)
  have "(p, v) \<in> set (rn_entries (RNode own bs)) \<longleftrightarrow> rn_at (RNode own bs) p = Some v" for p v
  proof (cases p)
    case (Cons l ls)
    have "(p, v) \<in> set (rn_entries (RNode own bs)) \<longleftrightarrow> (\<exists>n. (l, n) \<in> set bs \<and> (ls, v) \<in> set (rn_entries n))"
      using Cons by (force split: option.splits)
    also have "\<dots> \<longleftrightarrow> (\<exists>n. map_of bs l = Some n \<and> rn_at n ls = Some v)"
      using below by (metis map_of_unique [OF d])
    finally show ?thesis using Cons by (auto split: option.splits)
  qed (auto split: option.splits)
  then show ?case by (simp only: set_eq_iff split_paired_all mem_Collect_eq prod.case) simp
qed

text \<open>A concatenation over the branches has no repetitions when the items of a branch carry its key.\<close>

lemma distinct_concat_branches:
  assumes "distinct (map fst bs)"
    and "\<And>l n. (l, n) \<in> set bs \<Longrightarrow> distinct (map fst (g l n))"
    and "\<And>l n x. (l, n) \<in> set bs \<Longrightarrow> x \<in> fst ` set (g l n) \<Longrightarrow> key x = l"
  shows "distinct (map fst (concat (map (\<lambda>(l, n). g l n) bs)))"
  using assms
proof (induction bs)
  case (Cons b bs)
  obtain l n where b: "b = (l, n)" by fastforce
  have "distinct (map fst (concat (map (\<lambda>(l, n). g l n) bs)))"
  proof (rule Cons.IH)
    show "key x = l'" if "(l', n') \<in> set bs" "x \<in> fst ` set (g l' n')" for l' n' x
      using that Cons.prems(3) [of l' n' x] by simp
  qed (use Cons.prems in auto)
  moreover have "fst ` set (g l n) \<inter> fst ` set (concat (map (\<lambda>(l, n). g l n) bs)) = {}"
  proof (rule ccontr)
    assume "fst ` set (g l n) \<inter> fst ` set (concat (map (\<lambda>(l, n). g l n) bs)) \<noteq> {}"
    then obtain x l' n' where x: "x \<in> fst ` set (g l n)" "(l', n') \<in> set bs" "x \<in> fst ` set (g l' n')" by auto
    then have "l = l'" using Cons.prems(3) [of l n x] Cons.prems(3) [of l' n' x] b by simp
    then show False using x(2) Cons.prems(1) b by force
  qed
  moreover have "distinct (map fst (g l n))" using Cons.prems(2) b by simp
  ultimately show ?case using b by (simp add: image_Un)
qed simp

lemma rn_entries_distinct: "rn_wf n \<Longrightarrow> distinct (map fst (rn_entries n))"
proof (induction n rule: rn_entries.induct)
  case (1 own bs)
  let ?g = "\<lambda>l n. map (\<lambda>(p, v). (l # p, v)) (rn_entries n)"
  have "map fst (?g l n) = map ((#) l) (map fst (rn_entries n))" for l n
    by auto
  then have "distinct (map fst (?g l n))" if "(l, n) \<in> set bs" for l n
    using 1 that by (simp only: distinct_map inj_on_def) (fastforce simp: list_all_iff)
  then have "distinct (map fst (concat (map (\<lambda>(l, n). ?g l n) bs)))"
    using "1.prems" by (intro distinct_concat_branches [where key = hd]) auto
  then show ?case by (auto split: option.splits)
qed

section \<open>What a lookup returns\<close>

definition hits :: "'v rnode \<Rightarrow> level list \<Rightarrow> (level list \<Rightarrow> bool) \<Rightarrow> (topic \<times> 'v) set" where
  "hits n sub sel = {(Topic (sub @ p), v) |p v. rn_at n p = Some v \<and> sel p}"

lemma hits_Un: "hits n sub P \<union> hits n sub Q = hits n sub (\<lambda>p. P p \<or> Q p)"
  by (auto simp: hits_def)

lemma hits_cong: "(\<And>p. rn_at n p \<noteq> None \<Longrightarrow> P p = Q p) \<Longrightarrow> hits n sub P = hits n sub Q"
  unfolding hits_def by (metis (mono_tags, lifting) option.distinct(1))

lemma hits_own: "set (rn_own sub n) = hits n sub (\<lambda>p. p = [])"
  by (auto simp: rn_own_def hits_def rn_at_Nil split: option.splits)

lemma hits_False: "hits n sub (\<lambda>_. False) = {}"
  by (simp add: hits_def)

lemma hits_branches:
  assumes "distinct (map fst bs)"
  shows "(\<Union>(l, n) \<in> set bs. hits n (sub @ [l]) (sel l))
    = hits (RNode own bs) sub (\<lambda>p. p \<noteq> [] \<and> sel (hd p) (tl p))"
proof -
  have "rn_at (RNode own bs) (l # p) = Some v \<longleftrightarrow> (\<exists>n. (l, n) \<in> set bs \<and> rn_at n p = Some v)" for l p v
    using map_of_unique [OF assms] by (auto split: option.splits)
  then show ?thesis
    by (fastforce simp: hits_def neq_Nil_conv simp del: rn_at.simps)
qed

fun rn_plain :: "'v rnode \<Rightarrow> bool" where
  "rn_plain (RNode own bs) = list_all (\<lambda>(l, n). \<not> is_wildcard l \<and> rn_plain n) bs"

text \<open>What a lookup finds at and below a child, the value of the child included when \<open>#\<close> follows.\<close>

lemma rn_child_hits:
  assumes "multi_last (x # f)"
    and "set (rn_matches_path n f sub) = hits n sub (\<lambda>p. root_match sub f p \<and> \<not> (p = [] \<and> f = [MultiWildcard]))"
    and "sub \<noteq> []"
  shows "set (rn_parent (x # f) sub n @ rn_matches_path n f sub) = hits n sub (path_match f)"
proof -
  have multi: "f = [MultiWildcard] \<longleftrightarrow> f \<noteq> [] \<and> hd f = MultiWildcard" using assms(1) by (cases f) auto
  have "set (rn_parent (x # f) sub n) = hits n sub (\<lambda>p. p = [] \<and> f = [MultiWildcard])"
    using multi by (cases f) (auto simp: rn_parent_def hits_own hits_False)
  then show ?thesis
    using assms(2,3) by (simp add: hits_Un) (rule hits_cong, auto simp: root_match_def)
qed

lemma concat_set: "set (concat (map (\<lambda>(l, n). g l n) bs)) = (\<Union>(l, n) \<in> set bs. set (g l n))"
  by auto

lemma path_match_multi [simp]: "path_match [MultiWildcard] p"
  by (cases p) simp_all

lemma union_one:
  "(\<And>l n. (l, n) \<in> set bs \<Longrightarrow> g l n = (if l = x then h else {})) \<Longrightarrow> (x, r) \<in> set bs \<Longrightarrow>
     (\<Union>(l, n) \<in> set bs. g l n) = h"
  by (auto split: if_splits)

lemma union_cong:
  "(\<And>l n. (l, n) \<in> set bs \<Longrightarrow> g l n = h l n) \<Longrightarrow> (\<Union>(l, n) \<in> set bs. g l n) = (\<Union>(l, n) \<in> set bs. h l n)"
  by fastforce

lemma rn_matches_end: "rn_matches_path n [] sub = rn_own sub n"
  by (cases n) simp

lemma rn_matches_exact:
  "map_of bs x = Some r \<Longrightarrow> rn_matches_path (RNode own bs) (x # f) sub
     = rn_parent (x # f) (sub @ [x]) r @ rn_matches_path r f (sub @ [x])"
  by (cases bs) (simp_all add: Let_def)

lemma rn_matches_plus:
  "map_of bs SingleWildcard = None \<Longrightarrow> rn_matches_path (RNode own bs) (SingleWildcard # f) sub
     = concat (map (\<lambda>(l, n). if rn_hidden sub l then []
         else rn_parent (SingleWildcard # f) (sub @ [l]) n @ rn_matches_path n f (sub @ [l])) bs)"
  by (simp add: Let_def cong del: if_weak_cong)

lemma rn_matches_leaf: "rn_branches n = [] \<Longrightarrow> rn_matches_path n (x # f) sub = []"
  by (cases n) simp

lemma rn_matches_hash:
  assumes "map_of bs MultiWildcard = None"
  shows "rn_matches_path (RNode own bs) (MultiWildcard # f) sub
     = concat (map (\<lambda>(l, n). if rn_hidden sub l then []
         else rn_own (sub @ [l]) n @ rn_matches_path n (MultiWildcard # f) (sub @ [l])) bs)"
proof -
  have "(if rn_branches n = [] then rn_own s n else rn_own s n @ rn_matches_path n (MultiWildcard # f) s)
      = rn_own s n @ rn_matches_path n (MultiWildcard # f) s" for n :: "'a rnode" and s
    by (simp add: rn_matches_leaf)
  then show ?thesis using assms by (simp add: Let_def cong del: if_weak_cong)
qed

lemma rn_matches_none:
  "map_of bs x = None \<Longrightarrow> \<not> is_wildcard x \<Longrightarrow> rn_matches_path (RNode own bs) (x # f) sub = []"
  by (auto simp: is_wildcard_def)

lemmas rn_lookup = rn_matches_end rn_matches_exact rn_matches_plus rn_matches_hash rn_matches_none

text \<open>The paths below a branch \<open>l\<close> that a filter selects.\<close>

definition selects :: "level list \<Rightarrow> level \<Rightarrow> level list \<Rightarrow> level \<Rightarrow> level list \<Rightarrow> bool" where
  "selects sub x f l p \<longleftrightarrow>
     (x = MultiWildcard \<or> (x = SingleWildcard \<or> x = l) \<and> path_match f p) \<and> \<not> (is_wildcard x \<and> rn_hidden sub l)"

lemma selected_hits:
  assumes "distinct (map fst bs)" and "x = MultiWildcard \<Longrightarrow> f = []"
  shows "hits (RNode own bs) sub (\<lambda>p. root_match sub (x # f) p \<and> \<not> (p = [] \<and> x # f = [MultiWildcard]))
    = (\<Union>(l, n) \<in> set bs. hits n (sub @ [l]) (selects sub x f l))"
  unfolding hits_branches [OF assms(1), where own = own]
proof (rule hits_cong)
  fix p
  show "(root_match sub (x # f) p \<and> \<not> (p = [] \<and> x # f = [MultiWildcard])) \<longleftrightarrow> p \<noteq> [] \<and> selects sub x f (hd p) (tl p)"
    using assms(2)
    by (cases p; cases "hd p"; cases x) (auto simp: selects_def root_match_def rn_hidden_def is_wildcard_def)
qed

lemma rn_matches_set:
  assumes "rn_wf n" and "rn_plain n" and "multi_last f"
  shows "set (rn_matches_path n f sub) = hits n sub (\<lambda>p. root_match sub f p \<and> \<not> (p = [] \<and> f = [MultiWildcard]))"
  using assms
proof (induction n arbitrary: f sub)
  case (RNode own bs)
  have d: "distinct (map fst bs)" using RNode.prems by simp
  have child: "rn_wf n \<and> rn_plain n \<and> \<not> is_wildcard l" if "(l, n) \<in> set bs" for l n
    using that RNode.prems by (auto simp: list_all_iff)
  show ?case
  proof (cases f)
    case Nil
    have "root_match sub [] p \<longleftrightarrow> p = []" for p by (cases p) (auto simp: root_match_def)
    then show ?thesis using Nil by (simp add: hits_own)
  next
    case (Cons x g)
    have ml: "multi_last g" "x = MultiWildcard \<Longrightarrow> g = []" using RNode.prems Cons by auto
    have IH: "set (rn_matches_path n h (sub @ [l]))
        = hits n (sub @ [l]) (\<lambda>p. root_match (sub @ [l]) h p \<and> \<not> (p = [] \<and> h = [MultiWildcard]))"
      if "(l, n) \<in> set bs" "multi_last h" for l n h
      using RNode.IH [of "(l, n)" n h "sub @ [l]"] child [OF that(1)] that by simp
    have below: "set (rn_parent f (sub @ [l]) n @ rn_matches_path n g (sub @ [l])) = hits n (sub @ [l]) (path_match g)"
      if "(l, n) \<in> set bs" for l n
      using rn_child_hits [of x g n "sub @ [l]"] IH [OF that ml(1)] RNode.prems(3) Cons by simp
    have all: "set (rn_own (sub @ [l]) n @ rn_matches_path n [MultiWildcard] (sub @ [l])) = hits n (sub @ [l]) (\<lambda>_. True)"
      if "(l, n) \<in> set bs" for l n
      using IH [OF that, of "[MultiWildcard]"] path_match_multi by (simp add: hits_own hits_Un root_match_def)
    note hit = selected_hits [OF d ml(2), where own = own and sub = sub]
    have plain: "\<not> is_wildcard x" if "map_of bs x = Some r" for r
      using child [OF map_of_SomeD [OF that]] by simp
    consider r where "map_of bs x = Some r" | "map_of bs x = None" "x = SingleWildcard"
      | "map_of bs x = None" "x = MultiWildcard" | "map_of bs x = None" "\<not> is_wildcard x"
      unfolding is_wildcard_def by (cases "map_of bs x") blast+
    then show ?thesis
    proof cases
      case (1 r)
      note r = map_of_SomeD [OF 1] and wild = plain [OF 1]
      have "hits n (sub @ [l]) (selects sub x g l) = (if l = x then hits r (sub @ [x]) (path_match g) else {})"
        if "(l, n) \<in> set bs" for l n
        using map_of_unique [OF d, of l n] that 1 wild
        by (cases "l = x") (auto simp: selects_def [abs_def] is_wildcard_def hits_False)
      from union_one [OF this r] show ?thesis using below [OF r] hit Cons by (simp only: rn_matches_exact [OF 1])
    next
      case 2
      have "set (if rn_hidden sub l then [] else rn_parent f (sub @ [l]) n @ rn_matches_path n g (sub @ [l]))
          = hits n (sub @ [l]) (selects sub x g l)" if "(l, n) \<in> set bs" for l n
        using below [OF that] 2 by (simp add: selects_def [abs_def] is_wildcard_def hits_False)
      from union_cong [OF this] show ?thesis using hit 2 Cons by (simp only: rn_matches_plus concat_set)
    next
      case 3
      have "set (if rn_hidden sub l then [] else rn_own (sub @ [l]) n @ rn_matches_path n f (sub @ [l]))
          = hits n (sub @ [l]) (selects sub x g l)" if "(l, n) \<in> set bs" for l n
        using all [OF that] 3 ml(2) Cons by (simp add: selects_def [abs_def] is_wildcard_def hits_False)
      from union_cong [OF this] show ?thesis using hit 3 Cons by (simp only: rn_matches_hash concat_set)
    next
      case 4
      then have "hits n (sub @ [l]) (selects sub x g l) = {}" if "(l, n) \<in> set bs" for l n
        using that by (auto simp: hits_def selects_def is_wildcard_def map_of_eq_None_iff image_iff)
      then show ?thesis using hit 4 Cons by (simp add: rn_matches_none case_prod_unfold del: rn_matches_path.simps)
    qed
  qed
qed

lemma rn_own_fst: "fst ` set (rn_own sub n) \<subseteq> {Topic sub}" "distinct (map fst (rn_own sub n))"
  by (auto simp: rn_own_def split: option.splits)

lemma rn_matches_fst:
  assumes "rn_wf n" and "rn_plain n" and "multi_last f" and "t \<in> fst ` set (rn_matches_path n f sub)"
  obtains p where "t = Topic (sub @ p)" and "\<not> (p = [] \<and> f = [MultiWildcard])"
  using assms(4) unfolding rn_matches_set [OF assms(1-3)] hits_def by auto

text \<open>The value of a node is added before the lookup below it only when this lookup does not return it.\<close>

lemma rn_own_matches_distinct:
  assumes "rn_wf n" and "rn_plain n" and "distinct (map fst (rn_matches_path n f sub))"
    and "multi_last f" and "c \<Longrightarrow> f = [MultiWildcard]"
  shows "distinct (map fst ((if c then rn_own sub n else []) @ rn_matches_path n f sub))"
proof -
  have "Topic sub \<notin> fst ` set (rn_matches_path n f sub)" if c
    using rn_matches_fst [OF assms(1,2,4), of "Topic sub" sub] assms(5) [OF that] by auto
  then show ?thesis using rn_own_fst [of sub n] assms(3) by (auto simp: rn_own_def split: option.splits)
qed

lemma rn_branch_key:
  assumes "rn_wf n" and "rn_plain n" and "multi_last f"
    and "t \<in> fst ` set ((if c then rn_own (sub @ [l]) n else []) @ rn_matches_path n f (sub @ [l]))"
  shows "levels t ! length sub = l"
proof -
  have "t = Topic (sub @ [l]) \<or> t \<in> fst ` set (rn_matches_path n f (sub @ [l]))"
    using assms(4) rn_own_fst(1) [of "sub @ [l]" n] by (auto split: if_splits)
  then show ?thesis
  proof
    assume "t \<in> fst ` set (rn_matches_path n f (sub @ [l]))"
    then obtain p where "t = Topic ((sub @ [l]) @ p)" by (rule rn_matches_fst [OF assms(1-3)])
    then show ?thesis by (simp add: nth_append)
  qed (simp add: nth_append)
qed

lemma rn_parent_if: "multi_last (x # f) \<Longrightarrow> rn_parent (x # f) sub n = (if f = [MultiWildcard] then rn_own sub n else [])"
  by (cases f) (auto simp: rn_parent_def)

lemma rn_matches_distinct:
  assumes "rn_wf n" and "rn_plain n" and "multi_last f"
  shows "distinct (map fst (rn_matches_path n f sub))"
  using assms
proof (induction n arbitrary: f sub)
  case (RNode own bs)
  have d: "distinct (map fst bs)" using RNode.prems by simp
  have child: "rn_wf n \<and> rn_plain n" if "(l, n) \<in> set bs" for l n
    using that RNode.prems by (auto simp: list_all_iff)
  show ?case
  proof (cases f)
    case (Cons x g)
    have ml: "multi_last g" "x = MultiWildcard \<Longrightarrow> g = []" using RNode.prems Cons by auto
    have below: "distinct (map fst ((if c then rn_own (sub @ [l]) n else []) @ rn_matches_path n h (sub @ [l])))"
      if "(l, n) \<in> set bs" "multi_last h" "c \<Longrightarrow> h = [MultiWildcard]" for l n h c
      using RNode.IH [of "(l, n)" n h "sub @ [l]"] child [OF that(1)] that by (intro rn_own_matches_distinct) auto
    have loop: "distinct (map fst (concat (map (\<lambda>(l, n). if rn_hidden sub l then []
        else (if c then rn_own (sub @ [l]) n else []) @ rn_matches_path n h (sub @ [l])) bs)))"
      if "multi_last h" "c \<Longrightarrow> h = [MultiWildcard]" for h c
    proof (rule distinct_concat_branches [OF d, where key = "\<lambda>t. levels t ! length sub"])
      show "levels t ! length sub = l" if "(l, n) \<in> set bs"
          "t \<in> fst ` set (if rn_hidden sub l then []
             else (if c then rn_own (sub @ [l]) n else []) @ rn_matches_path n h (sub @ [l]))" for l n t
        using rn_branch_key [of n h t c sub l] child [OF that(1)] \<open>multi_last h\<close> that(2) by (auto split: if_splits)
    qed (use below that in auto)
    have "distinct (map fst (rn_matches_path (RNode own bs) (x # g) sub))"
    proof (cases "map_of bs x")
      case (Some r)
      from below [OF map_of_SomeD [OF Some] ml(1), of "g = [MultiWildcard]"] show ?thesis
        using RNode.prems(3) Cons by (simp only: rn_matches_exact [OF Some] rn_parent_if)
    next
      case None
      consider "x = SingleWildcard" | "x = MultiWildcard" "g = []" | "\<not> is_wildcard x"
        using ml(2) unfolding is_wildcard_def by blast
      then show ?thesis
      proof cases
        case 1
        then show ?thesis
          using loop [OF ml(1), of "g = [MultiWildcard]"] None RNode.prems(3) Cons
          by (simp only: rn_matches_plus rn_parent_if)
      next
        case 2
        then show ?thesis
          using loop [of "[MultiWildcard]" True] None
          by (simp add: rn_matches_hash del: rn_matches_path.simps cong del: if_weak_cong)
      qed (use None in \<open>simp add: rn_matches_none del: rn_matches_path.simps\<close>)
    qed
    then show ?thesis using Cons by simp
  qed (simp add: rn_own_fst)
qed

section \<open>Bulk removal\<close>

definition kept :: "('v \<Rightarrow> bool) \<Rightarrow> 'v option \<Rightarrow> 'v option" where
  "kept keep x = (case x of Some v \<Rightarrow> (if keep v then Some v else None) | None \<Rightarrow> None)"

lemma kept_None [simp]: "kept keep None = None"
  by (simp add: kept_def)

definition branches_size :: "(level \<times> 'v rnode) list \<Rightarrow> nat" where
  "branches_size bs = sum_list (map (\<lambda>(_, n). rn_values_size n) bs)"

definition branches_wf :: "(level \<times> 'v rnode) list \<Rightarrow> bool" where
  "branches_wf bs \<longleftrightarrow> rn_wf (RNode None bs)"

lemma branches_simps:
  "rn_values_size (RNode own bs) = (if own = None then 0 else 1) + branches_size bs"
  "rn_wf (RNode own bs) = branches_wf bs"
  "branches_size [] = 0" "branches_size ((l, n) # bs) = rn_values_size n + branches_size bs"
  "branches_wf []" "branches_wf ((l, n) # bs) \<longleftrightarrow>
     l \<notin> fst ` set bs \<and> rn_wf n \<and> \<not> rn_is_empty n \<and> branches_wf bs"
  by (auto simp: branches_size_def branches_wf_def)

lemma rn_no_values: "rn_wf n \<Longrightarrow> rn_values_size n = 0 \<Longrightarrow> rn_at n p = None"
  using rn_entries_length [of n] rn_entries_set [of n] by auto

text \<open>A closure that leaves the values alone, and notes every value that it rejects in its state.\<close>

definition judges :: "('v \<Rightarrow> 's \<Rightarrow> bool \<times> 'v \<times> 's) \<Rightarrow> ('v \<Rightarrow> bool) \<Rightarrow> ('s \<Rightarrow> 's) \<Rightarrow> bool" where
  "judges f keep g \<longleftrightarrow> (\<forall>v st. f v st = (keep v, v, if keep v then st else g st))"

text \<open>One child: the nodes below it, then its own value.\<close>

definition retain_child :: "('v \<Rightarrow> 's \<Rightarrow> bool \<times> 'v \<times> 's) \<Rightarrow> nat \<Rightarrow> 'v rnode \<Rightarrow> nat \<Rightarrow> 's \<Rightarrow> 'v rnode \<times> nat \<times> 's" where
  "retain_child f mx child k st =
     (let (child, k, st) = rn_retain_node f mx child k st
      in case rn_value child of
           Some v \<Rightarrow> (let (keep, v, st) = f v st
                     in if keep then (RNode (Some v) (rn_branches child), k, st)
                        else (RNode None (rn_branches child), k + 1, st))
         | None \<Rightarrow> (child, k, st))"

lemma retain_branches_Cons:
  "rn_retain_branches f mx ((l, child) # bs) k st =
     (let (child, k, st) = retain_child f mx child k st; (bs, k, st) = rn_retain_branches f mx bs k st
      in (if rn_is_empty child then bs else (l, child) # bs, k, st))"
  by (simp add: retain_child_def rn_is_empty_def case_prod_unfold Let_def)

text \<open>What the pass over the nodes below a node has to achieve, and with it the value of the node.\<close>

definition passed :: "('s \<Rightarrow> 's) \<Rightarrow> nat \<Rightarrow> nat \<Rightarrow> 's \<Rightarrow> nat \<Rightarrow> nat \<Rightarrow> 's \<Rightarrow> bool" where
  "passed g z k st z' k' st' \<longleftrightarrow> k' + z' = k + z \<and> k \<le> k' \<and> st' = (g ^^ (k' - k)) st"

definition node_retained :: "('v \<Rightarrow> bool) \<Rightarrow> ('s \<Rightarrow> 's) \<Rightarrow> 'v rnode \<Rightarrow> nat \<Rightarrow> 's \<Rightarrow> 'v rnode \<times> nat \<times> 's \<Rightarrow> bool" where
  "node_retained keep g n k st = (\<lambda>(n', k', st').
     rn_wf n' \<and> rn_value n' = rn_value n \<and> (\<forall>l p. rn_at n' (l # p) = kept keep (rn_at n (l # p))) \<and>
     passed g (rn_values_size n) k st (rn_values_size n') k' st')"

definition child_retained :: "('v \<Rightarrow> bool) \<Rightarrow> ('s \<Rightarrow> 's) \<Rightarrow> 'v rnode \<Rightarrow> nat \<Rightarrow> 's \<Rightarrow> 'v rnode \<times> nat \<times> 's \<Rightarrow> bool" where
  "child_retained keep g n k st = (\<lambda>(n', k', st').
     rn_wf n' \<and> (\<forall>p. rn_at n' p = kept keep (rn_at n p)) \<and>
     passed g (rn_values_size n) k st (rn_values_size n') k' st')"

definition branches_retained ::
  "('v \<Rightarrow> bool) \<Rightarrow> ('s \<Rightarrow> 's) \<Rightarrow> (level \<times> 'v rnode) list \<Rightarrow> nat \<Rightarrow> 's \<Rightarrow> (level \<times> 'v rnode) list \<times> nat \<times> 's \<Rightarrow> bool" where
  "branches_retained keep g bs k st = (\<lambda>(bs', k', st').
     branches_wf bs' \<and> fst ` set bs' \<subseteq> fst ` set bs \<and>
     (\<forall>l p. rn_at (RNode None bs') (l # p) = kept keep (rn_at (RNode None bs) (l # p))) \<and>
     passed g (branches_size bs) k st (branches_size bs') k' st')"

lemma retain_child_correct:
  assumes f: "judges f keep g" and node: "node_retained keep g n k st (rn_retain_node f mx n k st)"
  shows "child_retained keep g n k st (retain_child f mx n k st)"
proof -
  obtain own bs j st1 where m: "rn_retain_node f mx n k st = (RNode own bs, j, st1)"
    by (metis prod_cases3 rnode.exhaust)
  have val: "rn_value n = own" and j: "k \<le> j" "st1 = (g ^^ (j - k)) st" "j + rn_values_size (RNode own bs) = k + rn_values_size n"
    and wf: "rn_wf (RNode own bs)" and at': "\<forall>l p. rn_at (RNode own bs) (l # p) = kept keep (rn_at n (l # p))"
    using node unfolding m node_retained_def passed_def by auto
  have at: "rn_at (RNode (kept keep own) bs) p = kept keep (rn_at n p)" for p
    using at' val by (cases p) (simp_all add: rn_at_Nil)
  consider "kept keep own = own" | v where "own = Some v" "\<not> keep v"
    by (cases "kept keep own = own") (auto simp: kept_def split: option.splits if_splits)
  then show ?thesis
  proof cases
    case 1
    then have "retain_child f mx n k st = (RNode own bs, j, st1)"
      using f m by (auto simp: retain_child_def judges_def kept_def split: option.splits if_splits)
    then show ?thesis using at 1 j wf by (simp add: child_retained_def passed_def)
  next
    case (2 v)
    then have "retain_child f mx n k st = (RNode None bs, j + 1, g st1)" using f m by (simp add: retain_child_def judges_def)
    moreover have "j + 1 - k = Suc (j - k)" using j(1) by simp
    ultimately show ?thesis using at 2 j wf
      by (simp add: child_retained_def passed_def kept_def branches_simps del: rn_wf.simps rn_values_size.simps)
  qed
qed

lemma branches_retained_Cons:
  assumes "child_retained keep g n k st (c, k1, st1)" and "branches_retained keep g bs k1 st1 (cs, k2, st2)"
    and "branches_wf ((l, n) # bs)"
  shows "branches_retained keep g ((l, n) # bs) k st (if rn_is_empty c then cs else (l, c) # cs, k2, st2)"
proof -
  have c: "rn_wf c" "\<And>p. rn_at c p = kept keep (rn_at n p)" "passed g (rn_values_size n) k st (rn_values_size c) k1 st1"
    using assms(1) by (auto simp: child_retained_def)
  have cs: "branches_wf cs" "fst ` set cs \<subseteq> fst ` set bs"
      "\<And>x p. rn_at (RNode None cs) (x # p) = kept keep (rn_at (RNode None bs) (x # p))"
      "passed g (branches_size bs) k1 st1 (branches_size cs) k2 st2"
    using assms(2) by (auto simp: branches_retained_def)
  have l: "l \<notin> fst ` set bs" using assms(3) by (simp add: branches_simps)
  then have none: "map_of cs l = None" using cs(2) by (auto simp: map_of_eq_None_iff)
  have at: "rn_at (RNode None (if rn_is_empty c then cs else (l, c) # cs)) (x # p)
      = kept keep (rn_at (RNode None ((l, n) # bs)) (x # p))" for x p
    using cs(3) [of x p] c(2) [of p] none rn_empty_at [of c p] by (auto split: option.splits)
  have size: "branches_size (if rn_is_empty c then cs else (l, c) # cs) = rn_values_size c + branches_size cs"
    by (cases c) (simp add: branches_simps rn_is_empty_def del: rn_values_size.simps)
  have "k2 - k = (k2 - k1) + (k1 - k)" using c(3) cs(4) by (simp add: passed_def)
  then have "(g ^^ (k2 - k)) st = (g ^^ (k2 - k1)) ((g ^^ (k1 - k)) st)" by (simp only: funpow_add comp_apply)
  then have st: "st2 = (g ^^ (k2 - k)) st" using c(3) cs(4) by (simp add: passed_def)
  show ?thesis
    unfolding branches_retained_def
    using c cs l at size st by (auto simp: passed_def branches_simps)
qed

lemma retain_branches_correct:
  assumes "judges f keep g"
    and "\<And>l n k st. (l, n) \<in> set bs \<Longrightarrow> rn_wf n \<Longrightarrow> k + rn_values_size n \<le> mx \<Longrightarrow>
      node_retained keep g n k st (rn_retain_node f mx n k st)"
    and "branches_wf bs" and "k + branches_size bs \<le> mx"
  shows "branches_retained keep g bs k st (rn_retain_branches f mx bs k st)"
  using assms(2-4)
proof (induction bs arbitrary: k st)
  case Nil
  then show ?case by (simp add: branches_retained_def passed_def)
next
  case (Cons b bs)
  obtain l n where b: "b = (l, n)" by fastforce
  obtain c k1 st1 where c: "retain_child f mx n k st = (c, k1, st1)" by (metis prod_cases3)
  obtain cs k2 st2 where cs: "rn_retain_branches f mx bs k1 st1 = (cs, k2, st2)" by (metis prod_cases3)
  have child: "child_retained keep g n k st (c, k1, st1)"
    unfolding c [symmetric]
    using Cons.prems(1) [of l n k st] Cons.prems(2,3) b
    by (intro retain_child_correct [OF assms(1)]) (simp add: branches_simps)
  then have "k1 + branches_size bs \<le> mx"
    using Cons.prems(3) b by (auto simp: child_retained_def passed_def branches_simps)
  then have "branches_retained keep g bs k1 st1 (cs, k2, st2)"
    unfolding cs [symmetric]
  proof (intro Cons.IH)
    show "node_retained keep g n' k' st' (rn_retain_node f mx n' k' st')"
      if "(l', n') \<in> set bs" "rn_wf n'" "k' + rn_values_size n' \<le> mx" for l' n' k' st'
      using Cons.prems(1) [of l' n' k' st'] that by simp
  qed (use Cons.prems(2) b in \<open>simp_all add: branches_simps\<close>)
  from branches_retained_Cons [OF child this] show ?case
    using Cons.prems(2) b c cs by (simp add: retain_branches_Cons del: rn_retain_branches.simps)
qed

lemma retain_node_correct:
  assumes "judges f keep g"
  shows "rn_wf n \<Longrightarrow> k + rn_values_size n \<le> mx \<Longrightarrow> node_retained keep g n k st (rn_retain_node f mx n k st)"
proof (induction n arbitrary: k st)
  case (RNode own bs)
  show ?case
  proof (cases "k \<ge> mx")
    case True
    then have "rn_at (RNode own bs) p = None" for p
      using RNode.prems by (intro rn_no_values) (simp_all del: rn_values_size.simps rn_wf.simps)
    then show ?thesis
      using RNode.prems True by (simp add: node_retained_def passed_def del: rn_values_size.simps rn_wf.simps rn_at.simps)
  next
    case False
    have "branches_retained keep g bs k st (rn_retain_branches f mx bs k st)"
      using RNode by (intro retain_branches_correct [OF assms])
        (auto simp: branches_simps simp del: rn_values_size.simps rn_wf.simps)
    then show ?thesis
      using False by (auto simp: node_retained_def branches_retained_def passed_def branches_simps
          simp del: rn_values_size.simps rn_wf.simps split: prod.splits)
  qed
qed

text \<open>With a limit that the tree does not exceed, a bulk removal removes exactly the values that are rejected.\<close>

lemma rn_retain_correct:
  assumes "judges f keep g" and "rn_wf n" and "rn_value n = None" and "rn_values_size n \<le> mx"
    and "rn_retain mx f n st = (k, n', st')"
  shows "rn_wf n' \<and> (\<forall>p. rn_at n' p = kept keep (rn_at n p)) \<and> k + rn_values_size n' = rn_values_size n \<and> st' = (g ^^ k) st"
proof -
  have "node_retained keep g n 0 st (n', k, st')"
    using retain_node_correct [OF assms(1,2), of 0 mx st] assms(4,5) by (simp add: rn_retain_def split: prod.splits)
  moreover have "rn_at n' p = kept keep (rn_at n p)" if "\<forall>l p. rn_at n' (l # p) = kept keep (rn_at n (l # p))" "rn_value n' = None" for p
    using that assms(3) by (cases p) (simp_all add: rn_at_Nil)
  ultimately show ?thesis using assms(3) by (simp add: node_retained_def passed_def)
qed

section \<open>The storage is a map from names to messages\<close>

definition rn_dom :: "'v rnode \<Rightarrow> level list set" where
  "rn_dom n = {p. rn_at n p \<noteq> None}"

lemma rn_size_card: "rn_wf n \<Longrightarrow> finite (rn_dom n) \<and> rn_values_size n = card (rn_dom n)"
proof -
  assume wf: "rn_wf n"
  then have dom: "rn_dom n = fst ` set (rn_entries n)" by (force simp: rn_dom_def rn_entries_set)
  then show ?thesis
    using distinct_card [OF rn_entries_distinct [OF wf]] rn_entries_length [of n] by simp
qed

definition plain_name :: "level list \<Rightarrow> bool" where
  "plain_name p \<longleftrightarrow> list_all (\<lambda>l. \<not> is_wildcard l) p"

text \<open>The keys are the levels of names without wildcards, and the counter counts the messages.\<close>

definition rs_inv :: "retain_storage \<Rightarrow> bool" where
  "rs_inv s \<longleftrightarrow>
     rn_wf (rs_messages s) \<and>
     (\<forall>p \<in> rn_dom (rs_messages s). plain_name p \<and> (\<exists>name t. topic_from_str name = Inr t \<and> levels t = p)) \<and>
     cnt_current (rs_retaineds s) = int (card (rn_dom (rs_messages s)))"

definition rs_stored :: "retain_storage \<Rightarrow> string \<Rightarrow> retain_msg timed_value option" where
  "rs_stored s name = (case topic_from_str name of Inl _ \<Rightarrow> None | Inr t \<Rightarrow> rn_at (rs_messages s) (levels t))"

datatype retain_op = RSet timestamp string retain_msg "int option" | RExpire timestamp

fun rs_step :: "retain_op \<Rightarrow> retain_storage \<Rightarrow> retain_storage" where
  "rs_step (RSet now name m timeout) s = snd (set_with_timeout now name m timeout s)"
| "rs_step (RExpire now) s = snd (remove_expired_messages now s)"

text \<open>The specification: a map from names to messages.\<close>

fun rs_spec :: "retain_op \<Rightarrow> (string \<Rightarrow> retain_msg timed_value option) \<Rightarrow> string \<Rightarrow> retain_msg timed_value option" where
  "rs_spec (RSet now name m timeout) M =
     (case topic_from_str name of
        Inl _ \<Rightarrow> M
      | Inr _ \<Rightarrow> M(name := if pub_payload (mp_inner (rt_publish m)) = [] then None else Some (tv_new now m timeout)))"
| "rs_spec (RExpire now) M = (\<lambda>name. kept (\<lambda>tv. \<not> tv_is_expired now tv) (M name))"

fun op_plain :: "retain_op \<Rightarrow> bool" where
  "op_plain (RSet now name m timeout) = (case topic_from_str name of Inl _ \<Rightarrow> True | Inr t \<Rightarrow> plain_name (levels t))"
| "op_plain (RExpire now) = True"

lemma topic_from_str_inj:
  assumes "topic_from_str a = Inr t" and "topic_from_str b = Inr u"
  shows "levels t = levels u \<longleftrightarrow> a = b"
proof
  assume "levels t = levels u"
  then have "t = u" by (rule topic.expand)
  with assms show "a = b" by (simp add: topic_from_str_levels)
qed (use assms in simp)

lemma set_with_timeout_messages:
  fixes now :: timestamp and m :: retain_msg and timeout :: "int option"
  assumes "topic_from_str name = Inr t" and "rn_wf (rs_messages s)"
  defines "s' \<equiv> snd (set_with_timeout now name m timeout s)"
    and "new \<equiv> (if pub_payload (mp_inner (rt_publish m)) = [] then None else Some (tv_new now m timeout))"
  shows "rn_wf (rs_messages s')"
    and "rn_at (rs_messages s') p = (if p = levels t then new else rn_at (rs_messages s) p)"
    and "cnt_current (rs_retaineds s') = cnt_current (rs_retaineds s)
      + (if new = None then 0 else 1) - (if rn_at (rs_messages s) (levels t) = None then 0 else 1)"
proof -
  obtain old msgs where r: "rn_remove t (rs_messages s) = (old, msgs)" by fastforce
  have old: "old = rn_at (rs_messages s) (levels t)"
    and at: "\<And>q. rn_at msgs q = (if q = levels t then None else rn_at (rs_messages s) q)" and wf: "rn_wf msgs"
    using rn_remove_fst [of "levels t" "rs_messages s"] rn_remove_at [of "levels t" "rs_messages s"]
      rn_remove_wf [OF assms(2), of "levels t"] r by (simp_all add: rn_remove_def)
  show "rn_wf (rs_messages s')"
    and "rn_at (rs_messages s') p = (if p = levels t then new else rn_at (rs_messages s) p)"
    and "cnt_current (rs_retaineds s') = cnt_current (rs_retaineds s)
      + (if new = None then 0 else 1) - (if rn_at (rs_messages s) (levels t) = None then 0 else 1)"
    using r old at wf assms(1) rn_insert_wf [OF wf] rn_insert_at [of "levels t" "tv_new now m timeout" msgs]
    by (auto simp: s'_def new_def set_with_timeout_def rn_insert_def counter_inc_def counter_incs_def counter_dec_def
        counter_decs_def Let_def)
qed

lemma set_with_timeout_inv:
  assumes "rs_inv s" and "op_plain (RSet now name m timeout)"
  shows "rs_inv (rs_step (RSet now name m timeout) s)"
proof (cases "topic_from_str name")
  case (Inr t)
  let ?s = "snd (set_with_timeout now name m timeout s)"
  have wf: "rn_wf (rs_messages s)" using assms(1) by (simp add: rs_inv_def)
  note res = set_with_timeout_messages [OF Inr wf, of now m timeout]
  have dom: "rn_dom (rs_messages ?s) = (if pub_payload (mp_inner (rt_publish m)) = []
      then rn_dom (rs_messages s) - {levels t} else insert (levels t) (rn_dom (rs_messages s)))"
    by (auto simp: rn_dom_def res(2))
  have fin: "finite (rn_dom (rs_messages s))" using rn_size_card [OF wf] by simp
  have mem: "levels t \<notin> rn_dom (rs_messages s) \<longleftrightarrow> rn_at (rs_messages s) (levels t) = None" by (simp add: rn_dom_def)
  have pos: "levels t \<in> rn_dom (rs_messages s) \<Longrightarrow> 1 \<le> card (rn_dom (rs_messages s))"
    using fin by (auto simp: Suc_le_eq card_gt_0_iff)
  have "cnt_current (rs_retaineds ?s) = int (card (rn_dom (rs_messages ?s)))"
    using assms(1) fin pos unfolding dom res(3) mem [symmetric]
    by (auto simp: rs_inv_def card_insert_if card_Diff_singleton_if of_nat_diff)
  then show ?thesis
    using assms Inr res(1) dom by (auto simp: rs_inv_def split: if_splits)
qed (use assms in \<open>simp add: set_with_timeout_def\<close>)

lemma expire_judges:
  "judges (\<lambda>tv cnt. if tv_is_expired now tv then (False, tv, counter_dec cnt) else (True, tv, cnt))
     (\<lambda>tv. \<not> tv_is_expired now tv) counter_dec"
  by (simp add: judges_def)

lemma counter_dec_funpow: "cnt_current ((counter_dec ^^ k) c) = cnt_current c - int k"
  by (induction k) (simp_all add: counter_dec_def counter_decs_def)

lemma root_no_value: "rs_inv s \<Longrightarrow> rn_value (rs_messages s) = None"
proof (rule ccontr)
  assume "rs_inv s" and "rn_value (rs_messages s) \<noteq> None"
  then have "[] \<in> rn_dom (rs_messages s)" by (simp add: rn_dom_def rn_at_Nil)
  with \<open>rs_inv s\<close> show False by (auto simp: rs_inv_def topic_from_str_levels)
qed

lemma remove_expired_messages_correct:
  assumes "rs_inv s" and "card (rn_dom (rs_messages s)) \<le> usize_max"
    and "remove_expired_messages now s = (k, s')"
  shows "rs_inv s' \<and> (\<forall>p. rn_at (rs_messages s') p = kept (\<lambda>tv. \<not> tv_is_expired now tv) (rn_at (rs_messages s) p)) \<and>
    k + card (rn_dom (rs_messages s')) = card (rn_dom (rs_messages s))"
proof -
  have wf: "rn_wf (rs_messages s)" using assms(1) by (simp add: rs_inv_def)
  obtain n cnt where r: "rn_retain usize_max (\<lambda>tv cnt. if tv_is_expired now tv then (False, tv, counter_dec cnt) else (True, tv, cnt))
      (rs_messages s) (rs_retaineds s) = (k, n, cnt)" and s': "s' = \<lparr>rs_messages = n, rs_retaineds = cnt\<rparr>"
    using assms(3) by (auto simp: remove_expired_messages_def Let_def split: prod.splits)
  have "rn_values_size (rs_messages s) \<le> usize_max" using rn_size_card [OF wf] assms(2) by simp
  note res = rn_retain_correct [OF expire_judges wf root_no_value [OF assms(1)] this r]
  have n: "rn_wf n" "\<And>p. rn_at n p = kept (\<lambda>tv. \<not> tv_is_expired now tv) (rn_at (rs_messages s) p)"
    "k + card (rn_dom n) = card (rn_dom (rs_messages s))" "cnt = (counter_dec ^^ k) (rs_retaineds s)"
    using res rn_size_card [OF wf] rn_size_card [of n] by auto
  have "rn_dom n \<subseteq> rn_dom (rs_messages s)" by (auto simp: rn_dom_def n(2) kept_def split: option.splits)
  then show ?thesis
    using n assms(1) s' by (auto simp: rs_inv_def counter_dec_funpow)
qed

lemma rs_step_stored:
  assumes "rs_inv s" and "card (rn_dom (rs_messages s)) \<le> usize_max"
  shows "rs_stored (rs_step op s) = rs_spec op (rs_stored s)"
proof (cases op)
  case (RSet now name m timeout)
  show ?thesis
  proof (cases "topic_from_str name")
    case (Inr t)
    have wf: "rn_wf (rs_messages s)" using assms(1) by (simp add: rs_inv_def)
    show ?thesis
    proof
      fix other
      show "rs_stored (rs_step op s) other = rs_spec op (rs_stored s) other"
        using RSet Inr set_with_timeout_messages(2) [OF Inr wf, of now m timeout] topic_from_str_inj [OF Inr, of other]
        by (auto simp: rs_stored_def split: sum.splits)
    qed
  qed (simp add: RSet set_with_timeout_def)
next
  case (RExpire now)
  obtain k s' where "remove_expired_messages now s = (k, s')" by fastforce
  with remove_expired_messages_correct [OF assms this] RExpire show ?thesis
    by (auto simp: rs_stored_def fun_eq_iff split: sum.splits)
qed

lemma rs_step_inv:
  assumes "rs_inv s" and "card (rn_dom (rs_messages s)) \<le> usize_max" and "op_plain op"
  shows "rs_inv (rs_step op s)"
proof (cases op)
  case (RSet now name m timeout)
  then show ?thesis using set_with_timeout_inv assms(1,3) by simp
next
  case (RExpire now)
  obtain k s' where "remove_expired_messages now s = (k, s')" by fastforce
  with remove_expired_messages_correct [OF assms(1,2) this] RExpire show ?thesis by simp
qed

lemma rs_step_size:
  assumes "rs_inv s" and "card (rn_dom (rs_messages s)) \<le> usize_max"
  shows "card (rn_dom (rs_messages (rs_step op s))) \<le> Suc (card (rn_dom (rs_messages s)))"
proof (cases op)
  case (RSet now name m timeout)
  have wf: "rn_wf (rs_messages s)" using assms(1) by (simp add: rs_inv_def)
  show ?thesis
  proof (cases "topic_from_str name")
    case (Inr t)
    have "rn_dom (rs_messages (rs_step op s)) \<subseteq> insert (levels t) (rn_dom (rs_messages s))"
      using RSet set_with_timeout_messages(2) [OF Inr wf, of now m timeout] by (auto simp: rn_dom_def)
    from card_mono [OF _ this] show ?thesis
      using rn_size_card [OF wf] by (simp add: card_insert_if split: if_splits)
  qed (simp add: RSet set_with_timeout_def)
next
  case (RExpire now)
  obtain k s' where "remove_expired_messages now s = (k, s')" by fastforce
  with remove_expired_messages_correct [OF assms this] RExpire show ?thesis by simp
qed

lemma rs_new_inv: "rs_inv rs_new" "rs_stored rs_new = (\<lambda>_. None)" "rn_dom (rs_messages rs_new) = {}"
  by (auto simp: rs_inv_def rs_new_def rn_dom_def rs_stored_def counter_new_def split: sum.splits)

text \<open>A history of fewer operations than \<open>usize::MAX\<close>.\<close>

lemma rs_history:
  assumes "list_all op_plain ops" and "length ops \<le> usize_max"
  shows "rs_inv (fold rs_step ops rs_new) \<and> rs_stored (fold rs_step ops rs_new) = fold rs_spec ops (\<lambda>_. None)
    \<and> card (rn_dom (rs_messages (fold rs_step ops rs_new))) \<le> length ops"
  using assms
proof (induction ops rule: rev_induct)
  case (snoc op ops)
  let ?s = "fold rs_step ops rs_new"
  have s: "rs_inv ?s" "rs_stored ?s = fold rs_spec ops (\<lambda>_. None)" "card (rn_dom (rs_messages ?s)) \<le> length ops"
    using snoc by auto
  then have "card (rn_dom (rs_messages ?s)) \<le> usize_max" using snoc.prems(2) by simp
  then show ?case
    using s rs_step_inv [OF s(1)] rs_step_stored [OF s(1)] rs_step_size [OF s(1), of op] snoc.prems by fastforce
qed (simp add: rs_new_inv)

section \<open>Answers of the storage\<close>

lemma rn_nonempty_dom: "rn_wf n \<Longrightarrow> \<not> rn_is_empty n \<Longrightarrow> \<exists>p. p \<in> rn_dom n"
proof (induction n)
  case (RNode own bs)
  show ?case
  proof (cases "own = None")
    case True
    then obtain l n bs' where bs: "bs = (l, n) # bs'" using RNode.prems by (cases bs) (auto simp: rn_is_empty_def)
    then obtain p where "p \<in> rn_dom n" using RNode.IH [of "(l, n)" n] RNode.prems by auto
    then have "l # p \<in> rn_dom (RNode own bs)" using bs by (simp add: rn_dom_def)
    then show ?thesis by blast
  next
    case False
    then have "[] \<in> rn_dom (RNode own bs)" by (simp add: rn_dom_def)
    then show ?thesis by blast
  qed
qed

lemma rn_plain_dom: "rn_wf n \<Longrightarrow> \<forall>p \<in> rn_dom n. plain_name p \<Longrightarrow> rn_plain n"
proof (induction n)
  case (RNode own bs)
  have "\<not> is_wildcard l \<and> rn_plain n" if b: "(l, n) \<in> set bs" for l n
  proof -
    have n: "rn_wf n" "\<not> rn_is_empty n" "map_of bs l = Some n" using RNode.prems(1) b by (auto simp: list_all_iff)
    then have below: "p \<in> rn_dom n \<Longrightarrow> l # p \<in> rn_dom (RNode own bs)" for p by (simp add: rn_dom_def)
    then have "\<forall>p \<in> rn_dom n. \<not> is_wildcard l \<and> plain_name p" using RNode.prems(2) by (fastforce simp: plain_name_def)
    then show ?thesis using RNode.IH [OF b, of n] rn_nonempty_dom [OF n(1,2)] n(1) by auto
  qed
  then show ?case by (auto simp: list_all_iff)
qed

text \<open>The names that the tree returns for a filter, by the rules of the standard.\<close>

lemma rs_matches:
  assumes "rs_inv s" and "topic_from_str flt = Inr f"
  shows "distinct (map fst (rn_matches f (rs_messages s)))"
    and "set (rn_matches f (rs_messages s))
      = {(t, tv) |t name tv. topic_from_str name = Inr t \<and> rs_stored s name = Some tv \<and> mqtt_match (levels f) (split_slash name)}"
proof -
  let ?n = "rs_messages s"
  have f: "levels_ok (levels f)" "list_all level_canonical (levels f)"
    using assms(2) by (auto simp: topic_from_str_levels topic_is_valid_levels)
  have wf: "rn_wf ?n" and dom: "\<forall>p \<in> rn_dom ?n. plain_name p \<and> (\<exists>name t. topic_from_str name = Inr t \<and> levels t = p)"
    using assms(1) by (auto simp: rs_inv_def)
  have plain: "rn_plain ?n" using rn_plain_dom [OF wf] dom by blast
  note ml = levels_ok_multi_last [OF f(1)]
  show "distinct (map fst (rn_matches f ?n))" unfolding rn_matches_def by (rule rn_matches_distinct [OF wf plain ml])
  have std: "root_match [] (levels f) (levels t) = mqtt_match (levels f) (split_slash name)"
    if "topic_from_str name = Inr t" "plain_name (levels t)" for name t
    using root_match_standard [OF f, of "levels t"] split_to_string [of t] that
    by (auto simp: topic_from_str_levels plain_name_def)
  have "set (rn_matches f ?n) = hits ?n [] (\<lambda>p. root_match [] (levels f) p \<and> \<not> (p = [] \<and> levels f = [MultiWildcard]))"
    unfolding rn_matches_def by (rule rn_matches_set [OF wf plain ml])
  also have "\<dots> = {(t, tv) |t name tv. topic_from_str name = Inr t \<and> rs_stored s name = Some tv \<and> mqtt_match (levels f) (split_slash name)}"
    (is "?A = ?B")
  proof (intro set_eqI iffI)
    fix x assume "x \<in> ?A"
    then obtain p tv where x: "x = (Topic p, tv)" "rn_at ?n p = Some tv" "root_match [] (levels f) p" by (auto simp: hits_def)
    then obtain name t where t: "topic_from_str name = Inr t" "levels t = p" "plain_name p" using dom by (auto simp: rn_dom_def)
    then have "t = Topic p" "rs_stored s name = Some tv" using x by (auto simp: rs_stored_def)
    then show "x \<in> ?B" using x t std [OF t(1)] by auto
  next
    fix x assume "x \<in> ?B"
    then obtain t name tv where x: "x = (t, tv)" "topic_from_str name = Inr t" "rs_stored s name = Some tv"
        "mqtt_match (levels f) (split_slash name)" by auto
    then have "rn_at ?n (levels t) = Some tv" by (simp add: rs_stored_def)
    moreover have "levels t \<noteq> []" using x(2) by (auto simp: topic_from_str_levels)
    ultimately show "x \<in> ?A" using x std [OF x(2)] dom by (cases t) (auto simp: hits_def rn_dom_def)
  qed
  finally show "set (rn_matches f ?n)
      = {(t, tv) |t name tv. topic_from_str name = Inr t \<and> rs_stored s name = Some tv \<and> mqtt_match (levels f) (split_slash name)}" .
qed

lemma map_filter_mem: "x \<in> set (List.map_filter g ms) \<longleftrightarrow> (\<exists>y \<in> set ms. g y = Some x)"
  by (induction ms) (auto simp: List.map_filter_simps split: option.splits)

text \<open>The entries that have not expired, with a view \<open>h\<close> of each.\<close>

definition fresh_entries :: "timestamp \<Rightarrow> (retain_msg timed_value \<Rightarrow> 'b) \<Rightarrow> topic \<Rightarrow> retain_storage \<Rightarrow> (string \<times> 'b) list" where
  "fresh_entries now h f s =
     List.map_filter (\<lambda>(t, r). if tv_is_expired now r then None else Some (topic_to_string t, h r)) (rn_matches f (rs_messages s))"

lemma fresh_entries_exact:
  assumes "rs_inv s" and "topic_from_str flt = Inr f"
  shows "distinct (map fst (fresh_entries now h f s))"
    and "set (fresh_entries now h f s) = {(name, h tv) |name tv. rs_stored s name = Some tv \<and> \<not> tv_is_expired now tv
      \<and> mqtt_match (levels f) (split_slash name)}"
proof -
  let ?sel = "\<lambda>(t, r). if tv_is_expired now r then None else Some (topic_to_string t, h r)"
  let ?ms = "rn_matches f (rs_messages s)"
  note m = rs_matches [OF assms]
  have names: "inj_on topic_to_string (fst ` set ?ms)"
    unfolding m(2) by (auto simp: inj_on_def topic_from_str_levels) (metis topic_from_str_levels sum.inject(2))
  have "map fst (List.map_filter ?sel ms) = map topic_to_string (map fst (filter (\<lambda>(t, r). \<not> tv_is_expired now r) ms))"
    for ms :: "(topic \<times> retain_msg timed_value) list"
    by (induction ms) (auto simp: List.map_filter_simps)
  moreover have "distinct (map topic_to_string (map fst (filter (\<lambda>(t, r). \<not> tv_is_expired now r) ?ms)))"
    using m(1) names distinct_map_filter by (subst distinct_map) (fastforce intro: inj_on_subset)
  ultimately show "distinct (map fst (fresh_entries now h f s))" by (simp add: fresh_entries_def)
  show "set (fresh_entries now h f s) = {(name, h tv) |name tv. rs_stored s name = Some tv \<and> \<not> tv_is_expired now tv
      \<and> mqtt_match (levels f) (split_slash name)}"
    (is "_ = ?R")
    unfolding fresh_entries_def
  proof (intro set_eqI iffI)
    fix x assume "x \<in> set (List.map_filter ?sel ?ms)"
    then obtain t tv where "(t, tv) \<in> set ?ms" "\<not> tv_is_expired now tv" "x = (topic_to_string t, h tv)"
      by (auto simp: map_filter_mem split: if_splits)
    then show "x \<in> ?R" unfolding m(2) by (auto simp: topic_from_str_levels)
  next
    fix x assume "x \<in> ?R"
    then obtain name tv where x: "x = (name, h tv)" "rs_stored s name = Some tv" "\<not> tv_is_expired now tv"
        "mqtt_match (levels f) (split_slash name)" by auto
    then obtain t where t: "topic_from_str name = Inr t" by (auto simp: rs_stored_def split: sum.splits)
    then have "(t, tv) \<in> set ?ms" "topic_to_string t = name" using x unfolding m(2) by (auto simp: topic_from_str_levels)
    then show "x \<in> set (List.map_filter ?sel ?ms)"
      using x(1,3) by (auto simp: map_filter_mem intro!: bexI [of _ "(t, tv)"])
  qed
qed


section \<open>Properties\<close>

lemma get_message_spec:
  assumes "list_all op_plain ops" and "length ops \<le> usize_max" and "topic_from_str flt = Inr f"
  shows "\<exists>msgs. get_message now flt (fold rs_step ops rs_new) = Inr msgs \<and> distinct (map fst msgs) \<and>
    set msgs = {(name, tv_value tv) |name tv. fold rs_spec ops (\<lambda>_. None) name = Some tv \<and> \<not> tv_is_expired now tv
      \<and> mqtt_match (levels f) (split_slash name)}"
  using rs_history [OF assms(1,2)] fresh_entries_exact [OF _ assms(3), of "fold rs_step ops rs_new" now tv_value] assms(3)
  by (simp add: get_message_def fresh_entries_def)

text \<open>C18: Retained messages are found. After any history of fewer operations than \<open>usize::MAX\<close>, on names without wildcards, a lookup
  with a valid filter returns exactly the messages that were set last for a name that the filter matches by the rules of
  the standard, that were not deleted by an empty payload, and that have not expired; each name once.\<close>

theorem retained_lookup_exact:
  assumes "list_all op_plain ops" and "length ops \<le> usize_max" and "topic_from_str flt = Inr f"
  shows "\<exists>msgs. get_message now flt (fold rs_step ops rs_new) = Inr msgs \<and> distinct (map fst msgs) \<and>
    set msgs = {(name, tv_value tv) |name tv. fold rs_spec ops (\<lambda>_. None) name = Some tv \<and> \<not> tv_is_expired now tv
      \<and> mqtt_match (levels f) (split_slash name)}"
  by (rule get_message_spec [OF assms])

definition ex_retain :: "string \<Rightarrow> nat \<Rightarrow> retain_msg" where
  "ex_retain name k =
     \<lparr>rt_msg_id = None, rt_from = \<lparr>from_typ = FromCustom, from_id = id_from 0 1 ''p''\<rparr>,
      rt_publish = mp_from \<lparr>pub_dup = False, pub_retain = True, pub_qos = AtMostOnce, pub_topic = text_bytes name,
        pub_packet_id = None, pub_payload = replicate k 0, pub_properties = None\<rparr>\<rparr>"

definition ex_retain_ops :: "retain_op list" where
  "ex_retain_ops =
     [RSet 0 ''a/b'' (ex_retain ''a/b'' 1) None, RSet 0 ''$x'' (ex_retain ''$x'' 1) (Some 10),
      RSet 1 ''a/b'' (ex_retain ''a/b'' 2) (Some 60), RSet 2 ''c'' (ex_retain ''c'' 1) (Some 3), RExpire 9]"

lemmas ex_parse = topic_from_str_def level_from_str_def topic_is_valid_levels contains_wildcard_def str_is_metadata_def

lemma ex_retain_plain: "list_all op_plain ex_retain_ops" "length ex_retain_ops \<le> usize_max"
  by (simp_all add: ex_retain_ops_def ex_parse plain_name_def is_wildcard_def usize_max_def)

theorem retained_lookup_exact_witness:
  "\<exists>msgs. get_message 20 ''a/#'' (fold rs_step ex_retain_ops rs_new) = Inr msgs \<and> distinct (map fst msgs) \<and>
    (''a/b'', ex_retain ''a/b'' 2) \<in> set msgs"
proof -
  have "topic_from_str ''a/#'' = Inr (Topic [Normal ''a'', MultiWildcard])" by (simp add: ex_parse)
  from retained_lookup_exact [OF ex_retain_plain this, of 20] show ?thesis
    by (auto simp: ex_retain_ops_def ex_retain_def ex_parse mp_from_def mp_new_def tv_new_def tv_is_expired_def kept_def mqtt_match_def is_wildcard_def)
qed

text \<open>The number of stored names.\<close>

lemma rs_stored_card:
  assumes "rs_inv s"
  shows "cnt_current (rs_retaineds s) = int (card {name. rs_stored s name \<noteq> None})"
proof -
  let ?lv = "\<lambda>name. levels (case topic_from_str name of Inr t \<Rightarrow> t)"
  have "inj_on ?lv {name. rs_stored s name \<noteq> None}"
    using topic_from_str_inj by (auto simp: inj_on_def rs_stored_def split: sum.splits)
  moreover have "?lv ` {name. rs_stored s name \<noteq> None} = rn_dom (rs_messages s)"
  proof (intro set_eqI iffI)
    fix p assume "p \<in> rn_dom (rs_messages s)"
    moreover from this obtain name t where "topic_from_str name = Inr t" "levels t = p" using assms by (auto simp: rs_inv_def)
    ultimately show "p \<in> ?lv ` {name. rs_stored s name \<noteq> None}"
      by (intro image_eqI [where x = name]) (auto simp: rs_stored_def rn_dom_def)
  qed (auto simp: rs_stored_def rn_dom_def split: sum.splits)
  ultimately show ?thesis using assms card_image by (fastforce simp: rs_inv_def)
qed

text \<open>A full storage never recovers by being used. The documentation of the limit says that existing messages can be replaced
  when the maximum is reached; the code refuses every message then: whatever is set afterwards, replacements and
  deletions included, leaves the storage as it was.\<close>

theorem ram_full_refuses_all:
  assumes "list_all op_plain ops" and "length ops \<le> usize_max" and "0 < rc_max_retained_messages cfg"
    and "rc_max_retained_messages cfg \<le> int (card {name. fold rs_spec ops (\<lambda>_. None) name \<noteq> None})"
  shows "fold (\<lambda>(now, name, m, expiry) s. snd (ram_set cfg now name m expiry s)) sets (fold rs_step ops rs_new)
    = fold rs_step ops rs_new"
proof -
  let ?s = "fold rs_step ops rs_new"
  have "cnt_current (rs_retaineds ?s) \<ge> rc_max_retained_messages cfg"
    using rs_history [OF assms(1,2)] rs_stored_card [of ?s] assms(4) by simp
  then have "snd (ram_set cfg now name m expiry ?s) = ?s" for now name m expiry
    using assms(3) by (simp add: ram_set_def)
  then show ?thesis by (induction sets) auto
qed

definition ex_retainer_cfg :: retainer_cfg where
  "ex_retainer_cfg = \<lparr>rc_max_retained_messages = 1, rc_max_payload_size = 100, rc_retained_message_ttl = None\<rparr>"

theorem ram_full_refuses_all_witness:
  "fold (\<lambda>(now, name, m, expiry) s. snd (ram_set ex_retainer_cfg now name m expiry s))
       [(7, ''a'', ex_retain ''a'' 0, None)] (fold rs_step [RSet 0 ''a'' (ex_retain ''a'' 1) None] rs_new)
     = fold rs_step [RSet 0 ''a'' (ex_retain ''a'' 1) None] rs_new"
proof (rule ram_full_refuses_all)
  have "{name. fold rs_spec [RSet 0 ''a'' (ex_retain ''a'' 1) None] (\<lambda>_. None) name \<noteq> None} = {''a''}"
    by (auto simp: ex_parse ex_retain_def mp_from_def mp_new_def split: if_splits)
  then show "rc_max_retained_messages ex_retainer_cfg
      \<le> int (card {name. fold rs_spec [RSet 0 ''a'' (ex_retain ''a'' 1) None] (\<lambda>_. None) name \<noteq> None})"
    by (simp only: ex_retainer_cfg_def) simp
qed (simp_all add: ex_retainer_cfg_def usize_max_def ex_parse plain_name_def is_wildcard_def)

lemma split_slash_metadata: "str_is_metadata (hd (split_slash s)) = str_is_metadata s"
  by (cases s) (auto simp: str_is_metadata_def split: list.splits)

text \<open>The pages of \<open>get_all_paginated\<close> cut one list into pieces. Each stored name that has not expired occurs in it once, with
  its message and remaining time, except the names that start with a dollar sign, which the filter \<open>#\<close> does not match.\<close>

theorem paginated_snapshot:
  assumes "list_all op_plain ops" and "length ops \<le> usize_max"
  shows "\<exists>msgs. distinct (map fst msgs) \<and>
    set msgs = {(name, tv_value tv, tv_remaining now tv) |name tv. fold rs_spec ops (\<lambda>_. None) name = Some tv
      \<and> \<not> tv_is_expired now tv \<and> \<not> str_is_metadata name} \<and>
    (\<forall>offset limit. get_all_paginated now offset limit (fold rs_step ops rs_new)
      = Inr (take limit (drop offset msgs), offset + limit < length msgs))"
proof -
  let ?s = "fold rs_step ops rs_new" and ?h = "\<lambda>tv. (tv_value tv, tv_remaining now tv)"
  have f: "topic_from_str ''#'' = Inr (Topic [MultiWildcard])" by (simp add: ex_parse)
  have "mqtt_match (levels (Topic [MultiWildcard])) (split_slash name) \<longleftrightarrow> \<not> str_is_metadata name" for name
    using split_slash_metadata [of name] by (simp add: mqtt_match_def is_wildcard_def)
  moreover have "get_all_paginated now offset limit ?s = Inr (take limit (drop offset (fresh_entries now ?h (Topic [MultiWildcard]) ?s)),
      offset + limit < length (fresh_entries now ?h (Topic [MultiWildcard]) ?s))" for offset limit
    by (simp add: get_all_paginated_def f fresh_entries_def Let_def)
  ultimately show ?thesis
    using rs_history [OF assms] fresh_entries_exact [OF _ f, of ?s now ?h] by auto
qed

theorem paginated_snapshot_witness:
  "\<exists>msgs. distinct (map fst msgs) \<and>
    set msgs = {(name, tv_value tv, tv_remaining 5 tv) |name tv. fold rs_spec ex_retain_ops (\<lambda>_. None) name = Some tv
      \<and> \<not> tv_is_expired 5 tv \<and> \<not> str_is_metadata name} \<and>
    (\<forall>offset limit. get_all_paginated 5 offset limit (fold rs_step ex_retain_ops rs_new)
      = Inr (take limit (drop offset msgs), offset + limit < length msgs))"
  by (rule paginated_snapshot [OF ex_retain_plain])

end
