(* ===== verification/Session_Subs.thy ===== *)
theory Session_Subs
  imports Broker_Types "HOL-Library.AList"
begin

text \<open>
  The subscriptions of a session (\<open>SessionSubs\<close>), the topic aliases in both directions
  (\<open>ServerTopicAliases\<close>, \<open>ClientTopicAliases\<close>) and delayed messages, of \<open>ferromq/src/types.rs\<close>. A
  hash map is an association list; the methods are run one after another, as the session task calls them.

  Shown: the global subscription counters move with the session tables; the aliases that the server
  assigns are distinct and within the client's limit, and a receiver that follows the protocol
  reconstructs every topic.
\<close>

section \<open>Subscriptions of a session\<close>

record sub_stats =
  st_subscriptions :: counter
  st_subscriptions_shared :: counter

type_synonym session_subs = "(topic_filter \<times> sub_options) list"

definition stat_sub :: "(counter \<Rightarrow> counter) \<Rightarrow> sub_stats \<Rightarrow> sub_stats" where
  "stat_sub f st = st\<lparr>st_subscriptions := f (st_subscriptions st)\<rparr>"

definition stat_shared :: "(counter \<Rightarrow> counter) \<Rightarrow> sub_stats \<Rightarrow> sub_stats" where
  "stat_shared f st = st\<lparr>st_subscriptions_shared := f (st_subscriptions_shared st)\<rparr>"

definition subs_add :: "topic_filter \<Rightarrow> sub_options \<Rightarrow> session_subs \<times> sub_stats \<Rightarrow>
    sub_options option \<times> session_subs \<times> sub_stats" where
  "subs_add tf opts = (\<lambda>(subs, st).
     let is_shared = has_shared_group opts;
         prev = map_of subs tf;
         subs = AList.update tf opts subs;
         st = (case prev of
                 Some prev_opts \<Rightarrow>
                   (if has_shared_group prev_opts \<and> \<not> is_shared then stat_shared counter_dec st
                    else if \<not> has_shared_group prev_opts \<and> is_shared then stat_shared counter_inc st
                    else st)
               | None \<Rightarrow>
                   (let st = stat_sub counter_inc st
                    in if is_shared then stat_shared counter_inc st else st))
     in (prev, subs, st))"

definition subs_remove :: "topic_filter \<Rightarrow> session_subs \<times> sub_stats \<Rightarrow>
    (topic_filter \<times> sub_options) option \<times> session_subs \<times> sub_stats" where
  "subs_remove tf = (\<lambda>(subs, st).
     let removed = map_option (\<lambda>opts. (tf, opts)) (map_of subs tf);
         subs = AList.delete tf subs;
         st = (case removed of
                 Some (_, opts) \<Rightarrow>
                   (let st = stat_sub counter_dec st
                    in if has_shared_group opts then stat_shared counter_dec st else st)
               | None \<Rightarrow> st)
     in (removed, subs, st))"

fun subs_drain_loop :: "topic_filter list \<Rightarrow> session_subs \<times> sub_stats \<Rightarrow>
    (topic_filter \<times> sub_options) list \<times> session_subs \<times> sub_stats" where
  "subs_drain_loop [] s = ([], s)"
| "subs_drain_loop (tf # tfs) s =
     (case subs_remove tf s of
        (removed, s') \<Rightarrow>
          (case subs_drain_loop tfs s' of
             (subs, s'') \<Rightarrow> ((case removed of Some sub \<Rightarrow> sub # subs | None \<Rightarrow> subs), s'')))"

definition subs_drain :: "session_subs \<times> sub_stats \<Rightarrow>
    (topic_filter \<times> sub_options) list \<times> session_subs \<times> sub_stats" where
  "subs_drain s = subs_drain_loop (map fst (fst s)) s"

fun subs_extend :: "(topic_filter \<times> sub_options) list \<Rightarrow> session_subs \<times> sub_stats \<Rightarrow> session_subs \<times> sub_stats" where
  "subs_extend [] s = s"
| "subs_extend ((tf, opts) # rest) s = subs_extend rest (snd (subs_add tf opts s))"

fun subs_clear_stats :: "session_subs \<Rightarrow> sub_stats \<Rightarrow> sub_stats" where
  "subs_clear_stats [] st = st"
| "subs_clear_stats ((_, opts) # rest) st =
     (let st = stat_sub counter_dec st
      in subs_clear_stats rest (if has_shared_group opts then stat_shared counter_dec st else st))"

definition subs_clear :: "session_subs \<times> sub_stats \<Rightarrow> session_subs \<times> sub_stats" where
  "subs_clear = (\<lambda>(subs, st). ([], subs_clear_stats subs st))"

definition subs_len :: "session_subs \<Rightarrow> nat" where
  "subs_len subs = length subs"

definition subs_shared_len :: "session_subs \<Rightarrow> nat" where
  "subs_shared_len subs = length (filter (\<lambda>(_, opts). has_shared_group opts) subs)"

section \<open>Counters follow the tables\<close>

text \<open>The statistics minus the sizes of this table: what the other sessions have contributed.\<close>

definition others :: "session_subs \<times> sub_stats \<Rightarrow> int \<times> int" where
  "others = (\<lambda>(subs, st).
     (cnt_current (st_subscriptions st) - int (subs_len subs),
      cnt_current (st_subscriptions_shared st) - int (subs_shared_len subs)))"

definition subs_wf :: "session_subs \<times> sub_stats \<Rightarrow> bool" where
  "subs_wf = (\<lambda>(subs, _). distinct (map fst subs))"

lemmas stat_defs = stat_sub_def stat_shared_def subs_len_def subs_shared_len_def

lemma update_new: "k \<notin> fst ` set al \<Longrightarrow> AList.update k v al = al @ [(k, v)]"
  by (induction al) auto

lemma update_old:
  "map_of al k = Some u \<Longrightarrow> distinct (map fst al) \<Longrightarrow>
     length (AList.update k v al) = length al \<and>
     int (length (filter (\<lambda>(_, x). P x) (AList.update k v al)))
       = int (length (filter (\<lambda>(_, x). P x) al)) - (if P u then 1 else 0) + (if P v then 1 else 0)"
  by (induction al) (auto simp: map_of_eq_None_iff)

lemma delete_new: "k \<notin> fst ` set al \<Longrightarrow> AList.delete k al = al"
  by (induction al) (auto simp: AList.delete_eq)

lemma delete_old:
  "map_of al k = Some u \<Longrightarrow> distinct (map fst al) \<Longrightarrow>
     int (length (AList.delete k al)) = int (length al) - 1 \<and>
     int (length (filter (\<lambda>(_, x). P x) (AList.delete k al)))
       = int (length (filter (\<lambda>(_, x). P x) al)) - (if P u then 1 else 0)"
proof (induction al)
  case (Cons a al)
  then show ?case using delete_new [of k al] by (auto split: if_splits)
qed simp

lemma subs_add_keeps:
  assumes "subs_wf s"
  shows "subs_wf (snd (subs_add tf opts s))" and "others (snd (subs_add tf opts s)) = others s"
proof -
  obtain subs st where s: "s = (subs, st)" by fastforce
  have d: "distinct (map fst subs)" using assms s by (simp add: subs_wf_def)
  show "subs_wf (snd (subs_add tf opts s))"
    using d s by (simp add: subs_add_def subs_wf_def Let_def distinct_update)
  show "others (snd (subs_add tf opts s)) = others s"
  proof (cases "map_of subs tf")
    case None
    then have "AList.update tf opts subs = subs @ [(tf, opts)]" by (simp add: update_new map_of_eq_None_iff)
    with None s show ?thesis by (simp add: subs_add_def others_def Let_def stat_defs)
  next
    case (Some prev)
    from update_old [OF Some d, of opts has_shared_group] Some s show ?thesis
      by (auto simp: subs_add_def others_def Let_def stat_defs)
  qed
qed

lemma subs_remove_keeps:
  assumes "subs_wf s"
  shows "subs_wf (snd (subs_remove tf s))" and "others (snd (subs_remove tf s)) = others s"
proof -
  obtain subs st where s: "s = (subs, st)" by fastforce
  have d: "distinct (map fst subs)" using assms s by (simp add: subs_wf_def)
  show "subs_wf (snd (subs_remove tf s))"
    using d s by (simp add: subs_remove_def subs_wf_def Let_def distinct_delete)
  show "others (snd (subs_remove tf s)) = others s"
  proof (cases "map_of subs tf")
    case None
    then have "AList.delete tf subs = subs" by (simp add: delete_new map_of_eq_None_iff)
    with None s show ?thesis by (simp add: subs_remove_def others_def Let_def)
  next
    case (Some prev)
    from delete_old [OF Some d, of has_shared_group] Some s show ?thesis
      by (auto simp: subs_remove_def others_def Let_def stat_defs)
  qed
qed

lemma subs_extend_keeps: "subs_wf s \<Longrightarrow> subs_wf (subs_extend rest s) \<and> others (subs_extend rest s) = others s"
  by (induction rest s rule: subs_extend.induct) (auto simp: subs_add_keeps)

lemma subs_clear_stats_current:
  "cnt_current (st_subscriptions (subs_clear_stats subs st)) = cnt_current (st_subscriptions st) - int (length subs)"
  "cnt_current (st_subscriptions_shared (subs_clear_stats subs st))
     = cnt_current (st_subscriptions_shared st) - int (length (filter (\<lambda>(_, opts). has_shared_group opts) subs))"
  by (induction subs st rule: subs_clear_stats.induct) (auto simp: stat_defs Let_def)

lemma subs_clear_keeps: "subs_wf (subs_clear s) \<and> others (subs_clear s) = others s"
  by (cases s) (simp add: subs_clear_def subs_wf_def others_def subs_clear_stats_current stat_defs)

lemma subs_drain_loop_keeps:
  "subs_wf s \<Longrightarrow> subs_wf (snd (subs_drain_loop tfs s)) \<and> others (snd (subs_drain_loop tfs s)) = others s"
proof (induction tfs arbitrary: s)
  case (Cons tf tfs)
  obtain r s' where r: "subs_remove tf s = (r, s')" by (cases "subs_remove tf s") blast
  with subs_remove_keeps [OF Cons.prems, of tf] Cons.IH [of s'] show ?case by (auto split: prod.splits)
qed simp

text \<open>A table drained by its own keys is empty, and all entries are returned.\<close>

lemma subs_drain_loop_all:
  "distinct (map fst subs) \<Longrightarrow>
     fst (subs_drain_loop (map fst subs) (subs, st)) = subs \<and>
     fst (snd (subs_drain_loop (map fst subs) (subs, st))) = []"
proof (induction subs arbitrary: st)
  case (Cons a subs)
  obtain tf opts where a: "a = (tf, opts)" by fastforce
  have "AList.delete tf (a # subs) = subs" using Cons.prems a delete_new [of tf subs] by simp
  then obtain st' where r: "subs_remove tf (a # subs, st) = (Some a, subs, st')"
    using a by (simp add: subs_remove_def Let_def)
  with Cons.IH [of st'] Cons.prems a show ?case
    by (cases "subs_drain_loop (map fst subs) (subs, st')") auto
qed simp

section \<open>Aliases that the server assigns\<close>

text \<open>
  \<open>ServerTopicAliases\<close> and \<open>ClientTopicAliases\<close>. The key of a table is looked up, or added when there is room.
  The result \<open>None\<close> of \<open>server_alias_get\<close> is the panic of \<open>unreachable!\<close>.
\<close>

record server_aliases =
  sal_max :: nat
  sal_map :: "(bytes \<times> u16) list"

record client_aliases =
  cal_max :: nat
  cal_map :: "(u16 \<times> bytes) list"

definition server_aliases_new :: "nat \<Rightarrow> server_aliases" where
  "server_aliases_new mx = \<lparr>sal_max = mx, sal_map = []\<rparr>"

definition client_aliases_new :: "nat \<Rightarrow> client_aliases" where
  "client_aliases_new mx = \<lparr>cal_max = mx, cal_map = []\<rparr>"

definition server_alias_get :: "bytes \<Rightarrow> server_aliases \<Rightarrow>
    ((bytes option \<times> u16 option) \<times> server_aliases) option" where
  "server_alias_get topic s =
     (if sal_max s = 0 then Some ((Some topic, None), s)
      else
        (case map_of (sal_map s) topic of
           Some alias \<Rightarrow> Some ((None, Some alias), s)
         | None \<Rightarrow>
             (let len = length (sal_map s)
              in if len \<ge> sal_max s then Some ((Some topic, None), s)
                 else
                   (let alias = (word_of_nat (len + 1) :: u16)
                    in if alias = 0 then None
                       else Some ((Some topic, Some alias),
                                  s\<lparr>sal_map := AList.update topic alias (sal_map s)\<rparr>)))))"

definition alias_error :: "string \<Rightarrow> mqtt_error" where
  "alias_error msg = MErrPublishAckReason PAR_ImplementationSpecificError msg"

definition client_alias_set_and_get :: "u16 option \<Rightarrow> bytes \<Rightarrow> client_aliases \<Rightarrow>
    (mqtt_error + bytes) \<times> client_aliases" where
  "client_alias_set_and_get alias topic s =
     (case (alias, length topic) of
        (Some alias, 0) \<Rightarrow>
          (case map_of (cal_map s) alias of
             None \<Rightarrow> (Inl (alias_error ''implementation specific error, the topic associated with the alias was not found''), s)
           | Some t \<Rightarrow> (Inr t, s))
      | (Some alias, Suc _) \<Rightarrow>
          (let len = length (cal_map s)
           in case map_of (cal_map s) alias of
                Some _ \<Rightarrow> (Inr topic, s\<lparr>cal_map := AList.update alias topic (cal_map s)\<rparr>)
              | None \<Rightarrow>
                  (if len \<ge> cal_max s
                   then (Inl (alias_error ''implementation specific error, the number of topic aliases exceeds the limit''), s)
                   else (Inr topic, s\<lparr>cal_map := AList.update alias topic (cal_map s)\<rparr>)))
      | (None, 0) \<Rightarrow> (Inl (alias_error ''implementation specific error, alias and topic are both empty''), s)
      | (None, Suc _) \<Rightarrow> (Inr topic, s))"

text \<open>
  \<open>Sink::publish\<close>: what is handed to the stream of the client. A v3 stream gets the message as it is; for
  v5 the topic may be replaced by its alias. The texts of the errors above are shortened.
\<close>

datatype sink_version = SinkV3 | SinkV5

definition sink_publish :: "sink_version \<Rightarrow> msg_publish \<Rightarrow> u32 option \<Rightarrow> server_aliases option \<Rightarrow>
    (publish \<times> server_aliases option) option" where
  "sink_publish v p mei aliases =
     (case v of
        SinkV3 \<Rightarrow> Some (mp_inner p, aliases)
      | SinkV5 \<Rightarrow>
          (let topic_name = pub_topic (mp_inner p)
           in case (case aliases of
                      Some sal \<Rightarrow> map_option (\<lambda>(r, sal'). (r, Some sal')) (server_alias_get topic_name sal)
                    | None \<Rightarrow> Some ((Some topic_name, None), None)) of
                None \<Rightarrow> None
              | Some ((topic, alias), aliases') \<Rightarrow>
                  (let q = (mp_inner p)\<lparr>pub_topic := (case topic of Some t \<Rightarrow> t | None \<Rightarrow> [])\<rparr>;
                       q = (case pub_properties q of
                              Some props \<Rightarrow>
                                q\<lparr>pub_properties :=
                                    Some (props\<lparr>pp_message_expiry_interval := mei, pp_topic_alias := alias\<rparr>)\<rparr>
                            | None \<Rightarrow> q)
                   in Some (q, aliases'))))"

text \<open>The publications of one session, in order.\<close>

fun sink_publish_all :: "msg_publish list \<Rightarrow> server_aliases option \<Rightarrow> publish list option" where
  "sink_publish_all [] _ = Some []"
| "sink_publish_all (p # ps) aliases =
     (case sink_publish SinkV5 p None aliases of
        None \<Rightarrow> None
      | Some (q, aliases') \<Rightarrow> map_option ((#) q) (sink_publish_all ps aliases'))"

text \<open>A receiver of PUBLISH packets that keeps its alias table with \<open>set_and_get\<close>, as \<open>SessionState::publish_v5\<close> does.\<close>

definition received_topic :: "publish \<Rightarrow> client_aliases \<Rightarrow> (mqtt_error + bytes) \<times> client_aliases" where
  "received_topic p s =
     client_alias_set_and_get (Option.bind (pub_properties p) pp_topic_alias) (pub_topic p) s"

fun received_topics :: "publish list \<Rightarrow> client_aliases \<Rightarrow> (mqtt_error + bytes) list" where
  "received_topics [] _ = []"
| "received_topics (p # ps) s = (case received_topic p s of (r, s') \<Rightarrow> r # received_topics ps s')"

subsection \<open>Both tables agree\<close>

definition aliases_agree :: "server_aliases \<Rightarrow> client_aliases \<Rightarrow> bool" where
  "aliases_agree s c \<longleftrightarrow>
     sal_max s = cal_max c \<and> sal_max s < 65536 \<and> length (sal_map s) \<le> sal_max s \<and>
     distinct (map fst (sal_map s)) \<and>
     map snd (sal_map s) = map word_of_nat [1..<Suc (length (sal_map s))] \<and>
     cal_map c = map prod.swap (sal_map s)"

lemma alias_word_inj: "inj_on (word_of_nat :: nat \<Rightarrow> u16) {..<65536}"
  by (rule inj_on_inverseI [where g = unat]) (simp add: unat_of_nat)

lemma agree_aliases_distinct:
  assumes "aliases_agree s c"
  shows "distinct (map fst (cal_map c))" "fst ` set (cal_map c) = word_of_nat ` {1..length (sal_map s)}"
proof -
  have m: "map fst (cal_map c) = map word_of_nat [1..<Suc (length (sal_map s))]"
    and b: "length (sal_map s) < 65536"
    using assms by (auto simp: aliases_agree_def comp_def)
  have "inj_on (word_of_nat :: nat \<Rightarrow> u16) (set [1..<Suc (length (sal_map s))])"
    using b by (intro inj_on_subset [OF alias_word_inj]) auto
  then show "distinct (map fst (cal_map c))" by (simp only: m distinct_map distinct_upt simp_thms)
  have "fst ` set (cal_map c) = set (map fst (cal_map c))" by simp
  also have "\<dots> = word_of_nat ` {1..length (sal_map s)}" by (simp only: m set_map set_upt atLeastLessThanSuc_atLeastAtMost)
  finally show "fst ` set (cal_map c) = word_of_nat ` {1..length (sal_map s)}" .
qed

lemma agree_step:
  assumes "aliases_agree s c" and "t \<noteq> []"
  shows "\<exists>topic alias s' c'. server_alias_get t s = Some ((topic, alias), s') \<and>
           client_alias_set_and_get alias (case topic of Some t \<Rightarrow> t | None \<Rightarrow> []) c = (Inr t, c') \<and>
           aliases_agree s' c'"
proof -
  obtain n where n: "length t = Suc n" using assms(2) by (cases t) auto
  note inv = assms(1) [unfolded aliases_agree_def]
  show ?thesis
  proof (cases "map_of (sal_map s) t")
    case (Some a)
    then have "(t, a) \<in> set (sal_map s)" by (rule map_of_SomeD)
    then have "(a, t) \<in> set (cal_map c)" using inv by force
    then have "map_of (cal_map c) a = Some t" using agree_aliases_distinct(1) [OF assms(1)] by simp
    moreover have "sal_max s \<noteq> 0" using inv Some by (cases "sal_map s") auto
    ultimately show ?thesis using Some assms(1) by (simp add: server_alias_get_def client_alias_set_and_get_def)
  next
    case None
    show ?thesis
    proof (cases "sal_max s = 0 \<or> length (sal_map s) \<ge> sal_max s")
      case True
      with None n assms(1) show ?thesis by (auto simp: server_alias_get_def client_alias_set_and_get_def Let_def)
    next
      case False
      let ?a = "word_of_nat (Suc (length (sal_map s))) :: u16"
      have len: "Suc (length (sal_map s)) < 65536" using False inv by linarith
      then have "unat ?a = Suc (length (sal_map s))" by (simp only: unat_of_nat) simp
      then have nz: "?a \<noteq> 0" by (metis nat.distinct(1) unat_0)
      have new: "?a \<notin> fst ` set (cal_map c)"
      proof
        assume "?a \<in> fst ` set (cal_map c)"
        then obtain k where "k \<in> {1..length (sal_map s)}" "?a = word_of_nat k"
          using agree_aliases_distinct(2) [OF assms(1)] by auto
        then show False using len inj_onD [OF alias_word_inj, of "Suc (length (sal_map s))" k] by auto
      qed
      have us: "AList.update t ?a (sal_map s) = sal_map s @ [(t, ?a)]"
        using None by (simp add: update_new map_of_eq_None_iff)
      have uc: "AList.update ?a t (cal_map c) = cal_map c @ [(?a, t)]" by (rule update_new [OF new])
      have "aliases_agree (s\<lparr>sal_map := sal_map s @ [(t, ?a)]\<rparr>) (c\<lparr>cal_map := cal_map c @ [(?a, t)]\<rparr>)"
        using inv False None by (auto simp: aliases_agree_def map_of_eq_None_iff)
      moreover have "map_of (cal_map c) ?a = None" using new by (simp add: map_of_eq_None_iff)
      moreover have "length (cal_map c) < cal_max c" using inv False by simp
      ultimately show ?thesis using False None n nz us uc
        by (simp add: server_alias_get_def client_alias_set_and_get_def Let_def)
    qed
  qed
qed

lemma sink_publish_all_agree:
  assumes "aliases_agree s c"
    and "\<forall>p\<in>set ps. pub_topic (mp_inner p) \<noteq> [] \<and> pub_properties (mp_inner p) \<noteq> None"
  shows "\<exists>qs. sink_publish_all ps (Some s) = Some qs \<and>
           received_topics qs c = map (\<lambda>p. Inr (pub_topic (mp_inner p))) ps"
  using assms
proof (induction ps arbitrary: s c)
  case (Cons p ps)
  let ?t = "pub_topic (mp_inner p)"
  obtain props where props: "pub_properties (mp_inner p) = Some props" using Cons.prems by auto
  obtain topic al s' c' where get: "server_alias_get ?t s = Some ((topic, al), s')"
    and recv: "client_alias_set_and_get al (case topic of Some t \<Rightarrow> t | None \<Rightarrow> []) c = (Inr ?t, c')"
    and inv: "aliases_agree s' c'"
    using agree_step [OF Cons.prems(1), of ?t] Cons.prems(2) by auto
  obtain qs where "sink_publish_all ps (Some s') = Some qs"
    "received_topics qs c' = map (\<lambda>p. Inr (pub_topic (mp_inner p))) ps"
    using Cons.IH [OF inv] Cons.prems(2) by auto
  with get recv props show ?case
    by (simp add: sink_publish_def received_topic_def Let_def)
qed simp

section \<open>Properties\<close>

text \<open>Topic aliases of the server are transparent. For a client that allows \<open>mx\<close> aliases (a \<open>u16\<close>), every
  sequence of publications with a topic and a property section is sent without a panic, and a receiver
  with \<open>mx\<close> aliases that follows the protocol recovers every topic; no alias is refused.\<close>

theorem server_aliases_transparent:
  assumes "mx < 65536"
    and "\<forall>p\<in>set ps. pub_topic (mp_inner p) \<noteq> [] \<and> pub_properties (mp_inner p) \<noteq> None"
  shows "\<exists>qs. sink_publish_all ps (Some (server_aliases_new mx)) = Some qs \<and>
           received_topics qs (client_aliases_new mx) = map (\<lambda>p. Inr (pub_topic (mp_inner p))) ps"
  by (rule sink_publish_all_agree [OF _ assms(2)])
    (simp add: aliases_agree_def server_aliases_new_def client_aliases_new_def assms(1))

definition ex_pub :: "bytes \<Rightarrow> publish_properties option \<Rightarrow> msg_publish" where
  "ex_pub t props = mp_from
     \<lparr>pub_dup = False, pub_retain = False, pub_qos = AtMostOnce, pub_topic = t, pub_packet_id = None,
      pub_payload = [], pub_properties = props\<rparr>"

lemmas ex_pub_defs = ex_pub_def mp_from_def mp_new_def

theorem server_aliases_transparent_witness:
  "\<exists>qs. sink_publish_all (map (\<lambda>t. ex_pub t (Some publish_properties_default)) [[97], [97], [98], [97]]) (Some (server_aliases_new 1)) = Some qs \<and>
     received_topics qs (client_aliases_new 1) = [Inr [97], Inr [97], Inr [98], Inr [97]]"
  using server_aliases_transparent [of 1 "map (\<lambda>t. ex_pub t (Some publish_properties_default)) [[97], [97], [98], [97]]"]
  by (simp add: ex_pub_defs)

text \<open>A publication without a property section (every message that came from a v3 client) loses its topic
  at the second delivery to a v5 client with aliases: \<open>Sink::publish\<close> empties the topic and has nowhere to
  put the alias, so that the receiver cannot tell the topic.\<close>

theorem alias_without_properties_lost:
  "t \<noteq> [] \<Longrightarrow> 0 < mx \<Longrightarrow> mx < 65536 \<Longrightarrow>
     \<exists>q r. sink_publish_all [ex_pub t None, ex_pub t None] (Some (server_aliases_new mx)) = Some [q, r] \<and>
       pub_topic r = [] \<and> pub_properties r = None \<and>
       isl (fst (received_topic r (client_aliases_new mx)))"
  by (simp add: ex_pub_defs sink_publish_def server_alias_get_def server_aliases_new_def Let_def
      received_topic_def client_alias_set_and_get_def)

theorem alias_without_properties_lost_witness:
  "\<exists>q r. sink_publish_all [ex_pub [97] None, ex_pub [97] None] (Some (server_aliases_new 10)) = Some [q, r] \<and>
     pub_topic r = [] \<and> pub_properties r = None \<and> isl (fst (received_topic r (client_aliases_new 10)))"
  by (rule alias_without_properties_lost) simp_all

datatype subs_op =
    SubsAdd topic_filter sub_options | SubsRemove topic_filter | SubsDrain
  | SubsExtend "(topic_filter \<times> sub_options) list" | SubsClear

fun subs_step :: "subs_op \<Rightarrow> session_subs \<times> sub_stats \<Rightarrow> session_subs \<times> sub_stats" where
  "subs_step (SubsAdd tf opts) s = snd (subs_add tf opts s)"
| "subs_step (SubsRemove tf) s = snd (subs_remove tf s)"
| "subs_step SubsDrain s = snd (subs_drain s)"
| "subs_step (SubsExtend other) s = subs_extend other s"
| "subs_step SubsClear s = subs_clear s"

lemma subs_step_keeps: "subs_wf s \<Longrightarrow> subs_wf (subs_step act s) \<and> others (subs_step act s) = others s"
  by (cases act)
    (simp_all add: subs_add_keeps subs_remove_keeps subs_extend_keeps subs_clear_keeps subs_drain_def subs_drain_loop_keeps)

lemma subs_steps_keep:
  "subs_wf s \<Longrightarrow> subs_wf (fold subs_step acts s) \<and> others (fold subs_step acts s) = others s"
  by (induction acts arbitrary: s) (simp_all add: subs_step_keeps)

text \<open>The statistics follow the tables. Whatever sequence of additions, removals, extensions, drains and
  clearings a session runs, the subscription counters of the broker minus the sizes of the session's
  table stay what they were, and the table keeps one entry per filter.\<close>

theorem subs_statistics_exact:
  assumes "fold subs_step acts ([], st) = (subs, st')"
  shows "cnt_current (st_subscriptions st') = cnt_current (st_subscriptions st) + int (subs_len subs) \<and>
    cnt_current (st_subscriptions_shared st') = cnt_current (st_subscriptions_shared st) + int (subs_shared_len subs) \<and>
    distinct (map fst subs)"
  using subs_steps_keep [of "([], st)" acts] assms
  by (simp add: others_def subs_wf_def stat_defs)

theorem subs_statistics_exact_witness:
  "\<exists>subs st'. fold subs_step [SubsAdd ''a'' so_default, SubsAdd ''b'' so_default, SubsAdd ''a'' so_default, SubsRemove ''b'']
       ([], \<lparr>st_subscriptions = counter_new, st_subscriptions_shared = counter_new\<rparr>) = (subs, st') \<and>
     subs_len subs = 1 \<and> cnt_current (st_subscriptions st') = 1"
proof -
  let ?st = "\<lparr>st_subscriptions = counter_new, st_subscriptions_shared = counter_new\<rparr>"
  let ?acts = "[SubsAdd ''a'' so_default, SubsAdd ''b'' so_default, SubsAdd ''a'' so_default, SubsRemove ''b'']"
  obtain subs st' where r: "fold subs_step ?acts ([], ?st) = (subs, st')" by (metis surj_pair)
  moreover from r have "subs_len subs = 1"
    by (auto simp: subs_add_def subs_remove_def Let_def subs_len_def AList.delete_eq)
  ultimately show ?thesis using subs_statistics_exact [OF r] by (auto simp: counter_new_def)
qed

text \<open>\<open>drain\<close> returns every subscription of the session, leaves the table empty and takes all of them
  off the statistics.\<close>

theorem subs_drain_complete:
  assumes "distinct (map fst subs)"
  shows "\<exists>st'. subs_drain (subs, st) = (subs, [], st') \<and>
    cnt_current (st_subscriptions st') = cnt_current (st_subscriptions st) - int (subs_len subs) \<and>
    cnt_current (st_subscriptions_shared st') = cnt_current (st_subscriptions_shared st) - int (subs_shared_len subs)"
proof -
  obtain st' where r: "subs_drain (subs, st) = (subs, [], st')"
    using subs_drain_loop_all [OF assms, of st] by (metis fst_conv prod.collapse subs_drain_def)
  moreover have "others ([], st') = others (subs, st)"
    using subs_drain_loop_keeps [of "(subs, st)" "map fst subs"] assms r
    by (simp add: subs_drain_def subs_wf_def)
  ultimately show ?thesis by (auto simp: others_def stat_defs)
qed

theorem subs_drain_complete_witness:
  "\<exists>st'. subs_drain ([(''a'', so_default), (''b'', so_default)],
       \<lparr>st_subscriptions = counter_new_with 5 5 MergeSum, st_subscriptions_shared = counter_new\<rparr>)
     = ([(''a'', so_default), (''b'', so_default)], [], st') \<and> cnt_current (st_subscriptions st') = 3"
  using subs_drain_complete [of "[(''a'', so_default), (''b'', so_default)]"
      "\<lparr>st_subscriptions = counter_new_with 5 5 MergeSum, st_subscriptions_shared = counter_new\<rparr>"]
  by (auto simp: subs_len_def counter_new_with_def)

end
