(* ===== verification/Inflight.thy ===== *)
theory Inflight
  imports Broker_Types "HOL-Library.DAList"
begin

text \<open>
  The inflight windows of a session, \<open>ferromq/src/inflight.rs\<close>: \<open>OutInflight\<close>, the messages of QoS 1 and 2 sent
  to the client and not yet acknowledged, with the allocator of packet identifiers; \<open>InInflight\<close>, the packet
  identifiers of the publications received from the client.

  The queue is the type \<open>DequeBTreeMap\<close> of the library \<open>rust_box\<close>, which is not part of the repository: it is
  a parameter, a record of its operations, and \<open>deque_laws\<close> says what its documentation promises, a map that is
  traversed in the order of insertion. The callbacks \<open>on_push_fn\<close> and \<open>on_pop_fn\<close> act on a state of their own. The
  clock is a parameter \<open>now\<close> in milliseconds; \<open>usize\<close> is 64 bits wide.

  Shown: the allocator finds a fresh identifier while fewer than 65534 messages are in flight, a message stored
  under it replaces none, callbacks count the messages in the window, the draining loop terminates and returns
  all messages, and the cases in which the credit test and the reservation of identifiers fail.
\<close>

section \<open>Messages in flight\<close>

datatype moment_status = UnAck | UnReceived | UnComplete

record out_inflight_message =
  om_publish :: msg_publish
  om_from :: msg_from
  om_status :: moment_status
  om_update_time :: timestamp

definition om_new :: "timestamp \<Rightarrow> moment_status \<Rightarrow> msg_from \<Rightarrow> msg_publish \<Rightarrow> out_inflight_message" where
  "om_new now status from p =
     \<lparr>om_publish = p, om_from = from, om_status = status, om_update_time = now\<rparr>"

definition om_update_status :: "timestamp \<Rightarrow> moment_status \<Rightarrow> out_inflight_message \<Rightarrow> out_inflight_message" where
  "om_update_status now status m = m\<lparr>om_update_time := now, om_status := status\<rparr>"

definition om_timeout :: "timestamp \<Rightarrow> int \<Rightarrow> out_inflight_message \<Rightarrow> bool" where
  "om_timeout now interval m \<longleftrightarrow> interval > 0 \<and> now - om_update_time m \<ge> interval"

section \<open>The queue\<close>

record 'q deque_ops =
  dq_default :: 'q
  dq_iter :: "'q \<Rightarrow> (u16 \<times> out_inflight_message) list"
  dq_front :: "'q \<Rightarrow> (u16 \<times> out_inflight_message) option"
  dq_get :: "u16 \<Rightarrow> 'q \<Rightarrow> out_inflight_message option"
  dq_contains_key :: "u16 \<Rightarrow> 'q \<Rightarrow> bool"
  dq_len :: "'q \<Rightarrow> nat"
  dq_pop_front :: "'q \<Rightarrow> (u16 \<times> out_inflight_message) option \<times> 'q"
  dq_insert :: "u16 \<Rightarrow> out_inflight_message \<Rightarrow> 'q \<Rightarrow> out_inflight_message option \<times> 'q"
  dq_remove :: "u16 \<Rightarrow> 'q \<Rightarrow> out_inflight_message option \<times> 'q"
  dq_get_mut :: "u16 \<Rightarrow> (out_inflight_message \<Rightarrow> out_inflight_message) \<Rightarrow> 'q \<Rightarrow> 'q"

text \<open>
  The documented behaviour: keys are unique, reading and removing go by the key, the front is the entry
  inserted first, an entry with a new key goes to the back, and an entry that replaces one with the same key
  may keep its place or not.
\<close>

definition deque_reads :: "'q deque_ops \<Rightarrow> bool" where
  "deque_reads ops \<longleftrightarrow>
     dq_iter ops (dq_default ops) = [] \<and>
     (\<forall>q. distinct (map fst (dq_iter ops q))) \<and>
     (\<forall>q. dq_front ops q = (case dq_iter ops q of [] \<Rightarrow> None | e # _ \<Rightarrow> Some e)) \<and>
     (\<forall>k q. dq_get ops k q = map_of (dq_iter ops q) k) \<and>
     (\<forall>k q. dq_contains_key ops k q \<longleftrightarrow> k \<in> fst ` set (dq_iter ops q)) \<and>
     (\<forall>q. dq_len ops q = length (dq_iter ops q))"

definition deque_writes :: "'q deque_ops \<Rightarrow> bool" where
  "deque_writes ops \<longleftrightarrow>
     (\<forall>q. fst (dq_pop_front ops q) = dq_front ops q \<and>
          dq_iter ops (snd (dq_pop_front ops q)) = tl (dq_iter ops q)) \<and>
     (\<forall>k m q. fst (dq_insert ops k m q) = map_of (dq_iter ops q) k \<and>
          map_of (dq_iter ops (snd (dq_insert ops k m q))) = (map_of (dq_iter ops q))(k \<mapsto> m)) \<and>
     (\<forall>k m q. k \<notin> fst ` set (dq_iter ops q) \<longrightarrow>
          dq_iter ops (snd (dq_insert ops k m q)) = dq_iter ops q @ [(k, m)]) \<and>
     (\<forall>k q. fst (dq_remove ops k q) = map_of (dq_iter ops q) k \<and>
          dq_iter ops (snd (dq_remove ops k q)) = filter (\<lambda>(k', _). k' \<noteq> k) (dq_iter ops q)) \<and>
     (\<forall>k f q. dq_iter ops (dq_get_mut ops k f q)
                = map (\<lambda>(k', m). (k', if k' = k then f m else m)) (dq_iter ops q))"

definition deque_laws :: "'q deque_ops \<Rightarrow> bool" where
  "deque_laws ops \<longleftrightarrow> deque_reads ops \<and> deque_writes ops"

section \<open>The outgoing window\<close>

record ('q, 'e) out_inflight =
  oi_cap :: nat
  oi_interval :: int
  oi_next :: u16
  oi_queues :: 'q
  oi_on_push_fn :: "('e \<Rightarrow> 'e) option"
  oi_on_pop_fn :: "('e \<Rightarrow> 'e) option"

definition inflight_interval :: "int \<Rightarrow> int \<Rightarrow> int" where
  "inflight_interval retry expiry =
     (if retry = 0 \<and> expiry = 0 then 0
      else if retry = 0 then expiry
      else if expiry = 0 then retry
      else min retry expiry)"

definition oi_new :: "'q deque_ops \<Rightarrow> nat \<Rightarrow> int \<Rightarrow> int \<Rightarrow> ('q, 'e) out_inflight" where
  "oi_new ops cap retry expiry =
     \<lparr>oi_cap = cap, oi_interval = inflight_interval retry expiry, oi_next = 1,
      oi_queues = dq_default ops, oi_on_push_fn = None, oi_on_pop_fn = None\<rparr>"

definition oi_on_push :: "('e \<Rightarrow> 'e) \<Rightarrow> ('q, 'e) out_inflight \<Rightarrow> ('q, 'e) out_inflight" where
  "oi_on_push f s = s\<lparr>oi_on_push_fn := Some f\<rparr>"

definition oi_on_pop :: "('e \<Rightarrow> 'e) \<Rightarrow> ('q, 'e) out_inflight \<Rightarrow> ('q, 'e) out_inflight" where
  "oi_on_pop f s = s\<lparr>oi_on_pop_fn := Some f\<rparr>"

definition call_hook :: "('e \<Rightarrow> 'e) option \<Rightarrow> 'e \<Rightarrow> 'e" where
  "call_hook f e = (case f of Some g \<Rightarrow> g e | None \<Rightarrow> e)"

text \<open>Milliseconds until the front message times out.\<close>

definition oi_get_timeout :: "'q deque_ops \<Rightarrow> timestamp \<Rightarrow> ('q, 'e) out_inflight \<Rightarrow> int option" where
  "oi_get_timeout ops now s =
     (if oi_interval s = 0 then None
      else (case dq_front ops (oi_queues s) of
              Some (_, m) \<Rightarrow>
                (let t = oi_interval s - (now - om_update_time m)
                 in Some (if t < 1 then 1 else t))
            | None \<Rightarrow> None))"

definition oi_front_timeout :: "'q deque_ops \<Rightarrow> timestamp \<Rightarrow> ('q, 'e) out_inflight \<Rightarrow> bool" where
  "oi_front_timeout ops now s =
     (if oi_interval s = 0 then False
      else (case dq_front ops (oi_queues s) of
              Some (_, m) \<Rightarrow> om_timeout now (oi_interval s) m
            | None \<Rightarrow> False))"

definition oi_get :: "'q deque_ops \<Rightarrow> u16 \<Rightarrow> ('q, 'e) out_inflight \<Rightarrow> out_inflight_message option" where
  "oi_get ops pid s = dq_get ops pid (oi_queues s)"

definition oi_front :: "'q deque_ops \<Rightarrow> ('q, 'e) out_inflight \<Rightarrow> (u16 \<times> out_inflight_message) option" where
  "oi_front ops s = dq_front ops (oi_queues s)"

definition oi_pop_front :: "'q deque_ops \<Rightarrow> ('q, 'e) out_inflight \<times> 'e \<Rightarrow>
    out_inflight_message option \<times> ('q, 'e) out_inflight \<times> 'e" where
  "oi_pop_front ops = (\<lambda>(s, e).
     (case dq_pop_front ops (oi_queues s) of
        (Some (_, m), q) \<Rightarrow> (Some m, s\<lparr>oi_queues := q\<rparr>, call_hook (oi_on_pop_fn s) e)
      | (None, q) \<Rightarrow> (None, s\<lparr>oi_queues := q\<rparr>, e)))"

definition oi_pop_front_timeout :: "'q deque_ops \<Rightarrow> timestamp \<Rightarrow> ('q, 'e) out_inflight \<times> 'e \<Rightarrow>
    out_inflight_message option \<times> ('q, 'e) out_inflight \<times> 'e" where
  "oi_pop_front_timeout ops now s =
     (if oi_front_timeout ops now (fst s) then oi_pop_front ops s else (None, s))"

definition oi_push_back :: "'q deque_ops \<Rightarrow> out_inflight_message \<Rightarrow> ('q, 'e) out_inflight \<times> 'e \<Rightarrow>
    u16 option \<times> ('q, 'e) out_inflight \<times> 'e" where
  "oi_push_back ops m = (\<lambda>(s, e).
     (case pub_packet_id (mp_inner (om_publish m)) of
        Some packet_id \<Rightarrow>
          (let e = call_hook (oi_on_push_fn s) e
           in case dq_insert ops packet_id m (oi_queues s) of
                (old, q) \<Rightarrow>
                  (let e = (if old \<noteq> None then call_hook (oi_on_pop_fn s) e else e)
                   in (Option.bind old (\<lambda>m. pub_packet_id (mp_inner (om_publish m))), s\<lparr>oi_queues := q\<rparr>, e)))
      | None \<Rightarrow> (None, s, e)))"

definition oi_remove :: "'q deque_ops \<Rightarrow> u16 \<Rightarrow> ('q, 'e) out_inflight \<times> 'e \<Rightarrow>
    out_inflight_message option \<times> ('q, 'e) out_inflight \<times> 'e" where
  "oi_remove ops pid = (\<lambda>(s, e).
     (case dq_remove ops pid (oi_queues s) of
        (Some m, q) \<Rightarrow> (Some m, s\<lparr>oi_queues := q\<rparr>, call_hook (oi_on_pop_fn s) e)
      | (None, q) \<Rightarrow> (None, s\<lparr>oi_queues := q\<rparr>, e)))"

definition oi_update_status :: "'q deque_ops \<Rightarrow> timestamp \<Rightarrow> u16 \<Rightarrow> moment_status \<Rightarrow>
    ('q, 'e) out_inflight \<Rightarrow> ('q, 'e) out_inflight" where
  "oi_update_status ops now pid status s =
     s\<lparr>oi_queues := dq_get_mut ops pid (om_update_status now status) (oi_queues s)\<rparr>"

definition oi_len :: "'q deque_ops \<Rightarrow> ('q, 'e) out_inflight \<Rightarrow> nat" where
  "oi_len ops s = dq_len ops (oi_queues s)"

definition oi_is_empty :: "'q deque_ops \<Rightarrow> ('q, 'e) out_inflight \<Rightarrow> bool" where
  "oi_is_empty ops s = (dq_len ops (oi_queues s) = 0)"

definition oi_exist :: "'q deque_ops \<Rightarrow> u16 \<Rightarrow> ('q, 'e) out_inflight \<Rightarrow> bool" where
  "oi_exist ops pid s = dq_contains_key ops pid (oi_queues s)"

text \<open>The subtraction of \<open>usize\<close> values, as an optimised build performs it.\<close>

definition oi_has_credit :: "'q deque_ops \<Rightarrow> ('q, 'e) out_inflight \<Rightarrow> bool" where
  "oi_has_credit ops s = ((word_of_nat (oi_cap s) :: 64 word) - word_of_nat (oi_len ops s) > 0)"

text \<open>The loop \<open>for _ in 0..u16::MAX\<close>: the first argument counts the steps that are left.\<close>

fun next_id_loop :: "nat \<Rightarrow> 'q deque_ops \<Rightarrow> ('q, 'e) out_inflight \<Rightarrow> u16 option \<times> ('q, 'e) out_inflight" where
  "next_id_loop 0 ops s = (None, s)"
| "next_id_loop (Suc n) ops s =
     (let packet_id = oi_next s; s' = s\<lparr>oi_next := packet_id + 1\<rparr>
      in if packet_id = 0 then next_id_loop n ops s'
         else if \<not> dq_contains_key ops packet_id (oi_queues s) then (Some packet_id, s')
         else next_id_loop n ops s')"

definition oi_next_id :: "'q deque_ops \<Rightarrow> ('q, 'e) out_inflight \<Rightarrow> u16 option \<times> ('q, 'e) out_inflight" where
  "oi_next_id = next_id_loop 65535"

definition saturating_succ :: "u16 \<Rightarrow> u16" where
  "saturating_succ n = (if n = - 1 then - 1 else n + 1)"

definition oi_advance_next_id :: "u16 \<Rightarrow> ('q, 'e) out_inflight \<Rightarrow> ('q, 'e) out_inflight" where
  "oi_advance_next_id max_reserved s = s\<lparr>oi_next := max (oi_next s) (saturating_succ max_reserved)\<rparr>"

partial_function (option) to_inflight_messages :: "'q deque_ops \<Rightarrow> ('q, 'e) out_inflight \<times> 'e \<Rightarrow>
    (out_inflight_message list \<times> ('q, 'e) out_inflight \<times> 'e) option" where
  "to_inflight_messages ops s =
     (case oi_pop_front ops s of
        (None, s') \<Rightarrow> Some ([], s')
      | (Some m, s') \<Rightarrow> Option.bind (to_inflight_messages ops s') (\<lambda>(ms, s''). Some (m # ms, s'')))"

definition clone_inflight_messages :: "'q deque_ops \<Rightarrow> ('q, 'e) out_inflight \<Rightarrow> out_inflight_message list" where
  "clone_inflight_messages ops s = map snd (dq_iter ops (oi_queues s))"

section \<open>The incoming window\<close>

record in_inflight =
  ii_cached :: "u16 set"
  ii_max_inflight :: u16

definition ii_new :: "u16 \<Rightarrow> in_inflight" where
  "ii_new mx = \<lparr>ii_cached = {}, ii_max_inflight = mx\<rparr>"

definition ii_add :: "u16 \<Rightarrow> qos \<Rightarrow> in_inflight \<times> counter \<Rightarrow> (reason + bool) \<times> in_inflight \<times> counter" where
  "ii_add pid q = (\<lambda>(s, st).
     if card (ii_cached s) \<ge> unat (ii_max_inflight s) then (Inl R_InflightWindowFull, s, st)
     else if pid \<notin> ii_cached s
       then (Inr True, s\<lparr>ii_cached := insert pid (ii_cached s)\<rparr>, counter_inc st)
     else if q = ExactlyOnce then (Inl (R_MqttError (MErrPacketIdInUse pid)), s, st)
     else (Inr False, s, st))"

definition ii_exist :: "u16 \<Rightarrow> in_inflight \<Rightarrow> bool" where
  "ii_exist pid s = (pid \<in> ii_cached s)"

definition ii_remove :: "u16 \<Rightarrow> in_inflight \<times> counter \<Rightarrow> bool \<times> in_inflight \<times> counter" where
  "ii_remove pid = (\<lambda>(s, st).
     if pid \<in> ii_cached s
       then (True, s\<lparr>ii_cached := ii_cached s - {pid}\<rparr>, counter_dec st)
     else (False, s, st))"

definition ii_drop :: "in_inflight \<Rightarrow> counter \<Rightarrow> counter" where
  "ii_drop s st = counter_decs (int (card (ii_cached s))) st"

section \<open>The allocator\<close>

lemma deque_contains:
  "deque_laws ops \<Longrightarrow> dq_contains_key ops k q \<longleftrightarrow> k \<in> fst ` set (dq_iter ops q)"
  "deque_laws ops \<Longrightarrow> dq_get ops k q = map_of (dq_iter ops q) k"
  "deque_laws ops \<Longrightarrow> dq_len ops q = length (dq_iter ops q)"
  "deque_laws ops \<Longrightarrow> distinct (map fst (dq_iter ops q))"
  "deque_laws ops \<Longrightarrow> dq_front ops q = (case dq_iter ops q of [] \<Rightarrow> None | e # _ \<Rightarrow> Some e)"
  "deque_laws ops \<Longrightarrow> dq_iter ops (dq_default ops) = []"
  by (simp_all add: deque_laws_def deque_reads_def)

lemma deque_pop_front:
  assumes "deque_laws ops"
  shows "fst (dq_pop_front ops q) = (case dq_iter ops q of [] \<Rightarrow> None | e # _ \<Rightarrow> Some e)"
    and "dq_iter ops (snd (dq_pop_front ops q)) = tl (dq_iter ops q)"
  using assms deque_contains(5) [OF assms, of q] unfolding deque_laws_def deque_writes_def by simp_all

lemma deque_insert:
  assumes "deque_laws ops"
  shows "fst (dq_insert ops k m q) = map_of (dq_iter ops q) k"
    and "map_of (dq_iter ops (snd (dq_insert ops k m q))) = (map_of (dq_iter ops q))(k \<mapsto> m)"
    and "k \<notin> fst ` set (dq_iter ops q) \<Longrightarrow> dq_iter ops (snd (dq_insert ops k m q)) = dq_iter ops q @ [(k, m)]"
  using assms unfolding deque_laws_def deque_writes_def by blast+

lemma deque_remove:
  assumes "deque_laws ops"
  shows "fst (dq_remove ops k q) = map_of (dq_iter ops q) k"
    and "dq_iter ops (snd (dq_remove ops k q)) = filter (\<lambda>(k', _). k' \<noteq> k) (dq_iter ops q)"
    and "dq_iter ops (dq_get_mut ops k f q) = map (\<lambda>(k', m). (k', if k' = k then f m else m)) (dq_iter ops q)"
  using assms unfolding deque_laws_def deque_writes_def by blast+

lemmas [simp] = deque_contains deque_pop_front deque_insert deque_remove

text \<open>What the loop returns: the first of the candidates \<open>next\<close>, \<open>next + 1\<close>, ... that is free.\<close>

lemma next_id_loop_None:
  "next_id_loop n ops s = (None, s') \<Longrightarrow> i < n \<Longrightarrow>
     oi_next s + word_of_nat i = 0 \<or> dq_contains_key ops (oi_next s + word_of_nat i) (oi_queues s)"
proof (induction n arbitrary: s i)
  case (Suc n)
  let ?s = "s\<lparr>oi_next := oi_next s + 1\<rparr>"
  have u: "oi_next s = 0 \<or> dq_contains_key ops (oi_next s) (oi_queues s)"
    and l: "next_id_loop n ops ?s = (None, s')"
    using Suc.prems(1) by (auto simp: Let_def split: if_splits)
  show ?case
  proof (cases i)
    case 0
    then show ?thesis using u by simp
  next
    case (Suc j)
    then show ?thesis using Suc.IH [OF l, of j] Suc.prems(2) by (simp add: add.assoc)
  qed
qed simp

definition id_free :: "'q deque_ops \<Rightarrow> ('q, 'e) out_inflight \<Rightarrow> u16 \<Rightarrow> bool" where
  "id_free ops s pid \<longleftrightarrow> pid \<noteq> 0 \<and> \<not> dq_contains_key ops pid (oi_queues s)"

lemma next_id_loop_Some:
  "next_id_loop n ops s = (Some pid, s') \<Longrightarrow>
     id_free ops s pid \<and> s' = s\<lparr>oi_next := pid + 1\<rparr> \<and>
     (\<exists>i<n. pid = oi_next s + word_of_nat i \<and> (\<forall>j<i. \<not> id_free ops s (oi_next s + word_of_nat j)))"
proof (induction n arbitrary: s)
  case (Suc n)
  let ?s = "s\<lparr>oi_next := oi_next s + 1\<rparr>"
  have free: "id_free ops ?s = id_free ops s" by (simp add: fun_eq_iff id_free_def)
  have shift: "oi_next ?s + word_of_nat i = oi_next s + word_of_nat (Suc i)" for i by simp
  show ?case
  proof (cases "oi_next s = 0 \<or> dq_contains_key ops (oi_next s) (oi_queues s)")
    case True
    then have "next_id_loop n ops ?s = (Some pid, s')"
      using Suc.prems by (cases "oi_next s = 0") (auto simp: Let_def)
    from Suc.IH [OF this] obtain i where i: "i < n" "pid = oi_next s + word_of_nat (Suc i)"
        "\<forall>j<i. \<not> id_free ops s (oi_next s + word_of_nat (Suc j))"
      and rest: "id_free ops s pid" "s' = s\<lparr>oi_next := pid + 1\<rparr>"
      unfolding free shift by auto
    have "\<forall>j<Suc i. \<not> id_free ops s (oi_next s + word_of_nat j)"
      using i(3) True by (auto simp: less_Suc_eq_0_disj id_free_def)
    with i rest show ?thesis by blast
  next
    case False
    then have "next_id_loop (Suc n) ops s = (Some (oi_next s), ?s)" by (simp add: Let_def)
    with Suc.prems False show ?thesis by (auto simp: id_free_def intro!: exI [of _ 0])
  qed
qed simp

lemma next_id_found:
  assumes laws: "deque_laws ops" and few: "oi_len ops s < 65534"
  shows "\<exists>pid s'. oi_next_id ops s = (Some pid, s')"
proof (rule ccontr)
  assume "\<nexists>pid s'. oi_next_id ops s = (Some pid, s')"
  then obtain s' where none: "next_id_loop 65535 ops s = (None, s')"
    by (metis oi_next_id_def not_Some_eq surj_pair)
  let ?keys = "insert 0 (fst ` set (dq_iter ops (oi_queues s)))"
  let ?cand = "\<lambda>i. oi_next s + word_of_nat i"
  have "?cand ` {..<65535} \<subseteq> ?keys"
    using next_id_loop_None [OF none] by (auto simp: laws)
  then have "card (?cand ` {..<65535}) \<le> card ?keys" by (intro card_mono) simp_all
  moreover have "inj_on ?cand {..<65535}"
    by (rule inj_on_inverseI [where g = "\<lambda>w. unat (w - oi_next s)"]) (simp add: unat_of_nat)
  then have "card (?cand ` {..<65535}) = 65535" by (simp add: card_image)
  moreover have "card ?keys \<le> Suc (card (fst ` set (dq_iter ops (oi_queues s))))" by (simp add: card_insert_if)
  moreover have "card (fst ` set (dq_iter ops (oi_queues s))) \<le> length (dq_iter ops (oi_queues s))"
    using card_length [of "map fst (dq_iter ops (oi_queues s))"] by simp
  ultimately show False using few by (simp add: oi_len_def laws)
qed

section \<open>Callbacks and lengths\<close>

text \<open>The callbacks that a session installs count the messages (\<open>out_inflights\<close> of the statistics).\<close>

definition counts_window :: "('q, counter) out_inflight \<Rightarrow> bool" where
  "counts_window s \<longleftrightarrow> oi_on_push_fn s = Some counter_inc \<and> oi_on_pop_fn s = Some counter_dec"

definition window_balance :: "'q deque_ops \<Rightarrow> ('q, counter) out_inflight \<times> counter \<Rightarrow> int" where
  "window_balance ops = (\<lambda>(s, e). cnt_current e - int (oi_len ops s))"

lemma length_of_map: "distinct (map fst al) \<Longrightarrow> length al = card (dom (map_of al))"
  by (metis card_image dom_map_of_conv_image_fst distinct_card distinct_map length_map list.set_map)

lemma insert_length:
  assumes "deque_laws ops"
  shows "length (dq_iter ops (snd (dq_insert ops k m q)))
    = (if k \<in> fst ` set (dq_iter ops q) then length (dq_iter ops q) else Suc (length (dq_iter ops q)))"
proof -
  have "length (dq_iter ops (snd (dq_insert ops k m q))) = card (insert k (dom (map_of (dq_iter ops q))))"
    by (simp add: length_of_map assms del: dom_map_of_conv_image_fst)
  also have "\<dots> = (if k \<in> fst ` set (dq_iter ops q) then length (dq_iter ops q) else Suc (length (dq_iter ops q)))"
    using assms by (simp add: card_insert_if finite_dom_map_of length_of_map dom_map_of_conv_image_fst)
  finally show ?thesis .
qed

lemma filter_key_length:
  "distinct (map fst al) \<Longrightarrow> k \<in> fst ` set al \<Longrightarrow> Suc (length (filter (\<lambda>(k', _). k' \<noteq> k) al)) = length al"
proof (induction al)
  case (Cons a al)
  show ?case
  proof (cases "fst a = k")
    case True
    then have "filter (\<lambda>(k', _). k' \<noteq> k) al = al" using Cons.prems(1) by (auto simp: filter_id_conv image_iff)
    with True show ?thesis by (cases a) simp
  qed (use Cons in \<open>cases a; auto\<close>)
qed simp

lemma filter_key_absent: "k \<notin> fst ` set al \<Longrightarrow> filter (\<lambda>(k', _). k' \<noteq> k) al = al"
  by (auto simp: filter_id_conv image_iff)

lemma oi_push_back_balance:
  assumes "deque_laws ops" and "counts_window s"
  shows "window_balance ops (snd (oi_push_back ops m (s, e))) = window_balance ops (s, e)"
proof (cases "pub_packet_id (mp_inner (om_publish m))")
  case (Some pid)
  obtain old q where ins: "dq_insert ops pid m (oi_queues s) = (old, q)" by fastforce
  have "old = map_of (dq_iter ops (oi_queues s)) pid"
    using deque_insert(1) [OF assms(1), of pid m "oi_queues s"] ins by simp
  moreover have "length (dq_iter ops q) = (if pid \<in> fst ` set (dq_iter ops (oi_queues s))
      then length (dq_iter ops (oi_queues s)) else Suc (length (dq_iter ops (oi_queues s))))"
    using insert_length [OF assms(1), of pid m "oi_queues s"] ins by simp
  moreover have "old = None \<longleftrightarrow> pid \<notin> fst ` set (dq_iter ops (oi_queues s))"
    using calculation(1) by (simp add: map_of_eq_None_iff)
  ultimately show ?thesis using Some ins assms
    by (auto simp: oi_push_back_def window_balance_def counts_window_def call_hook_def oi_len_def Let_def)
qed (simp add: oi_push_back_def)

lemma oi_remove_balance:
  assumes "deque_laws ops" and "counts_window s"
  shows "window_balance ops (snd (oi_remove ops pid (s, e))) = window_balance ops (s, e)"
proof -
  obtain old q where rm: "dq_remove ops pid (oi_queues s) = (old, q)" by fastforce
  have old: "old = map_of (dq_iter ops (oi_queues s)) pid"
    and it: "dq_iter ops q = filter (\<lambda>(k', _). k' \<noteq> pid) (dq_iter ops (oi_queues s))"
    using deque_remove(1,2) [OF assms(1), of pid "oi_queues s"] rm by simp_all
  show ?thesis
  proof (cases old)
    case None
    then have "dq_iter ops q = dq_iter ops (oi_queues s)"
      using old it filter_key_absent by (simp add: map_of_eq_None_iff)
    then show ?thesis using None rm assms by (simp add: oi_remove_def window_balance_def oi_len_def)
  next
    case (Some m)
    then have "pid \<in> fst ` set (dq_iter ops (oi_queues s))" using old by (metis map_of_eq_None_iff option.distinct(1))
    then have "Suc (length (dq_iter ops q)) = length (dq_iter ops (oi_queues s))"
      using filter_key_length [OF deque_contains(4) [OF assms(1)]] it by simp
    then show ?thesis using Some rm assms
      by (simp add: oi_remove_def window_balance_def oi_len_def counts_window_def call_hook_def)
  qed
qed

lemma oi_pop_front_cases:
  assumes "deque_laws ops"
  shows "oi_pop_front ops (s, e) =
    (case dq_iter ops (oi_queues s) of
       [] \<Rightarrow> (None, s\<lparr>oi_queues := snd (dq_pop_front ops (oi_queues s))\<rparr>, e)
     | (_, m) # _ \<Rightarrow> (Some m, s\<lparr>oi_queues := snd (dq_pop_front ops (oi_queues s))\<rparr>, call_hook (oi_on_pop_fn s) e))"
  using deque_pop_front(1) [OF assms, of "oi_queues s"]
  by (cases "dq_pop_front ops (oi_queues s)") (auto simp: oi_pop_front_def split: list.splits)

lemma oi_pop_front_balance:
  assumes "deque_laws ops" and "counts_window s"
  shows "window_balance ops (snd (oi_pop_front ops (s, e))) = window_balance ops (s, e)"
  using assms
  by (auto simp: oi_pop_front_cases window_balance_def oi_len_def counts_window_def call_hook_def split: list.splits)

text \<open>Draining the window terminates; the messages come in the order of the queue.\<close>

lemma to_inflight_messages_total:
  assumes "deque_laws ops"
  shows "\<exists>s' e'. to_inflight_messages ops (s, e) = Some (clone_inflight_messages ops s, s', e') \<and>
    dq_iter ops (oi_queues s') = [] \<and> oi_next s' = oi_next s"
proof (induction "length (dq_iter ops (oi_queues s))" arbitrary: s e)
  case 0
  then show ?case
    by (subst to_inflight_messages.simps) (simp add: oi_pop_front_cases assms clone_inflight_messages_def)
next
  case (Suc n)
  obtain k m xs where it: "dq_iter ops (oi_queues s) = (k, m) # xs"
    using Suc.hyps(2) by (metis length_Suc_conv surj_pair)
  let ?s = "s\<lparr>oi_queues := snd (dq_pop_front ops (oi_queues s))\<rparr>"
  have tl: "dq_iter ops (oi_queues ?s) = xs" using it assms by simp
  from Suc.hyps(1) [of ?s "call_hook (oi_on_pop_fn s) e"] Suc.hyps(2) it tl
  obtain s' e' where "to_inflight_messages ops (?s, call_hook (oi_on_pop_fn s) e) = Some (clone_inflight_messages ops ?s, s', e')"
    "dq_iter ops (oi_queues s') = []" "oi_next s' = oi_next s" by auto
  then show ?case
    by (subst to_inflight_messages.simps) (simp add: oi_pop_front_cases assms it clone_inflight_messages_def)
qed

section \<open>The laws hold for a list\<close>

lift_definition alist_tl :: "('k, 'v) alist \<Rightarrow> ('k, 'v) alist" is tl
  by (simp add: map_tl distinct_tl)

definition list_deque :: "(u16, out_inflight_message) alist deque_ops" where
  "list_deque =
     \<lparr>dq_default = DAList.empty, dq_iter = DAList.impl_of,
      dq_front = (\<lambda>q. case DAList.impl_of q of [] \<Rightarrow> None | e # _ \<Rightarrow> Some e),
      dq_get = (\<lambda>k q. DAList.lookup q k),
      dq_contains_key = (\<lambda>k q. DAList.lookup q k \<noteq> None),
      dq_len = (\<lambda>q. length (DAList.impl_of q)),
      dq_pop_front = (\<lambda>q. (case DAList.impl_of q of [] \<Rightarrow> None | e # _ \<Rightarrow> Some e, alist_tl q)),
      dq_insert = (\<lambda>k m q. (DAList.lookup q k, DAList.update k m q)),
      dq_remove = (\<lambda>k q. (DAList.lookup q k, DAList.delete k q)),
      dq_get_mut = (\<lambda>k f q. DAList.map_entry k f q)\<rparr>"

lemma alist_map_entry: "distinct (map fst al) \<Longrightarrow> AList.map_entry k f al = map (\<lambda>(k', m). (k', if k' = k then f m else m)) al"
proof (induction al)
  case (Cons a al)
  have "k \<notin> fst ` set al \<Longrightarrow> map (\<lambda>(k', m). (k', if k' = k then f m else m)) al = al"
    by (intro map_idI) (auto simp: image_iff)
  with Cons show ?case by (cases a) auto
qed simp

lemma deque_update_new: "k \<notin> fst ` set al \<Longrightarrow> AList.update k v al = al @ [(k, v)]"
  by (induction al) auto

lemma list_deque_laws: "deque_laws list_deque"
proof -
  have d: "distinct (map fst (DAList.impl_of q))" for q :: "(u16, out_inflight_message) alist"
    using impl_of [of q] by simp
  have "deque_reads list_deque"
    by (simp add: deque_reads_def list_deque_def d lookup.rep_eq map_of_eq_None_iff empty.rep_eq)
  moreover have "deque_writes list_deque"
    by (simp add: deque_writes_def list_deque_def d lookup.rep_eq update.rep_eq delete.rep_eq map_entry.rep_eq
        alist_tl.rep_eq alist_map_entry deque_update_new update_conv' AList.delete_eq eq_commute)
  ultimately show ?thesis by (simp add: deque_laws_def)
qed

section \<open>Properties\<close>

text \<open>C15: With fewer than 65534 messages in flight, \<open>next_id\<close> returns an identifier that is not zero and not in
  use; a message stored under it replaces no other, is found under its identifier and goes to the back.\<close>

theorem next_id_fresh:
  fixes s :: "('q, 'e) out_inflight"
  assumes "deque_laws ops" and "oi_len ops s < 65534"
  shows "\<exists>pid s'. oi_next_id ops s = (Some pid, s') \<and> pid \<noteq> 0 \<and> \<not> oi_exist ops pid s \<and>
    (\<forall>m (e :: 'e). pub_packet_id (mp_inner (om_publish m)) = Some pid \<longrightarrow>
       (\<exists>s'' e'. oi_push_back ops m (s', e) = (None, s'', e') \<and> oi_get ops pid s'' = Some m \<and>
          clone_inflight_messages ops s'' = clone_inflight_messages ops s @ [m]))"
proof -
  obtain pid s' where pid: "oi_next_id ops s = (Some pid, s')" using next_id_found [OF assms] by blast
  then have free: "id_free ops s pid" and s': "s' = s\<lparr>oi_next := pid + 1\<rparr>"
    using next_id_loop_Some unfolding oi_next_id_def by blast+
  then have new: "pid \<notin> fst ` set (dq_iter ops (oi_queues s))" by (simp add: id_free_def assms(1))
  have "\<exists>s'' e'. oi_push_back ops m (s', e) = (None, s'', e') \<and> oi_get ops pid s'' = Some m \<and>
          clone_inflight_messages ops s'' = clone_inflight_messages ops s @ [m]"
    if "pub_packet_id (mp_inner (om_publish m)) = Some pid" for m e
  proof -
    obtain old q where ins: "dq_insert ops pid m (oi_queues s) = (old, q)" by fastforce
    have "old = None" "map_of (dq_iter ops q) pid = Some m" "dq_iter ops q = dq_iter ops (oi_queues s) @ [(pid, m)]"
      using deque_insert [OF assms(1), where k = pid and m = m and q = "oi_queues s"] ins new by (simp_all add: map_of_eq_None_iff)
    with that ins s' assms(1) show ?thesis
      by (simp add: oi_push_back_def oi_get_def clone_inflight_messages_def Let_def)
  qed
  with pid free show ?thesis by (auto simp: id_free_def oi_exist_def)
qed

definition ex_out :: "((u16, out_inflight_message) alist, counter) out_inflight" where
  "ex_out = oi_on_pop counter_dec (oi_on_push counter_inc (oi_new list_deque 16 0 0))"

definition ex_publish :: "u16 option \<Rightarrow> msg_publish" where
  "ex_publish pid = mp_from
     \<lparr>pub_dup = False, pub_retain = False, pub_qos = AtLeastOnce, pub_topic = [97], pub_packet_id = pid,
      pub_payload = [], pub_properties = None\<rparr>"

definition ex_from :: msg_from where
  "ex_from = \<lparr>from_typ = FromCustom, from_id = id_from 0 1 ''c''\<rparr>"

lemma ex_out_empty: "dq_iter list_deque (oi_queues ex_out) = []" "oi_len list_deque ex_out = 0" "counts_window ex_out"
  by (simp_all add: ex_out_def oi_on_pop_def oi_on_push_def oi_new_def oi_len_def list_deque_laws counts_window_def)

theorem next_id_fresh_witness:
  "\<exists>pid s'. oi_next_id list_deque ex_out = (Some pid, s') \<and> pid \<noteq> 0 \<and> \<not> oi_exist list_deque pid ex_out \<and>
     (\<exists>s'' e'. oi_push_back list_deque (om_new 0 UnAck ex_from (ex_publish (Some pid))) (s', counter_new) = (None, s'', e'))"
proof -
  obtain pid s' where "oi_next_id list_deque ex_out = (Some pid, s')" "pid \<noteq> 0" "\<not> oi_exist list_deque pid ex_out"
    and push: "\<And>m e. pub_packet_id (mp_inner (om_publish m)) = Some pid \<Longrightarrow>
       \<exists>s'' e'. oi_push_back list_deque m (s', e) = (None, s'', e')"
    using next_id_fresh [OF list_deque_laws, of ex_out] by (simp add: ex_out_empty) blast
  moreover have "pub_packet_id (mp_inner (om_publish (om_new 0 UnAck ex_from (ex_publish (Some pid))))) = Some pid"
    by (simp add: om_new_def ex_publish_def mp_from_def mp_new_def)
  ultimately show ?thesis by blast
qed

lemma u16_succ_less: "m < (- 1 :: u16) \<Longrightarrow> m < m + 1"
proof -
  assume "m < (- 1 :: u16)"
  moreover have "unat (- 1 :: u16) = 65535" by (simp add: unsigned_minus_1_eq_mask mask_eq_exp_minus_1)
  ultimately have "unat m < 65535" by (simp add: word_less_nat_alt)
  then have "unat (m + 1) = unat m + 1" by (subst unat_add_lem [THEN iffD1]) simp_all
  then show ?thesis by (simp add: word_less_nat_alt)
qed

lemma advance_above: "m < (- 1 :: u16) \<Longrightarrow> m < oi_next (oi_advance_next_id m s)"
  using u16_succ_less [of m] by (auto simp: oi_advance_next_id_def saturating_succ_def less_max_iff_disj)

lemma next_id_at_most:
  assumes "0 < oi_next s" and "oi_next s \<le> f" and "\<not> dq_contains_key ops f (oi_queues s)"
  shows "\<exists>pid s'. oi_next_id ops s = (Some pid, s') \<and> oi_next s \<le> pid \<and> pid \<le> f"
proof -
  define d where "d = unat (f - oi_next s)"
  have d: "unat f = unat (oi_next s) + d" "f = oi_next s + word_of_nat d"
    using assms(2) by (simp_all add: d_def unat_sub word_le_nat_alt)
  have "unat f < 65536" using unsigned_less [of f] by simp
  moreover have "0 < unat (oi_next s)" using assms(1) by (simp add: word_less_nat_alt)
  ultimately have lt: "d < 65535" using d(1) by linarith
  have "0 < f" using assms(1,2) by (rule less_le_trans)
  then have free: "id_free ops s (oi_next s + word_of_nat d)" using assms(3) d(2) by (simp add: id_free_def)
  obtain r s' where r: "next_id_loop 65535 ops s = (r, s')" by fastforce
  then obtain pid where pid: "r = Some pid" using next_id_loop_None [of 65535 ops s s' d] lt free
    by (cases r) (auto simp: id_free_def)
  obtain i where i: "pid = oi_next s + word_of_nat i" "\<forall>j<i. \<not> id_free ops s (oi_next s + word_of_nat j)"
    using next_id_loop_Some r pid by blast
  have "i \<le> d" using i(2) free by (meson not_le)
  moreover from this have "unat pid = unat (oi_next s) + i"
    using d(1) \<open>unat f < 65536\<close> unfolding i(1) by (simp add: unat_word_ariths unat_of_nat)
  ultimately have "oi_next s \<le> pid \<and> pid \<le> f" using d(1) by (simp add: word_le_nat_alt)
  with r pid show ?thesis by (simp add: oi_next_id_def)
qed

text \<open>Reserved identifiers are not handed out: after \<open>advance_next_id m\<close> with \<open>m\<close> below 65535, as long as
  some identifier from the allocator's position to 65535 is free, \<open>next_id\<close> returns an identifier above \<open>m\<close>.\<close>

theorem reserved_ids_isolated:
  assumes "m < (- 1 :: u16)" and "oi_next (oi_advance_next_id m s) \<le> f" and "\<not> dq_contains_key ops f (oi_queues s)"
  shows "\<exists>pid s'. oi_next_id ops (oi_advance_next_id m s) = (Some pid, s') \<and> m < pid \<and> pid \<le> f"
proof -
  let ?s = "oi_advance_next_id m s"
  have above: "m < oi_next ?s" by (rule advance_above [OF assms(1)])
  have "\<not> dq_contains_key ops f (oi_queues ?s)" using assms(3) by (simp add: oi_advance_next_id_def)
  from next_id_at_most [OF _ assms(2) this] above show ?thesis
    by (meson le_less_trans less_le_trans word_zero_le)
qed

theorem reserved_ids_isolated_witness:
  "\<exists>pid s'. oi_next_id list_deque (oi_advance_next_id 5 ex_out) = (Some pid, s') \<and> 5 < pid \<and> pid \<le> 6"
  by (rule reserved_ids_isolated)
    (simp_all add: ex_out_empty list_deque_laws oi_advance_next_id_def saturating_succ_def ex_out_def oi_on_pop_def
      oi_on_push_def oi_new_def max_def)

text \<open>The greatest identifier cannot be reserved: after \<open>advance_next_id 65535\<close> the addition saturates and the
  next identifier of a window that does not hold 65535 is 65535 itself.\<close>

theorem reserve_last_id_fails:
  "\<not> dq_contains_key ops (- 1) (oi_queues s) \<Longrightarrow>
     fst (oi_next_id ops (oi_advance_next_id (- 1) s)) = Some (- 1)"
  by (simp add: oi_next_id_def oi_advance_next_id_def saturating_succ_def max_def eval_nat_numeral Let_def)

theorem reserve_last_id_fails_witness:
  "fst (oi_next_id list_deque (oi_advance_next_id (- 1) ex_out)) = Some (- 1)"
  by (rule reserve_last_id_fails) (simp add: ex_out_empty list_deque_laws)

text \<open>The test of credit. While the window is within its capacity there is credit exactly when it is not
  full; when transferred messages have filled it beyond the capacity, the subtraction wraps around and
  the test succeeds.\<close>

theorem credit_test:
  assumes "oi_cap s < 2 ^ 64" and "oi_len ops s < 2 ^ 64"
  shows "oi_has_credit ops s \<longleftrightarrow> oi_len ops s \<noteq> oi_cap s"
proof -
  have "oi_has_credit ops s \<longleftrightarrow> (word_of_nat (oi_cap s) :: 64 word) \<noteq> word_of_nat (oi_len ops s)"
    by (simp add: oi_has_credit_def word_neq_0_conv [symmetric])
  also have "\<dots> \<longleftrightarrow> oi_len ops s \<noteq> oi_cap s"
    using assms by (auto simp: word_of_nat_eq_iff take_bit_nat_eq_self)
  finally show ?thesis .
qed

definition ex_over :: "((u16, out_inflight_message) alist, counter) out_inflight" where
  "ex_over = fst (snd (oi_push_back list_deque (om_new 0 UnComplete ex_from (ex_publish (Some 7)))
     (oi_new list_deque 0 0 0, counter_new)))"

theorem credit_test_witness: "oi_cap ex_over = 0 \<and> oi_len list_deque ex_over = 1 \<and> oi_has_credit list_deque ex_over"
proof -
  have "oi_cap ex_over = 0" "oi_len list_deque ex_over = 1"
    by (simp_all add: ex_over_def oi_push_back_def oi_new_def om_new_def ex_publish_def mp_from_def mp_new_def
        Let_def oi_len_def list_deque_def update.rep_eq empty.rep_eq)
  with credit_test [of ex_over list_deque] show ?thesis by simp
qed

text \<open>\<open>to_inflight_messages\<close> terminates: it returns all messages in the order of the queue and leaves the
  window empty.\<close>

theorem drain_window:
  assumes "deque_laws ops"
  shows "\<exists>s' e'. to_inflight_messages ops (s, e) = Some (clone_inflight_messages ops s, s', e') \<and> oi_is_empty ops s'"
  using to_inflight_messages_total [OF assms, of s e] assms by (auto simp: oi_is_empty_def)

theorem drain_window_witness:
  "\<exists>s' e'. to_inflight_messages list_deque (ex_over, counter_new) = Some (clone_inflight_messages list_deque ex_over, s', e')
     \<and> oi_is_empty list_deque s'"
  by (rule drain_window [OF list_deque_laws])

text \<open>The statistics count the window: with the callbacks that a session installs, storing, acknowledging and
  popping messages keeps the difference between the counter and the number of messages in flight.\<close>

theorem window_counter_exact:
  assumes "deque_laws ops" and "counts_window s"
  shows "window_balance ops (snd (oi_push_back ops m (s, e))) = window_balance ops (s, e) \<and>
    window_balance ops (snd (oi_remove ops pid (s, e))) = window_balance ops (s, e) \<and>
    window_balance ops (snd (oi_pop_front ops (s, e))) = window_balance ops (s, e) \<and>
    window_balance ops (snd (oi_pop_front_timeout ops now (s, e))) = window_balance ops (s, e)"
  using oi_push_back_balance [OF assms] oi_remove_balance [OF assms] oi_pop_front_balance [OF assms]
  by (simp add: oi_pop_front_timeout_def)

theorem window_counter_exact_witness:
  "window_balance list_deque (snd (oi_remove list_deque 1 (ex_out, counter_new))) = 0"
  using window_counter_exact [OF list_deque_laws ex_out_empty(3), of "om_new 0 UnAck ex_from (ex_publish None)" counter_new 1 0]
  by (simp add: window_balance_def ex_out_empty counter_new_def)

text \<open>The window of received publications never exceeds its maximum, and its counter is exact: adding and
  removing keep the difference between the counter and the size, which dropping the window takes off.\<close>

definition in_window_ok :: "in_inflight \<Rightarrow> bool" where
  "in_window_ok s \<longleftrightarrow> finite (ii_cached s) \<and> card (ii_cached s) \<le> unat (ii_max_inflight s)"

lemma in_window_keeps:
  assumes "in_window_ok s"
  shows "ii_add pid q (s, st) = (r, s', st') \<Longrightarrow>
      in_window_ok s' \<and> ii_max_inflight s' = ii_max_inflight s \<and> cnt_current (ii_drop s' st') = cnt_current (ii_drop s st)"
    and "ii_remove pid (s, st) = (b, s', st') \<Longrightarrow>
      in_window_ok s' \<and> ii_max_inflight s' = ii_max_inflight s \<and> cnt_current (ii_drop s' st') = cnt_current (ii_drop s st)"
  using assms card_Diff_singleton [of pid "ii_cached s"] card_gt_0_iff [of "ii_cached s"]
  by (auto simp: ii_add_def ii_remove_def ii_drop_def counter_decs_def in_window_ok_def of_nat_diff split: if_splits)

end
