(* ===== verification/Shared.thy ===== *)
theory Shared
  imports Router Session_Subs Inflight
begin

text \<open>
  The shared state of a node, \<open>ferromq/src/shared.rs\<close> (\<open>DefaultShared\<close>, \<open>LockEntry\<close>): the map from client identifiers to
  sessions with their message channels, the operations of an entry, and the forwarding of a publication to
  subscribers. A session is represented by what these operations use: its identity, its table of subscriptions
  and its channel (the messages sent so far and not yet received, and whether the receiver is alive).

  The per-client mutex (\<open>try_lock\<close>) and the round trip of a kick through the session task are not modelled;
  messages for other nodes are only logged by this implementation.

  Shown: subscribing, unsubscribing and removing sessions keep the router and the tables of the sessions in agreement;
  forwarding appends exactly one message per relation to the channel of its client, with the QoS lowered to the
  subscription's; together with the router, a publication reaches exactly the sessions with a matching subscription.
\<close>

section \<open>State\<close>

record offline_info =
  of_id :: ident
  of_subscriptions :: "(topic_filter \<times> sub_options) list"
  of_offline_messages :: "(msg_from \<times> msg_publish) list"
  of_inflight_messages :: "out_inflight_message list"
  of_created_at :: timestamp

text \<open>The channels for replies are left out.\<close>

datatype message =
    MForward msg_from msg_publish
  | MSendRerelease out_inflight_message
  | MKick ident bool bool
  | MClosed reason
  | MSubscribe broker_subscribe
  | MSubscribes "broker_subscribe list"
  | MUnsubscribe broker_unsubscribe
  | MSessionStateTransfer offline_info bool

record peer =
  pe_id :: ident
  pe_subs :: session_subs
  pe_tx :: "message list"
  pe_tx_open :: bool
  pe_connected :: bool

record broker =
  br_node_id :: node_id
  br_router :: router
  br_peers :: "(client_id \<times> peer) list"
  br_stats :: sub_stats

datatype entry_error = SessionNotExist | EntryTopic topic_error | EntryPanic

section \<open>Entries\<close>

definition entry_id_same :: "ident \<Rightarrow> broker \<Rightarrow> bool option" where
  "entry_id_same i b = map_option (\<lambda>p. pe_id p = i) (map_of (br_peers b) (id_client_id i))"

definition entry_exist :: "ident \<Rightarrow> broker \<Rightarrow> bool" where
  "entry_exist i b = (map_of (br_peers b) (id_client_id i) \<noteq> None)"

definition entry_is_connected :: "ident \<Rightarrow> broker \<Rightarrow> bool" where
  "entry_is_connected i b = (case map_of (br_peers b) (id_client_id i) of Some p \<Rightarrow> pe_connected p | None \<Rightarrow> False)"

definition entry_set :: "ident \<Rightarrow> peer \<Rightarrow> broker \<Rightarrow> broker" where
  "entry_set i p b = b\<lparr>br_peers := AList.update (id_client_id i) p (br_peers b)\<rparr>"

definition entry_subscribe :: "ident \<Rightarrow> broker_subscribe \<Rightarrow> broker \<Rightarrow> (entry_error + subscribe_return) \<times> broker" where
  "entry_subscribe i sub b =
     (case map_of (br_peers b) (id_client_id i) of
        None \<Rightarrow> (Inl SessionNotExist, b)
      | Some p \<Rightarrow>
          (if id_node_id (pe_id p) \<noteq> br_node_id b then (Inl EntryPanic, b)
           else
             (case router_add (bs_topic_filter sub) i (bs_opts sub) (br_router b) of
                (Inl e, r) \<Rightarrow> (Inl (EntryTopic e), b\<lparr>br_router := r\<rparr>)
              | (Inr _, r) \<Rightarrow>
                  (case subs_add (bs_topic_filter sub) (bs_opts sub) (pe_subs p, br_stats b) of
                     (prev_opts, subs, st) \<Rightarrow>
                       (Inr (sr_new_success (opt_qos (bs_opts sub)) prev_opts),
                        b\<lparr>br_router := r, br_stats := st,
                          br_peers := AList.update (id_client_id i) (p\<lparr>pe_subs := subs\<rparr>) (br_peers b)\<rparr>)))))"

definition entry_unsubscribe :: "ident \<Rightarrow> broker_unsubscribe \<Rightarrow> broker \<Rightarrow> (entry_error + bool) \<times> broker" where
  "entry_unsubscribe i unsub b =
     (case map_of (br_peers b) (id_client_id i) of
        None \<Rightarrow> (Inl SessionNotExist, b)
      | Some p \<Rightarrow>
          (let r = snd (router_remove (bu_topic_filter unsub) i (br_router b))
           in case subs_remove (bu_topic_filter unsub) (pe_subs p, br_stats b) of
                (removed, subs, st) \<Rightarrow>
                  (Inr (removed \<noteq> None),
                   b\<lparr>br_router := r, br_stats := st,
                     br_peers := AList.update (id_client_id i) (p\<lparr>pe_subs := subs\<rparr>) (br_peers b)\<rparr>)))"

text \<open>\<open>_unsubscribe\<close> of a removed session: the router forgets the filter; the entry of the client is gone.\<close>

definition remove_filters :: "ident \<Rightarrow> topic_filter list \<Rightarrow> router \<Rightarrow> router" where
  "remove_filters i tfs r = fold (\<lambda>tf r. snd (router_remove tf i r)) tfs r"

definition entry_remove :: "bool \<Rightarrow> ident \<Rightarrow> broker \<Rightarrow> peer option \<times> broker" where
  "entry_remove clear_subscriptions i b =
     (case map_of (br_peers b) (id_client_id i) of
        None \<Rightarrow> (None, b)
      | Some p \<Rightarrow>
          (let b = b\<lparr>br_peers := AList.delete (id_client_id i) (br_peers b)\<rparr>
           in (Some p,
               if clear_subscriptions
               then b\<lparr>br_router := remove_filters (pe_id p) (map fst (pe_subs p)) (br_router b)\<rparr>
               else b)))"

definition entry_remove_with :: "bool \<Rightarrow> ident \<Rightarrow> ident \<Rightarrow> broker \<Rightarrow> peer option \<times> broker" where
  "entry_remove_with clear_subscriptions i with_id b =
     (case map_of (br_peers b) (id_client_id i) of
        Some p \<Rightarrow> (if pe_id p = with_id then entry_remove clear_subscriptions i b else (None, b))
      | None \<Rightarrow> (None, b))"

text \<open>A channel whose receiver is gone refuses the message.\<close>

definition tx_send :: "message \<Rightarrow> peer \<Rightarrow> bool \<times> peer" where
  "tx_send m p = (if pe_tx_open p then (True, p\<lparr>pe_tx := pe_tx p @ [m]\<rparr>) else (False, p))"

definition entry_publish :: "ident \<Rightarrow> msg_from \<Rightarrow> msg_publish \<Rightarrow> broker \<Rightarrow>
    ((msg_from \<times> msg_publish \<times> reason) + unit) \<times> broker" where
  "entry_publish i from p b =
     (case map_of (br_peers b) (id_client_id i) of
        None \<Rightarrow> (Inl (from, p, R_Error ''Tx is None''), b)
      | Some pe \<Rightarrow>
          (case tx_send (MForward from p) pe of
             (True, pe') \<Rightarrow> (Inr (), b\<lparr>br_peers := AList.update (id_client_id i) pe' (br_peers b)\<rparr>)
           | (False, _) \<Rightarrow> (Inl (from, p, R_Error ''Tx is closed''), b)))"

section \<open>Forwarding\<close>

type_synonym recipient = "client_id \<times> (topic_filter \<times> shared_group) option"
type_synonym forward_error = "ident \<times> msg_from \<times> msg_publish \<times> reason"

text \<open>The message for one relation.\<close>

definition forward_publish :: "msg_publish \<Rightarrow> sub_options \<Rightarrow> u32 list option \<Rightarrow> msg_publish" where
  "forward_publish p opts sub_ids =
     (let retain = (case opt_retain_as_published opts of
                      Some retain_as_published \<Rightarrow> (if retain_as_published then pub_retain (mp_inner p) else False)
                    | None \<Rightarrow> False);
          q = (mp_inner p)\<lparr>pub_dup := False, pub_retain := retain,
                 pub_qos := less_value (pub_qos (mp_inner p)) (opt_qos opts), pub_packet_id := None\<rparr>;
          q = (case sub_ids of
                 Some ids \<Rightarrow>
                   q\<lparr>pub_properties := map_option (\<lambda>props. props\<lparr>pp_subscription_ids := ids\<rparr>) (pub_properties q)\<rparr>
               | None \<Rightarrow> q)
      in p\<lparr>mp_inner := q\<rparr>)"

definition forwarded_to :: "topic_filter \<Rightarrow> client_id \<Rightarrow> shared_group_type option \<Rightarrow> recipient list" where
  "forwarded_to tf c grp =
     (case grp of
        Some (g, _, cids) \<Rightarrow> map (\<lambda>g_cid. if g_cid = c then (g_cid, Some (tf, g)) else (g_cid, None)) cids
      | None \<Rightarrow> [(c, None)])"

fun forwards_to :: "timestamp \<Rightarrow> msg_from \<Rightarrow> msg_publish \<Rightarrow> sub_relation list \<Rightarrow> (client_id \<times> peer) list \<Rightarrow>
    recipient list \<times> forward_error list \<times> (client_id \<times> peer) list" where
  "forwards_to now from p [] peers = ([], [], peers)"
| "forwards_to now from p ((tf, c, opts, sub_ids, grp) # rels) peers =
     (let q = forward_publish p opts sub_ids
      in case map_of peers c of
           None \<Rightarrow>
             (case forwards_to now from p rels peers of
                (oks, errs, peers') \<Rightarrow>
                  (oks, (id_from now 0 c, from, q, R_Error ''the client has disconnected'') # errs, peers'))
         | Some pe \<Rightarrow>
             (case tx_send (MForward from q) pe of
                (False, _) \<Rightarrow>
                  (case forwards_to now from p rels peers of
                     (oks, errs, peers') \<Rightarrow>
                       (oks, (pe_id pe, from, q, R_Error ''Connection Tx is closed'') # errs, peers'))
              | (True, pe') \<Rightarrow>
                  (case forwards_to now from p rels (AList.update c pe' peers) of
                     (oks, errs, peers') \<Rightarrow> (forwarded_to tf c grp @ oks, errs, peers'))))"

text \<open>\<open>forwards\<close>: \<open>Inl\<close> with the count of recipients and the errors, or the count. The bookkeeping of the message
  store (\<open>mark_forwarded\<close>) is left out.\<close>

definition shared_forwards :: "timestamp \<Rightarrow> (node_id \<Rightarrow> client_id \<Rightarrow> bool) \<Rightarrow> choice_fn \<Rightarrow> msg_from \<Rightarrow> msg_publish \<Rightarrow> broker \<Rightarrow>
    ((nat \<times> forward_error list) + nat) \<times> broker" where
  "shared_forwards now is_online choice from p b =
     (case mp_target_clientid p of
        Some target \<Rightarrow>
          (let opts = opt_set_qos (pub_qos (mp_inner p)) so_default;
               (oks, errs, peers) =
                 forwards_to now from p [(text_of (pub_topic (mp_inner p)), target, opts, None, None)] (br_peers b);
               b = b\<lparr>br_peers := peers\<rparr>
           in if errs \<noteq> [] then (Inl (0, errs), b)
              else (Inr (if id_node_id (from_id from) = br_node_id b then 1 else 0), b))
      | None \<Rightarrow>
          (let relations_map =
                 (case router_matches is_online choice (from_id from) (text_of (pub_topic (mp_inner p))) (br_router b) of
                    Inr m \<Rightarrow> m
                  | Inl _ \<Rightarrow> [])
           in case map_of relations_map (br_node_id b) of
                Some rels \<Rightarrow>
                  (let (oks, errs, peers) = forwards_to now from p rels (br_peers b);
                       b = b\<lparr>br_peers := peers\<rparr>
                   in if errs \<noteq> [] then (Inl (length oks, errs), b) else (Inr (length oks), b))
              | None \<Rightarrow> (Inr 0, b)))"

section \<open>Retained messages of several nodes\<close>

text \<open>\<open>dedup_retains_by_topic\<close>: entries are given by topic and time of creation.\<close>

fun latest_index :: "(bytes \<times> timestamp option) list \<Rightarrow> nat \<Rightarrow> (bytes \<times> nat) list \<Rightarrow> (bytes \<times> timestamp option) list \<Rightarrow> (bytes \<times> nat) list" where
  "latest_index retains idx acc [] = acc"
| "latest_index retains idx acc ((topic, created) # rest) =
     (let incoming_ts = (case created of Some t \<Rightarrow> t | None \<Rightarrow> 0);
          keep = (case map_of acc topic of
                    Some existing_idx \<Rightarrow>
                      incoming_ts > (case snd (retains ! existing_idx) of Some t \<Rightarrow> t | None \<Rightarrow> 0)
                  | None \<Rightarrow> True)
      in latest_index retains (Suc idx) (if keep then AList.update topic idx acc else acc) rest)"

definition dedup_retains :: "(bytes \<times> timestamp option) list \<Rightarrow> (bytes \<times> timestamp option) list" where
  "dedup_retains retains =
     map (\<lambda>idx. retains ! idx) (sort (map snd (latest_index retains 0 [] retains)))"

section \<open>Router and sessions agree\<close>

definition relation_of :: "router \<Rightarrow> topic_filter \<Rightarrow> client_id \<Rightarrow> relation option" where
  "relation_of r tf c = Option.bind (map_of (rt_relations r) tf) (\<lambda>rels. map_of rels c)"

definition session_entry :: "broker \<Rightarrow> topic_filter \<Rightarrow> client_id \<Rightarrow> relation option" where
  "session_entry b tf c =
     Option.bind (map_of (br_peers b) c) (\<lambda>p. map_option (\<lambda>opts. (pe_id p, opts)) (map_of (pe_subs p) tf))"

definition broker_agrees :: "broker \<Rightarrow> bool" where
  "broker_agrees b \<longleftrightarrow>
     router_inv (br_router b) \<and> relation_of (br_router b) = session_entry b \<and> distinct (map fst (br_peers b)) \<and>
     (\<forall>c p. map_of (br_peers b) c = Some p \<longrightarrow> id_client_id (pe_id p) = c)"

lemma relation_of_add:
  assumes "topic_from_str tf = Inr t"
  shows "relation_of (snd (router_add tf i opts r)) tf' c
    = (if tf' = tf \<and> c = id_client_id i then Some (i, opts) else relation_of r tf' c)"
  using assms
  by (auto simp: relation_of_def router_add_def add_relation_def add_topic_def Let_def update_conv' split: option.splits)

lemma relation_of_remove:
  assumes inv: "router_inv r"
  shows "relation_of (snd (router_remove tf i r)) tf' c
    = (if tf' = tf \<and> c = id_client_id i \<and> (\<exists>opts. relation_of r tf c = Some (i, opts)) then None else relation_of r tf' c)"
proof (cases "\<exists>rels opts. map_of (rt_relations r) tf = Some rels \<and> map_of rels (id_client_id i) = Some (i, opts)")
  case False
  then have "remove_relation tf i r = (None, r)"
    by (auto simp: remove_relation_def Let_def split: option.splits)
  with False show ?thesis by (auto simp: router_remove_def relation_of_def split: option.splits bind_splits)
next
  case True
  then obtain rels opts where rels: "map_of (rt_relations r) tf = Some rels" and rel: "map_of rels (id_client_id i) = Some (i, opts)"
    by blast
  obtain t where t: "topic_from_str tf = Inr t"
    using inv map_of_SomeD [OF rels] by (auto simp: router_inv_def list_all_iff rels_ok_def)
  let ?rels = "AList.delete (id_client_id i) rels"
  have lookup: "map_of ?rels c = (if c = id_client_id i then None else map_of rels c)" for c
    by (simp add: delete_conv')
  then have empty: "?rels = [] \<Longrightarrow> c \<noteq> id_client_id i \<Longrightarrow> map_of rels c = None" for c
    by (metis map_of.simps(1))
  show ?thesis
    using rels rel t lookup empty
    by (auto simp: router_remove_def remove_relation_def remove_entry_def remove_topic_def relation_of_def
        Let_def update_conv' delete_conv' split: option.splits)
qed

lemma subs_add_lookup:
  "map_of (fst (snd (subs_add tf opts (subs, st)))) = (map_of subs)(tf \<mapsto> opts)"
  by (simp add: subs_add_def Let_def update_conv')

lemma subs_remove_lookup:
  "map_of (fst (snd (subs_remove tf (subs, st)))) = (map_of subs)(tf := None)"
  by (simp add: subs_remove_def Let_def delete_conv')

lemma entry_subscribe_agrees:
  assumes ag: "broker_agrees b" and peer: "map_of (br_peers b) (id_client_id i) = Some p" and own: "pe_id p = i"
  shows "broker_agrees (snd (entry_subscribe i sub b))"
proof (cases "id_node_id i = br_node_id b \<and> (\<exists>t. topic_from_str (bs_topic_filter sub) = Inr t)")
  case False
  then have "snd (entry_subscribe i sub b) = b"
    using peer own by (auto simp: entry_subscribe_def router_add_def split: sum.splits)
  with ag show ?thesis by simp
next
  case True
  then obtain t where t: "topic_from_str (bs_topic_filter sub) = Inr t" by blast
  let ?tf = "bs_topic_filter sub" and ?opts = "bs_opts sub"
  obtain prev subs st where add: "subs_add ?tf ?opts (pe_subs p, br_stats b) = (prev, subs, st)" by (metis prod_cases3)
  have subs: "map_of subs = (map_of (pe_subs p))(?tf \<mapsto> ?opts)"
    using subs_add_lookup [of ?tf ?opts "pe_subs p" "br_stats b"] add by simp
  obtain r where r: "router_add ?tf i ?opts (br_router b) = (Inr (), r)" using t by (simp add: router_add_def)
  have rel: "relation_of r tf' c = (if tf' = ?tf \<and> c = id_client_id i then Some (i, ?opts) else relation_of (br_router b) tf' c)" for tf' c
    using relation_of_add [OF t, of i ?opts "br_router b"] r by simp
  have inv: "router_inv r" using router_add_inv [of "br_router b" ?tf i ?opts] ag r by (simp add: broker_agrees_def)
  let ?b = "b\<lparr>br_router := r, br_stats := st, br_peers := AList.update (id_client_id i) (p\<lparr>pe_subs := subs\<rparr>) (br_peers b)\<rparr>"
  have eq: "snd (entry_subscribe i sub b) = ?b" using True peer own r add by (simp add: entry_subscribe_def)
  have "relation_of r = session_entry ?b"
    using ag own peer subs by (auto simp: fun_eq_iff rel broker_agrees_def session_entry_def update_conv')
  with inv ag own show ?thesis unfolding eq by (auto simp: broker_agrees_def distinct_update update_conv' split: if_splits)
qed

lemma entry_unsubscribe_agrees:
  assumes ag: "broker_agrees b" and peer: "map_of (br_peers b) (id_client_id i) = Some p" and own: "pe_id p = i"
  shows "broker_agrees (snd (entry_unsubscribe i unsub b))"
proof -
  let ?tf = "bu_topic_filter unsub"
  obtain prev subs st where rem: "subs_remove ?tf (pe_subs p, br_stats b) = (prev, subs, st)" by (metis prod_cases3)
  have subs: "map_of subs = (map_of (pe_subs p))(?tf := None)"
    using subs_remove_lookup [of ?tf "pe_subs p" "br_stats b"] rem by simp
  let ?r = "snd (router_remove ?tf i (br_router b))"
  have inv: "router_inv (br_router b)" and rels: "relation_of (br_router b) = session_entry b"
    using ag by (auto simp: broker_agrees_def)
  let ?b = "b\<lparr>br_router := ?r, br_stats := st, br_peers := AList.update (id_client_id i) (p\<lparr>pe_subs := subs\<rparr>) (br_peers b)\<rparr>"
  have eq: "snd (entry_unsubscribe i unsub b) = ?b" using peer rem by (simp add: entry_unsubscribe_def)
  have "relation_of ?r = session_entry ?b"
    using own peer subs
    by (auto simp: fun_eq_iff relation_of_remove [OF inv] rels session_entry_def update_conv')
  with router_remove_inv [OF inv] ag own show ?thesis unfolding eq
    by (auto simp: broker_agrees_def distinct_update update_conv' split: if_splits)
qed

lemma remove_filters_relations:
  assumes "router_inv r"
  shows "router_inv (remove_filters i tfs r) \<and>
    (\<forall>tf c. relation_of (remove_filters i tfs r) tf c
      = (if tf \<in> set tfs \<and> c = id_client_id i \<and> (\<exists>opts. relation_of r tf c = Some (i, opts)) then None else relation_of r tf c))"
  using assms
proof (induction tfs arbitrary: r)
  case (Cons tf tfs)
  let ?r = "snd (router_remove tf i r)"
  have inv: "router_inv ?r" by (rule router_remove_inv [OF Cons.prems])
  have step: "remove_filters i (tf # tfs) r = remove_filters i tfs ?r" by (simp add: remove_filters_def)
  show ?case unfolding step using Cons.IH [OF inv] by (auto simp: relation_of_remove [OF Cons.prems])
qed (simp add: remove_filters_def)

lemma entry_remove_agrees:
  assumes ag: "broker_agrees b"
  shows "broker_agrees (snd (entry_remove True i b))"
proof (cases "map_of (br_peers b) (id_client_id i)")
  case None
  with ag show ?thesis by (simp add: entry_remove_def)
next
  case (Some p)
  have own: "id_client_id (pe_id p) = id_client_id i" using ag Some by (auto simp: broker_agrees_def)
  have inv: "router_inv (br_router b)" and rels: "relation_of (br_router b) = session_entry b"
    using ag by (auto simp: broker_agrees_def)
  let ?r = "remove_filters (pe_id p) (map fst (pe_subs p)) (br_router b)"
  let ?b = "b\<lparr>br_peers := AList.delete (id_client_id i) (br_peers b), br_router := ?r\<rparr>"
  have eq: "snd (entry_remove True i b) = ?b" using Some by (simp add: entry_remove_def Let_def)
  have "relation_of ?r tf c = session_entry ?b tf c" for tf c
  proof (cases "c = id_client_id i")
    case True
    then have "session_entry b tf c = map_option (\<lambda>opts. (pe_id p, opts)) (map_of (pe_subs p) tf)"
      using Some by (simp add: session_entry_def)
    moreover have "tf \<in> set (map fst (pe_subs p)) \<longleftrightarrow> map_of (pe_subs p) tf \<noteq> None" by (simp add: map_of_eq_None_iff)
    ultimately show ?thesis using remove_filters_relations [OF inv, of "pe_id p" "map fst (pe_subs p)"] True own
      by (auto simp: rels session_entry_def delete_conv')
  next
    case False
    then show ?thesis using remove_filters_relations [OF inv, of "pe_id p" "map fst (pe_subs p)"] own
      by (auto simp: rels session_entry_def delete_conv')
  qed
  then show ?thesis unfolding eq using remove_filters_relations [OF inv] ag
    by (auto simp: broker_agrees_def distinct_delete delete_conv' fun_eq_iff split: if_splits)
qed

section \<open>What forwarding sends\<close>

definition messages_for :: "msg_from \<Rightarrow> msg_publish \<Rightarrow> sub_relation list \<Rightarrow> client_id \<Rightarrow> message list" where
  "messages_for from p rels c =
     map (\<lambda>(_, _, opts, sub_ids, _). MForward from (forward_publish p opts sub_ids)) (filter (\<lambda>(_, c', _). c' = c) rels)"

definition received_by :: "message list \<Rightarrow> peer \<Rightarrow> peer" where
  "received_by ms pe = (if pe_tx_open pe then pe\<lparr>pe_tx := pe_tx pe @ ms\<rparr> else pe)"

lemma received_by_Nil [simp]: "received_by [] = (\<lambda>pe. pe)"
  by (simp add: fun_eq_iff received_by_def)

lemma received_by_append: "received_by ms (received_by [m] pe) = received_by (m # ms) pe"
  by (simp add: received_by_def)

lemma tx_send_received: "tx_send m pe = (pe_tx_open pe, received_by [m] pe)"
  by (simp add: tx_send_def received_by_def)

lemma messages_for_Cons:
  "messages_for from p ((tf, c, opts, sub_ids, grp) # rels) c'
     = (if c = c' then MForward from (forward_publish p opts sub_ids) # messages_for from p rels c'
        else messages_for from p rels c')"
  by (simp add: messages_for_def)

lemma forwards_to_peers:
  "map_of (snd (snd (forwards_to now from p rels peers))) c
     = map_option (received_by (messages_for from p rels c)) (map_of peers c)"
proof (induction rels arbitrary: peers)
  case (Cons a rels)
  obtain tf c' opts sub_ids grp where a: "a = (tf, c', opts, sub_ids, grp)" by (cases a)
  show ?case
  proof (cases "map_of peers c'")
    case None
    with Cons.IH [of peers] show ?thesis by (auto simp: a Let_def messages_for_Cons split: prod.splits)
  next
    case (Some pe)
    let ?q = "forward_publish p opts sub_ids"
    let ?pe = "received_by [MForward from ?q] pe"
    show ?thesis
    proof (cases "pe_tx_open pe")
      case True
      from True Some Cons.IH [of "AList.update c' ?pe peers"] show ?thesis
        by (auto simp: a Let_def tx_send_received messages_for_Cons update_conv' received_by_append split: prod.splits)
    next
      case False
      from False Some Cons.IH [of peers] show ?thesis
        by (auto simp: a Let_def tx_send_received messages_for_Cons received_by_def split: prod.splits)
    qed
  qed
qed (simp add: messages_for_def option.map_ident)

definition reachable :: "(client_id \<times> peer) list \<Rightarrow> client_id \<Rightarrow> bool" where
  "reachable peers c \<longleftrightarrow> (\<exists>pe. map_of peers c = Some pe \<and> pe_tx_open pe)"

lemma forwards_to_errors:
  "fst (snd (forwards_to now from p rels peers)) = [] \<longleftrightarrow> (\<forall>(tf, c, rest)\<in>set rels. reachable peers c)"
proof (induction rels arbitrary: peers)
  case (Cons a rels)
  obtain tf c' opts sub_ids grp where a: "a = (tf, c', opts, sub_ids, grp)" by (cases a)
  show ?case
  proof (cases "map_of peers c'")
    case None
    then show ?thesis by (auto simp: a Let_def reachable_def split: prod.splits)
  next
    case (Some pe)
    let ?pe = "received_by [MForward from (forward_publish p opts sub_ids)] pe"
    show ?thesis
    proof (cases "pe_tx_open pe")
      case True
      have IH: "fst (snd (forwards_to now from p rels (AList.update c' ?pe peers))) = [] \<longleftrightarrow>
          (\<forall>(tf, c, rest)\<in>set rels. reachable (AList.update c' ?pe peers) c)"
        by (rule Cons.IH)
      have "reachable (AList.update c' ?pe peers) c = reachable peers c" for c
        using True Some by (auto simp: reachable_def update_conv' received_by_def)
      with IH True Some show ?thesis by (auto simp: a Let_def tx_send_received reachable_def split: prod.splits)
    next
      case False
      with Some show ?thesis by (auto simp: a Let_def tx_send_received reachable_def split: prod.splits)
    qed
  qed
qed simp

lemma forward_publish_fields:
  "pub_qos (mp_inner (forward_publish p opts ids)) = min (pub_qos (mp_inner p)) (opt_qos opts)"
  "pub_topic (mp_inner (forward_publish p opts ids)) = pub_topic (mp_inner p)"
  "pub_payload (mp_inner (forward_publish p opts ids)) = pub_payload (mp_inner p)"
  "pub_dup (mp_inner (forward_publish p opts ids)) = False"
  "pub_packet_id (mp_inner (forward_publish p opts ids)) = None"
  by (simp_all add: forward_publish_def Let_def less_value_min split: option.splits)

text \<open>In terms of the session tables: who has subscribed.\<close>

definition subscribed :: "broker \<Rightarrow> ident \<Rightarrow> string \<Rightarrow> client_id \<Rightarrow> bool" where
  "subscribed b publisher topic_name c \<longleftrightarrow>
     (\<exists>pe tf opts. map_of (br_peers b) c = Some pe \<and> map_of (pe_subs pe) tf = Some opts \<and>
        filter_matches tf topic_name \<and> wants publisher (pe_id pe, opts) \<and> opt_shared_group opts = None)"

definition all_local :: "broker \<Rightarrow> bool" where
  "all_local b \<longleftrightarrow> (\<forall>c pe. map_of (br_peers b) c = Some pe \<longrightarrow> id_node_id (pe_id pe) = br_node_id b \<and> pe_tx_open pe)"

lemma session_entry_Some:
  "session_entry b tf c = Some (i, opts) \<longleftrightarrow>
     (\<exists>pe. map_of (br_peers b) c = Some pe \<and> pe_id pe = i \<and> map_of (pe_subs pe) tf = Some opts)"
  by (auto simp: session_entry_def bind_eq_Some_conv)

lemma direct_receivers_sessions:
  assumes "broker_agrees b" and "all_local b"
  shows "(n, c) \<in> direct_receivers (br_router b) publisher topic_name \<longleftrightarrow> n = br_node_id b \<and> subscribed b publisher topic_name c"
proof -
  have rel: "(\<exists>rels. map_of (rt_relations (br_router b)) tf = Some rels \<and> map_of rels c = Some x) \<longleftrightarrow> session_entry b tf c = Some x" for tf x
  proof -
    have "(\<exists>rels. map_of (rt_relations (br_router b)) tf = Some rels \<and> map_of rels c = Some x) \<longleftrightarrow> relation_of (br_router b) tf c = Some x"
      by (simp add: relation_of_def bind_eq_Some_conv)
    then show ?thesis using assms(1) by (simp add: broker_agrees_def)
  qed
  have "(n, c) \<in> direct_receivers (br_router b) publisher topic_name \<longleftrightarrow>
      (\<exists>tf i opts. (\<exists>rels. map_of (rt_relations (br_router b)) tf = Some rels \<and> map_of rels c = Some (i, opts)) \<and>
        filter_matches tf topic_name \<and> id_node_id i = n \<and> wants publisher (i, opts) \<and> opt_shared_group opts = None)"
    unfolding direct_receivers_def directly_subscribed_def by blast
  also have "\<dots> \<longleftrightarrow> n = br_node_id b \<and> subscribed b publisher topic_name c"
    unfolding rel session_entry_Some subscribed_def using assms(2) unfolding all_local_def by blast
  finally show ?thesis .
qed

lemma receivers_in_sessions:
  assumes "broker_agrees b" and "(n, c) \<in> chosen_receivers is_online choice (br_router b) publisher topic_name" and "choice_in_range choice"
  shows "\<exists>pe. map_of (br_peers b) c = Some pe \<and> id_node_id (pe_id pe) = n"
proof -
  obtain tf rels g idx on opts x y where rels: "map_of (rt_relations (br_router b)) tf = Some rels"
    and ch: "choice g publisher topic_name (group_members is_online publisher rels g) = Some (idx, on)"
    and pick: "group_members is_online publisher rels g ! idx = (n, c, opts, x, y)"
    using assms(2) by (auto simp: chosen_receivers_def chosen_member_def)
  have "idx < length (group_members is_online publisher rels g)"
    using assms(3) ch unfolding choice_in_range_def by blast
  then have "(n, c, opts, x, y) \<in> set (group_members is_online publisher rels g)" using pick by (metis nth_mem)
  then obtain i o' where "(c, (i, o')) \<in> set rels" "n = id_node_id i"
    by (auto simp: group_members_def member_of_def)
  moreover have "distinct (map fst rels)"
    using router_rels_distinct rels assms(1) by (auto simp: broker_agrees_def)
  ultimately have "relation_of (br_router b) tf c = Some (i, o')" using rels by (simp add: relation_of_def)
  then have "session_entry b tf c = Some (i, o')" using assms(1) by (simp add: broker_agrees_def)
  then show ?thesis using \<open>n = id_node_id i\<close> by (auto simp: session_entry_def bind_eq_Some_conv)
qed

lemma router_matches_keys:
  assumes "choice_in_range choice" and "router_matches is_online choice i name r = Inr m"
  shows "distinct (map fst m)"
proof -
  obtain t where t: "topic_from_str name = Inr t" using assms(2) by (auto simp: router_matches_def split: sum.splits)
  have "map fst (map (\<lambda>(n, col). (n, collector_into col)) xs) = map fst xs" for xs :: collectors by (auto simp: split_def)
  then have "distinct (map fst (map (\<lambda>(n, col). (n, collector_into col)) (fold do_add adds [])))" for adds
    using fold_do_add_keys [of "[]" adds] by (simp only: list.map distinct.simps)
  then show ?thesis using assms(2) unfolding router_matches_adds [OF assms(1) t] by (metis sum.inject(2))
qed

lemma relations_of_node:
  assumes "distinct (map fst m)"
  shows "(n, c) \<in> receivers m \<longleftrightarrow> (\<exists>rels. map_of m n = Some rels \<and> c \<in> (\<lambda>(tf, c, rest). c) ` set rels)"
  using assms by (force simp: receivers_def)

lemma messages_for_empty: "messages_for from p rels c = [] \<longleftrightarrow> c \<notin> (\<lambda>(tf, c, rest). c) ` set rels"
  by (force simp: messages_for_def filter_empty_conv)

definition copy_of :: "msg_publish \<Rightarrow> msg_publish \<Rightarrow> bool" where
  "copy_of p q \<longleftrightarrow> pub_topic (mp_inner q) = pub_topic (mp_inner p) \<and> pub_payload (mp_inner q) = pub_payload (mp_inner p) \<and>
     pub_qos (mp_inner q) \<le> pub_qos (mp_inner p) \<and> \<not> pub_dup (mp_inner q) \<and> pub_packet_id (mp_inner q) = None"

lemma messages_for_copies: "x \<in> set (messages_for from p rels c) \<Longrightarrow> \<exists>q. x = MForward from q \<and> copy_of p q"
  by (auto simp: messages_for_def copy_of_def forward_publish_fields)

section \<open>Properties\<close>

text \<open>C4: A publication reaches exactly the sessions that have subscribed. On a node whose router agrees with the
  session tables and whose sessions are alive, forwarding a message without a target succeeds: to the channel of
  every session it appends messages with the topic and the payload of the publication and at most its QoS, at least one
  when the table of the session has a matching subscription (outside shared groups and not excluded by No Local) or
  the session is the chosen member of a matching shared group, and none otherwise.\<close>

theorem publish_reaches_sessions:
  assumes ag: "broker_agrees b" and loc: "all_local b" and choice: "choice_in_range choice"
    and target: "mp_target_clientid p = None" and name: "name = text_of (pub_topic (mp_inner p))"
    and topic: "topic_from_str name = Inr t" and names: "list_all (\<lambda>l. \<not> is_wildcard l) (levels t)"
  shows "\<exists>k b'. shared_forwards now is_online choice from p b = (Inr k, b') \<and>
    (\<forall>c pe. map_of (br_peers b) c = Some pe \<longrightarrow>
       (\<exists>ms. map_of (br_peers b') c = Some (pe\<lparr>pe_tx := pe_tx pe @ ms\<rparr>) \<and>
          (ms \<noteq> [] \<longleftrightarrow> subscribed b (from_id from) name c \<or>
             (br_node_id b, c) \<in> chosen_receivers is_online choice (br_router b) (from_id from) name) \<and>
          (\<forall>x\<in>set ms. \<exists>q. x = MForward from q \<and> copy_of p q)))"
proof -
  let ?P = "\<lambda>c. subscribed b (from_id from) name c \<or> (br_node_id b, c) \<in> chosen_receivers is_online choice (br_router b) (from_id from) name"
  obtain m where m: "router_matches is_online choice (from_id from) name (br_router b) = Inr m"
    and rec: "receivers m = direct_receivers (br_router b) (from_id from) name \<union> chosen_receivers is_online choice (br_router b) (from_id from) name"
    using router_matches_receivers [OF _ choice topic names] ag unfolding broker_agrees_def by blast
  define rels where "rels = (case map_of m (br_node_id b) of Some rels \<Rightarrow> rels | None \<Rightarrow> [])"
  have clients: "c \<in> (\<lambda>(tf, c, rest). c) ` set rels \<longleftrightarrow> ?P c" for c
  proof -
    have "c \<in> (\<lambda>(tf, c, rest). c) ` set rels \<longleftrightarrow> (br_node_id b, c) \<in> receivers m"
      unfolding relations_of_node [OF router_matches_keys [OF choice m]] rels_def
      by (cases "map_of m (br_node_id b)") simp_all
    then show ?thesis unfolding rec using direct_receivers_sessions [OF ag loc] by simp
  qed
  have open_peer: "reachable (br_peers b) c" if c: "?P c" for c
    using c receivers_in_sessions [OF ag _ choice] loc unfolding reachable_def subscribed_def all_local_def by metis
  have "\<forall>(tf, c, rest)\<in>set rels. reachable (br_peers b) c" using clients open_peer by force
  then have errs: "fst (snd (forwards_to now from p rels (br_peers b))) = []" by (simp only: forwards_to_errors)
  let ?peers = "snd (snd (forwards_to now from p rels (br_peers b)))"
  have "\<exists>k. shared_forwards now is_online choice from p b = (Inr k, b\<lparr>br_peers := ?peers\<rparr>)"
  proof (cases "map_of m (br_node_id b)")
    case None
    then show ?thesis using target m name by (simp add: shared_forwards_def rels_def)
  next
    case (Some rs)
    then have "rels = rs" by (simp add: rels_def)
    then show ?thesis using Some target m name errs
      by (cases "forwards_to now from p rels (br_peers b)") (simp add: shared_forwards_def)
  qed
  then obtain k where run: "shared_forwards now is_online choice from p b = (Inr k, b\<lparr>br_peers := ?peers\<rparr>)" ..
  have "\<exists>ms. map_of ?peers c = Some (pe\<lparr>pe_tx := pe_tx pe @ ms\<rparr>) \<and> (ms \<noteq> [] \<longleftrightarrow> ?P c) \<and>
      (\<forall>x\<in>set ms. \<exists>q. x = MForward from q \<and> copy_of p q)" if pe: "map_of (br_peers b) c = Some pe" for c pe
  proof (intro exI conjI)
    show "map_of ?peers c = Some (pe\<lparr>pe_tx := pe_tx pe @ messages_for from p rels c\<rparr>)"
      using pe loc by (auto simp: forwards_to_peers received_by_def all_local_def)
    show "messages_for from p rels c \<noteq> [] \<longleftrightarrow> ?P c" by (simp only: messages_for_empty clients not_not)
    show "\<forall>x\<in>set (messages_for from p rels c). \<exists>q. x = MForward from q \<and> copy_of p q" using messages_for_copies by blast
  qed
  with run show ?thesis by (intro exI [of _ k] exI [of _ "b\<lparr>br_peers := ?peers\<rparr>"]) simp
qed

datatype entry_op = ESubscribe broker_subscribe | EUnsubscribe broker_unsubscribe | ERemove

text \<open>The operations that the live session of a client performs on its own entry.\<close>

fun entry_step :: "client_id \<times> entry_op \<Rightarrow> broker \<Rightarrow> broker" where
  "entry_step (c, act) b =
     (case map_of (br_peers b) c of
        None \<Rightarrow> b
      | Some p \<Rightarrow>
          (case act of
             ESubscribe sub \<Rightarrow> snd (entry_subscribe (pe_id p) sub b)
           | EUnsubscribe unsub \<Rightarrow> snd (entry_unsubscribe (pe_id p) unsub b)
           | ERemove \<Rightarrow> snd (entry_remove True (pe_id p) b)))"

lemma entry_step_agrees: "broker_agrees b \<Longrightarrow> broker_agrees (entry_step x b)"
proof (cases x)
  case (Pair c act)
  assume ag: "broker_agrees b"
  show ?thesis
  proof (cases "map_of (br_peers b) c")
    case (Some p)
    then have "id_client_id (pe_id p) = c" using ag by (auto simp: broker_agrees_def)
    with Some ag Pair show ?thesis
      by (cases act) (auto intro: entry_subscribe_agrees entry_unsubscribe_agrees entry_remove_agrees)
  qed (simp add: Pair ag)
qed

text \<open>Subscribing, unsubscribing and removing sessions keep the router in agreement with the session tables: a
  client has a relation for a filter in the router if and only if its session has the filter in its table, with
  the same options and identity.\<close>

theorem broker_agreement_kept:
  assumes "broker_agrees b"
  shows "broker_agrees (fold entry_step acts b)"
  using assms by (induction acts arbitrary: b) (simp_all add: entry_step_agrees del: entry_step.simps)

definition ex_peer :: "client_id \<Rightarrow> peer" where
  "ex_peer c = \<lparr>pe_id = ex_ident c, pe_subs = [], pe_tx = [], pe_tx_open = True, pe_connected = True\<rparr>"

definition ex_broker :: broker where
  "ex_broker = \<lparr>br_node_id = 1, br_router = router_new, br_peers = [(''s'', ex_peer ''s''), (''t'', ex_peer ''t'')],
     br_stats = \<lparr>st_subscriptions = counter_new, st_subscriptions_shared = counter_new\<rparr>\<rparr>"

definition ex_acts :: "(client_id \<times> entry_op) list" where
  "ex_acts = [(''s'', ESubscribe \<lparr>bs_topic_filter = ''a'', bs_opts = so_default\<rparr>)]"

lemma ex_ident_client [simp]: "id_client_id (ex_ident c) = c" "id_node_id (ex_ident c) = 1"
  by (simp_all add: ex_ident_def id_from_def id_new_def)

lemma ex_broker_agrees: "broker_agrees ex_broker"
proof -
  have "relation_of router_new = session_entry ex_broker"
    by (auto simp: fun_eq_iff relation_of_def router_new_def session_entry_def ex_broker_def ex_peer_def)
  then show ?thesis using router_new_inv by (auto simp: broker_agrees_def ex_broker_def ex_peer_def split: if_splits)
qed

theorem broker_agreement_kept_witness: "broker_agrees (fold entry_step ex_acts ex_broker)"
  by (rule broker_agreement_kept [OF ex_broker_agrees])

definition ex_news :: msg_publish where
  "ex_news = mp_from \<lparr>pub_dup = False, pub_retain = False, pub_qos = AtLeastOnce, pub_topic = text_bytes ''a'', pub_packet_id = None,
     pub_payload = [1], pub_properties = None\<rparr>"

lemma ex_broker_local: "all_local (fold entry_step ex_acts ex_broker)"
  by (auto simp: all_local_def ex_acts_def ex_broker_def ex_peer_def entry_subscribe_def update_conv' router_add_def
      subs_add_def Let_def split: if_splits sum.splits)

theorem publish_reaches_sessions_witness:
  "\<exists>k b'. shared_forwards 0 (\<lambda>_ _. True) (\<lambda>_ _ _ _. None) \<lparr>from_typ = FromCustom, from_id = ex_ident ''p''\<rparr> ex_news
       (fold entry_step ex_acts ex_broker) = (Inr k, b')"
proof -
  have "topic_from_str ''a'' = Inr (Topic [Normal ''a''])"
    by (simp add: topic_from_str_def level_from_str_def topic_is_valid_levels contains_wildcard_def str_is_metadata_def)
  moreover have "''a'' = text_of (pub_topic (mp_inner ex_news))"
    by (simp add: ex_news_def mp_from_def mp_new_def)
  moreover have "mp_target_clientid ex_news = None" by (simp add: ex_news_def mp_from_def mp_new_def)
  moreover have "choice_in_range (\<lambda>_ _ _ _. None)" by (simp add: choice_in_range_def)
  moreover have "list_all (\<lambda>l. \<not> is_wildcard l) (levels (Topic [Normal ''a'']))" by (simp add: is_wildcard_def)
  moreover have "broker_agrees (fold entry_step ex_acts ex_broker)"
    using ex_broker_agrees by (simp add: ex_acts_def entry_step_agrees del: entry_step.simps)
  ultimately show ?thesis
    using publish_reaches_sessions [OF _ ex_broker_local, of "\<lambda>_ _ _ _. None" ex_news "''a''" "Topic [Normal ''a'']" 0 "\<lambda>_ _. True"] by blast
qed

end
