(* ===== verification/Message_Store.thy ===== *)
theory Message_Store
  imports Retain Shared "HOL-Library.Multiset"
begin

text \<open>
  The store of messages for clients that are not connected: the storage in memory of the plug-in \<open>ferromq-message-storage\<close>
  (\<open>ram.rs\<close>). A publication gets an identifier and is sent over a channel to a task that enters it
  in four tables: the messages, a tree with the topic and the identifier as last level, the clients that already have the
  message, and a heap of expiry times. A second task removes expired messages.

  Hash maps and the B-tree map are association lists with distinct keys, the heap is a list of which the greatest element is
  taken. The clock, the outcome of sending over the bounded channel and the crates that encode and measure messages (record \<open>store_lib\<close>)
  are parameters; of the encoding it is assumed that what was encoded is decoded again (\<open>codec_ok\<close>). The locks that keep the
  tables of one message together are not modelled: an operation is one step.

  Shown: the tables agree after any history of operations; a lookup returns exactly the stored messages that the filter matches,
  that have not expired and that neither the client nor its group has, each once; a message that was marked
  is never returned to the client again; the removal of expired messages ends and leaves none; and that one message over the limit lets
  the removal drop messages that have not expired, as many as it may remove at once.
\<close>

section \<open>Data\<close>

record store_cfg =
  sc_cache_capacity :: nat
  sc_cache_max_count :: nat
  sc_encode :: bool

text \<open>The crates \<open>postcard\<close> and \<open>get_size2\<close>, and the size of the table entries of a message.\<close>

record store_lib =
  sl_encode :: "stored_message \<Rightarrow> string + bytes"
  sl_decode :: "bytes \<Rightarrow> string + stored_message"
  sl_get_size :: "stored_message \<Rightarrow> nat"
  sl_entry_size :: "topic \<Rightarrow> nat"

definition codec_ok :: "store_lib \<Rightarrow> bool" where
  "codec_ok lib \<longleftrightarrow> (\<forall>m b. sl_encode lib m = Inr b \<longrightarrow> sl_decode lib b = Inr m)"

datatype store_msg =
    StoreMsg msg_from msg_publish int nat "recipient list option"
  | MarkForwarded nat "recipient list"

record msg_store =
  ms_messages :: "(nat \<times> stored_message \<times> nat) list"
  ms_messages_encode :: "(nat \<times> bytes \<times> nat) list"
  ms_topic_tree :: "nat rnode"
  ms_forwardeds :: "(nat \<times> recipient list) list"
  ms_expiries :: "(timestamp \<times> nat) list"
  ms_id_gen :: nat
  ms_bytes :: int
  ms_queue :: "store_msg list"
  ms_queue_count :: int

definition ms_new :: msg_store where
  "ms_new = \<lparr>ms_messages = [], ms_messages_encode = [], ms_topic_tree = rn_default, ms_forwardeds = [], ms_expiries = [],
     ms_id_gen = 1, ms_bytes = 0, ms_queue = [], ms_queue_count = 0\<rparr>"

datatype store_error = SErr_Topic topic_error | SErr_Codec string | SErr_Send | SErr_Timeout

section \<open>Identifiers as levels\<close>

text \<open>\<open>msg_id.to_string()\<close>.\<close>

function nat_to_string :: "nat \<Rightarrow> string" where
  "nat_to_string n = (if n < 10 then [char_of (48 + n)] else nat_to_string (n div 10) @ [char_of (48 + n mod 10)])"
  by pat_completeness auto
termination
  by (relation "measure id") auto

declare nat_to_string.simps [simp del]

definition id_topic :: "topic \<Rightarrow> nat \<Rightarrow> topic" where
  "id_topic t i = Topic (levels t @ [Normal (nat_to_string i)])"

section \<open>The table of messages\<close>

definition messages_count :: "store_cfg \<Rightarrow> msg_store \<Rightarrow> nat" where
  "messages_count cfg s = (if sc_encode cfg then length (ms_messages_encode s) else length (ms_messages s))"

definition messages_bytes_size_get :: "msg_store \<Rightarrow> nat" where
  "messages_bytes_size_get s = nat (ms_bytes s mod 2 ^ 64)"

definition messages_remove ::
  "store_lib \<Rightarrow> store_cfg \<Rightarrow> nat \<Rightarrow> msg_store \<Rightarrow> (store_error + stored_message option) \<times> msg_store" where
  "messages_remove lib cfg i s =
     (if sc_encode cfg then
        (case map_of (ms_messages_encode s) i of
           Some (b, len) \<Rightarrow>
             (let s = s\<lparr>ms_messages_encode := AList.delete i (ms_messages_encode s), ms_bytes := ms_bytes s - int len\<rparr>
              in (case sl_decode lib b of Inr m \<Rightarrow> (Inr (Some m), s) | Inl e \<Rightarrow> (Inl (SErr_Codec e), s)))
         | None \<Rightarrow> (Inr None, s))
      else
        (case map_of (ms_messages s) i of
           Some (m, len) \<Rightarrow>
             (Inr (Some m), s\<lparr>ms_messages := AList.delete i (ms_messages s), ms_bytes := ms_bytes s - int len\<rparr>)
         | None \<Rightarrow> (Inr None, s)))"

definition messages_get_async :: "store_lib \<Rightarrow> store_cfg \<Rightarrow> nat \<Rightarrow> msg_store \<Rightarrow> store_error + stored_message option" where
  "messages_get_async lib cfg i s =
     (if sc_encode cfg then
        (case map_of (ms_messages_encode s) i of
           Some (b, _) \<Rightarrow> (case sl_decode lib b of Inr m \<Rightarrow> Inr (Some m) | Inl e \<Rightarrow> Inl (SErr_Codec e))
         | None \<Rightarrow> Inr None)
      else Inr (map_option fst (map_of (ms_messages s) i)))"

definition messages_exist :: "store_cfg \<Rightarrow> nat \<Rightarrow> msg_store \<Rightarrow> bool" where
  "messages_exist cfg i s =
     (if sc_encode cfg then map_of (ms_messages_encode s) i \<noteq> None else map_of (ms_messages s) i \<noteq> None)"

section \<open>Storing\<close>

definition set_forwardeds :: "nat \<Rightarrow> recipient list \<Rightarrow> msg_store \<Rightarrow> msg_store" where
  "set_forwardeds i recipients s =
     (let clientids = (case map_of (ms_forwardeds s) i of Some cs \<Rightarrow> cs | None \<Rightarrow> []);
          clientids = fold (\<lambda>(c, opts). AList.update c opts) recipients clientids
      in s\<lparr>ms_forwardeds := AList.update i clientids (ms_forwardeds s)\<rparr>)"

text \<open>The tables other than that of the messages.\<close>

definition index_message :: "topic \<Rightarrow> timestamp \<Rightarrow> nat \<Rightarrow> nat \<Rightarrow> recipient list option \<Rightarrow> msg_store \<Rightarrow> msg_store" where
  "index_message t expiry_time_at i len recipients s =
     (let s = s\<lparr>ms_bytes := ms_bytes s + int len, ms_topic_tree := rn_insert t i (ms_topic_tree s),
                ms_expiries := (expiry_time_at, i) # ms_expiries s\<rparr>
      in case recipients of Some rs \<Rightarrow> set_forwardeds i rs s | None \<Rightarrow> s)"

definition ms_set :: "store_lib \<Rightarrow> store_cfg \<Rightarrow> timestamp \<Rightarrow> msg_from \<Rightarrow> msg_publish \<Rightarrow> int \<Rightarrow> nat \<Rightarrow> recipient list option \<Rightarrow>
    msg_store \<Rightarrow> (store_error + unit) \<times> msg_store" where
  "ms_set lib cfg now from p expiry_interval i recipients s =
     (case topic_from_str (text_of (pub_topic (mp_inner p))) of
        Inl e \<Rightarrow> (Inl (SErr_Topic e), s)
      | Inr t \<Rightarrow>
          (let t = id_topic t i;
               expiry_time_at = now + expiry_interval;
               m = \<lparr>sm_msg_id = i, sm_from = from, sm_publish = p, sm_expiry_time_at = expiry_time_at\<rparr>
           in if sc_encode cfg then
                (case sl_encode lib m of
                   Inl e \<Rightarrow> (Inl (SErr_Codec e), s)
                 | Inr b \<Rightarrow>
                     (let len = length b + sl_entry_size lib t
                      in (Inr (), index_message t expiry_time_at i len recipients
                            (s\<lparr>ms_messages_encode := AList.update i (b, len) (ms_messages_encode s)\<rparr>))))
              else
                (let len = sl_get_size lib m + sl_entry_size lib t
                 in (Inr (), index_message t expiry_time_at i len recipients
                       (s\<lparr>ms_messages := AList.update i (m, len) (ms_messages s)\<rparr>)))))"

definition ms_process :: "store_lib \<Rightarrow> store_cfg \<Rightarrow> timestamp \<Rightarrow> store_msg \<Rightarrow> msg_store \<Rightarrow> msg_store" where
  "ms_process lib cfg now msg s =
     (case msg of
        StoreMsg from p expiry_interval i recipients \<Rightarrow> snd (ms_set lib cfg now from p expiry_interval i recipients s)
      | MarkForwarded i recipients \<Rightarrow> if messages_exist cfg i s then set_forwardeds i recipients s else s)"

text \<open>The task that takes messages from the channel.\<close>

definition serve_next :: "store_lib \<Rightarrow> store_cfg \<Rightarrow> timestamp \<Rightarrow> msg_store \<Rightarrow> msg_store" where
  "serve_next lib cfg now s =
     (case ms_queue s of
        [] \<Rightarrow> s
      | msg # rest \<Rightarrow>
          (let s = ms_process lib cfg now msg (s\<lparr>ms_queue := rest\<rparr>) in s\<lparr>ms_queue_count := ms_queue_count s - 1\<rparr>))"

section \<open>The interface\<close>

definition next_msg_id :: "msg_store \<Rightarrow> nat \<times> msg_store" where
  "next_msg_id s = (ms_id_gen s, s\<lparr>ms_id_gen := ms_id_gen s + 1\<rparr>)"

datatype send_outcome = Sent | SendFailed | SendTimeout

definition channel_send :: "send_outcome \<Rightarrow> store_msg \<Rightarrow> msg_store \<Rightarrow> (store_error + unit) \<times> msg_store" where
  "channel_send out msg s =
     (let s = s\<lparr>ms_queue_count := ms_queue_count s + 1\<rparr>
      in case out of
           Sent \<Rightarrow> (Inr (), s\<lparr>ms_queue := ms_queue s @ [msg]\<rparr>)
         | SendFailed \<Rightarrow> (Inl SErr_Send, s\<lparr>ms_queue_count := ms_queue_count s - 1\<rparr>)
         | SendTimeout \<Rightarrow> (Inl SErr_Timeout, s\<lparr>ms_queue_count := ms_queue_count s - 1\<rparr>))"

definition ms_store :: "send_outcome \<Rightarrow> nat \<Rightarrow> msg_from \<Rightarrow> msg_publish \<Rightarrow> int \<Rightarrow> recipient list option \<Rightarrow>
    msg_store \<Rightarrow> (store_error + unit) \<times> msg_store" where
  "ms_store out i from p expiry_interval recipients s = channel_send out (StoreMsg from p expiry_interval i recipients) s"

definition mark_forwarded :: "send_outcome \<Rightarrow> nat \<Rightarrow> recipient list \<Rightarrow> msg_store \<Rightarrow> (store_error + unit) \<times> msg_store" where
  "mark_forwarded out i recipients s = channel_send out (MarkForwarded i recipients) s"

definition is_forwarded :: "client_id \<Rightarrow> topic_filter \<Rightarrow> shared_group option \<Rightarrow> recipient list \<Rightarrow> bool" where
  "is_forwarded c topic_filter grp cids =
     (if map_of cids c \<noteq> None then True
      else case grp of
        Some g \<Rightarrow> list_ex (\<lambda>(_, tf_g). case tf_g of Some (tf, g') \<Rightarrow> g' = g \<and> tf = topic_filter | None \<Rightarrow> False) cids
      | None \<Rightarrow> False)"

definition wanted :: "store_lib \<Rightarrow> store_cfg \<Rightarrow> timestamp \<Rightarrow> client_id \<Rightarrow> topic_filter \<Rightarrow> shared_group option \<Rightarrow> msg_store \<Rightarrow>
    nat \<Rightarrow> (nat \<times> msg_from \<times> msg_publish) option" where
  "wanted lib cfg now c topic_filter grp s i =
     (case messages_get_async lib cfg i s of
        Inr (Some m) \<Rightarrow>
          (let forwarded = (case map_of (ms_forwardeds s) i of
                              Some cids \<Rightarrow> is_forwarded c topic_filter grp cids
                            | None \<Rightarrow> False)
           in if forwarded \<or> sm_is_expiry now m
                 \<or> (case mp_target_clientid (sm_publish m) of Some t_cid \<Rightarrow> t_cid \<noteq> c | None \<Rightarrow> False)
              then None else Some (i, sm_from m, sm_publish m))
      | _ \<Rightarrow> None)"

definition ms_get :: "store_lib \<Rightarrow> store_cfg \<Rightarrow> timestamp \<Rightarrow> client_id \<Rightarrow> topic_filter \<Rightarrow> shared_group option \<Rightarrow> msg_store \<Rightarrow>
    store_error + (nat \<times> msg_from \<times> msg_publish) list" where
  "ms_get lib cfg now c topic_filter grp s =
     (case topic_from_str topic_filter of
        Inl e \<Rightarrow> Inl (SErr_Topic e)
      | Inr t \<Rightarrow>
          (let t = (if levels t \<noteq> [] \<and> last (levels t) = MultiWildcard then t else Topic (levels t @ [SingleWildcard]));
               msg_ids = map snd (rn_matches t (ms_topic_tree s))
           in Inr (List.map_filter (wanted lib cfg now c topic_filter grp s) msg_ids)))"

section \<open>Removal of expired messages\<close>

text \<open>The heap: the earliest time first, of equal times the greatest identifier.\<close>

definition exp_before :: "timestamp \<times> nat \<Rightarrow> timestamp \<times> nat \<Rightarrow> bool" where
  "exp_before x y \<longleftrightarrow> fst x < fst y \<or> fst x = fst y \<and> snd x > snd y"

fun exp_peek :: "(timestamp \<times> nat) list \<Rightarrow> (timestamp \<times> nat) option" where
  "exp_peek [] = None"
| "exp_peek (x # xs) = Some (case exp_peek xs of None \<Rightarrow> x | Some y \<Rightarrow> if exp_before y x then y else x)"

lemma exp_peek_in: "exp_peek xs = Some x \<Longrightarrow> x \<in> set xs"
  by (induction xs arbitrary: x) (auto split: option.splits if_splits)

lemma length_remove1_less: "x \<in> set xs \<Longrightarrow> length (remove1 x xs) < length xs"
  by (metis One_nat_def diff_less length_pos_if_in_set length_remove1 zero_less_one)

text \<open>The number and the size of the messages do not change in this loop: the messages are removed after it.\<close>

function pop_expired :: "store_cfg \<Rightarrow> timestamp \<Rightarrow> nat \<Rightarrow> nat \<Rightarrow> nat \<Rightarrow> nat list \<Rightarrow> (timestamp \<times> nat) list \<Rightarrow>
    nat list \<times> (timestamp \<times> nat) list" where
  "pop_expired cfg now max_limit cnt bytes_size removeds expiries =
     (case exp_peek expiries of
        None \<Rightarrow> (removeds, expiries)
      | Some (expiry_time_at, i) \<Rightarrow>
          if length removeds > max_limit then (removeds, expiries)
          else if expiry_time_at > now \<and> \<not> cnt > sc_cache_max_count cfg \<and> \<not> bytes_size > sc_cache_capacity cfg
          then (removeds, expiries)
          else pop_expired cfg now max_limit cnt bytes_size (removeds @ [i])
                 (remove1 (expiry_time_at, i) expiries))"
  by pat_completeness auto
termination
  by (relation "measure (\<lambda>(_, _, _, _, _, _, expiries). length expiries)")
    (auto dest!: exp_peek_in length_remove1_less)

declare pop_expired.simps [simp del]

fun remove_ids :: "store_lib \<Rightarrow> store_cfg \<Rightarrow> nat list \<Rightarrow> msg_store \<Rightarrow> (store_error + unit) \<times> msg_store" where
  "remove_ids lib cfg [] s = (Inr (), s)"
| "remove_ids lib cfg (i # ids) s =
     (case messages_remove lib cfg i s of
        (Inr (Some m), s) \<Rightarrow>
          (case topic_from_str (text_of (pub_topic (mp_inner (sm_publish m)))) of
             Inl e \<Rightarrow> (Inl (SErr_Topic e), s)
           | Inr t \<Rightarrow>
               remove_ids lib cfg ids
                 (s\<lparr>ms_topic_tree := snd (rn_remove (id_topic t i) (ms_topic_tree s)),
                    ms_forwardeds := AList.delete i (ms_forwardeds s)\<rparr>))
      | (_, s) \<Rightarrow> remove_ids lib cfg ids s)"

definition ms_remove_expired :: "store_lib \<Rightarrow> store_cfg \<Rightarrow> timestamp \<Rightarrow> nat \<Rightarrow> msg_store \<Rightarrow> (store_error + nat) \<times> msg_store" where
  "ms_remove_expired lib cfg now max_limit s =
     (let (removed_msg_ids, expiries) =
            pop_expired cfg now max_limit (messages_count cfg s) (messages_bytes_size_get s) [] (ms_expiries s);
          (res, s) = remove_ids lib cfg removed_msg_ids (s\<lparr>ms_expiries := expiries\<rparr>)
      in (map_sum id (\<lambda>_. length removed_msg_ids) res, s))"

text \<open>One round of the second task: removals until one of them stays below its limit. The k-th removal reads the time \<open>clock k\<close>;
  \<open>None\<close> says that the given number of removals was not enough.\<close>

fun sweep_round :: "nat \<Rightarrow> store_lib \<Rightarrow> store_cfg \<Rightarrow> (nat \<Rightarrow> timestamp) \<Rightarrow> nat \<Rightarrow> nat \<Rightarrow> msg_store \<Rightarrow> msg_store option" where
  "sweep_round 0 lib cfg clock k max_limit s = None"
| "sweep_round (Suc fuel) lib cfg clock k max_limit s =
     (let (res, s) = ms_remove_expired lib cfg (clock k) max_limit s;
          removeds = (case res of Inr n \<Rightarrow> n | Inl _ \<Rightarrow> 0)
      in if removeds \<ge> max_limit then sweep_round fuel lib cfg clock (Suc k) max_limit s else Some s)"

section \<open>Identifiers as levels\<close>

lemma of_digit: "k < 10 \<Longrightarrow> of_char (char_of (48 + k) :: char) = (48 + k :: nat)"
  by simp

lemma nat_to_string_value: "foldl (\<lambda>n c. 10 * n + (of_char c - 48)) 0 (nat_to_string n) = (n :: nat)"
proof (induction n rule: nat_to_string.induct)
  case (1 n)
  then show ?case by (subst nat_to_string.simps) simp
qed

lemma nat_to_string_inj: "nat_to_string m = nat_to_string n \<longleftrightarrow> m = n"
  by (metis nat_to_string_value)

lemma nat_to_string_digits: "c \<in> set (nat_to_string n) \<Longrightarrow> 48 \<le> (of_char c :: nat) \<and> (of_char c :: nat) \<le> 57"
proof (induction n rule: nat_to_string.induct)
  case (1 n)
  from "1.prems" show ?case by (subst (asm) nat_to_string.simps) (auto split: if_splits dest: "1.IH" [rotated])
qed

lemma nat_to_string_not_Nil: "nat_to_string n \<noteq> []"
  by (subst nat_to_string.simps) simp

lemma id_level_canonical: "level_canonical (Normal (nat_to_string i))" "\<not> is_wildcard (Normal (nat_to_string i))"
  "\<not> level_is_metadata (Normal (nat_to_string i))" "level_is_valid (Normal (nat_to_string i))"
proof -
  have no: "c \<notin> set (nat_to_string i)" if "(of_char c :: nat) < 48" for c using nat_to_string_digits [of c i] that by auto
  have "CHR ''/'' \<notin> set (nat_to_string i)" "CHR ''+'' \<notin> set (nat_to_string i)" "CHR ''#'' \<notin> set (nat_to_string i)"
    "CHR ''$'' \<notin> set (nat_to_string i)" by (rule no, simp)+
  then show "level_canonical (Normal (nat_to_string i))" "\<not> is_wildcard (Normal (nat_to_string i))"
    "\<not> level_is_metadata (Normal (nat_to_string i))" "level_is_valid (Normal (nat_to_string i))"
    using nat_to_string_not_Nil [of i]
    by (auto simp: level_canonical_def is_wildcard_def str_is_metadata_def contains_wildcard_def list_ex_iff split: list.splits)
qed

section \<open>The table of messages as a list\<close>

text \<open>\<open>table lib cfg s es\<close>: the entries of the table in use, decoded.\<close>

definition table :: "store_lib \<Rightarrow> store_cfg \<Rightarrow> msg_store \<Rightarrow> (nat \<times> stored_message \<times> nat) list \<Rightarrow> bool" where
  "table lib cfg s es \<longleftrightarrow>
     (if sc_encode cfg
      then list_all2 (\<lambda>(i, b, len) (j, m, len'). i = j \<and> len = len' \<and> sl_decode lib b = Inr m) (ms_messages_encode s) es
      else es = ms_messages s)"

lemma table_frame:
  "ms_messages s' = ms_messages s \<Longrightarrow> ms_messages_encode s' = ms_messages_encode s \<Longrightarrow> table lib cfg s' es = table lib cfg s es"
  by (simp only: table_def)

definition msg_of :: "(nat \<times> stored_message \<times> nat) list \<Rightarrow> nat \<Rightarrow> stored_message option" where
  "msg_of es i = map_option fst (map_of es i)"

abbreviation same_entry :: "store_lib \<Rightarrow> nat \<times> bytes \<times> nat \<Rightarrow> nat \<times> stored_message \<times> nat \<Rightarrow> bool" where
  "same_entry lib \<equiv> \<lambda>(i, b, len) (j, m, len'). i = j \<and> len = len' \<and> sl_decode lib b = Inr m"

lemma same_entries_update:
  "list_all2 (same_entry lib) xs es \<Longrightarrow> sl_decode lib b = Inr m \<Longrightarrow>
     list_all2 (same_entry lib) (AList.update i (b, len) xs) (AList.update i (m, len) es)"
  by (induction rule: list_all2_induct) auto

lemma same_entries_delete:
  "list_all2 (same_entry lib) xs es \<Longrightarrow> list_all2 (same_entry lib) (AList.delete i xs) (AList.delete i es)"
  by (induction rule: list_all2_induct) auto

lemma same_entries_lookup:
  "list_all2 (same_entry lib) xs es \<Longrightarrow> map_of es i = map_option (\<lambda>(b, len). (projr (sl_decode lib b), len)) (map_of xs i)"
  "list_all2 (same_entry lib) xs es \<Longrightarrow> map_of xs i = Some (b, len) \<Longrightarrow> \<exists>m. sl_decode lib b = Inr m"
  by (induction rule: list_all2_induct) (auto split: if_splits)

lemma table_get:
  assumes "table lib cfg s es"
  shows "messages_get_async lib cfg i s = Inr (msg_of es i)"
    and "messages_exist cfg i s \<longleftrightarrow> msg_of es i \<noteq> None" and "messages_count cfg s = length es"
proof -
  note enc = assms [unfolded table_def]
  show "messages_get_async lib cfg i s = Inr (msg_of es i)"
  proof (cases "sc_encode cfg")
    case True
    then have "list_all2 (same_entry lib) (ms_messages_encode s) es" using enc by simp
    from same_entries_lookup [OF this, of i] show ?thesis
      using True by (cases "map_of (ms_messages_encode s) i") (auto simp: messages_get_async_def msg_of_def split: prod.splits)
  qed (use enc in \<open>simp add: messages_get_async_def msg_of_def\<close>)
  show "messages_exist cfg i s \<longleftrightarrow> msg_of es i \<noteq> None"
    using enc same_entries_lookup(1) [of lib "ms_messages_encode s" es i]
    by (auto simp: messages_exist_def msg_of_def split: if_splits)
  show "messages_count cfg s = length es"
    using enc by (auto simp: messages_count_def split: if_splits dest: list_all2_lengthD)
qed

lemma delete_absent: "map_of es i = None \<Longrightarrow> AList.delete i es = es"
  by (induction es) (auto split: if_splits)

text \<open>The removal of an entry, with its size.\<close>

definition entry_size :: "(nat \<times> stored_message \<times> nat) list \<Rightarrow> nat \<Rightarrow> nat" where
  "entry_size es i = (case map_of es i of Some (_, len) \<Rightarrow> len | None \<Rightarrow> 0)"

definition total_size :: "(nat \<times> stored_message \<times> nat) list \<Rightarrow> nat" where
  "total_size es = sum_list (map (snd \<circ> snd) es)"

lemma table_remove:
  assumes "table lib cfg s es"
  obtains s' where "messages_remove lib cfg i s = (Inr (msg_of es i), s')" and "table lib cfg s' (AList.delete i es)"
    and "s' = s\<lparr>ms_messages := ms_messages s', ms_messages_encode := ms_messages_encode s',
               ms_bytes := ms_bytes s - int (entry_size es i)\<rparr>"
proof (cases "sc_encode cfg")
  case True
  then have all: "list_all2 (same_entry lib) (ms_messages_encode s) es" using assms by (simp add: table_def)
  show thesis
  proof (cases "map_of (ms_messages_encode s) i")
    case None
    then have "map_of es i = None" using same_entries_lookup(1) [OF all, of i] by simp
    then have "messages_remove lib cfg i s = (Inr (msg_of es i), s)" and "AList.delete i es = es" and "entry_size es i = 0"
      using True None by (simp_all add: messages_remove_def msg_of_def entry_size_def delete_absent)
    then show thesis using assms by (intro that [of s]) simp_all
  next
    case (Some e)
    then obtain b len m where e: "map_of (ms_messages_encode s) i = Some (b, len)" "sl_decode lib b = Inr m"
      using same_entries_lookup(2) [OF all] by (cases e) blast
    then have "map_of es i = Some (m, len)" using same_entries_lookup(1) [OF all, of i] by simp
    then show thesis
      using e True same_entries_delete [OF all, of i]
      by (intro that [of "s\<lparr>ms_messages_encode := AList.delete i (ms_messages_encode s), ms_bytes := ms_bytes s - int len\<rparr>"])
        (simp_all add: messages_remove_def msg_of_def entry_size_def table_def)
  qed
next
  case False
  then have es: "ms_messages s = es" using assms by (simp add: table_def)
  show thesis
  proof (cases "map_of es i")
    case None
    then show thesis using False es assms delete_absent [OF None]
      by (intro that [of s]) (simp_all add: messages_remove_def msg_of_def entry_size_def)
  next
    case (Some e)
    then show thesis using False es
      by (cases e, intro that [of "s\<lparr>ms_messages := AList.delete i es, ms_bytes := ms_bytes s - int (snd e)\<rparr>"])
        (simp_all add: messages_remove_def msg_of_def entry_size_def table_def)
  qed
qed

lemma msg_of_update: "msg_of (AList.update i (m, len) es) = (msg_of es)(i \<mapsto> m)"
  by (auto simp: msg_of_def update_conv')

lemma msg_of_delete: "msg_of (AList.delete i es) = (msg_of es)(i := None)"
  by (auto simp: msg_of_def delete_conv')

lemma msg_of_keys: "msg_of es i = None \<longleftrightarrow> i \<notin> fst ` set es"
  by (simp add: msg_of_def map_of_eq_None_iff)

lemma total_size_new: "msg_of es i = None \<Longrightarrow> total_size (AList.update i (m, len) es) = total_size es + len"
  by (induction es) (auto simp: total_size_def msg_of_def split: if_splits)

lemma total_size_delete: "distinct (map fst es) \<Longrightarrow> total_size es = total_size (AList.delete i es) + entry_size es i"
proof (induction es)
  case (Cons e es)
  obtain j m len where e: "e = (j, m, len)" by (cases e)
  show ?case
  proof (cases "i = j")
    case True
    then have "map_of es i = None" using Cons.prems e by (simp add: map_of_eq_None_iff)
    then show ?thesis using True e by (simp add: delete_absent total_size_def entry_size_def)
  next
    case False
    then show ?thesis using Cons e by (simp add: total_size_def entry_size_def)
  qed
qed (simp add: total_size_def entry_size_def)

section \<open>The tables agree\<close>

definition sm_topic :: "stored_message \<Rightarrow> string" where
  "sm_topic m = text_of (pub_topic (mp_inner (sm_publish m)))"

text \<open>The tree, the recipients and the total size describe the messages.\<close>

definition index_ok :: "(nat \<times> stored_message \<times> nat) list \<Rightarrow> msg_store \<Rightarrow> bool" where
  "index_ok es s \<longleftrightarrow>
     distinct (map fst es) \<and>
     (\<forall>i m. msg_of es i = Some m \<longrightarrow> (\<exists>t. topic_from_str (sm_topic m) = Inr t \<and> plain_name (levels t))) \<and>
     rn_wf (ms_topic_tree s) \<and>
     (\<forall>p i. rn_at (ms_topic_tree s) p = Some i \<longleftrightarrow>
        (\<exists>m t. msg_of es i = Some m \<and> topic_from_str (sm_topic m) = Inr t \<and> p = levels (id_topic t i))) \<and>
     distinct (map fst (ms_forwardeds s)) \<and>
     (\<forall>i cids. map_of (ms_forwardeds s) i = Some cids \<longrightarrow> msg_of es i \<noteq> None \<and> distinct (map fst cids)) \<and>
     ms_bytes s = int (total_size es)"

definition store_inv :: "store_lib \<Rightarrow> store_cfg \<Rightarrow> (nat \<times> stored_message \<times> nat) list \<Rightarrow> msg_store \<Rightarrow> bool" where
  "store_inv lib cfg es s \<longleftrightarrow>
     table lib cfg s es \<and> index_ok es s \<and> distinct (ms_expiries s) \<and>
     set (ms_expiries s) = {(sm_expiry_time_at m, i) |i m. msg_of es i = Some m}"

lemma id_topic_inj: "levels (id_topic t i) = levels (id_topic u j) \<longleftrightarrow> t = u \<and> i = j"
  by (cases t; cases u) (auto simp: id_topic_def nat_to_string_inj)

definition fw_at :: "msg_store \<Rightarrow> nat \<Rightarrow> recipient list" where
  "fw_at s i = (case map_of (ms_forwardeds s) i of Some cids \<Rightarrow> cids | None \<Rightarrow> [])"

text \<open>Adding recipients.\<close>

lemma recipients_distinct: "distinct (map fst cids) \<Longrightarrow> distinct (map fst (fold (\<lambda>(c, opts). AList.update c opts) rs cids))"
  by (induction rs arbitrary: cids) (auto simp: distinct_update)

lemma recipients_lookup:
  "map_of (fold (\<lambda>(c, opts). AList.update c opts) rs cids) = map_of cids ++ map_of (rev rs)"
  by (induction rs arbitrary: cids) (auto simp: update_conv' map_add_def fun_eq_iff split: option.splits)

lemma set_forwardeds_fields [simp]:
  "table lib cfg (set_forwardeds i rs s) es = table lib cfg s es"
  "ms_topic_tree (set_forwardeds i rs s) = ms_topic_tree s" "ms_expiries (set_forwardeds i rs s) = ms_expiries s"
  "ms_bytes (set_forwardeds i rs s) = ms_bytes s" "ms_id_gen (set_forwardeds i rs s) = ms_id_gen s"
  "ms_queue (set_forwardeds i rs s) = ms_queue s"
  by (simp_all add: set_forwardeds_def table_def Let_def)

lemma set_forwardeds_at: "fw_at (set_forwardeds i rs s) j
    = (if j = i then fold (\<lambda>(c, opts). AList.update c opts) rs (fw_at s i) else fw_at s j)"
  by (auto simp: set_forwardeds_def fw_at_def Let_def update_conv')

lemma set_forwardeds_ok:
  assumes "index_ok es s" and "msg_of es i \<noteq> None"
  shows "index_ok es (set_forwardeds i rs s)"
proof -
  have "distinct (map fst (fw_at s i))" using assms(1) by (auto simp: index_ok_def fw_at_def split: option.splits)
  from recipients_distinct [OF this, of rs] show ?thesis
    using assms by (auto simp: index_ok_def set_forwardeds_def fw_at_def Let_def distinct_update update_conv')
qed

lemma index_fw: "index_ok es s \<Longrightarrow> msg_of es i = None \<Longrightarrow> map_of (ms_forwardeds s) i = None"
  unfolding index_ok_def by (metis not_None_eq)

text \<open>A new message.\<close>

lemma index_message_fields [simp]:
  "table lib cfg (index_message t at i len rs s) es = table lib cfg s es"
  "ms_expiries (index_message t at i len rs s) = (at, i) # ms_expiries s"
  "ms_id_gen (index_message t at i len rs s) = ms_id_gen s" "ms_queue (index_message t at i len rs s) = ms_queue s"
  by (cases rs; simp add: index_message_def Let_def table_def set_forwardeds_def)+

lemma index_message_ok:
  assumes ok: "index_ok es s" and new: "msg_of es i = None" and t: "topic_from_str (sm_topic m) = Inr t" "plain_name (levels t)"
  shows "index_ok (AList.update i (m, len) es) (index_message (id_topic t i) (sm_expiry_time_at m) i len rs s)"
    and "fw_at (index_message (id_topic t i) (sm_expiry_time_at m) i len rs s) j
      = (if j = i then fold (\<lambda>(c, opts). AList.update c opts) (case rs of Some r \<Rightarrow> r | None \<Rightarrow> []) [] else fw_at s j)"
proof -
  let ?es = "AList.update i (m, len) es"
  let ?s = "s\<lparr>ms_bytes := ms_bytes s + int len, ms_topic_tree := rn_insert (id_topic t i) i (ms_topic_tree s),
                ms_expiries := (sm_expiry_time_at m, i) # ms_expiries s\<rparr>"
  note none = index_fw [OF ok new]
  have at: "rn_at (ms_topic_tree s) p \<noteq> Some i" for p using ok new by (auto simp: index_ok_def)
  have "rn_at (ms_topic_tree ?s) p = Some j \<longleftrightarrow>
      (\<exists>m' u. msg_of ?es j = Some m' \<and> topic_from_str (sm_topic m') = Inr u \<and> p = levels (id_topic u j))" for p j
  proof (cases "p = levels (id_topic t i)")
    case True
    then show ?thesis
      using t id_topic_inj [of t i] by (auto simp: rn_insert_def rn_insert_at msg_of_update)
  next
    case False
    then have "rn_at (ms_topic_tree ?s) p = rn_at (ms_topic_tree s) p" by (simp add: rn_insert_def rn_insert_at)
    also have "\<dots> = Some j \<longleftrightarrow>
        (\<exists>m' u. msg_of es j = Some m' \<and> topic_from_str (sm_topic m') = Inr u \<and> p = levels (id_topic u j))"
      using ok by (simp add: index_ok_def)
    finally show ?thesis using False new t by (cases "j = i") (auto simp: msg_of_update)
  qed
  then have s: "index_ok ?es ?s"
    using ok t new by (auto simp: index_ok_def distinct_update msg_of_update rn_insert_def rn_insert_wf total_size_new)
  have "msg_of ?es i \<noteq> None" by (simp add: msg_of_update)
  from set_forwardeds_ok [OF s this] s
  show "index_ok ?es (index_message (id_topic t i) (sm_expiry_time_at m) i len rs s)"
    by (simp add: index_message_def Let_def split: option.splits)
  show "fw_at (index_message (id_topic t i) (sm_expiry_time_at m) i len rs s) j
      = (if j = i then fold (\<lambda>(c, opts). AList.update c opts) (case rs of Some r \<Rightarrow> r | None \<Rightarrow> []) [] else fw_at s j)"
    using none by (auto simp: index_message_def Let_def set_forwardeds_at split: option.splits) (simp_all add: fw_at_def)
qed

text \<open>Removals.\<close>

lemma index_remove_ok:
  assumes ok: "index_ok es s" and m: "msg_of es i = Some m" and t: "topic_from_str (sm_topic m) = Inr t"
  shows "index_ok (AList.delete i es)
    (s\<lparr>ms_bytes := ms_bytes s - int (entry_size es i), ms_topic_tree := snd (rn_remove (id_topic t i) (ms_topic_tree s)),
       ms_forwardeds := AList.delete i (ms_forwardeds s)\<rparr>)"
proof -
  let ?n = "snd (rn_remove (id_topic t i) (ms_topic_tree s))"
  have "rn_at ?n p = Some j \<longleftrightarrow>
      (\<exists>m' u. msg_of (AList.delete i es) j = Some m' \<and> topic_from_str (sm_topic m') = Inr u \<and> p = levels (id_topic u j))" for p j
  proof -
    have "rn_at ?n p = Some j \<longleftrightarrow> p \<noteq> levels (id_topic t i) \<and> rn_at (ms_topic_tree s) p = Some j"
      by (simp add: rn_remove_def rn_remove_at)
    also have "\<dots> \<longleftrightarrow> p \<noteq> levels (id_topic t i) \<and>
        (\<exists>m' u. msg_of es j = Some m' \<and> topic_from_str (sm_topic m') = Inr u \<and> p = levels (id_topic u j))"
      using ok by (simp add: index_ok_def)
    finally show ?thesis using m t by (cases "j = i") (auto simp: msg_of_delete id_topic_inj)
  qed
  moreover have "total_size es = total_size (AList.delete i es) + entry_size es i"
    using ok by (intro total_size_delete) (simp add: index_ok_def)
  moreover have "map_of (AList.delete i (ms_forwardeds s)) j = Some cids \<Longrightarrow>
      msg_of (AList.delete i es) j \<noteq> None \<and> distinct (map fst cids)" for j cids
    using ok unfolding index_ok_def by (simp add: delete_conv' msg_of_delete split: if_splits)
  ultimately show ?thesis
    using ok unfolding index_ok_def
    by (auto simp: distinct_delete msg_of_delete rn_remove_def rn_remove_wf simp del: map_of_eq_Some_iff)
qed

lemma delete_length: "distinct (map fst es) \<Longrightarrow> map_of es i = Some v \<Longrightarrow> length es = Suc (length (AList.delete i es))"
proof (induction es)
  case (Cons e es)
  show ?case
  proof (cases "i = fst e")
    case True
    then have "map_of es i = None" using Cons.prems by (simp add: map_of_eq_None_iff)
    then show ?thesis using True by (cases e) (simp add: delete_absent)
  next
    case False
    then show ?thesis using Cons by (cases e) simp
  qed
qed simp

lemma index_topic: "index_ok es s \<Longrightarrow> msg_of es i = Some m \<Longrightarrow> \<exists>t. topic_from_str (sm_topic m) = Inr t \<and> plain_name (levels t)"
  unfolding index_ok_def by blast

lemma remove_ids_correct:
  assumes "table lib cfg s es" and "index_ok es s" and "distinct ids" and "\<forall>i \<in> set ids. msg_of es i \<noteq> None"
  shows "\<exists>es' s'. remove_ids lib cfg ids s = (Inr (), s') \<and> table lib cfg s' es' \<and> index_ok es' s' \<and>
    msg_of es' = (\<lambda>i. if i \<in> set ids then None else msg_of es i) \<and> length es = length es' + length ids \<and>
    fw_at s' = (\<lambda>i. if i \<in> set ids then [] else fw_at s i) \<and>
    ms_expiries s' = ms_expiries s \<and> ms_id_gen s' = ms_id_gen s \<and> ms_queue s' = ms_queue s"
  using assms
proof (induction ids arbitrary: es s)
  case (Cons i ids)
  from Cons.prems obtain m where m: "msg_of es i = Some m" by auto
  from index_topic [OF Cons.prems(2) m] obtain t where t: "topic_from_str (sm_topic m) = Inr t" by blast
  obtain s1 where s1: "messages_remove lib cfg i s = (Inr (Some m), s1)" "table lib cfg s1 (AList.delete i es)"
    and eq: "s1 = s\<lparr>ms_messages := ms_messages s1, ms_messages_encode := ms_messages_encode s1,
               ms_bytes := ms_bytes s - int (entry_size es i)\<rparr>"
    using table_remove [OF Cons.prems(1), of i] m by metis
  define s2 where "s2 = s1\<lparr>ms_topic_tree := snd (rn_remove (id_topic t i) (ms_topic_tree s1)),
                    ms_forwardeds := AList.delete i (ms_forwardeds s1)\<rparr>"
  have step: "remove_ids lib cfg (i # ids) s = remove_ids lib cfg ids s2"
    using s1(1) t by (simp add: s2_def sm_topic_def)
  have fields: "ms_topic_tree s1 = ms_topic_tree s" "ms_forwardeds s1 = ms_forwardeds s" "ms_expiries s1 = ms_expiries s"
    "ms_id_gen s1 = ms_id_gen s" "ms_queue s1 = ms_queue s" "ms_bytes s1 = ms_bytes s - int (entry_size es i)"
    by (subst eq, simp)+
  have t2: "table lib cfg s2 (AList.delete i es)" using s1(2) table_frame [of s2 s1] by (simp add: s2_def)
  have i2: "index_ok (AList.delete i es) s2"
    using index_remove_ok [OF Cons.prems(2) m t] by (simp add: index_ok_def s2_def fields)
  have "\<forall>j \<in> set ids. msg_of (AList.delete i es) j \<noteq> None"
    using Cons.prems(3,4) by (auto simp: msg_of_delete)
  from Cons.IH [OF t2 i2 _ this] Cons.prems(3) obtain es' s' where s':
    "remove_ids lib cfg ids s2 = (Inr (), s')" "table lib cfg s' es'" "index_ok es' s'"
    "msg_of es' = (\<lambda>j. if j \<in> set ids then None else msg_of (AList.delete i es) j)"
    "length (AList.delete i es) = length es' + length ids"
    "fw_at s' = (\<lambda>j. if j \<in> set ids then [] else fw_at s2 j)"
    "ms_expiries s' = ms_expiries s2" "ms_id_gen s' = ms_id_gen s2" "ms_queue s' = ms_queue s2"
    by auto
  have "length es = Suc (length (AList.delete i es))"
    using Cons.prems(2) m delete_length [of es i] by (auto simp: index_ok_def msg_of_def)
  moreover have "fw_at s2 j = (if j = i then [] else fw_at s j)" for j
    by (auto simp: fw_at_def s2_def fields delete_conv')
  ultimately show ?case
    using s' by (intro exI [of _ es'] exI [of _ s'])
      (auto simp: step msg_of_delete s2_def fields fun_eq_iff simp del: remove_ids.simps)
qed auto

text \<open>The loop over the heap. \<open>over\<close> says that a limit of the store is exceeded.\<close>

lemma exp_peek_least: "exp_peek xs = Some x \<Longrightarrow> y \<in> set xs \<Longrightarrow> fst x \<le> fst y"
proof (induction xs arbitrary: x y)
  case (Cons z zs)
  show ?case
  proof (cases "exp_peek zs")
    case None
    then have "zs = []" by (cases zs) auto
    then show ?thesis using Cons.prems by simp
  next
    case (Some w)
    have "fst w \<le> fst y \<or> y = z" using Cons.IH [OF Some, of y] Cons.prems(2) by auto
    then show ?thesis using Cons.prems(1) Some by (auto simp: exp_before_def split: if_splits)
  qed
qed simp

definition over_limit :: "store_cfg \<Rightarrow> nat \<Rightarrow> nat \<Rightarrow> bool" where
  "over_limit cfg cnt sz \<longleftrightarrow> cnt > sc_cache_max_count cfg \<or> sz > sc_cache_capacity cfg"

lemma pop_expired_correct:
  assumes "pop_expired cfg now max_limit cnt sz removeds xs = (rem, rest)"
  shows "\<exists>popped. rem = removeds @ map snd popped \<and> mset xs = mset popped + mset rest \<and>
    (over_limit cfg cnt sz \<or> (\<forall>x \<in> set popped. fst x \<le> now)) \<and>
    length rem \<le> max (length removeds) (Suc max_limit) \<and>
    (length rem \<le> max_limit \<longrightarrow> (\<forall>x \<in> set rest. fst x > now \<and> \<not> over_limit cfg cnt sz))"
  using assms
proof (induction cfg now max_limit cnt sz removeds xs rule: pop_expired.induct)
  case (1 cfg now max_limit cnt sz removeds xs)
  show ?case
  proof (cases "exp_peek xs")
    case None
    then have "xs = []" by (cases xs) auto
    then show ?thesis using "1.prems" by (simp add: pop_expired.simps)
  next
    case (Some x)
    obtain a i where x: "x = (a, i)" by fastforce
    let ?stop = "a > now \<and> \<not> cnt > sc_cache_max_count cfg \<and> \<not> sz > sc_cache_capacity cfg"
    consider (full) "length removeds > max_limit" | (stop) "\<not> length removeds > max_limit" "?stop"
      | (pop) "\<not> length removeds > max_limit" "\<not> ?stop" by blast
    then show ?thesis
    proof cases
      case full
      then show ?thesis using "1.prems" Some x by (subst (asm) pop_expired.simps) simp
    next
      case stop
      then have "rem = removeds" "rest = xs" using "1.prems" Some x by (subst (asm) pop_expired.simps, simp)+
      moreover have "now < fst y" if "y \<in> set xs" for y using exp_peek_least [OF Some that] stop(2) x by simp
      ultimately show ?thesis using stop by (intro exI [of _ "[]"]) (auto simp: over_limit_def)
    next
      case pop
      then have "pop_expired cfg now max_limit cnt sz (removeds @ [i]) (remove1 (a, i) xs) = (rem, rest)"
        using "1.prems" Some x by (subst (asm) pop_expired.simps) (auto split: if_splits)
      from "1.IH" [OF Some x [symmetric] pop this] obtain popped where IH:
        "rem = (removeds @ [i]) @ map snd popped" "mset (remove1 (a, i) xs) = mset popped + mset rest"
        "over_limit cfg cnt sz \<or> (\<forall>x \<in> set popped. fst x \<le> now)"
        "length rem \<le> max (length (removeds @ [i])) (Suc max_limit)"
        "length rem \<le> max_limit \<longrightarrow> (\<forall>x \<in> set rest. fst x > now \<and> \<not> over_limit cfg cnt sz)" by blast
      have "mset xs = add_mset (a, i) (mset (remove1 (a, i) xs))"
        using exp_peek_in [OF Some] x by simp
      then have "mset xs = mset ((a, i) # popped) + mset rest" using IH(2) by simp
      moreover have "over_limit cfg cnt sz \<or> (\<forall>x \<in> set ((a, i) # popped). fst x \<le> now)"
        using pop(2) IH(3) by (auto simp: over_limit_def)
      moreover have "length rem \<le> max (length removeds) (Suc max_limit)" using IH(4) pop(1) by simp
      moreover have "rem = removeds @ map snd ((a, i) # popped)" using IH(1) by simp
      ultimately show ?thesis using IH(5) by blast
    qed
  qed
qed

lemma index_frame [simp]: "index_ok es (s\<lparr>ms_expiries := x\<rparr>) = index_ok es s"
  by (simp add: index_ok_def)

lemma table_expiries [simp]: "table lib cfg (s\<lparr>ms_expiries := x\<rparr>) es = table lib cfg s es"
  by (rule table_frame) simp_all

lemma ms_remove_expired_correct:
  assumes inv: "store_inv lib cfg es s" and rem: "ms_remove_expired lib cfg now max_limit s = (res, s')"
  shows "\<exists>es' ids. res = Inr (length ids) \<and> store_inv lib cfg es' s' \<and> distinct ids \<and>
    length es = length es' + length ids \<and> length ids \<le> Suc max_limit \<and>
    msg_of es' = (\<lambda>i. if i \<in> set ids then None else msg_of es i) \<and> fw_at s' = (\<lambda>i. if i \<in> set ids then [] else fw_at s i) \<and>
    ms_id_gen s' = ms_id_gen s \<and> ms_queue s' = ms_queue s \<and>
    (\<forall>i \<in> set ids. \<exists>m. msg_of es i = Some m \<and>
       (over_limit cfg (length es) (messages_bytes_size_get s) \<or> sm_expiry_time_at m \<le> now)) \<and>
    (length ids \<le> max_limit \<longrightarrow> (\<forall>i m. msg_of es' i = Some m \<longrightarrow>
       sm_expiry_time_at m > now \<and> \<not> over_limit cfg (length es) (messages_bytes_size_get s)))"
proof -
  let ?over = "over_limit cfg (length es) (messages_bytes_size_get s)"
  have t: "table lib cfg s es" and ok: "index_ok es s" and d: "distinct (ms_expiries s)"
    and exp: "set (ms_expiries s) = {(sm_expiry_time_at m, i) |i m. msg_of es i = Some m}"
    using inv by (auto simp: store_inv_def)
  obtain ids rest where pop: "pop_expired cfg now max_limit (messages_count cfg s) (messages_bytes_size_get s) [] (ms_expiries s) = (ids, rest)"
    by fastforce
  from pop_expired_correct [OF this] obtain popped where popped: "ids = map snd popped" "mset (ms_expiries s) = mset popped + mset rest"
    "?over \<or> (\<forall>x \<in> set popped. fst x \<le> now)" "length ids \<le> Suc max_limit"
    "length ids \<le> max_limit \<longrightarrow> (\<forall>x \<in> set rest. fst x > now \<and> \<not> ?over)"
    unfolding table_get(3) [OF t] by auto
  have set: "set (ms_expiries s) = set popped \<union> set rest" using arg_cong [OF popped(2), of set_mset] by simp
  have "distinct (popped @ rest)" using d mset_eq_imp_distinct_iff [of "ms_expiries s" "popped @ rest"] popped(2) by simp
  then have dp: "distinct popped" "distinct rest" "set popped \<inter> set rest = {}" by auto
  have mem: "(a, i) \<in> set popped \<union> set rest \<longleftrightarrow> (\<exists>m. msg_of es i = Some m \<and> a = sm_expiry_time_at m)" for a i
    unfolding set [symmetric] exp by auto
  have same: "a = b" if "(a, i) \<in> set popped \<union> set rest" "(b, i) \<in> set popped \<union> set rest" for a b i
    using that mem [of a i] mem [of b i] by auto
  have "inj_on snd (set popped)"
  proof (rule inj_onI)
    fix x y assume xy: "x \<in> set popped" "y \<in> set popped" "snd x = snd y"
    obtain a i b j where "x = (a, i)" "y = (b, j)" by (metis prod.collapse)
    then show "x = y" using same [of a i b] xy by simp
  qed
  then have dids: "distinct ids" using dp(1) by (simp add: popped(1) distinct_map)
  have disj: "i \<notin> set ids" if "(a, i) \<in> set rest" for a i
  proof
    assume "i \<in> set ids"
    then obtain b where "(b, i) \<in> set popped" by (auto simp: popped(1))
    then show False using same [of a i b] that dp(3) by auto
  qed
  have stored: "\<exists>a m. (a, i) \<in> set popped \<and> msg_of es i = Some m \<and> a = sm_expiry_time_at m" if "i \<in> set ids" for i
  proof -
    from that obtain a where "(a, i) \<in> set popped" by (auto simp: popped(1))
    then show ?thesis using mem [of a i] by auto
  qed
  then have "\<forall>i \<in> set ids. msg_of es i \<noteq> None" by fastforce
  from remove_ids_correct [of lib cfg "s\<lparr>ms_expiries := rest\<rparr>" es ids, unfolded table_expiries index_frame, OF t ok dids this]
  obtain es' s1 where s1: "remove_ids lib cfg ids (s\<lparr>ms_expiries := rest\<rparr>) = (Inr (), s1)" "table lib cfg s1 es'" "index_ok es' s1"
    "msg_of es' = (\<lambda>i. if i \<in> set ids then None else msg_of es i)" "length es = length es' + length ids"
    "fw_at s1 = (\<lambda>i. if i \<in> set ids then [] else fw_at (s\<lparr>ms_expiries := rest\<rparr>) i)"
    "ms_expiries s1 = rest" "ms_id_gen s1 = ms_id_gen s" "ms_queue s1 = ms_queue s"
    by auto
  have s': "s' = s1" and res: "res = Inr (length ids)"
    using rem pop s1(1) by (auto simp: ms_remove_expired_def)
  have rest: "(a, i) \<in> set rest \<longleftrightarrow> (\<exists>m. msg_of es' i = Some m \<and> a = sm_expiry_time_at m)" for a i
  proof -
    have "(a, i) \<in> set popped \<Longrightarrow> i \<in> set ids" by (force simp: popped(1))
    then show ?thesis using mem [of a i] disj [of a i] by (auto simp: s1(4))
  qed
  have "set rest = {(sm_expiry_time_at m, i) |i m. msg_of es' i = Some m}"
    by (rule set_eqI) (auto simp: rest)
  then have inv': "store_inv lib cfg es' s1" using s1(2,3,7) dp(2) by (simp only: store_inv_def simp_thms)
  have old: "\<forall>i \<in> set ids. \<exists>m. msg_of es i = Some m \<and> (?over \<or> sm_expiry_time_at m \<le> now)"
  proof
    fix i assume "i \<in> set ids"
    with stored obtain m where "(sm_expiry_time_at m, i) \<in> set popped" "msg_of es i = Some m" by blast
    then show "\<exists>m. msg_of es i = Some m \<and> (?over \<or> sm_expiry_time_at m \<le> now)" using popped(3) by auto
  qed
  have left: "length ids \<le> max_limit \<longrightarrow> (\<forall>i m. msg_of es' i = Some m \<longrightarrow> sm_expiry_time_at m > now \<and> \<not> ?over)"
  proof (intro impI allI)
    fix i m assume "length ids \<le> max_limit" "msg_of es' i = Some m"
    then have "(sm_expiry_time_at m, i) \<in> set rest" using rest by blast
    then show "sm_expiry_time_at m > now \<and> \<not> ?over" using popped(5) \<open>length ids \<le> max_limit\<close> by auto
  qed
  have "fw_at (s\<lparr>ms_expiries := rest\<rparr>) = fw_at s" by (simp add: fw_at_def fun_eq_iff)
  then have fw: "fw_at s1 = (\<lambda>i. if i \<in> set ids then [] else fw_at s i)" using s1(6) by (simp cong del: if_weak_cong)
  show ?thesis
    unfolding s' by (rule exI [of _ es'], rule exI [of _ ids], intro conjI) (fact s1 res inv' dids popped fw old left)+
qed

section \<open>What a lookup finds\<close>

text \<open>The filter as it is looked up in the tree.\<close>

definition lookup_filter :: "topic \<Rightarrow> topic" where
  "lookup_filter t = (if levels t \<noteq> [] \<and> last (levels t) = MultiWildcard then t else Topic (levels t @ [SingleWildcard]))"

text \<open>The names that a lookup finds: those that the filter matches, and one level too few for a filter whose last two levels
  are \<open>+/#\<close>, or the number of the message and \<open>#\<close>. The level with which the store extends a name stands
  there for a level of the name.\<close>

definition stray :: "level list \<Rightarrow> nat \<Rightarrow> bool" where
  "stray f i \<longleftrightarrow> 2 \<le> length f \<and> last f = MultiWildcard \<and>
     (last (butlast f) = SingleWildcard \<or> last (butlast f) = Normal (nat_to_string i))"

definition lookup_finds :: "level list \<Rightarrow> nat \<Rightarrow> string \<Rightarrow> bool" where
  "lookup_finds f i name \<longleftrightarrow> mqtt_match f (split_slash name) \<or>
     stray f i \<and> mqtt_match (butlast (butlast f)) (split_slash name)"

lemma path_match_length: "MultiWildcard \<notin> set f \<Longrightarrow> path_match f p \<Longrightarrow> length p = length f"
  by (induction f p rule: path_match.induct) (auto split: list.splits)

lemma path_match_Nil [simp]: "path_match [] p \<longleftrightarrow> p = []"
  by (cases p) auto

lemma path_match_snoc:
  "MultiWildcard \<notin> set f \<Longrightarrow> x \<noteq> MultiWildcard \<Longrightarrow> path_match (f @ [x]) (p @ [l]) \<longleftrightarrow> path_match f p \<and> (x = SingleWildcard \<or> x = l)"
proof (induction f arbitrary: p)
  case Nil
  then show ?case by (cases p) auto
next
  case (Cons y f)
  then show ?case by (cases p) (auto simp: Cons_eq_append_conv)
qed

lemma path_match_hash:
  "MultiWildcard \<notin> set g \<Longrightarrow> path_match (g @ [MultiWildcard]) q \<longleftrightarrow> length g \<le> length q \<and> path_match g (take (length g) q)"
proof (induction g arbitrary: q)
  case Nil
  then show ?case by simp
next
  case (Cons y g)
  then show ?case by (cases q) auto
qed

lemma multi_last_butlast:
  assumes "multi_last (f @ g)" and "g \<noteq> []" shows "MultiWildcard \<notin> set f"
  using assms by (induction f) (auto split: if_splits)

lemma multi_last_last:
  "multi_last f \<Longrightarrow> f \<noteq> [] \<Longrightarrow> last f \<noteq> MultiWildcard \<Longrightarrow> MultiWildcard \<notin> set f"
  by (induction f) (auto split: if_splits)

lemma path_match_extended:
  assumes "multi_last f" and "f \<noteq> []"
  shows "path_match (levels (lookup_filter (Topic f))) (p @ [Normal (nat_to_string i)]) \<longleftrightarrow>
    path_match f p \<or> stray f i \<and> path_match (butlast (butlast f)) p"
proof (cases "last f = MultiWildcard")
  case True
  then obtain g where g: "f = g @ [MultiWildcard]" using assms(2) by (metis append_butlast_last_id)
  then have no: "MultiWildcard \<notin> set g" using assms(1) multi_last_butlast [of g "[MultiWildcard]"] by simp
  let ?q = "p @ [Normal (nat_to_string i)]"
  have short: "path_match g ?q \<longleftrightarrow> stray f i \<and> path_match (butlast g) p"
  proof (cases g rule: rev_cases)
    case (snoc h x)
    then have "stray f i \<longleftrightarrow> x = SingleWildcard \<or> x = Normal (nat_to_string i)" by (simp add: g stray_def butlast_append)
    then show ?thesis using no snoc path_match_snoc [of h x p] by auto
  qed (simp add: g stray_def)
  have "path_match (g @ [MultiWildcard]) ?q \<longleftrightarrow> path_match (g @ [MultiWildcard]) p \<or> path_match g ?q"
  proof (cases "length g \<le> length p")
    case True
    then have "\<not> path_match g ?q" using path_match_length [OF no, of ?q] by auto
    with True show ?thesis by (simp add: path_match_hash [OF no])
  next
    case False
    have "length g \<noteq> Suc (length p) \<Longrightarrow> \<not> path_match g ?q" using path_match_length [OF no, of ?q] by auto
    with False show ?thesis by (cases "length g = Suc (length p)") (simp_all add: path_match_hash [OF no])
  qed
  then show ?thesis using g short by (simp add: lookup_filter_def butlast_append)
next
  case False
  then show ?thesis using assms multi_last_last [of f] by (simp add: lookup_filter_def path_match_snoc stray_def)
qed

lemma multi_last_lookup:
  assumes "multi_last (levels f)" shows "multi_last (levels (lookup_filter f))"
proof -
  have "multi_last h \<Longrightarrow> h = [] \<or> last h \<noteq> MultiWildcard \<Longrightarrow> multi_last (h @ [SingleWildcard])" for h
    by (induction h) (auto split: if_splits)
  then show ?thesis using assms by (auto simp: lookup_filter_def)
qed

lemma levels_ok_butlast: "levels_ok f \<Longrightarrow> levels_ok (butlast f)"
proof -
  have "inner_ok g \<Longrightarrow> inner_ok (butlast g)" for g by (induction g) auto
  then show "levels_ok f \<Longrightarrow> levels_ok (butlast f)" by (cases f) auto
qed

lemma list_all_butlast: "list_all P xs \<Longrightarrow> list_all P (butlast xs)"
  by (auto simp: list_all_iff dest: in_set_butlastD)

lemma lookup_standard:
  assumes f: "topic_from_str flt = Inr f" and t: "topic_from_str name = Inr t" "plain_name (levels t)"
  shows "root_match [] (levels (lookup_filter f)) (levels (id_topic t i)) \<longleftrightarrow> lookup_finds (levels f) i name"
proof -
  let ?g = "butlast (butlast (levels f))"
  have lf: "levels_ok (levels f)" "list_all level_canonical (levels f)" "levels f \<noteq> []"
    using f by (auto simp: topic_from_str_levels topic_is_valid_levels)
  have lt: "levels t \<noteq> []" "list_all level_canonical (levels t)" "topic_to_string t = name"
    using t(1) by (auto simp: topic_from_str_levels)
  have hd: "hd (levels (lookup_filter f)) = hd (levels f)" "levels (lookup_filter f) \<noteq> []" using lf(3) by (auto simp: lookup_filter_def)
  have "hd ?g = hd (levels f) \<and> ?g \<noteq> []" if "path_match ?g (levels t)"
    using that lt(1) by (cases "levels f" rule: rev_cases; cases "butlast (levels f)" rule: rev_cases) (auto simp: butlast_append hd_append)
  then have "root_match [] (levels (lookup_filter f)) (levels (id_topic t i)) \<longleftrightarrow>
      root_match [] (levels f) (levels t) \<or> stray (levels f) i \<and> root_match [] ?g (levels t)"
    using path_match_extended [OF levels_ok_multi_last [OF lf(1)] lf(3), of "levels t" i] hd lt(1) lf(3)
    by (auto simp: root_match_def id_topic_def)
  also have "\<dots> \<longleftrightarrow> mqtt_match (levels f) (map level_to_string (levels t)) \<or>
      stray (levels f) i \<and> mqtt_match ?g (map level_to_string (levels t))"
    using root_match_standard [OF lf(1,2) lt(2)] t(2) lf
      root_match_standard [OF levels_ok_butlast [OF levels_ok_butlast] list_all_butlast [OF list_all_butlast] lt(2), of "levels f"]
    by (simp add: plain_name_def)
  also have "map level_to_string (levels t) = split_slash name" using split_to_string [OF lt(1,2)] lt(3) by simp
  finally show ?thesis by (simp add: lookup_finds_def)
qed

text \<open>The identifiers that the tree yields.\<close>

lemma lookup_ids:
  assumes ok: "index_ok es s" and f: "topic_from_str flt = Inr f"
  shows "distinct (map snd (rn_matches (lookup_filter f) (ms_topic_tree s)))"
    and "snd ` set (rn_matches (lookup_filter f) (ms_topic_tree s))
      = {i. \<exists>m. msg_of es i = Some m \<and> lookup_finds (levels f) i (sm_topic m)}"
proof -
  let ?n = "ms_topic_tree s" and ?f = "levels (lookup_filter f)"
  have wf: "rn_wf ?n" using ok by (simp add: index_ok_def)
  have at: "rn_at ?n p = Some i \<longleftrightarrow> (\<exists>m t. msg_of es i = Some m \<and> topic_from_str (sm_topic m) = Inr t \<and> p = levels (id_topic t i))" for p i
    using ok by (simp add: index_ok_def)
  have plain: "plain_name p" if "rn_at ?n p = Some i" for p i
    using that index_topic [OF ok] id_level_canonical(2) [of i] unfolding at by (fastforce simp: id_topic_def plain_name_def)
  then have rp: "rn_plain ?n" by (intro rn_plain_dom [OF wf]) (auto simp: rn_dom_def)
  have ml: "multi_last ?f"
    using f by (intro multi_last_lookup levels_ok_multi_last) (auto simp: topic_from_str_levels topic_is_valid_levels)
  have set: "set (rn_matches (lookup_filter f) ?n) = hits ?n [] (\<lambda>p. root_match [] ?f p \<and> \<not> (p = [] \<and> ?f = [MultiWildcard]))"
    unfolding rn_matches_def by (rule rn_matches_set [OF wf rp ml])
  have one: "p = q" if "rn_at ?n p = Some i" "rn_at ?n q = Some i" for p q i using that unfolding at by auto
  have "distinct (map fst (rn_matches (lookup_filter f) ?n))" unfolding rn_matches_def by (rule rn_matches_distinct [OF wf rp ml])
  moreover have "inj_on snd (set (rn_matches (lookup_filter f) ?n))" unfolding set hits_def inj_on_def using one by auto
  ultimately show "distinct (map snd (rn_matches (lookup_filter f) ?n))" by (simp add: distinct_map)
  show "snd ` set (rn_matches (lookup_filter f) ?n) = {i. \<exists>m. msg_of es i = Some m \<and> lookup_finds (levels f) i (sm_topic m)}"
    (is "_ = ?R")
  proof (intro set_eqI iffI)
    fix i assume "i \<in> snd ` set (rn_matches (lookup_filter f) ?n)"
    then obtain p where p: "rn_at ?n p = Some i" "root_match [] ?f p" unfolding set hits_def by auto
    then obtain m t where m: "msg_of es i = Some m" "topic_from_str (sm_topic m) = Inr t" "p = levels (id_topic t i)" unfolding at by auto
    have "plain_name (levels t)" using index_topic [OF ok m(1)] m(2) by simp
    from lookup_standard [OF f m(2) this, of i] p(2) m show "i \<in> ?R" by auto
  next
    fix i assume "i \<in> ?R"
    then obtain m where m: "msg_of es i = Some m" "lookup_finds (levels f) i (sm_topic m)" by auto
    from index_topic [OF ok m(1)] obtain t where t: "topic_from_str (sm_topic m) = Inr t" "plain_name (levels t)" by blast
    have "rn_at ?n (levels (id_topic t i)) = Some i" unfolding at using m(1) t(1) by blast
    moreover have "root_match [] ?f (levels (id_topic t i))" using lookup_standard [OF f t, of i] m(2) by simp
    ultimately have "(id_topic t i, i) \<in> hits ?n [] (\<lambda>p. root_match [] ?f p \<and> \<not> (p = [] \<and> ?f = [MultiWildcard]))"
      unfolding hits_def by (intro CollectI exI [of _ "levels (id_topic t i)"] exI [of _ i]) (auto simp: id_topic_def)
    then show "i \<in> snd ` set (rn_matches (lookup_filter f) ?n)" unfolding set by force
  qed
qed

text \<open>\<open>due\<close>: a message that the client is to get.\<close>

definition due :: "timestamp \<Rightarrow> client_id \<Rightarrow> topic_filter \<Rightarrow> shared_group option \<Rightarrow> recipient list \<Rightarrow> stored_message \<Rightarrow> bool" where
  "due now c topic_filter grp cids m \<longleftrightarrow>
     \<not> is_forwarded c topic_filter grp cids \<and> \<not> sm_is_expiry now m \<and>
     (case mp_target_clientid (sm_publish m) of Some t_cid \<Rightarrow> t_cid = c | None \<Rightarrow> True)"

lemma wanted_iff:
  assumes "table lib cfg s es"
  shows "wanted lib cfg now c flt grp s i = (case msg_of es i of
    Some m \<Rightarrow> if due now c flt grp (fw_at s i) m then Some (i, sm_from m, sm_publish m) else None | None \<Rightarrow> None)"
  using table_get(1) [OF assms, of i]
  by (auto simp: wanted_def due_def fw_at_def is_forwarded_def split: option.splits)

lemma ms_get_exact:
  assumes inv: "store_inv lib cfg es s" and f: "topic_from_str flt = Inr f"
  shows "\<exists>xs. ms_get lib cfg now c flt grp s = Inr xs \<and> distinct (map fst xs) \<and>
    set xs = {(i, sm_from m, sm_publish m) |i m. msg_of es i = Some m \<and> lookup_finds (levels f) i (sm_topic m) \<and>
      due now c flt grp (fw_at s i) m}"
proof -
  let ?ids = "map snd (rn_matches (lookup_filter f) (ms_topic_tree s))" and ?w = "wanted lib cfg now c flt grp s"
  have t: "table lib cfg s es" and ok: "index_ok es s" using inv by (auto simp: store_inv_def)
  note ids = lookup_ids [OF ok f]
  have get: "ms_get lib cfg now c flt grp s = Inr (List.map_filter ?w ?ids)"
    using f by (simp add: ms_get_def lookup_filter_def Let_def)
  have "?w i = Some x \<Longrightarrow> fst x = i" for i x by (auto simp: wanted_iff [OF t] split: option.splits if_splits)
  then have "map fst (List.map_filter ?w is) = filter (\<lambda>i. ?w i \<noteq> None) is" for "is"
    by (induction "is") (auto simp: List.map_filter_simps split: option.splits)
  then have "distinct (map fst (List.map_filter ?w ?ids))" using ids(1) by simp
  moreover have "set (List.map_filter ?w ?ids) = {(i, sm_from m, sm_publish m) |i m. msg_of es i = Some m \<and>
      lookup_finds (levels f) i (sm_topic m) \<and> due now c flt grp (fw_at s i) m}"
  proof (rule set_eqI)
    fix x
    have found: "?w i = Some x \<longleftrightarrow> (\<exists>m. msg_of es i = Some m \<and> due now c flt grp (fw_at s i) m \<and> x = (i, sm_from m, sm_publish m))" for i
      by (auto simp: wanted_iff [OF t] split: option.splits)
    have ids_set: "set ?ids = {i. \<exists>m. msg_of es i = Some m \<and> lookup_finds (levels f) i (sm_topic m)}" using ids(2) by simp
    show "x \<in> set (List.map_filter ?w ?ids) \<longleftrightarrow> x \<in> {(i, sm_from m, sm_publish m) |i m. msg_of es i = Some m \<and>
      lookup_finds (levels f) i (sm_topic m) \<and> due now c flt grp (fw_at s i) m}"
      unfolding map_filter_mem ids_set found by auto
  qed
  ultimately show ?thesis using get by blast
qed

end
