(* ===== verification/Message_History.thy ===== *)
theory Message_History
  imports Message_Store
begin

text \<open>
  Histories of the store of messages (theory \<open>Message_Store\<close>): sequences of publications, marks, steps of the task that enters them and
  removals of expired messages, in any order. The specification is a map from identifiers to messages and their recipients in
  which nothing is ever removed.

  Shown: the store answers as the specification does, so that removals are not observable while the limits of the
  store are kept; marked messages are not returned again; a round of removals ends and leaves no expired message. Also shown: the removal
  drops messages that have not expired once a limit is exceeded, and a filter that ends with \<open>+/#\<close> finds messages
  of the level above.
\<close>

section \<open>Operations and specification\<close>

datatype message_op =
    OpPublish msg_from msg_publish int "recipient list option" send_outcome
  | OpMark nat "recipient list" send_outcome
  | OpServe timestamp
  | OpSweep timestamp nat

fun message_step :: "store_lib \<Rightarrow> store_cfg \<Rightarrow> message_op \<Rightarrow> msg_store \<Rightarrow> msg_store" where
  "message_step lib cfg (OpPublish from p e rs out) s = (let (i, s) = next_msg_id s in snd (ms_store out i from p e rs s))"
| "message_step lib cfg (OpMark i rs out) s = snd (mark_forwarded out i rs s)"
| "message_step lib cfg (OpServe now) s = serve_next lib cfg now s"
| "message_step lib cfg (OpSweep now max_limit) s = snd (ms_remove_expired lib cfg now max_limit s)"

type_synonym store_view = "nat \<Rightarrow> (stored_message \<times> (client_id \<rightharpoonup> (topic_filter \<times> shared_group) option)) option"

definition storable :: "store_lib \<Rightarrow> store_cfg \<Rightarrow> stored_message \<Rightarrow> bool" where
  "storable lib cfg m \<longleftrightarrow> (\<exists>t. topic_from_str (sm_topic m) = Inr t) \<and> (sc_encode cfg \<longrightarrow> (\<exists>b. sl_encode lib m = Inr b))"

fun spec_msg :: "store_lib \<Rightarrow> store_cfg \<Rightarrow> timestamp \<Rightarrow> store_msg \<Rightarrow> store_view \<Rightarrow> store_view" where
  "spec_msg lib cfg now (StoreMsg from p e i rs) V =
     (let m = \<lparr>sm_msg_id = i, sm_from = from, sm_publish = p, sm_expiry_time_at = now + e\<rparr>
      in if storable lib cfg m then V(i \<mapsto> (m, map_of (rev (case rs of Some r \<Rightarrow> r | None \<Rightarrow> [])))) else V)"
| "spec_msg lib cfg now (MarkForwarded i rs) V =
     (case V i of None \<Rightarrow> V | Some (m, fw) \<Rightarrow> V(i \<mapsto> (m, fw ++ map_of (rev rs))))"

record store_spec =
  sp_next :: nat
  sp_queue :: "store_msg list"
  sp_msgs :: store_view

definition spec_new :: store_spec where
  "spec_new = \<lparr>sp_next = 1, sp_queue = [], sp_msgs = (\<lambda>_. None)\<rparr>"

fun spec_step :: "store_lib \<Rightarrow> store_cfg \<Rightarrow> message_op \<Rightarrow> store_spec \<Rightarrow> store_spec" where
  "spec_step lib cfg (OpPublish from p e rs out) sp =
     sp\<lparr>sp_next := sp_next sp + 1,
        sp_queue := sp_queue sp @ (if out = Sent then [StoreMsg from p e (sp_next sp) rs] else [])\<rparr>"
| "spec_step lib cfg (OpMark i rs out) sp = sp\<lparr>sp_queue := sp_queue sp @ (if out = Sent then [MarkForwarded i rs] else [])\<rparr>"
| "spec_step lib cfg (OpServe now) sp =
     (case sp_queue sp of [] \<Rightarrow> sp | msg # q \<Rightarrow> sp\<lparr>sp_queue := q, sp_msgs := spec_msg lib cfg now msg (sp_msgs sp)\<rparr>)"
| "spec_step lib cfg (OpSweep now max_limit) sp = sp"

section \<open>The invariant of a history\<close>

fun plain_msg :: "store_msg \<Rightarrow> bool" where
  "plain_msg (StoreMsg from p e i rs) =
     (case topic_from_str (text_of (pub_topic (mp_inner p))) of Inr t \<Rightarrow> plain_name (levels t) | Inl _ \<Rightarrow> True)"
| "plain_msg (MarkForwarded i rs) = True"

fun plain_op :: "message_op \<Rightarrow> bool" where
  "plain_op (OpPublish from p e rs out) = plain_msg (StoreMsg from p e 0 rs)"
| "plain_op _ = True"

fun store_id :: "store_msg \<Rightarrow> nat list" where
  "store_id (StoreMsg from p e i rs) = [i]"
| "store_id (MarkForwarded i rs) = []"

definition store_ids :: "store_msg list \<Rightarrow> nat list" where
  "store_ids q = concat (map store_id q)"

lemma store_ids_simps [simp]: "store_ids [] = []" "store_ids (m # q) = store_id m @ store_ids q"
  "store_ids (q @ q') = store_ids q @ store_ids q'"
  by (simp_all add: store_ids_def)

definition history_inv :: "store_lib \<Rightarrow> store_cfg \<Rightarrow> (nat \<times> stored_message \<times> nat) list \<Rightarrow> msg_store \<Rightarrow> bool" where
  "history_inv lib cfg es s \<longleftrightarrow>
     store_inv lib cfg es s \<and> distinct (store_ids (ms_queue s)) \<and> list_all plain_msg (ms_queue s) \<and>
     (\<forall>i \<in> set (store_ids (ms_queue s)). i < ms_id_gen s \<and> msg_of es i = None) \<and>
     (\<forall>i. msg_of es i \<noteq> None \<longrightarrow> i < ms_id_gen s)"

definition view :: "(nat \<times> stored_message \<times> nat) list \<Rightarrow> msg_store \<Rightarrow> store_view" where
  "view es s i = map_option (\<lambda>m. (m, map_of (fw_at s i))) (msg_of es i)"

lemma store_inv_frame:
  assumes "ms_messages s' = ms_messages s" "ms_messages_encode s' = ms_messages_encode s" "ms_topic_tree s' = ms_topic_tree s"
    "ms_forwardeds s' = ms_forwardeds s" "ms_expiries s' = ms_expiries s" "ms_bytes s' = ms_bytes s"
  shows "store_inv lib cfg es s' = store_inv lib cfg es s" and "fw_at s' = fw_at s" and "view es s' = view es s"
  using assms table_frame [OF assms(1,2)] by (auto simp: store_inv_def index_ok_def fw_at_def view_def fun_eq_iff)

text \<open>A message is entered, or cannot be.\<close>

lemma ms_set_correct:
  fixes now :: timestamp
  assumes inv: "store_inv lib cfg es s" and codec: "codec_ok lib" and new: "msg_of es i = None"
    and plain: "plain_msg (StoreMsg from p e i rs)"
  defines "s' \<equiv> snd (ms_set lib cfg now from p e i rs s)"
  shows "\<exists>es'. store_inv lib cfg es' s' \<and> view es' s' = spec_msg lib cfg now (StoreMsg from p e i rs) (view es s) \<and>
    ms_queue s' = ms_queue s \<and> ms_id_gen s' = ms_id_gen s \<and> (\<forall>j. j \<noteq> i \<longrightarrow> msg_of es' j = msg_of es j)"
proof -
  let ?m = "\<lparr>sm_msg_id = i, sm_from = from, sm_publish = p, sm_expiry_time_at = now + e\<rparr>"
  have tab: "table lib cfg s es" and ok: "index_ok es s" and d: "distinct (ms_expiries s)"
    and exp: "set (ms_expiries s) = {(sm_expiry_time_at m, i) |i m. msg_of es i = Some m}"
    using inv by (auto simp: store_inv_def)
  show ?thesis
  proof (cases "storable lib cfg ?m")
    case False
    then have "s' = s"
      by (auto simp: s'_def ms_set_def storable_def sm_topic_def Let_def split: sum.splits)
    then show ?thesis using False inv by (intro exI [of _ es]) simp
  next
    case True
    then obtain t where t: "topic_from_str (sm_topic ?m) = Inr t" by (auto simp: storable_def)
    have pt: "plain_name (levels t)" using plain t by (simp add: sm_topic_def)
    obtain len s1 where s': "s' = index_message (id_topic t i) (sm_expiry_time_at ?m) i len rs s1"
      and t1: "table lib cfg s1 (AList.update i (?m, len) es)"
      and s1: "ms_topic_tree s1 = ms_topic_tree s" "ms_forwardeds s1 = ms_forwardeds s" "ms_expiries s1 = ms_expiries s"
        "ms_bytes s1 = ms_bytes s" "ms_id_gen s1 = ms_id_gen s" "ms_queue s1 = ms_queue s"
    proof (cases "sc_encode cfg")
      case enc: True
      then obtain b where b: "sl_encode lib ?m = Inr b" using True by (auto simp: storable_def)
      then have dec: "sl_decode lib b = Inr ?m" using codec by (simp add: codec_ok_def)
      let ?len = "length b + sl_entry_size lib (id_topic t i)"
      have "list_all2 (same_entry lib) (ms_messages_encode s) es" using tab enc by (simp add: table_def)
      from same_entries_update [OF this dec, of i ?len] show thesis
        using that [of ?len "s\<lparr>ms_messages_encode := AList.update i (b, ?len) (ms_messages_encode s)\<rparr>"] t b enc
        by (simp add: s'_def ms_set_def sm_topic_def table_def Let_def)
    next
      case False
      let ?len = "sl_get_size lib ?m + sl_entry_size lib (id_topic t i)"
      show thesis
        using that [of ?len "s\<lparr>ms_messages := AList.update i (?m, ?len) (ms_messages s)\<rparr>"] t tab False
        by (simp add: s'_def ms_set_def sm_topic_def table_def Let_def)
    qed
    let ?es = "AList.update i (?m, len) es"
    have ok1: "index_ok es s1" using ok by (simp add: index_ok_def s1)
    note res = index_message_ok [OF ok1 new t pt, of len rs]
    have "(sm_expiry_time_at ?m, i) \<notin> set (ms_expiries s)" using new by (simp add: exp)
    moreover have "insert (now + e, i) (set (ms_expiries s)) = {(sm_expiry_time_at m, j) |j m. msg_of ?es j = Some m}"
      (is "?A = ?B")
    proof (rule set_eqI)
      fix x :: "timestamp \<times> nat"
      obtain a j where "x = (a, j)" by fastforce
      then show "x \<in> ?A \<longleftrightarrow> x \<in> ?B" using new by (cases "j = i") (auto simp: exp msg_of_update)
    qed
    ultimately have "store_inv lib cfg ?es s'" using t1 res(1) d by (simp add: store_inv_def s' s1)
    moreover have "view ?es s' j = spec_msg lib cfg now (StoreMsg from p e i rs) (view es s) j" for j
      using True res(2) [of j]
      by (auto simp: view_def s' msg_of_update recipients_lookup Let_def fw_at_def s1)
    ultimately show ?thesis
      by (intro exI [of _ ?es]) (auto simp: s' s1 msg_of_update fun_eq_iff)
  qed
qed

lemma mark_correct:
  fixes now :: timestamp and i :: nat and rs :: "recipient list"
  assumes inv: "store_inv lib cfg es s"
  defines "s' \<equiv> ms_process lib cfg now (MarkForwarded i rs) s"
  shows "store_inv lib cfg es s' \<and> view es s' = spec_msg lib cfg now (MarkForwarded i rs) (view es s) \<and>
    ms_queue s' = ms_queue s \<and> ms_id_gen s' = ms_id_gen s"
proof -
  have tab: "table lib cfg s es" and ok: "index_ok es s" using inv by (auto simp: store_inv_def)
  show ?thesis
  proof (cases "msg_of es i")
    case None
    then show ?thesis using inv table_get(2) [OF tab, of i] by (simp add: s'_def ms_process_def view_def)
  next
    case (Some m)
    then have s': "s' = set_forwardeds i rs s" using table_get(2) [OF tab, of i] by (simp add: s'_def ms_process_def)
    have "store_inv lib cfg es s'" using set_forwardeds_ok [OF ok, of i rs] Some inv by (simp add: store_inv_def s')
    moreover have "view es s' j = spec_msg lib cfg now (MarkForwarded i rs) (view es s) j" for j
      using Some by (auto simp: view_def s' set_forwardeds_at recipients_lookup)
    ultimately show ?thesis by (auto simp: s' fun_eq_iff)
  qed
qed

text \<open>What one step does to the view of the store.\<close>

definition step_view :: "store_lib \<Rightarrow> store_cfg \<Rightarrow> message_op \<Rightarrow> msg_store \<Rightarrow> store_view \<Rightarrow> store_view \<Rightarrow> bool" where
  "step_view lib cfg op s V V' =
     (case op of
        OpServe now \<Rightarrow> V' = (case ms_queue s of [] \<Rightarrow> V | msg # q \<Rightarrow> spec_msg lib cfg now msg V)
      | OpSweep now max_limit \<Rightarrow>
          (\<forall>i. V' i = V i \<or> V' i = None \<and> (\<exists>m fw. V i = Some (m, fw) \<and>
             (over_limit cfg (messages_count cfg s) (messages_bytes_size_get s) \<or> sm_expiry_time_at m \<le> now)))
      | _ \<Rightarrow> V' = V)"

lemma sent_correct:
  assumes inv: "history_inv lib cfg es s" and "plain_msg msg"
    and new: "store_id msg = [] \<and> n = ms_id_gen s \<or> store_id msg = [ms_id_gen s] \<and> n = Suc (ms_id_gen s)"
  shows "history_inv lib cfg es (snd (channel_send out msg (s\<lparr>ms_id_gen := n\<rparr>)))"
    and "view es (snd (channel_send out msg (s\<lparr>ms_id_gen := n\<rparr>))) = view es s"
proof -
  let ?s = "snd (channel_send out msg (s\<lparr>ms_id_gen := n\<rparr>))"
  have f: "ms_messages ?s = ms_messages s" "ms_messages_encode ?s = ms_messages_encode s" "ms_topic_tree ?s = ms_topic_tree s"
    "ms_forwardeds ?s = ms_forwardeds s" "ms_expiries ?s = ms_expiries s" "ms_bytes ?s = ms_bytes s" "ms_id_gen ?s = n"
    "ms_queue ?s = ms_queue s @ (if out = Sent then [msg] else [])"
    by (simp_all add: channel_send_def Let_def split: send_outcome.splits)
  note frame = store_inv_frame [of ?s s, OF f(1-6)]
  have old: "\<forall>i \<in> set (store_ids (ms_queue s)). i < ms_id_gen s \<and> msg_of es i = None" "\<forall>i. msg_of es i \<noteq> None \<longrightarrow> i < ms_id_gen s"
    using inv by (auto simp: history_inv_def)
  have "msg_of es (ms_id_gen s) = None" using old(2) by (metis less_irrefl)
  moreover have "ms_id_gen s \<notin> set (store_ids (ms_queue s))" using old(1) by (metis less_irrefl)
  moreover have "\<forall>i. msg_of es i \<noteq> None \<longrightarrow> i < n" "\<forall>i \<in> set (store_ids (ms_queue s)). i < n \<and> msg_of es i = None"
    using old new by (metis less_SucI)+
  moreover have "store_inv lib cfg es s" "distinct (store_ids (ms_queue s))" "list_all plain_msg (ms_queue s)"
    using inv by (simp_all add: history_inv_def)
  ultimately show "history_inv lib cfg es ?s"
    using assms(2) new unfolding history_inv_def frame(1) f(7,8) by (cases "out = Sent") auto
  show "view es ?s = view es s" by (rule frame(3))
qed

lemma store_step_correct:
  assumes inv: "history_inv lib cfg es s" and codec: "codec_ok lib" and plain: "plain_op op"
  shows "\<exists>es'. history_inv lib cfg es' (message_step lib cfg op s) \<and>
    step_view lib cfg op s (view es s) (view es' (message_step lib cfg op s))"
proof (cases op)
  case (OpPublish frm p e rs out)
  have "plain_msg (StoreMsg frm p e (ms_id_gen s) rs)" using plain OpPublish by simp
  from sent_correct [OF inv this, of "Suc (ms_id_gen s)" out] show ?thesis
    using OpPublish by (intro exI [of _ es]) (simp add: next_msg_id_def ms_store_def step_view_def)
next
  case (OpMark i rs out)
  from sent_correct [OF inv, of "MarkForwarded i rs" "ms_id_gen s" out] show ?thesis
    using OpMark by (intro exI [of _ es]) (simp add: mark_forwarded_def step_view_def)
next
  case (OpSweep now max_limit)
  obtain res s' where rem: "ms_remove_expired lib cfg now max_limit s = (res, s')" by fastforce
  have st: "store_inv lib cfg es s" using inv by (simp add: history_inv_def)
  from ms_remove_expired_correct [OF this rem] obtain es' ids where s': "store_inv lib cfg es' s'"
    "msg_of es' = (\<lambda>i. if i \<in> set ids then None else msg_of es i)" "fw_at s' = (\<lambda>i. if i \<in> set ids then [] else fw_at s i)"
    "ms_id_gen s' = ms_id_gen s" "ms_queue s' = ms_queue s"
    "\<forall>i \<in> set ids. \<exists>m. msg_of es i = Some m \<and>
       (over_limit cfg (length es) (messages_bytes_size_get s) \<or> sm_expiry_time_at m \<le> now)" by blast
  have "history_inv lib cfg es' s'" using inv s'(1) by (auto simp: history_inv_def s'(2,4,5))
  moreover have "length es = messages_count cfg s" using table_get(3) [of lib cfg s es] st by (simp add: store_inv_def)
  then have "step_view lib cfg op s (view es s) (view es' s')"
    using s'(6) by (auto simp: step_view_def OpSweep view_def s'(2,3)) 
  ultimately show ?thesis using OpSweep rem by auto
next
  case (OpServe now)
  show ?thesis
  proof (cases "ms_queue s")
    case Nil
    then show ?thesis using OpServe inv by (intro exI [of _ es]) (simp add: serve_next_def step_view_def)
  next
    case (Cons msg q)
    let ?s = "s\<lparr>ms_queue := q\<rparr>"
    have st: "store_inv lib cfg es ?s" and v: "view es ?s = view es s"
      using inv store_inv_frame [of ?s s] by (simp_all add: history_inv_def)
    have hyps: "distinct (store_id msg @ store_ids q)" "plain_msg msg" "list_all plain_msg q"
      "\<forall>i \<in> set (store_id msg @ store_ids q). i < ms_id_gen s \<and> msg_of es i = None" "\<forall>i. msg_of es i \<noteq> None \<longrightarrow> i < ms_id_gen s"
      using inv Cons by (auto simp: history_inv_def)
    obtain es' s1 where s1: "s1 = ms_process lib cfg now msg ?s" "store_inv lib cfg es' s1" "view es' s1 = spec_msg lib cfg now msg (view es s)"
      "ms_queue s1 = q" "ms_id_gen s1 = ms_id_gen s" "\<forall>j. j \<notin> set (store_id msg) \<longrightarrow> msg_of es' j = msg_of es j"
    proof (cases msg)
      case (StoreMsg frm p e i rs)
      then have "msg_of es i = None" "plain_msg (StoreMsg frm p e i rs)" using hyps by auto
      from ms_set_correct [OF st codec this, of now] show thesis
        using that StoreMsg v by (auto simp: ms_process_def)
    next
      case (MarkForwarded i rs)
      from mark_correct [OF st, of now i rs] show thesis using that [of _ es] MarkForwarded v by simp
    qed
    let ?s2 = "s1\<lparr>ms_queue_count := ms_queue_count s1 - 1\<rparr>"
    have "history_inv lib cfg es' ?s2"
      using s1(2,4,5,6) hyps store_inv_frame [of ?s2 s1] unfolding history_inv_def by (auto simp: disjoint_iff)
    moreover have "view es' ?s2 = view es' s1" using store_inv_frame(3) [of ?s2 s1] by simp
    ultimately show ?thesis
      using s1(1,3) OpServe Cons by (intro exI [of _ es']) (simp add: serve_next_def step_view_def Let_def)
  qed
qed

lemma history_inv_new: "history_inv lib cfg [] ms_new"
  by (auto simp: history_inv_def store_inv_def table_def index_ok_def ms_new_def msg_of_def total_size_def)

lemma history_reachable:
  assumes "codec_ok lib" and "list_all plain_op ops" and "history_inv lib cfg es s"
  shows "\<exists>es'. history_inv lib cfg es' (fold (message_step lib cfg) ops s)"
  using assms
proof (induction ops arbitrary: es s)
  case (Cons op ops)
  then obtain es' where "history_inv lib cfg es' (message_step lib cfg op s)" using store_step_correct [of lib cfg es s op] by auto
  with Cons show ?case by auto
qed auto

declare message_step.simps [simp del]

section \<open>Removals are not observable\<close>

text \<open>The sweeps of a history run before \<open>T\<close> and within the limits of the store.\<close>

fun sweeps_ok :: "store_lib \<Rightarrow> store_cfg \<Rightarrow> timestamp \<Rightarrow> message_op list \<Rightarrow> msg_store \<Rightarrow> bool" where
  "sweeps_ok lib cfg T [] s = True"
| "sweeps_ok lib cfg T (op # ops) s =
     ((case op of
         OpSweep t max_limit \<Rightarrow> t < T \<and> \<not> over_limit cfg (messages_count cfg s) (messages_bytes_size_get s)
       | _ \<Rightarrow> True) \<and> sweeps_ok lib cfg T ops (message_step lib cfg op s))"

definition agrees :: "timestamp \<Rightarrow> store_view \<Rightarrow> store_view \<Rightarrow> bool" where
  "agrees T V W \<longleftrightarrow> (\<forall>i. V i = W i \<or> V i = None \<and> (\<exists>m fw. W i = Some (m, fw) \<and> sm_expiry_time_at m < T))"

definition simulates :: "store_lib \<Rightarrow> store_cfg \<Rightarrow> timestamp \<Rightarrow> (nat \<times> stored_message \<times> nat) list \<Rightarrow> msg_store \<Rightarrow> store_spec \<Rightarrow> bool" where
  "simulates lib cfg T es s sp \<longleftrightarrow>
     history_inv lib cfg es s \<and> sp_next sp = ms_id_gen s \<and> sp_queue sp = ms_queue s \<and>
     (\<forall>i \<in> set (store_ids (ms_queue s)). sp_msgs sp i = None) \<and> (\<forall>i. sp_msgs sp i \<noteq> None \<longrightarrow> i < ms_id_gen s) \<and>
     agrees T (view es s) (sp_msgs sp)"

lemma spec_msg_agrees:
  assumes "agrees T V W" and "\<forall>i \<in> set (store_id msg). W i = None"
  shows "agrees T (spec_msg lib cfg now msg V) (spec_msg lib cfg now msg W)"
proof (cases msg)
  case (StoreMsg frm p e i rs)
  then show ?thesis using assms by (auto simp: agrees_def Let_def)
next
  case (MarkForwarded i rs)
  have each: "V j = W j \<or> V j = None \<and> (\<exists>m fw. W j = Some (m, fw) \<and> sm_expiry_time_at m < T)" for j
    using assms(1) by (simp add: agrees_def)
  have "spec_msg lib cfg now msg V j = spec_msg lib cfg now msg W j \<or> spec_msg lib cfg now msg V j = None \<and>
      (\<exists>m fw. spec_msg lib cfg now msg W j = Some (m, fw) \<and> sm_expiry_time_at m < T)" for j
    using each [of i] each [of j] by (cases "j = i"; cases "V i") (auto simp: MarkForwarded split: option.splits)
  then show ?thesis by (simp add: agrees_def)
qed

lemma agrees_removed:
  assumes ag: "agrees T V W" and "t < T"
    and rem: "\<forall>i. V' i = V i \<or> V' i = None \<and> (\<exists>m. (\<exists>fw. V i = Some (m, fw)) \<and> sm_expiry_time_at m \<le> t)"
  shows "agrees T V' W"
  unfolding agrees_def
proof
  fix i
  have ag_i: "V i = W i \<or> V i = None \<and> (\<exists>m fw. W i = Some (m, fw) \<and> sm_expiry_time_at m < T)" using ag by (simp add: agrees_def)
  from rem consider "V' i = V i" | m fw where "V' i = None" "V i = Some (m, fw)" "sm_expiry_time_at m \<le> t" by blast
  then show "V' i = W i \<or> V' i = None \<and> (\<exists>m fw. W i = Some (m, fw) \<and> sm_expiry_time_at m < T)"
  proof cases
    case 2
    then have "W i = Some (m, fw)" "sm_expiry_time_at m < T" using ag_i \<open>t < T\<close> by auto
    then show ?thesis using 2(1) by blast
  qed (use ag_i in simp)
qed

lemma spec_msg_dom: "spec_msg lib cfg now msg W j \<noteq> None \<Longrightarrow> W j \<noteq> None \<or> j \<in> set (store_id msg)"
  by (cases msg) (auto simp: Let_def split: if_splits option.splits)

lemma step_frame:
  "ms_id_gen (message_step lib cfg (OpPublish frm p e rs out) s) = Suc (ms_id_gen s)"
  "ms_queue (message_step lib cfg (OpPublish frm p e rs out) s)
     = ms_queue s @ (if out = Sent then [StoreMsg frm p e (ms_id_gen s) rs] else [])"
  "ms_id_gen (message_step lib cfg (OpMark i cs out) s) = ms_id_gen s"
  "ms_queue (message_step lib cfg (OpMark i cs out) s) = ms_queue s @ (if out = Sent then [MarkForwarded i cs] else [])"
  by (simp_all add: message_step.simps next_msg_id_def ms_store_def mark_forwarded_def channel_send_def Let_def split: send_outcome.splits)

lemma ms_set_frame:
  "ms_id_gen (snd (ms_set lib cfg now frm p e i rs s)) = ms_id_gen s" "ms_queue (snd (ms_set lib cfg now frm p e i rs s)) = ms_queue s"
  by (simp_all add: ms_set_def Let_def split: sum.splits)

lemma serve_frame:
  "ms_id_gen (message_step lib cfg (OpServe now) s) = ms_id_gen s" "ms_queue (message_step lib cfg (OpServe now) s) = tl (ms_queue s)"
  by (simp_all add: message_step.simps serve_next_def ms_process_def Let_def ms_set_frame split: list.splits store_msg.splits)

lemma remove_frame:
  "ms_id_gen (snd (remove_ids lib cfg ids s)) = ms_id_gen s \<and> ms_queue (snd (remove_ids lib cfg ids s)) = ms_queue s"
proof (induction lib cfg ids s rule: remove_ids.induct)
  case (2 lib cfg i ids s)
  have "ms_id_gen (snd (messages_remove lib cfg i s)) = ms_id_gen s \<and> ms_queue (snd (messages_remove lib cfg i s)) = ms_queue s"
    by (simp add: messages_remove_def Let_def split: option.splits sum.splits prod.splits)
  with 2 show ?case by (auto split: prod.splits sum.splits option.splits)
qed simp

lemma sweep_frame:
  "ms_id_gen (message_step lib cfg (OpSweep now l) s) = ms_id_gen s" "ms_queue (message_step lib cfg (OpSweep now l) s) = ms_queue s"
  by (simp_all add: message_step.simps ms_remove_expired_def case_prod_beta remove_frame)

lemma step_simulates:
  assumes sim: "simulates lib cfg T es s sp" and codec: "codec_ok lib" and plain: "plain_op op"
    and sweep: "\<And>t l. op = OpSweep t l \<Longrightarrow> t < T \<and> \<not> over_limit cfg (messages_count cfg s) (messages_bytes_size_get s)"
  shows "\<exists>es'. simulates lib cfg T es' (message_step lib cfg op s) (spec_step lib cfg op sp)"
proof -
  have inv: "history_inv lib cfg es s" and sp: "sp_next sp = ms_id_gen s" "sp_queue sp = ms_queue s"
    "\<forall>i \<in> set (store_ids (ms_queue s)). sp_msgs sp i = None" "\<forall>i. sp_msgs sp i \<noteq> None \<longrightarrow> i < ms_id_gen s"
    and ag: "agrees T (view es s) (sp_msgs sp)" using sim by (auto simp: simulates_def)
  from store_step_correct [OF inv codec plain] obtain es' where es': "history_inv lib cfg es' (message_step lib cfg op s)"
    and v: "step_view lib cfg op s (view es s) (view es' (message_step lib cfg op s))" by blast
  have fresh: "sp_msgs sp (ms_id_gen s) = None" using sp(4) by (metis less_irrefl)
  show ?thesis
  proof (cases op)
    case (OpPublish frm p e rs out)
    have "\<forall>i. sp_msgs sp i \<noteq> None \<longrightarrow> i < Suc (ms_id_gen s)" using sp(4) by (metis less_SucI)
    then show ?thesis
      using es' v sp ag fresh unfolding simulates_def OpPublish step_frame
      by (intro exI [of _ es']) (auto simp: step_view_def)
  next
    case (OpMark i rs out)
    then show ?thesis
      using es' v sp ag unfolding simulates_def OpMark step_frame
      by (intro exI [of _ es']) (auto simp: step_view_def)
  next
    case (OpSweep t l)
    have within: "t < T" "\<not> over_limit cfg (messages_count cfg s) (messages_bytes_size_get s)" using sweep [OF OpSweep] by auto
    have "agrees T (view es' (message_step lib cfg op s)) (sp_msgs sp)"
      using agrees_removed [OF ag within(1)] v within(2) unfolding OpSweep step_view_def by simp
    then show ?thesis using es' sp unfolding simulates_def OpSweep sweep_frame by (intro exI [of _ es']) simp
  next
    case (OpServe now)
    show ?thesis
    proof (cases "ms_queue s")
      case Nil
      then show ?thesis using es' v sp ag unfolding simulates_def OpServe serve_frame
        by (intro exI [of _ es']) (simp add: step_view_def)
    next
      case (Cons msg q)
      have "\<forall>i \<in> set (store_id msg). sp_msgs sp i = None" using sp(3) Cons by simp
      from spec_msg_agrees [OF ag this] have "agrees T (view es' (message_step lib cfg op s)) (spec_msg lib cfg now msg (sp_msgs sp))"
        using v Cons OpServe by (simp add: step_view_def)
      moreover have ids: "set (store_id msg) \<inter> set (store_ids q) = {}" "\<forall>i \<in> set (store_id msg). i < ms_id_gen s"
        using Cons inv by (simp_all add: history_inv_def)
      have "\<forall>i \<in> set (store_ids q). spec_msg lib cfg now msg (sp_msgs sp) i = None"
        using spec_msg_dom [of lib cfg now msg "sp_msgs sp"] sp(3) Cons ids(1) by (metis UnCI disjoint_iff set_append store_ids_simps(2))
      moreover have "\<forall>i. spec_msg lib cfg now msg (sp_msgs sp) i \<noteq> None \<longrightarrow> i < ms_id_gen s"
        using spec_msg_dom [of lib cfg now msg "sp_msgs sp"] sp(4) ids(2) by blast
      ultimately show ?thesis
        using es' sp(1,2) Cons unfolding simulates_def OpServe serve_frame by (intro exI [of _ es']) simp
    qed
  qed
qed

lemma history_simulates:
  assumes "simulates lib cfg T es s sp" and "codec_ok lib" and "list_all plain_op ops" and "sweeps_ok lib cfg T ops s"
  shows "\<exists>es'. simulates lib cfg T es' (fold (message_step lib cfg) ops s) (fold (spec_step lib cfg) ops sp)"
  using assms
proof (induction ops arbitrary: es s sp)
  case (Cons op ops)
  have "t < T \<and> \<not> over_limit cfg (messages_count cfg s) (messages_bytes_size_get s)" if "op = OpSweep t l" for t l
    using Cons.prems(4) that by simp
  then obtain es' where "simulates lib cfg T es' (message_step lib cfg op s) (spec_step lib cfg op sp)"
    using step_simulates [OF Cons.prems(1,2), of op] Cons.prems(3) by auto
  with Cons show ?case by auto
qed auto

lemma simulates_new: "simulates lib cfg T [] ms_new spec_new"
proof -
  have "view [] ms_new = sp_msgs spec_new" by (simp add: view_def msg_of_def spec_new_def fun_eq_iff)
  then show ?thesis using history_inv_new by (simp add: simulates_def agrees_def spec_new_def ms_new_def)
qed

text \<open>A message of the specification that the client is to get.\<close>

definition spec_due :: "timestamp \<Rightarrow> client_id \<Rightarrow> topic_filter \<Rightarrow> shared_group option \<Rightarrow>
    (client_id \<rightharpoonup> (topic_filter \<times> shared_group) option) \<Rightarrow> stored_message \<Rightarrow> bool" where
  "spec_due now c flt grp fw m \<longleftrightarrow>
     fw c = None \<and> \<not> (\<exists>g d. grp = Some g \<and> fw d = Some (Some (flt, g))) \<and> \<not> sm_expiry_time_at m < now \<and>
     mp_target_clientid (sm_publish m) \<in> {None, Some c}"

lemma due_spec:
  assumes "distinct (map fst cids)"
  shows "due now c flt grp cids m = spec_due now c flt grp (map_of cids) m"
proof -
  have "is_forwarded c flt grp cids \<longleftrightarrow> map_of cids c \<noteq> None \<or> (\<exists>g d. grp = Some g \<and> map_of cids d = Some (Some (flt, g)))"
    using assms by (cases grp) (auto simp: is_forwarded_def list_ex_iff split: option.splits dest: map_of_SomeD intro!: bexI)
  then show ?thesis by (auto simp: due_def spec_due_def sm_is_expiry_def split: option.splits)
qed

lemma fw_distinct: "index_ok es s \<Longrightarrow> distinct (map fst (fw_at s i))"
  by (auto simp: index_ok_def fw_at_def split: option.splits)

lemma agrees_due:
  assumes "agrees now (view es s) W" and "index_ok es s"
  shows "(\<exists>m. msg_of es i = Some m \<and> P m \<and> due now c flt grp (fw_at s i) m)
    \<longleftrightarrow> (\<exists>m fw. W i = Some (m, fw) \<and> P m \<and> spec_due now c flt grp fw m)"
proof -
  have viewed: "(\<exists>m. msg_of es i = Some m \<and> P m \<and> due now c flt grp (fw_at s i) m)
    \<longleftrightarrow> (\<exists>m fw. view es s i = Some (m, fw) \<and> P m \<and> spec_due now c flt grp fw m)"
    by (auto simp: view_def due_spec [OF fw_distinct [OF assms(2)]])
  have "view es s i = W i \<or> view es s i = None \<and> (\<exists>m fw. W i = Some (m, fw) \<and> sm_expiry_time_at m < now)"
    using assms(1) by (simp add: agrees_def)
  then show ?thesis
  proof (elim disjE)
    assume "view es s i = W i"
    then show ?thesis using viewed by simp
  next
    assume "view es s i = None \<and> (\<exists>m fw. W i = Some (m, fw) \<and> sm_expiry_time_at m < now)"
    then show ?thesis unfolding viewed by (auto simp: spec_due_def)
  qed
qed

lemma ms_get_spec:
  assumes "codec_ok lib" and "list_all plain_op ops" and "sweeps_ok lib cfg now ops ms_new"
    and f: "topic_from_str flt = Inr f"
  shows "\<exists>xs. ms_get lib cfg now c flt grp (fold (message_step lib cfg) ops ms_new) = Inr xs \<and> distinct (map fst xs) \<and>
    set xs = {(i, sm_from m, sm_publish m) |i m fw. sp_msgs (fold (spec_step lib cfg) ops spec_new) i = Some (m, fw) \<and>
      lookup_finds (levels f) i (sm_topic m) \<and> spec_due now c flt grp fw m}"
proof -
  let ?s = "fold (message_step lib cfg) ops ms_new" and ?W = "sp_msgs (fold (spec_step lib cfg) ops spec_new)"
  from history_simulates [OF simulates_new assms(1-3)] obtain es where
    inv: "store_inv lib cfg es ?s" and ag: "agrees now (view es ?s) ?W" by (auto simp: simulates_def history_inv_def)
  then have ok: "index_ok es ?s" by (simp add: store_inv_def)
  let ?P = "\<lambda>x m. lookup_finds (levels f) (fst x) (sm_topic m) \<and> snd x = (sm_from m, sm_publish m)"
  have "{(i, sm_from m, sm_publish m) |i m. msg_of es i = Some m \<and> lookup_finds (levels f) i (sm_topic m) \<and>
      due now c flt grp (fw_at ?s i) m} = {x. \<exists>m. msg_of es (fst x) = Some m \<and> ?P x m \<and> due now c flt grp (fw_at ?s (fst x)) m}"
    by force
  also have "\<dots> = {x. \<exists>m fw. ?W (fst x) = Some (m, fw) \<and> ?P x m \<and> spec_due now c flt grp fw m}"
    by (rule Collect_cong) (rule agrees_due [OF ag ok])
  also have "\<dots> = {(i, sm_from m, sm_publish m) |i m fw. ?W i = Some (m, fw) \<and> lookup_finds (levels f) i (sm_topic m) \<and>
      spec_due now c flt grp fw m}"
    by force
  finally have "{(i, sm_from m, sm_publish m) |i m. msg_of es i = Some m \<and> lookup_finds (levels f) i (sm_topic m) \<and>
      due now c flt grp (fw_at ?s i) m} = {(i, sm_from m, sm_publish m) |i m fw. ?W i = Some (m, fw) \<and>
      lookup_finds (levels f) i (sm_topic m) \<and> spec_due now c flt grp fw m}" .
  with ms_get_exact [OF inv f, of now c grp] show ?thesis by simp
qed

text \<open>C19: The store answers as the specification. After any history of publications under names without wildcards whose
  removals ran before \<open>now\<close> and within the limits of the store, a lookup with a valid filter returns, each once, exactly
  the messages ever stored that the filter finds, that have not expired, that are for the client or for everybody, and that were
  marked neither for the client nor for its group. The filter finds (\<open>lookup_finds\<close>) the messages whose names it matches
  and, the one deviation from matching, for a filter that ends in \<open>+/#\<close>, or in the number of the message and \<open>/#\<close>,
  also those whose names are matched by the filter without these two levels.\<close>

theorem stored_messages_found:
  assumes "codec_ok lib" and "list_all plain_op ops" and "sweeps_ok lib cfg now ops ms_new"
    and f: "topic_from_str flt = Inr f"
  shows "\<exists>xs. ms_get lib cfg now c flt grp (fold (message_step lib cfg) ops ms_new) = Inr xs \<and> distinct (map fst xs) \<and>
    set xs = {(i, sm_from m, sm_publish m) |i m fw. sp_msgs (fold (spec_step lib cfg) ops spec_new) i = Some (m, fw) \<and>
      lookup_finds (levels f) i (sm_topic m) \<and> spec_due now c flt grp fw m}"
  by (rule ms_get_spec [OF assms])

section \<open>Marked messages\<close>

text \<open>The message \<open>i\<close> has been given out and is marked for the client, or is gone.\<close>

definition settled :: "client_id \<Rightarrow> nat \<Rightarrow> msg_store \<Rightarrow> store_view \<Rightarrow> bool" where
  "settled c i s V \<longleftrightarrow> i < ms_id_gen s \<and> i \<notin> set (store_ids (ms_queue s)) \<and> (\<forall>m fw. V i = Some (m, fw) \<longrightarrow> fw c \<noteq> None)"

lemma spec_msg_settled:
  assumes "i \<notin> set (store_id msg)" and "spec_msg lib cfg now msg V i = Some (m, fw)"
  shows "\<exists>fw'. V i = Some (m, fw') \<and> dom fw' \<subseteq> dom fw"
  using assms by (cases msg) (auto simp: Let_def map_add_def split: if_splits option.splits)

lemma step_settled:
  assumes v: "step_view lib cfg op s V V'" and st: "settled c i s V"
  shows "settled c i (message_step lib cfg op s) V'"
proof (cases op)
  case (OpPublish frm p e rs out)
  then show ?thesis using v st unfolding settled_def OpPublish step_frame by (auto simp: step_view_def)
next
  case (OpMark j rs out)
  then show ?thesis using v st unfolding settled_def OpMark step_frame by (auto simp: step_view_def)
next
  case (OpSweep t l)
  then have "V' i = V i \<or> V' i = None" using v unfolding step_view_def by simp metis
  then show ?thesis using st unfolding settled_def OpSweep sweep_frame by auto
next
  case (OpServe now)
  show ?thesis
  proof (cases "ms_queue s")
    case Nil
    then show ?thesis using v st unfolding settled_def OpServe serve_frame by (simp add: step_view_def)
  next
    case (Cons msg q)
    then have V': "V' = spec_msg lib cfg now msg V" using v OpServe by (simp add: step_view_def)
    have i: "i \<notin> set (store_id msg)" using st Cons by (simp add: settled_def)
    have "fw c \<noteq> None" if "V' i = Some (m, fw)" for m fw
      using spec_msg_settled [OF i that [unfolded V']] st by (auto simp: settled_def)
    then show ?thesis using st Cons unfolding settled_def OpServe serve_frame by simp
  qed
qed

lemma history_settled:
  assumes "codec_ok lib" and "list_all plain_op ops" and "history_inv lib cfg es s" and "settled c i s (view es s)"
  shows "\<exists>es'. history_inv lib cfg es' (fold (message_step lib cfg) ops s) \<and>
    settled c i (fold (message_step lib cfg) ops s) (view es' (fold (message_step lib cfg) ops s))"
  using assms
proof (induction ops arbitrary: es s)
  case (Cons op ops)
  then obtain es' where "history_inv lib cfg es' (message_step lib cfg op s)"
    "step_view lib cfg op s (view es s) (view es' (message_step lib cfg op s))" using store_step_correct [of lib cfg es s op] by auto
  with Cons step_settled show ?case by fastforce
qed auto

lemma settled_not_found:
  assumes "store_inv lib cfg es s" and "settled c i s (view es s)" and "ms_get lib cfg now c flt grp s = Inr xs"
  shows "i \<notin> fst ` set xs"
proof
  assume "i \<in> fst ` set xs"
  then obtain y where "(i, y) \<in> set xs" by auto
  then obtain j where j: "wanted lib cfg now c flt grp s j = Some (i, y)"
    using assms(3) by (auto simp: ms_get_def Let_def map_filter_mem split: sum.splits)
  have t: "table lib cfg s es" using assms(1) by (simp add: store_inv_def)
  from j obtain m where "msg_of es i = Some m" "due now c flt grp (fw_at s i) m"
    by (auto simp: wanted_iff [OF t] split: option.splits if_splits)
  then show False using assms(2) by (auto simp: settled_def view_def due_def is_forwarded_def)
qed

text \<open>C20: A mark is final. Once the task has entered the mark of a stored message for a client, no later lookup of
  that client returns the message, whatever happens in between, also after the message has expired and been removed.\<close>

theorem marked_never_again:
  assumes "codec_ok lib" and "list_all plain_op before" and "list_all plain_op after"
    and "ms_queue (fold (message_step lib cfg) before ms_new) = MarkForwarded i rs # q"
    and "messages_exist cfg i (fold (message_step lib cfg) before ms_new)" and "c \<in> fst ` set rs"
    and "ms_get lib cfg now c flt grp (fold (message_step lib cfg) (before @ [OpServe t] @ after) ms_new) = Inr xs"
  shows "i \<notin> fst ` set xs"
proof -
  let ?s = "fold (message_step lib cfg) before ms_new" and ?s1 = "message_step lib cfg (OpServe t) (fold (message_step lib cfg) before ms_new)"
  from history_reachable [OF assms(1,2) history_inv_new] obtain es where inv: "history_inv lib cfg es ?s" by blast
  then have "table lib cfg ?s es" by (simp add: history_inv_def store_inv_def)
  then obtain m where m: "msg_of es i = Some m" using table_get(2) assms(5) by blast
  from store_step_correct [OF inv assms(1), of "OpServe t"] obtain es1 where es1: "history_inv lib cfg es1 ?s1"
    "step_view lib cfg (OpServe t) ?s (view es ?s) (view es1 ?s1)" by auto
  have "view es1 ?s1 i = Some (m, map_of (fw_at ?s i) ++ map_of (rev rs))"
    using es1(2) assms(4) m by (simp add: step_view_def view_def)
  moreover have "map_of (rev rs) c \<noteq> None" using assms(6) by (simp add: map_of_eq_None_iff)
  moreover have "i < ms_id_gen ?s" "i \<notin> set (store_ids (ms_queue ?s))" using inv m by (auto simp: history_inv_def)
  ultimately have "settled c i ?s1 (view es1 ?s1)"
    using assms(4) unfolding settled_def serve_frame by auto
  from history_settled [OF assms(1,3) es1(1) this] obtain es2 where
    "history_inv lib cfg es2 (fold (message_step lib cfg) after ?s1)"
    "settled c i (fold (message_step lib cfg) after ?s1) (view es2 (fold (message_step lib cfg) after ?s1))" by blast
  moreover have "fold (message_step lib cfg) (before @ [OpServe t] @ after) ms_new = fold (message_step lib cfg) after ?s1" by simp
  ultimately show ?thesis using settled_not_found [of lib cfg es2] assms(7) unfolding history_inv_def by metis
qed

section \<open>Removals\<close>

lemma reachable_store:
  assumes "codec_ok lib" and "list_all plain_op ops"
  shows "\<exists>es. store_inv lib cfg es (fold (message_step lib cfg) ops ms_new)"
  using history_reachable [OF assms history_inv_new, of cfg] by (auto simp: history_inv_def)

lemma store_count: "store_inv lib cfg es s \<Longrightarrow> messages_count cfg s = length es"
  using table_get(3) [of lib cfg s es] by (simp add: store_inv_def)

lemma some_message: "es \<noteq> [] \<Longrightarrow> \<exists>i m. msg_of es i = Some m"
  using msg_of_keys [of es "fst (hd es)"] by (cases es) auto

lemma removal_summary:
  assumes "store_inv lib cfg es s" and "ms_remove_expired lib cfg now max_limit s = (res, s')"
  shows "\<exists>es' n. res = Inr n \<and> store_inv lib cfg es' s' \<and> length es = length es' + n \<and> n \<le> Suc max_limit \<and>
    (n \<le> max_limit \<longrightarrow> (\<forall>i m. msg_of es' i = Some m \<longrightarrow>
       sm_expiry_time_at m > now \<and> \<not> over_limit cfg (length es) (messages_bytes_size_get s)))"
  using ms_remove_expired_correct [OF assms]
proof (elim exE conjE)
  fix es' ids
  assume "res = Inr (length ids)" "store_inv lib cfg es' s'" "length es = length es' + length ids" "length ids \<le> Suc max_limit"
    "length ids \<le> max_limit \<longrightarrow> (\<forall>i m. msg_of es' i = Some m \<longrightarrow>
       sm_expiry_time_at m > now \<and> \<not> over_limit cfg (length es) (messages_bytes_size_get s))"
  then show ?thesis by (intro exI [of _ es'] exI [of _ "length ids"] conjI)
qed

lemma sweep_ends:
  assumes "store_inv lib cfg es s" and "mono clock" and "0 < max_limit" and "length es < fuel"
  shows "\<exists>s' es'. sweep_round fuel lib cfg clock k max_limit s = Some s' \<and> store_inv lib cfg es' s' \<and>
    length es' \<le> sc_cache_max_count cfg \<and> (\<forall>i m. msg_of es' i = Some m \<longrightarrow> clock k < sm_expiry_time_at m)"
  using assms(1,4)
proof (induction fuel arbitrary: es s k)
  case (Suc fuel)
  obtain res s1 where rem: "ms_remove_expired lib cfg (clock k) max_limit s = (res, s1)" by fastforce
  from removal_summary [OF Suc.prems(1) rem] obtain es1 n where one: "res = Inr n" "store_inv lib cfg es1 s1" "length es = length es1 + n"
    "n \<le> max_limit \<longrightarrow> (\<forall>i m. msg_of es1 i = Some m \<longrightarrow>
       sm_expiry_time_at m > clock k \<and> \<not> over_limit cfg (length es) (messages_bytes_size_get s))" by blast
  show ?case
  proof (cases "n \<ge> max_limit")
    case True
    then have "length es1 < fuel" using one(3) assms(3) Suc.prems(2) by simp
    from Suc.IH [OF one(2) this, of "Suc k"] obtain s' es' where s': "sweep_round fuel lib cfg clock (Suc k) max_limit s1 = Some s'"
      "store_inv lib cfg es' s'" "length es' \<le> sc_cache_max_count cfg" "\<forall>i m. msg_of es' i = Some m \<longrightarrow> clock (Suc k) < sm_expiry_time_at m"
      by blast
    have "clock k \<le> clock (Suc k)" using assms(2) by (simp add: monoD)
    then have "\<forall>i m. msg_of es' i = Some m \<longrightarrow> clock k < sm_expiry_time_at m" using s'(4) by fastforce
    then show ?thesis using s' True one(1) rem by (intro exI [of _ s'] exI [of _ es']) simp
  next
    case False
    have "length es1 \<le> sc_cache_max_count cfg"
    proof (cases "es1 = []")
      case neq: False
      then obtain i m where "msg_of es1 i = Some m" using some_message by blast
      then have "\<not> over_limit cfg (length es) (messages_bytes_size_get s)" using one(4) False by simp
      then show ?thesis using one(3) by (simp add: over_limit_def)
    qed simp
    then show ?thesis using False one rem by (intro exI [of _ s1] exI [of _ es1]) simp
  qed
qed simp

lemma sweep_never_ends: "sweep_round fuel lib cfg clock k 0 s = None"
  by (induction fuel arbitrary: k s) (simp_all add: Let_def split: prod.splits)

text \<open>C21: A round of the task that removes messages, on the store that any history of publications under names without wildcards
  gives and with a clock that does not run backwards. When the removal limit is positive the round ends: one removal more than
  there are messages is always enough. Afterwards no message is left that had expired when the round began, and the number of messages is
  within the limit of the store. With a removal limit of 0 the round never ends, whatever its fuel.\<close>

theorem sweep_round_complete:
  assumes "codec_ok lib" and "list_all plain_op ops" and "mono clock"
    and s: "s = fold (message_step lib cfg) ops ms_new"
  shows "if max_limit = 0 then (\<forall>fuel. sweep_round fuel lib cfg clock k max_limit s = None)
    else \<exists>s'. sweep_round (Suc (messages_count cfg s)) lib cfg clock k max_limit s = Some s' \<and>
      messages_count cfg s' \<le> sc_cache_max_count cfg \<and>
      (\<forall>i m. messages_get_async lib cfg i s' = Inr (Some m) \<longrightarrow> clock k < sm_expiry_time_at m)"
proof (cases "max_limit = 0")
  case False
  obtain es where inv: "store_inv lib cfg es s" using reachable_store [OF assms(1,2)] s by blast
  then have "messages_count cfg s = length es" by (rule store_count)
  with sweep_ends [OF inv assms(3), of max_limit "Suc (messages_count cfg s)" k] False obtain s' es' where s':
    "sweep_round (Suc (messages_count cfg s)) lib cfg clock k max_limit s = Some s'" "store_inv lib cfg es' s'"
    "length es' \<le> sc_cache_max_count cfg" "\<forall>i m. msg_of es' i = Some m \<longrightarrow> clock k < sm_expiry_time_at m" by auto
  have t: "table lib cfg s' es'" using s'(2) by (simp add: store_inv_def)
  show ?thesis using s' False by (simp add: table_get [OF t] del: sweep_round.simps)
qed (simp add: sweep_never_ends)

text \<open>Over the limit. One message too many is enough for the removal to take its maximum of messages, expired or not.\<close>

theorem overflow_drops_unexpired:
  assumes "codec_ok lib" and "list_all plain_op ops" and s: "s = fold (message_step lib cfg) ops ms_new"
    and "sc_cache_max_count cfg < messages_count cfg s"
  shows "\<exists>s'. ms_remove_expired lib cfg now max_limit s = (Inr (min (Suc max_limit) (messages_count cfg s)), s') \<and>
    messages_count cfg s' = messages_count cfg s - Suc max_limit"
proof -
  obtain es where inv: "store_inv lib cfg es s" using reachable_store [OF assms(1,2)] s by blast
  then have cnt: "messages_count cfg s = length es" by (rule store_count)
  obtain res s1 where rem: "ms_remove_expired lib cfg now max_limit s = (res, s1)" by fastforce
  from removal_summary [OF inv rem] obtain es1 n where one: "res = Inr n" "store_inv lib cfg es1 s1"
    "length es = length es1 + n" "n \<le> Suc max_limit" "n \<le> max_limit \<longrightarrow> (\<forall>i m. msg_of es1 i = Some m \<longrightarrow>
       sm_expiry_time_at m > now \<and> \<not> over_limit cfg (length es) (messages_bytes_size_get s))" by blast
  have "over_limit cfg (length es) (messages_bytes_size_get s)" using assms(4) cnt by (simp add: over_limit_def)
  then have "n \<le> max_limit \<Longrightarrow> es1 = []" using one(5) some_message [of es1] by blast
  then have "n = min (Suc max_limit) (length es) \<and> length es1 = length es - Suc max_limit"
    using one(3,4) by (cases "n \<le> max_limit") auto
  moreover have "messages_count cfg s1 = length es1" using one(2) by (rule store_count)
  ultimately show ?thesis using rem one(1) cnt by simp
qed

section \<open>Examples\<close>

text \<open>A library that encodes one message, and a history in which that message is stored, marked and kept by a removal.\<close>

abbreviation ex_stored_pub :: msg_publish where
  "ex_stored_pub \<equiv> rt_publish (ex_retain ''a/b'' 2)"

definition ex_stored :: stored_message where
  "ex_stored = \<lparr>sm_msg_id = 1, sm_from = rt_from (ex_retain ''a/b'' 2), sm_publish = ex_stored_pub, sm_expiry_time_at = 10\<rparr>"

definition ex_store_lib :: store_lib where
  "ex_store_lib = \<lparr>sl_encode = (\<lambda>m. if m = ex_stored then Inr [7] else Inl []),
     sl_decode = (\<lambda>b. if b = [7] then Inr ex_stored else Inl []), sl_get_size = (\<lambda>m. 1), sl_entry_size = (\<lambda>t. 1)\<rparr>"

definition ex_store_cfg :: "nat \<Rightarrow> store_cfg" where
  "ex_store_cfg n = \<lparr>sc_cache_capacity = 100, sc_cache_max_count = n, sc_encode = True\<rparr>"

definition ex_store_ops :: "message_op list" where
  "ex_store_ops = [OpPublish (rt_from (ex_retain ''a/b'' 2)) ex_stored_pub 10 (Some [(''d'', None)]) Sent, OpServe 0,
     OpMark 1 [(''e'', None)] Sent]"

lemma ex_codec: "codec_ok ex_store_lib"
  by (simp add: codec_ok_def ex_store_lib_def split: if_splits)

lemma ex_parse_ab: "topic_from_str ''a/b'' = Inr (Topic [Normal ''a'', Normal ''b''])" "topic_from_str ''a/+'' = Inr (Topic [Normal ''a'', SingleWildcard])"
  by (simp_all add: ex_parse)

lemma ex_pub_topic: "text_of (pub_topic (mp_inner ex_stored_pub)) = ''a/b''"
  by (simp add: ex_retain_def mp_from_def mp_new_def)

lemma ex_ops_plain: "list_all plain_op ex_store_ops"
  by (simp add: ex_store_ops_def ex_pub_topic ex_parse_ab plain_name_def is_wildcard_def)

lemma sweeps_append:
  "sweeps_ok lib cfg T (xs @ ys) s \<longleftrightarrow> sweeps_ok lib cfg T xs s \<and> sweeps_ok lib cfg T ys (fold (message_step lib cfg) xs s)"
  by (induction xs arbitrary: s) auto

lemma ex_state:
  "fold (message_step ex_store_lib (ex_store_cfg n)) ex_store_ops ms_new =
     \<lparr>ms_messages = [], ms_messages_encode = [(1, [7], 2)],
      ms_topic_tree = rn_insert (Topic [Normal ''a'', Normal ''b'', Normal (nat_to_string 1)]) 1 rn_default,
      ms_forwardeds = [(1, [(''d'', None)])], ms_expiries = [(10, 1)], ms_id_gen = 2, ms_bytes = 2,
      ms_queue = [MarkForwarded 1 [(''e'', None)]], ms_queue_count = 1\<rparr>"
  by (simp add: ex_store_ops_def message_step.simps next_msg_id_def ms_store_def mark_forwarded_def channel_send_def serve_next_def
      ms_process_def ms_set_def ex_pub_topic ex_parse_ab id_topic_def ex_store_cfg_def ex_store_lib_def index_message_def set_forwardeds_def
      ms_new_def ex_stored_def Let_def)

theorem stored_messages_found_witness:
  "\<exists>xs. ms_get ex_store_lib (ex_store_cfg 5) 3 ''c'' ''a/+'' None
      (fold (message_step ex_store_lib (ex_store_cfg 5)) (ex_store_ops @ [OpServe 1, OpSweep 2 5]) ms_new) = Inr xs \<and>
    distinct (map fst xs) \<and> (1, sm_from ex_stored, ex_stored_pub) \<in> set xs"
proof -
  let ?ops = "ex_store_ops @ [OpServe 1, OpSweep 2 5]"
  have sweeps: "sweeps_ok ex_store_lib (ex_store_cfg 5) 3 ?ops ms_new"
    unfolding sweeps_append ex_state
    by (simp add: ex_store_ops_def message_step.simps serve_next_def ms_process_def ex_store_cfg_def set_forwardeds_def
      over_limit_def messages_count_def messages_bytes_size_get_def messages_exist_def Let_def)
  have "sp_msgs (fold (spec_step ex_store_lib (ex_store_cfg 5)) ?ops spec_new) 1 = Some (ex_stored, [''d'' \<mapsto> None, ''e'' \<mapsto> None])"
    by (simp add: ex_store_ops_def spec_new_def storable_def ex_stored_def sm_topic_def ex_pub_topic ex_parse_ab ex_store_lib_def Let_def)
  moreover have "lookup_finds [Normal ''a'', SingleWildcard] 1 (sm_topic ex_stored)"
    by (simp add: lookup_finds_def sm_topic_def ex_stored_def ex_retain_def mp_from_def mp_new_def mqtt_match_def is_wildcard_def)
  moreover have "spec_due 3 ''c'' ''a/+'' None [''d'' \<mapsto> None, ''e'' \<mapsto> None] ex_stored"
    by (simp add: spec_due_def ex_stored_def ex_retain_def mp_from_def mp_new_def)
  moreover have "sm_publish ex_stored = ex_stored_pub" by (simp add: ex_stored_def)
  moreover have "list_all plain_op ?ops" using ex_ops_plain by simp
  ultimately show ?thesis using stored_messages_found [OF ex_codec _ sweeps ex_parse_ab(2), of "''c''" None] by auto
qed

theorem marked_never_again_witness:
  "\<exists>xs. ms_get ex_store_lib (ex_store_cfg 5) 3 ''e'' ''a/+'' None
      (fold (message_step ex_store_lib (ex_store_cfg 5)) (ex_store_ops @ [OpServe 1] @ [OpSweep 2 5]) ms_new) = Inr xs \<and> 1 \<notin> fst ` set xs"
proof -
  let ?get = "ms_get ex_store_lib (ex_store_cfg 5) 3 ''e'' ''a/+'' None
      (fold (message_step ex_store_lib (ex_store_cfg 5)) (ex_store_ops @ [OpServe 1] @ [OpSweep 2 5]) ms_new)"
  have "list_all plain_op ex_store_ops" by (rule ex_ops_plain)
  moreover have "\<exists>xs. ?get = Inr xs" by (simp add: ms_get_def ex_parse_ab Let_def)
  moreover have "messages_exist (ex_store_cfg 5) 1 (fold (message_step ex_store_lib (ex_store_cfg 5)) ex_store_ops ms_new)"
    unfolding ex_state by (simp add: messages_exist_def ex_store_cfg_def)
  ultimately show ?thesis
    using marked_never_again [OF ex_codec, of ex_store_ops "[OpSweep 2 5]" "ex_store_cfg 5" 1 "[(''e'', None)]" "[]" "''e''" 3 "''a/+''" None 1]
    by (auto simp: ex_state)
qed

theorem sweep_round_complete_witness:
  "\<exists>s'. sweep_round 2 ex_store_lib (ex_store_cfg 5) (\<lambda>k. 20 + int k) 0 1
      (fold (message_step ex_store_lib (ex_store_cfg 5)) ex_store_ops ms_new) = Some s' \<and>
    (\<forall>i m. messages_get_async ex_store_lib (ex_store_cfg 5) i s' = Inr (Some m) \<longrightarrow> 20 < sm_expiry_time_at m)"
proof -
  have "list_all plain_op ex_store_ops" by (rule ex_ops_plain)
  moreover have "mono (\<lambda>k. 20 + int k)" by (simp add: mono_def)
  moreover have "messages_count (ex_store_cfg 5) (fold (message_step ex_store_lib (ex_store_cfg 5)) ex_store_ops ms_new) = 1"
    by (simp add: ex_state messages_count_def) (simp add: ex_store_cfg_def)
  ultimately show ?thesis
    using sweep_round_complete [OF ex_codec _ _ refl, of ex_store_ops "\<lambda>k. 20 + int k" 1 "ex_store_cfg 5" 0]
    by (auto simp: numeral_2_eq_2)
qed

theorem overflow_drops_unexpired_witness:
  "\<exists>s'. ms_remove_expired ex_store_lib (ex_store_cfg 0) 1 7
      (fold (message_step ex_store_lib (ex_store_cfg 0)) ex_store_ops ms_new) = (Inr 1, s') \<and> messages_count (ex_store_cfg 0) s' = 0"
proof -
  have "list_all plain_op ex_store_ops" by (rule ex_ops_plain)
  moreover have "messages_count (ex_store_cfg 0) (fold (message_step ex_store_lib (ex_store_cfg 0)) ex_store_ops ms_new) = 1"
    by (simp add: ex_state messages_count_def) (simp add: ex_store_cfg_def)
  moreover have "sc_cache_max_count (ex_store_cfg 0) = 0" by (simp add: ex_store_cfg_def)
  ultimately show ?thesis
    using overflow_drops_unexpired [OF ex_codec _ refl, of ex_store_ops "ex_store_cfg 0" 1 7] by auto
qed

text \<open>The level above. The filter \<open>a/b/+/#\<close> asks for topics with at least three levels; the lookup with it finds the message of
  \<open>a/b\<close>, because its identifier is taken for the third level.\<close>

theorem parent_level_found:
  "ms_get ex_store_lib (ex_store_cfg 5) 3 ''c'' ''a/b/+/#'' None (fold (message_step ex_store_lib (ex_store_cfg 5)) ex_store_ops ms_new)
     = Inr [(1, sm_from ex_stored, sm_publish ex_stored)]
   \<and> \<not> mqtt_match [Normal ''a'', Normal ''b'', SingleWildcard, MultiWildcard] (split_slash (sm_topic ex_stored))"
  unfolding ex_state by code_simp

end
