(* ===== verification/Delayed.thy ===== *)
theory Delayed
  imports Broker_Types "HOL-Library.Multiset"
begin

text \<open>
  Delayed publications: \<open>ferromq/src/delayed.rs\<close> and the type \<open>DelayedPublish\<close> of \<open>types.rs\<close>. The topic
  \<open>$delayed/<seconds>/<topic>\<close> asks for a delay; the message waits in a binary heap ordered by its expiry, and a task
  forwards what has expired. The heap is a list of which \<open>heap_pop\<close> takes an entry with the least expiry time; the
  library does not fix which one of several. The clock is a parameter; the task reads it once per step.

  Shown: the topics that ask for a delay and the error for a bad number; a pass of the task forwards exactly the
  expired messages, each once and in the order of their expiry, and stops.
\<close>

section \<open>Delayed messages\<close>

record delayed_publish =
  dp_expired_time :: timestamp
  dp_from :: msg_from
  dp_publish :: msg_publish
  dp_message_storage_available :: bool
  dp_message_expiry_interval :: "nat option"

definition dp_new :: "timestamp \<Rightarrow> msg_from \<Rightarrow> msg_publish \<Rightarrow> bool \<Rightarrow> nat option \<Rightarrow> delayed_publish" where
  "dp_new now from p storage expiry =
     \<lparr>dp_expired_time = (case mp_delay_interval p of Some di \<Rightarrow> now + uint di * 1000 | None \<Rightarrow> now),
      dp_from = from, dp_publish = p, dp_message_storage_available = storage, dp_message_expiry_interval = expiry\<rparr>"

definition dp_is_expired :: "timestamp \<Rightarrow> delayed_publish \<Rightarrow> bool" where
  "dp_is_expired now dp = (now > dp_expired_time dp)"

text \<open>\<open>Ord\<close> compares the other way round: the greatest entry of the heap is the one that expires first.\<close>

definition dp_less :: "delayed_publish \<Rightarrow> delayed_publish \<Rightarrow> bool" where
  "dp_less a b = (dp_expired_time b < dp_expired_time a)"

section \<open>The sender\<close>

text \<open>\<open>delay_interval.parse::<u32>()\<close>\<close>

definition parse_u32 :: "string \<Rightarrow> u32 option" where
  "parse_u32 s = (case parse_usize s of Some n \<Rightarrow> (if n < 2 ^ 32 then Some (word_of_nat n) else None) | None \<Rightarrow> None)"

definition delayed_parse :: "msg_publish \<Rightarrow> string + msg_publish" where
  "delayed_parse p =
     (let topic_text = text_of (pub_topic (mp_inner p))
      in case splitn_slash 3 topic_text of
           [first, delay_interval, topic] \<Rightarrow>
             (if first = ''$delayed'' then
                (case parse_u32 delay_interval of
                   None \<Rightarrow> Inl (''the delay time of $delayed must be an integer, topic: '' @ topic_text)
                 | Some interval_s \<Rightarrow>
                     Inr (p\<lparr>mp_delay_interval := Some interval_s,
                            mp_inner := (mp_inner p)\<lparr>pub_topic := text_bytes topic\<rparr>\<rparr>))
              else Inr p)
         | _ \<Rightarrow> Inr p)"

text \<open>The state: the heap and the maximum of the counter \<open>delayed_publishs\<close>. The result is the refused message.\<close>

definition delay_publish :: "nat \<Rightarrow> timestamp \<Rightarrow> msg_from \<Rightarrow> msg_publish \<Rightarrow> bool \<Rightarrow> nat option \<Rightarrow>
    delayed_publish list \<times> counter \<Rightarrow> (msg_from \<times> msg_publish) option \<times> delayed_publish list \<times> counter" where
  "delay_publish mqtt_delayed_publish_max now from p storage expiry = (\<lambda>(msgs, st).
     if length msgs < mqtt_delayed_publish_max
     then (let msgs = dp_new now from p storage expiry # msgs
           in (None, msgs, counter_max_max (int (length msgs)) st))
     else (Some (from, p), msgs, st))"

definition heap_peek :: "delayed_publish list \<Rightarrow> delayed_publish option" where
  "heap_peek msgs = (case msgs of [] \<Rightarrow> None | _ \<Rightarrow> Some (arg_min_list dp_expired_time msgs))"

definition heap_pop :: "delayed_publish list \<Rightarrow> (delayed_publish \<times> delayed_publish list) option" where
  "heap_pop msgs = (case heap_peek msgs of None \<Rightarrow> None | Some dp \<Rightarrow> Some (dp, remove1 dp msgs))"

text \<open>\<open>DefaultDelayedSender::send\<close>: what is handed to \<open>inner_forwards\<close>.\<close>

definition delayed_send :: "delayed_publish \<Rightarrow> msg_from \<times> msg_publish \<times> bool \<times> nat option" where
  "delayed_send dp =
     (dp_from dp, (dp_publish dp)\<lparr>mp_delay_interval := None\<rparr>, dp_message_storage_available dp, dp_message_expiry_interval dp)"

lemma arg_min_list_in: "xs \<noteq> [] \<Longrightarrow> arg_min_list f xs \<in> set xs"
  by (induction xs rule: induct_list012) (auto simp: Let_def)

lemma heap_pop_props:
  assumes "heap_pop msgs = Some (dp, rest)"
  shows "dp \<in> set msgs" "mset msgs = add_mset dp (mset rest)" "\<forall>x\<in>set msgs. dp_expired_time dp \<le> dp_expired_time x"
    "length rest < length msgs"
proof -
  have dp: "dp = arg_min_list dp_expired_time msgs" "rest = remove1 dp msgs" and ne: "msgs \<noteq> []"
    using assms by (auto simp: heap_pop_def heap_peek_def split: list.splits)
  show "dp \<in> set msgs" using arg_min_list_in [OF ne] dp(1) by simp
  then show "mset msgs = add_mset dp (mset rest)" "length rest < length msgs"
    using dp(2) ne by (auto simp: length_remove1)
  show "\<forall>x\<in>set msgs. dp_expired_time dp \<le> dp_expired_time x"
    using f_arg_min_list_f [OF ne, of dp_expired_time] dp(1) by simp
qed

text \<open>The inner loop of the task. The function \<open>clock\<close> gives the time that the k-th step reads.\<close>

function delayed_loop :: "(nat \<Rightarrow> timestamp) \<Rightarrow> nat \<Rightarrow> delayed_publish list \<Rightarrow> delayed_publish list \<times> delayed_publish list" where
  "delayed_loop clock k msgs =
     (case heap_peek msgs of
        None \<Rightarrow> ([], msgs)
      | Some front \<Rightarrow>
          (if dp_is_expired (clock k) front then
             (case heap_pop msgs of
                Some (dp, msgs') \<Rightarrow>
                  (case delayed_loop clock (Suc k) msgs' of (sent, left) \<Rightarrow> (dp # sent, left))
              | None \<Rightarrow> ([], msgs))
           else ([], msgs)))"
  by pat_completeness auto
termination
  by (relation "measure (\<lambda>(clock, k, msgs). length msgs)") (auto dest: heap_pop_props(4))

declare delayed_loop.simps [simp del]

definition delayed_pass :: "(nat \<Rightarrow> timestamp) \<Rightarrow> delayed_publish list \<Rightarrow>
    (msg_from \<times> msg_publish \<times> bool \<times> nat option) list \<times> delayed_publish list" where
  "delayed_pass clock msgs = (case delayed_loop clock 0 msgs of (sent, left) \<Rightarrow> (map delayed_send sent, left))"

section \<open>One pass\<close>

lemma delayed_loop_spec:
  assumes "delayed_loop clock k msgs = (sent, left)"
  shows "mset msgs = mset sent + mset left \<and>
    sorted (map dp_expired_time sent) \<and>
    (\<forall>i<length sent. dp_is_expired (clock (k + i)) (sent ! i)) \<and>
    (\<forall>x\<in>set left. \<not> dp_is_expired (clock (k + length sent)) x)"
  using assms
proof (induction clock k msgs arbitrary: sent rule: delayed_loop.induct)
  case (1 clock k msgs)
  show ?case
  proof (cases "\<exists>front. heap_peek msgs = Some front \<and> dp_is_expired (clock k) front")
    case False
    then have r: "sent = []" "left = msgs"
      using "1.prems" unfolding delayed_loop.simps [of clock k msgs] by (auto split: option.splits if_splits)
    have "\<not> dp_is_expired (clock k) x" if x: "x \<in> set msgs" for x
    proof -
      obtain front where front: "heap_peek msgs = Some front" using x by (cases msgs) (auto simp: heap_peek_def)
      then have "heap_pop msgs = Some (front, remove1 front msgs)" by (simp add: heap_pop_def)
      from heap_pop_props(3) [OF this] x False front show ?thesis by (fastforce simp: dp_is_expired_def)
    qed
    with r show ?thesis by simp
  next
    case True
    then obtain front where front: "heap_peek msgs = Some front" "dp_is_expired (clock k) front" by blast
    let ?rest = "remove1 front msgs"
    have pop: "heap_pop msgs = Some (front, ?rest)" using front by (simp add: heap_pop_def)
    obtain sent' where l: "delayed_loop clock (Suc k) ?rest = (sent', left)" and sent: "sent = front # sent'"
      using "1.prems" front pop unfolding delayed_loop.simps [of clock k msgs]
      by (cases "delayed_loop clock (Suc k) (remove1 front msgs)") simp
    note IH = "1.IH" [OF front(1,2) pop refl l]
    have "\<forall>x\<in>set sent'. dp_expired_time front \<le> dp_expired_time x"
    proof
      fix x assume "x \<in> set sent'"
      then have "x \<in># mset msgs" using heap_pop_props(2) [OF pop] IH by simp
      then show "dp_expired_time front \<le> dp_expired_time x" using heap_pop_props(3) [OF pop] by simp
    qed
    then have "sorted (map dp_expired_time sent)" using IH sent by simp
    moreover have "\<forall>i<length sent. dp_is_expired (clock (k + i)) (sent ! i)"
      using IH front sent by (auto simp: less_Suc_eq_0_disj)
    moreover have "mset msgs = mset sent + mset left"
      using heap_pop_props(2) [OF pop] IH unfolding sent by (metis mset.simps(2) union_mset_add_mset_left)
    ultimately show ?thesis using IH sent by simp
  qed
qed

section \<open>Properties\<close>

text \<open>A pass of the delayed-message task terminates and forwards exactly the messages that have expired:
  the heap is split without loss or duplication, forwarded messages are in the order of their expiry and each
  has expired at the time its step read, and none that is left has expired at the last reading.\<close>

theorem delayed_pass_exact:
  "\<exists>sent left. delayed_pass clock msgs = (map delayed_send sent, left) \<and>
     mset msgs = mset sent + mset left \<and> sorted (map dp_expired_time sent) \<and>
     (\<forall>i. i < length sent \<longrightarrow> clock i > dp_expired_time (sent ! i)) \<and>
     (\<forall>x. x \<in> set left \<longrightarrow> clock (length sent) \<le> dp_expired_time x)"
proof -
  obtain sent left where r: "delayed_loop clock 0 msgs = (sent, left)" by fastforce
  from delayed_loop_spec [OF this] show ?thesis
    by (intro exI [of _ sent] exI [of _ left]) (auto simp: delayed_pass_def r dp_is_expired_def not_less)
qed

definition ex_delayed :: "timestamp \<Rightarrow> u32 \<Rightarrow> delayed_publish" where
  "ex_delayed now di = dp_new now \<lparr>from_typ = FromCustom, from_id = id_from 0 1 ''c''\<rparr>
     (mp_set_delay_interval di (mp_from \<lparr>pub_dup = False, pub_retain = False, pub_qos = AtMostOnce, pub_topic = [97],
        pub_packet_id = None, pub_payload = [], pub_properties = None\<rparr>)) False None"

theorem delayed_pass_exact_witness:
  "\<exists>sent left. delayed_pass (\<lambda>_. 3000) [ex_delayed 0 5, ex_delayed 0 2, ex_delayed 0 1] = (map delayed_send sent, left) \<and>
     mset [ex_delayed 0 5, ex_delayed 0 2, ex_delayed 0 1] = mset sent + mset left \<and>
     (\<forall>i. i < length sent \<longrightarrow> 3000 > dp_expired_time (sent ! i)) \<and>
     (\<forall>x. x \<in> set left \<longrightarrow> 3000 \<le> dp_expired_time x)"
  using delayed_pass_exact [of "\<lambda>_. 3000" "[ex_delayed 0 5, ex_delayed 0 2, ex_delayed 0 1]"] by blast

text \<open>The topics of delayed messages: \<open>$delayed/n/t\<close> with a number below \<open>2 ^ 32\<close> becomes the topic \<open>t\<close> with a
  delay of \<open>n\<close> seconds, with anything else for \<open>n\<close> it is refused, and a topic whose first level is another
  is left as it is.\<close>

theorem delayed_topics:
  assumes "CHR ''/'' \<notin> set n" and "pub_topic (mp_inner p) = text_bytes (''$delayed/'' @ n @ ''/'' @ t)"
    and "CHR ''/'' \<notin> set l" and "l \<noteq> ''$delayed''" and "pub_topic (mp_inner q) = text_bytes (l @ ''/'' @ u)"
  shows "(parse_u32 n = Some k \<longrightarrow>
      delayed_parse p = Inr (p\<lparr>mp_delay_interval := Some k, mp_inner := (mp_inner p)\<lparr>pub_topic := text_bytes t\<rparr>\<rparr>)) \<and>
    (parse_u32 n = None \<longrightarrow> isl (delayed_parse p)) \<and> delayed_parse q = Inr q"
proof -
  have "splitn_slash 3 (''$delayed'' @ CHR ''/'' # n @ CHR ''/'' # t) = [''$delayed'', n, t]"
    by (simp add: eval_nat_numeral splitn_prefix assms(1) del: append_Cons)
  moreover have "splitn_slash 3 (l @ CHR ''/'' # u) = l # splitn_slash 2 u"
    by (simp add: eval_nat_numeral splitn_prefix assms(3))
  ultimately show ?thesis using assms(2,4,5)
    by (auto simp: delayed_parse_def Let_def split: list.splits)
qed

theorem delayed_topics_witness:
  "\<exists>p q. delayed_parse p = Inr (p\<lparr>mp_delay_interval := Some 15, mp_inner := (mp_inner p)\<lparr>pub_topic := text_bytes ''a/b''\<rparr>\<rparr>) \<and>
     pub_topic (mp_inner p) = text_bytes ''$delayed/15/a/b'' \<and> delayed_parse q = Inr q"
proof -
  let ?p = "\<lambda>t. mp_from \<lparr>pub_dup = False, pub_retain = False, pub_qos = AtMostOnce, pub_topic = text_bytes t,
        pub_packet_id = None, pub_payload = [], pub_properties = None\<rparr>"
  have "parse_u32 ''15'' = Some 15" by (simp add: parse_u32_def parse_usize_def digit_val_def of_char_def Let_def)
  moreover have "pub_topic (mp_inner (?p t)) = text_bytes t" for t by (simp add: mp_from_def mp_new_def)
  ultimately show ?thesis
    using delayed_topics [of "''15''" "?p ''$delayed/15/a/b''" "''a/b''" "''x''" "?p ''x/y''" "''y''" 15]
    by (intro exI [of _ "?p ''$delayed/15/a/b''"] exI [of _ "?p ''x/y''"]) (simp only: append.simps set_simps insert_iff empty_iff simp_thms char.inject list.inject list.distinct)
qed

end
