(* ===== verification/Queue.thy ===== *)
theory Queue
  imports Prelude
begin

text \<open>
  \<open>ferromq/src/queue.rs\<close>: the bounded message queue of a session, the sender with its overflow policy
  and the receiving stream. Every operation of the queue holds its lock, so that the interleavings of
  several threads are the sequences of these operations (\<open>queue_op\<close>); \<open>Sender::send\<close> takes the lock up to three
  times.

  The signal channel between sender and stream is third-party code (\<open>futures::channel::mpsc\<close>) and a
  parameter: \<open>try_send\<close> and \<open>poll\<close>. The callbacks of the queue are recorded as events. The rate limiter
  (\<open>governor\<close>) only delays what the stream yields.

  Shown: the queue never exceeds its capacity and is first-in first-out without loss or duplication, for every
  interleaving; what \<open>send\<close> does under each policy; no queued message is without a signal.
\<close>

section \<open>The queue\<close>

datatype policy = Current | Early

datatype queue_event = OnPush | OnPop

record 'a queue =
  q_cap :: nat
  q_inner :: "'a list"
  q_on_push :: bool
  q_on_pop :: bool
  q_events :: "queue_event list"

definition queue_new :: "nat \<Rightarrow> 'a queue" where
  "queue_new cap = \<lparr>q_cap = cap, q_inner = [], q_on_push = False, q_on_pop = False, q_events = []\<rparr>"

definition queue_on_push :: "'a queue \<Rightarrow> 'a queue" where
  "queue_on_push q = q\<lparr>q_on_push := True\<rparr>"

definition queue_on_pop :: "'a queue \<Rightarrow> 'a queue" where
  "queue_on_pop q = q\<lparr>q_on_pop := True\<rparr>"

text \<open>\<open>Err(v)\<close> is \<open>Inl v\<close>.\<close>

definition queue_push :: "'a \<Rightarrow> 'a queue \<Rightarrow> ('a + unit) \<times> 'a queue" where
  "queue_push v q =
     (if length (q_inner q) \<ge> q_cap q then (Inl v, q)
      else (Inr (), q\<lparr>q_events := q_events q @ (if q_on_push q then [OnPush] else []),
                      q_inner := q_inner q @ [v]\<rparr>))"

definition queue_pop :: "'a queue \<Rightarrow> 'a option \<times> 'a queue" where
  "queue_pop q =
     (case q_inner q of
        v # vs \<Rightarrow> (Some v, q\<lparr>q_inner := vs, q_events := q_events q @ (if q_on_pop q then [OnPop] else [])\<rparr>)
      | [] \<Rightarrow> (None, q))"

definition queue_len :: "'a queue \<Rightarrow> nat" where
  "queue_len q = length (q_inner q)"

definition queue_is_empty :: "'a queue \<Rightarrow> bool" where
  "queue_is_empty q = (queue_len q = 0)"

section \<open>Sender and stream\<close>

text \<open>
  \<open>send\<close>: \<open>policy_fn\<close> decides on overflow; \<open>try_send\<close> puts a signal into the channel and tells whether that
  succeeded (a failure is only logged).
\<close>

definition sender_send :: "('a \<Rightarrow> policy) \<Rightarrow> ('c \<Rightarrow> bool \<times> 'c) \<Rightarrow> 'a \<Rightarrow> 'a queue \<times> 'c \<Rightarrow>
    ('a + unit) \<times> 'a queue \<times> 'c" where
  "sender_send policy_fn try_send v = (\<lambda>(q, ch).
     case queue_push v q of
       (Inl v, q) \<Rightarrow>
         (case policy_fn v of
            Current \<Rightarrow> (Inl v, q, ch)
          | Early \<Rightarrow>
              (case queue_pop q of
                 (removed, q) \<Rightarrow>
                   (case queue_push v q of
                      (Inl v, q) \<Rightarrow> (Inl v, q, ch)
                    | (Inr _, q) \<Rightarrow> (case removed of Some r \<Rightarrow> (Inl r, q, ch) | None \<Rightarrow> (Inr (), q, ch)))))
     | (Inr _, q) \<Rightarrow> (case try_send ch of (_, ch) \<Rightarrow> (Inr (), q, ch)))"

definition sender_pop :: "'a queue \<times> 'c \<Rightarrow> 'a option \<times> 'a queue \<times> 'c" where
  "sender_pop = (\<lambda>(q, ch). case queue_pop q of (r, q) \<Rightarrow> (r, q, ch))"

text \<open>A poll of the channel: not ready, closed, or a signal.\<close>

datatype 'a poll = Pending | Ready 'a

definition stream_poll_next :: "('c \<Rightarrow> unit option poll \<times> 'c) \<Rightarrow> 'a queue \<times> 'c \<Rightarrow>
    'a option option poll \<times> 'a queue \<times> 'c" where
  "stream_poll_next poll = (\<lambda>(q, ch).
     case poll ch of
       (Pending, ch) \<Rightarrow> (Pending, q, ch)
     | (Ready (Some _), ch) \<Rightarrow> (case queue_pop q of (r, q) \<Rightarrow> (Ready (Some r), q, ch))
     | (Ready None, ch) \<Rightarrow> (Ready None, q, ch))"

text \<open>\<open>Limiter::new\<close>: the period of one token in nanoseconds, of a duration in nanoseconds.\<close>

definition limiter_period :: "u32 \<Rightarrow> nat \<Rightarrow> 64 word" where
  "limiter_period burst replenish_nanos =
     (let period = word_of_nat replenish_nanos div ucast burst :: 64 word
      in if period > 0 then period else 1)"

text \<open>\<open>Limiter::channel\<close>: one signal for each message that is already queued.\<close>

fun prime_signals :: "nat \<Rightarrow> ('c \<Rightarrow> bool \<times> 'c) \<Rightarrow> 'c \<Rightarrow> 'c" where
  "prime_signals 0 try_send ch = ch"
| "prime_signals (Suc n) try_send ch = prime_signals n try_send (snd (try_send ch))"

definition limiter_channel :: "('c \<Rightarrow> bool \<times> 'c) \<Rightarrow> 'c \<Rightarrow> 'a queue \<Rightarrow> 'a queue \<times> 'c" where
  "limiter_channel try_send ch q = (q, prime_signals (queue_len q) try_send ch)"

section \<open>Every interleaving\<close>

datatype 'a queue_op = Push 'a | Pop

fun queue_step :: "'a queue_op \<Rightarrow> 'a queue \<Rightarrow> ('a option \<times> 'a option) \<times> 'a queue" where
  "queue_step (Push v) q = (case queue_push v q of (r, q') \<Rightarrow> ((case r of Inr _ \<Rightarrow> Some v | Inl _ \<Rightarrow> None, None), q'))"
| "queue_step Pop q = (case queue_pop q of (r, q') \<Rightarrow> ((None, r), q'))"

text \<open>The accepted and the delivered messages of a sequence of operations.\<close>

fun queue_run :: "'a queue_op list \<Rightarrow> 'a queue \<Rightarrow> 'a list \<times> 'a list \<times> 'a queue" where
  "queue_run [] q = ([], [], q)"
| "queue_run (op # ops) q =
     (case queue_step op q of
        ((acc, del), q') \<Rightarrow>
          (case queue_run ops q' of
             (accs, dels, q'') \<Rightarrow> ((case acc of Some v \<Rightarrow> v # accs | None \<Rightarrow> accs),
               (case del of Some v \<Rightarrow> v # dels | None \<Rightarrow> dels), q'')))"

lemma queue_push_cap [simp]: "q_cap (snd (queue_push v q)) = q_cap q"
  by (simp add: queue_push_def)

lemma queue_pop_cap [simp]: "q_cap (snd (queue_pop q)) = q_cap q"
  by (simp add: queue_pop_def split: list.splits)

lemma queue_step_cap: "q_cap (snd (queue_step op q)) = q_cap q"
  by (cases op) (auto simp: queue_push_def queue_pop_def split: list.splits)

lemma queue_step_bound:
  "length (q_inner q) \<le> q_cap q \<Longrightarrow> length (q_inner (snd (queue_step op q))) \<le> q_cap q"
  by (cases op) (auto simp: queue_push_def queue_pop_def split: list.splits)

lemma queue_step_fifo:
  "queue_step op q = ((acc, del), q') \<Longrightarrow>
     q_inner q @ (case acc of Some v \<Rightarrow> [v] | None \<Rightarrow> [])
       = (case del of Some v \<Rightarrow> [v] | None \<Rightarrow> []) @ q_inner q'"
  by (cases op) (auto simp: queue_push_def queue_pop_def split: list.splits if_splits)

lemma queue_run_fifo:
  "queue_run ops q = (accs, dels, q') \<Longrightarrow> q_inner q @ accs = dels @ q_inner q'"
proof (induction ops arbitrary: q accs dels q')
  case (Cons op ops)
  obtain acc del q1 where s: "queue_step op q = ((acc, del), q1)" by (metis prod.exhaust)
  obtain accs1 dels1 q2 where r: "queue_run ops q1 = (accs1, dels1, q2)" by (metis prod.exhaust)
  let ?a = "case acc of Some v \<Rightarrow> [v] | None \<Rightarrow> []" and ?d = "case del of Some v \<Rightarrow> [v] | None \<Rightarrow> []"
  have "accs = ?a @ accs1" "dels = ?d @ dels1" "q2 = q'"
    using Cons.prems s r by (auto split: option.splits)
  then show ?case using Cons.IH [OF r] queue_step_fifo [OF s] by (metis append.assoc)
qed simp

lemma queue_run_bound:
  "queue_run ops q = (accs, dels, q') \<Longrightarrow> length (q_inner q) \<le> q_cap q \<Longrightarrow>
     q_cap q' = q_cap q \<and> length (q_inner q') \<le> q_cap q"
proof (induction ops arbitrary: q accs dels q')
  case (Cons op ops)
  obtain acc del q1 where s: "queue_step op q = ((acc, del), q1)" by (metis prod.exhaust)
  obtain accs1 dels1 q2 where r: "queue_run ops q1 = (accs1, dels1, q2)" by (metis prod.exhaust)
  from Cons.IH [OF r] Cons.prems s r queue_step_bound [of q op] queue_step_cap [of op q] show ?case
    by auto
qed auto

section \<open>Signals\<close>

text \<open>
  What the code relies on of the channel, with \<open>signals\<close> the number of signals in it: a successful
  \<open>try_send\<close> adds one, and a poll takes one if there is one.
\<close>

definition signal_channel :: "('c \<Rightarrow> nat) \<Rightarrow> ('c \<Rightarrow> bool \<times> 'c) \<Rightarrow> ('c \<Rightarrow> unit option poll \<times> 'c) \<Rightarrow> bool" where
  "signal_channel signals try_send poll \<longleftrightarrow>
     (\<forall>ch. fst (try_send ch) \<longrightarrow> signals (snd (try_send ch)) = signals ch + 1) \<and>
     (\<forall>ch. 0 < signals ch \<longrightarrow> fst (poll ch) = Ready (Some ()) \<and> signals (snd (poll ch)) + 1 = signals ch) \<and>
     (\<forall>ch. signals ch = 0 \<longrightarrow> fst (poll ch) \<noteq> Ready (Some ()) \<and> signals (snd (poll ch)) = 0)"

text \<open>The transitions of the pair of queue and channel.\<close>

inductive chan_step :: "('a \<Rightarrow> policy) \<Rightarrow> ('c \<Rightarrow> bool \<times> 'c) \<Rightarrow> ('c \<Rightarrow> unit option poll \<times> 'c) \<Rightarrow>
    'a queue \<times> 'c \<Rightarrow> 'a queue \<times> 'c \<Rightarrow> bool"
  for policy_fn try_send poll where
  send: "fst (try_send ch) \<Longrightarrow> chan_step policy_fn try_send poll (q, ch) (snd (sender_send policy_fn try_send v (q, ch)))"
| recv: "chan_step policy_fn try_send poll s (snd (stream_poll_next poll s))"
| pop: "chan_step policy_fn try_send poll s (snd (sender_pop s))"

inductive chan_reach :: "('a \<Rightarrow> policy) \<Rightarrow> ('c \<Rightarrow> bool \<times> 'c) \<Rightarrow> ('c \<Rightarrow> unit option poll \<times> 'c) \<Rightarrow>
    'a queue \<times> 'c \<Rightarrow> 'a queue \<times> 'c \<Rightarrow> bool"
  for policy_fn try_send poll s where
  start: "chan_reach policy_fn try_send poll s s"
| step: "chan_reach policy_fn try_send poll s t \<Longrightarrow> chan_step policy_fn try_send poll t u \<Longrightarrow>
    chan_reach policy_fn try_send poll s u"

lemma queue_pop_len: "queue_len (snd (queue_pop q)) = queue_len q - 1"
  by (simp add: queue_pop_def queue_len_def split: list.splits)

lemma signal_channelD:
  assumes "signal_channel signals try_send poll"
  shows "try_send ch = (True, ch') \<Longrightarrow> signals ch' = signals ch + 1"
    and "poll ch = (r, ch') \<Longrightarrow> signals ch = 0 \<Longrightarrow> r \<noteq> Ready (Some ()) \<and> signals ch' = 0"
    and "poll ch = (r, ch') \<Longrightarrow> 0 < signals ch \<Longrightarrow> r = Ready (Some ()) \<and> signals ch' + 1 = signals ch"
  using assms unfolding signal_channel_def by (metis fst_conv snd_conv)+

lemma send_len:
  assumes "signal_channel signals try_send poll" and "fst (try_send ch)"
    and "queue_len q \<le> signals ch" and "sender_send policy_fn try_send v (q, ch) = (r, q', ch')"
  shows "queue_len q' \<le> signals ch'"
proof -
  obtain c1 where c1: "try_send ch = (True, c1)" using assms(2) by (cases "try_send ch") auto
  from signal_channelD(1) [OF assms(1) c1] assms(3,4) c1 show ?thesis
    by (auto simp: sender_send_def queue_push_def queue_pop_def queue_len_def
        split: if_splits policy.splits list.splits option.splits)
qed

lemma poll_len:
  assumes "signal_channel signals try_send poll" and "queue_len q \<le> signals ch"
    and "stream_poll_next poll (q, ch) = (r, q', ch')"
  shows "queue_len q' \<le> signals ch'"
proof -
  obtain x c1 where p: "poll ch = (x, c1)" by fastforce
  show ?thesis
  proof (cases "signals ch = 0")
    case True
    with signal_channelD(2) [OF assms(1) p] assms(2,3) p show ?thesis
      by (auto simp: stream_poll_next_def split: poll.splits option.splits)
  next
    case False
    with signal_channelD(3) [OF assms(1) p] assms(2,3) p queue_pop_len [of q] show ?thesis
      by (auto simp: stream_poll_next_def split: prod.splits)
  qed
qed

lemma chan_step_signals:
  assumes "signal_channel signals try_send poll"
    and "chan_step policy_fn try_send poll (q, ch) (q', ch')" and "queue_len q \<le> signals ch"
  shows "queue_len q' \<le> signals ch'"
  using assms(2)
proof cases
  case (send v)
  then show ?thesis using send_len [OF assms(1) _ assms(3)] by (metis prod.collapse)
next
  case recv
  then show ?thesis using poll_len [OF assms(1,3)] by (metis prod.collapse)
next
  case pop
  then show ?thesis using assms(3) queue_pop_len [of q] by (auto simp: sender_pop_def split: prod.splits)
qed

lemma chan_reach_signals:
  assumes "signal_channel signals try_send poll"
    and "chan_reach policy_fn try_send poll s t" and "queue_len (fst s) \<le> signals (snd s)"
  shows "queue_len (fst t) \<le> signals (snd t)"
  using assms(2)
proof induction
  case (step t u)
  then show ?case using chan_step_signals [OF assms(1)] by (metis prod.collapse)
qed (rule assms(3))

section \<open>Properties\<close>

text \<open>Whatever the threads that share a queue do, the queue never holds more messages than its
  capacity, and the messages that it delivers followed by those it holds are the messages it has
  accepted, in the same order: nothing is lost, duplicated or reordered.\<close>

theorem queue_fifo_bounded:
  "case queue_run ops (queue_new cap) of
     (accepted, delivered, q) \<Rightarrow> accepted = delivered @ q_inner q \<and> length (q_inner q) \<le> cap"
  using queue_run_fifo [of ops "queue_new cap"] queue_run_bound [of ops "queue_new cap"]
  by (auto simp: queue_new_def split: prod.splits)

text \<open>Sending to a full queue: with the policy \<open>Current\<close> the message is handed back and nothing
  changes; with \<open>Early\<close>, if the queue can hold anything at all, the oldest message is handed back and
  the new one is at the end.\<close>

theorem send_full_queue:
  assumes "length (q_inner q) = q_cap q" and "q_inner q = old # rest"
  shows "sender_send policy_fn try_send v (q, ch) =
    (case policy_fn v of
       Current \<Rightarrow> (Inl v, q, ch)
     | Early \<Rightarrow> (Inl old, q\<lparr>q_inner := rest @ [v],
         q_events := q_events q @ (if q_on_pop q then [OnPop] else []) @ (if q_on_push q then [OnPush] else [])\<rparr>, ch))"
  using assms by (auto simp: sender_send_def queue_push_def queue_pop_def split: policy.splits)

theorem send_full_queue_witness:
  "sender_send (\<lambda>_. Early) (\<lambda>ch. (True, ch)) (3 :: nat)
     (\<lparr>q_cap = 2, q_inner = [1, 2], q_on_push = False, q_on_pop = True, q_events = []\<rparr>, ())
   = (Inl 1, \<lparr>q_cap = 2, q_inner = [2, 3], q_on_push = False, q_on_pop = True, q_events = [OnPop]\<rparr>, ())"
  using send_full_queue [of "\<lparr>q_cap = 2, q_inner = [1, 2 :: nat], q_on_push = False, q_on_pop = True, q_events = []\<rparr>" 1 "[2]"
      "\<lambda>_. Early" "\<lambda>ch. (True, ch)" 3 "()"] by simp

text \<open>As long as no signal is refused by the channel, every reachable state of queue and channel has
  a signal for every queued message: a receiver that polls until the channel is empty has taken
  all messages.\<close>

theorem no_message_without_signal:
  assumes "signal_channel signals try_send poll"
    and "chan_reach policy_fn try_send poll (queue_new cap, ch0) (q, ch)" and "signals ch = 0"
  shows "q_inner q = []"
  using chan_reach_signals [OF assms(1,2)] assms(3) by (simp add: queue_len_def queue_new_def)

theorem no_message_without_signal_witness:
  "q_inner (queue_new 3 :: nat queue) = []"
proof (rule no_message_without_signal)
  show "signal_channel id (\<lambda>n. (True, n + 1)) (\<lambda>n. if n = 0 then (Pending, 0) else (Ready (Some ()), n - 1))"
    by (simp add: signal_channel_def)
  show "chan_reach (\<lambda>_. Current) (\<lambda>n. (True, n + 1)) (\<lambda>n. if n = 0 then (Pending, 0) else (Ready (Some ()), n - 1))
      (queue_new 3 :: nat queue, 0 :: nat) (queue_new 3, 0)"
    by (rule chan_reach.start)
qed simp

end
