(* ===== verification/Session.thy ===== *)
theory Session
  imports Shared Delayed Queue
begin

text \<open>
  The protocol side of a session, \<open>ferromq/src/session.rs\<close>: what the session task does with a packet of the client,
  with a message from its delivery queue and with a message that has timed out or comes from a previous
  session. A handler runs to its end before the next event of the task, so it is a function of the state. The state
  has the two inflight windows, the alias tables, the shared state of the node, the delayed messages, the packets
  written to the client so far, and the calls of hooks that report a message.

  Parameters (record \<open>session_env\<close>): whether a packet can be written, the answers of hooks and of plug-ins, the
  configuration of the listener, the clock. They may change from event to event.

  This theory holds the definitions; what is shown of them is in \<open>Session_Protocol\<close> (exactly once, acknowledgements),
  \<open>Session_Agreement\<close> (the shared state) and \<open>Session_Delivery\<close> (delivery, retransmission, takeover, last will).
\<close>

section \<open>State\<close>

record state_flags =
  fl_kicked :: bool
  fl_by_admin_kick :: bool
  fl_disconnect_received :: bool
  fl_clean_start :: bool
  fl_ping :: bool

record disconnect_info =
  din_disconnected_at :: timestamp
  din_reasons :: "reason list"
  din_mqtt_disconnect :: "broker_disconnect option"

datatype session_error =
    SE_Mqtt mqtt_error | SE_Topic topic_error | SE_Entry entry_error | SE_Filter filter_error

record listener_cfg =
  lc_max_subscriptions :: nat
  lc_max_topic_levels :: nat
  lc_max_qos_allowed :: qos
  lc_delayed_publish :: bool
  lc_limit_subscription :: bool

record session_env =
  ev_now :: timestamp
  ev_cfg :: listener_cfg
  ev_send :: "mqtt_packet \<Rightarrow> reason option"
  ev_message_publish :: "msg_from \<Rightarrow> msg_publish \<Rightarrow> msg_publish option"
  ev_publish_check_acl :: "msg_publish \<Rightarrow> publish_result"
  ev_expiry_check :: "msg_from \<Rightarrow> msg_publish \<Rightarrow> expiry_check"
  ev_message_delivered :: "msg_from \<Rightarrow> msg_publish \<Rightarrow> msg_publish option"
  ev_client_subscribe :: "broker_subscribe \<Rightarrow> topic_filter option"
  ev_subscribe_check_acl :: "broker_subscribe \<Rightarrow> subscribe_return option"
  ev_client_unsubscribe :: "broker_unsubscribe \<Rightarrow> topic_filter option"
  ev_shared_supported :: bool
  ev_storage_enabled :: bool
  ev_retain_enabled :: bool
  ev_retain_set :: "msg_from \<Rightarrow> msg_publish \<Rightarrow> string option"
  ev_expiry_interval :: "msg_publish \<Rightarrow> nat"
  ev_delayed_max :: nat
  ev_delayed_immediate :: bool
  ev_is_online :: "node_id \<Rightarrow> client_id \<Rightarrow> bool"
  ev_choice :: choice_fn
  ev_error_text :: "session_error \<Rightarrow> string"
  ev_reply_open :: bool
  ev_session_expiry_interval :: "broker_disconnect option \<Rightarrow> nat"
  ev_form_urlencoded :: "bytes \<Rightarrow> user_properties"

record 'q session =
  se_id :: ident
  se_connect_info :: connect_info
  se_version :: sink_version
  se_in :: in_inflight
  se_in_stat :: counter
  se_out :: "('q, counter) out_inflight"
  se_out_stat :: counter
  se_server_aliases :: "server_aliases option"
  se_client_aliases :: "client_aliases option"
  se_broker :: broker
  se_delayed :: "delayed_publish list \<times> counter"
  se_flags :: state_flags
  se_disconnect_info :: disconnect_info
  se_sent :: "mqtt_packet list"
  se_forwarded :: "(msg_from \<times> msg_publish) list"
  se_acked :: "(msg_from \<times> msg_publish) list"
  se_dropped :: "(msg_from \<times> msg_publish \<times> reason) list"
  se_queue :: "(msg_from \<times> msg_publish) queue"
  se_tx :: "message list"

text \<open>A handler ends with a value, with the reason that ends the session, or with a panic of the task.\<close>

type_synonym ('a, 'q) handler = "'q session \<Rightarrow> (reason fault + 'a) \<times> 'q session"

definition handler_bind :: "('a, 'q) handler \<Rightarrow> ('a \<Rightarrow> ('b, 'q) handler) \<Rightarrow> ('b, 'q) handler" where
  "handler_bind m f s = (case m s of (Inl e, s') \<Rightarrow> (Inl e, s') | (Inr x, s') \<Rightarrow> f x s')"

definition handler_return :: "'a \<Rightarrow> ('a, 'q) handler" where
  "handler_return x s = (Inr x, s)"

definition handler_raise :: "reason \<Rightarrow> ('a, 'q) handler" where
  "handler_raise r s = (Inl (Raised r), s)"

section \<open>Writing to the client\<close>

definition sink_send :: "session_env \<Rightarrow> mqtt_packet \<Rightarrow> (unit, 'q) handler" where
  "sink_send env pkt s =
     (case ev_send env pkt of
        Some r \<Rightarrow> (Inl (Raised r), s)
      | None \<Rightarrow> (Inr (), s\<lparr>se_sent := se_sent s @ [pkt]\<rparr>))"

definition ack_of :: "u16 \<Rightarrow> publish_result \<Rightarrow> publish_ack" where
  "ack_of pid r =
     \<lparr>pa_packet_id = pid, pa_reason_code = pr_reason_code r, pa_properties = pr_properties r,
      pa_reason_string = map_option text_bytes (pr_reason_string r)\<rparr>"

definition puback_packet :: "sink_version \<Rightarrow> u16 \<Rightarrow> publish_result \<Rightarrow> mqtt_packet" where
  "puback_packet v pid r =
     (case v of SinkV3 \<Rightarrow> MP_V3 (P3_PublishAck pid) | SinkV5 \<Rightarrow> MP_V5 (P5_PublishAck (ack_of pid r)))"

definition pubrec_packet :: "sink_version \<Rightarrow> u16 \<Rightarrow> publish_result \<Rightarrow> mqtt_packet" where
  "pubrec_packet v pid r =
     (case v of SinkV3 \<Rightarrow> MP_V3 (P3_PublishReceived pid) | SinkV5 \<Rightarrow> MP_V5 (P5_PublishReceived (ack_of pid r)))"

definition pubrel_packet :: "sink_version \<Rightarrow> u16 \<Rightarrow> mqtt_packet" where
  "pubrel_packet v pid =
     (case v of SinkV3 \<Rightarrow> MP_V3 (P3_PublishRelease pid)
      | SinkV5 \<Rightarrow> MP_V5 (P5_PublishRelease (publish_ack2_default\<lparr>pa_packet_id := pid\<rparr>)))"

definition pubcomp_packet :: "sink_version \<Rightarrow> u16 \<Rightarrow> mqtt_packet" where
  "pubcomp_packet v pid =
     (case v of SinkV3 \<Rightarrow> MP_V3 (P3_PublishComplete pid)
      | SinkV5 \<Rightarrow> MP_V5 (P5_PublishComplete (publish_ack2_default\<lparr>pa_packet_id := pid\<rparr>)))"

definition message_dropped :: "msg_from \<Rightarrow> msg_publish \<Rightarrow> reason \<Rightarrow> 'q session \<Rightarrow> 'q session" where
  "message_dropped from p r s = s\<lparr>se_dropped := se_dropped s @ [(from, p, r)]\<rparr>"

section \<open>Forwarding a publication\<close>

text \<open>\<open>inner_forwards\<close>. The retain store is reached through \<open>ev_retain_set\<close>; storing the message for later is only
  logged when it fails and is left out.\<close>

definition inner_forwards :: "session_env \<Rightarrow> msg_from \<Rightarrow> msg_publish \<Rightarrow> (unit, 'q) handler" where
  "inner_forwards env from p s =
     (case (if ev_retain_enabled env \<and> pub_retain (mp_inner p) then ev_retain_set env from p else None) of
        Some e \<Rightarrow> (Inl (Raised (R_Error e)), s)
      | None \<Rightarrow>
          (case shared_forwards (ev_now env) (ev_is_online env) (ev_choice env) from p (se_broker s) of
             (res, b) \<Rightarrow>
               (let s = s\<lparr>se_broker := b, se_forwarded := se_forwarded s @ [(from, p)]\<rparr>
                in (Inr (),
                    (case res of
                       Inl (_, errs) \<Rightarrow> fold (\<lambda>(to, from, p, r). message_dropped from p r) errs s
                     | Inr _ \<Rightarrow> s)))))"

definition forwards :: "session_env \<Rightarrow> msg_from \<Rightarrow> msg_publish \<Rightarrow> bool \<Rightarrow> nat option \<Rightarrow> (unit, 'q) handler" where
  "forwards env from p storage expiry s =
     (if mp_delay_interval p \<noteq> None then
        (case delay_publish (ev_delayed_max env) (ev_now env) from p storage expiry (se_delayed s) of
           (Some (f, q), d) \<Rightarrow>
             (let s = s\<lparr>se_delayed := d\<rparr>
              in if ev_delayed_immediate env then inner_forwards env f q s
                 else (Inr (), message_dropped f q R_DelayedPublishRefused s))
         | (None, d) \<Rightarrow> (Inr (), s\<lparr>se_delayed := d\<rparr>))
      else inner_forwards env from p s)"

definition from_custom :: "ident \<Rightarrow> msg_from" where
  "from_custom i = \<lparr>from_typ = FromCustom, from_id = i\<rparr>"

definition resolve_alias :: "msg_publish \<Rightarrow> (msg_publish, 'q) handler" where
  "resolve_alias p s =
     (case se_client_aliases s of
        None \<Rightarrow> (Inr p, s)
      | Some cal \<Rightarrow>
          (case client_alias_set_and_get (Option.bind (pub_properties (mp_inner p)) pp_topic_alias) (pub_topic (mp_inner p)) cal of
             (Inl e, cal') \<Rightarrow> (Inl (Raised (R_MqttError e)), s\<lparr>se_client_aliases := Some cal'\<rparr>)
           | (Inr t, cal') \<Rightarrow>
               (Inr (p\<lparr>mp_inner := (mp_inner p)\<lparr>pub_topic := t\<rparr>\<rparr>), s\<lparr>se_client_aliases := Some cal'\<rparr>)))"

definition parse_delayed :: "session_env \<Rightarrow> msg_publish \<Rightarrow> (msg_publish, 'q) handler" where
  "parse_delayed env p s =
     (if lc_delayed_publish (ev_cfg env)
      then (case delayed_parse p of Inl e \<Rightarrow> (Inl (Raised (R_Error e)), s) | Inr q \<Rightarrow> (Inr q, s))
      else (Inr p, s))"

definition disconnect_error :: "publish_result \<Rightarrow> reason" where
  "disconnect_error r =
     R_MqttError (MErrPublishAckReason (pr_reason_code r) (case pr_reason_string r of Some t \<Rightarrow> t | None \<Rightarrow> []))"

text \<open>\<open>_publish\<close>\<close>

definition publish_checked :: "session_env \<Rightarrow> msg_publish \<Rightarrow> (publish_result, 'q) handler" where
  "publish_checked env p =
     handler_bind (resolve_alias p) (\<lambda>p.
     handler_bind (parse_delayed env p) (\<lambda>p s.
       let from = from_custom (se_id s);
           p = (case ev_message_publish env from p of Some q \<Rightarrow> q | None \<Rightarrow> p);
           acl_result = ev_publish_check_acl env p
       in if \<not> acl_is_allow acl_result then
            (let s = message_dropped from p (R_PublishResult acl_result) s
             in if pr_disconnect acl_result then (Inl (Raised (disconnect_error acl_result)), s) else (Inr acl_result, s))
          else
            (let expiry = (if ev_storage_enabled env \<or> (pub_retain (mp_inner p) \<and> ev_retain_enabled env)
                           then Some (ev_expiry_interval env p) else None)
             in handler_bind (forwards env from p (ev_storage_enabled env) expiry) (\<lambda>_. handler_return pr_success) s)))"

definition session_publish :: "session_env \<Rightarrow> msg_publish \<Rightarrow> (publish_result, 'q) handler" where
  "session_publish env p =
     handler_bind (publish_checked env p) (\<lambda>r.
       if pr_is_success r then handler_return r
       else if pr_disconnect r then handler_raise (disconnect_error r)
       else handler_return r)"

section \<open>Publications of the client\<close>

definition require_packet_id :: "u16 option \<Rightarrow> (u16, 'q) handler" where
  "require_packet_id pid =
     (case pid of Some n \<Rightarrow> handler_return n | None \<Rightarrow> handler_raise (R_ProtocolError ''packet_id is None''))"

definition in_remove :: "u16 \<Rightarrow> 'q session \<Rightarrow> 'q session" where
  "in_remove pid s =
     (case ii_remove pid (se_in s, se_in_stat s) of (_, w, st) \<Rightarrow> s\<lparr>se_in := w, se_in_stat := st\<rparr>)"

definition in_add :: "u16 \<Rightarrow> qos \<Rightarrow> (bool, 'q) handler" where
  "in_add pid q s =
     (case ii_add pid q (se_in s, se_in_stat s) of
        (res, w, st) \<Rightarrow>
          (case res of Inl r \<Rightarrow> Inl (Raised r) | Inr b \<Rightarrow> Inr b, s\<lparr>se_in := w, se_in_stat := st\<rparr>))"

definition duplicate_result :: publish_result where
  "duplicate_result = pr_of_reason_code PAR_PacketIdentifierInUse None False"

definition process_publish1 :: "session_env \<Rightarrow> msg_publish \<Rightarrow> u16 \<Rightarrow> (unit, 'q) handler" where
  "process_publish1 env p pid s =
     (case in_add pid AtLeastOnce s of
        (Inl (Raised e), s) \<Rightarrow> (Inl (Raised e), message_dropped (from_custom (se_id s)) p e s)
      | (Inl Panicked, s) \<Rightarrow> (Inl Panicked, s)
      | (Inr inflight_res, s) \<Rightarrow>
          (case session_publish env p s of
             (Inl e, s) \<Rightarrow> (Inl e, if inflight_res then in_remove pid s else s)
           | (Inr pubres, s) \<Rightarrow>
               (case sink_send env (puback_packet (se_version s) pid pubres) s of
                  (ack_res, s) \<Rightarrow> (ack_res, if inflight_res then in_remove pid s else s))))"

definition process_publish2 :: "session_env \<Rightarrow> msg_publish \<Rightarrow> u16 \<Rightarrow> (unit, 'q) handler" where
  "process_publish2 env p pid s =
     (if ii_exist pid (se_in s)
      then sink_send env (pubrec_packet (se_version s) pid duplicate_result) s
      else handler_bind (session_publish env p) (\<lambda>pub_res.
           handler_bind (if pr_is_success pub_res then in_add pid ExactlyOnce else handler_return False) (\<lambda>inflight_res s.
             case sink_send env (pubrec_packet (se_version s) pid pub_res) s of
               (Inl e, s) \<Rightarrow> (Inl e, if inflight_res then in_remove pid s else s)
             | (Inr _, s) \<Rightarrow> (Inr (), s))) s)"

definition process_publish :: "session_env \<Rightarrow> msg_publish \<Rightarrow> (unit, 'q) handler" where
  "process_publish env p =
     (case pub_qos (mp_inner p) of
        AtLeastOnce \<Rightarrow> handler_bind (require_packet_id (pub_packet_id (mp_inner p))) (process_publish1 env p)
      | ExactlyOnce \<Rightarrow> handler_bind (require_packet_id (pub_packet_id (mp_inner p))) (process_publish2 env p)
      | AtMostOnce \<Rightarrow> handler_bind (session_publish env p) (\<lambda>_. handler_return ()))"

section \<open>Subscriptions of the client\<close>

text \<open>The table of the session is the one of its entry in the shared state.\<close>

definition own_subs :: "'q session \<Rightarrow> session_subs" where
  "own_subs s =
     (case map_of (br_peers (se_broker s)) (id_client_id (se_id s)) of Some p \<Rightarrow> pe_subs p | None \<Rightarrow> [])"

text \<open>Whether a limited filter admits the client, and the number of subscribers it has.\<close>

definition limit_allows :: "nat \<Rightarrow> client_id \<Rightarrow> topic_filter \<Rightarrow> router \<Rightarrow> bool" where
  "limit_allows limit c tf r =
     (case map_of (rt_relations r) tf of
        Some rels \<Rightarrow> (if map_of rels c \<noteq> None then True else length rels < limit)
      | None \<Rightarrow> True)"

definition subscribe_guard :: "session_env \<Rightarrow> broker_subscribe \<Rightarrow> 'q session \<Rightarrow> session_error option" where
  "subscribe_guard env sub s =
     (let cfg = ev_cfg env
      in if lc_max_subscriptions cfg > 0 \<and> subs_len (own_subs s) \<ge> lc_max_subscriptions cfg
         then Some (SE_Mqtt MErrTooManySubscriptions)
         else
           (case (if lc_max_topic_levels cfg > 0 then topic_from_str (bs_topic_filter sub) else Inr (Topic [])) of
              Inl e \<Rightarrow> Some (SE_Topic e)
            | Inr t \<Rightarrow>
                (if lc_max_topic_levels cfg > 0 \<and> length (levels t) > lc_max_topic_levels cfg
                 then Some (SE_Mqtt MErrTooManyTopicLevels)
                 else
                   (case opt_limit_subs (bs_opts sub) of
                      Some limit \<Rightarrow>
                        (if limit_allows limit (id_client_id (se_id s)) (bs_topic_filter sub) (br_router (se_broker s))
                         then None else Some (SE_Mqtt (MErrSubscribeLimited (bs_topic_filter sub))))
                    | None \<Rightarrow> None))))"

text \<open>\<open>_subscribe\<close> and \<open>subscribe\<close>. Retained and stored messages are sent by a task of their own, not modelled here.\<close>

definition enter_subscription :: "broker_subscribe \<Rightarrow> 'q session \<Rightarrow> (session_error fault + subscribe_return) \<times> 'q session" where
  "enter_subscription sub s =
     (case entry_subscribe (se_id s) sub (se_broker s) of
        (Inl e, b) \<Rightarrow> (Inl (if e = EntryPanic then Panicked else Raised (SE_Entry e)), s\<lparr>se_broker := b\<rparr>)
      | (Inr r, b) \<Rightarrow> (Inr r, s\<lparr>se_broker := b\<rparr>))"

definition session_subscribe :: "session_env \<Rightarrow> broker_subscribe \<Rightarrow> 'q session \<Rightarrow>
    (session_error fault + subscribe_return) \<times> 'q session" where
  "session_subscribe env sub s =
     (case subscribe_guard env sub s of
        Some e \<Rightarrow> (Inl (Raised e), s)
      | None \<Rightarrow>
          (let sub = sub\<lparr>bs_opts := opt_set_qos (less_value (opt_qos (bs_opts sub)) (lc_max_qos_allowed (ev_cfg env))) (bs_opts sub)\<rparr>;
               sub = (case ev_client_subscribe env sub of Some tf \<Rightarrow> sub\<lparr>bs_topic_filter := tf\<rparr> | None \<Rightarrow> sub)
           in case ev_subscribe_check_acl env sub of
                Some acl_result \<Rightarrow>
                  (case sr_success acl_result of
                     Some q \<Rightarrow> enter_subscription (sub\<lparr>bs_opts := opt_set_qos (less_value (opt_qos (bs_opts sub)) q) (bs_opts sub)\<rparr>) s
                   | None \<Rightarrow> (Inr acl_result, s))
              | None \<Rightarrow> enter_subscription sub s))"

definition session_unsubscribe :: "session_env \<Rightarrow> broker_unsubscribe \<Rightarrow> 'q session \<Rightarrow>
    (session_error fault + unit) \<times> 'q session" where
  "session_unsubscribe env unsub s =
     (let unsub = (case ev_client_unsubscribe env unsub of Some tf \<Rightarrow> unsub\<lparr>bu_topic_filter := tf\<rparr> | None \<Rightarrow> unsub)
      in case entry_unsubscribe (se_id s) unsub (se_broker s) of
           (Inl e, b) \<Rightarrow> (Inl (Raised (SE_Entry e)), s\<lparr>se_broker := b\<rparr>)
         | (Inr _, b) \<Rightarrow> (Inr (), s\<lparr>se_broker := b\<rparr>))"

definition ack_v3 :: "subscribe_return \<Rightarrow> subscribe_return_code" where
  "ack_v3 r = (case sr_success r of Some q \<Rightarrow> SRC_Success q | None \<Rightarrow> SRC_Failure)"

text \<open>
  The loop shared by \<open>subscribes_v3\<close> and \<open>subscribes_v5\<close>: \<open>parse\<close> makes the subscription or stops the loop,
  \<open>code\<close> is the answer for a result and \<open>failed\<close> the one for an error.
\<close>

fun subscribes :: "session_env \<Rightarrow> ('f \<Rightarrow> filter_error + broker_subscribe) \<Rightarrow> (subscribe_return \<Rightarrow> 'c) \<Rightarrow> 'c \<Rightarrow> 'f list \<Rightarrow>
    'q session \<Rightarrow> (session_error fault + 'c list) \<times> 'q session" where
  "subscribes env parse code failed [] s = (Inr [], s)"
| "subscribes env parse code failed (f # fs) s =
     (case parse f of
        Inl e \<Rightarrow> (Inl (Raised (SE_Filter e)), s)
      | Inr sub \<Rightarrow>
          (case session_subscribe env sub s of
             (Inl Panicked, s) \<Rightarrow> (Inl Panicked, s)
           | (Inl (Raised _), s) \<Rightarrow>
               (case subscribes env parse code failed fs s of (res, s) \<Rightarrow> (map_sum id ((#) failed) res, s))
           | (Inr r, s) \<Rightarrow>
               (case subscribes env parse code failed fs s of (res, s) \<Rightarrow> (map_sum id ((#) (code r)) res, s))))"

definition subscribes_v3 :: "session_env \<Rightarrow> (bytes \<times> qos) list \<Rightarrow> 'q session \<Rightarrow>
    (session_error fault + subscribe_return_code list) \<times> 'q session" where
  "subscribes_v3 env =
     subscribes env
       (\<lambda>(tf, q). subscribe_from_v3 (text_of tf) q (ev_shared_supported env) (lc_limit_subscription (ev_cfg env)))
       ack_v3 SRC_Failure"

definition subscribes_v5 :: "session_env \<Rightarrow> subscribe \<Rightarrow> 'q session \<Rightarrow>
    (session_error fault + subscribe_ack) \<times> 'q session" where
  "subscribes_v5 env subs s =
     (case subscribes env
             (\<lambda>(tf, opts). subscribe_from_v5 (text_of tf) opts (ev_shared_supported env)
                            (lc_limit_subscription (ev_cfg env)) (sub_id subs))
             sr_ack_reason SAR_UnspecifiedError (sub_topic_filters subs) s of
        (res, s) \<Rightarrow>
          (map_sum id (\<lambda>status. \<lparr>sa_packet_id = sub_packet_id subs, sa_properties = [], sa_reason_string = None,
                                   sa_status = status\<rparr>) res, s))"

fun unsubscribes :: "session_env \<Rightarrow> bytes list \<Rightarrow> 'q session \<Rightarrow> (session_error fault + unit) \<times> 'q session" where
  "unsubscribes env [] s = (Inr (), s)"
| "unsubscribes env (tf # tfs) s =
     (case unsubscribe_from (text_of tf) (ev_shared_supported env) (lc_limit_subscription (ev_cfg env)) of
        Inl e \<Rightarrow> (Inl (Raised (SE_Filter e)), s)
      | Inr unsub \<Rightarrow>
          (case session_unsubscribe env unsub s of
             (Inl e, s) \<Rightarrow> (Inl e, s)
           | (Inr _, s) \<Rightarrow> unsubscribes env tfs s))"

definition unsubscribes_v5 :: "session_env \<Rightarrow> unsubscribe \<Rightarrow> 'q session \<Rightarrow>
    (session_error fault + unsubscribe_ack) \<times> 'q session" where
  "unsubscribes_v5 env unsubs s =
     (case unsubscribes env (uns_topic_filters unsubs) s of
        (res, s) \<Rightarrow>
          (map_sum id (\<lambda>_. \<lparr>sa_packet_id = uns_packet_id unsubs, sa_properties = [], sa_reason_string = None,
             sa_status = replicate (length (uns_topic_filters unsubs)) UAR_Success\<rparr>) res, s))"

section \<open>Packets of the client\<close>

text \<open>\<open>sink.v3_mut()\<close> and \<open>sink.v5_mut()\<close> panic for a stream of the other version.\<close>

definition send_v3 :: "session_env \<Rightarrow> packet3 \<Rightarrow> (unit, 'q) handler" where
  "send_v3 env pkt s = (case se_version s of SinkV3 \<Rightarrow> sink_send env (MP_V3 pkt) s | SinkV5 \<Rightarrow> (Inl Panicked, s))"

definition send_v5 :: "session_env \<Rightarrow> packet5 \<Rightarrow> (unit, 'q) handler" where
  "send_v5 env pkt s = (case se_version s of SinkV5 \<Rightarrow> sink_send env (MP_V5 pkt) s | SinkV3 \<Rightarrow> (Inl Panicked, s))"

definition with_reason :: "session_env \<Rightarrow> (string option \<Rightarrow> reason) \<Rightarrow> (session_error fault + 'a) \<times> 'q session \<Rightarrow>
    (reason fault + 'a) \<times> 'q session" where
  "with_reason env mk r =
     (case r of
        (Inl (Raised e), s) \<Rightarrow> (Inl (Raised (mk (Some (ev_error_text env e)))), s)
      | (Inl Panicked, s) \<Rightarrow> (Inl Panicked, s)
      | (Inr x, s) \<Rightarrow> (Inr x, s))"

text \<open>The final acknowledgement of a message: PUBACK for QoS 1, PUBCOMP for QoS 2.\<close>

definition out_acked :: "'q deque_ops \<Rightarrow> u16 \<Rightarrow> 'q session \<Rightarrow> 'q session" where
  "out_acked ops pid s =
     (case oi_remove ops pid (se_out s, se_out_stat s) of
        (res, w, st) \<Rightarrow>
          (let s = s\<lparr>se_out := w, se_out_stat := st\<rparr>
           in case res of Some m \<Rightarrow> s\<lparr>se_acked := se_acked s @ [(om_from m, om_publish m)]\<rparr> | None \<Rightarrow> s))"

definition out_received :: "session_env \<Rightarrow> 'q deque_ops \<Rightarrow> u16 \<Rightarrow> 'q session \<Rightarrow> 'q session" where
  "out_received env ops pid s = s\<lparr>se_out := oi_update_status ops (ev_now env) pid UnComplete (se_out s)\<rparr>"

definition disconnected_set :: "timestamp \<Rightarrow> broker_disconnect option \<Rightarrow> reason option \<Rightarrow> disconnect_info \<Rightarrow> disconnect_info" where
  "disconnected_set now d r i =
     (let i = (if din_disconnected_at i \<noteq> 0 then i else i\<lparr>din_disconnected_at := now\<rparr>);
          i = (case d of
                 Some d \<Rightarrow> i\<lparr>din_reasons := din_reasons i @ [R_ConnectDisconnect (Some d)], din_mqtt_disconnect := Some d\<rparr>
               | None \<Rightarrow> i)
      in case r of Some r \<Rightarrow> i\<lparr>din_reasons := din_reasons i @ [r]\<rparr> | None \<Rightarrow> i)"

definition disconnect_received :: "session_env \<Rightarrow> broker_disconnect \<Rightarrow> 'q session \<Rightarrow> 'q session" where
  "disconnect_received env d s =
     s\<lparr>se_flags := (se_flags s)\<lparr>fl_disconnect_received := True\<rparr>,
       se_disconnect_info := disconnected_set (ev_now env) (Some d) None (se_disconnect_info s)\<rparr>"

definition pinged :: "'q session \<Rightarrow> 'q session" where
  "pinged s = s\<lparr>se_flags := (se_flags s)\<lparr>fl_ping := True\<rparr>\<rparr>"

definition publish_of :: "session_env \<Rightarrow> publish \<Rightarrow> msg_publish" where
  "publish_of env p = mp_set_create_time (ev_now env) (mp_from p)"

text \<open>
  The cases of \<open>process_mqtt_message\<close>. The result is whether the code after the match is reached (it is not for a
  DISCONNECT). The text of the last error is shortened.
\<close>

definition go_on :: "(reason fault + unit) \<times> 'q session \<Rightarrow> (reason fault + bool) \<times> 'q session" where
  "go_on r = (map_sum id (\<lambda>_. True) (fst r), snd r)"

fun process_v3 :: "session_env \<Rightarrow> 'q deque_ops \<Rightarrow> packet3 \<Rightarrow> (bool, 'q) handler" where
  "process_v3 env ops (P3_Publish p) s = go_on (process_publish env (publish_of env p) s)"
| "process_v3 env ops (P3_PublishRelease pid) s = go_on (send_v3 env (P3_PublishComplete pid) (in_remove pid s))"
| "process_v3 env ops (P3_PublishAck pid) s = (Inr True, out_acked ops pid s)"
| "process_v3 env ops (P3_PublishReceived pid) s = go_on (send_v3 env (P3_PublishRelease pid) (out_received env ops pid s))"
| "process_v3 env ops (P3_PublishComplete pid) s = (Inr True, out_acked ops pid s)"
| "process_v3 env ops (P3_Subscribe pid tfs) s =
     go_on (handler_bind (\<lambda>s. with_reason env R_SubscribeFailed (subscribes_v3 env tfs s))
       (\<lambda>status. send_v3 env (P3_SubscribeAck pid status)) s)"
| "process_v3 env ops (P3_Unsubscribe pid tfs) s =
     go_on (handler_bind (\<lambda>s. with_reason env R_UnsubscribeFailed (unsubscribes env tfs s))
       (\<lambda>_. send_v3 env (P3_UnsubscribeAck pid)) s)"
| "process_v3 env ops P3_PingRequest s =
     go_on (handler_bind (send_v3 env P3_PingResponse) (\<lambda>_ s. (Inr (), pinged s)) s)"
| "process_v3 env ops P3_Disconnect s = (Inr False, disconnect_received env D_V3 s)"
| "process_v3 env ops _ s = (Inl (Raised (R_Error ''Received an unimplemented message'')), s)"

fun process_v5 :: "session_env \<Rightarrow> 'q deque_ops \<Rightarrow> packet5 \<Rightarrow> (bool, 'q) handler" where
  "process_v5 env ops (P5_Publish p) s = go_on (process_publish env (publish_of env p) s)"
| "process_v5 env ops (P5_PublishRelease ack2) s =
     go_on (send_v5 env (P5_PublishComplete (publish_ack2_default\<lparr>pa_packet_id := pa_packet_id ack2\<rparr>)) (in_remove (pa_packet_id ack2) s))"
| "process_v5 env ops (P5_PublishAck ack) s = (Inr True, out_acked ops (pa_packet_id ack) s)"
| "process_v5 env ops (P5_PublishReceived ack) s =
     go_on (send_v5 env (P5_PublishRelease (publish_ack2_default\<lparr>pa_packet_id := pa_packet_id ack\<rparr>)) (out_received env ops (pa_packet_id ack) s))"
| "process_v5 env ops (P5_PublishComplete ack2) s = (Inr True, out_acked ops (pa_packet_id ack2) s)"
| "process_v5 env ops (P5_Subscribe subs) s =
     go_on (handler_bind (\<lambda>s. with_reason env R_SubscribeFailed (subscribes_v5 env subs s))
       (\<lambda>ack. send_v5 env (P5_SubscribeAck ack)) s)"
| "process_v5 env ops (P5_Unsubscribe unsubs) s =
     go_on (handler_bind (\<lambda>s. with_reason env R_UnsubscribeFailed (unsubscribes_v5 env unsubs s))
       (\<lambda>ack. send_v5 env (P5_UnsubscribeAck ack)) s)"
| "process_v5 env ops P5_PingRequest s =
     go_on (handler_bind (send_v5 env P5_PingResponse) (\<lambda>_ s. (Inr (), pinged s)) s)"
| "process_v5 env ops (P5_Disconnect d) s = (Inr False, disconnect_received env (D_V5 d) s)"
| "process_v5 env ops (P5_Auth a) s = go_on (send_v5 env (P5_Auth auth_default) s)"
| "process_v5 env ops _ s = (Inl (Raised (R_Error ''Received an unimplemented message'')), s)"

fun process_packet :: "session_env \<Rightarrow> 'q deque_ops \<Rightarrow> mqtt_packet \<Rightarrow> (bool, 'q) handler" where
  "process_packet env ops (MP_V3 p) s = process_v3 env ops p s"
| "process_packet env ops (MP_V5 p) s = process_v5 env ops p s"
| "process_packet env ops (MP_Version _) s = (Inl (Raised (R_Error ''Received an unimplemented message'')), s)"

definition process_mqtt_message :: "session_env \<Rightarrow> 'q deque_ops \<Rightarrow> mqtt_packet \<Rightarrow> (unit, 'q) handler" where
  "process_mqtt_message env ops pkt =
     handler_bind (process_packet env ops pkt) (\<lambda>keepalive s.
       (Inr (), if keepalive then s\<lparr>se_flags := (se_flags s)\<lparr>fl_ping := False\<rparr>\<rparr> else s))"

section \<open>Messages for the client\<close>

definition own_forward :: "msg_from \<Rightarrow> msg_publish \<Rightarrow> 'q session \<Rightarrow> 'q session" where
  "own_forward from p s = s\<lparr>se_tx := se_tx s @ [MForward from p]\<rparr>"

definition assign_id :: "'q deque_ops \<Rightarrow> msg_publish \<Rightarrow> (msg_publish, 'q) handler" where
  "assign_id ops p s =
     (if (pub_qos (mp_inner p) = AtLeastOnce \<or> pub_qos (mp_inner p) = ExactlyOnce) \<and>
         (\<not> pub_dup (mp_inner p) \<or> pub_packet_id (mp_inner p) = None)
      then (case oi_next_id ops (se_out s) of
              (None, w) \<Rightarrow> (Inl (Raised (R_Error ''no packet_id available, should unreachable!()'')), s\<lparr>se_out := w\<rparr>)
            | (Some n, w) \<Rightarrow>
                (Inr (p\<lparr>mp_inner := (mp_inner p)\<lparr>pub_packet_id := (if n = 0 then None else Some n)\<rparr>\<rparr>), s\<lparr>se_out := w\<rparr>))
      else (Inr p, s))"

definition moment_of :: "qos \<Rightarrow> moment_status option" where
  "moment_of q = (case q of AtLeastOnce \<Rightarrow> Some UnAck | ExactlyOnce \<Rightarrow> Some UnReceived | AtMostOnce \<Rightarrow> None)"

definition out_push :: "'q deque_ops \<Rightarrow> out_inflight_message \<Rightarrow> 'q session \<Rightarrow> 'q session" where
  "out_push ops m s =
     (case oi_push_back ops m (se_out s, se_out_stat s) of (_, w, st) \<Rightarrow> s\<lparr>se_out := w, se_out_stat := st\<rparr>)"

definition publish_packet :: "sink_version \<Rightarrow> publish \<Rightarrow> mqtt_packet" where
  "publish_packet v p = (case v of SinkV3 \<Rightarrow> MP_V3 (P3_Publish p) | SinkV5 \<Rightarrow> MP_V5 (P5_Publish p))"

definition sink_deliver :: "session_env \<Rightarrow> msg_publish \<Rightarrow> u32 option \<Rightarrow> (unit, 'q) handler" where
  "sink_deliver env p interval s =
     (case sink_publish (se_version s) p interval (se_server_aliases s) of
        None \<Rightarrow> (Inl Panicked, s)
      | Some (q, aliases) \<Rightarrow> sink_send env (publish_packet (se_version s) q) (s\<lparr>se_server_aliases := aliases\<rparr>))"

definition deliver :: "session_env \<Rightarrow> 'q deque_ops \<Rightarrow> msg_from \<Rightarrow> msg_publish \<Rightarrow> (unit, 'q) handler" where
  "deliver env ops from p s =
     (let check = ev_expiry_check env from p
      in if is_expiry check then (Inr (), message_dropped from p R_MessageExpiration s)
         else handler_bind (assign_id ops p) (\<lambda>p.
           let p = (case ev_message_delivered env from p of Some q \<Rightarrow> q | None \<Rightarrow> p)
           in handler_bind (sink_deliver env p (ec_message_expiry_interval check)) (\<lambda>_ s.
                (Inr (), case moment_of (pub_qos (mp_inner p)) of
                           Some status \<Rightarrow> out_push ops (om_new (ev_now env) status from p) s
                         | None \<Rightarrow> s))) s)"

definition set_dup :: "msg_publish \<Rightarrow> msg_publish" where
  "set_dup p = p\<lparr>mp_inner := (mp_inner p)\<lparr>pub_dup := True\<rparr>\<rparr>"

definition reforward :: "session_env \<Rightarrow> out_inflight_message \<Rightarrow> 'q session \<Rightarrow> 'q session" where
  "reforward env m s =
     (case om_status m of
        UnComplete \<Rightarrow>
          (if is_expiry (ev_expiry_check env (om_from m) (om_publish m)) then s
           else s\<lparr>se_tx := se_tx s @ [MSendRerelease m]\<rparr>)
      | _ \<Rightarrow> own_forward (om_from m) (set_dup (om_publish m)) s)"

definition send_rerelease :: "session_env \<Rightarrow> 'q deque_ops \<Rightarrow> out_inflight_message \<Rightarrow> (unit, 'q) handler" where
  "send_rerelease env ops m =
     handler_bind (require_packet_id (pub_packet_id (mp_inner (om_publish m)))) (\<lambda>pid s.
       sink_send env (pubrel_packet (se_version s) pid)
         (out_push ops (om_new (ev_now env) UnComplete (om_from m) (om_publish m)) s))"

text \<open>The branch of the event loop for messages that have timed out.\<close>

partial_function (option) resend_timeouts :: "session_env \<Rightarrow> 'q deque_ops \<Rightarrow> 'q session \<Rightarrow> 'q session option" where
  "resend_timeouts env ops s =
     (case oi_pop_front_timeout ops (ev_now env) (se_out s, se_out_stat s) of
        (None, w, st) \<Rightarrow> Some (s\<lparr>se_out := w, se_out_stat := st\<rparr>)
      | (Some m, w, st) \<Rightarrow> resend_timeouts env ops (reforward env m (s\<lparr>se_out := w, se_out_stat := st\<rparr>)))"

end
