(* ===== verification/Session_Protocol.thy ===== *)
theory Session_Protocol
  imports Session
begin

text \<open>
  The packet handlers of \<open>ferromq/src/session.rs\<close> and the protocol flows. A handler \<open>preserves\<close> a property of the session
  when every run keeps it, whatever it returns; the collection \<open>preserving\<close> has a rule for each way in which handlers are
  composed. The locale \<open>session_invariant\<close> asks for a property that the state changes of the handlers keep and
  gives it for every handler; \<open>packet_invariant\<close> asks for what a client may send as well. They are interpreted on the
  identifiers of the incoming window (\<open>part\<close>) and on the outgoing window (\<open>outgoing\<close>).

  Shown: a publication of QoS 2 is forwarded once however often it is repeated before its release, and an outgoing
  message leaves the window exactly with its last acknowledgement.
\<close>

section \<open>What handlers preserve\<close>

definition preserves :: "('q session \<Rightarrow> bool) \<Rightarrow> ('a, 'q) handler \<Rightarrow> bool" where
  "preserves P h \<longleftrightarrow> (\<forall>s. P s \<longrightarrow> P (snd (h s)))"

named_theorems preserving

lemma preservesD: "preserves P h \<Longrightarrow> P s \<Longrightarrow> h s = (r, s') \<Longrightarrow> P s'"
  unfolding preserves_def by (metis snd_conv)

lemma preserves_bind [preserving]:
  "preserves P m \<Longrightarrow> (\<And>x. preserves P (g x)) \<Longrightarrow> preserves P (handler_bind m g)"
proof -
  assume m: "preserves P m" and g: "\<And>x. preserves P (g x)"
  show ?thesis unfolding preserves_def
  proof (intro allI impI)
    fix s assume "P s"
    moreover obtain r s' where r: "m s = (r, s')" by fastforce
    ultimately have "P s'" by (rule preservesD [OF m])
    then show "P (snd (handler_bind m g s))"
      using r g by (cases r) (simp_all add: handler_bind_def preserves_def)
  qed
qed

lemma preserves_return [preserving]: "preserves P (handler_return x)"
  and preserves_raise [preserving]: "preserves P (handler_raise r)"
  by (simp_all add: preserves_def handler_return_def handler_raise_def)

lemma preserves_require [preserving]: "preserves P (require_packet_id pid)"
  by (simp add: require_packet_id_def preserves_return preserves_raise split: option.splits)

text \<open>
  A condition that survives the effects of a publication: new alias tables, reports of dropped messages,
  delayed messages, and a broker that has forwarded a message.
\<close>

locale session_invariant =
  fixes P :: "'q session \<Rightarrow> bool"
  assumes new_aliases: "P s \<Longrightarrow> P (s\<lparr>se_client_aliases := c\<rparr>)"
    and dropped: "P s \<Longrightarrow> P (s\<lparr>se_dropped := d\<rparr>)"
    and delayed: "P s \<Longrightarrow> P (s\<lparr>se_delayed := h\<rparr>)"
    and forwarded: "P s \<Longrightarrow> shared_forwards now on ch fr p (se_broker s) = (res, b) \<Longrightarrow>
          P (s\<lparr>se_broker := b, se_forwarded := f\<rparr>)"
begin

lemma message_dropped: "P s \<Longrightarrow> P (message_dropped fr p r s)"
  by (simp add: message_dropped_def dropped)

lemma messages_dropped: "P s \<Longrightarrow> P (fold (\<lambda>(to, fr, p, r). message_dropped fr p r) errs s)"
  by (induction errs arbitrary: s) (auto simp: message_dropped)

lemma inner_forwards: "preserves P (inner_forwards env fr p)"
  by (auto simp: preserves_def inner_forwards_def Let_def split: option.splits prod.splits sum.splits
      intro: messages_dropped forwarded)

lemma forwards: "preserves P (forwards env fr p storage expiry)"
  using inner_forwards [of env] delayed message_dropped
  by (auto simp: preserves_def forwards_def Let_def split: option.splits prod.splits)

lemma resolve_alias: "preserves P (resolve_alias p)"
  by (auto simp: preserves_def resolve_alias_def new_aliases split: option.splits prod.splits sum.splits)

lemma parse_delayed: "preserves P (parse_delayed env p)"
  by (auto simp: preserves_def parse_delayed_def split: sum.splits)

lemma publish_checked: "preserves P (publish_checked env p)"
proof -
  have fw: "preserves P (handler_bind (forwards env fr p st ex) (\<lambda>_. handler_return (r :: publish_result)))" for fr p st ex r
    by (intro preserving forwards)
  then have fw': "P s \<Longrightarrow> P (snd (handler_bind (forwards env fr p st ex) (\<lambda>_. handler_return (r :: publish_result)) s))" for fr p st ex r s
    by (simp add: preserves_def)
  show ?thesis unfolding publish_checked_def
    by (intro preserves_bind resolve_alias parse_delayed) (auto simp: preserves_def Let_def message_dropped intro: fw')
qed

lemma session_publish: "preserves P (session_publish env p)"
  unfolding session_publish_def by (intro preserves_bind publish_checked) (auto intro: preserving)

end

text \<open>The part of the state that the handlers of acknowledgements work on is not changed by a publication.\<close>

definition protocol_part :: "'q session \<Rightarrow> _" where
  "protocol_part s = (se_in s, se_in_stat s, se_out s, se_version s, se_id s, se_sent s, se_flags s, se_acked s, se_tx s, se_queue s)"

interpretation part: session_invariant "\<lambda>s. protocol_part s = c" for c
  by unfold_locales (simp_all add: protocol_part_def)

lemma session_publish_part: "session_publish env p s = (r, s') \<Longrightarrow> protocol_part s' = protocol_part s"
  using preservesD [OF part.session_publish] by blast

text \<open>Subscribing changes the broker only.\<close>

lemma broker_same [simp]: "\<exists>b. s = s\<lparr>se_broker := b\<rparr>" for s :: "'q session"
  by (intro exI [of _ "se_broker s"]) simp

lemma enter_subscription_broker [simp]: "\<exists>b. snd (enter_subscription sub s) = s\<lparr>se_broker := b\<rparr>"
  by (auto simp: enter_subscription_def split: prod.splits sum.splits)

lemma session_subscribe_broker: "\<exists>b. snd (session_subscribe env sub s) = s\<lparr>se_broker := b\<rparr>"
  by (simp add: session_subscribe_def Let_def split: option.splits)

lemma session_unsubscribe_broker: "\<exists>b. snd (session_unsubscribe env unsub s) = s\<lparr>se_broker := b\<rparr>"
  by (auto simp: session_unsubscribe_def Let_def split: prod.splits sum.splits)

lemma subscribes_broker: "\<exists>b. snd (subscribes env parse code failed fs s) = s\<lparr>se_broker := b\<rparr>"
proof (induction fs arbitrary: s)
  case (Cons f fs)
  show ?case
  proof (cases "parse f")
    case (Inr sub)
    obtain r s' where r: "session_subscribe env sub s = (r, s')" by fastforce
    then obtain b where b: "s' = s\<lparr>se_broker := b\<rparr>" using session_subscribe_broker [of env sub s] by auto
    obtain res s'' where rest: "subscribes env parse code failed fs s' = (res, s'')" by fastforce
    then obtain b' where "s'' = s\<lparr>se_broker := b'\<rparr>" using Cons.IH [of s'] b by auto
    then show ?thesis using Inr r rest b by (auto split: sum.splits fault.splits)
  qed simp
qed simp

lemma unsubscribes_broker: "\<exists>b. snd (unsubscribes env tfs s) = s\<lparr>se_broker := b\<rparr>"
proof (induction tfs arbitrary: s)
  case (Cons tf tfs)
  show ?case
  proof (cases "unsubscribe_from (text_of tf) (ev_shared_supported env) (lc_limit_subscription (ev_cfg env))")
    case (Inr unsub)
    obtain r s' where r: "session_unsubscribe env unsub s = (r, s')" by fastforce
    then obtain b where b: "s' = s\<lparr>se_broker := b\<rparr>" using session_unsubscribe_broker [of env unsub s] by auto
    obtain b' where "snd (unsubscribes env tfs s') = s\<lparr>se_broker := b'\<rparr>" using Cons.IH [of s'] b by auto
    then show ?thesis using Inr r b by (auto split: sum.splits)
  qed simp
qed simp

section \<open>The incoming window\<close>

text \<open>The role of a packet of the client in the exchanges, for both versions.\<close>

datatype role = Publishes publish | Releases u16 | Finishes u16 | Receives u16 | Other

fun role_of :: "mqtt_packet \<Rightarrow> role" where
  "role_of (MP_V3 (P3_Publish p)) = Publishes p"
| "role_of (MP_V5 (P5_Publish p)) = Publishes p"
| "role_of (MP_V3 (P3_PublishRelease pid)) = Releases pid"
| "role_of (MP_V5 (P5_PublishRelease ack2)) = Releases (pa_packet_id ack2)"
| "role_of (MP_V3 (P3_PublishAck pid)) = Finishes pid"
| "role_of (MP_V5 (P5_PublishAck ack)) = Finishes (pa_packet_id ack)"
| "role_of (MP_V3 (P3_PublishComplete pid)) = Finishes pid"
| "role_of (MP_V5 (P5_PublishComplete ack2)) = Finishes (pa_packet_id ack2)"
| "role_of (MP_V3 (P3_PublishReceived pid)) = Receives pid"
| "role_of (MP_V5 (P5_PublishReceived ack)) = Receives (pa_packet_id ack)"
| "role_of _ = Other"

definition open_exchange :: "u16 \<Rightarrow> 'q session \<Rightarrow> bool" where
  "open_exchange pid s = ii_exist pid (se_in s)"

lemma sink_send_state: "sink_send env pkt s = (r, s') \<Longrightarrow> \<exists>xs. s' = s\<lparr>se_sent := xs\<rparr>"
  by (auto simp: sink_send_def split: option.splits intro: exI [of _ "se_sent s"])

lemma open_exchange_part: "protocol_part s' = protocol_part s \<Longrightarrow> open_exchange pid s' = open_exchange pid s"
  by (simp add: protocol_part_def open_exchange_def)

lemma open_exchange_sent [simp]: "open_exchange pid (s\<lparr>se_sent := xs\<rparr>) = open_exchange pid s"
  "open_exchange pid (s\<lparr>se_broker := b\<rparr>) = open_exchange pid s"
  "open_exchange pid (s\<lparr>se_flags := f\<rparr>) = open_exchange pid s"
  "open_exchange pid (s\<lparr>se_out := w\<rparr>) = open_exchange pid s"
  "open_exchange pid (s\<lparr>se_out_stat := st\<rparr>) = open_exchange pid s"
  "open_exchange pid (s\<lparr>se_acked := a\<rparr>) = open_exchange pid s"
  "open_exchange pid (s\<lparr>se_disconnect_info := d\<rparr>) = open_exchange pid s"
  by (simp_all add: open_exchange_def)

lemma open_exchange_remove [simp]: "open_exchange pid (in_remove k s) \<longleftrightarrow> open_exchange pid s \<and> pid \<noteq> k"
  by (auto simp: in_remove_def ii_remove_def open_exchange_def ii_exist_def)

lemma in_add_Inr:
  "in_add k q s = (Inr b, s') \<Longrightarrow> (open_exchange pid s' \<longleftrightarrow> open_exchange pid s \<or> pid = k) \<and> (b \<longleftrightarrow> \<not> open_exchange k s)"
  by (auto simp: in_add_def ii_add_def open_exchange_def ii_exist_def split: if_splits)

lemma publish1_keeps_exchange:
  assumes "process_publish1 env p k s = (Inr (), s')" and "open_exchange pid s"
  shows "open_exchange pid s'"
proof -
  obtain b s1 where add: "in_add k AtLeastOnce s = (Inr b, s1)"
    using assms(1) unfolding process_publish1_def by (auto split: prod.splits sum.splits fault.splits)
  obtain r s2 where pub: "session_publish env p s1 = (Inr r, s2)"
    using assms(1) add unfolding process_publish1_def by (auto split: prod.splits sum.splits)
  obtain ack s3 where send: "sink_send env (puback_packet (se_version s2) k r) s2 = (ack, s3)" by fastforce
  have s': "s' = (if b then in_remove k s3 else s3)"
    using assms(1) add pub send unfolding process_publish1_def by auto
  have "open_exchange pid s3 \<longleftrightarrow> open_exchange pid s1"
    using open_exchange_part [OF session_publish_part [OF pub]] sink_send_state [OF send] by auto
  with in_add_Inr [OF add, of pid] in_add_Inr [OF add, of k] assms(2) show ?thesis unfolding s' by auto
qed

lemma publish2_result:
  assumes "process_publish2 env p k s = (Inr (), s')"
  shows "open_exchange k s \<and> (\<exists>xs. s' = s\<lparr>se_sent := xs\<rparr>) \<or>
    (\<not> open_exchange k s \<and> (\<exists>r s1. session_publish env p s = (Inr r, s1) \<and>
       (\<forall>pid. open_exchange pid s' \<longleftrightarrow> open_exchange pid s \<or> (pr_is_success r \<and> pid = k))))"
proof (cases "open_exchange k s")
  case True
  then have "sink_send env (pubrec_packet (se_version s) k duplicate_result) s = (Inr (), s')"
    using assms by (simp add: process_publish2_def open_exchange_def)
  with True sink_send_state show ?thesis by blast
next
  case False
  then obtain r s1 where pub: "session_publish env p s = (Inr r, s1)"
    using assms by (auto simp: process_publish2_def open_exchange_def handler_bind_def split: prod.splits sum.splits)
  have part: "open_exchange pid s1 = open_exchange pid s" for pid
    by (rule open_exchange_part [OF session_publish_part [OF pub]])
  obtain b s2 where add: "(if pr_is_success r then in_add k ExactlyOnce else handler_return False) s1 = (Inr b, s2)"
    using assms False pub by (auto simp: process_publish2_def open_exchange_def handler_bind_def split: prod.splits sum.splits)
  have two: "open_exchange pid s2 \<longleftrightarrow> open_exchange pid s1 \<or> (pr_is_success r \<and> pid = k)" for pid
    using add by (cases "pr_is_success r") (auto simp: handler_return_def dest: in_add_Inr [of k ExactlyOnce s1 b s2 pid])
  obtain res s3 where send: "sink_send env (pubrec_packet (se_version s2) k r) s2 = (res, s3)" by fastforce
  have "s' = s3"
    using assms False pub add send by (auto simp: process_publish2_def open_exchange_def handler_bind_def split: sum.splits)
  with sink_send_state [OF send] two part have "open_exchange pid s' \<longleftrightarrow> open_exchange pid s \<or> (pr_is_success r \<and> pid = k)" for pid
    by auto
  with False pub show ?thesis by blast
qed

lemma process_publish_keeps_exchange:
  assumes "process_publish env p s = (Inr (), s')" and "open_exchange pid s"
  shows "open_exchange pid s'"
proof (cases "pub_qos (mp_inner p)")
  case AtMostOnce
  then obtain r where "session_publish env p s = (Inr r, s')"
    using assms(1) by (auto simp: process_publish_def handler_bind_def handler_return_def split: prod.splits sum.splits)
  then show ?thesis using open_exchange_part [OF session_publish_part] assms(2) by blast
next
  case AtLeastOnce
  then obtain k where "process_publish1 env p k s = (Inr (), s')"
    using assms(1) by (auto simp: process_publish_def handler_bind_def require_packet_id_def handler_return_def handler_raise_def
        split: option.splits)
  then show ?thesis using publish1_keeps_exchange assms(2) by blast
next
  case ExactlyOnce
  then obtain k where "process_publish2 env p k s = (Inr (), s')"
    using assms(1) by (auto simp: process_publish_def handler_bind_def require_packet_id_def handler_return_def handler_raise_def
        split: option.splits)
  then show ?thesis using publish2_result assms(2) by fastforce
qed

text \<open>The handlers of all other packets change the incoming window only for a release.\<close>

lemma go_on_Inr: "go_on r = (Inr x, s') \<longleftrightarrow> r = (Inr (), s') \<and> x"
  by (cases r; cases "fst r") (auto simp: go_on_def)

definition sends :: "(unit, 'q) handler \<Rightarrow> bool" where
  "sends h \<longleftrightarrow> (\<forall>s s'. h s = (Inr (), s') \<longrightarrow> (\<exists>xs. s' = s\<lparr>se_sent := xs\<rparr>))"

definition changes_broker :: "('q session \<Rightarrow> 'a \<times> 'q session) \<Rightarrow> bool" where
  "changes_broker h \<longleftrightarrow> (\<forall>s. \<exists>b. snd (h s) = s\<lparr>se_broker := b\<rparr>)"

lemma sends_version: "sends (send_v3 env pkt)" "sends (send_v5 env pkt')"
  using sink_send_state by (auto simp: sends_def send_v3_def send_v5_def split: sink_version.splits)

lemma sendsD: "sends h \<Longrightarrow> h s = (Inr (), s') \<Longrightarrow> \<exists>xs. s' = s\<lparr>se_sent := xs\<rparr>"
  by (simp add: sends_def)

lemma changes_broker_result: "changes_broker h \<Longrightarrow> changes_broker (\<lambda>s. case h s of (res, s) \<Rightarrow> (f res, s))"
  by (simp add: changes_broker_def case_prod_beta)

lemma changes_broker_subscriptions:
  "changes_broker (subscribes_v3 env tfs)" "changes_broker (subscribes_v5 env subs)"
  "changes_broker (unsubscribes env fs)" "changes_broker (unsubscribes_v5 env unsubs)"
proof -
  show "changes_broker (subscribes_v3 env tfs)"
    unfolding changes_broker_def subscribes_v3_def by (intro allI subscribes_broker)
  show u: "changes_broker (unsubscribes env fs)" for fs :: "bytes list" unfolding changes_broker_def by (intro allI unsubscribes_broker)
  show "changes_broker (subscribes_v5 env subs)" unfolding subscribes_v5_def
    by (rule changes_broker_result) (simp add: changes_broker_def subscribes_broker)
  show "changes_broker (unsubscribes_v5 env unsubs)" unfolding unsubscribes_v5_def by (rule changes_broker_result [OF u])
qed

definition other_change :: "'q session \<Rightarrow> 'q session \<Rightarrow> bool" where
  "other_change s s' \<longleftrightarrow> (\<exists>b f d xs. s' = s\<lparr>se_broker := b, se_flags := f, se_disconnect_info := d, se_sent := xs\<rparr>)"

lemma other_changeI: "s' = s\<lparr>se_broker := b, se_flags := f, se_disconnect_info := d, se_sent := xs\<rparr> \<Longrightarrow> other_change s s'"
  unfolding other_change_def by blast

lemma subscription_packet:
  assumes "handler_bind (\<lambda>s. with_reason env mk (h s)) send s = (Inr (), s')"
    and "changes_broker h" and "\<And>x. sends (send x)"
  shows "other_change s s'"
proof -
  obtain x s1 where one: "with_reason env mk (h s) = (Inr x, s1)" and two: "send x s1 = (Inr (), s')"
    using assms(1) by (auto simp: handler_bind_def split: prod.splits sum.splits)
  have "s1 = snd (h s)" using one by (cases "h s"; cases "fst (h s)") (auto simp: with_reason_def split: fault.splits)
  then obtain b where b: "s1 = s\<lparr>se_broker := b\<rparr>" using assms(2) by (auto simp: changes_broker_def)
  moreover obtain xs where "s' = s1\<lparr>se_sent := xs\<rparr>" using sendsD [OF assms(3) two] by blast
  ultimately show ?thesis by (intro other_changeI [where b = b and f = "se_flags s" and d = "se_disconnect_info s" and xs = xs]) simp
qed

lemma ping_packet:
  assumes "handler_bind send (\<lambda>_ s. (Inr (), pinged s)) s = (Inr (), s')" and "sends send"
  shows "other_change s s'"
proof -
  obtain s1 where "send s = (Inr (), s1)" "s' = pinged s1"
    using assms(1) by (auto simp: handler_bind_def split: prod.splits sum.splits)
  moreover from this obtain xs where "s1 = s\<lparr>se_sent := xs\<rparr>" using assms(2) by (auto simp: sends_def)
  ultimately show ?thesis
    by (intro other_changeI [where b = "se_broker s" and f = "(se_flags s)\<lparr>fl_ping := True\<rparr>" and d = "se_disconnect_info s" and xs = xs]) (simp add: pinged_def)
qed

lemma disconnect_packet: "other_change s (disconnect_received env d s)"
  unfolding disconnect_received_def by (intro other_changeI [where b = "se_broker s" and xs = "se_sent s"]) simp

lemma send_packet: "send s = (Inr (), s') \<Longrightarrow> sends send \<Longrightarrow> other_change s s'"
proof -
  assume "send s = (Inr (), s')" and "sends send"
  then obtain xs where "s' = s\<lparr>se_sent := xs\<rparr>" using sendsD by blast
  then show ?thesis
    by (intro other_changeI [where b = "se_broker s" and f = "se_flags s" and d = "se_disconnect_info s" and xs = xs]) simp
qed

fun role_effect :: "session_env \<Rightarrow> 'q deque_ops \<Rightarrow> role \<Rightarrow> 'q session \<Rightarrow> 'q session \<Rightarrow> bool" where
  "role_effect env ops (Publishes p) s s' = (process_publish env (publish_of env p) s = (Inr (), s'))"
| "role_effect env ops (Releases pid) s s' = (\<exists>xs. s' = (in_remove pid s)\<lparr>se_sent := xs\<rparr>)"
| "role_effect env ops (Finishes pid) s s' = (s' = out_acked ops pid s)"
| "role_effect env ops (Receives pid) s s' = (\<exists>xs. s' = (out_received env ops pid s)\<lparr>se_sent := xs\<rparr>)"
| "role_effect env ops Other s s' = other_change s s'"

lemmas packet_effects = go_on_Inr subscription_packet [OF _ changes_broker_subscriptions(1) sends_version(1)]
  subscription_packet [OF _ changes_broker_subscriptions(2) sends_version(2)]
  subscription_packet [OF _ changes_broker_subscriptions(3) sends_version(1)]
  subscription_packet [OF _ changes_broker_subscriptions(4) sends_version(2)]
  ping_packet [OF _ sends_version(1)] ping_packet [OF _ sends_version(2)] disconnect_packet
  send_packet [OF _ sends_version(2)]

lemma process_packet_effect:
  assumes "process_packet env ops pkt s = (Inr x, s')"
  shows "role_effect env ops (role_of pkt) s s'"
proof (cases pkt)
  case (MP_V3 p)
  then show ?thesis using assms by (cases p) (auto simp: packet_effects intro: sendsD [OF sends_version(1)])
next
  case (MP_V5 p)
  then show ?thesis using assms by (cases p) (auto simp: packet_effects intro: sendsD [OF sends_version(2)])
qed (use assms in auto)

lemma process_message_effect:
  assumes "process_mqtt_message env ops pkt s = (Inr (), s')"
  shows "\<exists>s1 f. role_effect env ops (role_of pkt) s s1 \<and> s' = s1\<lparr>se_flags := f\<rparr>"
proof -
  obtain x s1 where one: "process_packet env ops pkt s = (Inr x, s1)"
    and two: "s' = (if x then s1\<lparr>se_flags := (se_flags s1)\<lparr>fl_ping := False\<rparr>\<rparr> else s1)"
    using assms by (auto simp: process_mqtt_message_def handler_bind_def split: prod.splits sum.splits)
  have "\<exists>f. s' = s1\<lparr>se_flags := f\<rparr>" using two by (cases x) (auto intro: exI [of _ "se_flags s1"])
  with process_packet_effect [OF one] show ?thesis by blast
qed

section \<open>Runs\<close>

text \<open>The packets of a client in the order of their arrival, each with the environment at its time; \<open>None\<close> when the
  session has ended.\<close>

fun session_run :: "'q deque_ops \<Rightarrow> (session_env \<times> mqtt_packet) list \<Rightarrow> 'q session \<Rightarrow> 'q session option" where
  "session_run ops [] s = Some s"
| "session_run ops ((env, pkt) # evs) s =
     (case process_mqtt_message env ops pkt s of (Inl _, _) \<Rightarrow> None | (Inr _, s) \<Rightarrow> session_run ops evs s)"

lemma session_run_Cons:
  "session_run ops ((env, pkt) # evs) s = Some s' \<Longrightarrow>
     \<exists>s1. process_mqtt_message env ops pkt s = (Inr (), s1) \<and> session_run ops evs s1 = Some s'"
  by (auto split: prod.splits sum.splits)

lemma session_run_invariant:
  assumes "session_run ops evs s = Some s'" and "P s"
    and step: "\<And>env pkt s s'. (env, pkt) \<in> set evs \<Longrightarrow> process_mqtt_message env ops pkt s = (Inr (), s') \<Longrightarrow> P s \<Longrightarrow> P s'"
  shows "P s'"
  using assms
proof (induction evs arbitrary: s)
  case (Cons ev evs)
  obtain env pkt where ev: "ev = (env, pkt)" by (cases ev)
  obtain s1 where one: "process_mqtt_message env ops pkt s = (Inr (), s1)" and rest: "session_run ops evs s1 = Some s'"
    using session_run_Cons Cons.prems(1) unfolding ev by blast
  have "P s1" using Cons.prems(3) [OF _ one Cons.prems(2)] ev by simp
  with Cons.IH [OF rest] Cons.prems(3) show ?case by (meson list.set_intros(2))
qed simp

lemma message_keeps_exchange:
  assumes "process_mqtt_message env ops pkt s = (Inr (), s')" and "role_of pkt \<noteq> Releases pid" and "open_exchange pid s"
  shows "open_exchange pid s'"
proof -
  obtain s1 f where eff: "role_effect env ops (role_of pkt) s s1" and s': "s' = s1\<lparr>se_flags := f\<rparr>"
    using process_message_effect [OF assms(1)] by blast
  have "open_exchange pid s1"
  proof (cases "role_of pkt")
    case (Publishes p)
    then show ?thesis using eff assms(3) process_publish_keeps_exchange by fastforce
  next
    case (Finishes k)
    then show ?thesis using eff assms(3) by (auto simp: out_acked_def Let_def split: prod.splits option.splits)
  qed (use eff assms in \<open>auto simp: out_received_def other_change_def\<close>)
  then show ?thesis unfolding s' by simp
qed

section \<open>The outgoing window\<close>

text \<open>A condition that also survives changes of the incoming window and packets written to the client.\<close>

locale packet_invariant = session_invariant +
  assumes incoming: "P s \<Longrightarrow> P (s\<lparr>se_in := w, se_in_stat := st\<rparr>)"
    and written: "P s \<Longrightarrow> P (s\<lparr>se_sent := xs\<rparr>)"
begin

lemma in_remove: "P s \<Longrightarrow> P (in_remove pid s)"
  by (simp add: in_remove_def incoming split: prod.splits)

lemma in_add: "preserves P (in_add pid q)"
  by (auto simp: preserves_def in_add_def incoming split: prod.splits)

lemma sink_send: "preserves P (sink_send env pkt)"
  by (auto simp: preserves_def sink_send_def written split: option.splits)

lemma process_publish1: "preserves P (process_publish1 env p pid)"
  unfolding preserves_def
proof (intro allI impI)
  fix s assume "P s"
  obtain r1 s1 where add: "in_add pid AtLeastOnce s = (r1, s1)" by fastforce
  obtain r2 s2 where pub: "session_publish env p s1 = (r2, s2)" by fastforce
  have one: "P s1" using preservesD [OF in_add \<open>P s\<close> add] .
  have two: "P s2" using preservesD [OF session_publish one pub] .
  obtain r3 s3 where send: "sink_send env (puback_packet (se_version s2) pid (projr r2)) s2 = (r3, s3)" by fastforce
  have "P s3" using preservesD [OF sink_send two send] .
  with one two add pub send show "P (snd (process_publish1 env p pid s))"
    by (cases r1; cases r2) (auto simp: process_publish1_def message_dropped in_remove split: fault.splits)
qed

lemma process_publish2: "preserves P (process_publish2 env p pid)"
proof -
  have ans: "preserves P (\<lambda>s. case sink_send env (pubrec_packet (se_version s) pid r) s of
        (Inl e, s) \<Rightarrow> (Inl e, if b then in_remove pid s else s) | (Inr _, s) \<Rightarrow> (Inr (), s))" for r b
  proof -
    have "P (snd (case sink_send env pkt s of (Inl e, s) \<Rightarrow> (Inl e, if b then in_remove pid s else s) | (Inr _, s) \<Rightarrow> (Inr (), s)))"
      if "P s" for s pkt
      using preservesD [OF sink_send that, of env pkt]
      by (cases "sink_send env pkt s"; cases "fst (sink_send env pkt s)") (auto simp: in_remove)
    then show ?thesis by (simp add: preserves_def)
  qed
  have "preserves P (handler_bind (session_publish env p) (\<lambda>pub_res.
      handler_bind (if pr_is_success pub_res then in_add pid ExactlyOnce else handler_return False) (\<lambda>b s.
        case sink_send env (pubrec_packet (se_version s) pid pub_res) s of
          (Inl e, s) \<Rightarrow> (Inl e, if b then in_remove pid s else s) | (Inr _, s) \<Rightarrow> (Inr (), s))))"
    by (intro preserves_bind session_publish ans) (auto intro: in_add preserves_return)
  then show ?thesis using sink_send by (simp add: preserves_def process_publish2_def)
qed

lemma process_publish: "preserves P (process_publish env p)"
  unfolding process_publish_def
  by (cases "pub_qos (mp_inner p)")
    (auto intro!: preserves_bind preserves_require preserves_return session_publish process_publish1 process_publish2)

end

definition window :: "'q deque_ops \<Rightarrow> 'q session \<Rightarrow> u16 \<rightharpoonup> out_inflight_message" where
  "window ops s = map_of (dq_iter ops (oi_queues (se_out s)))"

interpretation outgoing: packet_invariant "\<lambda>s. (se_out s, se_acked s) = c" for c
  by unfold_locales simp_all

lemma window_filter: "map_of (filter (\<lambda>(k', _). k' \<noteq> k) al) = (map_of al)(k := None)"
  by (induction al) (auto simp: fun_eq_iff)

lemma window_update: "map_of (map (\<lambda>(k', m). (k', if k' = k then f m else m)) al) j = map_option (\<lambda>m. if j = k then f m else m) (map_of al j)"
  by (induction al) auto

lemma out_acked_window:
  assumes "deque_laws ops"
  shows "window ops (out_acked ops pid s) = (window ops s)(pid := None)"
    and "se_acked (out_acked ops pid s) = se_acked s @ (case window ops s pid of Some m \<Rightarrow> [(om_from m, om_publish m)] | None \<Rightarrow> [])"
proof -
  obtain r q where r: "dq_remove ops pid (oi_queues (se_out s)) = (r, q)" by fastforce
  then have "r = window ops s pid" and "map_of (dq_iter ops q) = (window ops s)(pid := None)"
    using deque_remove(1,2) [OF assms, of pid "oi_queues (se_out s)"] by (simp_all add: window_def window_filter)
  with r show "window ops (out_acked ops pid s) = (window ops s)(pid := None)"
    and "se_acked (out_acked ops pid s) = se_acked s @ (case window ops s pid of Some m \<Rightarrow> [(om_from m, om_publish m)] | None \<Rightarrow> [])"
    by (auto simp: out_acked_def oi_remove_def Let_def window_def split: option.splits)
qed

section \<open>An example\<close>

definition ex_env :: session_env where
  "ex_env = \<lparr>ev_now = 0,
     ev_cfg = \<lparr>lc_max_subscriptions = 0, lc_max_topic_levels = 0, lc_max_qos_allowed = ExactlyOnce,
       lc_delayed_publish = False, lc_limit_subscription = False\<rparr>,
     ev_send = (\<lambda>_. None), ev_message_publish = (\<lambda>_ _. None), ev_publish_check_acl = (\<lambda>_. acl_allow),
     ev_expiry_check = (\<lambda>_ _. Remaining None), ev_message_delivered = (\<lambda>_ _. None),
     ev_client_subscribe = (\<lambda>_. None), ev_subscribe_check_acl = (\<lambda>_. None), ev_client_unsubscribe = (\<lambda>_. None),
     ev_shared_supported = False, ev_storage_enabled = False, ev_retain_enabled = False, ev_retain_set = (\<lambda>_ _. None),
     ev_expiry_interval = (\<lambda>_. 0), ev_delayed_max = 0, ev_delayed_immediate = False,
     ev_is_online = (\<lambda>_ _. True), ev_choice = (\<lambda>_ _ _ _. None), ev_error_text = (\<lambda>_. []),
     ev_reply_open = True, ev_session_expiry_interval = (\<lambda>_. 0), ev_form_urlencoded = (\<lambda>_. [])\<rparr>"

definition ex_connect :: connect3 where
  "ex_connect = \<lparr>c3_protocol = protocol_default, c3_clean_session = False, c3_keep_alive = 60, c3_last_will = None,
     c3_client_id = text_bytes ''s'', c3_username = None, c3_password = None, c3_cert = None\<rparr>"

definition ex_session :: "(u16, out_inflight_message) alist session" where
  "ex_session = \<lparr>se_id = ex_ident ''s'', se_connect_info = CI_V3 (ex_ident ''s'') ex_connect, se_version = SinkV3,
     se_in = ii_new 10, se_in_stat = counter_new, se_out = ex_out, se_out_stat = counter_new,
     se_server_aliases = None, se_client_aliases = None, se_broker = ex_broker, se_delayed = ([], counter_new),
     se_flags = \<lparr>fl_kicked = False, fl_by_admin_kick = False, fl_disconnect_received = False, fl_clean_start = False, fl_ping = False\<rparr>,
     se_disconnect_info = \<lparr>din_disconnected_at = 0, din_reasons = [], din_mqtt_disconnect = None\<rparr>,
     se_sent = [], se_forwarded = [], se_acked = [], se_dropped = [], se_queue = queue_new 10, se_tx = []\<rparr>"

text \<open>A publication of QoS 2 for one client.\<close>

definition ex_pub2 :: msg_publish where
  "ex_pub2 = mp_set_target_clientid ''t'' (mp_from \<lparr>pub_dup = False, pub_retain = False, pub_qos = ExactlyOnce,
     pub_topic = text_bytes ''a'', pub_packet_id = Some 7, pub_payload = [1], pub_properties = None\<rparr>)"

lemmas ex_session_defs = ex_env_def ex_connect_def ex_session_def ex_pub2_def ex_out_def ex_broker_def ex_peer_def
  mp_set_target_clientid_def mp_from_def mp_new_def

section \<open>Properties\<close>

text \<open>C5: A publication of QoS 2 is forwarded once. Once a PUBLISH with identifier \<open>pid\<close> has been accepted (then its message
  has been published successfully), as long as the client does not release the identifier, whatever else
  it sends, every further PUBLISH of QoS 2 with this identifier is only answered with a PUBREC: nothing is forwarded
  and no other part of the state changes. A release makes the identifier available again.\<close>

theorem qos2_exactly_once:
  assumes first: "process_publish env p s = (Inr (), s1)" "pub_qos (mp_inner p) = ExactlyOnce" "pub_packet_id (mp_inner p) = Some pid"
    and accepted: "\<not> open_exchange pid s" "open_exchange pid s1"
    and later: "session_run ops evs s1 = Some s2" "\<forall>(e, pkt)\<in>set evs. role_of pkt \<noteq> Releases pid"
    and again: "pub_qos (mp_inner q) = ExactlyOnce" "pub_packet_id (mp_inner q) = Some pid"
  shows "(\<exists>r s'. session_publish env p s = (Inr r, s') \<and> pr_is_success r) \<and>
    process_publish env' q s2 = sink_send env' (pubrec_packet (se_version s2) pid duplicate_result) s2 \<and>
    (\<forall>e pkt s3. role_of pkt = Releases pid \<longrightarrow> process_mqtt_message e ops pkt s2 = (Inr (), s3) \<longrightarrow> \<not> open_exchange pid s3)"
proof (intro conjI allI impI)
  have "process_publish2 env p pid s = (Inr (), s1)"
    using first by (simp add: process_publish_def require_packet_id_def handler_bind_def handler_return_def)
  from publish2_result [OF this] accepted show "\<exists>r s'. session_publish env p s = (Inr r, s') \<and> pr_is_success r" by auto
  have "open_exchange pid s2"
    using session_run_invariant [OF later(1), of "open_exchange pid", OF accepted(2)] message_keeps_exchange later(2) by fast
  then show "process_publish env' q s2 = sink_send env' (pubrec_packet (se_version s2) pid duplicate_result) s2"
    using again by (simp add: process_publish_def process_publish2_def require_packet_id_def handler_bind_def handler_return_def open_exchange_def)
  fix e pkt s3 assume "role_of pkt = Releases pid" and "process_mqtt_message e ops pkt s2 = (Inr (), s3)"
  then show "\<not> open_exchange pid s3" using process_message_effect by fastforce
qed

lemma ex_pub2_accepted:
  "\<exists>s1. process_publish ex_env ex_pub2 ex_session = (Inr (), s1) \<and> open_exchange 7 s1 \<and> se_flags s1 = se_flags ex_session \<and> se_version s1 = SinkV3"
  by (simp add: ex_session_defs process_publish_def process_publish2_def require_packet_id_def handler_bind_def handler_return_def
      session_publish_def publish_checked_def resolve_alias_def parse_delayed_def acl_allow_def acl_is_allow_def pr_of_reason_code_def
      pr_default_def pr_is_success_def forwards_def inner_forwards_def shared_forwards_def Let_def in_add_def ii_add_def ii_new_def
      ii_exist_def sink_send_def open_exchange_def tx_send_def pr_success_def)

theorem qos2_exactly_once_witness:
  "\<exists>s1 s2. process_publish ex_env ex_pub2 ex_session = (Inr (), s1) \<and>
     session_run list_deque [(ex_env, MP_V3 P3_PingRequest)] s1 = Some s2 \<and>
     process_publish ex_env ex_pub2 s2 = sink_send ex_env (pubrec_packet (se_version s2) 7 duplicate_result) s2"
proof -
  obtain s1 where one: "process_publish ex_env ex_pub2 ex_session = (Inr (), s1)" "open_exchange 7 s1" "se_version s1 = SinkV3"
    using ex_pub2_accepted by blast
  have "\<exists>s2. session_run list_deque [(ex_env, MP_V3 P3_PingRequest)] s1 = Some s2"
    using one(3) by (simp add: process_mqtt_message_def handler_bind_def go_on_def send_v3_def sink_send_def ex_env_def)
  then obtain s2 where two: "session_run list_deque [(ex_env, MP_V3 P3_PingRequest)] s1 = Some s2" ..
  have "pub_qos (mp_inner ex_pub2) = ExactlyOnce" "pub_packet_id (mp_inner ex_pub2) = Some 7" "\<not> open_exchange 7 ex_session"
    by (simp_all add: ex_session_defs open_exchange_def ii_exist_def ii_new_def)
  with qos2_exactly_once [OF one(1) _ _ _ one(2) two] one two show ?thesis by auto
qed

text \<open>C8: A message leaves the outgoing window with its last acknowledgement. A packet of the client that is handled
  without an error removes exactly the message with its identifier when it is a PUBACK or a PUBCOMP, and this message
  is reported as acknowledged; a PUBREC marks its message as waiting for PUBCOMP; no other packet changes the window.\<close>

theorem acknowledged_messages_leave:
  assumes laws: "deque_laws ops" and run: "process_mqtt_message env ops pkt s = (Inr (), s')"
  shows "window ops s' =
      (case role_of pkt of
         Finishes pid \<Rightarrow> (window ops s)(pid := None)
       | Receives pid \<Rightarrow> (\<lambda>k. map_option (\<lambda>m. if k = pid then om_update_status (ev_now env) UnComplete m else m) (window ops s k))
       | _ \<Rightarrow> window ops s) \<and>
    se_acked s' = se_acked s @
      (case role_of pkt of
         Finishes pid \<Rightarrow> (case window ops s pid of Some m \<Rightarrow> [(om_from m, om_publish m)] | None \<Rightarrow> [])
       | _ \<Rightarrow> [])"
proof -
  obtain s1 f where eff: "role_effect env ops (role_of pkt) s s1" and s': "s' = s1\<lparr>se_flags := f\<rparr>"
    using process_message_effect [OF run] by blast
  have same: "window ops s' = window ops s1" "se_acked s' = se_acked s1" by (simp_all add: s' window_def)
  show ?thesis
  proof (cases "role_of pkt")
    case (Publishes p)
    then have "(se_out s1, se_acked s1) = (se_out s, se_acked s)"
      using eff preservesD [OF outgoing.process_publish] by (metis role_effect.simps(1))
    with Publishes same show ?thesis by (simp add: window_def)
  next
    case (Releases pid)
    then show ?thesis using eff same by (auto simp: in_remove_def window_def split: prod.splits)
  next
    case (Finishes pid)
    then show ?thesis using eff same out_acked_window [OF laws] by simp
  next
    case (Receives pid)
    then show ?thesis using eff same
      by (auto simp: out_received_def oi_update_status_def window_def fun_eq_iff deque_remove(3) [OF laws] window_update)
  next
    case Other
    then show ?thesis using eff same by (auto simp: other_change_def window_def)
  qed
qed

theorem acknowledged_messages_leave_witness:
  "window list_deque (snd (process_mqtt_message ex_env list_deque (MP_V3 (P3_PublishAck 7))
      (ex_session\<lparr>se_out := ex_over\<rparr>))) = (window list_deque (ex_session\<lparr>se_out := ex_over\<rparr>))(7 := None)"
proof -
  obtain s' where "process_mqtt_message ex_env list_deque (MP_V3 (P3_PublishAck 7)) (ex_session\<lparr>se_out := ex_over\<rparr>) = (Inr (), s')"
    by (simp add: process_mqtt_message_def handler_bind_def)
  from acknowledged_messages_leave [OF list_deque_laws this] this show ?thesis by simp
qed

end
