(* ===== verification/Persistence.thy ===== *)
theory Persistence
  imports Message_History Session_Protocol
begin

text \<open>
  Publications and subscriptions of a node with its stores: \<open>inner_forwards\<close> and the delivery on subscription of
  \<open>ferromq/src/session.rs\<close>, and \<open>forwards\<close>, \<open>message_load_with\<close>, \<open>retain_load_with\<close>, \<open>message_mark_forwarded\<close> of \<open>shared.rs\<close>. A
  publication is given an identifier, retained if it asks for that, stored, and forwarded; the
  clients that got it are marked in the store. A new subscription is sent the retained and then the stored messages.

  The node is the broker state of theory \<open>Shared\<close>, the storage of retained messages of \<open>Retain\<close> and the store of
  \<open>Message_Store\<close>. The tasks that are spawned for a subscription run to their end before the next event. The broadcast of a retained
  message to other nodes, which does nothing on a single node, is left out.

  Shown: forwarding with the store changes the broker as the session model of theory \<open>Session\<close> says; a
  subscription is sent exactly the retained and stored messages that are due, and the sent ones are marked; nothing is marked
  that was not sent; a client that got a message when it was published is not sent it from the store. Also shown: a client that got
  the retained copy of a message can get the stored copy too.
\<close>

section \<open>State\<close>

record node_cfg =
  nf_lib :: store_lib
  nf_store :: store_cfg
  nf_store_enable :: bool
  nf_retain :: retainer_cfg
  nf_retain_enable :: bool

text \<open>What an event depends on: the time, the other clients, and what becomes of each message to the task of the store.\<close>

record node_env =
  ne_now :: timestamp
  ne_is_online :: "node_id \<Rightarrow> client_id \<Rightarrow> bool"
  ne_choice :: choice_fn
  ne_send :: "store_msg \<Rightarrow> send_outcome"

record node =
  nd_broker :: broker
  nd_retain :: retain_storage
  nd_store :: msg_store
  nd_dropped :: "(ident option \<times> msg_from \<times> msg_publish \<times> reason) list"
  nd_nonsubscribed :: "msg_from list"

section \<open>Publication\<close>

text \<open>The mark that \<open>forwards\<close> sends to the store.\<close>

definition node_mark :: "node_env \<Rightarrow> nat \<Rightarrow> recipient list \<Rightarrow> node \<Rightarrow> node" where
  "node_mark env i rs nd =
     nd\<lparr>nd_store := snd (mark_forwarded (ne_send env (MarkForwarded i rs)) i rs (nd_store nd))\<rparr>"

definition mark_recipients :: "node_env \<Rightarrow> nat option \<Rightarrow> recipient list \<Rightarrow> node \<Rightarrow> node" where
  "mark_recipients env msg_id recipients nd =
     (case msg_id of Some i \<Rightarrow> (if recipients \<noteq> [] then node_mark env i recipients nd else nd) | None \<Rightarrow> nd)"

definition node_forwards :: "node_env \<Rightarrow> nat option \<Rightarrow> msg_from \<Rightarrow> msg_publish \<Rightarrow> node \<Rightarrow>
    ((nat \<times> forward_error list) + nat) \<times> node" where
  "node_forwards env msg_id from p nd =
     (let b = nd_broker nd
      in case mp_target_clientid p of
           Some target \<Rightarrow>
             (let opts = opt_set_qos (pub_qos (mp_inner p)) so_default;
                  (recipients, errs, peers) =
                    forwards_to (ne_now env) from p [(text_of (pub_topic (mp_inner p)), target, opts, None, None)] (br_peers b);
                  nd = nd\<lparr>nd_broker := b\<lparr>br_peers := peers\<rparr>\<rparr>
              in if errs \<noteq> [] then (Inl (0, errs), nd)
                 else if id_node_id (from_id from) = br_node_id b then (Inr 1, mark_recipients env msg_id recipients nd)
                 else (Inr 0, nd))
         | None \<Rightarrow>
             (let relations_map =
                    (case router_matches (ne_is_online env) (ne_choice env) (from_id from) (text_of (pub_topic (mp_inner p)))
                            (br_router b) of
                       Inr m \<Rightarrow> m
                     | Inl _ \<Rightarrow> [])
              in case map_of relations_map (br_node_id b) of
                   Some rels \<Rightarrow>
                     (let (recipients, errs, peers) = forwards_to (ne_now env) from p rels (br_peers b);
                          nd = mark_recipients env msg_id recipients (nd\<lparr>nd_broker := b\<lparr>br_peers := peers\<rparr>\<rparr>)
                      in if errs \<noteq> [] then (Inl (length recipients, errs), nd) else (Inr (length recipients), nd))
                 | None \<Rightarrow> (Inr 0, nd)))"

definition node_store_msg :: "node_env \<Rightarrow> nat option \<Rightarrow> msg_from \<Rightarrow> msg_publish \<Rightarrow> int option \<Rightarrow> node \<Rightarrow> node" where
  "node_store_msg env msg_id from p message_expiry_interval nd =
     (case (msg_id, message_expiry_interval) of
        (Some i, Some e) \<Rightarrow>
          nd\<lparr>nd_store := snd (ms_store (ne_send env (StoreMsg from p e i None)) i from p e None (nd_store nd))\<rparr>
      | _ \<Rightarrow> nd)"

definition report_forwarded :: "msg_from \<Rightarrow> ((nat \<times> forward_error list) + nat) \<Rightarrow> node \<Rightarrow> node" where
  "report_forwarded from forwarded nd =
     (case forwarded of
        Inr n \<Rightarrow> (if n = 0 then nd\<lparr>nd_nonsubscribed := nd_nonsubscribed nd @ [from]\<rparr> else nd)
      | Inl (_, errs) \<Rightarrow> nd\<lparr>nd_dropped := nd_dropped nd @ map (\<lambda>(to, from, p, r). (Some to, from, p, r)) errs\<rparr>)"

definition retain_publish :: "node_cfg \<Rightarrow> node_env \<Rightarrow> nat option \<Rightarrow> msg_from \<Rightarrow> msg_publish \<Rightarrow> int option \<Rightarrow> retain_storage \<Rightarrow>
    (topic_error + unit) \<times> retain_storage" where
  "retain_publish cfg env msg_id from p message_expiry_interval retain =
     (if nf_retain_enable cfg \<and> pub_retain (mp_inner p) then
        ram_set (nf_retain cfg) (ne_now env) (text_of (pub_topic (mp_inner p)))
          \<lparr>rt_msg_id = msg_id, rt_from = from, rt_publish = p\<rparr> message_expiry_interval retain
      else (Inr (), retain))"

definition node_publish :: "node_cfg \<Rightarrow> node_env \<Rightarrow> msg_from \<Rightarrow> msg_publish \<Rightarrow> bool \<Rightarrow> int option \<Rightarrow> node \<Rightarrow>
    (topic_error + unit) \<times> node" where
  "node_publish cfg env from p message_storage_available message_expiry_interval nd =
     (let (msg_id, store) =
            (if message_storage_available then (let (i, s) = next_msg_id (nd_store nd) in (Some i, s)) else (None, nd_store nd));
          (res, retain) = retain_publish cfg env msg_id from p message_expiry_interval (nd_retain nd);
          nd = nd\<lparr>nd_store := store, nd_retain := retain\<rparr>
      in case res of
           Inl e \<Rightarrow> (Inl e, nd)
         | Inr _ \<Rightarrow>
             (let (forwarded, nd) =
                    node_forwards env msg_id from p (node_store_msg env msg_id from p message_expiry_interval nd)
              in (Inr (), report_forwarded from forwarded nd)))"

section \<open>Subscription\<close>

definition message_mark_forwarded :: "node_env \<Rightarrow> node_id \<Rightarrow> nat \<Rightarrow> recipient list \<Rightarrow> node \<Rightarrow> node" where
  "message_mark_forwarded env from_node_id i recipients nd =
     (if from_node_id = br_node_id (nd_broker nd) then node_mark env i recipients nd else nd)"

text \<open>A message for the channel of the subscriber; what cannot be sent is reported as dropped.\<close>

definition node_entry_publish :: "ident \<Rightarrow> msg_from \<Rightarrow> msg_publish \<Rightarrow> node \<Rightarrow> bool \<times> node" where
  "node_entry_publish i from p nd =
     (case entry_publish i from p (nd_broker nd) of
        (Inr _, b) \<Rightarrow> (True, nd\<lparr>nd_broker := b\<rparr>)
      | (Inl (f, q, r), b) \<Rightarrow> (False, nd\<lparr>nd_broker := b, nd_dropped := nd_dropped nd @ [(Some i, f, q, r)]\<rparr>))"

definition stored_publish :: "qos \<Rightarrow> msg_publish \<Rightarrow> msg_publish" where
  "stored_publish q p =
     p\<lparr>mp_inner := (mp_inner p)\<lparr>pub_dup := False, pub_retain := False, pub_qos := less_value (pub_qos (mp_inner p)) q,
         pub_packet_id := None\<rparr>\<rparr>"

type_synonym excluded = "(node_id \<times> nat) list option"

definition is_excluded :: "excluded \<Rightarrow> msg_from \<Rightarrow> nat \<Rightarrow> bool" where
  "is_excluded excludeds from i =
     (case excludeds of Some xs \<Rightarrow> (id_node_id (from_id from), i) \<in> set xs | None \<Rightarrow> False)"

fun send_storaged_messages :: "node_env \<Rightarrow> ident \<Rightarrow> (nat \<times> msg_from \<times> msg_publish) list \<Rightarrow> qos \<Rightarrow> excluded \<Rightarrow> topic_filter \<Rightarrow>
    shared_group option \<Rightarrow> node \<Rightarrow> node" where
  "send_storaged_messages env i [] q excludeds tf grp nd = nd"
| "send_storaged_messages env i ((msg_id, from, p) # msgs) q excludeds tf grp nd =
     (if is_excluded excludeds from msg_id then send_storaged_messages env i msgs q excludeds tf grp nd
      else (let (ok, nd) = node_entry_publish i from (stored_publish q p) nd;
                nd = (if ok then
                        message_mark_forwarded env (id_node_id (from_id from)) msg_id
                          [(id_client_id i, map_option (Pair tf) grp)] nd
                      else nd)
            in send_storaged_messages env i msgs q excludeds tf grp nd))"

definition message_load_with :: "node_cfg \<Rightarrow> node_env \<Rightarrow> ident \<Rightarrow> qos \<Rightarrow> excluded \<Rightarrow> topic_filter \<Rightarrow> shared_group option \<Rightarrow>
    node \<Rightarrow> (store_error + unit) \<times> node" where
  "message_load_with cfg env i q excludeds tf grp nd =
     (case ms_get (nf_lib cfg) (nf_store cfg) (ne_now env) (id_client_id i) tf grp (nd_store nd) of
        Inl e \<Rightarrow> (Inl e, nd)
      | Inr msgs \<Rightarrow> (Inr (), send_storaged_messages env i msgs q excludeds tf grp nd))"

definition retained_publish :: "timestamp \<Rightarrow> qos \<Rightarrow> string \<Rightarrow> msg_publish \<Rightarrow> msg_publish" where
  "retained_publish now q name p =
     p\<lparr>mp_inner := (mp_inner p)\<lparr>pub_dup := False, pub_retain := True, pub_qos := less_value (pub_qos (mp_inner p)) q,
         pub_topic := text_bytes name, pub_packet_id := None\<rparr>, mp_create_time := Some now\<rparr>"

fun send_retain_messages :: "node_env \<Rightarrow> ident \<Rightarrow> (string \<times> retain_msg) list \<Rightarrow> qos \<Rightarrow> node \<Rightarrow> node" where
  "send_retain_messages env i [] q nd = nd"
| "send_retain_messages env i ((name, r) # retains) q nd =
     send_retain_messages env i retains q
       (snd (node_entry_publish i (rt_from r) (retained_publish (ne_now env) q name (rt_publish r)) nd))"

definition retain_ids :: "(string \<times> retain_msg) list \<Rightarrow> (node_id \<times> nat) list" where
  "retain_ids retains =
     List.map_filter (\<lambda>(_, r). map_option (Pair (id_node_id (from_id (rt_from r)))) (rt_msg_id r)) retains"

definition on_retains :: "node_env \<Rightarrow> ident \<Rightarrow> qos \<Rightarrow> (string \<times> retain_msg) list \<Rightarrow> node \<Rightarrow> (node_id \<times> nat) list \<times> node" where
  "on_retains env i q retains nd = (retain_ids retains, send_retain_messages env i retains q nd)"

definition retain_load_with :: "node_env \<Rightarrow> ident \<Rightarrow> qos \<Rightarrow> topic_filter \<Rightarrow> node \<Rightarrow> (topic_error + (node_id \<times> nat) list) \<times> node" where
  "retain_load_with env i q tf nd =
     (case get_message (ne_now env) tf (nd_retain nd) of
        Inl e \<Rightarrow> (Inl e, nd)
      | Inr retains \<Rightarrow> apfst Inr (on_retains env i q retains nd))"

definition send_retain_enable :: "retain_handling option \<Rightarrow> bool \<Rightarrow> bool" where
  "send_retain_enable retain_handling prev_opts_is_none =
     (case retain_handling of
        Some RH_AtSubscribe \<Rightarrow> True
      | Some RH_AtSubscribeNew \<Rightarrow> prev_opts_is_none
      | Some RH_NoAtSubscribe \<Rightarrow> False
      | None \<Rightarrow> True)"

definition send_retain_excludeds :: "node_cfg \<Rightarrow> node_env \<Rightarrow> ident \<Rightarrow> topic_filter \<Rightarrow> retain_handling option \<Rightarrow> bool \<Rightarrow> qos \<Rightarrow>
    node \<Rightarrow> (topic_error + excluded) \<times> node" where
  "send_retain_excludeds cfg env i tf retain_handling prev_opts_is_none q nd =
     (if \<not> nf_retain_enable cfg then (Inr None, nd)
      else if send_retain_enable retain_handling prev_opts_is_none then apfst (map_sum id Some) (retain_load_with env i q tf nd)
      else (Inr (Some []), nd))"

definition send_subscribe_messages :: "node_cfg \<Rightarrow> node_env \<Rightarrow> ident \<Rightarrow> topic_filter \<Rightarrow> shared_group option \<Rightarrow>
    retain_handling option \<Rightarrow> bool \<Rightarrow> qos \<Rightarrow> node \<Rightarrow> node" where
  "send_subscribe_messages cfg env i tf grp retain_handling prev_opts_is_none q nd =
     (let (res, nd) = send_retain_excludeds cfg env i tf retain_handling prev_opts_is_none q nd;
          excludeds = (case res of Inr r \<Rightarrow> r | Inl _ \<Rightarrow> None)
      in if nf_store_enable cfg then snd (message_load_with cfg env i q excludeds tf grp nd) else nd)"

section \<open>Agreement with the session\<close>

text \<open>The marks do not change what is forwarded.\<close>

lemma mark_recipients_broker [simp]:
  "nd_broker (mark_recipients env msg_id rs nd) = nd_broker nd" "nd_broker (node_mark env i rs nd) = nd_broker nd"
  by (simp_all add: mark_recipients_def node_mark_def split: option.splits)

lemma node_forwards_shared:
  "fst (node_forwards env msg_id from p nd) = fst (shared_forwards (ne_now env) (ne_is_online env) (ne_choice env) from p (nd_broker nd))"
  "nd_broker (snd (node_forwards env msg_id from p nd))
     = snd (shared_forwards (ne_now env) (ne_is_online env) (ne_choice env) from p (nd_broker nd))"
  by (simp_all add: node_forwards_def shared_forwards_def Let_def split: option.splits prod.splits)

definition same_env :: "node_cfg \<Rightarrow> node_env \<Rightarrow> session_env \<Rightarrow> bool" where
  "same_env cfg env senv \<longleftrightarrow>
     ev_now senv = ne_now env \<and> ev_is_online senv = ne_is_online env \<and> ev_choice senv = ne_choice env \<and>
     ev_retain_enabled senv = nf_retain_enable cfg"

lemma message_dropped_broker [simp]: "se_broker (message_dropped frm p r s) = se_broker s"
  by (simp add: message_dropped_def)

lemma fold_dropped_broker [simp]: "se_broker (fold (\<lambda>(to, from, p, r). message_dropped from p r) errs s) = se_broker s"
  by (induction errs arbitrary: s) auto

section \<open>Delivery to one client\<close>

lemma received_by_open [simp]: "pe_tx_open (received_by ms pe) = pe_tx_open pe"
  by (simp add: received_by_def)

text \<open>The broker after messages for one client.\<close>

definition channel_put :: "client_id \<Rightarrow> peer \<Rightarrow> message list \<Rightarrow> broker \<Rightarrow> broker" where
  "channel_put c pe ms b = b\<lparr>br_peers := AList.update c (received_by ms pe) (br_peers b)\<rparr>"

lemma channel_put_Nil: "map_of (br_peers b) c = Some pe \<Longrightarrow> channel_put c pe [] b = b"
  by (simp add: channel_put_def update_same)

lemma channel_put_step:
  "channel_put c (received_by [m] pe) ms (channel_put c pe [m] b) = channel_put c pe (m # ms) b"
  "map_of (br_peers (channel_put c pe ms b)) c = Some (received_by ms pe)" "br_node_id (channel_put c pe ms b) = br_node_id b"
  by (simp_all add: channel_put_def received_by_append update_conv')

lemma channel_put_append: "channel_put c (received_by ms pe) ms' (channel_put c pe ms b) = channel_put c pe (ms @ ms') b"
  by (simp add: channel_put_def received_by_def)

lemma publish_open:
  assumes "map_of (br_peers (nd_broker nd)) (id_client_id i) = Some pe" and "pe_tx_open pe"
  shows "node_entry_publish i from p nd = (True, nd\<lparr>nd_broker := channel_put (id_client_id i) pe [MForward from p] (nd_broker nd)\<rparr>)"
  using assms by (simp add: node_entry_publish_def entry_publish_def tx_send_received channel_put_def)

definition closed_reason :: "client_id \<Rightarrow> broker \<Rightarrow> reason" where
  "closed_reason c b = (if map_of (br_peers b) c = None then R_Error ''Tx is None'' else R_Error ''Tx is closed'')"

lemma publish_closed:
  assumes "\<not> reachable (br_peers (nd_broker nd)) (id_client_id i)"
  shows "node_entry_publish i from p nd
    = (False, nd\<lparr>nd_dropped := nd_dropped nd @ [(Some i, from, p, closed_reason (id_client_id i) (nd_broker nd))]\<rparr>)"
  using assms by (auto simp: node_entry_publish_def entry_publish_def reachable_def tx_send_def closed_reason_def split: option.splits)

text \<open>The messages for the channel.\<close>

definition retain_pair :: "timestamp \<Rightarrow> qos \<Rightarrow> string \<times> retain_msg \<Rightarrow> msg_from \<times> msg_publish" where
  "retain_pair now q = (\<lambda>(name, r). (rt_from r, retained_publish now q name (rt_publish r)))"

definition stored_pair :: "qos \<Rightarrow> nat \<times> msg_from \<times> msg_publish \<Rightarrow> msg_from \<times> msg_publish" where
  "stored_pair q = (\<lambda>(k, from, p). (from, stored_publish q p))"

abbreviation forward_of :: "msg_from \<times> msg_publish \<Rightarrow> message" where
  "forward_of \<equiv> \<lambda>(from, p). MForward from p"

definition wanted_stored :: "excluded \<Rightarrow> (nat \<times> msg_from \<times> msg_publish) list \<Rightarrow> (nat \<times> msg_from \<times> msg_publish) list" where
  "wanted_stored ex msgs = filter (\<lambda>(k, from, p). \<not> is_excluded ex from k) msgs"

text \<open>The marks of the sent messages, as operations on the store.\<close>

definition mark_ops :: "node_env \<Rightarrow> node_id \<Rightarrow> recipient \<Rightarrow> (nat \<times> msg_from \<times> msg_publish) list \<Rightarrow> message_op list" where
  "mark_ops env n r msgs =
     map (\<lambda>(k, from, p). OpMark k [r] (ne_send env (MarkForwarded k [r])))
       (filter (\<lambda>(k, from, p). id_node_id (from_id from) = n) msgs)"

lemma mark_ops_Cons: "mark_ops env n r (m # msgs) = mark_ops env n r [m] @ mark_ops env n r msgs"
  by (simp add: mark_ops_def)

lemma send_retain_open:
  assumes "map_of (br_peers (nd_broker nd)) (id_client_id i) = Some pe" and "pe_tx_open pe"
  shows "send_retain_messages env i rs q nd
    = nd\<lparr>nd_broker := channel_put (id_client_id i) pe (map (forward_of \<circ> retain_pair (ne_now env) q) rs) (nd_broker nd)\<rparr>"
  using assms
proof (induction rs arbitrary: nd pe)
  case (Cons r rs)
  obtain name m where "r = (name, m)" by fastforce
  then show ?case using Cons by (simp add: publish_open channel_put_step retain_pair_def)
qed (simp add: channel_put_Nil)

lemma send_retain_closed:
  assumes "\<not> reachable (br_peers (nd_broker nd)) (id_client_id i)"
  shows "send_retain_messages env i rs q nd
    = nd\<lparr>nd_dropped := nd_dropped nd @ map (\<lambda>(f, p). (Some i, f, p, closed_reason (id_client_id i) (nd_broker nd))) (map (retain_pair (ne_now env) q) rs)\<rparr>"
  using assms
proof (induction rs arbitrary: nd)
  case (Cons r rs)
  obtain name m where "r = (name, m)" by fastforce
  then show ?case using Cons by (simp add: publish_closed retain_pair_def)
qed simp

lemma node_mark_step: "node_mark env k rs nd
    = nd\<lparr>nd_store := message_step lib cfg (OpMark k rs (ne_send env (MarkForwarded k rs))) (nd_store nd)\<rparr>"
  by (simp add: node_mark_def message_step.simps)

lemma send_storaged_open:
  assumes "map_of (br_peers (nd_broker nd)) (id_client_id i) = Some pe" and "pe_tx_open pe"
  shows "send_storaged_messages env i msgs q ex tf grp nd
    = nd\<lparr>nd_broker := channel_put (id_client_id i) pe (map (forward_of \<circ> stored_pair q) (wanted_stored ex msgs)) (nd_broker nd),
         nd_store := fold (message_step lib cfg)
           (mark_ops env (br_node_id (nd_broker nd)) (id_client_id i, map_option (Pair tf) grp) (wanted_stored ex msgs)) (nd_store nd)\<rparr>"
  using assms
proof (induction msgs arbitrary: nd pe)
  case (Cons m msgs)
  obtain k frm p where m: "m = (k, frm, p)" by (metis prod_cases3)
  let ?r = "(id_client_id i, map_option (Pair tf) grp)"
  show ?case
  proof (cases "is_excluded ex frm k")
    case True
    then show ?thesis using Cons m by (simp add: wanted_stored_def)
  next
    case False
    let ?nd = "message_mark_forwarded env (id_node_id (from_id frm)) k [?r] (nd\<lparr>nd_broker := channel_put (id_client_id i) pe [MForward frm (stored_publish q p)] (nd_broker nd)\<rparr>)"
    have nd: "nd_broker ?nd = channel_put (id_client_id i) pe [MForward frm (stored_publish q p)] (nd_broker nd)"
      "nd_store ?nd = fold (message_step lib cfg) (mark_ops env (br_node_id (nd_broker nd)) ?r [m]) (nd_store nd)"
      "\<And>b s. ?nd\<lparr>nd_broker := b, nd_store := s\<rparr> = nd\<lparr>nd_broker := b, nd_store := s\<rparr>"
      using node_mark_step [of env k "[?r]" _ lib cfg] by (simp_all add: message_mark_forwarded_def m mark_ops_def channel_put_step)
    have "send_storaged_messages env i (m # msgs) q ex tf grp nd = send_storaged_messages env i msgs q ex tf grp ?nd"
      using False Cons.prems by (simp add: m publish_open)
    also have "\<dots> = ?nd\<lparr>nd_broker := channel_put (id_client_id i) (received_by [MForward frm (stored_publish q p)] pe)
           (map (forward_of \<circ> stored_pair q) (wanted_stored ex msgs)) (nd_broker ?nd),
         nd_store := fold (message_step lib cfg) (mark_ops env (br_node_id (nd_broker ?nd)) ?r (wanted_stored ex msgs)) (nd_store ?nd)\<rparr>"
      by (rule Cons.IH) (simp_all add: nd(1) channel_put_step Cons.prems)
    finally have sent: "send_storaged_messages env i (m # msgs) q ex tf grp nd = \<dots>" .
    have "wanted_stored ex (m # msgs) = m # wanted_stored ex msgs" using False by (simp add: wanted_stored_def m)
    then show ?thesis
      unfolding sent nd by (simp add: m channel_put_step stored_pair_def mark_ops_Cons [of _ _ _ "(k, frm, p)" "wanted_stored ex msgs"] comp_def)
  qed
qed (simp add: channel_put_Nil wanted_stored_def mark_ops_def)

lemma send_storaged_closed:
  assumes "\<not> reachable (br_peers (nd_broker nd)) (id_client_id i)"
  shows "send_storaged_messages env i msgs q ex tf grp nd
    = nd\<lparr>nd_dropped := nd_dropped nd @
        map (\<lambda>(f, p). (Some i, f, p, closed_reason (id_client_id i) (nd_broker nd))) (map (stored_pair q) (wanted_stored ex msgs))\<rparr>"
  using assms
proof (induction msgs arbitrary: nd)
  case (Cons m msgs)
  obtain k frm p where "m = (k, frm, p)" by (metis prod_cases3)
  then show ?case using Cons by (simp add: publish_closed wanted_stored_def stored_pair_def)
qed (simp add: wanted_stored_def)

lemma marks_queue:
  "ms_queue (fold (message_step lib cfg) (mark_ops env n r msgs) s)
     = ms_queue s @ map (\<lambda>(k, from, p). MarkForwarded k [r])
         (filter (\<lambda>(k, from, p). id_node_id (from_id from) = n \<and> ne_send env (MarkForwarded k [r]) = Sent) msgs)"
proof (induction msgs arbitrary: s)
  case (Cons m msgs)
  obtain k frm p where m: "m = (k, frm, p)" by (metis prod_cases3)
  have "ms_queue (fold (message_step lib cfg) (mark_ops env n r [m]) s)
      = ms_queue s @ (if id_node_id (from_id frm) = n \<and> ne_send env (MarkForwarded k [r]) = Sent then [MarkForwarded k [r]] else [])"
    by (simp add: mark_ops_def m step_frame)
  then show ?case unfolding mark_ops_Cons [of env n r m msgs] fold_append comp_apply Cons.IH by (simp add: m)
qed (simp add: mark_ops_def)

section \<open>What a subscription is sent\<close>

text \<open>C22: A subscription of a client with an open channel, on a node where both stores are enabled and have come about by any
  history of publications under names without wildcards, that of the retained messages no longer than a \<open>usize\<close> counts, with the
  removals of the message store before now and within its limits; the filter is valid.
  Behind what the channel held the client finds first the retained messages whose names the filter
  matches, if the retain handling asks for them, marked as retained and without identifier; then the stored messages that the
  filter finds, that are due to the client and of which it was not just sent the retained copy. The filter finds
  (\<open>lookup_finds\<close>) the stored messages whose names it matches and, the one deviation from matching, for a filter that ends
  in \<open>+/#\<close>, or in the number of the message and \<open>/#\<close>, also those whose names are matched by the filter without
  these two levels. The sent messages of this node are marked where the channel of the store takes the mark. Nothing else
  changes.\<close>

theorem subscription_served:
  assumes codec: "codec_ok (nf_lib cfg)"
    and enabled: "nf_retain_enable cfg" "nf_store_enable cfg"
    and retained: "nd_retain nd = fold rs_step rops rs_new" "list_all op_plain rops" "length rops \<le> usize_max"
    and store: "nd_store nd = fold (message_step (nf_lib cfg) (nf_store cfg)) mops ms_new" "list_all plain_op mops"
      "sweeps_ok (nf_lib cfg) (nf_store cfg) (ne_now env) mops ms_new"
    and f: "topic_from_str tf = Inr f"
    and pe: "map_of (br_peers (nd_broker nd)) (id_client_id i) = Some pe" "pe_tx_open pe"
  shows "\<exists>rets sts. distinct (map fst rets) \<and> distinct (map fst sts) \<and>
    set rets = (if send_retain_enable rh prev_none then
        {(name, tv_value tv) |name tv. fold rs_spec rops (\<lambda>_. None) name = Some tv \<and> \<not> tv_is_expired (ne_now env) tv \<and>
          mqtt_match (levels f) (split_slash name)} else {}) \<and>
    set sts = {(k, sm_from m, sm_publish m) |k m fw.
        sp_msgs (fold (spec_step (nf_lib cfg) (nf_store cfg)) mops spec_new) k = Some (m, fw) \<and>
        lookup_finds (levels f) k (sm_topic m) \<and> spec_due (ne_now env) (id_client_id i) tf grp fw m \<and>
        (id_node_id (from_id (sm_from m)), k) \<notin> set (retain_ids rets)} \<and>
    (let nd' = send_subscribe_messages cfg env i tf grp rh prev_none q nd; r = (id_client_id i, map_option (Pair tf) grp)
     in nd_broker nd' = channel_put (id_client_id i) pe
          (map (forward_of \<circ> retain_pair (ne_now env) q) rets @ map (forward_of \<circ> stored_pair q) sts) (nd_broker nd) \<and>
        ms_queue (nd_store nd') = ms_queue (nd_store nd) @ map (\<lambda>(k, from, p). MarkForwarded k [r])
          (filter (\<lambda>(k, from, p). id_node_id (from_id from) = br_node_id (nd_broker nd) \<and> ne_send env (MarkForwarded k [r]) = Sent) sts) \<and>
        nd_retain nd' = nd_retain nd \<and> nd_dropped nd' = nd_dropped nd)"
proof -
  let ?c = "id_client_id i" and ?lib = "nf_lib cfg" and ?scfg = "nf_store cfg" and ?now = "ne_now env"
  let ?r = "(?c, map_option (Pair tf) grp)"
  let ?W = "sp_msgs (fold (spec_step ?lib ?scfg) mops spec_new)"
  from get_message_spec [OF retained(2,3) f, of ?now] obtain all where all:
    "get_message ?now tf (nd_retain nd) = Inr all" "distinct (map fst all)"
    "set all = {(name, tv_value tv) |name tv. fold rs_spec rops (\<lambda>_. None) name = Some tv \<and> \<not> tv_is_expired ?now tv \<and>
       mqtt_match (levels f) (split_slash name)}" unfolding retained(1) by blast
  define rets where "rets = (if send_retain_enable rh prev_none then all else [])"
  let ?A = "map (forward_of \<circ> retain_pair ?now q) rets"
  let ?nd1 = "nd\<lparr>nd_broker := channel_put ?c pe ?A (nd_broker nd)\<rparr>"
  have first: "send_retain_excludeds cfg env i tf rh prev_none q nd = (Inr (Some (retain_ids rets)), ?nd1)"
    using all(1) enabled(1) pe
    by (simp add: send_retain_excludeds_def retain_load_with_def on_retains_def rets_def send_retain_open channel_put_Nil retain_ids_def)
  from ms_get_spec [OF codec store(2,3) f, of ?c grp] obtain xs where xs:
    "ms_get ?lib ?scfg ?now ?c tf grp (nd_store nd) = Inr xs" "distinct (map fst xs)"
    "set xs = {(k, sm_from m, sm_publish m) |k m fw. ?W k = Some (m, fw) \<and> lookup_finds (levels f) k (sm_topic m) \<and>
       spec_due ?now ?c tf grp fw m}" unfolding store(1) by blast
  define sts where "sts = wanted_stored (Some (retain_ids rets)) xs"
  let ?B = "map (forward_of \<circ> stored_pair q) sts"
  let ?nd2 = "send_subscribe_messages cfg env i tf grp rh prev_none q nd"
  have second: "?nd2 = ?nd1\<lparr>nd_broker := channel_put ?c (received_by ?A pe) ?B (nd_broker ?nd1),
      nd_store := fold (message_step ?lib ?scfg) (mark_ops env (br_node_id (nd_broker nd)) ?r sts) (nd_store nd)\<rparr>"
    using send_storaged_open [of ?nd1 i "received_by ?A pe" env xs q "Some (retain_ids rets)" tf grp ?lib ?scfg] xs(1) enabled(2) pe
    by (simp add: send_subscribe_messages_def first message_load_with_def channel_put_step sts_def)
  have "nd_broker ?nd2 = channel_put ?c pe (?A @ ?B) (nd_broker nd)" by (simp add: second channel_put_append)
  moreover have "ms_queue (nd_store ?nd2) = ms_queue (nd_store nd) @ map (\<lambda>(k, from, p). MarkForwarded k [?r])
      (filter (\<lambda>(k, from, p). id_node_id (from_id from) = br_node_id (nd_broker nd) \<and> ne_send env (MarkForwarded k [?r]) = Sent) sts)"
    by (simp add: second marks_queue)
  moreover have "nd_retain ?nd2 = nd_retain nd \<and> nd_dropped ?nd2 = nd_dropped nd" by (simp add: second)
  moreover have "set sts = {(k, sm_from m, sm_publish m) |k m fw. ?W k = Some (m, fw) \<and>
      lookup_finds (levels f) k (sm_topic m) \<and> spec_due ?now ?c tf grp fw m \<and>
      (id_node_id (from_id (sm_from m)), k) \<notin> set (retain_ids rets)}"
    unfolding sts_def wanted_stored_def set_filter xs(3) is_excluded_def by auto
  moreover have "distinct (map fst sts)" using xs(2) by (simp add: sts_def wanted_stored_def distinct_map_filter)
  moreover have "distinct (map fst rets)" using all(2) by (simp add: rets_def)
  ultimately show ?thesis using all(3) unfolding Let_def by (intro exI [of _ rets] exI [of _ sts]) (auto simp: rets_def)
qed

lemma update_dropped_same: "nd\<lparr>nd_dropped := nd_dropped nd\<rparr> = nd"
  by simp

text \<open>A subscription of a client whose channel is closed, or that has no session any more. What it would have been
  sent is reported as dropped and nothing is marked, so that the messages stay due to the client.\<close>

theorem undelivered_not_marked:
  assumes "\<not> reachable (br_peers (nd_broker nd)) (id_client_id i)"
  shows "\<exists>msgs. send_subscribe_messages cfg env i tf grp rh prev_none q nd
    = nd\<lparr>nd_dropped := nd_dropped nd @ map (\<lambda>(from, p). (Some i, from, p, closed_reason (id_client_id i) (nd_broker nd))) msgs\<rparr>"
proof -
  let ?drop = "map (\<lambda>(from, p). (Some i, from, p, closed_reason (id_client_id i) (nd_broker nd)))"
  obtain res rets where first: "send_retain_excludeds cfg env i tf rh prev_none q nd = (res, nd\<lparr>nd_dropped := nd_dropped nd @ ?drop rets\<rparr>)"
  proof (cases "get_message (ne_now env) tf (nd_retain nd)")
    case (Inl e)
    then have "snd (send_retain_excludeds cfg env i tf rh prev_none q nd) = nd"
      by (simp add: send_retain_excludeds_def retain_load_with_def)
    then show thesis using that [of _ "[]"] by (metis append_Nil2 list.simps(8) prod.collapse update_dropped_same)
  next
    case (Inr rs)
    let ?rets = "if nf_retain_enable cfg \<and> send_retain_enable rh prev_none then map (retain_pair (ne_now env) q) rs else []"
    from Inr have "snd (send_retain_excludeds cfg env i tf rh prev_none q nd) = nd\<lparr>nd_dropped := nd_dropped nd @ ?drop ?rets\<rparr>"
      using assms by (simp add: send_retain_excludeds_def retain_load_with_def on_retains_def send_retain_closed)
    then show thesis using that [of _ ?rets] by (metis prod.collapse)
  qed
  let ?nd1 = "nd\<lparr>nd_dropped := nd_dropped nd @ ?drop rets\<rparr>" and ?ex = "case res of Inr r \<Rightarrow> r | Inl _ \<Rightarrow> None"
  obtain msgs where "snd (message_load_with cfg env i q ?ex tf grp ?nd1) = nd\<lparr>nd_dropped := nd_dropped nd @ ?drop rets @ ?drop msgs\<rparr>"
  proof (cases "ms_get (nf_lib cfg) (nf_store cfg) (ne_now env) (id_client_id i) tf grp (nd_store nd)")
    case (Inl e)
    then show thesis using that [of "[]"] by (simp add: message_load_with_def)
  next
    case (Inr xs)
    then show thesis
      using that [of "map (stored_pair q) (wanted_stored ?ex xs)"] assms by (simp add: message_load_with_def send_storaged_closed)
  qed
  then have "send_subscribe_messages cfg env i tf grp rh prev_none q nd
      = nd\<lparr>nd_dropped := nd_dropped nd @ ?drop (rets @ (if nf_store_enable cfg then msgs else []))\<rparr>"
    by (simp add: send_subscribe_messages_def first)
  then show ?thesis by blast
qed

section \<open>Histories of a node\<close>

text \<open>\<open>NBroker\<close> stands for what sessions do in between: any change of the broker.\<close>

datatype node_op =
    NPublish node_env msg_from msg_publish bool "int option"
  | NSubscribe node_env ident topic_filter "shared_group option" "retain_handling option" bool qos
  | NServe timestamp
  | NSweep timestamp nat
  | NRetainExpire timestamp
  | NBroker broker

fun node_step :: "node_cfg \<Rightarrow> node_op \<Rightarrow> node \<Rightarrow> node" where
  "node_step cfg (NPublish env from p storage e) nd = snd (node_publish cfg env from p storage e nd)"
| "node_step cfg (NSubscribe env i tf grp rh prev_none q) nd = send_subscribe_messages cfg env i tf grp rh prev_none q nd"
| "node_step cfg (NServe now) nd = nd\<lparr>nd_store := serve_next (nf_lib cfg) (nf_store cfg) now (nd_store nd)\<rparr>"
| "node_step cfg (NSweep now l) nd = nd\<lparr>nd_store := snd (ms_remove_expired (nf_lib cfg) (nf_store cfg) now l (nd_store nd))\<rparr>"
| "node_step cfg (NRetainExpire now) nd = nd\<lparr>nd_retain := snd (remove_expired_messages now (nd_retain nd))\<rparr>"
| "node_step cfg (NBroker b) nd = nd\<lparr>nd_broker := b\<rparr>"

fun plain_node_op :: "node_op \<Rightarrow> bool" where
  "plain_node_op (NPublish env from p storage e) = plain_msg (StoreMsg from p 0 0 None)"
| "plain_node_op _ = True"

definition node_new :: "broker \<Rightarrow> node" where
  "node_new b = \<lparr>nd_broker = b, nd_retain = rs_new, nd_store = ms_new, nd_dropped = [], nd_nonsubscribed = []\<rparr>"

text \<open>An operation of a node is, for the store, a sequence of operations of the store.\<close>

definition store_ops :: "node_cfg \<Rightarrow> msg_store \<Rightarrow> message_op list \<Rightarrow> msg_store" where
  "store_ops cfg s mops = fold (message_step (nf_lib cfg) (nf_store cfg)) mops s"

lemma mark_recipients_ops:
  "\<exists>mops. nd_store (mark_recipients env msg_id rs nd) = store_ops cfg (nd_store nd) mops \<and> list_all plain_op mops"
proof (cases "\<exists>i. msg_id = Some i \<and> rs \<noteq> []")
  case True
  then obtain i where "msg_id = Some i" "rs \<noteq> []" by blast
  then show ?thesis
    using node_mark_step [of env i rs nd "nf_lib cfg" "nf_store cfg"]
    by (intro exI [of _ "[OpMark i rs (ne_send env (MarkForwarded i rs))]"]) (simp add: mark_recipients_def store_ops_def)
next
  case False
  then show ?thesis by (intro exI [of _ "[]"]) (auto simp: mark_recipients_def store_ops_def split: option.splits)
qed

lemma node_forwards_ops:
  "\<exists>mops. nd_store (snd (node_forwards env msg_id from p nd)) = store_ops cfg (nd_store nd) mops \<and> list_all plain_op mops"
proof -
  have none: "\<exists>mops. nd_store nd = store_ops cfg (nd_store nd) mops \<and> list_all plain_op mops"
    by (intro exI [of _ "[]"]) (simp add: store_ops_def)
  have "nd_store (snd (node_forwards env msg_id from p nd)) = nd_store nd \<or>
      (\<exists>rs b. nd_store (snd (node_forwards env msg_id from p nd)) = nd_store (mark_recipients env msg_id rs (nd\<lparr>nd_broker := b\<rparr>)))"
    by (auto simp: node_forwards_def Let_def split: option.splits prod.splits)
  then show ?thesis
  proof (elim disjE exE)
    fix rs b
    assume "nd_store (snd (node_forwards env msg_id from p nd)) = nd_store (mark_recipients env msg_id rs (nd\<lparr>nd_broker := b\<rparr>))"
    then show ?thesis using mark_recipients_ops [of env msg_id rs "nd\<lparr>nd_broker := b\<rparr>" cfg] by simp
  qed (use none in simp)
qed

lemma store_ops_append: "store_ops cfg (store_ops cfg s xs) ys = store_ops cfg s (xs @ ys)"
  by (simp add: store_ops_def)

text \<open>An identifier that is taken and not used is a message that could not be sent to the store.\<close>

lemma take_id: "snd (next_msg_id s) = store_ops cfg s [OpPublish frm p e None SendFailed]"
  by (simp add: store_ops_def message_step.simps next_msg_id_def ms_store_def channel_send_def)

lemma store_next: "snd (ms_store out (ms_id_gen s) frm p e None (snd (next_msg_id s))) = store_ops cfg s [OpPublish frm p e None out]"
  by (simp add: store_ops_def message_step.simps next_msg_id_def)

lemma report_forwarded_fields [simp]:
  "nd_store (report_forwarded frm r nd) = nd_store nd" "nd_broker (report_forwarded frm r nd) = nd_broker nd"
  by (simp_all add: report_forwarded_def split: sum.splits prod.splits)

lemma node_store_msg_fields [simp]:
  "nd_broker (node_store_msg env msg_id frm p e nd) = nd_broker nd" "node_store_msg env None frm p e nd = nd"
  by (simp_all add: node_store_msg_def split: option.splits)

lemma store_msg_ops:
  assumes "plain_msg (StoreMsg frm p 0 0 None)" and "nd_store nd = snd (next_msg_id s)"
  shows "\<exists>op. nd_store (node_store_msg env (Some (ms_id_gen s)) frm p e nd) = store_ops cfg s [op] \<and> plain_op op"
proof (cases e)
  case None
  then show ?thesis
    using take_id [of s cfg frm p 0] assms by (intro exI [of _ "OpPublish frm p 0 None SendFailed"]) (simp add: node_store_msg_def)
next
  case (Some ex)
  then show ?thesis
    using store_next [of _ s frm p ex cfg] assms
    by (intro exI [of _ "OpPublish frm p ex None (ne_send env (StoreMsg frm p ex (ms_id_gen s) None))"]) (simp add: node_store_msg_def)
qed

lemma node_publish_cases:
  defines "msg_id \<equiv> \<lambda>storage nd. if storage then Some (ms_id_gen (nd_store nd)) else None"
  assumes "retain_publish cfg env (msg_id storage nd) frm p e (nd_retain nd) = (res, ret)"
    and "nd1 = nd\<lparr>nd_store := if storage then snd (next_msg_id (nd_store nd)) else nd_store nd, nd_retain := ret\<rparr>"
    and "out = node_forwards env (msg_id storage nd) frm p (node_store_msg env (msg_id storage nd) frm p e nd1)"
  shows "node_publish cfg env frm p storage e nd
    = (case res of Inl x \<Rightarrow> (Inl x, nd1) | Inr _ \<Rightarrow> (Inr (), report_forwarded frm (fst out) (snd out)))"
  using assms by (cases storage) (simp_all add: node_publish_def next_msg_id_def case_prod_beta Let_def split: sum.splits)

lemma node_publish_ops:
  assumes plain: "plain_msg (StoreMsg frm p 0 0 None)"
  shows "\<exists>mops. nd_store (snd (node_publish cfg env frm p storage e nd)) = store_ops cfg (nd_store nd) mops \<and> list_all plain_op mops"
proof -
  let ?s = "nd_store nd" and ?id = "if storage then Some (ms_id_gen (nd_store nd)) else None"
  let ?s1 = "if storage then snd (next_msg_id ?s) else ?s"
  obtain res ret where ret: "retain_publish cfg env ?id frm p e (nd_retain nd) = (res, ret)" by fastforce
  let ?nd1 = "nd\<lparr>nd_store := ?s1, nd_retain := ret\<rparr>"
  have out: "nd_store (snd (node_publish cfg env frm p storage e nd)) = (case res of Inl _ \<Rightarrow> ?s1
      | Inr _ \<Rightarrow> nd_store (snd (node_forwards env ?id frm p (node_store_msg env ?id frm p e ?nd1))))"
    using node_publish_cases [OF ret refl refl] by (simp split: sum.splits)
  show ?thesis
  proof (cases res)
    case (Inl x)
    then show ?thesis
      using take_id [of ?s cfg frm p 0] plain unfolding out
      by (cases storage) (auto intro: exI [of _ "[OpPublish frm p 0 None SendFailed]"] exI [of _ "[]"] simp: store_ops_def)
  next
    case (Inr x)
    have "\<exists>xs. nd_store (node_store_msg env ?id frm p e ?nd1) = store_ops cfg ?s xs \<and> list_all plain_op xs"
    proof (cases storage)
      case True
      from store_msg_ops [OF plain, of ?nd1 ?s env e cfg] True show ?thesis
        by (auto intro: exI [of _ "[op]" for op])
    qed (auto intro: exI [of _ "[]"] simp: store_ops_def)
    then obtain xs where xs: "nd_store (node_store_msg env ?id frm p e ?nd1) = store_ops cfg ?s xs" "list_all plain_op xs" by blast
    from node_forwards_ops [of env ?id frm p "node_store_msg env ?id frm p e ?nd1" cfg] obtain ys where
      ys: "nd_store (snd (node_forwards env ?id frm p (node_store_msg env ?id frm p e ?nd1))) = store_ops cfg (store_ops cfg ?s xs) ys"
        "list_all plain_op ys" unfolding xs(1) by blast
    show ?thesis unfolding out Inr sum.case ys(1) store_ops_append using xs(2) ys(2) by (intro exI [of _ "xs @ ys"]) simp
  qed
qed

lemma send_subscribe_ops:
  "\<exists>mops. nd_store (send_subscribe_messages cfg env i tf grp rh prev_none q nd) = store_ops cfg (nd_store nd) mops \<and> list_all plain_op mops"
proof -
  have none: "\<exists>mops. s = store_ops cfg s mops \<and> list_all plain_op mops" for s by (intro exI [of _ "[]"]) (simp add: store_ops_def)
  have marks: "list_all plain_op (mark_ops env n r msgs)" for n r msgs by (auto simp: mark_ops_def list_all_iff)
  obtain res nd1 where first: "send_retain_excludeds cfg env i tf rh prev_none q nd = (res, nd1)" by fastforce
  have nd1: "nd_store nd1 = nd_store nd"
  proof -
    have "nd_store (send_retain_messages env i rs q nd) = nd_store nd" for rs
    proof (induction rs arbitrary: nd)
      case (Cons r rs)
      obtain name m where "r = (name, m)" by fastforce
      then show ?case using Cons by (simp add: node_entry_publish_def split: prod.splits sum.splits)
    qed simp
    then show ?thesis
      using first by (auto simp: send_retain_excludeds_def retain_load_with_def on_retains_def split: if_splits sum.splits)
  qed
  have "\<exists>mops. nd_store (send_storaged_messages env i xs q ex tf grp nd1) = store_ops cfg (nd_store nd1) mops \<and> list_all plain_op mops" for xs ex
  proof (cases "reachable (br_peers (nd_broker nd1)) (id_client_id i)")
    case True
    then obtain pe where "map_of (br_peers (nd_broker nd1)) (id_client_id i) = Some pe" "pe_tx_open pe" by (auto simp: reachable_def)
    from send_storaged_open [OF this, of env xs q ex tf grp "nf_lib cfg" "nf_store cfg"] marks show ?thesis
      unfolding store_ops_def by auto
  next
    case False
    from send_storaged_closed [OF this, of env xs q ex tf grp] none show ?thesis by simp
  qed
  then show ?thesis
    using none nd1 by (simp add: send_subscribe_messages_def first message_load_with_def split: sum.splits)
qed

lemma node_step_ops:
  assumes "plain_node_op op"
  shows "\<exists>mops. nd_store (node_step cfg op nd) = store_ops cfg (nd_store nd) mops \<and> list_all plain_op mops"
proof (cases op)
  case (NServe now)
  then show ?thesis by (intro exI [of _ "[OpServe now]"]) (simp add: store_ops_def message_step.simps)
next
  case (NSweep now l)
  then show ?thesis by (intro exI [of _ "[OpSweep now l]"]) (simp add: store_ops_def message_step.simps)
next
  case (NRetainExpire now)
  then show ?thesis by (intro exI [of _ "[]"]) (simp add: store_ops_def)
next
  case (NBroker b)
  then show ?thesis by (intro exI [of _ "[]"]) (simp add: store_ops_def)
qed (use assms node_publish_ops send_subscribe_ops in auto)

lemma node_history_ops:
  "list_all plain_node_op ops \<Longrightarrow>
     \<exists>mops. nd_store (fold (node_step cfg) ops nd) = store_ops cfg (nd_store nd) mops \<and> list_all plain_op mops"
proof (induction ops arbitrary: nd)
  case Nil
  show ?case by (intro exI [of _ "[]"]) (simp add: store_ops_def)
next
  case (Cons op ops)
  from node_step_ops [of op cfg nd] Cons.prems obtain xs where
    xs: "nd_store (node_step cfg op nd) = store_ops cfg (nd_store nd) xs" "list_all plain_op xs" by auto
  from Cons.IH [of "node_step cfg op nd"] Cons.prems obtain ys where
    "nd_store (fold (node_step cfg) ops (node_step cfg op nd)) = store_ops cfg (store_ops cfg (nd_store nd) xs) ys" "list_all plain_op ys"
    unfolding xs(1) by auto
  then show ?case using xs(2) by (intro exI [of _ "xs @ ys"]) (simp add: store_ops_append)
qed

section \<open>Messages that were delivered when they were published\<close>

text \<open>The mark waits in the channel of the store, behind the message itself, or the matter is settled.\<close>

definition mark_pending :: "client_id \<Rightarrow> nat \<Rightarrow> msg_store \<Rightarrow> store_view \<Rightarrow> bool" where
  "mark_pending c i s V \<longleftrightarrow> settled c i s V \<or>
     i < ms_id_gen s \<and> (\<exists>q1 rs q2. ms_queue s = q1 @ MarkForwarded i rs # q2 \<and> c \<in> fst ` set rs \<and> i \<notin> set (store_ids q2))"

lemma step_pending:
  assumes v: "step_view lib cfg op s V V'" and pend: "mark_pending c i s V"
  shows "mark_pending c i (message_step lib cfg op s) V'"
proof (cases "settled c i s V")
  case True
  then show ?thesis using step_settled [OF v] by (simp add: mark_pending_def)
next
  case False
  then obtain q1 rs q2 where q: "i < ms_id_gen s" "ms_queue s = q1 @ MarkForwarded i rs # q2" "c \<in> fst ` set rs" "i \<notin> set (store_ids q2)"
    using pend by (auto simp: mark_pending_def)
  have more: "mark_pending c i s' W" if "ms_queue s' = ms_queue s @ q'" "i \<notin> set (store_ids q')" "i < ms_id_gen s'" for s' W q'
    using that q unfolding mark_pending_def by (intro disjI2 conjI exI [of _ q1] exI [of _ rs] exI [of _ "q2 @ q'"]) auto
  show ?thesis
  proof (cases op)
    case (OpPublish frm p e rs out)
    show ?thesis using q(1) unfolding OpPublish
      by (intro more [of _ "if out = Sent then [StoreMsg frm p e (ms_id_gen s) rs] else []"]) (auto simp: step_frame)
  next
    case (OpMark j cs out)
    show ?thesis using q(1) unfolding OpMark
      by (intro more [of _ "if out = Sent then [MarkForwarded j cs] else []"]) (auto simp: step_frame)
  next
    case (OpSweep t l)
    show ?thesis using q(1) unfolding OpSweep by (intro more [of _ "[]"]) (auto simp: sweep_frame)
  next
    case (OpServe now)
    show ?thesis
    proof (cases q1)
      case (Cons m q1')
      then show ?thesis
        using q unfolding OpServe mark_pending_def serve_frame by (intro disjI2 conjI exI [of _ q1'] exI [of _ rs] exI [of _ q2]) auto
    next
      case Nil
      have V': "V' = spec_msg lib cfg now (MarkForwarded i rs) V" using v q(2) Nil OpServe by (simp add: step_view_def)
      have "map_of (rev rs) c \<noteq> None" using q(3) by (simp add: map_of_eq_None_iff)
      then have "fw c \<noteq> None" if "V' i = Some (m, fw)" for m fw using that unfolding V' by (auto split: option.splits)
      then have "settled c i (message_step lib cfg op s) V'" using q Nil unfolding OpServe settled_def serve_frame by auto
      then show ?thesis by (simp add: mark_pending_def)
    qed
  qed
qed

lemma history_pending:
  assumes "codec_ok lib" and "list_all plain_op ops" and "history_inv lib cfg es s" and "mark_pending c i s (view es s)"
  shows "\<exists>es'. history_inv lib cfg es' (fold (message_step lib cfg) ops s) \<and>
    mark_pending c i (fold (message_step lib cfg) ops s) (view es' (fold (message_step lib cfg) ops s))"
  using assms
proof (induction ops arbitrary: es s)
  case (Cons op ops)
  then obtain es' where "history_inv lib cfg es' (message_step lib cfg op s)"
    "step_view lib cfg op s (view es s) (view es' (message_step lib cfg op s))" using store_step_correct [of lib cfg es s op] by auto
  with Cons step_pending show ?case by fastforce
qed auto

lemma forwards_to_recipient:
  "(tf, c, opts, sub_ids, None) \<in> set rels \<Longrightarrow> reachable peers c \<Longrightarrow> c \<in> fst ` set (fst (forwards_to now frm p rels peers))"
proof (induction rels arbitrary: peers)
  case (Cons a rels)
  obtain tf' c' opts' ids' grp where a: "a = (tf', c', opts', ids', grp)" by (cases a)
  have kept: "reachable (AList.update c' (received_by ms pe) peers) c" if "map_of peers c' = Some pe" for ms pe
    using Cons.prems(2) that by (auto simp: reachable_def update_conv')
  show ?case
  proof (cases "a = (tf, c, opts, sub_ids, None)")
    case True
    then obtain pe where "map_of peers c = Some pe" "pe_tx_open pe" using Cons.prems(2) by (auto simp: reachable_def)
    then show ?thesis using True by (simp add: tx_send_received Let_def forwarded_to_def case_prod_beta)
  next
    case False
    then have "(tf, c, opts, sub_ids, None) \<in> set rels" using Cons.prems(1) by auto
    note IH = Cons.IH [OF this]
    show ?thesis
    proof (cases "map_of peers c'")
      case None
      then show ?thesis using IH [OF Cons.prems(2)] by (simp add: a Let_def case_prod_beta)
    next
      case (Some pe)
      then show ?thesis
        using IH [OF Cons.prems(2)] IH [OF kept [OF Some, of "[MForward frm (forward_publish p opts' ids')]"]]
        by (cases "pe_tx_open pe") (auto simp: a tx_send_received Let_def case_prod_beta)
    qed
  qed
qed simp

text \<open>What a publication with storage sends to the store: the message, and behind it the mark of its recipients.\<close>

lemma publish_queue:
  assumes "node_publish cfg env frm p True (Some e) nd = (Inr (), nd1)" and "\<And>m. ne_send env m = Sent" and "mp_target_clientid p = None"
    and "router_matches (ne_is_online env) (ne_choice env) (from_id frm) (text_of (pub_topic (mp_inner p))) (br_router (nd_broker nd)) = Inr m"
    and "map_of m (br_node_id (nd_broker nd)) = Some rels" and "(tf, c, opts, sub_ids, None) \<in> set rels"
    and "reachable (br_peers (nd_broker nd)) c"
  shows "\<exists>rs. c \<in> fst ` set rs \<and>
    nd_store nd1 = store_ops cfg (nd_store nd) [OpPublish frm p e None Sent, OpMark (ms_id_gen (nd_store nd)) rs Sent]"
proof -
  let ?s = "nd_store nd" and ?i = "ms_id_gen (nd_store nd)"
  obtain res ret where ret: "retain_publish cfg env (Some ?i) frm p (Some e) (nd_retain nd) = (res, ret)" by fastforce
  let ?nd2 = "node_store_msg env (Some ?i) frm p (Some e) (nd\<lparr>nd_store := snd (next_msg_id ?s), nd_retain := ret\<rparr>)"
  have nd1: "nd_store nd1 = nd_store (snd (node_forwards env (Some ?i) frm p ?nd2))"
    using node_publish_cases [where storage = True, OF _ refl refl] assms(1) ret by (auto split: sum.splits)
  obtain rs errs peers where fw: "forwards_to (ne_now env) frm p rels (br_peers (nd_broker nd)) = (rs, errs, peers)" by (metis prod_cases3)
  then have c: "c \<in> fst ` set rs" using forwards_to_recipient [OF assms(6,7), of "ne_now env" frm p] by simp
  have "nd_store nd1 = nd_store (node_mark env ?i rs (?nd2\<lparr>nd_broker := (nd_broker nd)\<lparr>br_peers := peers\<rparr>\<rparr>))"
    unfolding nd1 using assms(3-5) fw c by (auto simp: node_forwards_def Let_def mark_recipients_def)
  also have "\<dots> = message_step (nf_lib cfg) (nf_store cfg) (OpMark ?i rs Sent) (nd_store ?nd2)"
    using node_mark_step [of env ?i rs _ "nf_lib cfg" "nf_store cfg"] assms(2) by simp
  also have "nd_store ?nd2 = store_ops cfg ?s [OpPublish frm p e None Sent]"
    using store_next [of Sent ?s frm p e cfg] assms(2) by (simp add: node_store_msg_def)
  finally show ?thesis using c by (intro exI [of _ rs]) (simp add: store_ops_def)
qed

text \<open>C23: A client that was sent a message when it was published is not sent it again. Let a publication without a target client
  reach the client through a subscription of its own (not through a shared one) and an open channel, and let the channel of the store take what the
  publication sends to it, the message and its marks (a mark that is lost would leave the message due). Then, once
  the task of the store has caught up, no lookup for this client returns the message, whatever was published, under names without
  wildcards, subscribed, served and removed since.\<close>

theorem forwarded_not_repeated:
  assumes codec: "codec_ok (nf_lib cfg)" and plain: "list_all plain_node_op before" "plain_msg (StoreMsg frm p 0 0 None)" "list_all plain_node_op after"
    and nd: "nd = fold (node_step cfg) before (node_new b)"
    and pub: "node_publish cfg env frm p True (Some e) nd = (Inr (), nd1)" "\<And>m. ne_send env m = Sent" "mp_target_clientid p = None"
    and reach: "router_matches (ne_is_online env) (ne_choice env) (from_id frm) (text_of (pub_topic (mp_inner p))) (br_router (nd_broker nd)) = Inr m"
      "map_of m (br_node_id (nd_broker nd)) = Some rels" "(tf, c, opts, sub_ids, None) \<in> set rels" "reachable (br_peers (nd_broker nd)) c"
    and nd2: "nd2 = fold (node_step cfg) after nd1" and caught_up: "ms_queue (nd_store nd2) = []"
    and get: "ms_get (nf_lib cfg) (nf_store cfg) now c flt grp (nd_store nd2) = Inr xs"
  shows "ms_id_gen (nd_store nd) \<notin> fst ` set xs"
proof -
  let ?lib = "nf_lib cfg" and ?scfg = "nf_store cfg" and ?i = "ms_id_gen (nd_store nd)"
  from node_history_ops [OF plain(1), of cfg "node_new b"] obtain ops where ops:
    "nd_store nd = fold (message_step ?lib ?scfg) ops ms_new" "list_all plain_op ops" by (auto simp: nd node_new_def store_ops_def)
  from publish_queue [OF pub reach] obtain rs where rs: "c \<in> fst ` set rs"
    "nd_store nd1 = store_ops cfg (nd_store nd) [OpPublish frm p e None Sent, OpMark ?i rs Sent]" by blast
  let ?ops1 = "ops @ [OpPublish frm p e None Sent, OpMark ?i rs Sent]"
  have s1: "nd_store nd1 = fold (message_step ?lib ?scfg) ?ops1 ms_new" unfolding rs(2) store_ops_def ops(1) by simp
  have "list_all plain_op ?ops1" using ops(2) plain(2) by simp
  from history_reachable [OF codec this history_inv_new, of ?scfg] obtain es1 where es1: "history_inv ?lib ?scfg es1 (nd_store nd1)"
    unfolding s1 by blast
  have "ms_queue (nd_store nd1) = (ms_queue (nd_store nd) @ [StoreMsg frm p e ?i None]) @ MarkForwarded ?i rs # []" "?i < ms_id_gen (nd_store nd1)"
    unfolding rs(2) store_ops_def by (simp_all add: step_frame)
  then have "mark_pending c ?i (nd_store nd1) (view es1 (nd_store nd1))"
    using rs(1) unfolding mark_pending_def
    by (intro disjI2 conjI exI [of _ "ms_queue (nd_store nd) @ [StoreMsg frm p e ?i None]"] exI [of _ rs] exI [of _ "[]"]) auto
  moreover from node_history_ops [OF plain(3), of cfg nd1] obtain ops2 where ops2:
    "nd_store nd2 = fold (message_step ?lib ?scfg) ops2 (nd_store nd1)" "list_all plain_op ops2" by (auto simp: nd2 store_ops_def)
  ultimately obtain es2 where "history_inv ?lib ?scfg es2 (nd_store nd2)" "mark_pending c ?i (nd_store nd2) (view es2 (nd_store nd2))"
    using history_pending [OF codec ops2(2) es1] unfolding ops2(1) by blast
  then have "settled c ?i (nd_store nd2) (view es2 (nd_store nd2))" "store_inv ?lib ?scfg es2 (nd_store nd2)"
    using caught_up by (auto simp: mark_pending_def history_inv_def)
  then show ?thesis using settled_not_found [OF _ _ get] by blast
qed

text \<open>Publication with the stores changes the broker, and so the channels of the clients, exactly as the session model does that leaves
  the stores out.\<close>

theorem publish_agrees_with_session:
  assumes "same_env cfg env senv" and "se_broker s = nd_broker nd"
    and "(ev_retain_set senv frm p = None) = (fst (retain_publish cfg env (if storage then Some (ms_id_gen (nd_store nd)) else None) frm p e (nd_retain nd)) = Inr ())"
  shows "se_broker (snd (inner_forwards senv frm p s)) = nd_broker (snd (node_publish cfg env frm p storage e nd))"
proof -
  let ?id = "if storage then Some (ms_id_gen (nd_store nd)) else None"
  obtain res ret where ret: "retain_publish cfg env ?id frm p e (nd_retain nd) = (res, ret)" by fastforce
  have out: "nd_broker (snd (node_publish cfg env frm p storage e nd)) = (case res of Inl _ \<Rightarrow> nd_broker nd
      | Inr _ \<Rightarrow> snd (shared_forwards (ne_now env) (ne_is_online env) (ne_choice env) frm p (nd_broker nd)))"
    using node_publish_cases [OF ret refl refl] by (simp add: node_forwards_shared split: sum.splits)
  have off: "\<not> (nf_retain_enable cfg \<and> pub_retain (mp_inner p)) \<Longrightarrow> res = Inr ()" using ret by (auto simp: retain_publish_def)
  have on: "ev_retain_set senv frm p = None \<longleftrightarrow> res = Inr ()" using assms(3) ret by simp
  show ?thesis
    unfolding out using assms(1,2) off on
    by (cases res) (auto simp: inner_forwards_def same_env_def Let_def split: option.splits prod.splits sum.splits)
qed

section \<open>Examples\<close>

definition ex_node_cfg :: "bool \<Rightarrow> node_cfg" where
  "ex_node_cfg enc = \<lparr>nf_lib = ex_store_lib, nf_store = (ex_store_cfg 5)\<lparr>sc_encode := enc\<rparr>, nf_store_enable = True,
     nf_retain = \<lparr>rc_max_retained_messages = 0, rc_max_payload_size = 100, rc_retained_message_ttl = None\<rparr>, nf_retain_enable = True\<rparr>"

definition ex_node_env :: "timestamp \<Rightarrow> node_env" where
  "ex_node_env now = \<lparr>ne_now = now, ne_is_online = (\<lambda>_ _. True), ne_choice = (\<lambda>_ _ _ _. None), ne_send = (\<lambda>_. Sent)\<rparr>"

definition ex_node :: node where
  "ex_node = \<lparr>nd_broker = ex_broker, nd_retain = fold rs_step ex_retain_ops rs_new,
     nd_store = fold (message_step ex_store_lib (ex_store_cfg 5)) ex_store_ops ms_new, nd_dropped = [], nd_nonsubscribed = []\<rparr>"

text \<open>A retained and stored publication for a client that is not subscribed yet.\<close>

definition ex_kept :: msg_publish where
  "ex_kept = ex_news\<lparr>mp_inner := (mp_inner ex_news)\<lparr>pub_retain := True\<rparr>\<rparr>"

definition ex_kept_from :: msg_from where
  "ex_kept_from = \<lparr>from_typ = FromCustom, from_id = ex_ident ''p''\<rparr>"

text \<open>Twice the same message. A client that subscribes is sent the retained copy of a message; the stored copy is left out
  for this reason but not marked. When the client subscribes once more, with the option that asks for retained messages only for new
  subscriptions, it is sent the stored copy.\<close>

lemma retained_copy_redelivered:
  "map_option pe_tx (map_of (br_peers (nd_broker (fold (node_step (ex_node_cfg False))
     [NPublish (ex_node_env 1) ex_kept_from ex_kept True (Some 1000), NServe 2,
      NSubscribe (ex_node_env 3) (ex_ident ''s'') ''a'' None (Some RH_AtSubscribeNew) True AtLeastOnce, NServe 4,
      NSubscribe (ex_node_env 5) (ex_ident ''s'') ''a'' None (Some RH_AtSubscribeNew) False AtLeastOnce]
     (node_new ex_broker)))) ''s'')
   = Some [MForward ex_kept_from (retained_publish 3 AtLeastOnce ''a'' ex_kept), MForward ex_kept_from (stored_publish AtLeastOnce ex_kept)]"
  by code_simp

lemma ex_sweeps: "sweeps_ok ex_store_lib (ex_store_cfg 5) now ex_store_ops ms_new"
  by (simp add: ex_store_ops_def)

theorem subscription_served_witness:
  "\<exists>ms. nd_broker (send_subscribe_messages (ex_node_cfg True) (ex_node_env 3) (ex_ident ''s'') ''a/+'' None None True AtLeastOnce ex_node)
      = channel_put ''s'' (ex_peer ''s'') ms ex_broker \<and>
    MForward (sm_from ex_stored) (retained_publish 3 AtLeastOnce ''a/b'' ex_stored_pub) \<in> set ms \<and>
    MForward (sm_from ex_stored) (stored_publish AtLeastOnce ex_stored_pub) \<in> set ms"
proof -
  let ?cfg = "ex_node_cfg True" and ?env = "ex_node_env 3" and ?f = "Topic [Normal ''a'', SingleWildcard]"
  have cfg: "nf_lib ?cfg = ex_store_lib" "nf_store ?cfg = ex_store_cfg 5" "nf_retain_enable ?cfg" "nf_store_enable ?cfg"
    by (simp_all add: ex_node_cfg_def ex_store_cfg_def)
  have nd: "nd_retain ex_node = fold rs_step ex_retain_ops rs_new" "nd_broker ex_node = ex_broker"
    "nd_store ex_node = fold (message_step ex_store_lib (ex_store_cfg 5)) ex_store_ops ms_new"
    "map_of (br_peers ex_broker) ''s'' = Some (ex_peer ''s'')" "pe_tx_open (ex_peer ''s'')"
    by (simp_all add: ex_node_def ex_broker_def ex_peer_def)
  have env: "ne_now ?env = 3" by (simp add: ex_node_env_def)
  have match: "mqtt_match (levels ?f) (split_slash ''a/b'')" by (simp add: mqtt_match_def is_wildcard_def)
  from subscription_served [where cfg = ?cfg and nd = ex_node and env = ?env and rops = ex_retain_ops and mops = ex_store_ops and i = "ex_ident ''s''"
      and rh = None and prev_none = True and q = AtLeastOnce and grp = None, unfolded cfg nd(2) env ex_ident_client, OF ex_codec cfg(3,4) nd(1) ex_retain_plain nd(3)
      ex_ops_plain ex_sweeps ex_parse_ab(2) nd(4,5)]
  obtain rets sts where sets: "set rets = {(name, tv_value tv) |name tv. fold rs_spec ex_retain_ops (\<lambda>_. None) name = Some tv \<and>
        \<not> tv_is_expired 3 tv \<and> mqtt_match (levels ?f) (split_slash name)}"
      "set sts = {(k, sm_from m, sm_publish m) |k m fw. sp_msgs (fold (spec_step ex_store_lib (ex_store_cfg 5)) ex_store_ops spec_new) k = Some (m, fw) \<and>
        lookup_finds (levels ?f) k (sm_topic m) \<and> spec_due 3 ''s'' ''a/+'' None fw m \<and>
        (id_node_id (from_id (sm_from m)), k) \<notin> set (retain_ids rets)}"
    and br: "nd_broker (send_subscribe_messages ?cfg ?env (ex_ident ''s'') ''a/+'' None None True AtLeastOnce ex_node)
      = channel_put ''s'' (ex_peer ''s'') (map (forward_of \<circ> retain_pair 3 AtLeastOnce) rets @ map (forward_of \<circ> stored_pair AtLeastOnce) sts) ex_broker"
    by (auto simp: send_retain_enable_def Let_def)
  have spec: "fold rs_spec ex_retain_ops (\<lambda>_. None) ''a/b'' = Some (tv_new 1 (ex_retain ''a/b'' 2) (Some 60))"
    by (simp add: ex_retain_ops_def ex_retain_def ex_parse mp_from_def mp_new_def tv_is_expired_def tv_new_def kept_def)
  have no_id: "retain_ids rets = []"
  proof -
    have "rt_msg_id (tv_value tv) = None" if "fold rs_spec ex_retain_ops (\<lambda>_. None) name = Some tv" for name tv
      using that by (auto simp: ex_retain_ops_def ex_retain_def tv_new_def kept_def split: if_splits option.splits sum.splits)
    then have "\<forall>x \<in> set rets. rt_msg_id (snd x) = None" unfolding sets(1) by auto
    then show ?thesis by (induction rets) (auto simp: retain_ids_def List.map_filter_simps)
  qed
  have "(''a/b'', ex_retain ''a/b'' 2) \<in> set rets"
    unfolding sets(1) using spec match by (force simp: tv_new_def tv_is_expired_def)
  moreover have "sp_msgs (fold (spec_step ex_store_lib (ex_store_cfg 5)) ex_store_ops spec_new) 1 = Some (ex_stored, [''d'' \<mapsto> None])"
    by (simp add: ex_store_ops_def spec_new_def storable_def ex_stored_def sm_topic_def ex_pub_topic ex_parse_ab ex_store_lib_def Let_def)
  then have "(1, sm_from ex_stored, ex_stored_pub) \<in> set sts"
    unfolding sets(2) no_id using match
    by (intro CollectI exI [of _ 1] exI [of _ ex_stored]) (auto simp: lookup_finds_def spec_due_def ex_stored_def sm_topic_def ex_pub_topic ex_retain_def mp_from_def mp_new_def)
  ultimately show ?thesis
    unfolding br
    by (intro exI [of _ "map (forward_of \<circ> retain_pair 3 AtLeastOnce) rets @ map (forward_of \<circ> stored_pair AtLeastOnce) sts"] conjI refl)
      (force simp: retain_pair_def stored_pair_def ex_stored_def)+
qed

theorem undelivered_not_marked_witness:
  "nd_store (send_subscribe_messages (ex_node_cfg True) (ex_node_env 3) (ex_ident ''x'') ''a/+'' None None True AtLeastOnce ex_node) = nd_store ex_node"
proof -
  have "\<not> reachable (br_peers (nd_broker ex_node)) (id_client_id (ex_ident ''x''))" by (simp add: reachable_def ex_node_def ex_broker_def)
  from undelivered_not_marked [OF this, of "ex_node_cfg True" "ex_node_env 3" "''a/+''" None None True AtLeastOnce] show ?thesis by auto
qed

lemma ex_news_facts: "text_of (pub_topic (mp_inner ex_news)) = ''a''" "mp_target_clientid ex_news = None" "\<not> pub_retain (mp_inner ex_news)"
  by (simp_all add: ex_news_def mp_from_def mp_new_def)

definition ex_rels :: "sub_relation list" where
  "ex_rels = [(''a'', ''s'', so_default, None, None)]"

theorem forwarded_not_repeated_witness:
  "\<exists>xs. ms_get ex_store_lib (nf_store (ex_node_cfg False)) 9 ''s'' ''a'' None (nd_store (fold (node_step (ex_node_cfg False))
      [NServe 2, NServe 3] (snd (node_publish (ex_node_cfg False) (ex_node_env 1) ex_kept_from ex_news True (Some 1000)
        (node_new (fold entry_step ex_acts ex_broker)))))) = Inr xs \<and> 1 \<notin> fst ` set xs"
proof -
  let ?cfg = "ex_node_cfg False" and ?env = "ex_node_env 1" and ?nd = "node_new (fold entry_step ex_acts ex_broker)"
  let ?nd1 = "snd (node_publish ?cfg ?env ex_kept_from ex_news True (Some 1000) ?nd)"
  let ?nd2 = "fold (node_step ?cfg) [NServe 2, NServe 3] ?nd1"
  have parse: "topic_from_str ''a'' = Inr (Topic [Normal ''a''])" by (simp add: ex_parse)
  have lib: "nf_lib ?cfg = ex_store_lib" and env: "ne_send ?env m = Sent" for m by (simp_all add: ex_node_cfg_def ex_node_env_def)
  have m: "router_matches (ne_is_online ?env) (ne_choice ?env) (from_id ex_kept_from) (text_of (pub_topic (mp_inner ex_news))) (br_router (nd_broker ?nd))
      = Inr [(1, ex_rels)]" by code_simp
  have nid: "map_of [(1, ex_rels)] (br_node_id (nd_broker ?nd)) = Some ex_rels"
    by code_simp
  have reach: "reachable (br_peers (nd_broker ?nd)) ''s''"
  proof -
    have "map_option pe_tx_open (map_of (br_peers (nd_broker ?nd)) ''s'') = Some True" by code_simp
    then show ?thesis by (auto simp: reachable_def)
  qed
  have pub: "node_publish ?cfg ?env ex_kept_from ex_news True (Some 1000) ?nd = (Inr (), ?nd1)"
    using node_publish_cases [OF _ refl refl, where storage = True and cfg = ?cfg and env = ?env and frm = ex_kept_from and p = ex_news and e = "Some 1000" and nd = ?nd]
    by (simp add: retain_publish_def ex_news_facts)
  have rel: "(''a'', ''s'', so_default, None, None) \<in> set ex_rels" by (simp add: ex_rels_def)
  have plain: "plain_msg (StoreMsg ex_kept_from ex_news 0 0 None)" by (simp add: ex_news_facts parse plain_name_def is_wildcard_def)
  have new: "nd_store ?nd = ms_new" "ms_id_gen ms_new = 1" "ms_queue ms_new = []" by (simp_all add: node_new_def ms_new_def)
  obtain rs where "nd_store ?nd1 = store_ops ?cfg ms_new [OpPublish ex_kept_from ex_news 1000 None Sent, OpMark 1 rs Sent]"
    using publish_queue [OF pub env ex_news_facts(2) m nid rel reach] unfolding new by blast
  then have "ms_queue (nd_store ?nd2) = []" by (simp add: store_ops_def message_step.simps(3) [symmetric] serve_frame step_frame new)
  moreover obtain xs where "ms_get ex_store_lib (nf_store ?cfg) 9 ''s'' ''a'' None (nd_store ?nd2) = Inr xs" using parse by (simp add: ms_get_def Let_def)
  ultimately show ?thesis
    using forwarded_not_repeated [where before = "[]" and after = "[NServe 2, NServe 3]" and b = "fold entry_step ex_acts ex_broker"
        and now = 9 and flt = "''a''" and grp = None and xs = xs, OF ex_codec [folded lib] _ plain _ _ pub env ex_news_facts(2) m nid rel reach refl]
    unfolding lib new by auto
qed

theorem publish_agrees_with_session_witness:
  "se_broker (snd (inner_forwards (ex_env\<lparr>ev_retain_enabled := True, ev_now := 1\<rparr>) ex_kept_from ex_news (ex_session\<lparr>se_broker := ex_broker\<rparr>)))
     = nd_broker (snd (node_publish (ex_node_cfg False) (ex_node_env 1) ex_kept_from ex_news True (Some 1000) (node_new ex_broker)))"
  by (rule publish_agrees_with_session)
    (simp_all add: same_env_def ex_env_def ex_node_cfg_def ex_node_env_def node_new_def retain_publish_def ex_news_facts)

end
