(* ===== verification/Cluster_Router.thy ===== *)
theory Cluster_Router
  imports Router
begin

text \<open>
  The router of a cluster that replicates its state by Raft: \<open>ferromq-plugins/ferromq-cluster-raft/src/router.rs\<close> and \<open>message.rs\<close>. The routing
  table of theory \<open>Router\<close> and the states of the clients (which session a client has, whether it is online, whether a handshake
  holds its lock) are changed only by committed messages (\<open>Store::apply\<close>); snapshots carry them to other nodes.

  Raft itself, which delivers the same messages in the same order to all nodes, the crate \<open>postcard\<close> that encodes, and the
  compression crates are outside: messages are modelled decoded, and a snapshot uses a record of encoders of which it is assumed
  that what was encoded is decoded again (\<open>snap_ok\<close>). The clock of a node is a parameter of every applied message.

  Shown: the routing table is a function of the committed messages alone and stays consistent; the state of a client depends on the
  messages about it only; a handshake lock is exclusive until it expires or is released; a snapshot restored into a new node gives the
  same state. Also shown: the states of the clients depend on the local clock, so that two nodes can disagree after the same
  messages; restoring into a node that is not new leaves its old filters in the topic tree.
\<close>

section \<open>State\<close>

record client_status =
  cs_id :: ident
  cs_online :: bool
  cs_handshaking :: bool
  cs_handshak_duration :: timestamp

definition status_new :: "timestamp \<Rightarrow> ident \<Rightarrow> bool \<Rightarrow> bool \<Rightarrow> client_status" where
  "status_new now i online handshaking =
     \<lparr>cs_id = i, cs_online = online, cs_handshaking = handshaking, cs_handshak_duration = now\<rparr>"

definition status_handshaking :: "timestamp \<Rightarrow> int \<Rightarrow> client_status \<Rightarrow> bool" where
  "status_handshaking now try_lock_timeout s \<longleftrightarrow> cs_handshaking s \<and> now < cs_handshak_duration s + try_lock_timeout"

datatype compression = Zstd | Lz4 | Zlib | Snappy

record cluster_router =
  cl_inner :: router
  cl_states :: "(client_id \<times> client_status) list"
  cl_try_lock_timeout :: int
  cl_compression :: "compression option"

definition cluster_new :: "int \<Rightarrow> compression option \<Rightarrow> cluster_router" where
  "cluster_new try_lock_timeout packing =
     \<lparr>cl_inner = router_new, cl_states = [], cl_try_lock_timeout = try_lock_timeout, cl_compression = packing\<rparr>"

datatype cluster_msg =
    HandshakeTryLock ident
  | Connected ident
  | Disconnected ident
  | SessionTerminated ident
  | AddMsg topic_filter ident sub_options
  | RemoveMsg topic_filter ident
  | GetClientNodeId client_id
  | PingMsg

datatype message_reply = ReplyError string | ReplyHandshakeTryLock "ident option" | ReplyPing

text \<open>What \<open>apply\<close> and \<open>query\<close> return, before it is encoded.\<close>

datatype raft_reply = EmptyReply | MsgReply message_reply | NodeReply "node_id option"

section \<open>Queries\<close>

definition client_node_id :: "client_id \<Rightarrow> cluster_router \<Rightarrow> node_id option" where
  "client_node_id c cl = map_option (id_node_id \<circ> cs_id) (map_of (cl_states cl) c)"

definition client_ident :: "client_id \<Rightarrow> cluster_router \<Rightarrow> ident option" where
  "client_ident c cl = map_option cs_id (map_of (cl_states cl) c)"

definition client_online :: "client_id \<Rightarrow> cluster_router \<Rightarrow> bool" where
  "client_online c cl = (case map_of (cl_states cl) c of Some s \<Rightarrow> cs_online s | None \<Rightarrow> False)"

definition handshakings :: "cluster_router \<Rightarrow> nat" where
  "handshakings cl = length (filter (\<lambda>(_, s). cs_handshaking s) (cl_states cl))"

definition cluster_query :: "cluster_msg \<Rightarrow> cluster_router \<Rightarrow> raft_reply" where
  "cluster_query m cl = (case m of GetClientNodeId c \<Rightarrow> NodeReply (client_node_id c cl) | _ \<Rightarrow> EmptyReply)"

section \<open>Committed messages\<close>

definition set_status :: "client_id \<Rightarrow> client_status \<Rightarrow> cluster_router \<Rightarrow> cluster_router" where
  "set_status c s cl = cl\<lparr>cl_states := AList.update c s (cl_states cl)\<rparr>"

definition handshake_try_lock :: "timestamp \<Rightarrow> ident \<Rightarrow> cluster_router \<Rightarrow> message_reply \<times> cluster_router" where
  "handshake_try_lock now i cl =
     (let c = id_client_id i
      in case map_of (cl_states cl) c of
           Some s \<Rightarrow>
             (if \<not> status_handshaking now (cl_try_lock_timeout cl) s
              then (ReplyHandshakeTryLock (Some (cs_id s)), set_status c (status_new now i False True) cl)
              else (ReplyError ''Handshake try lock failed'', cl))
         | None \<Rightarrow> (ReplyHandshakeTryLock None, set_status c (status_new now i False True) cl))"

definition apply_connected :: "timestamp \<Rightarrow> ident \<Rightarrow> cluster_router \<Rightarrow> message_reply option \<times> cluster_router" where
  "apply_connected now i cl =
     (let c = id_client_id i
      in case map_of (cl_states cl) c of
           Some s \<Rightarrow>
             (if cs_id s \<noteq> i \<and> id_create_time i < id_create_time (cs_id s) then (Some (ReplyError ''id not the same''), cl)
              else (None, set_status c (s\<lparr>cs_id := i, cs_online := True, cs_handshaking := False\<rparr>) cl))
         | None \<Rightarrow> (None, set_status c (status_new now i True False) cl))"

definition apply_disconnected :: "ident \<Rightarrow> cluster_router \<Rightarrow> cluster_router" where
  "apply_disconnected i cl =
     (case map_of (cl_states cl) (id_client_id i) of
        Some s \<Rightarrow> (if cs_id s \<noteq> i then cl else set_status (id_client_id i) (s\<lparr>cs_online := False\<rparr>) cl)
      | None \<Rightarrow> cl)"

definition apply_terminated :: "ident \<Rightarrow> cluster_router \<Rightarrow> cluster_router" where
  "apply_terminated i cl =
     (case map_of (cl_states cl) (id_client_id i) of
        Some s \<Rightarrow> (if cs_id s \<noteq> i then cl else cl\<lparr>cl_states := AList.delete (id_client_id i) (cl_states cl)\<rparr>)
      | None \<Rightarrow> cl)"

fun cluster_apply :: "timestamp \<Rightarrow> cluster_msg \<Rightarrow> cluster_router \<Rightarrow> (topic_error + raft_reply) \<times> cluster_router" where
  "cluster_apply now (HandshakeTryLock i) cl = (case handshake_try_lock now i cl of (r, cl) \<Rightarrow> (Inr (MsgReply r), cl))"
| "cluster_apply now (Connected i) cl =
     (case apply_connected now i cl of
        (Some r, cl) \<Rightarrow> (Inr (MsgReply r), cl)
      | (None, cl) \<Rightarrow> (Inr EmptyReply, cl))"
| "cluster_apply now (Disconnected i) cl = (Inr EmptyReply, apply_disconnected i cl)"
| "cluster_apply now (SessionTerminated i) cl = (Inr EmptyReply, apply_terminated i cl)"
| "cluster_apply now (AddMsg tf i opts) cl =
     (case router_add tf i opts (cl_inner cl) of
        (res, r) \<Rightarrow> (map_sum id (\<lambda>_. EmptyReply) res, cl\<lparr>cl_inner := r\<rparr>))"
| "cluster_apply now (RemoveMsg tf i) cl =
     (case router_remove tf i (cl_inner cl) of
        (res, r) \<Rightarrow> (map_sum id (\<lambda>_. EmptyReply) res, cl\<lparr>cl_inner := r\<rparr>))"
| "cluster_apply now (GetClientNodeId c) cl = (Inr (NodeReply (client_node_id c cl)), cl)"
| "cluster_apply now PingMsg cl = (Inr (MsgReply ReplyPing), cl)"

text \<open>A log with the times at which this node applies its messages.\<close>

type_synonym timed_log = "(timestamp \<times> cluster_msg) list"

definition cluster_run :: "timed_log \<Rightarrow> cluster_router \<Rightarrow> cluster_router" where
  "cluster_run log cl = fold (\<lambda>(now, m) cl. snd (cluster_apply now m cl)) log cl"

section \<open>Snapshots\<close>

record snap_lib =
  sn_put_relations :: "relations \<Rightarrow> string + bytes"
  sn_get_relations :: "bytes \<Rightarrow> string + relations"
  sn_put_states :: "(client_id \<times> client_status) list \<Rightarrow> string + bytes"
  sn_get_states :: "bytes \<Rightarrow> string + (client_id \<times> client_status) list"
  sn_put_counter :: "counter \<Rightarrow> string + bytes"
  sn_get_counter :: "bytes \<Rightarrow> string + counter"
  sn_compress :: "compression \<Rightarrow> bytes \<Rightarrow> string + bytes"
  sn_uncompress :: "compression \<Rightarrow> bytes \<Rightarrow> string + bytes"

definition snap_ok :: "snap_lib \<Rightarrow> bool" where
  "snap_ok lib \<longleftrightarrow>
     (\<forall>x b. sn_put_relations lib x = Inr b \<longrightarrow> sn_get_relations lib b = Inr x) \<and>
     (\<forall>x b. sn_put_states lib x = Inr b \<longrightarrow> sn_get_states lib b = Inr x) \<and>
     (\<forall>x b. sn_put_counter lib x = Inr b \<longrightarrow> sn_get_counter lib b = Inr x) \<and>
     (\<forall>k x b. sn_compress lib k x = Inr b \<longrightarrow> sn_uncompress lib k b = Inr x)"

datatype raft_error = RaftCodec string | RaftTopic topic_error

definition compress :: "snap_lib \<Rightarrow> compression option \<Rightarrow> bytes \<Rightarrow> string + bytes" where
  "compress lib packing data = (case packing of Some k \<Rightarrow> sn_compress lib k data | None \<Rightarrow> Inr data)"

definition uncompress :: "snap_lib \<Rightarrow> compression option \<Rightarrow> bytes \<Rightarrow> string + bytes" where
  "uncompress lib packing data = (case packing of Some k \<Rightarrow> sn_uncompress lib k data | None \<Rightarrow> Inr data)"

text \<open>\<open>usize::to_le_bytes\<close> and \<open>from_le_bytes\<close> on a machine with 64 bits.\<close>

fun le_bytes :: "nat \<Rightarrow> nat \<Rightarrow> bytes" where
  "le_bytes 0 n = []"
| "le_bytes (Suc k) n = word_of_nat (n mod 256) # le_bytes k (n div 256)"

fun le_value :: "bytes \<Rightarrow> nat" where
  "le_value [] = 0"
| "le_value (b # bs) = unat b + 256 * le_value bs"

definition length_prefix :: "bytes \<Rightarrow> bytes" where
  "length_prefix data = le_bytes 8 (length data) @ data"

abbreviation sum_bind :: "'e + 'a \<Rightarrow> ('a \<Rightarrow> 'e + 'b) \<Rightarrow> 'e + 'b" where
  "sum_bind x f \<equiv> (case x of Inl e \<Rightarrow> Inl e | Inr a \<Rightarrow> f a)"

definition cluster_snapshot :: "snap_lib \<Rightarrow> cluster_router \<Rightarrow> string + bytes" where
  "cluster_snapshot lib cl =
     sum_bind (sum_bind (sn_put_relations lib (rt_relations (cl_inner cl))) (compress lib (cl_compression cl))) (\<lambda>relations_bin.
     sum_bind (sum_bind (sn_put_states lib (cl_states cl)) (compress lib (cl_compression cl))) (\<lambda>client_states_bin.
     sum_bind (sn_put_counter lib (rt_topics_count (cl_inner cl))) (\<lambda>topics_count_bin.
     sum_bind (sn_put_counter lib (rt_relations_count (cl_inner cl))) (\<lambda>relations_count_bin.
       Inr (length_prefix relations_bin @ length_prefix client_states_bin @ length_prefix topics_count_bin @
            length_prefix relations_count_bin)))))"

text \<open>A slice out of range panics.\<close>

definition slice :: "bytes \<Rightarrow> nat \<Rightarrow> nat \<Rightarrow> raft_error fault + bytes" where
  "slice bs start len = (if start + len \<le> length bs then Inr (take len (drop start bs)) else Inl Panicked)"

definition read_len :: "bytes \<Rightarrow> nat \<Rightarrow> raft_error fault + nat" where
  "read_len bs start = sum_bind (slice bs start 8) (\<lambda>b. Inr (le_value b))"

definition codec_result :: "string + 'a \<Rightarrow> raft_error fault + 'a" where
  "codec_result x = map_sum (Raised \<circ> RaftCodec) id x"

definition decode_with_length_prefix :: "(bytes \<Rightarrow> string + bytes) \<Rightarrow> (bytes \<Rightarrow> string + 'a) \<Rightarrow> bytes \<Rightarrow> nat \<Rightarrow> nat \<Rightarrow>
    raft_error fault + 'a" where
  "decode_with_length_prefix unpack decode snapshot start len =
     sum_bind (slice snapshot start len) (\<lambda>b. codec_result (sum_bind (unpack b) decode))"

definition decode_snapshot :: "snap_lib \<Rightarrow> compression option \<Rightarrow> bytes \<Rightarrow>
    raft_error fault + relations \<times> (client_id \<times> client_status) list \<times> counter \<times> counter" where
  "decode_snapshot lib packing snapshot =
     sum_bind (read_len snapshot 0) (\<lambda>relations_len.
     let relations_start = 8 in
     sum_bind (read_len snapshot (relations_start + relations_len)) (\<lambda>client_states_len.
     let client_states_start = 8 + relations_start + relations_len in
     sum_bind (read_len snapshot (client_states_start + client_states_len)) (\<lambda>topics_count_len.
     let topics_count_start = 8 + client_states_start + client_states_len in
     sum_bind (read_len snapshot (topics_count_start + topics_count_len)) (\<lambda>relations_count_len.
     let relations_count_start = 8 + topics_count_start + topics_count_len in
     sum_bind (decode_with_length_prefix (uncompress lib packing) (sn_get_relations lib) snapshot relations_start relations_len) (\<lambda>relations.
     sum_bind (decode_with_length_prefix (uncompress lib packing) (sn_get_states lib) snapshot client_states_start client_states_len) (\<lambda>client_states.
     sum_bind (decode_with_length_prefix Inr (sn_get_counter lib) snapshot topics_count_start topics_count_len) (\<lambda>topics_count.
     sum_bind (decode_with_length_prefix Inr (sn_get_counter lib) snapshot relations_count_start relations_count_len) (\<lambda>relations_count.
       Inr (relations, client_states, topics_count, relations_count)))))))))"

fun restore_relations :: "relations \<Rightarrow> router \<Rightarrow> (topic_error + unit) \<times> router" where
  "restore_relations [] r = (Inr (), r)"
| "restore_relations ((tf, relation) # rest) r =
     (case topic_from_str tf of
        Inl e \<Rightarrow> (Inl e, r)
      | Inr t \<Rightarrow> restore_relations rest (add_topic t (r\<lparr>rt_relations := AList.update tf relation (rt_relations r)\<rparr>)))"

definition cluster_restore :: "snap_lib \<Rightarrow> bytes \<Rightarrow> cluster_router \<Rightarrow> (raft_error fault + unit) \<times> cluster_router" where
  "cluster_restore lib snapshot cl =
     (case decode_snapshot lib (cl_compression cl) snapshot of
        Inl e \<Rightarrow> (Inl e, cl)
      | Inr (relations, client_states, topics_count, relations_count) \<Rightarrow>
          (let r = (cl_inner cl)\<lparr>rt_topics_count := counter_set topics_count (rt_topics_count (cl_inner cl)), rt_relations := []\<rparr>
           in case restore_relations relations r of
                (Inl e, r) \<Rightarrow> (Inl (Raised (RaftTopic e)), cl\<lparr>cl_inner := r\<rparr>)
              | (Inr _, r) \<Rightarrow>
                  (Inr (), cl\<lparr>cl_inner := r\<lparr>rt_relations_count := counter_set relations_count (rt_relations_count r)\<rparr>,
                              cl_states := fold (\<lambda>(c, s). AList.update c s) client_states []\<rparr>)))"

section \<open>Routing\<close>

fun router_op_of :: "cluster_msg \<Rightarrow> router_op option" where
  "router_op_of (AddMsg tf i opts) = Some (RAdd tf i opts)"
| "router_op_of (RemoveMsg tf i) = Some (RRemove tf i)"
| "router_op_of _ = None"

lemma cluster_run_simps [simp]: "cluster_run [] cl = cl"
  "cluster_run ((now, m) # log) cl = cluster_run log (snd (cluster_apply now m cl))"
  "cluster_run (log @ log') cl = cluster_run log' (cluster_run log cl)"
  by (simp_all add: cluster_run_def)

lemma status_inner [simp]: "cl_inner (set_status c s cl) = cl_inner cl"
  by (simp add: set_status_def)

lemma apply_inner:
  "cl_inner (snd (cluster_apply now m cl)) = (case router_op_of m of Some op \<Rightarrow> router_step op (cl_inner cl) | None \<Rightarrow> cl_inner cl)"
  by (cases m) (simp_all add: handshake_try_lock_def apply_connected_def apply_disconnected_def apply_terminated_def Let_def
      split: prod.splits option.splits)

text \<open>A part of the state that changes without looking at the rest or at the clock is the same on all replicas.\<close>

locale replica =
  fixes commit :: "'t \<Rightarrow> 'm \<Rightarrow> 's \<Rightarrow> 's" and obs :: "'s \<Rightarrow> 'o" and step :: "'m \<Rightarrow> 'o \<Rightarrow> 'o"
  assumes obs_commit: "obs (commit t m s) = step m (obs s)"
begin

lemma obs_run: "obs (fold (\<lambda>(t, m). commit t m) log s) = fold step (map snd log) (obs s)"
  by (induction log arbitrary: s) (auto simp: obs_commit)

lemma replicas_agree:
  "map snd log = map snd log' \<Longrightarrow> obs s = obs s' \<Longrightarrow>
     obs (fold (\<lambda>(t, m). commit t m) log s) = obs (fold (\<lambda>(t, m). commit t m) log' s')"
  by (simp add: obs_run)

end

definition route_msg :: "cluster_msg \<Rightarrow> router \<Rightarrow> router" where
  "route_msg m r = (case router_op_of m of Some op \<Rightarrow> router_step op r | None \<Rightarrow> r)"

interpretation routing: replica "\<lambda>now m cl. snd (cluster_apply now m cl)" cl_inner route_msg
  by unfold_locales (simp add: route_msg_def apply_inner)

lemma fold_route_msg: "fold route_msg ms r = fold router_step (List.map_filter router_op_of ms) r"
  by (induction ms arbitrary: r) (auto simp: route_msg_def List.map_filter_simps split: option.splits)

lemmas routing_simps = routing.obs_run [folded cluster_run_def] routing.replicas_agree [folded cluster_run_def] fold_route_msg

section \<open>The states of the clients\<close>

text \<open>The client that a message is about.\<close>

fun about :: "cluster_msg \<Rightarrow> client_id option" where
  "about (HandshakeTryLock i) = Some (id_client_id i)"
| "about (Connected i) = Some (id_client_id i)"
| "about (Disconnected i) = Some (id_client_id i)"
| "about (SessionTerminated i) = Some (id_client_id i)"
| "about _ = None"

definition states_ok :: "cluster_router \<Rightarrow> bool" where
  "states_ok cl \<longleftrightarrow> distinct (map fst (cl_states cl)) \<and> (\<forall>c s. map_of (cl_states cl) c = Some s \<longrightarrow> id_client_id (cs_id s) = c)"

definition cluster_inv :: "cluster_router \<Rightarrow> bool" where
  "cluster_inv cl \<longleftrightarrow> router_inv (cl_inner cl) \<and> states_ok cl"

lemma set_status_ok: "states_ok cl \<Longrightarrow> id_client_id (cs_id s) = c \<Longrightarrow> states_ok (set_status c s cl)"
  by (auto simp: states_ok_def set_status_def update_conv' distinct_update)

lemma handlers_states_ok:
  assumes "states_ok cl"
  shows "states_ok (snd (handshake_try_lock now i cl))" "states_ok (snd (apply_connected now i cl))"
    "states_ok (apply_disconnected i cl)" "states_ok (apply_terminated i cl)"
proof -
  show "states_ok (snd (handshake_try_lock now i cl))"
    using assms by (simp add: handshake_try_lock_def status_new_def set_status_ok Let_def split: option.splits)
  show "states_ok (snd (apply_connected now i cl))"
    using assms by (simp add: apply_connected_def status_new_def set_status_ok Let_def split: option.splits)
  show "states_ok (apply_disconnected i cl)"
    using assms by (auto simp: apply_disconnected_def intro!: set_status_ok split: option.splits)
  have "states_ok (cl\<lparr>cl_states := AList.delete (id_client_id i) (cl_states cl)\<rparr>)"
    using assms by (auto simp: states_ok_def delete_conv' distinct_delete split: if_splits)
  then show "states_ok (apply_terminated i cl)" using assms by (simp add: apply_terminated_def split: option.splits)
qed

lemma apply_states_ok:
  assumes "states_ok cl" shows "states_ok (snd (cluster_apply now m cl))"
proof -
  have "states_ok (cl\<lparr>cl_inner := r\<rparr>)" for r using assms by (simp add: states_ok_def)
  then show ?thesis
    using assms handlers_states_ok [OF assms] by (cases m) (simp_all add: case_prod_beta split: option.splits)
qed

lemma apply_inv:
  assumes "cluster_inv cl" shows "cluster_inv (snd (cluster_apply now m cl))"
proof -
  have "router_inv (router_step op r)" if "router_inv r" for op r
    using that by (cases op) (simp_all add: router_add_inv router_remove_inv)
  then show ?thesis using assms apply_states_ok [of cl] unfolding cluster_inv_def apply_inner by (simp split: option.splits)
qed

lemma run_inv: "cluster_inv cl \<Longrightarrow> cluster_inv (cluster_run log cl)"
proof (induction log arbitrary: cl)
  case (Cons x log)
  obtain now m where "x = (now, m)" by fastforce
  then show ?case using Cons apply_inv by simp
qed simp

lemma apply_timeout [simp]: "cl_try_lock_timeout (snd (cluster_apply now m cl)) = cl_try_lock_timeout cl"
  by (cases m) (simp_all add: handshake_try_lock_def apply_connected_def apply_disconnected_def apply_terminated_def set_status_def Let_def
      split: prod.splits option.splits)

text \<open>A message changes the state of the client that it is about only, and reads no other state.\<close>

lemma apply_other:
  "about m \<noteq> Some c \<Longrightarrow> map_of (cl_states (snd (cluster_apply now m cl))) c = map_of (cl_states cl) c"
  by (cases m) (auto simp: handshake_try_lock_def apply_connected_def apply_disconnected_def apply_terminated_def set_status_def
      update_conv' delete_conv' Let_def split: prod.splits option.splits)

lemma apply_same:
  assumes "map_of (cl_states cl) c = map_of (cl_states cl') c" and "about m = Some c"
    and "cl_try_lock_timeout cl = cl_try_lock_timeout cl'"
  shows "map_of (cl_states (snd (cluster_apply now m cl))) c = map_of (cl_states (snd (cluster_apply now m cl'))) c"
  using assms by (cases m) (auto simp: handshake_try_lock_def apply_connected_def apply_disconnected_def apply_terminated_def set_status_def
      update_conv' delete_conv' Let_def split: prod.splits option.splits)

lemma run_local:
  assumes "map_of (cl_states cl) c = map_of (cl_states cl') c" and "cl_try_lock_timeout cl = cl_try_lock_timeout cl'"
  shows "map_of (cl_states (cluster_run log cl)) c
    = map_of (cl_states (cluster_run (filter (\<lambda>(now, m). about m = Some c) log) cl')) c"
  using assms
proof (induction log arbitrary: cl cl')
  case (Cons x log)
  obtain now m where x: "x = (now, m)" by fastforce
  show ?case
  proof (cases "about m = Some c")
    case True
    then show ?thesis using Cons.IH apply_same [OF Cons.prems(1) True Cons.prems(2)] Cons.prems(2) by (simp add: x)
  next
    case False
    then show ?thesis using Cons apply_other [OF False, of now cl] by (simp add: x)
  qed
qed simp

section \<open>The handshake lock\<close>

definition locked :: "ident \<Rightarrow> timestamp \<Rightarrow> cluster_router \<Rightarrow> bool" where
  "locked i t cl \<longleftrightarrow>
     (\<exists>s. map_of (cl_states cl) (id_client_id i) = Some s \<and> cs_id s = i \<and> cs_handshaking s \<and> cs_handshak_duration s = t)"

text \<open>The messages that release the lock of \<open>i\<close>: the connection of this session or of a later one, and its end.\<close>

fun releases :: "ident \<Rightarrow> cluster_msg \<Rightarrow> bool" where
  "releases i (Connected j) \<longleftrightarrow> id_client_id j = id_client_id i \<and> (j = i \<or> id_create_time i \<le> id_create_time j)"
| "releases i (SessionTerminated j) \<longleftrightarrow> j = i"
| "releases i _ \<longleftrightarrow> False"

lemma try_lock_locked:
  assumes "locked i t cl" and "id_client_id j = id_client_id i" and "now < t + cl_try_lock_timeout cl"
  shows "handshake_try_lock now j cl = (ReplyError ''Handshake try lock failed'', cl)"
  using assms by (auto simp: locked_def handshake_try_lock_def status_handshaking_def Let_def)

lemma handlers_locked:
  assumes lock: "locked i t cl" and c: "id_client_id j = id_client_id i"
  shows "\<not> releases i (Connected j) \<Longrightarrow> snd (apply_connected now j cl) = cl" "locked i t (apply_disconnected j cl)"
    "\<not> releases i (SessionTerminated j) \<Longrightarrow> apply_terminated j cl = cl"
proof -
  from lock obtain s where s: "map_of (cl_states cl) (id_client_id i) = Some s" "cs_id s = i" "cs_handshaking s" "cs_handshak_duration s = t"
    unfolding locked_def by blast
  note at_j = s(1) [folded c]
  show "snd (apply_connected now j cl) = cl" if rel: "\<not> releases i (Connected j)"
  proof -
    have "i \<noteq> j \<and> id_create_time j < id_create_time i" using rel c by auto
    then have "cs_id s \<noteq> j \<and> id_create_time j < id_create_time (cs_id s)" unfolding s(2) .
    then show ?thesis by (simp add: apply_connected_def at_j)
  qed
  have "locked i t (set_status (id_client_id i) (s\<lparr>cs_online := False\<rparr>) cl)"
    using s(2,3,4) by (simp add: locked_def set_status_def update_conv')
  then show "locked i t (apply_disconnected j cl)" unfolding apply_disconnected_def at_j using lock c by simp
  show "apply_terminated j cl = cl" if rel: "\<not> releases i (SessionTerminated j)"
  proof -
    have "cs_id s \<noteq> j" using rel s(2) by simp
    then show ?thesis by (simp add: apply_terminated_def at_j)
  qed
qed

lemma apply_locked:
  assumes lock: "locked i t cl" and keep: "\<not> releases i m" and now: "now < t + cl_try_lock_timeout cl"
  shows "locked i t (snd (cluster_apply now m cl))"
proof (cases "about m = Some (id_client_id i)")
  case False
  then show ?thesis using lock apply_other [OF False, of now cl] by (simp add: locked_def)
next
  case True
  then obtain j where j: "id_client_id j = id_client_id i" "m \<in> {HandshakeTryLock j, Connected j, Disconnected j, SessionTerminated j}"
    by (cases m) auto
  from j(2) consider "m = HandshakeTryLock j" | "m = Connected j" | "m = Disconnected j" | "m = SessionTerminated j" by blast
  then show ?thesis
  proof cases
    case 1
    then show ?thesis using try_lock_locked [OF lock j(1) now] lock by simp
  next
    case 2
    then show ?thesis using handlers_locked(1) [OF lock j(1), of now] keep lock by (simp add: case_prod_beta split: option.splits)
  next
    case 3
    then show ?thesis using handlers_locked(2) [OF lock j(1)] by simp
  next
    case 4
    then show ?thesis using handlers_locked(3) [OF lock j(1)] keep lock by simp
  qed
qed

lemma run_locked:
  assumes "locked i t cl" and "\<And>now m. (now, m) \<in> set log \<Longrightarrow> \<not> releases i m \<and> now < t + cl_try_lock_timeout cl"
  shows "locked i t (cluster_run log cl) \<and> cl_try_lock_timeout (cluster_run log cl) = cl_try_lock_timeout cl"
  using assms
proof (induction log arbitrary: cl)
  case (Cons x log)
  obtain now m where x: "x = (now, m)" by fastforce
  have "locked i t (snd (cluster_apply now m cl))" using Cons.prems x by (intro apply_locked) auto
  moreover have "\<not> releases i m' \<and> now' < t + cl_try_lock_timeout (snd (cluster_apply now m cl))" if "(now', m') \<in> set log" for now' m'
    using Cons.prems(2) [of now' m'] that by simp
  ultimately show ?case using Cons.IH [of "snd (cluster_apply now m cl)"] by (simp add: x)
qed simp

section \<open>Bytes of a snapshot\<close>

lemma le_bytes_length [simp]: "length (le_bytes k n) = k"
  by (induction k arbitrary: n) auto

lemma le_bytes_value: "le_value (le_bytes k n) = n mod 256 ^ k"
proof (induction k arbitrary: n)
  case (Suc k)
  have "unat (word_of_nat (n mod 256) :: u8) = n mod 256" by (simp add: unat_of_nat)
  then show ?case using Suc by (simp add: mod_mult2_eq [of n 256])
qed simp

lemma length_prefix_length [simp]: "length (length_prefix d) = 8 + length d"
  by (simp add: length_prefix_def)

lemma read_length:
  assumes "n = length xs" and "length d < 2 ^ 64"
  shows "read_len (xs @ length_prefix d @ zs) n = Inr (length d)"
  using assms le_bytes_value [of 8 "length d"] by (simp add: read_len_def slice_def length_prefix_def)

lemma slice_block:
  assumes "n = length xs + 8"
  shows "slice (xs @ length_prefix d @ zs) n (length d) = Inr d"
  using assms by (simp add: slice_def length_prefix_def)

lemma decode_block:
  assumes "n = length xs + 8" and "unpack d = Inr e" and "decode e = Inr x"
  shows "decode_with_length_prefix unpack decode (xs @ length_prefix d @ zs) n (length d) = Inr x"
  using assms slice_block [OF assms(1)] by (simp add: decode_with_length_prefix_def codec_result_def)

lemma decode_blocks:
  assumes small: "length a < 2 ^ 64" "length b < 2 ^ 64" "length c < 2 ^ 64" "length d < 2 ^ 64"
    and vals: "uncompress lib k a = Inr a'" "sn_get_relations lib a' = Inr rels" "uncompress lib k b = Inr b'"
      "sn_get_states lib b' = Inr sts" "sn_get_counter lib c = Inr tc" "sn_get_counter lib d = Inr rc"
  shows "decode_snapshot lib k (length_prefix a @ length_prefix b @ length_prefix c @ length_prefix d) = Inr (rels, sts, tc, rc)"
proof -
  let ?bs = "length_prefix a @ length_prefix b @ length_prefix c @ length_prefix d"
  let ?a = "8 + length a" let ?b = "8 + 8 + length a + length b" let ?c = "8 + (8 + 8 + length a) + length b + length c"
  have "read_len ?bs 0 = Inr (length a)" using read_length [of 0 "[]" a] small(1) by simp
  moreover have "read_len ?bs ?a = Inr (length b)" using read_length [of ?a "length_prefix a" b] small(2) by simp
  moreover have "read_len ?bs ?b = Inr (length c)" using read_length [of ?b "length_prefix a @ length_prefix b" c] small(3) by simp
  moreover have "read_len ?bs ?c = Inr (length d)"
    using read_length [of ?c "length_prefix a @ length_prefix b @ length_prefix c" d "[]"] small(4) by simp
  moreover have "decode_with_length_prefix (uncompress lib k) (sn_get_relations lib) ?bs 8 (length a) = Inr rels"
    using decode_block [where xs = "[]" and unpack = "uncompress lib k" and decode = "sn_get_relations lib", OF _ vals(1,2)] by simp
  moreover have "decode_with_length_prefix (uncompress lib k) (sn_get_states lib) ?bs (8 + 8 + length a) (length b) = Inr sts"
    using decode_block [where xs = "length_prefix a" and unpack = "uncompress lib k" and decode = "sn_get_states lib", OF _ vals(3,4)] by simp
  moreover have "decode_with_length_prefix Inr (sn_get_counter lib) ?bs (8 + (8 + 8 + length a) + length b) (length c) = Inr tc"
    using decode_block [where xs = "length_prefix a @ length_prefix b" and unpack = Inr and decode = "sn_get_counter lib", OF _ refl vals(5)] by (simp add: add.assoc)
  moreover have "decode_with_length_prefix Inr (sn_get_counter lib) ?bs (8 + (8 + (8 + 8 + length a) + length b) + length c) (length d) = Inr rc"
    using decode_block [where xs = "length_prefix a @ length_prefix b @ length_prefix c" and zs = "[]" and unpack = Inr and decode = "sn_get_counter lib", OF _ refl vals(6)] by (simp add: add.assoc)
  ultimately show ?thesis by (simp add: decode_snapshot_def Let_def add.assoc add.left_commute)
qed

section \<open>Restoring\<close>

lemma fold_update_new:
  "distinct (map fst (acc @ xs)) \<Longrightarrow> fold (\<lambda>(c, s). AList.update c s) xs acc = acc @ xs"
proof (induction xs arbitrary: acc)
  case (Cons x xs)
  obtain c s where "x = (c, s)" by fastforce
  then show ?case using Cons.IH [of "acc @ [x]"] Cons.prems by (simp add: alist_update_new)
qed simp

lemma restore_relations_correct:
  assumes "distinct (map fst (rt_relations r @ rels))" and "list_all rels_ok rels" and "tree_agrees (rt_topics r) K"
  shows "\<exists>n. restore_relations rels r = (Inr (), r\<lparr>rt_relations := rt_relations r @ rels, rt_topics := n\<rparr>) \<and>
    tree_agrees n (K \<union> fst ` set rels)"
  using assms
proof (induction rels arbitrary: r K)
  case (Cons x rels)
  obtain tf rel where x: "x = (tf, rel)" by fastforce
  then obtain t where t: "topic_from_str tf = Inr t" using Cons.prems(2) by (auto simp: rels_ok_def)
  let ?r = "add_topic t (r\<lparr>rt_relations := AList.update tf rel (rt_relations r)\<rparr>)"
  have new: "rt_relations ?r = rt_relations r @ [x]" using Cons.prems(1) by (simp add: x add_topic_def alist_update_new)
  have "tree_agrees (rt_topics ?r) (insert tf K)" using tree_agrees_insert [OF Cons.prems(3) t] by (simp add: add_topic_def)
  moreover have "distinct (map fst (rt_relations ?r @ rels))" using Cons.prems(1) by (simp only: new append_assoc append_Cons append_Nil)
  ultimately obtain n where n: "restore_relations rels ?r = (Inr (), ?r\<lparr>rt_relations := rt_relations ?r @ rels, rt_topics := n\<rparr>)"
    "tree_agrees n (insert tf K \<union> fst ` set rels)" using Cons.IH [of ?r "insert tf K"] Cons.prems(2) by auto
  have "restore_relations (x # rels) r = restore_relations rels ?r" by (simp add: x t)
  also have "\<dots> = (Inr (), r\<lparr>rt_relations := rt_relations r @ x # rels, rt_topics := n\<rparr>)"
    unfolding n(1) new by (simp add: add_topic_def)
  finally show ?case using n(2) by (intro exI [of _ n]) (simp add: x)
qed (intro exI, auto)

lemma restore_correct:
  assumes lib: "snap_ok lib" and inv: "cluster_inv cl" and snap: "cluster_snapshot lib cl = Inr bs" and small: "length bs < 2 ^ 64"
    and packing: "cl_compression cl' = cl_compression cl" and tree: "tree_agrees (rt_topics (cl_inner cl')) K"
  shows "\<exists>n. cluster_restore lib bs cl' = (Inr (), cl'\<lparr>cl_states := cl_states cl, cl_inner :=
      \<lparr>rt_topics = n, rt_topics_count = counter_set (rt_topics_count (cl_inner cl)) (rt_topics_count (cl_inner cl')),
       rt_relations = rt_relations (cl_inner cl),
       rt_relations_count = counter_set (rt_relations_count (cl_inner cl)) (rt_relations_count (cl_inner cl'))\<rparr>\<rparr>) \<and>
    tree_agrees n (K \<union> fst ` set (rt_relations (cl_inner cl)))"
proof -
  let ?rels = "rt_relations (cl_inner cl)" and ?k = "cl_compression cl"
  from snap obtain a' a b' b c d where puts: "sn_put_relations lib ?rels = Inr a'" "compress lib ?k a' = Inr a"
      "sn_put_states lib (cl_states cl) = Inr b'" "compress lib ?k b' = Inr b"
      "sn_put_counter lib (rt_topics_count (cl_inner cl)) = Inr c" "sn_put_counter lib (rt_relations_count (cl_inner cl)) = Inr d"
    and bs: "bs = length_prefix a @ length_prefix b @ length_prefix c @ length_prefix d"
    by (auto simp: cluster_snapshot_def split: sum.splits)
  have unpack: "uncompress lib ?k y = Inr x" if "compress lib ?k x = Inr y" for x y
    using that lib by (auto simp: compress_def uncompress_def snap_ok_def split: option.splits)
  have gets: "sn_get_relations lib a' = Inr ?rels" "sn_get_states lib b' = Inr (cl_states cl)"
      "sn_get_counter lib c = Inr (rt_topics_count (cl_inner cl))" "sn_get_counter lib d = Inr (rt_relations_count (cl_inner cl))"
    using lib puts by (simp_all add: snap_ok_def)
  have decode: "decode_snapshot lib (cl_compression cl') bs
      = Inr (?rels, cl_states cl, rt_topics_count (cl_inner cl), rt_relations_count (cl_inner cl))"
    unfolding bs packing using small bs
    by (intro decode_blocks [OF _ _ _ _ unpack [OF puts(2)] gets(1) unpack [OF puts(4)] gets(2) gets(3,4)]) simp_all
  let ?r = "(cl_inner cl')\<lparr>rt_topics_count := counter_set (rt_topics_count (cl_inner cl)) (rt_topics_count (cl_inner cl')), rt_relations := []\<rparr>"
  have rels: "distinct (map fst ?rels)" "list_all rels_ok ?rels" and sts: "distinct (map fst (cl_states cl))"
    using inv by (auto simp: cluster_inv_def router_inv_def states_ok_def)
  from restore_relations_correct [of ?r ?rels K] rels tree obtain n where
    n: "restore_relations ?rels ?r = (Inr (), ?r\<lparr>rt_relations := ?rels, rt_topics := n\<rparr>)" "tree_agrees n (K \<union> fst ` set ?rels)" by auto
  have "fold (\<lambda>(c, s). AList.update c s) (cl_states cl) [] = cl_states cl" using fold_update_new [of "[]"] sts by simp
  then show ?thesis using n decode by (intro exI [of _ n]) (simp add: cluster_restore_def Let_def)
qed

section \<open>Properties\<close>

text \<open>C32: Routing is replicated. Whatever the clocks of the nodes show, nodes that have applied the same messages have the same routing
  table: that of a single router with the subscriptions and unsubscriptions among the messages. It is consistent, and so are the states
  of the clients.\<close>

theorem routing_replicated:
  assumes "map snd log = map snd log'"
  shows "cl_inner (cluster_run log (cluster_new timeout k)) = cl_inner (cluster_run log' (cluster_new timeout k)) \<and>
    cl_inner (cluster_run log (cluster_new timeout k)) = fold router_step (List.map_filter router_op_of (map snd log)) router_new \<and>
    cluster_inv (cluster_run log (cluster_new timeout k))"
proof -
  have "cluster_inv (cluster_new timeout k)" by (simp add: cluster_inv_def states_ok_def cluster_new_def router_new_inv)
  then have "cluster_inv (cluster_run log (cluster_new timeout k))" by (rule run_inv)
  moreover have "cl_inner (cluster_run log (cluster_new timeout k)) = cl_inner (cluster_run log' (cluster_new timeout k))"
    using assms by (rule routing_simps(2)) simp
  moreover have "cl_inner (cluster_new timeout k) = router_new" by (simp add: cluster_new_def)
  ultimately show ?thesis by (simp add: routing_simps(1,3))
qed

text \<open>The state of a client after a log is its state after the messages about this client alone.\<close>

theorem client_state_local:
  "map_of (cl_states (cluster_run log cl)) c = map_of (cl_states (cluster_run (filter (\<lambda>(now, m). about m = Some c) log) cl)) c"
  by (rule run_local) simp_all

text \<open>C33: The handshake lock is exclusive. After a session has got the lock of its client, every other attempt for this client is refused and
  changes nothing, until the time limit has passed or the session, or a later one, reports that it is connected or ends.\<close>

theorem handshake_lock_exclusive:
  assumes got: "handshake_try_lock t i cl = (ReplyHandshakeTryLock prev, cl1)"
    and log: "\<forall>(now, m) \<in> set log. \<not> releases i m \<and> now < t + cl_try_lock_timeout cl"
    and j: "id_client_id j = id_client_id i" and now: "now < t + cl_try_lock_timeout cl"
  shows "handshake_try_lock now j (cluster_run log cl1) = (ReplyError ''Handshake try lock failed'', cluster_run log cl1)"
proof -
  have "locked i t cl1" "cl_try_lock_timeout cl1 = cl_try_lock_timeout cl"
    using got by (auto simp: handshake_try_lock_def Let_def locked_def set_status_def status_new_def update_conv' split: option.splits if_splits)
  with run_locked [of i t cl1 log] log have "locked i t (cluster_run log cl1)" "cl_try_lock_timeout (cluster_run log cl1) = cl_try_lock_timeout cl"
    by auto
  then show ?thesis using try_lock_locked [OF _ j] now by simp
qed

text \<open>The clock decides. Whether an attempt to lock succeeds depends on the time at which a node applies it: two nodes that
  apply the same two attempts disagree afterwards on the session of the client, and on the reply.\<close>

theorem client_states_diverge:
  assumes "0 < timeout" and "id_client_id a = id_client_id b" and "a \<noteq> b"
  shows "\<exists>log log'. map snd log = map snd log' \<and>
    client_ident (id_client_id a) (cluster_run log (cluster_new timeout k)) = Some a \<and>
    client_ident (id_client_id a) (cluster_run log' (cluster_new timeout k)) = Some b"
  using assms
  by (intro exI [of _ "[(0, HandshakeTryLock a), (0, HandshakeTryLock b)]"] exI [of _ "[(0, HandshakeTryLock a), (timeout, HandshakeTryLock b)]"])
    (simp add: client_ident_def cluster_new_def handshake_try_lock_def set_status_def status_new_def status_handshaking_def Let_def)

text \<open>C34: Snapshots. The snapshot of a consistent node can be restored by a new node with the same compression, which then
  has the same relations, the same states of clients and the same numbers of filters and relations, and is consistent.\<close>

theorem snapshot_roundtrip:
  assumes "snap_ok lib" and "cluster_inv cl" and "cluster_snapshot lib cl = Inr bs" and "length bs < 2 ^ 64"
  shows "\<exists>cl'. cluster_restore lib bs (cluster_new timeout (cl_compression cl)) = (Inr (), cl') \<and> cluster_inv cl' \<and>
    rt_relations (cl_inner cl') = rt_relations (cl_inner cl) \<and> cl_states cl' = cl_states cl \<and>
    cnt_current (rt_topics_count (cl_inner cl')) = cnt_current (rt_topics_count (cl_inner cl)) \<and>
    cnt_current (rt_relations_count (cl_inner cl')) = cnt_current (rt_relations_count (cl_inner cl))"
proof -
  have "tree_agrees (rt_topics (cl_inner (cluster_new timeout (cl_compression cl)))) {}"
    using router_new_inv by (simp add: cluster_new_def router_inv_def router_new_def)
  from restore_correct [OF assms _ this] obtain n where n: "tree_agrees n ({} \<union> fst ` set (rt_relations (cl_inner cl)))"
    and res: "cluster_restore lib bs (cluster_new timeout (cl_compression cl)) = (Inr (), (cluster_new timeout (cl_compression cl))\<lparr>
      cl_states := cl_states cl, cl_inner := \<lparr>rt_topics = n, rt_topics_count = counter_set (rt_topics_count (cl_inner cl)) counter_new,
       rt_relations = rt_relations (cl_inner cl), rt_relations_count = counter_set (rt_relations_count (cl_inner cl)) counter_new\<rparr>\<rparr>)"
    by (auto simp: cluster_new_def router_new_def)
  show ?thesis
    unfolding res using assms(2) n by (auto simp: cluster_inv_def router_inv_def states_ok_def counter_set_def)
qed

text \<open>Restoring into a node that is not new. The topic tree is not cleared: a filter that only this node had stays in the tree although it has
  no relation any more, so that the tree and the relations disagree.\<close>

theorem restore_keeps_old_filters:
  assumes "snap_ok lib" and "cluster_inv cl" and "cluster_snapshot lib cl = Inr bs" and "length bs < 2 ^ 64"
    and "cluster_inv old" and "cl_compression old = cl_compression cl"
    and tf: "tf \<in> fst ` set (rt_relations (cl_inner old))" "tf \<notin> fst ` set (rt_relations (cl_inner cl))" "topic_from_str tf = Inr t"
  shows "\<exists>cl'. cluster_restore lib bs old = (Inr (), cl') \<and> values_at (rt_topics (cl_inner cl')) (levels t) \<noteq> [] \<and>
    map_of (rt_relations (cl_inner cl')) tf = None \<and> \<not> cluster_inv cl'"
proof -
  let ?K = "fst ` set (rt_relations (cl_inner old))" and ?R = "rt_relations (cl_inner cl)"
  have "tree_agrees (rt_topics (cl_inner old)) ?K" using assms(5) by (simp add: cluster_inv_def router_inv_def)
  from restore_correct [OF assms(1-4,6) this] obtain n cl' where res: "cluster_restore lib bs old = (Inr (), cl')"
    "rt_topics (cl_inner cl') = n" "rt_relations (cl_inner cl') = ?R" "tree_agrees n (?K \<union> fst ` set ?R)" by fastforce
  then have "values_at n (levels t) \<noteq> []" using tf(1,3) unfolding tree_agrees_def by blast
  moreover have "\<not> tree_agrees n (fst ` set ?R)"
    using calculation tf(2,3) parsed_filter_unique unfolding tree_agrees_def by metis
  ultimately show ?thesis
    using res tf(2) by (intro exI [of _ cl']) (auto simp: cluster_inv_def router_inv_def map_of_eq_None_iff)
qed

section \<open>Examples\<close>

definition ex_log :: timed_log where
  "ex_log = [(0, AddMsg ''a'' (ex_ident ''s'') so_default), (1, Connected (ex_ident ''s''))]"

definition ex_cluster :: cluster_router where
  "ex_cluster = cluster_run ex_log (cluster_new 5 (Some Lz4))"

definition ex_snap_lib :: snap_lib where
  "ex_snap_lib = \<lparr>sn_put_relations = (\<lambda>x. if x = rt_relations (cl_inner ex_cluster) then Inr [1] else Inl []),
     sn_get_relations = (\<lambda>b. if b = [1] then Inr (rt_relations (cl_inner ex_cluster)) else Inl []),
     sn_put_states = (\<lambda>x. if x = cl_states ex_cluster then Inr [2] else Inl []),
     sn_get_states = (\<lambda>b. if b = [2] then Inr (cl_states ex_cluster) else Inl []),
     sn_put_counter = (\<lambda>x. if x = counter_inc counter_new then Inr [3] else Inl []),
     sn_get_counter = (\<lambda>b. if b = [3] then Inr (counter_inc counter_new) else Inl []),
     sn_compress = (\<lambda>k x. Inr (0 # x)), sn_uncompress = (\<lambda>k b. Inr (tl b))\<rparr>"

lemma ex_snap_ok: "snap_ok ex_snap_lib"
  by (auto simp: snap_ok_def ex_snap_lib_def split: if_splits)

lemma ex_cluster_inv: "cluster_inv ex_cluster"
  unfolding ex_cluster_def
  by (rule run_inv) (simp add: cluster_inv_def states_ok_def cluster_new_def router_new_inv)

lemma ex_cluster_inner: "cl_inner ex_cluster = snd (router_add ''a'' (ex_ident ''s'') so_default router_new)"
  by (simp add: ex_cluster_def ex_log_def apply_inner cluster_new_def del: cluster_apply.simps)

lemma ex_snapshot: "\<exists>bs. cluster_snapshot ex_snap_lib ex_cluster = Inr bs \<and> length bs < 2 ^ 64"
proof -
  have "topic_from_str ''a'' = Inr (Topic [Normal ''a''])"
    by (simp add: topic_from_str_def level_from_str_def topic_is_valid_levels contains_wildcard_def str_is_metadata_def)
  then have "rt_topics_count (cl_inner ex_cluster) = counter_inc counter_new" "rt_relations_count (cl_inner ex_cluster) = counter_inc counter_new"
    by (simp_all add: ex_cluster_inner router_add_def add_relation_def add_topic_def router_new_def Let_def)
  moreover have "cl_compression ex_cluster = Some Lz4"
    by (simp add: ex_cluster_def ex_log_def cluster_new_def apply_connected_def set_status_def case_prod_beta)
  ultimately show ?thesis by (simp add: cluster_snapshot_def ex_snap_lib_def compress_def)
qed

theorem routing_replicated_witness:
  "cl_inner (cluster_run ex_log (cluster_new 5 None)) = cl_inner (cluster_run [(7, AddMsg ''a'' (ex_ident ''s'') so_default), (9, Connected (ex_ident ''s''))] (cluster_new 5 None))"
  using routing_replicated [of ex_log "[(7, AddMsg ''a'' (ex_ident ''s'') so_default), (9, Connected (ex_ident ''s''))]" 5 None]
  by (simp add: ex_log_def)

theorem handshake_lock_exclusive_witness:
  "handshake_try_lock 4 (id_from 3 2 ''s'') (cluster_run [(1, Disconnected (ex_ident ''s'')), (2, PingMsg)]
      (snd (handshake_try_lock 0 (ex_ident ''s'') (cluster_new 5 None))))
    = (ReplyError ''Handshake try lock failed'', cluster_run [(1, Disconnected (ex_ident ''s'')), (2, PingMsg)]
      (snd (handshake_try_lock 0 (ex_ident ''s'') (cluster_new 5 None))))"
  by (rule handshake_lock_exclusive [where t = 0 and i = "ex_ident ''s''" and prev = None and cl = "cluster_new 5 None"])
    (simp_all add: handshake_try_lock_def cluster_new_def ex_ident_def id_from_def id_new_def)

theorem client_states_diverge_witness:
  "\<exists>log log'. map snd log = map snd log' \<and>
    client_ident ''s'' (cluster_run log (cluster_new 5 None)) = Some (id_from 0 1 ''s'') \<and>
    client_ident ''s'' (cluster_run log' (cluster_new 5 None)) = Some (id_from 0 2 ''s'')"
  using client_states_diverge [of 5 "id_from 0 1 ''s''" "id_from 0 2 ''s''" None] by (simp add: id_from_def id_new_def)

theorem snapshot_roundtrip_witness:
  "\<exists>bs cl'. cluster_snapshot ex_snap_lib ex_cluster = Inr bs \<and>
    cluster_restore ex_snap_lib bs (cluster_new 9 (cl_compression ex_cluster)) = (Inr (), cl') \<and> cl_states cl' = cl_states ex_cluster"
proof -
  from ex_snapshot obtain bs where bs: "cluster_snapshot ex_snap_lib ex_cluster = Inr bs" "length bs < 2 ^ 64" by blast
  from snapshot_roundtrip [OF ex_snap_ok ex_cluster_inv bs, of 9] bs(1) show ?thesis by blast
qed

theorem restore_keeps_old_filters_witness:
  "\<exists>bs cl'. cluster_snapshot ex_snap_lib ex_cluster = Inr bs \<and>
    cluster_restore ex_snap_lib bs (cluster_run [(0, AddMsg ''b'' (ex_ident ''t'') so_default)] (cluster_new 5 (cl_compression ex_cluster))) = (Inr (), cl') \<and>
    \<not> cluster_inv cl'"
proof -
  from ex_snapshot obtain bs where bs: "cluster_snapshot ex_snap_lib ex_cluster = Inr bs" "length bs < 2 ^ 64" by blast
  let ?old = "cluster_run [(0, AddMsg ''b'' (ex_ident ''t'') so_default)] (cluster_new 5 (cl_compression ex_cluster))"
  have parse: "topic_from_str ''a'' = Inr (Topic [Normal ''a''])" "topic_from_str ''b'' = Inr (Topic [Normal ''b''])"
    by (simp_all add: topic_from_str_def level_from_str_def topic_is_valid_levels contains_wildcard_def str_is_metadata_def)
  have inv: "cluster_inv ?old"
    by (rule run_inv) (simp add: cluster_inv_def states_ok_def cluster_new_def router_new_inv)
  have old: "fst ` set (rt_relations (cl_inner ?old)) = {''b''}" "cl_compression ?old = cl_compression ex_cluster"
    using parse by (simp_all add: cluster_new_def router_add_def add_relation_def add_topic_def router_new_def Let_def)
  have new: "fst ` set (rt_relations (cl_inner ex_cluster)) = {''a''}"
    using parse by (simp add: ex_cluster_inner router_add_def add_relation_def add_topic_def router_new_def Let_def)
  from restore_keeps_old_filters [OF ex_snap_ok ex_cluster_inv bs inv old(2) _ _ parse(2)] old(1) new bs(1) show ?thesis by auto
qed

end
