(* ===== verification/Session_Life.thy ===== *)
theory Session_Life
  imports Session
begin

text \<open>
  The life of a session, \<open>ferromq/src/session.rs\<close>: messages that the session task receives from other tasks, the
  transfer of the state of a previous session, the end of the connection with the last will, and the time offline.

  Timers are events: the caller says when one has fired. The storage of messages (\<open>send_storaged_messages\<close>)
  and the signal channel of the delivery queue (see the theory of queues) are left out.
\<close>

section \<open>Transfer of a previous session\<close>

definition max_transfer_id :: "out_inflight_message list \<Rightarrow> u16 option" where
  "max_transfer_id ms =
     (case List.map_filter (\<lambda>m. pub_packet_id (mp_inner (om_publish m))) ms of
        [] \<Rightarrow> None
      | n # ns \<Rightarrow> Some (fold max ns n))"

definition transfer_relations :: "ident \<Rightarrow> (topic_filter \<times> sub_options) list \<Rightarrow> router \<Rightarrow> router" where
  "transfer_relations i subs r = fold (\<lambda>(tf, opts) r. snd (router_add tf i opts r)) subs r"

definition own_subs_extend :: "ident \<Rightarrow> (topic_filter \<times> sub_options) list \<Rightarrow> broker \<Rightarrow> broker" where
  "own_subs_extend i other b =
     (case map_of (br_peers b) (id_client_id i) of
        None \<Rightarrow> b
      | Some p \<Rightarrow>
          (case subs_extend other (pe_subs p, br_stats b) of
             (subs, st) \<Rightarrow>
               b\<lparr>br_stats := st, br_peers := AList.update (id_client_id i) (p\<lparr>pe_subs := subs\<rparr>) (br_peers b)\<rparr>))"

text \<open>The loop over \<open>inflight_messages.pop()\<close> takes the messages from the back.\<close>

definition transfer_session_state :: "session_env \<Rightarrow> bool \<Rightarrow> offline_info \<Rightarrow> 'q session \<Rightarrow> 'q session" where
  "transfer_session_state env clear_subscriptions off s =
     (let s = (case max_transfer_id (of_inflight_messages off) of
                 Some max_id \<Rightarrow> s\<lparr>se_out := oi_advance_next_id max_id (se_out s)\<rparr>
               | None \<Rightarrow> s);
          b = se_broker s;
          s = (if clear_subscriptions then s
               else s\<lparr>se_broker := own_subs_extend (se_id s) (of_subscriptions off)
                        (b\<lparr>br_router := transfer_relations (se_id s) (of_subscriptions off) (br_router b)\<rparr>)\<rparr>);
          s = fold (reforward env) (rev (of_inflight_messages off)) s
      in fold (\<lambda>(from, p). own_forward from p) (of_offline_messages off) s)"

text \<open>What the previous session hands over; \<open>None\<close> when the loop over the window does not end.\<close>

fun queue_drain :: "nat \<Rightarrow> 'a queue \<Rightarrow> 'a list \<times> 'a queue" where
  "queue_drain 0 q = ([], q)"
| "queue_drain (Suc n) q =
     (case queue_pop q of
        (None, q) \<Rightarrow> ([], q)
      | (Some x, q) \<Rightarrow> (case queue_drain n q of (xs, q) \<Rightarrow> (x # xs, q)))"

definition to_offline_info :: "'q deque_ops \<Rightarrow> timestamp \<Rightarrow> 'q session \<Rightarrow> (offline_info \<times> 'q session) option" where
  "to_offline_info ops created_at s =
     (case map_of (br_peers (se_broker s)) (id_client_id (se_id s)) of
        None \<Rightarrow> None
      | Some p \<Rightarrow>
          (case subs_drain (pe_subs p, br_stats (se_broker s)) of
             (drained, subs, st) \<Rightarrow>
               (case queue_drain (Suc (queue_len (se_queue s))) (se_queue s) of
                  (msgs, q) \<Rightarrow>
                    (case to_inflight_messages ops (se_out s, se_out_stat s) of
                       None \<Rightarrow> None
                     | Some (ms, w, wst) \<Rightarrow>
                         Some (\<lparr>of_id = se_id s, of_subscriptions = drained, of_offline_messages = msgs,
                                of_inflight_messages = ms, of_created_at = created_at\<rparr>,
                               s\<lparr>se_queue := q, se_out := w, se_out_stat := wst,
                                 se_broker := (se_broker s)\<lparr>br_stats := st,
                                   br_peers := AList.update (id_client_id (se_id s)) (p\<lparr>pe_subs := subs\<rparr>) (br_peers (se_broker s))\<rparr>\<rparr>)))))"

section \<open>Messages of other tasks\<close>

definition deliver_policy :: "msg_from \<times> msg_publish \<Rightarrow> policy" where
  "deliver_policy m = (if pub_qos (mp_inner (snd m)) = AtMostOnce then Current else Early)"

definition enqueue :: "msg_from \<Rightarrow> msg_publish \<Rightarrow> 'q session \<Rightarrow> 'q session" where
  "enqueue from p s =
     (case sender_send deliver_policy (\<lambda>ch. (True, ch)) (from, p) (se_queue s, ()) of
        (Inl (from, p), q, _) \<Rightarrow> message_dropped from p R_MessageQueueFull (s\<lparr>se_queue := q\<rparr>)
      | (Inr _, q, _) \<Rightarrow> s\<lparr>se_queue := q\<rparr>)"

definition kicked :: "bool \<Rightarrow> bool \<Rightarrow> 'q session \<Rightarrow> 'q session" where
  "kicked clean_start is_admin s =
     s\<lparr>se_flags := (se_flags s)\<lparr>fl_kicked := True,
         fl_by_admin_kick := fl_by_admin_kick (se_flags s) \<or> is_admin,
         fl_clean_start := fl_clean_start (se_flags s) \<or> clean_start\<rparr>\<rparr>"

fun subscribe_all :: "session_env \<Rightarrow> broker_subscribe list \<Rightarrow> (unit, 'q) handler" where
  "subscribe_all env [] s = (Inr (), s)"
| "subscribe_all env (sub # subs) s =
     (case session_subscribe env sub s of
        (Inl Panicked, s) \<Rightarrow> (Inl Panicked, s)
      | (_, s) \<Rightarrow> subscribe_all env subs s)"

fun process_message :: "session_env \<Rightarrow> 'q deque_ops \<Rightarrow> message \<Rightarrow> (unit, 'q) handler" where
  "process_message env ops (MForward from p) s = (Inr (), enqueue from p s)"
| "process_message env ops (MSendRerelease m) s = send_rerelease env ops m s"
| "process_message env ops (MKick by_id clean_start is_admin) s =
     (if ev_reply_open env then (Inl (Raised (R_ConnectKicked is_admin)), kicked clean_start is_admin s) else (Inr (), s))"
| "process_message env ops (MSubscribe sub) s = subscribe_all env [sub] s"
| "process_message env ops (MSubscribes subs) s = subscribe_all env subs s"
| "process_message env ops (MUnsubscribe unsub) s =
     (case session_unsubscribe env unsub s of (Inl Panicked, s) \<Rightarrow> (Inl Panicked, s) | (_, s) \<Rightarrow> (Inr (), s))"
| "process_message env ops (MSessionStateTransfer off clean_start) s = (Inr (), transfer_session_state env clean_start off s)"
| "process_message env ops (MClosed r) s = (Inl (Raised r), s)"

section \<open>The last will\<close>

definition last_will_enable :: "state_flags \<Rightarrow> bool \<Rightarrow> bool" where
  "last_will_enable flags clean_session =
     (let session_present = fl_kicked flags \<and> \<not> fl_clean_start flags \<and> \<not> clean_session
      in \<not> (fl_disconnect_received flags \<or> session_present))"

definition will_delay_interval :: "'q session \<Rightarrow> u32 option" where
  "will_delay_interval s = Option.bind (ci_last_will (se_connect_info s)) lw_will_delay_interval"

text \<open>Errors are only logged by the callers.\<close>

definition process_last_will :: "session_env \<Rightarrow> 'q session \<Rightarrow> 'q session" where
  "process_last_will env s =
     (case ci_last_will (se_connect_info s) of
        None \<Rightarrow> s
      | Some lw \<Rightarrow>
          (let p = publish_from_last_will (ev_form_urlencoded env) (ev_now env) lw;
               from = \<lparr>from_typ = FromLastWill, from_id = se_id s\<rparr>;
               p = (case ev_message_publish env from p of Some q \<Rightarrow> q | None \<Rightarrow> p);
               expiry = (if ev_storage_enabled env \<or> (pub_retain (mp_inner p) \<and> ev_retain_enabled env)
                         then Some (ev_expiry_interval env p) else None)
           in snd (forwards env from p (ev_storage_enabled env) expiry s)))"

definition clean_session :: "session_env \<Rightarrow> broker_disconnect option \<Rightarrow> 'q session \<Rightarrow> bool" where
  "clean_session env d s =
     (case se_connect_info s of
        CI_V3 _ c \<Rightarrow> c3_clean_session c
      | CI_V5 _ _ \<Rightarrow> ev_session_expiry_interval env d = 0)"

definition end_last_will :: "session_env \<Rightarrow> bool \<Rightarrow> 'q session \<Rightarrow> u32 option \<times> 'q session" where
  "end_last_will env clean s =
     (if last_will_enable (se_flags s) clean then
        (let w = will_delay_interval s
         in if clean \<or> w = None then (None, process_last_will env s) else (w, s))
      else (None, s))"

section \<open>The end of the connection\<close>

fun drop_window :: "nat \<Rightarrow> 'q deque_ops \<Rightarrow> reason \<Rightarrow> 'q session \<Rightarrow> 'q session" where
  "drop_window 0 ops r s = s"
| "drop_window (Suc n) ops r s =
     (case oi_pop_front ops (se_out s, se_out_stat s) of
        (None, w, st) \<Rightarrow> s\<lparr>se_out := w, se_out_stat := st\<rparr>
      | (Some m, w, st) \<Rightarrow>
          drop_window n ops r (message_dropped (om_from m) (om_publish m) r (s\<lparr>se_out := w, se_out_stat := st\<rparr>)))"

definition clean :: "'q deque_ops \<Rightarrow> reason \<Rightarrow> 'q session \<Rightarrow> 'q session" where
  "clean ops r s =
     (case queue_drain (Suc (queue_len (se_queue s))) (se_queue s) of
        (msgs, q) \<Rightarrow>
          (let s = fold (\<lambda>(from, p). message_dropped from p r) msgs (s\<lparr>se_queue := q\<rparr>);
               s = drop_window (Suc (oi_len ops (se_out s))) ops r s
           in if entry_id_same (se_id s) (se_broker s) = Some True
              then s\<lparr>se_broker := snd (entry_remove_with True (se_id s) (se_id s) (se_broker s))\<rparr>
              else s))"

definition reason_of :: "disconnect_info \<Rightarrow> reason" where
  "reason_of i = R_Reasons (din_reasons i)"

definition add_reason :: "reason \<Rightarrow> 'q session \<Rightarrow> 'q session" where
  "add_reason r s = s\<lparr>se_disconnect_info := (se_disconnect_info s)\<lparr>din_reasons := din_reasons (se_disconnect_info s) @ [r]\<rparr>\<rparr>"

text \<open>
  \<open>disconnected_reason_take\<close> empties the list of reasons; \<open>clean\<close> gets the reasons that were in it.
\<close>

definition clean_taking :: "'q deque_ops \<Rightarrow> 'q session \<Rightarrow> 'q session" where
  "clean_taking ops s =
     clean ops (reason_of (se_disconnect_info s))
       (s\<lparr>se_disconnect_info := (se_disconnect_info s)\<lparr>din_reasons := []\<rparr>\<rparr>)"

text \<open>How \<open>run\<close> continues: it ends, or goes offline with a delay for the last will and an expiry interval.\<close>

datatype exit = ExitDone | ExitOffline "u32 option" nat

text \<open>The DISCONNECT for a v5 client; the text of the reason is a parameter.\<close>

definition final_disconnect :: "(reason \<Rightarrow> string) \<Rightarrow> reason \<Rightarrow> disconnect" where
  "final_disconnect reason_text r =
     (case r of
        R_ConnectDisconnect (Some (D_V5 d)) \<Rightarrow> d
      | _ \<Rightarrow> disconnect_default\<lparr>di_reason_code := reason_to_reason_code r, di_reason_string := Some (text_bytes (reason_text r))\<rparr>)"

definition end_reason :: "'q session \<Rightarrow> reason \<times> 'q session" where
  "end_reason s =
     (if din_reasons (se_disconnect_info s) \<noteq> [] then (reason_of (se_disconnect_info s), s)
      else (R_ConnectRemoteClose, add_reason R_ConnectRemoteClose s))"

definition run_exit :: "session_env \<Rightarrow> 'q deque_ops \<Rightarrow> (reason \<Rightarrow> string) \<Rightarrow> reason \<Rightarrow> 'q session \<Rightarrow> exit \<times> 'q session" where
  "run_exit env ops reason_text r s =
     (let s = add_reason r s;
          d = din_mqtt_disconnect (se_disconnect_info s);
          clean_ses = clean_session env d s;
          s = s\<lparr>se_disconnect_info := disconnected_set (ev_now env) None None (se_disconnect_info s)\<rparr>;
          (will, s) = end_last_will env clean_ses s;
          (why, s) = end_reason s;
          s = (case se_version s of
                 SinkV5 \<Rightarrow> snd (sink_send env (MP_V5 (P5_Disconnect (final_disconnect reason_text why))) s)
               | SinkV3 \<Rightarrow> s)
      in if fl_kicked (se_flags s) then
           (ExitDone, if fl_by_admin_kick (se_flags s) then clean_taking ops s else s)
         else if clean_ses then (ExitDone, clean_taking ops s)
         else (ExitOffline will (ev_session_expiry_interval env d), s))"

section \<open>Offline\<close>

text \<open>The messages that wait behind a kick: publications up to the first other message, which is consumed.\<close>

fun drain_forwards :: "message list \<Rightarrow> 'q session \<Rightarrow> 'q session \<times> message list" where
  "drain_forwards [] s = (s, [])"
| "drain_forwards (MForward from p # ms) s = drain_forwards ms (enqueue from p s)"
| "drain_forwards (_ # ms) s = (s, ms)"

datatype offline_event = OffMessage message "message list" | OffExpired | OffWillDelay

text \<open>One turn of \<open>offline_run_loop\<close>: whether it goes on, the pending delay of the will, and the state. \<open>OffMessage\<close>
  carries the messages still waiting in the channel.\<close>

fun offline_step :: "session_env \<Rightarrow> offline_event \<Rightarrow> u32 option \<times> 'q session \<Rightarrow> bool \<times> u32 option \<times> 'q session" where
  "offline_step env (OffMessage (MForward from p) rest) (w, s) = (True, w, enqueue from p s)"
| "offline_step env (OffMessage (MKick by_id clean_start is_admin) rest) (w, s) =
     (if ev_reply_open env then (False, w, kicked clean_start is_admin (fst (drain_forwards rest s))) else (True, w, s))"
| "offline_step env (OffMessage _ rest) (w, s) = (True, w, s)"
| "offline_step env OffExpired (w, s) = (False, w, if w \<noteq> None then process_last_will env s else s)"
| "offline_step env OffWillDelay (w, s) = (True, None, if w \<noteq> None then process_last_will env s else s)"

end
