(* ===== verification/Session_Agreement.thy ===== *)
theory Session_Agreement
  imports Session_Protocol
begin

text \<open>
  The handlers of a session and the shared state of the node (\<open>ferromq/src/session.rs\<close>, \<open>shared.rs\<close>, \<open>router.rs\<close>):
  whatever packets a client sends, and whatever the results, the router stays in agreement with the tables of
  the sessions and the session keeps its entry.
\<close>

section \<open>Forwarding keeps the tables\<close>

lemma forwards_to_keys:
  "distinct (map fst peers) \<Longrightarrow> distinct (map fst (snd (snd (forwards_to now from p rels peers))))"
proof (induction rels arbitrary: peers)
  case (Cons a rels)
  obtain tf c opts sub_ids grp where a: "a = (tf, c, opts, sub_ids, grp)" by (cases a)
  show ?case using Cons.IH [OF Cons.prems] Cons.IH [OF distinct_update [OF Cons.prems]]
    by (auto simp: a Let_def split: option.splits prod.splits bool.splits) (metis snd_conv)+
qed simp

lemma shared_forwards_broker:
  "\<exists>rels. snd (shared_forwards now on ch from p b) = b\<lparr>br_peers := snd (snd (forwards_to now from p rels (br_peers b)))\<rparr>"
proof (cases "mp_target_clientid p")
  case (Some target)
  let ?rels = "[(text_of (pub_topic (mp_inner p)), target, opt_set_qos (pub_qos (mp_inner p)) so_default, None, None)]"
  show ?thesis unfolding shared_forwards_def Some
    by (rule exI [of _ ?rels], cases "forwards_to now from p ?rels (br_peers b)") (simp add: Let_def)
next
  case None
  show ?thesis
  proof (cases "map_of (case router_matches on ch (from_id from) (text_of (pub_topic (mp_inner p))) (br_router b) of
                    Inr m \<Rightarrow> m | Inl _ \<Rightarrow> []) (br_node_id b)")
    case (Some rels)
    then show ?thesis unfolding shared_forwards_def
      by (intro exI [of _ rels], cases "forwards_to now from p rels (br_peers b)") (simp add: \<open>mp_target_clientid p = None\<close> Let_def)
  qed (simp add: shared_forwards_def \<open>mp_target_clientid p = None\<close> Let_def, intro exI [of _ "[]"], simp)
qed

lemma received_by_same [simp]: "pe_id (received_by ms pe) = pe_id pe" "pe_subs (received_by ms pe) = pe_subs pe"
  by (simp_all add: received_by_def)

lemma forwarded_peers_agree:
  assumes "broker_agrees b" and peers: "\<And>c. map_of peers c = map_option (received_by (ms c)) (map_of (br_peers b) c)"
    and "distinct (map fst peers)"
  shows "broker_agrees (b\<lparr>br_peers := peers\<rparr>)"
proof -
  have "session_entry (b\<lparr>br_peers := peers\<rparr>) tf c = session_entry b tf c" for tf c
    by (cases "map_of (br_peers b) c") (simp_all add: session_entry_def peers)
  then show ?thesis using assms by (auto simp: broker_agrees_def fun_eq_iff)
qed

lemma shared_forwards_agrees: "broker_agrees b \<Longrightarrow> broker_agrees (snd (shared_forwards now on ch from p b))"
proof -
  assume ag: "broker_agrees b"
  obtain rels where rels: "snd (shared_forwards now on ch from p b)
      = b\<lparr>br_peers := snd (snd (forwards_to now from p rels (br_peers b)))\<rparr>"
    using shared_forwards_broker by blast
  show ?thesis unfolding rels
    using forwarded_peers_agree [OF ag forwards_to_peers forwards_to_keys] ag by (simp add: broker_agrees_def)
qed

lemma shared_forwards_peer:
  "map_of (br_peers b) c = Some pe \<Longrightarrow> \<exists>pe'. map_of (br_peers (snd (shared_forwards now on ch from p b))) c = Some pe' \<and> pe_id pe' = pe_id pe"
  using shared_forwards_broker [of now on ch "from" p b] by (auto simp: forwards_to_peers)

section \<open>The invariant\<close>

definition owns_entry :: "ident \<Rightarrow> broker \<Rightarrow> bool" where
  "owns_entry i b \<longleftrightarrow> (\<exists>pe. map_of (br_peers b) (id_client_id i) = Some pe \<and> pe_id pe = i)"

definition session_agrees :: "'q session \<Rightarrow> bool" where
  "session_agrees s \<longleftrightarrow> broker_agrees (se_broker s) \<and> owns_entry (se_id s) (se_broker s)"

interpretation agreeing: packet_invariant session_agrees
proof unfold_locales
  fix s :: "'q session" and now on ch fr p res b f
  assume ag: "session_agrees s" and fw: "shared_forwards now on ch fr p (se_broker s) = (res, b)"
  have b: "b = snd (shared_forwards now on ch fr p (se_broker s))" by (simp add: fw)
  show "session_agrees (s\<lparr>se_broker := b, se_forwarded := f\<rparr>)"
    using ag shared_forwards_agrees shared_forwards_peer unfolding b session_agrees_def owns_entry_def
    by (auto simp: shared_forwards_agrees) (metis shared_forwards_peer)
qed (simp_all add: session_agrees_def)

lemma entry_subscribe_own: "owns_entry i b \<Longrightarrow> owns_entry i (snd (entry_subscribe i sub b))"
  by (auto simp: owns_entry_def entry_subscribe_def Let_def update_conv' split: option.splits sum.splits prod.splits)

lemma entry_unsubscribe_own: "owns_entry i b \<Longrightarrow> owns_entry i (snd (entry_unsubscribe i unsub b))"
  by (auto simp: owns_entry_def entry_unsubscribe_def Let_def update_conv' split: option.splits prod.splits)

lemma enter_subscription_agrees: "session_agrees s \<Longrightarrow> session_agrees (snd (enter_subscription sub s))"
  using entry_subscribe_agrees [of "se_broker s" "se_id s" _ sub] entry_subscribe_own [of "se_id s" "se_broker s" sub]
  by (cases "entry_subscribe (se_id s) sub (se_broker s)")
    (auto simp: enter_subscription_def session_agrees_def owns_entry_def split: sum.splits)

lemma session_subscribe_agrees: "session_agrees s \<Longrightarrow> session_agrees (snd (session_subscribe env sub s))"
  by (simp add: session_subscribe_def Let_def enter_subscription_agrees split: option.splits)

lemma session_unsubscribe_agrees: "session_agrees s \<Longrightarrow> session_agrees (snd (session_unsubscribe env unsub s))"
proof -
  assume ag: "session_agrees s"
  let ?u = "case ev_client_unsubscribe env unsub of Some tf \<Rightarrow> unsub\<lparr>bu_topic_filter := tf\<rparr> | None \<Rightarrow> unsub"
  obtain r b where r: "entry_unsubscribe (se_id s) ?u (se_broker s) = (r, b)" by fastforce
  then have "session_agrees (s\<lparr>se_broker := b\<rparr>)"
    using ag entry_unsubscribe_agrees [of "se_broker s" "se_id s" _ ?u] entry_unsubscribe_own [of "se_id s" "se_broker s" ?u]
    by (auto simp: session_agrees_def owns_entry_def)
  with r show ?thesis by (cases r) (simp_all add: session_unsubscribe_def)
qed

lemma subscribes_agrees: "session_agrees s \<Longrightarrow> session_agrees (snd (subscribes env parse code failed fs s))"
proof (induction fs arbitrary: s)
  case (Cons f fs)
  show ?case
  proof (cases "parse f")
    case (Inr sub)
    obtain r s1 where r: "session_subscribe env sub s = (r, s1)" by fastforce
    then have "session_agrees s1" using session_subscribe_agrees [OF Cons.prems, of env sub] by simp
    from Cons.IH [OF this] this show ?thesis using Inr r by (auto split: sum.splits fault.splits prod.splits)
  qed (use Cons.prems in simp)
qed simp

lemma unsubscribes_agrees: "session_agrees s \<Longrightarrow> session_agrees (snd (unsubscribes env fs s))"
proof (induction fs arbitrary: s)
  case (Cons f fs)
  show ?case
  proof (cases "unsubscribe_from (text_of f) (ev_shared_supported env) (lc_limit_subscription (ev_cfg env))")
    case (Inr unsub)
    obtain r s1 where r: "session_unsubscribe env unsub s = (r, s1)" by fastforce
    then have "session_agrees s1" using session_unsubscribe_agrees [OF Cons.prems, of env unsub] by simp
    from Cons.IH [OF this] this show ?thesis using Inr r by (auto split: sum.splits)
  qed (use Cons.prems in simp)
qed simp

lemma subscription_packets_agree:
  "session_agrees s \<Longrightarrow> session_agrees (snd (subscribes_v3 env tfs s))"
  "session_agrees s \<Longrightarrow> session_agrees (snd (subscribes_v5 env subs s))"
  "session_agrees s \<Longrightarrow> session_agrees (snd (unsubscribes_v5 env unsubs s))"
  by (simp_all add: subscribes_v3_def subscribes_v5_def unsubscribes_v5_def case_prod_beta subscribes_agrees unsubscribes_agrees)

lemma with_reason_state: "snd (with_reason env mk r) = snd r"
  by (cases r; cases "fst r") (auto simp: with_reason_def split: fault.splits)

lemma send_agrees [preserving]: "preserves session_agrees (send_v3 env pkt)" "preserves session_agrees (send_v5 env pkt')"
  using agreeing.sink_send by (auto simp: preserves_def send_v3_def send_v5_def split: sink_version.splits)

lemma subscription_packet_agrees:
  assumes "\<And>s. session_agrees s \<Longrightarrow> session_agrees (snd (h s))" and "\<And>x. preserves session_agrees (send x)"
  shows "preserves session_agrees (handler_bind (\<lambda>s. with_reason env mk (h s)) send)"
  using assms by (intro preserves_bind) (simp_all add: preserves_def with_reason_state)

lemma session_agrees_updates [simp]:
  "session_agrees (s\<lparr>se_flags := f\<rparr>) = session_agrees s" "session_agrees (s\<lparr>se_out := w\<rparr>) = session_agrees s"
  "session_agrees (s\<lparr>se_out_stat := st\<rparr>) = session_agrees s" "session_agrees (s\<lparr>se_acked := a\<rparr>) = session_agrees s"
  "session_agrees (s\<lparr>se_disconnect_info := d\<rparr>) = session_agrees s"
  by (simp_all add: session_agrees_def)

lemma other_agrees:
  "session_agrees s \<Longrightarrow> session_agrees (in_remove pid s)" "session_agrees s \<Longrightarrow> session_agrees (out_received env ops pid s)"
  "session_agrees s \<Longrightarrow> session_agrees (out_acked ops pid s)" "session_agrees s \<Longrightarrow> session_agrees (disconnect_received env d s)"
  "preserves session_agrees (\<lambda>s. (Inr (), pinged s))"
  by (auto simp: agreeing.in_remove out_received_def out_acked_def disconnect_received_def preserves_def pinged_def Let_def
      split: prod.splits option.splits)

lemma preserved: "preserves P h \<Longrightarrow> P s \<Longrightarrow> P (snd (h s))"
  by (simp add: preserves_def)

lemmas packet_agrees = other_agrees(1-4) agreeing.process_publish [THEN preserved] send_agrees [THEN preserved]
  subscription_packet_agrees [THEN preserved, OF subscription_packets_agree(1) send_agrees(1)]
  subscription_packet_agrees [THEN preserved, OF subscription_packets_agree(2) send_agrees(2)]
  subscription_packet_agrees [THEN preserved, OF unsubscribes_agrees send_agrees(1)]
  subscription_packet_agrees [THEN preserved, OF subscription_packets_agree(3) send_agrees(2)]
  preserves_bind [THEN preserved, OF send_agrees(1) other_agrees(5)]
  preserves_bind [THEN preserved, OF send_agrees(2) other_agrees(5)]

lemma process_packet_agrees: "preserves session_agrees (process_packet env ops pkt)"
  unfolding preserves_def
proof (intro allI impI)
  fix s :: "'a session" assume ag: "session_agrees s"
  show "session_agrees (snd (process_packet env ops pkt s))"
  proof (cases pkt)
    case (MP_V3 p)
    then show ?thesis using ag by (cases p) (simp_all add: go_on_def packet_agrees)
  next
    case (MP_V5 p)
    then show ?thesis using ag by (cases p) (simp_all add: go_on_def packet_agrees)
  qed (use ag in simp)
qed

lemma process_message_agrees: "preserves session_agrees (process_mqtt_message env ops pkt)"
  unfolding process_mqtt_message_def
  by (intro preserves_bind process_packet_agrees) (simp add: preserves_def)

section \<open>Properties\<close>

text \<open>C9: Whatever packets a client sends, in whatever environments and with whatever results, errors included, the
  router of the node stays in agreement with the subscription tables of the sessions, its own invariant included, and the
  session keeps its entry.\<close>

theorem session_agreement_kept:
  assumes "session_agrees s"
  shows "session_agrees (fold (\<lambda>(env, pkt) s. snd (process_mqtt_message env ops pkt s)) evs s)"
  using assms
  by (induction evs arbitrary: s) (auto simp: process_message_agrees [THEN preserved])

theorem session_agreement_kept_witness:
  "session_agrees (snd (process_mqtt_message ex_env list_deque (MP_V3 (P3_Subscribe 1 [(text_bytes ''a'', AtLeastOnce)])) ex_session))"
proof -
  have "session_agrees ex_session"
    using ex_broker_agrees by (simp add: session_agrees_def owns_entry_def ex_session_def ex_broker_def ex_peer_def)
  from session_agreement_kept [OF this, of list_deque "[(ex_env, MP_V3 (P3_Subscribe 1 [(text_bytes ''a'', AtLeastOnce)]))]"]
  show ?thesis by simp
qed

end
