(* ===== verification/Session_Delivery.thy ===== *)
theory Session_Delivery
  imports Session_Life Session_Agreement "HOL-Library.Multiset"
begin

text \<open>
  Delivery to the client and the life of a session (\<open>ferromq/src/session.rs\<close>): a delivered message is tracked until it
  is acknowledged, a session that is taken over hands every unexpired message to its successor, the retransmission of timed
  out messages ends, and the last will is published at most once.
\<close>

section \<open>Delivery\<close>

definition with_id :: "u16 \<Rightarrow> msg_publish \<Rightarrow> msg_publish" where
  "with_id pid p = p\<lparr>mp_inner := (mp_inner p)\<lparr>pub_packet_id := Some pid\<rparr>\<rparr>"

definition aliases_ok :: "server_aliases option \<Rightarrow> bool" where
  "aliases_ok al \<longleftrightarrow> (case al of Some a \<Rightarrow> sal_max a \<le> 65535 | None \<Rightarrow> True)"

lemma server_alias_total: "sal_max a \<le> 65535 \<Longrightarrow> \<exists>r a'. server_alias_get t a = Some (r, a')"
proof -
  assume mx: "sal_max a \<le> 65535"
  have "(word_of_nat (length (sal_map a) + 1) :: u16) \<noteq> 0" if "length (sal_map a) < sal_max a"
  proof -
    have "unat (word_of_nat (length (sal_map a) + 1) :: u16) = length (sal_map a) + 1"
      using that mx unfolding unat_of_nat by simp
    then show ?thesis by (metis Suc_eq_plus1 nat.distinct(1) unat_0)
  qed
  then show ?thesis by (auto simp: server_alias_get_def Let_def split: option.splits)
qed

lemma sink_publish_total:
  assumes "aliases_ok al"
  shows "\<exists>q al'. sink_publish v p iv al = Some (q, al') \<and> pub_packet_id q = pub_packet_id (mp_inner p) \<and>
    pub_qos q = pub_qos (mp_inner p) \<and> pub_payload q = pub_payload (mp_inner p)"
proof (cases v)
  case SinkV5
  show ?thesis
  proof (cases al)
    case None
    then show ?thesis by (cases "pub_properties (mp_inner p)") (simp_all add: SinkV5 sink_publish_def Let_def)
  next
    case (Some a)
    then obtain topic alias' a' where "server_alias_get (pub_topic (mp_inner p)) a = Some ((topic, alias'), a')"
      using assms server_alias_total [of a "pub_topic (mp_inner p)"] by (auto simp: aliases_ok_def)
    with Some show ?thesis by (cases "pub_properties (mp_inner p)") (simp_all add: SinkV5 sink_publish_def Let_def)
  qed
qed (simp add: sink_publish_def)

lemma out_push_fresh:
  assumes "deque_laws ops" and "pub_packet_id (mp_inner (om_publish m)) = Some pid" and "window ops s pid = None"
  shows "window ops (out_push ops m s) = (window ops s)(pid \<mapsto> m) \<and> se_sent (out_push ops m s) = se_sent s"
proof -
  obtain old q where ins: "dq_insert ops pid m (oi_queues (se_out s)) = (old, q)" by fastforce
  with deque_insert(2) [OF assms(1), of pid m "oi_queues (se_out s)"] assms(2) show ?thesis
    by (simp add: out_push_def oi_push_back_def window_def Let_def)
qed

text \<open>The publication after the \<open>message_delivered\<close> hook, which may replace it.\<close>

definition hooked :: "session_env \<Rightarrow> msg_from \<Rightarrow> msg_publish \<Rightarrow> msg_publish" where
  "hooked env from p = (case ev_message_delivered env from p of Some q \<Rightarrow> q | None \<Rightarrow> p)"

text \<open>A hook that leaves the packet identifier and the QoS as they are.\<close>

definition hook_keeps_id :: "session_env \<Rightarrow> bool" where
  "hook_keeps_id env \<longleftrightarrow> (\<forall>from p. pub_packet_id (mp_inner (hooked env from p)) = pub_packet_id (mp_inner p) \<and>
     pub_qos (mp_inner (hooked env from p)) = pub_qos (mp_inner p))"

lemma assign_id_fresh:
  assumes laws: "deque_laws ops" and room: "oi_len ops (se_out s) < 65534"
    and new: "moment_of (pub_qos (mp_inner p)) = Some status" "pub_dup (mp_inner p) \<longrightarrow> pub_packet_id (mp_inner p) = None"
  obtains pid w where "assign_id ops p s = (Inr (with_id pid p), s\<lparr>se_out := w\<rparr>)" and "pid \<noteq> 0"
    and "window ops s pid = None" and "window ops (s\<lparr>se_out := w\<rparr>) = window ops s"
proof -
  obtain pid w where pid: "oi_next_id ops (se_out s) = (Some pid, w)" using next_id_found [OF laws room] by blast
  then have free: "id_free ops (se_out s) pid" and w: "w = (se_out s)\<lparr>oi_next := pid + 1\<rparr>"
    using next_id_loop_Some unfolding oi_next_id_def by blast+
  show thesis
  proof
    show "assign_id ops p s = (Inr (with_id pid p), s\<lparr>se_out := w\<rparr>)"
      using new pid free by (auto simp: assign_id_def moment_of_def with_id_def id_free_def split: qos.splits)
  qed (use free laws in \<open>simp_all add: id_free_def window_def w map_of_eq_None_iff\<close>)
qed

section \<open>Properties of delivery\<close>

text \<open>C10: A delivered message is tracked. Let fewer than 65534 messages be in flight, let the message have QoS 1 or 2 and
  either no duplicate flag or no identifier, let the \<open>message_delivered\<close> hook (which may replace the message) keep the
  identifier and the QoS, and let the limit of the topic aliases be a u16. An expired message is reported as dropped; nothing
  is written and the window stays as it is. Any other message gets an identifier that is not zero and belongs to no message
  in flight. If writing it to the client succeeds, the window gains exactly this message, waiting for PUBACK or PUBREC, and
  nothing in flight is replaced; if writing fails, the error is returned and the window stays as it is.\<close>

theorem delivered_message_tracked:
  assumes laws: "deque_laws ops" and room: "oi_len ops (se_out s) < 65534"
    and new: "moment_of (pub_qos (mp_inner p)) = Some status" "pub_dup (mp_inner p) \<longrightarrow> pub_packet_id (mp_inner p) = None"
    and hook: "hook_keeps_id env" and al: "aliases_ok (se_server_aliases s)"
  shows "if is_expiry (ev_expiry_check env from p)
    then \<exists>s'. deliver env ops from p s = (Inr (), s') \<and> window ops s' = window ops s \<and> se_sent s' = se_sent s \<and>
           se_dropped s' = se_dropped s @ [(from, p, R_MessageExpiration)]
    else \<exists>pid q s'. pid \<noteq> 0 \<and> window ops s pid = None \<and> pub_packet_id q = Some pid \<and> pub_qos q = pub_qos (mp_inner p) \<and>
           pub_payload q = pub_payload (mp_inner (hooked env from (with_id pid p))) \<and>
           (case ev_send env (publish_packet (se_version s) q) of
              None \<Rightarrow> deliver env ops from p s = (Inr (), s') \<and> se_sent s' = se_sent s @ [publish_packet (se_version s) q] \<and>
                window ops s' = (window ops s)(pid \<mapsto> om_new (ev_now env) status from (hooked env from (with_id pid p)))
            | Some r \<Rightarrow> deliver env ops from p s = (Inl (Raised r), s') \<and> se_sent s' = se_sent s \<and>
                window ops s' = window ops s)"
proof (cases "is_expiry (ev_expiry_check env from p)")
  case True
  then show ?thesis by (simp add: deliver_def message_dropped_def window_def)
next
  case False
  let ?iv = "ec_message_expiry_interval (ev_expiry_check env from p)"
  obtain pid w where assign: "assign_id ops p s = (Inr (with_id pid p), s\<lparr>se_out := w\<rparr>)" and pid: "pid \<noteq> 0"
    and win: "window ops s pid = None" "window ops (s\<lparr>se_out := w\<rparr>) = window ops s"
    using assign_id_fresh [OF laws room new] by blast
  define h where "h = hooked env from (with_id pid p)"
  have h: "pub_packet_id (mp_inner h) = Some pid" "pub_qos (mp_inner h) = pub_qos (mp_inner p)"
    using hook by (simp_all add: hook_keeps_id_def h_def with_id_def)
  obtain q al' where q: "sink_publish (se_version s) h ?iv (se_server_aliases s) = Some (q, al')"
    and fields: "pub_packet_id q = Some pid" "pub_qos q = pub_qos (mp_inner p)" "pub_payload q = pub_payload (mp_inner h)"
    using sink_publish_total [OF al, of "se_version s" h ?iv] h by auto
  let ?s2 = "s\<lparr>se_out := w, se_server_aliases := al'\<rparr>" and ?m = "om_new (ev_now env) status from h"
  let ?s3 = "?s2\<lparr>se_sent := se_sent s @ [publish_packet (se_version s) q]\<rparr>"
  have same: "window ops ?s2 = window ops s" "window ops ?s3 = window ops s" using win(2) by (simp_all add: window_def)
  have push: "window ops (out_push ops ?m ?s3) = (window ops s)(pid \<mapsto> ?m) \<and> se_sent (out_push ops ?m ?s3) = se_sent ?s3"
    using out_push_fresh [OF laws, of ?m pid ?s3] win same h by (simp add: om_new_def)
  have "deliver env ops from p s = (case ev_send env (publish_packet (se_version s) q) of
      None \<Rightarrow> (Inr (), out_push ops ?m ?s3) | Some r \<Rightarrow> (Inl (Raised r), ?s2))"
    using False assign q new h
    by (simp add: deliver_def Let_def hooked_def [symmetric] handler_bind_def sink_deliver_def sink_send_def h_def split: option.splits)
  with push same win pid fields False show ?thesis
    by (cases "ev_send env (publish_packet (se_version s) q)") (auto simp: h_def intro!: exI [of _ pid] exI [of _ q])
qed

definition ex_pub1 :: msg_publish where
  "ex_pub1 = mp_from \<lparr>pub_dup = False, pub_retain = False, pub_qos = AtLeastOnce,
     pub_topic = text_bytes ''a'', pub_packet_id = None, pub_payload = [1], pub_properties = None\<rparr>"

theorem delivered_message_tracked_witness:
  "\<exists>s' pid. deliver ex_env list_deque (from_custom (ex_ident ''p'')) ex_pub1 ex_session = (Inr (), s') \<and> se_sent s' \<noteq> [] \<and>
    window list_deque s' pid \<noteq> None"
proof -
  let ?from = "from_custom (ex_ident ''p'')"
  have new: "moment_of (pub_qos (mp_inner ex_pub1)) = Some UnAck" "pub_dup (mp_inner ex_pub1) \<longrightarrow> pub_packet_id (mp_inner ex_pub1) = None"
    by (simp_all add: ex_pub1_def mp_from_def mp_new_def moment_of_def)
  have room: "oi_len list_deque (se_out ex_session) < 65534" by (simp add: ex_session_def ex_out_empty)
  have hook: "hook_keeps_id ex_env" and al: "aliases_ok (se_server_aliases ex_session)"
    by (simp_all add: hook_keeps_id_def hooked_def ex_env_def ex_session_def aliases_ok_def)
  have env: "\<not> is_expiry (ev_expiry_check ex_env ?from ex_pub1)" "\<And>pkt. ev_send ex_env pkt = None" by (simp_all add: ex_env_def)
  show ?thesis using delivered_message_tracked [OF list_deque_laws room new hook al, of ?from] env by fastforce
qed

section \<open>Taking over\<close>

text \<open>What a message of the previous session becomes in the channel of the new one.\<close>

definition resent :: "session_env \<Rightarrow> out_inflight_message \<Rightarrow> message list" where
  "resent env m =
     (if om_status m = UnComplete
      then (if is_expiry (ev_expiry_check env (om_from m) (om_publish m)) then [] else [MSendRerelease m])
      else [MForward (om_from m) (set_dup (om_publish m))])"

lemma reforward_tx: "reforward env m s = s\<lparr>se_tx := se_tx s @ resent env m\<rparr>"
  by (cases "om_status m") (simp_all add: reforward_def resent_def own_forward_def)

lemma fold_reforward: "fold (reforward env) ms s = s\<lparr>se_tx := se_tx s @ concat (map (resent env) ms)\<rparr>"
  by (induction ms arbitrary: s) (simp_all add: reforward_tx)

lemma fold_own_forward: "fold (\<lambda>(from, p). own_forward from p) ps s = s\<lparr>se_tx := se_tx s @ map (\<lambda>(from, p). MForward from p) ps\<rparr>"
  by (induction ps arbitrary: s) (auto simp: own_forward_def)

lemma transfer_tx:
  "se_tx (transfer_session_state env clear off s) =
     se_tx s @ concat (map (resent env) (rev (of_inflight_messages off))) @ map (\<lambda>(from, p). MForward from p) (of_offline_messages off)"
  by (simp add: transfer_session_state_def Let_def fold_reforward fold_own_forward split: option.splits)

lemma queue_drain_all: "n > length (q_inner q) \<Longrightarrow> fst (queue_drain n q) = q_inner q \<and> q_inner (snd (queue_drain n q)) = []"
proof (induction n arbitrary: q)
  case (Suc n)
  show ?case
  proof (cases "q_inner q")
    case (Cons x xs)
    let ?q = "q\<lparr>q_inner := xs, q_events := q_events q @ (if q_on_pop q then [OnPop] else [])\<rparr>"
    have "fst (queue_drain n ?q) = xs \<and> q_inner (snd (queue_drain n ?q)) = []" using Suc.IH [of ?q] Suc.prems Cons by simp
    then show ?thesis using Cons by (cases "queue_drain n ?q") (simp add: queue_pop_def)
  qed (simp add: queue_pop_def)
qed simp

text \<open>What a message in flight owes the client: the PUBLISH again with the duplicate flag, or its PUBREL.\<close>

definition owed :: "out_inflight_message \<Rightarrow> message" where
  "owed m = (if om_status m = UnComplete then MSendRerelease m else MForward (om_from m) (set_dup (om_publish m)))"

definition unexpired :: "session_env \<Rightarrow> out_inflight_message \<Rightarrow> bool" where
  "unexpired env m \<longleftrightarrow> \<not> is_expiry (ev_expiry_check env (om_from m) (om_publish m))"

lemma resent_owed: "resent env m = (if om_status m = UnComplete \<and> \<not> unexpired env m then [] else [owed m])"
  by (simp add: resent_def owed_def unexpired_def)

lemma mset_subset_eq_add_mset: "A \<subseteq># add_mset x A"
  by (simp add: subseteq_mset_def)

lemma resent_mset:
  "mset (map owed (filter (unexpired env) ms)) \<subseteq># mset (concat (map (resent env) (rev ms)))"
  "mset (concat (map (resent env) (rev ms))) \<subseteq># mset (map owed ms)"
  by (induction ms) (auto simp: resent_owed intro: subset_mset.order_trans [OF _ mset_subset_eq_add_mset])

text \<open>C11: A session that is taken over loses no unexpired message. Collecting the state of the old session, whose client has an
  entry, succeeds and leaves its queue and its window empty. The new session finds in its channel the messages of the old
  window, followed by every queued message in order. Every message of the window that has not expired is there, to be repeated
  with the duplicate flag or, when the client has already confirmed its receipt, to be released again; nothing else comes
  from the window, and nothing comes twice. In which order the messages of the window come, and whether an expired one
  comes, is left open.\<close>

theorem takeover_loses_nothing:
  assumes laws: "deque_laws ops" and entry: "map_of (br_peers (se_broker old)) (id_client_id (se_id old)) = Some pe"
  shows "\<exists>off old' us. to_offline_info ops t old = Some (off, old') \<and>
    q_inner (se_queue old') = [] \<and> window ops old' = Map.empty \<and>
    se_tx (transfer_session_state env clear off new) =
      se_tx new @ us @ map (\<lambda>(from, p). MForward from p) (q_inner (se_queue old)) \<and>
    mset (map owed (filter (unexpired env) (clone_inflight_messages ops (se_out old)))) \<subseteq># mset us \<and>
    mset us \<subseteq># mset (map owed (clone_inflight_messages ops (se_out old)))"
proof -
  obtain drained subs st where d: "subs_drain (pe_subs pe, br_stats (se_broker old)) = (drained, subs, st)" by (metis prod_cases3)
  obtain msgs q where q: "queue_drain (Suc (queue_len (se_queue old))) (se_queue old) = (msgs, q)" by fastforce
  then have msgs: "msgs = q_inner (se_queue old)" and qe: "q_inner q = []"
    using queue_drain_all [of "se_queue old" "Suc (queue_len (se_queue old))"] by (simp_all add: queue_len_def)
  obtain w wst where w: "to_inflight_messages ops (se_out old, se_out_stat old) = Some (clone_inflight_messages ops (se_out old), w, wst)"
    and we: "dq_iter ops (oi_queues w) = []"
    using to_inflight_messages_total [OF laws, of "se_out old" "se_out_stat old"] by blast
  show ?thesis unfolding to_offline_info_def using entry d q w we qe msgs
    using resent_mset [of env "clone_inflight_messages ops (se_out old)"] by (simp add: transfer_tx window_def)
qed

text \<open>A session with a message that waits for its PUBCOMP and a queued message.\<close>

definition ex_waiting :: "(u16, out_inflight_message) alist session" where
  "ex_waiting = ex_session\<lparr>se_out := ex_over, se_queue := (queue_new 10)\<lparr>q_inner := [(from_custom (ex_ident ''p''), ex_pub1)]\<rparr>\<rparr>"

theorem takeover_loses_nothing_witness:
  "\<exists>off old'. to_offline_info list_deque 0 ex_waiting = Some (off, old') \<and>
    se_tx (transfer_session_state ex_env False off ex_session) =
      [MSendRerelease (om_new 0 UnComplete ex_from (ex_publish (Some 7))), MForward (from_custom (ex_ident ''p'')) ex_pub1]"
proof -
  have entry: "map_of (br_peers (se_broker ex_waiting)) (id_client_id (se_id ex_waiting)) = Some (ex_peer ''s'')"
    by (simp add: ex_waiting_def ex_session_def ex_broker_def)
  have out: "clone_inflight_messages list_deque (se_out ex_waiting) = [om_new 0 UnComplete ex_from (ex_publish (Some 7))]"
    by (simp add: ex_waiting_def ex_over_def clone_inflight_messages_def oi_push_back_def oi_new_def om_new_def ex_publish_def
        mp_from_def mp_new_def Let_def list_deque_def update.rep_eq empty.rep_eq)
  have queue: "q_inner (se_queue ex_waiting) = [(from_custom (ex_ident ''p''), ex_pub1)]" and tx: "se_tx ex_session = []"
    and env: "\<And>m. unexpired ex_env m" by (simp_all add: ex_waiting_def ex_session_def unexpired_def ex_env_def)
  obtain off old' us where off: "to_offline_info list_deque 0 ex_waiting = Some (off, old')"
    and chan: "se_tx (transfer_session_state ex_env False off ex_session) =
        us @ [MForward (from_custom (ex_ident ''p'')) ex_pub1]"
    and us: "mset us = {#owed (om_new 0 UnComplete ex_from (ex_publish (Some 7)))#}"
    using takeover_loses_nothing [OF list_deque_laws entry, of 0 ex_env False ex_session] out queue tx env
    by (auto dest: subset_mset.antisym)
  from us have "us = [owed (om_new 0 UnComplete ex_from (ex_publish (Some 7)))]" by simp
  with off chan show ?thesis by (simp add: owed_def om_new_def)
qed

section \<open>Retransmission\<close>

lemma front_timeout_Cons:
  assumes "deque_laws ops" and "oi_front_timeout ops now w"
  obtains k m rest where "dq_iter ops (oi_queues w) = (k, m) # rest" and "om_timeout now (oi_interval w) m"
  using assms by (cases "dq_iter ops (oi_queues w)") (auto simp: oi_front_timeout_def split: if_splits)

lemma resend_timeouts_total:
  assumes laws: "deque_laws ops"
  shows "\<exists>ms s'. resend_timeouts env ops s = Some s' \<and>
    clone_inflight_messages ops (se_out s) = ms @ clone_inflight_messages ops (se_out s') \<and>
    (\<forall>m\<in>set ms. om_timeout (ev_now env) (oi_interval (se_out s)) m) \<and> \<not> oi_front_timeout ops (ev_now env) (se_out s') \<and>
    se_tx s' = se_tx s @ concat (map (resent env) ms)"
proof (induction "length (dq_iter ops (oi_queues (se_out s)))" arbitrary: s rule: less_induct)
  case less
  show ?case
  proof (cases "oi_front_timeout ops (ev_now env) (se_out s)")
    case False
    then show ?thesis by (subst resend_timeouts.simps) (auto simp: oi_pop_front_timeout_def intro!: exI [of _ "[]"])
  next
    case True
    then obtain k m rest where it: "dq_iter ops (oi_queues (se_out s)) = (k, m) # rest"
      and m: "om_timeout (ev_now env) (oi_interval (se_out s)) m"
      using front_timeout_Cons [OF laws True] by blast
    obtain q where pop: "dq_pop_front ops (oi_queues (se_out s)) = (Some (k, m), q)" and q: "dq_iter ops q = rest"
      using deque_pop_front [OF laws, of "oi_queues (se_out s)"] it by (cases "dq_pop_front ops (oi_queues (se_out s))") simp
    let ?s1 = "s\<lparr>se_out := (se_out s)\<lparr>oi_queues := q\<rparr>, se_out_stat := call_hook (oi_on_pop_fn (se_out s)) (se_out_stat s)\<rparr>"
    let ?s2 = "reforward env m ?s1"
    have step: "resend_timeouts env ops s = resend_timeouts env ops ?s2"
      by (subst resend_timeouts.simps) (simp add: oi_pop_front_timeout_def True oi_pop_front_def pop)
    have "length (dq_iter ops (oi_queues (se_out ?s2))) < length (dq_iter ops (oi_queues (se_out s)))"
      by (simp add: reforward_tx q it)
    from less [OF this] obtain ms s' where rec: "resend_timeouts env ops ?s2 = Some s'"
      "clone_inflight_messages ops (se_out ?s2) = ms @ clone_inflight_messages ops (se_out s')"
      "\<forall>m\<in>set ms. om_timeout (ev_now env) (oi_interval (se_out ?s2)) m" "\<not> oi_front_timeout ops (ev_now env) (se_out s')"
      "se_tx s' = se_tx ?s2 @ concat (map (resent env) ms)" by blast
    with m step it q show ?thesis
      by (intro exI [of _ "m # ms"] exI [of _ s']) (simp add: reforward_tx clone_inflight_messages_def)
  qed
qed



section \<open>The last will\<close>

text \<open>At most one publication is forwarded, and its sender is \<open>fr\<close>.\<close>

definition forwards_at_most_once :: "msg_from \<Rightarrow> 'q session \<Rightarrow> 'q session \<Rightarrow> bool" where
  "forwards_at_most_once fr s s' \<longleftrightarrow> (\<exists>xs. se_forwarded s' = se_forwarded s @ xs \<and> length xs \<le> 1 \<and> (\<forall>x\<in>set xs. fst x = fr))"

lemma dropped_forwarded: "se_forwarded (fold (\<lambda>(to, fr, p, r). message_dropped fr p r) errs s) = se_forwarded s"
  by (induction errs arbitrary: s) (auto simp: message_dropped_def)

lemma inner_forwards_once: "forwards_at_most_once fr s (snd (inner_forwards env fr p s))"
  by (auto simp: forwards_at_most_once_def inner_forwards_def Let_def dropped_forwarded split: option.splits prod.splits sum.splits)

lemma forwards_once: "forwards_at_most_once fr s (snd (forwards env fr p storage expiry s))"
proof (cases "mp_delay_interval p")
  case None
  then show ?thesis using inner_forwards_once by (simp add: forwards_def)
next
  case (Some d)
  obtain r h where dp: "delay_publish (ev_delayed_max env) (ev_now env) fr p storage expiry (se_delayed s) = (r, h)" by (meson surj_pair)
  have r: "r = None \<or> r = Some (fr, p)" using dp by (cases "se_delayed s") (auto simp: delay_publish_def Let_def split: if_splits)
  have "forwards_at_most_once fr s (snd (inner_forwards env fr p (s\<lparr>se_delayed := h\<rparr>)))"
    using inner_forwards_once [of fr "s\<lparr>se_delayed := h\<rparr>" env p] by (simp add: forwards_at_most_once_def)
  then show ?thesis using r dp Some by (auto simp: forwards_def Let_def forwards_at_most_once_def message_dropped_def)
qed

abbreviation will_from :: "'q session \<Rightarrow> msg_from" where
  "will_from s \<equiv> \<lparr>from_typ = FromLastWill, from_id = se_id s\<rparr>"

lemma process_last_will_once: "forwards_at_most_once (will_from s) s (process_last_will env s)"
  using forwards_once by (auto simp: process_last_will_def Let_def forwards_at_most_once_def split: option.splits)

fun offline_run :: "(session_env \<times> offline_event) list \<Rightarrow> u32 option \<times> 'q session \<Rightarrow> u32 option \<times> 'q session" where
  "offline_run [] x = x"
| "offline_run ((env, ev) # evs) x = (case offline_step env ev x of (go, x') \<Rightarrow> if go then offline_run evs x' else x')"

lemma enqueue_forwarded [simp]: "se_forwarded (enqueue fr p s) = se_forwarded s" "se_id (enqueue fr p s) = se_id s"
  by (auto simp: enqueue_def message_dropped_def split: prod.splits sum.splits)

lemma drain_forwards_forwarded [simp]:
  "se_forwarded (fst (drain_forwards ms s)) = se_forwarded s" "se_id (fst (drain_forwards ms s)) = se_id s"
  by (induction ms s rule: drain_forwards.induct) simp_all

lemma kicked_forwarded [simp]: "se_forwarded (kicked c a s) = se_forwarded s" "se_id (kicked c a s) = se_id s"
  by (simp_all add: kicked_def)

lemma offline_step_None:
  "offline_step env ev (None, s) = (go, w', s') \<Longrightarrow> w' = None \<and> se_forwarded s' = se_forwarded s"
  by (cases "(env, ev, None :: u32 option, s)" rule: offline_step.cases) (auto split: if_splits)

lemma offline_run_None: "se_forwarded (snd (offline_run evs (None, s))) = se_forwarded s"
proof (induction evs arbitrary: s)
  case (Cons e evs)
  obtain env ev where e: "e = (env, ev)" by (cases e)
  obtain go w' s' where st: "offline_step env ev (None, s) = (go, w', s')" by (metis prod_cases3)
  with offline_step_None [OF st] Cons.IH show ?case by (simp add: e)
qed simp

lemma offline_step_once:
  assumes "offline_step env ev (w, s) = (go, w', s')"
  shows "(w' = w \<and> se_forwarded s' = se_forwarded s \<and> se_id s' = se_id s) \<or>
    ((\<not> go \<or> w' = None) \<and> forwards_at_most_once (will_from s) s s')"
  using assms process_last_will_once [of s env]
  by (cases "(env, ev, w, s)" rule: offline_step.cases) (auto simp: forwards_at_most_once_def split: if_splits)

lemma offline_run_once: "forwards_at_most_once (will_from s) s (snd (offline_run evs (w, s)))"
proof (induction evs arbitrary: w s)
  case (Cons e evs)
  obtain env ev where e: "e = (env, ev)" by (cases e)
  obtain go w' s' where st: "offline_step env ev (w, s) = (go, w', s')" by (metis prod_cases3)
  consider (same) "w' = w" "se_forwarded s' = se_forwarded s" "se_id s' = se_id s"
    | (will) "\<not> go \<or> w' = None" "forwards_at_most_once (will_from s) s s'"
    using offline_step_once [OF st] by blast
  then show ?case
  proof cases
    case same
    then show ?thesis using Cons.IH [of s' w] by (simp add: e st forwards_at_most_once_def)
  next
    case will
    then show ?thesis by (auto simp: e st forwards_at_most_once_def offline_run_None)
  qed
qed (simp add: forwards_at_most_once_def)

lemma end_last_will_cases:
  assumes "end_last_will env c s = (w, s')"
  shows "s' = s \<and> (fl_disconnect_received (se_flags s) \<longrightarrow> w = None) \<or>
    (w = None \<and> \<not> fl_disconnect_received (se_flags s) \<and> s' = process_last_will env s)"
  using assms by (auto simp: end_last_will_def last_will_enable_def Let_def split: if_splits)

lemma drop_window_forwarded [simp]: "se_forwarded (drop_window n ops r s) = se_forwarded s"
  by (induction n ops r s rule: drop_window.induct) (auto simp: message_dropped_def split: prod.splits option.splits)

lemma fold_dropped_forwarded [simp]: "se_forwarded (fold (\<lambda>(fr, p). message_dropped fr p r) msgs s) = se_forwarded s"
  by (induction msgs arbitrary: s) (auto simp: message_dropped_def)

lemma clean_forwarded [simp]: "se_forwarded (clean_taking ops s) = se_forwarded s"
  by (simp add: clean_taking_def clean_def Let_def del: drop_window.simps queue_drain.simps split: prod.splits)

text \<open>The steps of \<open>run\<close> around the last will do not forward anything.\<close>

lemma end_reason_forwarded: "end_reason s = (r, s') \<Longrightarrow> se_forwarded s' = se_forwarded s \<and> se_id s' = se_id s \<and> se_flags s' = se_flags s"
  by (auto simp: end_reason_def add_reason_def split: if_splits)

lemma sink_send_forwarded [simp]: "se_forwarded (snd (sink_send env pkt s)) = se_forwarded s" "se_id (snd (sink_send env pkt s)) = se_id s"
  by (simp_all add: sink_send_def split: option.splits)

definition before_will :: "session_env \<Rightarrow> reason \<Rightarrow> 'q session \<Rightarrow> 'q session" where
  "before_will env r s =
     s\<lparr>se_disconnect_info := disconnected_set (ev_now env) None None (se_disconnect_info (add_reason r s))\<rparr>"

lemma run_exit_will:
  assumes "run_exit env ops reason_text r s = (e, s1)"
  shows "\<exists>c w s2. end_last_will env c (before_will env r s) = (w, s2) \<and> se_forwarded s1 = se_forwarded s2 \<and>
    (\<forall>w' iv. e = ExitOffline w' iv \<longrightarrow> w' = w \<and> se_id s1 = se_id s2)"
proof -
  let ?c = "clean_session env (din_mqtt_disconnect (se_disconnect_info (add_reason r s))) (add_reason r s)"
  obtain w s2 where will: "end_last_will env ?c (before_will env r s) = (w, s2)" by fastforce
  obtain why s3 where why: "end_reason s2 = (why, s3)" by fastforce
  have eq: "(add_reason r s)\<lparr>se_disconnect_info := disconnected_set (ev_now env) None None (se_disconnect_info (add_reason r s))\<rparr>
      = before_will env r s" by (simp add: before_will_def add_reason_def)
  show ?thesis
    using assms will why end_reason_forwarded [OF why]
    by (intro exI [of _ ?c] exI [of _ w] exI [of _ s2])
      (auto simp: run_exit_def Let_def eq split: if_splits sink_version.splits)
qed

text \<open>C12: The last will is published at most once. From the end of the connection to the end of the session, whatever the order
  of timers, messages and kicks while it is offline, at most one publication is made, in the name of the last will; after a
  DISCONNECT of the client, whatever its reason code, there is none.\<close>

theorem last_will_at_most_once:
  assumes exit: "run_exit env ops reason_text r s = (e, s1)"
    and off: "s2 = (case e of ExitDone \<Rightarrow> s1 | ExitOffline w iv \<Rightarrow> snd (offline_run evs (w, s1)))"
  shows "\<exists>xs. se_forwarded s2 = se_forwarded s @ xs \<and> length xs \<le> 1 \<and> (\<forall>x\<in>set xs. fst x = will_from s) \<and>
    (fl_disconnect_received (se_flags s) \<longrightarrow> xs = [])"
proof -
  let ?s0 = "before_will env r s"
  obtain c w s3 where will: "end_last_will env c ?s0 = (w, s3)" and s1: "se_forwarded s1 = se_forwarded s3"
    and wait: "\<And>w' iv. e = ExitOffline w' iv \<Longrightarrow> w' = w \<and> se_id s1 = se_id s3"
    using run_exit_will [OF exit] by blast
  have s0: "se_forwarded ?s0 = se_forwarded s" "se_id ?s0 = se_id s" "se_flags ?s0 = se_flags s" by (simp_all add: before_will_def)
  have none: "se_forwarded s2 = se_forwarded s3" if "w = None"
    using off s1 wait that by (cases e) (auto simp: offline_run_None)
  consider (quiet) "s3 = ?s0" "fl_disconnect_received (se_flags s)" "w = None"
    | (waiting) "s3 = ?s0" "\<not> fl_disconnect_received (se_flags s)"
    | (published) "w = None" "\<not> fl_disconnect_received (se_flags s)" "s3 = process_last_will env ?s0"
    using end_last_will_cases [OF will] s0 by auto
  then show ?thesis
  proof cases
    case quiet
    then show ?thesis using none s0 by simp
  next
    case waiting
    have "forwards_at_most_once (will_from s) s s2"
    proof (cases e)
      case (ExitOffline w' iv)
      then show ?thesis using offline_run_once [of s1 evs w'] wait off s0 s1 waiting by (simp add: forwards_at_most_once_def)
    qed (use off s1 s0 waiting in \<open>simp add: forwards_at_most_once_def\<close>)
    with waiting(2) show ?thesis by (auto simp: forwards_at_most_once_def)
  next
    case published
    then show ?thesis using process_last_will_once [of ?s0 env] none s0 by (auto simp: forwards_at_most_once_def)
  qed
qed

theorem last_will_at_most_once_witness:
  "\<exists>e s1 xs. run_exit ex_env list_deque (\<lambda>_. []) R_ConnectRemoteClose ex_session = (e, s1) \<and>
     se_forwarded (case e of ExitDone \<Rightarrow> s1 | ExitOffline w iv \<Rightarrow> snd (offline_run [(ex_env, OffExpired)] (w, s1))) = xs \<and> length xs \<le> 1"
proof -
  obtain e s1 where "run_exit ex_env list_deque (\<lambda>_. []) R_ConnectRemoteClose ex_session = (e, s1)" by fastforce
  from last_will_at_most_once [OF this refl, of "[(ex_env, OffExpired)]"] this show ?thesis by (auto simp: ex_session_def)
qed

section \<open>Transferred subscriptions\<close>

lemma transfer_relations_lookup:
  assumes "\<forall>(tf, opts)\<in>set subs. \<exists>t. topic_from_str tf = Inr t"
  shows "relation_of (transfer_relations i subs r) tf c =
    (if c = id_client_id i \<and> map_of (rev subs) tf \<noteq> None then Some (i, the (map_of (rev subs) tf)) else relation_of r tf c)"
  using assms
proof (induction subs arbitrary: r)
  case (Cons a subs)
  obtain tf' opts where a: "a = (tf', opts)" by (cases a)
  then obtain t where t: "topic_from_str tf' = Inr t" using Cons.prems by auto
  have "transfer_relations i (a # subs) r = transfer_relations i subs (snd (router_add tf' i opts r))"
    by (simp add: transfer_relations_def a)
  then show ?case using Cons by (auto simp: a relation_of_add [OF t] map_add_def split: option.splits)
qed (simp add: transfer_relations_def)

lemma transfer_relations_inv: "router_inv r \<Longrightarrow> router_inv (transfer_relations i subs r)"
  by (induction subs arbitrary: r) (auto simp: transfer_relations_def router_add_inv)

lemma subs_extend_lookup: "map_of (fst (subs_extend other (subs, st))) tf = (map_of subs ++ map_of (rev other)) tf"
proof (induction other arbitrary: subs st)
  case (Cons a other)
  obtain tf' opts where a: "a = (tf', opts)" by (cases a)
  obtain prev subs' st' where add: "subs_add tf' opts (subs, st) = (prev, subs', st')" by (metis prod_cases3)
  then have "map_of subs' = (map_of subs)(tf' \<mapsto> opts)" using subs_add_lookup [of tf' opts subs st] by simp
  with Cons.IH [of subs' st'] add show ?case by (auto simp: a map_add_def split: option.splits)
qed simp

lemma transfer_state_fields:
  "se_broker (transfer_session_state env clear off s) =
     (if clear then se_broker s
      else own_subs_extend (se_id s) (of_subscriptions off)
        ((se_broker s)\<lparr>br_router := transfer_relations (se_id s) (of_subscriptions off) (br_router (se_broker s))\<rparr>))"
  "se_id (transfer_session_state env clear off s) = se_id s"
  by (simp_all add: transfer_session_state_def Let_def fold_reforward fold_own_forward split: option.splits)

text \<open>Taking over the subscriptions of a previous session keeps the router in agreement with the session tables: after the
  transfer the new session owns its entry, and router and table hold the transferred subscriptions beside the old ones.\<close>

theorem transfer_keeps_agreement:
  assumes ag: "session_agrees s" and filters: "\<forall>(tf, opts)\<in>set (of_subscriptions off). \<exists>t. topic_from_str tf = Inr t"
  shows "session_agrees (transfer_session_state env clear off s)"
proof (cases clear)
  case False
  let ?i = "se_id s" and ?b = "se_broker s" and ?subs = "of_subscriptions off"
  obtain pe where pe: "map_of (br_peers ?b) (id_client_id ?i) = Some pe" "pe_id pe = ?i"
    and agb: "broker_agrees ?b" using ag by (auto simp: session_agrees_def owns_entry_def)
  obtain subs st where ext: "subs_extend ?subs (pe_subs pe, br_stats ?b) = (subs, st)" by fastforce
  let ?r = "transfer_relations ?i ?subs (br_router ?b)"
  let ?b' = "?b\<lparr>br_router := ?r, br_stats := st, br_peers := AList.update (id_client_id ?i) (pe\<lparr>pe_subs := subs\<rparr>) (br_peers ?b)\<rparr>"
  have b': "se_broker (transfer_session_state env clear off s) = ?b'"
    using False pe ext by (simp add: transfer_state_fields own_subs_extend_def)
  have subs: "map_of subs tf = (map_of (pe_subs pe) ++ map_of (rev ?subs)) tf" for tf
    using subs_extend_lookup [of ?subs "pe_subs pe" "br_stats ?b" tf] ext by simp
  have "relation_of ?r tf c = session_entry ?b' tf c" for tf c
    using agb pe unfolding transfer_relations_lookup [OF filters]
    by (auto simp: broker_agrees_def session_entry_def update_conv' subs map_add_def split: option.splits)
  then have "broker_agrees ?b'"
    using agb pe transfer_relations_inv by (auto simp: broker_agrees_def fun_eq_iff distinct_update update_conv' split: if_splits)
  moreover have "owns_entry ?i ?b'" using pe by (simp add: owns_entry_def update_conv')
  ultimately show ?thesis by (simp add: session_agrees_def b' transfer_state_fields(2))
qed (use ag in \<open>simp add: session_agrees_def transfer_state_fields\<close>)

theorem transfer_keeps_agreement_witness:
  "session_agrees (transfer_session_state ex_env False
     \<lparr>of_id = ex_ident ''s'', of_subscriptions = [(''a'', so_default)], of_offline_messages = [], of_inflight_messages = [], of_created_at = 0\<rparr> ex_session)"
proof (rule transfer_keeps_agreement)
  show "session_agrees ex_session"
    using ex_broker_agrees by (simp add: session_agrees_def owns_entry_def ex_session_def ex_broker_def ex_peer_def)
qed (simp add: topic_from_str_def level_from_str_def topic_is_valid_levels contains_wildcard_def str_is_metadata_def)

end
