(* ===== verification/Acl.thy ===== *)
theory Acl
  imports Router "HOL-Library.Option_ord"
begin

text \<open>
  Access control: the rules of an authentication (\<open>ferromq/src/acl.rs\<close>) and the plug-in \<open>ferromq-acl\<close> (\<open>lib.rs\<close>, \<open>config.rs\<close>),
  whose rules hold their filters in a topic tree. A filter with the placeholders \<open>%c\<close> or \<open>%u\<close> is entered for each client when
  it connects, under its identifier, and taken out when it disconnects; the entries made are kept with the session.

  Parameters: the clock and the text of an address (\<open>ip_text\<close>). The reading of rules from JSON and TOML is not modelled; the state of
  the plug-in is the list of its rules. A set of strings is a list.

  Shown: the plug-in decides by the first rule that applies and refuses when none does, and a rule applies to a topic exactly by the
  matching rules of the standard; the entries of one client do not change what another client may do, and
  are gone after its disconnection. Also shown is where this fails: exact topics with placeholders are open to every
  client for ever, a client with wildcards in its identifier gets the topics of others, and a
  subscription with wildcards is not refused by a rule for the topics that it covers.
\<close>

section \<open>Strings\<close>

definition starts_with :: "string \<Rightarrow> string \<Rightarrow> bool" where
  "starts_with p s \<longleftrightarrow> take (length p) s = p"

text \<open>\<open>str::replace\<close> and \<open>str::contains\<close> for a pattern that is not empty.\<close>

function str_replace :: "string \<Rightarrow> string \<Rightarrow> string \<Rightarrow> string" where
  "str_replace p r [] = []"
| "str_replace p r (c # cs) =
     (if p \<noteq> [] \<and> starts_with p (c # cs) then r @ str_replace p r (drop (length p) (c # cs))
      else c # str_replace p r cs)"
  by pat_completeness auto
termination
  by (relation "measure (\<lambda>(p, r, s). length s)") auto

fun str_contains :: "string \<Rightarrow> string \<Rightarrow> bool" where
  "str_contains p [] = (p = [])"
| "str_contains p (c # cs) = (starts_with p (c # cs) \<or> str_contains p cs)"

section \<open>The rules of an authentication\<close>

datatype permission = PAllow | PDeny

datatype acl_action = AAll | APublish | ASubscribe

record acl_topic =
  at_eq_topic_filter :: "string option"
  at_topic_filter :: "topic option"

record acl_rule =
  ar_permission :: permission
  ar_action :: acl_action
  ar_qos :: "qos list option"
  ar_retain :: "bool option"
  ar_topic :: acl_topic

record auth_info =
  ai_superuser :: bool
  ai_expire_at :: "timestamp option"
  ai_rules :: "acl_rule list"

definition permission_try_from :: "string \<Rightarrow> string + permission" where
  "permission_try_from s =
     (if s = ''allow'' then Inr PAllow else if s = ''deny'' then Inr PDeny else Inl ''Unknown Permission'')"

definition action_try_from :: "string \<Rightarrow> string + acl_action" where
  "action_try_from s =
     (if s = ''all'' then Inr AAll else if s = ''publish'' then Inr APublish
      else if s = ''subscribe'' then Inr ASubscribe else Inl ''Unknown Action'')"

definition PLACEHOLDER_USERNAME :: string where "PLACEHOLDER_USERNAME = ''${username}''"

definition PLACEHOLDER_CLIENTID :: string where "PLACEHOLDER_CLIENTID = ''${clientid}''"

definition replaces :: "string \<Rightarrow> connect_info \<Rightarrow> string + string" where
  "replaces topic_cfg ci =
     (case (str_contains PLACEHOLDER_USERNAME topic_cfg, str_contains PLACEHOLDER_CLIENTID topic_cfg) of
        (True, True) \<Rightarrow>
          (case ci_username ci of
             Some username \<Rightarrow> Inr (str_replace PLACEHOLDER_CLIENTID (ci_client_id ci)
                                 (str_replace PLACEHOLDER_USERNAME (text_of username) topic_cfg))
           | None \<Rightarrow> Inl ''username does not exist'')
      | (True, False) \<Rightarrow>
          (case ci_username ci of
             Some username \<Rightarrow> Inr (str_replace PLACEHOLDER_USERNAME (text_of username) topic_cfg)
           | None \<Rightarrow> Inl ''username does not exist'')
      | (False, True) \<Rightarrow> Inr (str_replace PLACEHOLDER_CLIENTID (ci_client_id ci) topic_cfg)
      | (False, False) \<Rightarrow> Inr topic_cfg)"

datatype acl_error = AE_Text string | AE_Topic topic_error

definition acl_topic_try_from :: "string \<Rightarrow> connect_info \<Rightarrow> acl_error + acl_topic" where
  "acl_topic_try_from topic_cfg ci =
     (if starts_with ''eq '' topic_cfg then
        (case replaces (drop 3 topic_cfg) ci of
           Inl e \<Rightarrow> Inl (AE_Text e)
         | Inr t \<Rightarrow> Inr \<lparr>at_eq_topic_filter = Some t, at_topic_filter = None\<rparr>)
      else if topic_cfg \<noteq> [] then
        (case replaces topic_cfg ci of
           Inl e \<Rightarrow> Inl (AE_Text e)
         | Inr t \<Rightarrow> (case topic_from_str t of
                      Inl e \<Rightarrow> Inl (AE_Topic e)
                    | Inr t \<Rightarrow> Inr \<lparr>at_eq_topic_filter = None, at_topic_filter = Some t\<rparr>))
      else Inl (AE_Text ''ACL Rule config error''))"

definition acl_topic_is_match :: "acl_topic \<Rightarrow> string \<Rightarrow> bool" where
  "acl_topic_is_match t name =
     (case at_eq_topic_filter t of
        Some eq_topic_filter \<Rightarrow> eq_topic_filter = name
      | None \<Rightarrow> (case at_topic_filter t of Some topic_filter \<Rightarrow> topic_matches_str topic_filter name | None \<Rightarrow> False))"

definition qos_allowed :: "acl_rule \<Rightarrow> qos \<Rightarrow> bool" where
  "qos_allowed r q = (case ar_qos r of Some qs \<Rightarrow> q \<in> set qs | None \<Rightarrow> True)"

definition subscribe_hit :: "acl_rule \<Rightarrow> broker_subscribe \<Rightarrow> bool" where
  "subscribe_hit r sub =
     (if ar_action r = APublish then False
      else if \<not> qos_allowed r (opt_qos (bs_opts sub)) then False
      else acl_topic_is_match (ar_topic r) (bs_topic_filter sub))"

definition publish_hit :: "acl_rule \<Rightarrow> publish \<Rightarrow> bool" where
  "publish_hit r p =
     (if ar_action r = ASubscribe then False
      else if \<not> qos_allowed r (pub_qos p) then False
      else acl_topic_is_match (ar_topic r) (text_of (pub_topic p)))"

definition publish_allow_hit :: "acl_rule \<Rightarrow> publish \<Rightarrow> bool" where
  "publish_allow_hit r p = (if ar_retain r = Some False \<and> pub_retain p then False else publish_hit r p)"

definition publish_deny_hit :: "acl_rule \<Rightarrow> publish \<Rightarrow> bool" where
  "publish_deny_hit r p =
     (case ar_retain r of
        Some retain \<Rightarrow> (if retain \<noteq> pub_retain p then False else publish_hit r p)
      | None \<Rightarrow> publish_hit r p)"

definition auth_is_expired :: "timestamp \<Rightarrow> auth_info \<Rightarrow> bool" where
  "auth_is_expired now a = (case ai_expire_at a of Some ex \<Rightarrow> ex < now | None \<Rightarrow> False)"

fun subscribe_acl_rules :: "broker_subscribe \<Rightarrow> acl_rule list \<Rightarrow> subscribe_return option" where
  "subscribe_acl_rules sub [] = None"
| "subscribe_acl_rules sub (r # rs) =
     (if \<not> subscribe_hit r sub then subscribe_acl_rules sub rs
      else Some (case ar_permission r of
                   PAllow \<Rightarrow> sr_new_success (opt_qos (bs_opts sub)) None
                 | PDeny \<Rightarrow> sr_new_failure SAR_NotAuthorized))"

definition subscribe_acl :: "broker_subscribe \<Rightarrow> auth_info \<Rightarrow> subscribe_return option" where
  "subscribe_acl sub a =
     (if ai_superuser a then Some (sr_new_success (opt_qos (bs_opts sub)) None)
      else subscribe_acl_rules sub (ai_rules a))"

fun publish_acl_rules :: "publish \<Rightarrow> bool \<Rightarrow> acl_rule list \<Rightarrow> publish_result option" where
  "publish_acl_rules p disc [] = None"
| "publish_acl_rules p disc (r # rs) =
     (case ar_permission r of
        PAllow \<Rightarrow> (if publish_allow_hit r p then Some acl_allow else publish_acl_rules p disc rs)
      | PDeny \<Rightarrow> (if publish_deny_hit r p then Some (acl_rejected disc None) else publish_acl_rules p disc rs))"

definition publish_acl :: "publish \<Rightarrow> bool \<Rightarrow> auth_info \<Rightarrow> publish_result option" where
  "publish_acl p disc a = (if ai_superuser a then Some acl_allow else publish_acl_rules p disc (ai_rules a))"

section \<open>The rules of the plug-in\<close>

datatype access = Allow | Deny

datatype control = CAll | CConnect | CPublish | CSubscribe | CPubsub

datatype user =
    U_Username string "bytes option" bool
  | U_Clientid client_id
  | U_Ipaddr string
  | U_Protocol u8
  | U_All

record acl_topics =
  tp_all :: bool
  tp_eqs :: "string list"
  tp_eq_placeholders :: "string list"
  tp_tree :: "client_id option node"
  tp_placeholders :: "string list"

record plugin_rule =
  pl_access :: access
  pl_users :: "user list"
  pl_control :: control
  pl_topics :: acl_topics

definition PH_C :: string where "PH_C = ''%c''"

definition PH_U :: string where "PH_U = ''%u''"

definition user_hit ::
  "(socket_addr \<Rightarrow> string) \<Rightarrow> ident \<Rightarrow> bytes option \<Rightarrow> u8 option \<Rightarrow> bool \<Rightarrow> user \<Rightarrow> bool \<times> bool" where
  "user_hit ip_text i password protocol allow u =
     (case u of
        U_All \<Rightarrow> (True, False)
      | U_Username name1 password1 superuser \<Rightarrow>
          (case (id_username i, password, password1, allow) of
             (Some name2, Some password2, Some password1, True) \<Rightarrow> (name1 = name2 \<and> password1 = password2, superuser)
           | (Some name2, Some _, Some _, False) \<Rightarrow> (name1 = name2, False)
           | (Some name2, _, None, True) \<Rightarrow> (name1 = name2, superuser)
           | (Some name2, _, None, False) \<Rightarrow> (name1 = name2, False)
           | (Some _, None, Some _, _) \<Rightarrow> (False, False)
           | (None, _, _, _) \<Rightarrow> (False, False))
      | U_Clientid clientid \<Rightarrow> (id_client_id i = clientid, False)
      | U_Ipaddr ipaddr \<Rightarrow>
          (case id_remote_addr i of Some remote_addr \<Rightarrow> (ipaddr = ip_text remote_addr, False) | None \<Rightarrow> (False, False))
      | U_Protocol protocol1 \<Rightarrow> (case protocol of Some protocol \<Rightarrow> (protocol = protocol1, False) | None \<Rightarrow> (False, False)))"

text \<open>The loop of \<open>Rule::hit\<close>, with the variable \<open>superuser\<close>.\<close>

fun users_hit ::
  "(socket_addr \<Rightarrow> string) \<Rightarrow> ident \<Rightarrow> bytes option \<Rightarrow> u8 option \<Rightarrow> bool \<Rightarrow> bool \<Rightarrow> user list \<Rightarrow> bool \<times> bool" where
  "users_hit ip_text i password protocol allow superuser [] = (True, superuser)"
| "users_hit ip_text i password protocol allow superuser (u # us) =
     (let (hit, su) = user_hit ip_text i password protocol allow u
      in if \<not> hit then (False, False) else users_hit ip_text i password protocol allow su us)"

definition rule_hit ::
  "(socket_addr \<Rightarrow> string) \<Rightarrow> ident \<Rightarrow> bytes option \<Rightarrow> u8 option \<Rightarrow> bool \<Rightarrow> plugin_rule \<Rightarrow> bool \<times> bool" where
  "rule_hit ip_text i password protocol allow r = users_hit ip_text i password protocol allow False (pl_users r)"

definition add_topic_filter :: "string \<Rightarrow> client_id \<Rightarrow> acl_topics \<Rightarrow> (topic_error + unit) \<times> acl_topics" where
  "add_topic_filter topic_filter clientid tp =
     (case topic_from_str topic_filter of
        Inl e \<Rightarrow> (Inl e, tp)
      | Inr t \<Rightarrow> (Inr (), tp\<lparr>tp_tree := snd (node_insert t (Some clientid) (tp_tree tp))\<rparr>))"

definition rule_remove_topic :: "string \<Rightarrow> client_id \<Rightarrow> acl_topics \<Rightarrow> (topic_error + unit) \<times> acl_topics" where
  "rule_remove_topic topic clientid tp =
     (case topic_from_str topic of
        Inl e \<Rightarrow> (Inl e, tp)
      | Inr t \<Rightarrow>
          (let topics = concat (map (\<lambda>(topic_levels, clientids).
                          map (\<lambda>_. to_topic topic_levels) (filter (\<lambda>cid. cid = Some clientid) clientids))
                          (mi_collect (node_matches (tp_tree tp) t)))
           in (Inr (), tp\<lparr>tp_tree := fold (\<lambda>t n. snd (node_remove t (Some clientid) n)) topics (tp_tree tp)\<rparr>)))"

definition add_topic_to_eqs :: "string \<Rightarrow> acl_topics \<Rightarrow> acl_topics" where
  "add_topic_to_eqs topic tp = tp\<lparr>tp_eqs := List.insert topic (tp_eqs tp)\<rparr>"

definition topics_is_match :: "topic \<Rightarrow> string \<Rightarrow> client_id \<Rightarrow> acl_topics \<Rightarrow> bool" where
  "topics_is_match t topic_filter_str client_id tp =
     (if tp_all tp then True
      else if topic_filter_str \<in> set (tp_eqs tp) then True
      else list_ex (\<lambda>(_, values). list_ex (\<lambda>cid. case cid of Some cid \<Rightarrow> cid = client_id | None \<Rightarrow> True) values)
             (mi_collect (node_matches (tp_tree tp) t)))"

section \<open>The hooks of the plug-in\<close>

definition ph_subst :: "ident \<Rightarrow> string \<Rightarrow> string" where
  "ph_subst i ph =
     str_replace PH_U (case id_username i of Some un \<Rightarrow> un | None \<Rightarrow> []) (str_replace PH_C (id_client_id i) ph)"

text \<open>The state is the rules and the entries kept with the session (\<open>CACHE_KEY\<close>).\<close>

definition connect_placeholder :: "ident \<Rightarrow> string \<Rightarrow> acl_topics \<times> string list \<Rightarrow> acl_topics \<times> string list" where
  "connect_placeholder i ph_tf = (\<lambda>(tp, caches).
     (let tf = ph_subst i ph_tf in (snd (add_topic_filter tf (id_client_id i) tp), caches @ [tf])))"

definition connect_topics :: "ident \<Rightarrow> acl_topics \<times> string list \<Rightarrow> acl_topics \<times> string list" where
  "connect_topics i = (\<lambda>(tp, caches).
     (let (tp, caches) = fold (connect_placeholder i) (tp_placeholders tp) (tp, caches)
      in (fold (\<lambda>eq_ph_t. add_topic_to_eqs (ph_subst i eq_ph_t)) (tp_eq_placeholders tp) tp, caches)))"

fun acl_client_connected :: "ident \<Rightarrow> plugin_rule list \<Rightarrow> string list \<Rightarrow> plugin_rule list \<times> string list" where
  "acl_client_connected i [] caches = ([], caches)"
| "acl_client_connected i (r # rs) caches =
     (let (tp, caches) = connect_topics i (pl_topics r, caches);
          (rs, caches) = acl_client_connected i rs caches
      in (r\<lparr>pl_topics := tp\<rparr> # rs, caches))"

definition acl_client_disconnected :: "ident \<Rightarrow> string list \<Rightarrow> plugin_rule list \<Rightarrow> plugin_rule list" where
  "acl_client_disconnected i topic_filters rules =
     fold (\<lambda>tf. map (\<lambda>r. r\<lparr>pl_topics := snd (rule_remove_topic tf (id_client_id i) (pl_topics r))\<rparr>)) topic_filters rules"

datatype auth_result = AR_Allow bool "auth_info option" | AR_NotFound | AR_BadUsernameOrPassword | AR_NotAuthorized

fun authenticate_rules ::
  "(socket_addr \<Rightarrow> string) \<Rightarrow> connect_info \<Rightarrow> bytes option \<Rightarrow> plugin_rule list \<Rightarrow> auth_result" where
  "authenticate_rules ip_text ci password [] = AR_NotAuthorized"
| "authenticate_rules ip_text ci password (r # rs) =
     (if \<not> (pl_control r = CConnect \<or> pl_control r = CAll) then authenticate_rules ip_text ci password rs
      else (let allow = (pl_access r = Allow);
                (hit, superuser) = rule_hit ip_text (ci_id ci) password (Some (ci_proto_ver ci)) allow r
            in if hit then (if allow then AR_Allow superuser None else AR_NotAuthorized)
               else authenticate_rules ip_text ci password rs))"

definition acl_client_authenticate ::
  "(socket_addr \<Rightarrow> string) \<Rightarrow> connect_info \<Rightarrow> plugin_rule list \<Rightarrow> auth_result option \<Rightarrow> bool \<times> auth_result option" where
  "acl_client_authenticate ip_text ci rules acc =
     (if acc = Some AR_BadUsernameOrPassword \<or> acc = Some AR_NotAuthorized then (False, acc)
      else (False, Some (authenticate_rules ip_text ci (ci_password ci) rules)))"

text \<open>The client of a session: its identity, password and protocol version.\<close>

record acl_client =
  ac_id :: ident
  ac_password :: "bytes option"
  ac_protocol :: "u8 option"

definition topic_or_empty :: "string \<Rightarrow> topic" where
  "topic_or_empty s = (case topic_from_str s of Inr t \<Rightarrow> t | Inl _ \<Rightarrow> Topic [])"

text \<open>What the loops of both checks ask of a rule.\<close>

definition rule_applies ::
  "(socket_addr \<Rightarrow> string) \<Rightarrow> control list \<Rightarrow> acl_client \<Rightarrow> string \<Rightarrow> plugin_rule \<Rightarrow> bool" where
  "rule_applies ip_text controls cl topic_str r =
     (if pl_control r \<notin> set controls then False
      else (let allow = (pl_access r = Allow);
                (hit, _) = rule_hit ip_text (ac_id cl) (ac_password cl) (ac_protocol cl) allow r
            in if \<not> hit then False
               else topics_is_match (topic_or_empty topic_str) topic_str (id_client_id (ac_id cl)) (pl_topics r)))"

fun first_access :: "(plugin_rule \<Rightarrow> bool) \<Rightarrow> plugin_rule list \<Rightarrow> access option" where
  "first_access applies [] = None"
| "first_access applies (r # rs) = (if \<not> applies r then first_access applies rs else Some (pl_access r))"

definition acl_subscribe_check ::
  "(socket_addr \<Rightarrow> string) \<Rightarrow> acl_client \<Rightarrow> broker_subscribe \<Rightarrow> plugin_rule list \<Rightarrow> subscribe_return option \<Rightarrow> bool \<times> subscribe_return option" where
  "acl_subscribe_check ip_text cl sub rules acc =
     (if (case acc of Some acl_result \<Rightarrow> sr_failure acl_result | None \<Rightarrow> False) then (False, acc)
      else (False, Some
        (case first_access (rule_applies ip_text [CSubscribe, CPubsub, CAll] cl (bs_topic_filter sub)) rules of
           Some Allow \<Rightarrow> sr_new_success (opt_qos (bs_opts sub)) None
         | Some Deny \<Rightarrow> sr_new_failure SAR_UnspecifiedError
         | None \<Rightarrow> sr_new_failure SAR_UnspecifiedError)))"

definition acl_publish_check ::
  "(socket_addr \<Rightarrow> string) \<Rightarrow> bool \<Rightarrow> acl_client \<Rightarrow> publish \<Rightarrow> plugin_rule list \<Rightarrow> publish_result option \<Rightarrow> bool \<times> publish_result option" where
  "acl_publish_check ip_text disconnect_if_pub_rejected cl p rules acc =
     (if (case acc of Some acl_res \<Rightarrow> \<not> acl_is_allow acl_res | None \<Rightarrow> False) then (False, acc)
      else (False, Some
        (case first_access (rule_applies ip_text [CPublish, CPubsub, CAll] cl (text_of (pub_topic p))) rules of
           Some Allow \<Rightarrow> acl_allow
         | Some Deny \<Rightarrow> acl_rejected disconnect_if_pub_rejected None
         | None \<Rightarrow> acl_rejected disconnect_if_pub_rejected None)))"

section \<open>What a rule matches\<close>

definition entry_for :: "client_id \<Rightarrow> client_id option \<Rightarrow> bool" where
  "entry_for c v \<longleftrightarrow> v = None \<or> v = Some c"

lemma entry_for_case: "(case v of Some cid \<Rightarrow> cid = c | None \<Rightarrow> True) = entry_for c v"
  by (auto simp: entry_for_def split: option.splits)

lemma topics_is_match_iff:
  "topics_is_match t name c tp \<longleftrightarrow> tp_all tp \<or> name \<in> set (tp_eqs tp) \<or>
     (\<exists>f. \<exists>v \<in> set (values_at (tp_tree tp) f). root_match [] f (levels t) \<and> entry_for c v)"
  unfolding topics_is_match_def mi_collect_pending pending_matches entry_for_case list_ex_iff trie_match_set matched_def
  by (auto split: prod.splits) (metis empty_iff empty_set)

text \<open>The filters of the tree are filters that the parser accepts.\<close>

definition topics_ok :: "acl_topics \<Rightarrow> bool" where
  "topics_ok tp \<longleftrightarrow> node_wf (tp_tree tp) \<and>
     (\<forall>f. values_at (tp_tree tp) f \<noteq> [] \<longrightarrow> (\<exists>fs t. topic_from_str fs = Inr t \<and> levels t = f))"

lemma topics_is_match_standard:
  assumes "topics_ok tp" and "topic_from_str name = Inr t" and "list_all (\<lambda>l. \<not> is_wildcard l) (levels t)"
  shows "topics_is_match t name c tp \<longleftrightarrow> tp_all tp \<or> name \<in> set (tp_eqs tp) \<or>
     (\<exists>f. \<exists>v \<in> set (values_at (tp_tree tp) f). mqtt_match f (split_slash name) \<and> entry_for c v)"
proof -
  have path: "list_all level_canonical (levels t)" "split_slash name = map level_to_string (levels t)"
    using assms(2) split_to_string [of t] by (auto simp: topic_from_str_levels)
  have "root_match [] f (levels t) = mqtt_match f (split_slash name)" if v: "v \<in> set (values_at (tp_tree tp) f)" for f v
  proof -
    have "values_at (tp_tree tp) f \<noteq> []" using v by auto
    then obtain fs u where "topic_from_str fs = Inr u" "levels u = f" using assms(1) by (auto simp: topics_ok_def)
    then have "levels_ok f" "list_all level_canonical f" by (auto simp: topic_from_str_levels topic_is_valid_levels)
    then show ?thesis using root_match_standard path assms(3) by simp
  qed
  then show ?thesis unfolding topics_is_match_iff by metis
qed

lemma first_access_split:
  "first_access P rules = Some a \<longleftrightarrow>
     (\<exists>before r after. rules = before @ r # after \<and> P r \<and> pl_access r = a \<and> (\<forall>q \<in> set before. \<not> P q))"
  (is "_ \<longleftrightarrow> ?R rules")
proof
  show "first_access P rules = Some a \<Longrightarrow> ?R rules"
  proof (induction rules)
    case (Cons q rules)
    show ?case
    proof (cases "P q")
      case True
      then show ?thesis using Cons.prems by (intro exI [of _ "[]"] exI [of _ q] exI [of _ rules]) simp
    next
      case False
      then obtain b r d where "rules = b @ r # d" "P r" "pl_access r = a" "\<forall>q \<in> set b. \<not> P q" using Cons by auto
      then show ?thesis using False by (intro exI [of _ "q # b"] exI [of _ r] exI [of _ d]) simp
    qed
  qed simp
next
  assume "?R rules"
  then obtain b r d where "rules = b @ r # d" "P r" "pl_access r = a" "\<forall>q \<in> set b. \<not> P q" by blast
  then show "first_access P rules = Some a" by (induction b arbitrary: rules) auto
qed

section \<open>Entries of clients\<close>

definition tree_set :: "client_id option node \<Rightarrow> level list \<Rightarrow> client_id option set" where
  "tree_set n f = set (values_at n f)"

lemma tree_set_insert: "tree_set (snd (node_insert t v n)) f = (if f = levels t then insert v (tree_set n f) else tree_set n f)"
  unfolding tree_set_def by (rule tree.ins_at)

lemma tree_set_removes:
  "tree_set (fold (\<lambda>t n. snd (node_remove t v n)) ts n) f = tree_set n f - (if f \<in> levels ` set ts then {v} else {})"
proof (induction ts arbitrary: n)
  case (Cons t ts)
  show ?case using tree.rem_at [of t v n f] Cons [of "snd (node_remove t v n)"] by (auto simp: tree_set_def)
qed simp

lemma tree_wf_removes: "node_wf n \<Longrightarrow> node_wf (fold (\<lambda>t n. snd (node_remove t v n)) ts n)"
  by (induction ts arbitrary: n) (simp_all add: tree.rem_inv)

text \<open>The filters that placeholders give for a client.\<close>

definition ph_filters :: "ident \<Rightarrow> string list \<Rightarrow> level list set" where
  "ph_filters i phs = {levels t |t ph. ph \<in> set phs \<and> topic_from_str (ph_subst i ph) = Inr t}"

lemma ph_filters_simps:
  "ph_filters i [] = {}" "f \<in> ph_filters i (ph # phs) \<longleftrightarrow> f \<in> ph_filters i [ph] \<or> f \<in> ph_filters i phs"
  by (auto simp: ph_filters_def)

lemma connect_placeholders:
  "\<exists>n. fold (connect_placeholder i) phs (tp, cs) = (tp\<lparr>tp_tree := n\<rparr>, cs @ map (ph_subst i) phs) \<and>
     (\<forall>f. tree_set n f = tree_set (tp_tree tp) f \<union> (if f \<in> ph_filters i phs then {Some (id_client_id i)} else {})) \<and>
     (node_wf (tp_tree tp) \<longrightarrow> node_wf n)"
proof (induction phs arbitrary: tp cs)
  case Nil
  show ?case by (intro exI [of _ "tp_tree tp"]) (simp add: ph_filters_simps)
next
  case (Cons ph phs)
  let ?tp = "snd (add_topic_filter (ph_subst i ph) (id_client_id i) tp)"
  have step: "connect_placeholder i ph (tp, cs) = (?tp, cs @ [ph_subst i ph])" by (simp add: connect_placeholder_def Let_def)
  have tree: "tree_set (tp_tree ?tp) f = tree_set (tp_tree tp) f \<union> (if f \<in> ph_filters i [ph] then {Some (id_client_id i)} else {})" for f
    by (auto simp: add_topic_filter_def tree_set_insert ph_filters_def split: sum.splits)
  have same: "?tp\<lparr>tp_tree := n\<rparr> = tp\<lparr>tp_tree := n\<rparr>" for n
    by (simp add: add_topic_filter_def split: sum.splits)
  have wf: "node_wf (tp_tree tp) \<longrightarrow> node_wf (tp_tree ?tp)"
    by (simp add: add_topic_filter_def tree.ins_inv split: sum.splits)
  obtain n where n: "fold (connect_placeholder i) phs (?tp, cs @ [ph_subst i ph])
      = (?tp\<lparr>tp_tree := n\<rparr>, (cs @ [ph_subst i ph]) @ map (ph_subst i) phs)"
    "\<And>f. tree_set n f = tree_set (tp_tree ?tp) f \<union> (if f \<in> ph_filters i phs then {Some (id_client_id i)} else {})"
    "node_wf (tp_tree ?tp) \<longrightarrow> node_wf n"
    using Cons [of ?tp "cs @ [ph_subst i ph]"] by blast
  have "fold (connect_placeholder i) (ph # phs) (tp, cs) = (tp\<lparr>tp_tree := n\<rparr>, cs @ map (ph_subst i) (ph # phs))"
    using n(1) by (simp add: step same)
  moreover have "tree_set n f = tree_set (tp_tree tp) f \<union> (if f \<in> ph_filters i (ph # phs) then {Some (id_client_id i)} else {})" for f
    unfolding n(2) tree ph_filters_simps(2) [of f i ph phs] by auto
  ultimately show ?case using n(3) wf by blast
qed

lemma eqs_fold:
  "fold (\<lambda>ph. add_topic_to_eqs (ph_subst i ph)) phs tp = tp\<lparr>tp_eqs := fold (\<lambda>ph. List.insert (ph_subst i ph)) phs (tp_eqs tp)\<rparr>"
  by (induction phs arbitrary: tp) (simp_all add: add_topic_to_eqs_def)

lemma eqs_fold_set: "set (fold (\<lambda>ph. List.insert (g ph)) phs es) = set es \<union> g ` set phs"
  by (induction phs arbitrary: es) auto

text \<open>What connecting does to the topics of a rule.\<close>

lemma connect_topics_effect:
  obtains n es where "connect_topics i (tp, cs) = (tp\<lparr>tp_tree := n, tp_eqs := es\<rparr>, cs @ map (ph_subst i) (tp_placeholders tp))"
    and "set es = set (tp_eqs tp) \<union> ph_subst i ` set (tp_eq_placeholders tp)"
    and "\<And>f. tree_set n f = tree_set (tp_tree tp) f \<union> (if f \<in> ph_filters i (tp_placeholders tp) then {Some (id_client_id i)} else {})"
    and "node_wf (tp_tree tp) \<Longrightarrow> node_wf n"
proof -
  let ?es = "fold (\<lambda>ph. List.insert (ph_subst i ph)) (tp_eq_placeholders tp) (tp_eqs tp)"
  obtain n where n: "fold (connect_placeholder i) (tp_placeholders tp) (tp, cs) = (tp\<lparr>tp_tree := n\<rparr>, cs @ map (ph_subst i) (tp_placeholders tp))"
    "\<And>f. tree_set n f = tree_set (tp_tree tp) f \<union> (if f \<in> ph_filters i (tp_placeholders tp) then {Some (id_client_id i)} else {})"
    "node_wf (tp_tree tp) \<longrightarrow> node_wf n"
    using connect_placeholders [of i "tp_placeholders tp" tp cs] by blast
  then have "connect_topics i (tp, cs) = (tp\<lparr>tp_tree := n, tp_eqs := ?es\<rparr>, cs @ map (ph_subst i) (tp_placeholders tp))"
    by (simp add: connect_topics_def eqs_fold)
  then show thesis by (rule that) (use n(2,3) in \<open>simp_all add: eqs_fold_set\<close>)
qed

text \<open>What the removal of a filter does: the entries of the client under the filters that it selects.\<close>

lemma remove_topic_effect:
  obtains n where "snd (rule_remove_topic tf c tp) = tp\<lparr>tp_tree := n\<rparr>"
    and "\<And>f. tree_set n f = tree_set (tp_tree tp) f -
      (if \<exists>t. topic_from_str tf = Inr t \<and> root_match [] f (levels t) then {Some c} else {})"
    and "node_wf (tp_tree tp) \<Longrightarrow> node_wf n"
proof (cases "topic_from_str tf")
  case (Inl e)
  then show thesis using that [of "tp_tree tp"] by (simp add: rule_remove_topic_def)
next
  case (Inr t)
  let ?ts = "concat (map (\<lambda>(ls, cids). map (\<lambda>_. to_topic ls) (filter (\<lambda>cid. cid = Some c) cids)) (mi_collect (node_matches (tp_tree tp) t)))"
  have mem: "f \<in> levels ` set ?ts \<longleftrightarrow> Some c \<in> tree_set (tp_tree tp) f \<and> root_match [] f (levels t)" for f
    unfolding mi_collect_pending pending_matches set_concat set_map trie_match_set matched_def
    by (force simp: to_topic_def tree_set_def split: prod.splits)
  have eff: "tree_set (fold (\<lambda>t n. snd (node_remove t (Some c) n)) ?ts (tp_tree tp)) f = tree_set (tp_tree tp) f -
      (if root_match [] f (levels t) then {Some c} else {})" for f
    unfolding tree_set_removes mem by auto
  show thesis
  proof (rule that)
    show "snd (rule_remove_topic tf c tp) = tp\<lparr>tp_tree := fold (\<lambda>t n. snd (node_remove t (Some c) n)) ?ts (tp_tree tp)\<rparr>"
      using Inr by (simp add: rule_remove_topic_def)
  qed (use Inr eff tree_wf_removes in simp_all)
qed

lemma root_match_self: "multi_last f \<Longrightarrow> root_match [] f f"
proof -
  have "path_match f f" for f by (induction f) auto
  moreover assume "multi_last f"
  ultimately show ?thesis by (cases f; cases "hd f") (auto simp: root_match_def is_wildcard_def)
qed

section \<open>Rules under connections and disconnections\<close>

text \<open>The view of a client on a list of rules: nothing else of a rule than what its topics match may differ.\<close>

definition same_for :: "client_id \<Rightarrow> plugin_rule list \<Rightarrow> plugin_rule list \<Rightarrow> bool" where
  "same_for c rules rules' \<longleftrightarrow>
     list_all2 (\<lambda>r r'. pl_access r' = pl_access r \<and> pl_users r' = pl_users r \<and> pl_control r' = pl_control r \<and>
       (\<forall>t name. topics_is_match t name c (pl_topics r') = topics_is_match t name c (pl_topics r))) rules rules'"

lemma same_for_first:
  assumes "same_for (id_client_id (ac_id cl)) rules rules'"
  shows "first_access (rule_applies ip_text cs cl name) rules' = first_access (rule_applies ip_text cs cl name) rules"
  using assms unfolding same_for_def
  by (induction rules rules' rule: list_all2_induct) (auto simp: rule_applies_def rule_hit_def Let_def split: prod.splits)

definition connected_rule :: "ident \<Rightarrow> plugin_rule \<Rightarrow> plugin_rule \<Rightarrow> bool" where
  "connected_rule i r r' \<longleftrightarrow> (\<exists>n es. r' = r\<lparr>pl_topics := (pl_topics r)\<lparr>tp_tree := n, tp_eqs := es\<rparr>\<rparr> \<and>
     set es = set (tp_eqs (pl_topics r)) \<union> ph_subst i ` set (tp_eq_placeholders (pl_topics r)) \<and>
     (\<forall>f. tree_set n f = tree_set (tp_tree (pl_topics r)) f \<union>
        (if f \<in> ph_filters i (tp_placeholders (pl_topics r)) then {Some (id_client_id i)} else {})))"

lemma connected_rules:
  "list_all2 (connected_rule i) rules (fst (acl_client_connected i rules cs)) \<and>
   snd (acl_client_connected i rules cs) = cs @ concat (map (\<lambda>r. map (ph_subst i) (tp_placeholders (pl_topics r))) rules)"
proof (induction rules arbitrary: cs)
  case (Cons r rules)
  obtain n es where eff: "connect_topics i (pl_topics r, cs) = ((pl_topics r)\<lparr>tp_tree := n, tp_eqs := es\<rparr>, cs @ map (ph_subst i) (tp_placeholders (pl_topics r)))"
    "set es = set (tp_eqs (pl_topics r)) \<union> ph_subst i ` set (tp_eq_placeholders (pl_topics r))"
    "\<And>f. tree_set n f = tree_set (tp_tree (pl_topics r)) f \<union> (if f \<in> ph_filters i (tp_placeholders (pl_topics r)) then {Some (id_client_id i)} else {})"
    by (rule connect_topics_effect [of i "pl_topics r" cs]) blast
  then have "connected_rule i r (r\<lparr>pl_topics := (pl_topics r)\<lparr>tp_tree := n, tp_eqs := es\<rparr>\<rparr>)"
    unfolding connected_rule_def by blast
  then show ?case
    using Cons.IH [of "cs @ map (ph_subst i) (tp_placeholders (pl_topics r))"] eff(1) by (simp add: case_prod_unfold)
qed simp

definition removed_rule :: "client_id \<Rightarrow> string list \<Rightarrow> plugin_rule \<Rightarrow> plugin_rule \<Rightarrow> bool" where
  "removed_rule c tfs r r' \<longleftrightarrow> (\<exists>n. r' = r\<lparr>pl_topics := (pl_topics r)\<lparr>tp_tree := n\<rparr>\<rparr> \<and>
     (\<forall>f. tree_set n f = tree_set (tp_tree (pl_topics r)) f -
        (if \<exists>tf \<in> set tfs. \<exists>t. topic_from_str tf = Inr t \<and> root_match [] f (levels t) then {Some c} else {})))"

lemma removed_rule_Cons:
  assumes "removed_rule c tfs (r\<lparr>pl_topics := snd (rule_remove_topic tf c (pl_topics r))\<rparr>) r'"
  shows "removed_rule c (tf # tfs) r r'"
proof -
  obtain n where n: "snd (rule_remove_topic tf c (pl_topics r)) = (pl_topics r)\<lparr>tp_tree := n\<rparr>"
    "\<And>f. tree_set n f = tree_set (tp_tree (pl_topics r)) f -
      (if \<exists>t. topic_from_str tf = Inr t \<and> root_match [] f (levels t) then {Some c} else {})"
    by (rule remove_topic_effect [of tf c "pl_topics r"]) blast
  obtain m where m: "r' = r\<lparr>pl_topics := (pl_topics r)\<lparr>tp_tree := m\<rparr>\<rparr>"
    "\<And>f. tree_set m f = tree_set n f -
        (if \<exists>tf \<in> set tfs. \<exists>t. topic_from_str tf = Inr t \<and> root_match [] f (levels t) then {Some c} else {})"
    using assms unfolding removed_rule_def n(1) by auto
  have "tree_set m f = tree_set (tp_tree (pl_topics r)) f -
      (if \<exists>tf \<in> set (tf # tfs). \<exists>t. topic_from_str tf = Inr t \<and> root_match [] f (levels t) then {Some c} else {})" for f
    unfolding m(2) n(2) by auto
  with m(1) show ?thesis unfolding removed_rule_def by blast
qed

lemma removed_rules:
  "list_all2 (removed_rule (id_client_id i) tfs) rules (acl_client_disconnected i tfs rules)"
proof (induction tfs arbitrary: rules)
  case Nil
  have "removed_rule c [] r r" for c r unfolding removed_rule_def by (intro exI [of _ "tp_tree (pl_topics r)"]) simp
  then show ?case by (simp add: acl_client_disconnected_def list.rel_refl)
next
  case (Cons tf tfs)
  let ?rules = "map (\<lambda>r. r\<lparr>pl_topics := snd (rule_remove_topic tf (id_client_id i) (pl_topics r))\<rparr>) rules"
  have "acl_client_disconnected i (tf # tfs) rules = acl_client_disconnected i tfs ?rules"
    by (simp add: acl_client_disconnected_def)
  then show ?case
    using Cons [of ?rules] removed_rule_Cons by (auto simp: list_all2_map1 elim: list_all2_mono)
qed

lemma is_match_visible:
  "topics_is_match t name c tp \<longleftrightarrow> tp_all tp \<or> name \<in> set (tp_eqs tp) \<or>
     (\<exists>f. root_match [] f (levels t) \<and> tree_set (tp_tree tp) f \<inter> {None, Some c} \<noteq> {})"
  unfolding topics_is_match_iff entry_for_def tree_set_def by blast

text \<open>Another client connects.\<close>

lemma connect_same_for:
  assumes "id_client_id i \<noteq> c" and "\<forall>r \<in> set rules. tp_eq_placeholders (pl_topics r) = []"
  shows "same_for c rules (fst (acl_client_connected i rules cs))"
proof -
  have "topics_is_match t name c (pl_topics r') = topics_is_match t name c (pl_topics r)"
    if conn: "connected_rule i r r'" and none: "tp_eq_placeholders (pl_topics r) = []" for r r' t name
  proof -
    obtain n es where r: "pl_topics r' = (pl_topics r)\<lparr>tp_tree := n, tp_eqs := es\<rparr>" "set es = set (tp_eqs (pl_topics r))"
      "\<And>f. tree_set n f = tree_set (tp_tree (pl_topics r)) f \<union>
        (if f \<in> ph_filters i (tp_placeholders (pl_topics r)) then {Some (id_client_id i)} else {})"
      using conn none unfolding connected_rule_def by auto
    have "tree_set n f \<inter> {None, Some c} = tree_set (tp_tree (pl_topics r)) f \<inter> {None, Some c}" for f
      using assms(1) r(3) by auto
    then show ?thesis using r(1,2) by (simp add: is_match_visible)
  qed
  then show ?thesis
    using connected_rules [of i rules cs] assms(2) unfolding same_for_def
    by (auto simp: list_all2_conv_all_nth connected_rule_def)
qed

text \<open>A client connects and disconnects again: every entry is as before, when the client had none before.\<close>

lemma cached_filters_removed:
  assumes "f \<in> ph_filters i phs"
  shows "\<exists>tf \<in> ph_subst i ` set phs. \<exists>t. topic_from_str tf = Inr t \<and> root_match [] f (levels t)"
proof -
  obtain t ph where t: "f = levels t" "ph \<in> set phs" "topic_from_str (ph_subst i ph) = Inr t"
    using assms by (auto simp: ph_filters_def)
  then have "root_match [] f (levels t)"
    by (auto simp: topic_from_str_levels topic_is_valid_levels intro!: root_match_self levels_ok_multi_last)
  with t show ?thesis by blast
qed

lemma connect_disconnect_rule:
  assumes "connected_rule i r r1" and "removed_rule (id_client_id i) tfs r1 r2"
    and "ph_subst i ` set (tp_placeholders (pl_topics r)) \<subseteq> set tfs"
    and "\<And>f. Some (id_client_id i) \<notin> tree_set (tp_tree (pl_topics r)) f"
  shows "tree_set (tp_tree (pl_topics r2)) f = tree_set (tp_tree (pl_topics r)) f \<and> tp_all (pl_topics r2) = tp_all (pl_topics r) \<and>
    set (tp_eqs (pl_topics r2)) = set (tp_eqs (pl_topics r)) \<union> ph_subst i ` set (tp_eq_placeholders (pl_topics r)) \<and>
    pl_access r2 = pl_access r \<and> pl_users r2 = pl_users r \<and> pl_control r2 = pl_control r"
proof -
  obtain n es where r1: "r1 = r\<lparr>pl_topics := (pl_topics r)\<lparr>tp_tree := n, tp_eqs := es\<rparr>\<rparr>"
    "set es = set (tp_eqs (pl_topics r)) \<union> ph_subst i ` set (tp_eq_placeholders (pl_topics r))"
    and n: "\<forall>f. tree_set n f = tree_set (tp_tree (pl_topics r)) f \<union>
       (if f \<in> ph_filters i (tp_placeholders (pl_topics r)) then {Some (id_client_id i)} else {})"
    using assms(1) unfolding connected_rule_def by (elim exE conjE) (rule that)
  obtain m where r2: "r2 = r1\<lparr>pl_topics := (pl_topics r1)\<lparr>tp_tree := m\<rparr>\<rparr>"
    and m: "\<forall>f. tree_set m f = tree_set (tp_tree (pl_topics r1)) f -
       (if \<exists>tf \<in> set tfs. \<exists>t. topic_from_str tf = Inr t \<and> root_match [] f (levels t) then {Some (id_client_id i)} else {})"
    using assms(2) unfolding removed_rule_def by (elim exE conjE) (rule that)
  have "tree_set m f = tree_set (tp_tree (pl_topics r)) f"
  proof (cases "f \<in> ph_filters i (tp_placeholders (pl_topics r))")
    case True
    then have "\<exists>tf \<in> set tfs. \<exists>t. topic_from_str tf = Inr t \<and> root_match [] f (levels t)"
      using cached_filters_removed assms(3) by blast
    then show ?thesis using r1(1) n m assms(4) [of f] True by simp
  next
    case False
    then show ?thesis using r1(1) n m assms(4) [of f] by simp
  qed
  then show ?thesis using r1 r2 by simp
qed

lemma connect_disconnect:
  assumes "\<And>r f. r \<in> set rules \<Longrightarrow> Some (id_client_id i) \<notin> tree_set (tp_tree (pl_topics r)) f"
    and "acl_client_connected i rules [] = (rules1, caches)" and "k < length rules"
  defines "r \<equiv> rules ! k" and "r2 \<equiv> acl_client_disconnected i caches rules1 ! k"
  shows "tree_set (tp_tree (pl_topics r2)) f = tree_set (tp_tree (pl_topics r)) f \<and> tp_all (pl_topics r2) = tp_all (pl_topics r) \<and>
    set (tp_eqs (pl_topics r2)) = set (tp_eqs (pl_topics r)) \<union> ph_subst i ` set (tp_eq_placeholders (pl_topics r)) \<and>
    pl_access r2 = pl_access r \<and> pl_users r2 = pl_users r \<and> pl_control r2 = pl_control r"
proof (rule connect_disconnect_rule)
  have c: "list_all2 (connected_rule i) rules rules1" "caches = concat (map (\<lambda>r. map (ph_subst i) (tp_placeholders (pl_topics r))) rules)"
    using connected_rules [of i rules "[]"] assms(2) by auto
  then show "connected_rule i r (rules1 ! k)" using assms(3) by (auto simp: r_def list_all2_conv_all_nth)
  have "length rules1 = length rules" using c(1) by (simp add: list_all2_conv_all_nth)
  then show "removed_rule (id_client_id i) caches (rules1 ! k) r2"
    using removed_rules [of i caches rules1] assms(3) by (auto simp: r2_def list_all2_conv_all_nth)
  show "ph_subst i ` set (tp_placeholders (pl_topics r)) \<subseteq> set caches"
    using nth_mem [OF assms(3)] unfolding c(2) r_def by auto
qed (use assms in auto)

lemma disconnected_length: "length (acl_client_disconnected i tfs rules) = length rules"
  using removed_rules [of i tfs rules] by (simp add: list_all2_conv_all_nth)

lemma connected_no_eqs:
  "\<forall>r \<in> set rules. tp_eq_placeholders (pl_topics r) = [] \<Longrightarrow>
     \<forall>r \<in> set (fst (acl_client_connected i rules cs)). tp_eq_placeholders (pl_topics r) = []"
proof -
  assume none: "\<forall>r \<in> set rules. tp_eq_placeholders (pl_topics r) = []"
  have "tp_eq_placeholders (pl_topics r') = tp_eq_placeholders (pl_topics r)" if "connected_rule i r r'" for r r'
    using that by (auto simp: connected_rule_def)
  then show ?thesis
    using none connected_rules [of i rules cs] by (metis in_set_conv_nth list_all2_conv_all_nth)
qed

lemma same_for_trans: "same_for c a b \<Longrightarrow> same_for c b d \<Longrightarrow> same_for c a d"
  by (auto simp: same_for_def list_all2_conv_all_nth)

lemma connects_same_for:
  assumes "\<forall>i \<in> set others. id_client_id i \<noteq> c" and "\<forall>r \<in> set rules. tp_eq_placeholders (pl_topics r) = []"
  shows "same_for c rules (fold (\<lambda>i rs. fst (acl_client_connected i rs [])) others rules)"
  using assms
proof (induction others arbitrary: rules)
  case Nil
  then show ?case by (simp add: same_for_def list.rel_refl)
next
  case (Cons i others)
  have "same_for c rules (fst (acl_client_connected i rules []))" using Cons.prems by (intro connect_same_for) auto
  moreover have "same_for c (fst (acl_client_connected i rules []))
      (fold (\<lambda>i rs. fst (acl_client_connected i rs [])) others (fst (acl_client_connected i rules [])))"
    using Cons.prems connected_no_eqs by (intro Cons.IH) auto
  ultimately show ?case by (auto intro: same_for_trans)
qed

text \<open>A connected client is covered for every topic that one of its filters matches. The identifier is put into the filter as it
  is, so that a client called \<open>+\<close> is covered for the topics of all clients.\<close>

lemma placeholder_covers:
  assumes "connected_rule i r r'" and "ph \<in> set (tp_placeholders (pl_topics r))"
    and "topic_from_str (ph_subst i ph) = Inr u" and "root_match [] (levels u) (levels t)"
  shows "topics_is_match t name (id_client_id i) (pl_topics r')"
proof -
  have "levels u \<in> ph_filters i (tp_placeholders (pl_topics r))" using assms(2,3) by (auto simp: ph_filters_def)
  then have "Some (id_client_id i) \<in> tree_set (tp_tree (pl_topics r')) (levels u)"
    using assms(1) by (auto simp: connected_rule_def)
  then show ?thesis using assms(4) by (auto simp: is_match_visible)
qed

lemma ph_subst_wildcard: "ph_subst (id_from 0 1 ''+'') ''d/%c'' = ''d/+''"
  by (simp add: ph_subst_def id_from_def id_new_def PH_C_def PH_U_def starts_with_def)

text \<open>The superuser flag of a rule is the one of its last condition: a condition on the client, the address or the protocol after the
  user name takes it away.\<close>

lemma users_hit_superuser:
  "fst (users_hit ip_text i pw proto allow su (us @ [u])) \<Longrightarrow>
     snd (users_hit ip_text i pw proto allow su (us @ [u])) = snd (user_hit ip_text i pw proto allow u)"
  by (induction us arbitrary: su) (auto simp: Let_def split: prod.splits if_splits)

section \<open>Properties\<close>

text \<open>The topics a rule covers for a client: all, an exact topic, or a filter that matches by the rules of the
  standard and is entered for everyone or for this client.\<close>

definition covers :: "client_id \<Rightarrow> string \<Rightarrow> acl_topics \<Rightarrow> bool" where
  "covers c name tp \<longleftrightarrow> tp_all tp \<or> name \<in> set (tp_eqs tp) \<or>
     (\<exists>f. \<exists>v \<in> set (values_at (tp_tree tp) f). mqtt_match f (split_slash name) \<and> entry_for c v)"

definition concerns :: "(socket_addr \<Rightarrow> string) \<Rightarrow> control list \<Rightarrow> acl_client \<Rightarrow> string \<Rightarrow> plugin_rule \<Rightarrow> bool" where
  "concerns ip_text controls cl name r \<longleftrightarrow>
     pl_control r \<in> set controls \<and> fst (rule_hit ip_text (ac_id cl) (ac_password cl) (ac_protocol cl) (pl_access r = Allow) r) \<and>
     covers (id_client_id (ac_id cl)) name (pl_topics r)"

lemma rule_applies_concerns:
  assumes "topics_ok (pl_topics r)" and "topic_from_str name = Inr t" and "list_all (\<lambda>l. \<not> is_wildcard l) (levels t)"
  shows "rule_applies ip_text cs cl name r = concerns ip_text cs cl name r"
  using topics_is_match_standard [OF assms, of "id_client_id (ac_id cl)"] assms(2)
  by (auto simp: rule_applies_def concerns_def covers_def topic_or_empty_def Let_def split: prod.splits)

text \<open>C29: The access rules decide by the first rule that concerns the publication. When no earlier hook has rejected it, a publication
  to a valid name is allowed exactly when the first rule whose control, user conditions and topics (by the rules of the
  standard) concern it allows; otherwise, also when no rule concerns it, it is rejected. A rejection of an earlier hook stays.\<close>

theorem acl_publish_decision:
  assumes "\<forall>r \<in> set rules. topics_ok (pl_topics r)" and "topic_from_str (text_of (pub_topic p)) = Inr t"
    and "list_all (\<lambda>l. \<not> is_wildcard l) (levels t)"
  shows "acl_publish_check ip_text disc cl p rules acc =
    (False, if acc \<noteq> None \<and> \<not> acl_is_allow (the acc) then acc
            else if \<exists>before r after. rules = before @ r # after \<and> pl_access r = Allow \<and>
                   concerns ip_text [CPublish, CPubsub, CAll] cl (text_of (pub_topic p)) r \<and>
                   (\<forall>q \<in> set before. \<not> concerns ip_text [CPublish, CPubsub, CAll] cl (text_of (pub_topic p)) q)
            then Some acl_allow else Some (acl_rejected disc None))"
proof -
  let ?P = "rule_applies ip_text [CPublish, CPubsub, CAll] cl (text_of (pub_topic p))"
  have "(\<exists>before r after. rules = before @ r # after \<and> ?P r \<and> pl_access r = Allow \<and> (\<forall>q \<in> set before. \<not> ?P q)) \<longleftrightarrow>
      (\<exists>before r after. rules = before @ r # after \<and> pl_access r = Allow \<and>
         concerns ip_text [CPublish, CPubsub, CAll] cl (text_of (pub_topic p)) r \<and>
         (\<forall>q \<in> set before. \<not> concerns ip_text [CPublish, CPubsub, CAll] cl (text_of (pub_topic p)) q))"
    using rule_applies_concerns [OF _ assms(2,3)] assms(1) by (metis Un_iff list.set_intros(1) set_append)
  then have first: "first_access ?P rules = Some Allow \<longleftrightarrow> (\<exists>before r after. rules = before @ r # after \<and> pl_access r = Allow \<and>
         concerns ip_text [CPublish, CPubsub, CAll] cl (text_of (pub_topic p)) r \<and>
         (\<forall>q \<in> set before. \<not> concerns ip_text [CPublish, CPubsub, CAll] cl (text_of (pub_topic p)) q))"
    by (simp only: first_access_split)
  show ?thesis
    unfolding acl_publish_check_def first [symmetric]
    by (cases acc; cases "first_access ?P rules"; cases "the (first_access ?P rules)") auto
qed

definition ex_topics :: "string list \<Rightarrow> string list \<Rightarrow> topic list \<Rightarrow> acl_topics" where
  "ex_topics phs eqphs ts = \<lparr>tp_all = False, tp_eqs = [], tp_eq_placeholders = eqphs,
     tp_tree = fold (\<lambda>t n. snd (node_insert t None n)) ts node_default, tp_placeholders = phs\<rparr>"

definition ex_rules :: "plugin_rule list" where
  "ex_rules =
     [\<lparr>pl_access = Allow, pl_users = [U_All], pl_control = CPubsub, pl_topics = ex_topics [''d/%c''] [] []\<rparr>,
      \<lparr>pl_access = Deny, pl_users = [U_All], pl_control = CAll, pl_topics = ex_topics [] [] [Topic [Normal ''d'', Normal ''x'']]\<rparr>]"

definition ex_client :: "client_id \<Rightarrow> acl_client" where
  "ex_client c = \<lparr>ac_id = id_from 0 1 c, ac_password = None, ac_protocol = None\<rparr>"

definition ex_acl_pub :: publish where
  "ex_acl_pub = \<lparr>pub_dup = False, pub_retain = False, pub_qos = AtMostOnce, pub_topic = text_bytes ''d/x'',
     pub_packet_id = None, pub_payload = [], pub_properties = None\<rparr>"

lemmas ex_acl_parse = topic_from_str_def level_from_str_def topic_is_valid_levels contains_wildcard_def str_is_metadata_def

lemma ex_rules_ok: "\<forall>r \<in> set ex_rules. topics_ok (pl_topics r)"
proof -
  have "topic_from_str ''d/x'' = Inr (Topic [Normal ''d'', Normal ''x''])" by (simp add: ex_acl_parse)
  then have "topics_ok (ex_topics [] [] [Topic [Normal ''d'', Normal ''x'']])"
    unfolding topics_ok_def ex_topics_def
    using tree.ins_inv [OF tree.empty_inv, of "Topic [Normal ''d'', Normal ''x'']" "None :: client_id option"]
      tree.ins_at [of "Topic [Normal ''d'', Normal ''x'']" "None :: client_id option" node_default]
    by (auto simp: set_empty2 simp flip: set_empty2 split: if_splits) fastforce
  then show ?thesis by (auto simp: ex_rules_def topics_ok_def ex_topics_def)
qed

theorem acl_publish_decision_witness:
  "acl_publish_check (\<lambda>_. []) True (ex_client ''y'') ex_acl_pub ex_rules None =
    (False, if \<exists>before r after. ex_rules = before @ r # after \<and> pl_access r = Allow \<and>
                   concerns (\<lambda>_. []) [CPublish, CPubsub, CAll] (ex_client ''y'') (text_of (pub_topic ex_acl_pub)) r \<and>
                   (\<forall>q \<in> set before. \<not> concerns (\<lambda>_. []) [CPublish, CPubsub, CAll] (ex_client ''y'') (text_of (pub_topic ex_acl_pub)) q)
            then Some acl_allow else Some (acl_rejected True None))"
proof -
  have "topic_from_str (text_of (pub_topic ex_acl_pub)) = Inr (Topic [Normal ''d'', Normal ''x''])"
    by (simp add: ex_acl_pub_def ex_acl_parse)
  from acl_publish_decision [OF ex_rules_ok this, of "\<lambda>_. []" True "ex_client ''y''" None] show ?thesis
    by (simp add: is_wildcard_def)
qed

text \<open>C30: Clients do not change each other's permissions. Without exact topics that have placeholders, the connections of other clients,
  however many, change neither the decision on a publication nor the one on a subscription of a client.\<close>

theorem acl_clients_isolated:
  assumes "\<forall>i \<in> set others. id_client_id i \<noteq> id_client_id (ac_id cl)" and "\<forall>r \<in> set rules. tp_eq_placeholders (pl_topics r) = []"
  defines "rules' \<equiv> fold (\<lambda>i rs. fst (acl_client_connected i rs [])) others rules"
  shows "acl_publish_check ip_text disc cl p rules' acc = acl_publish_check ip_text disc cl p rules acc \<and>
    acl_subscribe_check ip_text cl sub rules' acc' = acl_subscribe_check ip_text cl sub rules acc'"
  using same_for_first [OF connects_same_for [OF assms(1,2)], of ip_text]
  by (simp add: rules'_def acl_publish_check_def acl_subscribe_check_def)

lemma ex_rules_no_eqs: "\<forall>r \<in> set ex_rules. tp_eq_placeholders (pl_topics r) = []"
  by (simp add: ex_rules_def ex_topics_def)

theorem acl_clients_isolated_witness:
  "acl_publish_check (\<lambda>_. []) True (ex_client ''y'') ex_acl_pub
      (fold (\<lambda>i rs. fst (acl_client_connected i rs [])) [id_from 0 1 ''x'', id_from 0 1 ''z''] ex_rules) None
    = acl_publish_check (\<lambda>_. []) True (ex_client ''y'') ex_acl_pub ex_rules None"
  using acl_clients_isolated [of "[id_from 0 1 ''x'', id_from 0 1 ''z'']" "ex_client ''y''", OF _ ex_rules_no_eqs]
  by (simp add: ex_client_def id_from_def id_new_def)

text \<open>A connection leaves no trace in the trees. When a client that has no entries connects and disconnects, every decision
  for every client is afterwards the one before, if the rules have no exact topics with placeholders.\<close>

theorem acl_disconnect_restores:
  assumes "\<forall>r \<in> set rules. tp_eq_placeholders (pl_topics r) = []"
    and "\<And>r f. r \<in> set rules \<Longrightarrow> Some (id_client_id i) \<notin> set (values_at (tp_tree (pl_topics r)) f)"
    and "acl_client_connected i rules [] = (rules1, caches)"
  shows "acl_publish_check ip_text disc cl p (acl_client_disconnected i caches rules1) acc
    = acl_publish_check ip_text disc cl p rules acc"
proof -
  let ?rules2 = "acl_client_disconnected i caches rules1" and ?c = "id_client_id (ac_id cl)"
  have len: "length ?rules2 = length rules"
    using connected_rules [of i rules "[]"] assms(3) by (simp add: disconnected_length list_all2_conv_all_nth)
  have "same_for ?c rules ?rules2"
    unfolding same_for_def list_all2_conv_all_nth
  proof (intro conjI allI impI)
    fix k assume k: "k < length rules"
    note eff = connect_disconnect [of rules i rules1 caches k, OF assms(2) [folded tree_set_def] assms(3) k]
    have none: "tp_eq_placeholders (pl_topics (rules ! k)) = []" using assms(1) k by simp
    show "topics_is_match t name ?c (pl_topics (?rules2 ! k)) = topics_is_match t name ?c (pl_topics (rules ! k))" for t name
      using eff none by (simp add: is_match_visible)
    show "pl_access (?rules2 ! k) = pl_access (rules ! k)" "pl_users (?rules2 ! k) = pl_users (rules ! k)"
      "pl_control (?rules2 ! k) = pl_control (rules ! k)" using eff by simp_all
  qed (simp add: len)
  from same_for_first [OF this, of ip_text] show ?thesis by (simp add: acl_publish_check_def)
qed

lemma ex_rules_no_entries: "r \<in> set ex_rules \<Longrightarrow> Some c \<notin> set (values_at (tp_tree (pl_topics r)) f)"
proof -
  have "set (values_at (snd (node_insert (Topic [Normal ''d'', Normal ''x'']) (None :: client_id option) node_default)) f) \<subseteq> {None}"
    by (subst tree.ins_at) simp
  then show "r \<in> set ex_rules \<Longrightarrow> Some c \<notin> set (values_at (tp_tree (pl_topics r)) f)"
    by (auto simp: ex_rules_def ex_topics_def)
qed

theorem acl_disconnect_restores_witness:
  "acl_publish_check (\<lambda>_. []) True (ex_client ''y'') ex_acl_pub
      (acl_client_disconnected (id_from 0 1 ''x'') (snd (acl_client_connected (id_from 0 1 ''x'') ex_rules []))
         (fst (acl_client_connected (id_from 0 1 ''x'') ex_rules []))) None
    = acl_publish_check (\<lambda>_. []) True (ex_client ''y'') ex_acl_pub ex_rules None"
  by (rule acl_disconnect_restores [OF ex_rules_no_eqs ex_rules_no_entries prod.collapse [symmetric]])

text \<open>An exact topic with a placeholder is open to everyone. Once a client has connected, the exact topic that a rule gives for
  it is covered by the rule for every client, and it stays so after the client has disconnected.\<close>

theorem eq_placeholder_leaks:
  assumes "k < length rules" and "ph \<in> set (tp_eq_placeholders (pl_topics (rules ! k)))"
    and "acl_client_connected i rules [] = (rules1, caches)"
  shows "topics_is_match t (ph_subst i ph) c (pl_topics (rules1 ! k)) \<and>
    topics_is_match t (ph_subst i ph) c (pl_topics (acl_client_disconnected i caches rules1 ! k))"
proof -
  have conn: "list_all2 (connected_rule i) rules rules1" using connected_rules [of i rules "[]"] assms(3) by simp
  then have r1: "ph_subst i ph \<in> set (tp_eqs (pl_topics (rules1 ! k)))"
    using assms(1,2) by (auto simp: list_all2_conv_all_nth connected_rule_def)
  have "removed_rule (id_client_id i) caches (rules1 ! k) (acl_client_disconnected i caches rules1 ! k)"
    using removed_rules [of i caches rules1] conn assms(1) by (auto simp: list_all2_conv_all_nth)
  then have "tp_eqs (pl_topics (acl_client_disconnected i caches rules1 ! k)) = tp_eqs (pl_topics (rules1 ! k))"
    by (auto simp: removed_rule_def)
  with r1 show ?thesis by (simp add: topics_is_match_iff)
qed

definition ex_eq_rules :: "plugin_rule list" where
  "ex_eq_rules = [\<lparr>pl_access = Allow, pl_users = [U_All], pl_control = CPubsub, pl_topics = ex_topics [] [''d/%c''] []\<rparr>]"

theorem eq_placeholder_leaks_witness:
  "topics_is_match (Topic [Normal ''d'', Normal ''x'']) ''d/x'' ''thief''
     (pl_topics (fst (acl_client_connected (id_from 0 1 ''x'') ex_eq_rules []) ! 0))"
proof -
  have "ph_subst (id_from 0 1 ''x'') ''d/%c'' = ''d/x''"
    by (simp add: ph_subst_def id_from_def id_new_def PH_C_def PH_U_def starts_with_def)
  then show ?thesis
    using eq_placeholder_leaks [of 0 ex_eq_rules "''d/%c''" "id_from 0 1 ''x''" _ _ _ "''thief''", OF _ _ prod.collapse [symmetric]]
    by (simp add: ex_eq_rules_def ex_topics_def)
qed

text \<open>A subscription with wildcards escapes the rules for the topics that it covers. A rule whose filters have no wildcards does
  not apply to a subscription whose filter has one, also when the filter matches a topic of the rule.\<close>

theorem wildcard_subscription_escapes:
  assumes "\<not> tp_all tp" and "flt \<notin> set (tp_eqs tp)" and "topic_from_str flt = Inr t" and "\<exists>l \<in> set (levels t). is_wildcard l"
    and "\<And>f. values_at (tp_tree tp) f \<noteq> [] \<Longrightarrow> list_all (\<lambda>l. \<not> is_wildcard l) f"
  shows "\<not> topics_is_match (topic_or_empty flt) flt c tp"
proof -
  have plain: "path_match f p \<Longrightarrow> list_all (\<lambda>l. \<not> is_wildcard l) f \<Longrightarrow> f = p" for f p
    by (induction f p rule: path_match.induct) (auto simp: is_wildcard_def split: list.splits)
  have "\<not> root_match [] f (levels t)" if "v \<in> set (values_at (tp_tree tp) f)" for f v
  proof
    assume m: "root_match [] f (levels t)"
    have "values_at (tp_tree tp) f \<noteq> []" using that by auto
    then have "list_all (\<lambda>l. \<not> is_wildcard l) f" by (rule assms(5))
    then show False using plain [of f "levels t"] m assms(4) by (auto simp: root_match_def list_all_iff)
  qed
  then show ?thesis using assms(1-3) by (auto simp: topics_is_match_iff topic_or_empty_def)
qed

theorem wildcard_subscription_escapes_witness:
  "\<not> topics_is_match (topic_or_empty ''d/+'') ''d/+'' ''y'' (pl_topics (ex_rules ! 1)) \<and>
   mqtt_match [Normal ''d'', SingleWildcard] (split_slash ''d/x'')"
proof -
  have "topic_from_str ''d/+'' = Inr (Topic [Normal ''d'', SingleWildcard])" by (simp add: ex_acl_parse)
  moreover have "list_all (\<lambda>l. \<not> is_wildcard l) f" if "values_at (tp_tree (pl_topics (ex_rules ! 1))) f \<noteq> []" for f
    using that tree.ins_at [of "Topic [Normal ''d'', Normal ''x'']" "None :: client_id option" node_default f]
    by (auto simp: ex_rules_def ex_topics_def is_wildcard_def split: if_splits)
  ultimately have "\<not> topics_is_match (topic_or_empty ''d/+'') ''d/+'' ''y'' (pl_topics (ex_rules ! 1))"
    by (intro wildcard_subscription_escapes) (auto simp: ex_rules_def ex_topics_def is_wildcard_def)
  then show ?thesis by (simp add: mqtt_match_def is_wildcard_def)
qed

end
