(* ===== verification/Handshake.thy ===== *)
theory Handshake
  imports Session_Delivery Acl
begin

text \<open>
  The connection of a client: the fitter that negotiates its parameters (\<open>ferromq/src/fitter.rs\<close>), the decision on its
  authentication (\<open>hook.rs\<close>, \<open>client_authenticate\<close>), the eviction of an existing session (\<open>shared.rs\<close>, \<open>kick\<close>), the creation of the
  session (\<open>session.rs\<close>, \<open>new\<close>) and the handshakes of both versions (\<open>v3.rs\<close>, \<open>v5.rs\<close>) from the CONNECT packet to the CONNACK.

  Parameters (record \<open>hs_env\<close>): the clock, the answers of hooks and plug-ins, whether the lock of the client is free, how the wait for
  an evicted session ends and what that session then hands over. Durations are in milliseconds. The factor of the keep-alive is a
  floating-point number; \<open>fc_keepalive_scaled\<close> stands for the product, truncated to 16 bits. Reading CONNECT, the limit
  on concurrent handshakes and the metrics are not modelled.

  Shown: what the negotiated values are bounded by; a connection that is refused before the eviction changes nothing, one that is
  refused for its keep-alive has already lost the existing session; an accepted connection owns the entry of its client,
  respects the limit of sessions, and after the transfer of the previous session the router agrees with all
  session tables again.
\<close>

section \<open>Negotiated parameters\<close>

record fitter_cfg =
  fc_allow_zero_keepalive :: bool
  fc_min_keepalive :: u16
  fc_max_keepalive :: u16
  fc_keepalive_scaled :: "u16 \<Rightarrow> u16"
  fc_max_mqueue_len :: nat
  fc_max_inflight :: u16
  fc_session_expiry_interval :: nat
  fc_max_session_expiry_interval :: nat
  fc_message_expiry_interval :: nat
  fc_message_retry_interval :: nat
  fc_max_topic_aliases :: u16

record fitter =
  ft_conn_info :: connect_info
  ft_cfg :: fitter_cfg

datatype keep_alive_error = KeepaliveZero | KeepaliveTooSmall u16 | KeepaliveTooLarge u16

text \<open>\<open>from_secs\<close>.\<close>

definition from_secs :: "u32 \<Rightarrow> nat" where
  "from_secs s = unat s * 1000"

text \<open>The result is the timeout of the connection and the value that is left in \<open>keep_alive\<close>.\<close>

definition fit_keep_alive :: "fitter \<Rightarrow> u16 \<Rightarrow> (keep_alive_error + u16) \<times> u16" where
  "fit_keep_alive ft keep_alive =
     (let cfg = ft_cfg ft;
          timeout = (\<lambda>k. if k < 6 then k + 3 else fc_keepalive_scaled cfg k)
      in if ci_proto_ver (ft_conn_info ft) = MQTT_LEVEL_5 then
           (if keep_alive = 0 then
              (if fc_allow_zero_keepalive cfg then (Inr 0, keep_alive) else (Inl KeepaliveZero, keep_alive))
            else if keep_alive < fc_min_keepalive cfg then
              (Inr (timeout (fc_min_keepalive cfg)), fc_min_keepalive cfg)
            else if keep_alive > fc_max_keepalive cfg then
              (Inr (timeout (fc_max_keepalive cfg)), fc_max_keepalive cfg)
            else (Inr (timeout keep_alive), keep_alive))
         else if keep_alive = 0 then
           (if fc_allow_zero_keepalive cfg then (Inr 0, keep_alive) else (Inl KeepaliveZero, keep_alive))
         else if keep_alive < fc_min_keepalive cfg then (Inl (KeepaliveTooSmall (fc_min_keepalive cfg)), keep_alive)
         else if keep_alive > fc_max_keepalive cfg then (Inl (KeepaliveTooLarge (fc_max_keepalive cfg)), keep_alive)
         else (Inr (timeout keep_alive), keep_alive))"

definition fit_max_mqueue_len :: "fitter \<Rightarrow> nat" where
  "fit_max_mqueue_len ft = fc_max_mqueue_len (ft_cfg ft)"

definition fit_max_inflight :: "fitter \<Rightarrow> u16" where
  "fit_max_inflight ft =
     (case (case ft_conn_info ft of CI_V5 _ c \<Rightarrow> c5_receive_max c | CI_V3 _ _ \<Rightarrow> None) of
        Some receive_max \<Rightarrow> min (fc_max_inflight (ft_cfg ft)) receive_max
      | None \<Rightarrow> fc_max_inflight (ft_cfg ft))"

definition fit_session_expiry_interval :: "fitter \<Rightarrow> broker_disconnect option \<Rightarrow> nat" where
  "fit_session_expiry_interval ft d =
     (let cfg = ft_cfg ft;
          expiry_interval = (case ft_conn_info ft of
                               CI_V5 _ c \<Rightarrow> from_secs (c5_session_expiry_interval_secs c)
                             | CI_V3 _ _ \<Rightarrow> fc_session_expiry_interval cfg);
          interval = (case d of
                        Some (D_V5 d) \<Rightarrow> (case di_session_expiry_interval_secs d of
                                           Some secs \<Rightarrow> from_secs secs
                                         | None \<Rightarrow> expiry_interval)
                      | _ \<Rightarrow> expiry_interval)
      in if fc_max_session_expiry_interval cfg = 0 then interval
         else min interval (fc_max_session_expiry_interval cfg))"

definition fit_message_expiry_interval :: "fitter \<Rightarrow> publish \<Rightarrow> nat" where
  "fit_message_expiry_interval ft p =
     (case Option.bind (pub_properties p) pp_message_expiry_interval of
        Some i \<Rightarrow> from_secs i
      | None \<Rightarrow> fc_message_expiry_interval (ft_cfg ft))"

definition fit_max_client_topic_aliases :: "fitter \<Rightarrow> u16" where
  "fit_max_client_topic_aliases ft =
     (case ft_conn_info ft of CI_V5 _ _ \<Rightarrow> fc_max_topic_aliases (ft_cfg ft) | CI_V3 _ _ \<Rightarrow> 0)"

definition fit_max_server_topic_aliases :: "fitter \<Rightarrow> u16" where
  "fit_max_server_topic_aliases ft =
     (case ft_conn_info ft of
        CI_V5 _ c \<Rightarrow> min (c5_topic_alias_max c) (fc_max_topic_aliases (ft_cfg ft))
      | CI_V3 _ _ \<Rightarrow> 0)"

section \<open>Authentication\<close>

text \<open>\<open>result\<close> is what the chain of hooks returns.\<close>

definition connack_of :: "u8 \<Rightarrow> connect_ack_reason3 \<Rightarrow> connect_ack_reason5 \<Rightarrow> any_connack_reason" where
  "connack_of proto_ver r3 r5 = (if proto_ver = MQTT_LEVEL_5 then CAR_V5 r5 else CAR_V3 r3)"

definition client_authenticate ::
  "connect_info \<Rightarrow> bool \<Rightarrow> auth_result option \<Rightarrow> any_connack_reason \<times> bool \<times> auth_info option" where
  "client_authenticate ci allow_anonymous result =
     (let proto_ver = ci_proto_ver ci;
          ok = connack_of proto_ver CAR3_ConnectionAccepted CAR5_Success;
          not_auth = connack_of proto_ver CAR3_NotAuthorized CAR5_NotAuthorized;
          bad_user = connack_of proto_ver CAR3_BadUserNameOrPassword CAR5_BadUserNameOrPassword
      in if ci_username ci = None \<and> allow_anonymous then (ok, False, None)
         else case result of
           Some AR_BadUsernameOrPassword \<Rightarrow> (bad_user, False, None)
         | Some AR_NotAuthorized \<Rightarrow> (not_auth, False, None)
         | Some (AR_Allow superuser auth_info) \<Rightarrow> (ok, superuser, auth_info)
         | _ \<Rightarrow> (if allow_anonymous then (ok, False, None) else (not_auth, False, None)))"

section \<open>The state of the node and the environment\<close>

datatype hook_event =
    HClientConnect ident | HSessionCreated ident | HClientConnack ident any_connack_reason | HClientConnected ident

record hs_world =
  hw_broker :: broker
  hw_sessions :: counter
  hw_in_stat :: counter
  hw_out_stat :: counter
  hw_delayed :: "delayed_publish list \<times> counter"
  hw_hooks :: "hook_event list"

datatype kick_wait = KW_Done | KW_RecvError | KW_Timeout

datatype offline_session = OS_NotExist | OS_Exist "offline_info option"

record hs_env =
  he_now :: timestamp
  he_cfg :: fitter_cfg
  he_elapsed :: bool
  he_max_clientid_len :: nat
  he_allow_anonymous :: bool
  he_max_sessions :: int
  he_retain_enabled :: bool
  he_shared_supported :: bool
  he_max_qos :: qos
  he_max_packet_size :: u32
  he_auth :: "connect_info \<Rightarrow> auth_result option"
  he_lock_free :: bool
  he_kick_wait :: kick_wait
  he_offline_info :: "peer \<Rightarrow> offline_info option"
  he_auto_subs :: "ident \<Rightarrow> (string + broker_subscribe list) option"
  he_uuid :: string
  he_node_id :: node_id
  he_lid :: u16
  he_laddr :: socket_addr
  he_remote_addr :: socket_addr

section \<open>Eviction\<close>

text \<open>What the evicted session itself does while it is waited for is not part of this step.\<close>

definition entry_kick :: "hs_env \<Rightarrow> bool \<Rightarrow> bool \<Rightarrow> bool \<Rightarrow> ident \<Rightarrow> broker \<Rightarrow> (string + offline_session) \<times> broker" where
  "entry_kick env clean_start clear_subscriptions is_admin i b =
     (let (fail, b) =
            (case map_of (br_peers b) (id_client_id i) of
               Some p \<Rightarrow>
                 (case tx_send (MKick i clean_start is_admin) p of
                    (True, p) \<Rightarrow> (he_kick_wait env = KW_RecvError, b\<lparr>br_peers := AList.update (id_client_id i) p (br_peers b)\<rparr>)
                  | (False, _) \<Rightarrow> (False, b))
             | None \<Rightarrow> (False, b))
      in if fail then (Inl ''recv kick result'', b)
         else case entry_remove clear_subscriptions i b of
                (Some p, b) \<Rightarrow> (Inr (OS_Exist (if clean_start then None else he_offline_info env p)), b)
              | (None, b) \<Rightarrow> (Inr OS_NotExist, b))"

section \<open>The new session\<close>

text \<open>\<open>SessionState::new\<close> and \<open>Session::new\<close>.\<close>

definition session_new ::
  "'q deque_ops \<Rightarrow> ident \<Rightarrow> fitter \<Rightarrow> u16 \<Rightarrow> u16 \<Rightarrow> hs_world \<Rightarrow> 'q session" where
  "session_new ops i ft server_topic_alias_max client_topic_alias_max w =
     \<lparr>se_id = i, se_connect_info = ft_conn_info ft,
      se_version = (case ft_conn_info ft of CI_V3 _ _ \<Rightarrow> SinkV3 | CI_V5 _ _ \<Rightarrow> SinkV5),
      se_in = ii_new (fc_max_inflight (ft_cfg ft)), se_in_stat = hw_in_stat w,
      se_out = oi_on_pop counter_dec (oi_on_push counter_inc
                 (oi_new ops (unat (fit_max_inflight ft)) (int (fc_message_retry_interval (ft_cfg ft)))
                    (int (fc_message_expiry_interval (ft_cfg ft))))),
      se_out_stat = hw_out_stat w,
      se_server_aliases = (if server_topic_alias_max > 0 then Some (server_aliases_new (unat server_topic_alias_max)) else None),
      se_client_aliases = (if client_topic_alias_max > 0 then Some (client_aliases_new (unat client_topic_alias_max)) else None),
      se_broker = hw_broker w, se_delayed = hw_delayed w,
      se_flags = \<lparr>fl_kicked = False, fl_by_admin_kick = False, fl_disconnect_received = False, fl_clean_start = False, fl_ping = False\<rparr>,
      se_disconnect_info = \<lparr>din_disconnected_at = 0, din_reasons = [], din_mqtt_disconnect = None\<rparr>,
      se_sent = [], se_forwarded = [], se_acked = [], se_dropped = [],
      se_queue = queue_on_pop (queue_on_push (queue_new (fit_max_mqueue_len ft))), se_tx = []\<rparr>"

definition new_peer :: "ident \<Rightarrow> peer" where
  "new_peer i = \<lparr>pe_id = i, pe_subs = [], pe_tx = [], pe_tx_open = True, pe_connected = True\<rparr>"

definition fire :: "hook_event \<Rightarrow> hs_world \<Rightarrow> hs_world" where
  "fire h w = w\<lparr>hw_hooks := hw_hooks w @ [h]\<rparr>"

section \<open>The handshakes\<close>

record established =
  es_session_present :: bool
  es_superuser :: bool
  es_auth_info :: "auth_info option"
  es_created_at :: timestamp
  es_connected_at :: timestamp
  es_last_id :: "ident option"
  es_max_inflight :: u16
  es_server_keepalive :: u16
  es_keep_alive :: u16

text \<open>The checks between the limit of sessions and the lock, which both versions have.\<close>

definition hs_admit ::
  "hs_env \<Rightarrow> ident \<Rightarrow> connect_info \<Rightarrow> any_connack_reason \<Rightarrow> hs_world \<Rightarrow> any_connack_reason + (bool \<times> auth_info option)" where
  "hs_admit env i ci unavailable w =
     (if he_max_sessions env > 0 \<and> cnt_current (hw_sessions w) \<ge> he_max_sessions env \<and> \<not> entry_exist i (hw_broker w)
      then Inl unavailable
      else (let (ack, superuser, auth_info) = client_authenticate ci (he_allow_anonymous env) (he_auth env ci)
            in if \<not> car_success ack then Inl ack
               else if \<not> he_lock_free env then Inl unavailable
               else Inr (superuser, auth_info)))"

text \<open>From the eviction to the automatic subscriptions. A session that is dropped is no longer counted; its channel is closed
  when its state is dropped after the entry has been set.\<close>

definition hs_establish ::
  "'q deque_ops \<Rightarrow> hs_env \<Rightarrow> ident \<Rightarrow> connect_info \<Rightarrow> any_connack_reason \<Rightarrow> any_connack_reason \<Rightarrow> bool \<times> auth_info option \<Rightarrow>
     hs_world \<Rightarrow> (any_connack_reason + 'q session \<times> established) \<times> hs_world" where
  "hs_establish ops env i ci success unavailable auth w =
     (let clean_session = ci_clean_start ci
      in case entry_kick env clean_session clean_session False i (hw_broker w) of
        (Inl _, b) \<Rightarrow> (Inl unavailable, w\<lparr>hw_broker := b\<rparr>)
      | (Inr offline, b) \<Rightarrow>
          (let w = w\<lparr>hw_broker := b\<rparr>;
               (session_present, offline_info) =
                 (case offline of
                    OS_NotExist \<Rightarrow> (False, None)
                  | OS_Exist (Some off) \<Rightarrow> (\<not> clean_session, Some off)
                  | OS_Exist None \<Rightarrow> (False, None));
               connected_at = he_now env;
               created_at = (case offline_info of Some off \<Rightarrow> of_created_at off | None \<Rightarrow> connected_at);
               ft = \<lparr>ft_conn_info = ci, ft_cfg = he_cfg env\<rparr>;
               w = w\<lparr>hw_sessions := counter_inc (hw_sessions w)\<rparr>
           in case fit_keep_alive ft (ci_keep_alive ci) of
                (Inl _, _) \<Rightarrow> (Inl unavailable, w\<lparr>hw_sessions := counter_dec (hw_sessions w)\<rparr>)
              | (Inr keep_alive, server_keepalive) \<Rightarrow>
                  (let w = (if offline_info = None then fire (HSessionCreated i) w else w);
                       w = w\<lparr>hw_broker := entry_set i (new_peer i) (hw_broker w)\<rparr>;
                       w = fire (HClientConnected i) (fire (HClientConnack i success) w);
                       s = session_new ops i ft (fit_max_server_topic_aliases ft) (fit_max_client_topic_aliases ft) w;
                       s = (case offline_info of
                              Some off \<Rightarrow> s\<lparr>se_tx := se_tx s @ [MSessionStateTransfer off clean_session]\<rparr>
                            | None \<Rightarrow> s)
                   in case he_auto_subs env i of
                        Some (Inl _) \<Rightarrow>
                          (Inl unavailable, w\<lparr>hw_broker := entry_set i ((new_peer i)\<lparr>pe_tx_open := False\<rparr>) (hw_broker w)\<rparr>)
                      | auto_subs \<Rightarrow>
                          (let s = (case auto_subs of Some (Inr subs) \<Rightarrow> s\<lparr>se_tx := se_tx s @ [MSubscribes subs]\<rparr> | _ \<Rightarrow> s)
                           in (Inr (s, \<lparr>es_session_present = session_present, es_superuser = fst auth, es_auth_info = snd auth,
                                 es_created_at = created_at, es_connected_at = connected_at, es_last_id = map_option of_id offline_info,
                                 es_max_inflight = fit_max_inflight ft, es_server_keepalive = server_keepalive,
                                 es_keep_alive = keep_alive\<rparr>), w)))))"

definition v3_handshake ::
  "'q deque_ops \<Rightarrow> hs_env \<Rightarrow> ident \<Rightarrow> connect3 \<Rightarrow> hs_world \<Rightarrow> (any_connack_reason + 'q session \<times> established) \<times> hs_world" where
  "v3_handshake ops env i c w =
     (let ci = CI_V3 i c; unavailable = CAR_V3 CAR3_ServiceUnavailable;
          w = fire (HClientConnect i) w
      in if he_elapsed env then (Inl unavailable, w)
         else if he_max_clientid_len env > 0 \<and> length (id_client_id i) > he_max_clientid_len env
         then (Inl (CAR_V3 CAR3_IdentifierRejected), w)
         else case hs_admit env i ci unavailable w of
                Inl r \<Rightarrow> (Inl r, w)
              | Inr auth \<Rightarrow> hs_establish ops env i ci (CAR_V3 CAR3_ConnectionAccepted) unavailable auth w)"

text \<open>The CONNACK of MQTT 5.\<close>

definition v5_connack :: "hs_env \<Rightarrow> ident \<Rightarrow> connect_info \<Rightarrow> bool \<Rightarrow> established \<Rightarrow> connect_ack5" where
  "v5_connack env i ci is_assigned_client_id e =
     (let ft = \<lparr>ft_conn_info = ci, ft_cfg = he_cfg env\<rparr>;
          session_expiry_interval = (word_of_nat (fit_session_expiry_interval ft None div 1000) :: u32)
      in connect_ack5_default
           \<lparr>cak_session_present := es_session_present e,
            cak_server_keepalive_sec := Some (es_server_keepalive e),
            cak_session_expiry_interval_secs := (if session_expiry_interval > 0 then Some session_expiry_interval else None),
            cak_receive_max := es_max_inflight e,
            cak_max_qos := he_max_qos env,
            cak_retain_available := he_retain_enabled env,
            cak_max_packet_size := Some (he_max_packet_size env),
            cak_assigned_client_id := (if is_assigned_client_id then Some (text_bytes (id_client_id i)) else None),
            cak_topic_alias_max := fit_max_client_topic_aliases ft,
            cak_wildcard_subscription_available := True,
            cak_subscription_identifiers_available := True,
            cak_shared_subscription_available := he_shared_supported env\<rparr>)"

definition v5_handshake ::
  "'q deque_ops \<Rightarrow> hs_env \<Rightarrow> ident \<Rightarrow> connect5 \<Rightarrow> bool \<Rightarrow> hs_world \<Rightarrow>
     (any_connack_reason + 'q session \<times> connect_ack5 \<times> established) \<times> hs_world" where
  "v5_handshake ops env i c is_assigned_client_id w =
     (let ci = CI_V5 i c; unavailable = CAR_V5 CAR5_ServerUnavailable;
          w = fire (HClientConnect i) w
      in if he_elapsed env then (Inl unavailable, w)
         else if he_max_clientid_len env > 0 \<and> length (id_client_id i) > he_max_clientid_len env
         then (Inl (CAR_V5 CAR5_ClientIdentifierNotValid), w)
         else if ci_auth_method ci \<noteq> None then (Inl (CAR_V5 CAR5_BadAuthenticationMethod), w)
         else if (case ci_last_will ci of Some lw \<Rightarrow> lw_retain lw | None \<Rightarrow> False) \<and> \<not> he_retain_enabled env
         then (Inl (CAR_V5 CAR5_RetainNotSupported), w)
         else case hs_admit env i ci unavailable w of
                Inl r \<Rightarrow> (Inl r, w)
              | Inr auth \<Rightarrow>
                  (case hs_establish ops env i ci (CAR_V5 CAR5_Success) unavailable auth w of
                     (Inl r, w) \<Rightarrow> (Inl r, w)
                   | (Inr (s, e), w) \<Rightarrow> (Inr (s, v5_connack env i ci is_assigned_client_id e, e), w)))"

section \<open>From CONNECT to CONNACK\<close>

text \<open>The identifier of the connection, chosen by the server when the client sends none.\<close>

definition hs_ident :: "hs_env \<Rightarrow> string \<Rightarrow> bytes option \<Rightarrow> ident" where
  "hs_ident env client_id username =
     id_new (he_now env) (he_node_id env) (he_lid env) (Some (he_laddr env)) (Some (he_remote_addr env)) client_id (map_option text_of username)"

definition v3_connect ::
  "'q deque_ops \<Rightarrow> hs_env \<Rightarrow> connect3 \<Rightarrow> hs_world \<Rightarrow> (connect_ack_reason3 \<times> bool) \<times> ('q session \<times> u16) option \<times> hs_world" where
  "v3_connect ops env c w =
     (let refused = (\<lambda>r. (case r of CAR_V3 a \<Rightarrow> a | _ \<Rightarrow> CAR3_ServiceUnavailable, False))
      in if c3_client_id c = [] \<and> \<not> c3_clean_session c then (refused (CAR_V3 CAR3_IdentifierRejected), None, w)
         else (let c = (if c3_client_id c = [] then c\<lparr>c3_client_id := text_bytes (he_uuid env)\<rparr> else c);
                   i = hs_ident env (text_of (c3_client_id c)) (c3_username c)
               in case v3_handshake ops env i c w of
                    (Inl r, w) \<Rightarrow> (refused r, None, w)
                  | (Inr (s, e), w) \<Rightarrow> ((CAR3_ConnectionAccepted, es_session_present e), Some (s, es_keep_alive e), w)))"

definition v5_connect ::
  "'q deque_ops \<Rightarrow> hs_env \<Rightarrow> connect5 \<Rightarrow> hs_world \<Rightarrow> connect_ack5 \<times> ('q session \<times> u16) option \<times> hs_world" where
  "v5_connect ops env c w =
     (let refused = (\<lambda>r. connect_ack5_default\<lparr>cak_reason_code := (case r of CAR_V5 a \<Rightarrow> a | _ \<Rightarrow> CAR5_ServerUnavailable)\<rparr>);
          assigned = (c5_client_id c = []);
          c = (if assigned then c\<lparr>c5_client_id := text_bytes (he_uuid env)\<rparr> else c);
          i = hs_ident env (text_of (c5_client_id c)) (c5_username c)
      in case v5_handshake ops env i c assigned w of
           (Inl r, w) \<Rightarrow> (refused r, None, w)
         | (Inr (s, ack, e), w) \<Rightarrow> (ack, Some (s, es_keep_alive e), w))"

section \<open>What the parameters are bounded by\<close>

lemma fit_keep_alive_bounds:
  assumes "fit_keep_alive ft k = (Inr t, k')" and "fc_min_keepalive (ft_cfg ft) \<le> fc_max_keepalive (ft_cfg ft)"
  shows "(k = 0 \<and> k' = 0 \<and> t = 0 \<and> fc_allow_zero_keepalive (ft_cfg ft)) \<or>
    (k \<noteq> 0 \<and> fc_min_keepalive (ft_cfg ft) \<le> k' \<and> k' \<le> fc_max_keepalive (ft_cfg ft) \<and>
     t = (if k' < 6 then k' + 3 else fc_keepalive_scaled (ft_cfg ft) k'))"
  using assms by (auto simp: fit_keep_alive_def Let_def not_less split: if_splits)

lemma fit_max_inflight_bounds:
  "fit_max_inflight ft \<le> fc_max_inflight (ft_cfg ft)"
  "ft_conn_info ft = CI_V5 i c \<Longrightarrow> c5_receive_max c = Some m \<Longrightarrow> fit_max_inflight ft \<le> m"
  by (auto simp: fit_max_inflight_def split: connect_info.splits option.splits)

lemma fit_session_expiry_bound:
  "0 < fc_max_session_expiry_interval (ft_cfg ft) \<Longrightarrow> fit_session_expiry_interval ft d \<le> fc_max_session_expiry_interval (ft_cfg ft)"
  by (simp add: fit_session_expiry_interval_def Let_def)

lemma unat_div_1000: "unat (word_of_nat (n div 1000) :: u32) * 1000 \<le> n"
proof -
  have "unat (word_of_nat (n div 1000) :: u32) \<le> n div 1000" by (simp add: unat_of_nat)
  then show ?thesis by (meson div_times_less_eq_dividend le_trans mult_le_mono1)
qed

lemma session_expiry_secs_bound:
  assumes "fc_max_session_expiry_interval (ft_cfg ft) \<noteq> 0"
  shows "from_secs (word_of_nat (fit_session_expiry_interval ft d div 1000)) \<le> fc_max_session_expiry_interval (ft_cfg ft)"
  using assms fit_session_expiry_bound [of ft d] unat_div_1000 [of "fit_session_expiry_interval ft d"] by (simp add: from_secs_def)

section \<open>Accepted connections\<close>

lemma hs_establish_accepted:
  assumes "hs_establish ops env i ci success unavailable auth w = (Inr (s, e), w')"
  obtains offline b where "entry_kick env (ci_clean_start ci) (ci_clean_start ci) False i (hw_broker w) = (Inr offline, b)"
    and "hw_broker w' = entry_set i (new_peer i) b" and "se_broker s = hw_broker w'" and "se_id s = i"
    and "es_session_present e \<longleftrightarrow> \<not> ci_clean_start ci \<and> (\<exists>off. offline = OS_Exist (Some off))"
    and "fit_keep_alive \<lparr>ft_conn_info = ci, ft_cfg = he_cfg env\<rparr> (ci_keep_alive ci) = (Inr (es_keep_alive e), es_server_keepalive e)"
    and "es_max_inflight e = fit_max_inflight \<lparr>ft_conn_info = ci, ft_cfg = he_cfg env\<rparr>"
    and "oi_cap (se_out s) = unat (fit_max_inflight \<lparr>ft_conn_info = ci, ft_cfg = he_cfg env\<rparr>)"
    and "se_tx s = (case offline of OS_Exist (Some off) \<Rightarrow> [MSessionStateTransfer off (ci_clean_start ci)] | _ \<Rightarrow> [])
      @ (case he_auto_subs env i of Some (Inr subs) \<Rightarrow> [MSubscribes subs] | _ \<Rightarrow> [])"
proof -
  obtain offline b where k: "entry_kick env (ci_clean_start ci) (ci_clean_start ci) False i (hw_broker w) = (Inr offline, b)"
    using assms by (auto simp: hs_establish_def Let_def split: prod.splits sum.splits)
  obtain ka sk where f: "fit_keep_alive \<lparr>ft_conn_info = ci, ft_cfg = he_cfg env\<rparr> (ci_keep_alive ci) = (Inr ka, sk)"
    using assms k by (auto simp: hs_establish_def Let_def split: prod.splits sum.splits)
  show thesis
    by (rule that [OF k])
      (use assms f in \<open>auto simp: hs_establish_def k Let_def fire_def session_new_def oi_new_def oi_on_push_def oi_on_pop_def split: offline_session.splits option.splits sum.splits\<close>)
qed

section \<open>Router and tables after an eviction\<close>

text \<open>The state in which the eviction removes the entry: the channel of the old session has the message.\<close>

lemma entry_kick_cases:
  assumes "entry_kick env cs clear admin i b = (Inr offline, b')"
  obtains (absent) "map_of (br_peers b) (id_client_id i) = None" "offline = OS_NotExist" "b' = b"
    | (evicted) p p' where "map_of (br_peers b) (id_client_id i) = Some p" "pe_id p' = pe_id p" "pe_subs p' = pe_subs p"
      "b' = snd (entry_remove clear i (b\<lparr>br_peers := AList.update (id_client_id i) p' (br_peers b)\<rparr>))"
      "offline = OS_Exist (if cs then None else he_offline_info env p')"
proof (cases "map_of (br_peers b) (id_client_id i)")
  case None
  then show thesis using absent assms by (simp add: entry_kick_def entry_remove_def)
next
  case (Some p)
  let ?p = "if pe_tx_open p then p\<lparr>pe_tx := pe_tx p @ [MKick i cs admin]\<rparr> else p"
  show thesis
    by (rule evicted [of p ?p])
      (use Some assms in \<open>auto simp: update_same [OF Some] entry_kick_def tx_send_def entry_remove_def Let_def update_conv' split: if_splits\<close>)
qed

lemma channel_agrees:
  assumes "broker_agrees b" and "map_of (br_peers b) c = Some p" and "pe_id p' = pe_id p" and "pe_subs p' = pe_subs p"
  shows "broker_agrees (b\<lparr>br_peers := AList.update c p' (br_peers b)\<rparr>)"
proof -
  have "session_entry (b\<lparr>br_peers := AList.update c p' (br_peers b)\<rparr>) = session_entry b"
    using assms(2-4) by (auto simp: fun_eq_iff session_entry_def update_conv')
  then show ?thesis using assms by (auto simp: broker_agrees_def distinct_update update_conv' split: if_splits)
qed

text \<open>After an eviction the client has no entry; its relations are gone on a clean start and untouched otherwise.\<close>

lemma kick_relations:
  assumes ag: "broker_agrees b" and k: "entry_kick env cs cs admin i b = (Inr offline, b')"
  shows "router_inv (br_router b') \<and> distinct (map fst (br_peers b')) \<and>
    map_of (br_peers b') = (map_of (br_peers b))(id_client_id i := None) \<and>
    (\<forall>tf c. relation_of (br_router b') tf c = (if cs \<and> c = id_client_id i then None else session_entry b tf c))"
  using k
proof (cases rule: entry_kick_cases)
  case absent
  then show ?thesis using ag by (auto simp: broker_agrees_def session_entry_def fun_eq_iff)
next
  case (evicted p p')
  let ?b = "b\<lparr>br_peers := AList.update (id_client_id i) p' (br_peers b)\<rparr>"
  have agb: "broker_agrees ?b" using channel_agrees [OF ag evicted(1,2,3)] .
  have entry: "session_entry ?b tf c = session_entry b tf c" for tf c
    using evicted(1-3) by (auto simp: session_entry_def update_conv')
  have rem: "br_peers b' = AList.delete (id_client_id i) (AList.update (id_client_id i) p' (br_peers b))"
    and keep: "\<not> cs \<Longrightarrow> br_router b' = br_router b"
    unfolding evicted(4) by (simp_all add: entry_remove_def Let_def update_conv')
  have peers: "map_of (br_peers b') = (map_of (br_peers b))(id_client_id i := None)"
    by (auto simp: rem delete_conv' update_conv' fun_eq_iff)
  have dist: "distinct (map fst (br_peers b'))"
    using ag by (simp add: rem broker_agrees_def distinct_delete distinct_update)
  show ?thesis
  proof (cases cs)
    case True
    have "broker_agrees b'" unfolding evicted(4) using entry_remove_agrees [OF agb, of i] True by simp
    then have "router_inv (br_router b')" and "relation_of (br_router b') tf c = session_entry b' tf c" for tf c
      by (auto simp: broker_agrees_def)
    then show ?thesis using True peers dist by (auto simp: session_entry_def)
  next
    case False
    then show ?thesis using ag peers dist keep by (auto simp: broker_agrees_def fun_eq_iff)
  qed
qed

lemma new_entry_agrees:
  assumes "router_inv (br_router b)" and "distinct (map fst (br_peers b))"
    and "\<And>tf c. relation_of (br_router b) tf c = (if c = id_client_id i then None else session_entry b tf c)"
    and "\<And>c p. c \<noteq> id_client_id i \<Longrightarrow> map_of (br_peers b) c = Some p \<Longrightarrow> id_client_id (pe_id p) = c"
  shows "broker_agrees (entry_set i (new_peer i) b)"
proof -
  have "relation_of (br_router b) tf c = session_entry (entry_set i (new_peer i) b) tf c" for tf c
    by (auto simp: assms(3) session_entry_def entry_set_def new_peer_def update_conv')
  then show ?thesis
    using assms(1,2,4) by (auto simp: broker_agrees_def entry_set_def new_peer_def distinct_update update_conv' fun_eq_iff split: if_splits)
qed

lemma map_of_rev: "distinct (map fst xs) \<Longrightarrow> map_of (rev xs) = map_of xs"
  by (rule map_of_eqI) (auto simp: rev_map [symmetric])

lemma subscribed_filters_parse:
  assumes "broker_agrees b" and "map_of (br_peers b) c = Some p" and "(tf, opts) \<in> set (pe_subs p)"
  shows "\<exists>t. topic_from_str tf = Inr t"
proof -
  obtain opts' where "map_of (pe_subs p) tf = Some opts'" using weak_map_of_SomeI [OF assms(3)] by blast
  then have "relation_of (br_router b) tf c = Some (pe_id p, opts')"
    using assms(1,2) by (simp add: broker_agrees_def session_entry_def)
  then obtain rels where "map_of (rt_relations (br_router b)) tf = Some rels" by (auto simp: relation_of_def bind_eq_Some_conv)
  then show ?thesis
    using assms(1) by (auto simp: broker_agrees_def router_inv_def list_all_iff rels_ok_def dest!: map_of_SomeD)
qed

text \<open>The subscriptions of an evicted session, taken over by the new one.\<close>

lemma transfer_after_eviction:
  assumes ag: "broker_agrees b" and k: "entry_kick env False False admin i b = (Inr offline, b')"
    and p: "map_of (br_peers b) (id_client_id i) = Some p" and dist: "distinct (map fst (pe_subs p))"
    and s: "se_broker s = entry_set i (new_peer i) b'" "se_id s = i" and off: "of_subscriptions off = pe_subs p"
  shows "session_agrees (transfer_session_state env' False off s)"
proof -
  let ?subs = "pe_subs p" and ?c = "id_client_id i"
  note rel = kick_relations [OF ag k]
  have filters: "\<forall>(tf, opts) \<in> set ?subs. \<exists>t. topic_from_str tf = Inr t" using subscribed_filters_parse [OF ag p] by auto
  obtain subs st where ext: "subs_extend ?subs ([], br_stats b') = (subs, st)" by fastforce
  have subs: "map_of subs = map_of ?subs"
    using subs_extend_lookup [of ?subs "[]" "br_stats b'"] ext map_of_rev [OF dist] by (simp add: fun_eq_iff)
  let ?b = "b'\<lparr>br_router := transfer_relations i ?subs (br_router b'), br_stats := st,
      br_peers := AList.update ?c ((new_peer i)\<lparr>pe_subs := subs\<rparr>) (AList.update ?c (new_peer i) (br_peers b'))\<rparr>"
  have b: "se_broker (transfer_session_state env' False off s) = ?b"
    using ext by (simp add: transfer_state_fields s off own_subs_extend_def entry_set_def update_conv' new_peer_def)
  have "relation_of (transfer_relations i ?subs (br_router b')) tf c = session_entry ?b tf c" for tf c
    using rel p unfolding transfer_relations_lookup [OF filters] map_of_rev [OF dist]
    by (auto simp: session_entry_def update_conv' subs new_peer_def split: option.splits)
  moreover have "router_inv (transfer_relations i ?subs (br_router b'))" using rel transfer_relations_inv by blast
  moreover have "id_client_id (pe_id q) = c" if "map_of (br_peers b') c = Some q" for c q
    using rel ag that by (auto simp: broker_agrees_def split: if_splits)
  ultimately have "broker_agrees ?b"
    using rel by (auto simp: broker_agrees_def fun_eq_iff distinct_update update_conv' new_peer_def split: if_splits)
  moreover have "owns_entry i ?b" by (simp add: owns_entry_def update_conv' new_peer_def)
  ultimately show ?thesis by (simp add: session_agrees_def b transfer_state_fields(2) s)
qed

section \<open>Properties\<close>

text \<open>C16: A connection leaves the router in agreement with the session tables. Whether the client is new, starts clean or resumes
  a session, once the new session has processed the state of the previous one (the first message in its channel), the relations of
  the router are again the entries of the session tables and the new session owns the entry of its client.\<close>

theorem takeover_restores_agreement:
  assumes ag: "broker_agrees (hw_broker w)" and est: "hs_establish ops env i ci success unavailable auth w = (Inr (s, e), w')"
    and handed: "\<And>p. \<exists>off. he_offline_info env p = Some off \<and> of_subscriptions off = pe_subs p"
    and dist: "\<And>c p. map_of (br_peers (hw_broker w)) c = Some p \<Longrightarrow> distinct (map fst (pe_subs p))"
  shows "session_agrees (case se_tx s of MSessionStateTransfer off clear # _ \<Rightarrow> transfer_session_state env' clear off s | _ \<Rightarrow> s)"
proof -
  obtain offline b where k: "entry_kick env (ci_clean_start ci) (ci_clean_start ci) False i (hw_broker w) = (Inr offline, b)"
    and s: "hw_broker w' = entry_set i (new_peer i) b" "se_broker s = hw_broker w'" "se_id s = i"
    and tx: "se_tx s = (case offline of OS_Exist (Some off) \<Rightarrow> [MSessionStateTransfer off (ci_clean_start ci)] | _ \<Rightarrow> [])
      @ (case he_auto_subs env i of Some (Inr subs) \<Rightarrow> [MSubscribes subs] | _ \<Rightarrow> [])"
    using est by (rule hs_establish_accepted) blast
  note rel = kick_relations [OF ag k]
  have plain: "session_agrees s" if "ci_clean_start ci \<or> map_of (br_peers (hw_broker w)) (id_client_id i) = None"
  proof -
    have "relation_of (br_router b) tf c = (if c = id_client_id i then None else session_entry b tf c)" for tf c
      using rel that by (auto simp: session_entry_def)
    moreover have "id_client_id (pe_id p) = c" if "map_of (br_peers b) c = Some p" for c p
      using that rel ag by (auto simp: broker_agrees_def split: if_splits)
    ultimately have "broker_agrees (entry_set i (new_peer i) b)" using rel by (intro new_entry_agrees) auto
    then show ?thesis using s by (simp add: session_agrees_def owns_entry_def entry_set_def new_peer_def update_conv')
  qed
  from k show ?thesis
  proof (cases rule: entry_kick_cases)
    case absent
    then show ?thesis using plain tx by (simp split: option.splits sum.splits)
  next
    case (evicted p p')
    obtain off where off: "he_offline_info env p' = Some off" "of_subscriptions off = pe_subs p"
      using handed [of p'] evicted(3) by auto
    show ?thesis
    proof (cases "ci_clean_start ci")
      case True
      then show ?thesis using plain tx evicted(5) by (simp split: option.splits sum.splits)
    next
      case False
      then show ?thesis
        using transfer_after_eviction [OF ag _ evicted(1) dist [OF evicted(1)], of env False offline b s off env'] k s off tx evicted(5)
        by simp
    qed
  qed
qed

definition ex_fitter_cfg :: fitter_cfg where
  "ex_fitter_cfg = \<lparr>fc_allow_zero_keepalive = False, fc_min_keepalive = 10, fc_max_keepalive = 100, fc_keepalive_scaled = (\<lambda>k. k + k div 2),
     fc_max_mqueue_len = 10, fc_max_inflight = 16, fc_session_expiry_interval = 0, fc_max_session_expiry_interval = 3600000,
     fc_message_expiry_interval = 0, fc_message_retry_interval = 20, fc_max_topic_aliases = 8\<rparr>"

definition ex_hs_env :: hs_env where
  "ex_hs_env = \<lparr>he_now = 5, he_cfg = ex_fitter_cfg, he_elapsed = False, he_max_clientid_len = 20, he_allow_anonymous = True,
     he_max_sessions = 10, he_retain_enabled = False, he_shared_supported = True, he_max_qos = ExactlyOnce, he_max_packet_size = 1000,
     he_auth = (\<lambda>_. None), he_lock_free = True, he_kick_wait = KW_Done,
     he_offline_info = (\<lambda>p. Some \<lparr>of_id = pe_id p, of_subscriptions = pe_subs p, of_offline_messages = [], of_inflight_messages = [], of_created_at = 1\<rparr>),
     he_auto_subs = (\<lambda>_. None), he_uuid = ''u'', he_node_id = 1, he_lid = 1, he_laddr = SocketV4 0 1883, he_remote_addr = SocketV4 1 4000\<rparr>"

definition ex_world :: hs_world where
  "ex_world = \<lparr>hw_broker = ex_broker, hw_sessions = counter_inc counter_new, hw_in_stat = counter_new, hw_out_stat = counter_new,
     hw_delayed = ([], counter_new), hw_hooks = []\<rparr>"

definition ex_connect5 :: connect5 where
  "ex_connect5 = connect5_default\<lparr>c5_keep_alive := 60\<rparr>"

lemmas ex_handshake = hs_establish_def entry_kick_def tx_send_def entry_remove_def ex_world_def ex_broker_def ex_peer_def ex_hs_env_def
  ex_fitter_cfg_def ex_connect5_def connect5_default_def fit_keep_alive_def Let_def update_conv'

theorem takeover_restores_agreement_witness:
  "\<exists>s e w'. hs_establish list_deque ex_hs_env (ex_ident ''s'') (CI_V5 (ex_ident ''s'') ex_connect5)
       (CAR_V5 CAR5_Success) (CAR_V5 CAR5_ServerUnavailable) (False, None) ex_world = (Inr (s, e), w') \<and>
     session_agrees (case se_tx s of MSessionStateTransfer off clear # _ \<Rightarrow> transfer_session_state ex_env clear off s | _ \<Rightarrow> s)"
proof -
  obtain s e w' where est: "hs_establish list_deque ex_hs_env (ex_ident ''s'') (CI_V5 (ex_ident ''s'') ex_connect5)
      (CAR_V5 CAR5_Success) (CAR_V5 CAR5_ServerUnavailable) (False, None) ex_world = (Inr (s, e), w')"
    by (simp add: ex_handshake)
  moreover have "distinct (map fst (pe_subs p))" if "map_of (br_peers (hw_broker ex_world)) c = Some p" for c p
    using that by (auto simp: ex_world_def ex_broker_def ex_peer_def split: if_splits)
  ultimately show ?thesis
    using takeover_restores_agreement [OF _ est, of ex_env] ex_broker_agrees by (simp add: ex_world_def ex_hs_env_def)
qed

lemma hs_establish_refusal:
  "hs_establish ops env i ci success unavailable auth w = (Inl r, w') \<Longrightarrow> r = unavailable"
  by (auto simp: hs_establish_def Let_def split: prod.splits sum.splits option.splits)

text \<open>C31: A connection that is refused for another reason than an unavailable server, that is for its client identifier, its
  authentication or, with MQTT 5, its authentication method or a retained will, changes neither the sessions nor the router: the hook
  that announces the attempt is the only effect, and an existing session of the same client stays connected.\<close>

theorem refused_before_eviction:
  "(\<forall>r w'. v3_handshake ops env i c3 w = (Inl r, w') \<longrightarrow> r \<noteq> CAR_V3 CAR3_ServiceUnavailable \<longrightarrow> w' = fire (HClientConnect i) w) \<and>
   (\<forall>r w'. v5_handshake ops env i c5 assigned w = (Inl r, w') \<longrightarrow> r \<noteq> CAR_V5 CAR5_ServerUnavailable \<longrightarrow> w' = fire (HClientConnect i) w)"
  by (auto simp: v3_handshake_def v5_handshake_def Let_def dest: hs_establish_refusal split: sum.splits if_splits prod.splits)

theorem refused_before_eviction_witness:
  "\<exists>w'. v5_handshake list_deque ex_hs_env (ex_ident ''s'') (ex_connect5\<lparr>c5_auth_method := Some [65]\<rparr>) False ex_world
     = (Inl (CAR_V5 CAR5_BadAuthenticationMethod), w') \<and> entry_is_connected (ex_ident ''s'') (hw_broker w')"
proof -
  obtain w' where hs: "v5_handshake list_deque ex_hs_env (ex_ident ''s'') (ex_connect5\<lparr>c5_auth_method := Some [65]\<rparr>) False ex_world
      = (Inl (CAR_V5 CAR5_BadAuthenticationMethod), w')"
    by (simp add: v5_handshake_def ex_handshake ex_ident_def id_from_def id_new_def)
  then have "w' = fire (HClientConnect (ex_ident ''s'')) ex_world"
    using refused_before_eviction [of list_deque ex_hs_env "ex_ident ''s''" _ ex_world "ex_connect5\<lparr>c5_auth_method := Some [65]\<rparr>" False] by simp
  then show ?thesis
    using hs by (simp add: entry_is_connected_def fire_def ex_world_def ex_broker_def ex_peer_def)
qed

lemma v5_connect_accepted:
  fixes c :: connect5 and env :: hs_env
  defines "c' \<equiv> if c5_client_id c = [] then c\<lparr>c5_client_id := text_bytes (he_uuid env)\<rparr> else c"
  defines "i \<equiv> hs_ident env (text_of (c5_client_id c')) (c5_username c')"
  assumes "v5_connect ops env c w = (ack, Some (s, timeout), w')"
  obtains auth e where "hs_admit env i (CI_V5 i c') (CAR_V5 CAR5_ServerUnavailable) (fire (HClientConnect i) w) = Inr auth"
    and "hs_establish ops env i (CI_V5 i c') (CAR_V5 CAR5_Success) (CAR_V5 CAR5_ServerUnavailable) auth (fire (HClientConnect i) w)
      = (Inr (s, e), w')"
    and "ack = v5_connack env i (CI_V5 i c') (c5_client_id c = []) e" and "timeout = es_keep_alive e"
proof -
  obtain e where "v5_handshake ops env i c' (c5_client_id c = []) w = (Inr (s, ack, e), w')" and t: "timeout = es_keep_alive e"
    using assms(3) unfolding v5_connect_def Let_def c'_def [symmetric] i_def [symmetric] by (auto split: sum.splits prod.splits)
  then show thesis
    using that by (auto simp: v5_handshake_def Let_def split: if_splits sum.splits prod.splits)
qed

text \<open>C17: What an MQTT 5 client is told at its acceptance. The CONNACK reports success; the keep-alive it announces is within the bounds of the
  listener, or zero where that is allowed; its receive maximum is at most that of the listener; its session expiry does not exceed the maximum of the listener; the session is reported as
  present only for a client that did not start clean and had one. The new session owns the entry of its client, and a client without a
  session was only admitted within the limit on the number of sessions. The window of the new session for messages to the client is no
  larger than the receive maximum of the client.\<close>

theorem accepted_connection:
  assumes conn: "v5_connect ops env c w = (ack, Some (s, timeout), w')"
    and cfg: "fc_min_keepalive (he_cfg env) \<le> fc_max_keepalive (he_cfg env)"
  shows "cak_reason_code ack = CAR5_Success \<and> owns_entry (se_id s) (hw_broker w') \<and>
    (\<exists>k. cak_server_keepalive_sec ack = Some k \<and>
       (if c5_keep_alive c = 0 then k = 0 \<and> timeout = 0 \<and> fc_allow_zero_keepalive (he_cfg env)
        else fc_min_keepalive (he_cfg env) \<le> k \<and> k \<le> fc_max_keepalive (he_cfg env))) \<and>
    cak_receive_max ack \<le> fc_max_inflight (he_cfg env) \<and>
    (case c5_receive_max c of Some m \<Rightarrow> oi_cap (se_out s) \<le> unat m | None \<Rightarrow> True) \<and>
    (case cak_session_expiry_interval_secs ack of
       Some secs \<Rightarrow> fc_max_session_expiry_interval (he_cfg env) = 0 \<or> from_secs secs \<le> fc_max_session_expiry_interval (he_cfg env)
     | None \<Rightarrow> True) \<and>
    (cak_session_present ack \<longrightarrow> \<not> c5_clean_start c \<and> entry_exist (se_id s) (hw_broker w)) \<and>
    (he_max_sessions env > 0 \<longrightarrow> cnt_current (hw_sessions w) < he_max_sessions env \<or> entry_exist (se_id s) (hw_broker w))"
proof -
  define c' where "c' = (if c5_client_id c = [] then c\<lparr>c5_client_id := text_bytes (he_uuid env)\<rparr> else c)"
  define i where "i = hs_ident env (text_of (c5_client_id c')) (c5_username c')"
  let ?ci = "CI_V5 i c'" and ?w = "fire (HClientConnect i) w" and ?ft = "\<lparr>ft_conn_info = CI_V5 i c', ft_cfg = he_cfg env\<rparr>"
  obtain auth e where adm: "hs_admit env i ?ci (CAR_V5 CAR5_ServerUnavailable) ?w = Inr auth"
    and est: "hs_establish ops env i ?ci (CAR_V5 CAR5_Success) (CAR_V5 CAR5_ServerUnavailable) auth ?w = (Inr (s, e), w')"
    and ack: "ack = v5_connack env i ?ci (c5_client_id c = []) e" and t: "timeout = es_keep_alive e"
    using v5_connect_accepted [OF conn] unfolding c'_def i_def by blast
  obtain offline b where k: "entry_kick env (c5_clean_start c') (c5_clean_start c') False i (hw_broker w) = (Inr offline, b)"
    and s: "hw_broker w' = entry_set i (new_peer i) b" "se_id s = i"
    and sp: "es_session_present e \<longleftrightarrow> \<not> c5_clean_start c' \<and> (\<exists>off. offline = OS_Exist (Some off))"
    and fit: "fit_keep_alive ?ft (c5_keep_alive c') = (Inr (es_keep_alive e), es_server_keepalive e)"
    and infl: "es_max_inflight e = fit_max_inflight ?ft" and cap: "oi_cap (se_out s) = unat (fit_max_inflight ?ft)"
    using est by (rule hs_establish_accepted) (simp add: fire_def)
  have c': "c5_keep_alive c' = c5_keep_alive c" "c5_receive_max c' = c5_receive_max c" "c5_clean_start c' = c5_clean_start c"
    by (simp_all add: c'_def)
  have rm: "cak_receive_max ack = fit_max_inflight ?ft"
    by (simp add: ack v5_connack_def connect_ack5_default_def Let_def infl)
  have "owns_entry (se_id s) (hw_broker w')" by (simp add: s owns_entry_def entry_set_def new_peer_def update_conv')
  moreover have "entry_exist i (hw_broker w)" if "offline = OS_Exist (Some off)" for off
    using k that by (cases rule: entry_kick_cases) (auto simp: entry_exist_def)
  moreover have "he_max_sessions env > 0 \<longrightarrow> cnt_current (hw_sessions w) < he_max_sessions env \<or> entry_exist i (hw_broker w)"
    using adm by (auto simp: hs_admit_def fire_def split: if_splits)
  moreover have "case cak_session_expiry_interval_secs ack of
      Some secs \<Rightarrow> fc_max_session_expiry_interval (he_cfg env) = 0 \<or> from_secs secs \<le> fc_max_session_expiry_interval (he_cfg env)
    | None \<Rightarrow> True"
    using session_expiry_secs_bound [of ?ft None]
    by (simp add: ack v5_connack_def Let_def split: option.splits) fastforce
  moreover from rm have "cak_receive_max ack \<le> fc_max_inflight (he_cfg env)"
    and "case c5_receive_max c of Some m \<Rightarrow> oi_cap (se_out s) \<le> unat m | None \<Rightarrow> True"
    using cap fit_max_inflight_bounds(1) [of ?ft] fit_max_inflight_bounds(2) [of ?ft i c'] c' by (simp_all add: word_le_nat_alt split: option.splits)
  moreover have "cak_reason_code ack = CAR5_Success" "cak_server_keepalive_sec ack = Some (es_server_keepalive e)"
    "cak_session_present ack = es_session_present e"
    by (simp_all add: ack v5_connack_def connect_ack5_default_def Let_def)
  ultimately show ?thesis
    using cfg fit_keep_alive_bounds [OF fit] by (auto simp: t sp s c')
qed

text \<open>The keep-alive is checked too late. A connection that is admitted but whose keep-alive the listener refuses is answered with
  an unavailable server, after the existing session of the client has been evicted and its entry removed.\<close>

theorem keepalive_refusal_evicts:
  assumes "\<not> he_elapsed env" and "he_max_clientid_len env = 0 \<or> length (id_client_id i) \<le> he_max_clientid_len env"
    and "hs_admit env i (CI_V3 i c) (CAR_V3 CAR3_ServiceUnavailable) (fire (HClientConnect i) w) = Inr auth"
    and "he_kick_wait env \<noteq> KW_RecvError"
    and "fit_keep_alive \<lparr>ft_conn_info = CI_V3 i c, ft_cfg = he_cfg env\<rparr> (c3_keep_alive c) = (Inl err, k)"
  shows "\<exists>w'. v3_handshake ops env i c w = (Inl (CAR_V3 CAR3_ServiceUnavailable), w') \<and> \<not> entry_exist i (hw_broker w')"
  using assms
  by (auto simp: v3_handshake_def hs_establish_def Let_def entry_kick_def tx_send_def entry_remove_def entry_exist_def fire_def
      update_conv' delete_conv' split: option.splits prod.splits)

theorem accepted_connection_witness:
  "\<exists>ack s timeout w'. v5_connect list_deque ex_hs_env (ex_connect5\<lparr>c5_client_id := [115]\<rparr>) ex_world = (ack, Some (s, timeout), w') \<and>
     cak_receive_max ack \<le> 16 \<and> owns_entry (se_id s) (hw_broker w')"
proof -
  let ?c = "ex_connect5\<lparr>c5_client_id := [115]\<rparr>" and ?un = "CAR_V5 CAR5_ServerUnavailable"
  define i where "i = hs_ident ex_hs_env (text_of [115]) (c5_username ex_connect5)"
  define w where "w = fire (HClientConnect i) ex_world"
  have "text_of [115] = ''s''" by code_simp
  then have i: "id_client_id i = ''s''" by (simp add: i_def hs_ident_def id_new_def)
  have adm: "hs_admit ex_hs_env i (CI_V5 i ?c) ?un w = Inr (False, None)"
    by (simp add: hs_admit_def client_authenticate_def connack_of_def car_success_def ex_hs_env_def ex_world_def fire_def w_def
        entry_exist_def ex_broker_def i ex_connect5_def connect5_default_def)
  obtain s e w' where est: "hs_establish list_deque ex_hs_env i (CI_V5 i ?c) (CAR_V5 CAR5_Success) ?un (False, None) w = (Inr (s, e), w')"
    by (simp add: ex_handshake i w_def fire_def)
  have "length (id_client_id i) \<le> he_max_clientid_len ex_hs_env" "\<not> he_elapsed ex_hs_env" "c5_auth_method ?c = None"
    "c5_last_will ?c = None" "c5_client_id ?c \<noteq> []"
    by (simp_all add: i ex_hs_env_def ex_connect5_def connect5_default_def)
  then have conn: "v5_connect list_deque ex_hs_env ?c ex_world
      = (v5_connack ex_hs_env i (CI_V5 i ?c) False e, Some (s, es_keep_alive e), w')"
    using adm est by (simp add: v5_connect_def v5_handshake_def Let_def w_def i_def [symmetric])
  show ?thesis using accepted_connection [OF conn] conn by (auto simp: ex_hs_env_def ex_fitter_cfg_def)
qed

definition ex_connect3 :: connect3 where
  "ex_connect3 = \<lparr>c3_protocol = Protocol MQTT_LEVEL_311, c3_clean_session = False, c3_keep_alive = 5, c3_last_will = None,
     c3_client_id = text_bytes ''s'', c3_username = None, c3_password = None, c3_cert = None\<rparr>"

theorem keepalive_refusal_evicts_witness:
  "entry_exist (ex_ident ''s'') (hw_broker ex_world) \<and>
   (\<exists>w'. v3_handshake list_deque ex_hs_env (ex_ident ''s'') ex_connect3 ex_world = (Inl (CAR_V3 CAR3_ServiceUnavailable), w') \<and>
      \<not> entry_exist (ex_ident ''s'') (hw_broker w'))"
proof -
  let ?i = "ex_ident ''s''"
  have "hs_admit ex_hs_env ?i (CI_V3 ?i ex_connect3) (CAR_V3 CAR3_ServiceUnavailable) (fire (HClientConnect ?i) ex_world)
      = Inr (False, None)"
    by (simp add: hs_admit_def client_authenticate_def connack_of_def car_success_def fire_def ex_hs_env_def ex_world_def ex_broker_def ex_connect3_def
        ex_ident_def id_from_def id_new_def entry_exist_def)
  moreover have "fit_keep_alive \<lparr>ft_conn_info = CI_V3 ?i ex_connect3, ft_cfg = he_cfg ex_hs_env\<rparr> (c3_keep_alive ex_connect3)
      = (Inl (KeepaliveTooSmall 10), 5)"
    by (simp add: fit_keep_alive_def Let_def ex_connect3_def ex_hs_env_def ex_fitter_cfg_def)
  moreover have "\<not> he_elapsed ex_hs_env" "length (id_client_id ?i) \<le> he_max_clientid_len ex_hs_env" "he_kick_wait ex_hs_env \<noteq> KW_RecvError"
    "entry_exist ?i (hw_broker ex_world)"
    by (simp_all add: ex_hs_env_def ex_ident_def id_from_def id_new_def entry_exist_def ex_world_def ex_broker_def)
  ultimately show ?thesis using keepalive_refusal_evicts [of ex_hs_env ?i ex_connect3 ex_world] by blast
qed

end
