(* ===== verification/Hooks.thy ===== *)
theory Hooks
  imports Handshake "HOL-Library.Product_Lexorder"
begin

text \<open>
  The hooks of the broker: \<open>ferromq/src/hook.rs\<close>. Plug-ins register handlers for types of events; the manager calls the enabled handlers
  of a type in descending order of priority, hands each the result so far, and stops when a handler does not let it proceed. The methods of
  the manager and of the hook of a session call the handlers with the parameters of an event and read the result.

  A handler is code of a plug-in and so a parameter: a function of the event, the result so far and the state of the plug-ins, which may be of
  any type. The messages and replies of gRPC are type parameters. The identifier of a handler is a random UUID; it is an argument of the
  registration, and a repeated one is refused as in the code. A table (\<open>BTreeMap\<close>) is a list in ascending order of its keys.

  Shown: after any sequence of registrations, starts and stops an event calls exactly the handlers that are registered for its type and started, in
  descending order of their keys; a stopped plug-in is as if it had never been registered; what the check for expiry announces.
\<close>

section \<open>Types of events\<close>

datatype hook_type =
    HT_BeforeStartup | HT_SessionCreated | HT_SessionTerminated | HT_SessionSubscribed | HT_SessionUnsubscribed
  | HT_ClientAuthenticate | HT_ClientConnect | HT_ClientConnack | HT_ClientConnected | HT_ClientDisconnected
  | HT_ClientSubscribe | HT_ClientUnsubscribe | HT_ClientSubscribeCheckAcl | HT_ClientKeepalive
  | HT_MessagePublishCheckAcl | HT_MessagePublish | HT_MessageDelivered | HT_MessageAcked | HT_MessageDropped
  | HT_MessageExpiryCheck | HT_MessageNonsubscribed | HT_OfflineMessage | HT_OfflineInflightMessages | HT_GrpcMessageReceived

definition hook_type_table :: "(string \<times> hook_type) list" where
  "hook_type_table =
     [(''before_startup'', HT_BeforeStartup),
      (''session_created'', HT_SessionCreated), (''session_terminated'', HT_SessionTerminated),
      (''session_subscribed'', HT_SessionSubscribed), (''session_unsubscribed'', HT_SessionUnsubscribed),
      (''client_authenticate'', HT_ClientAuthenticate), (''client_connect'', HT_ClientConnect),
      (''client_connack'', HT_ClientConnack), (''client_connected'', HT_ClientConnected),
      (''client_disconnected'', HT_ClientDisconnected), (''client_subscribe'', HT_ClientSubscribe),
      (''client_unsubscribe'', HT_ClientUnsubscribe), (''client_subscribe_check_acl'', HT_ClientSubscribeCheckAcl),
      (''client_keepalive'', HT_ClientKeepalive),
      (''message_publish_check_acl'', HT_MessagePublishCheckAcl), (''message_publish'', HT_MessagePublish),
      (''message_delivered'', HT_MessageDelivered), (''message_acked'', HT_MessageAcked), (''message_dropped'', HT_MessageDropped),
      (''message_expiry_check'', HT_MessageExpiryCheck), (''message_nonsubscribed'', HT_MessageNonsubscribed),
      (''offline_message'', HT_OfflineMessage), (''offline_inflight_messages'', HT_OfflineInflightMessages),
      (''grpc_message_received'', HT_GrpcMessageReceived)]"

definition hook_type_from :: "string \<Rightarrow> unit fault + hook_type" where
  "hook_type_from s = (case map_of hook_type_table s of Some t \<Rightarrow> Inr t | None \<Rightarrow> Inl Panicked)"

text \<open>What handlers and the checks ask of a session: whether it belongs to a superuser (\<open>None\<close> when this cannot be read) and the expiry interval of
  its listener in milliseconds, besides the fields of the client.\<close>

record hook_session = acl_client +
  hks_superuser :: "bool option"
  hks_message_expiry_interval :: nat

datatype 'g hook_param =
    HP_BeforeStartup
  | HP_SessionCreated hook_session
  | HP_SessionTerminated hook_session reason
  | HP_SessionSubscribed hook_session broker_subscribe
  | HP_SessionUnsubscribed hook_session broker_unsubscribe
  | HP_ClientConnect connect_info
  | HP_ClientConnack connect_info any_connack_reason
  | HP_ClientAuthenticate connect_info
  | HP_ClientConnected hook_session
  | HP_ClientDisconnected hook_session reason
  | HP_ClientSubscribe hook_session broker_subscribe
  | HP_ClientUnsubscribe hook_session broker_unsubscribe
  | HP_ClientSubscribeCheckAcl hook_session broker_subscribe
  | HP_ClientKeepalive hook_session bool
  | HP_MessagePublishCheckAcl hook_session msg_publish
  | HP_MessagePublish "hook_session option" msg_from msg_publish
  | HP_MessageDelivered hook_session msg_from msg_publish
  | HP_MessageAcked hook_session msg_from msg_publish
  | HP_MessageDropped "ident option" msg_from msg_publish reason
  | HP_MessageExpiryCheck hook_session msg_from msg_publish
  | HP_MessageNonsubscribed msg_from
  | HP_OfflineMessage hook_session msg_from msg_publish
  | HP_OfflineInflightMessages hook_session "out_inflight_message list"
  | HP_GrpcMessageReceived u64 'g

fun get_type :: "'g hook_param \<Rightarrow> hook_type" where
  "get_type HP_BeforeStartup = HT_BeforeStartup"
| "get_type (HP_SessionCreated _) = HT_SessionCreated"
| "get_type (HP_SessionTerminated _ _) = HT_SessionTerminated"
| "get_type (HP_SessionSubscribed _ _) = HT_SessionSubscribed"
| "get_type (HP_SessionUnsubscribed _ _) = HT_SessionUnsubscribed"
| "get_type (HP_ClientAuthenticate _) = HT_ClientAuthenticate"
| "get_type (HP_ClientConnect _) = HT_ClientConnect"
| "get_type (HP_ClientConnack _ _) = HT_ClientConnack"
| "get_type (HP_ClientConnected _) = HT_ClientConnected"
| "get_type (HP_ClientDisconnected _ _) = HT_ClientDisconnected"
| "get_type (HP_ClientSubscribe _ _) = HT_ClientSubscribe"
| "get_type (HP_ClientUnsubscribe _ _) = HT_ClientUnsubscribe"
| "get_type (HP_ClientSubscribeCheckAcl _ _) = HT_ClientSubscribeCheckAcl"
| "get_type (HP_ClientKeepalive _ _) = HT_ClientKeepalive"
| "get_type (HP_MessagePublishCheckAcl _ _) = HT_MessagePublishCheckAcl"
| "get_type (HP_MessagePublish _ _ _) = HT_MessagePublish"
| "get_type (HP_MessageDelivered _ _ _) = HT_MessageDelivered"
| "get_type (HP_MessageAcked _ _ _) = HT_MessageAcked"
| "get_type (HP_MessageDropped _ _ _ _) = HT_MessageDropped"
| "get_type (HP_MessageExpiryCheck _ _ _) = HT_MessageExpiryCheck"
| "get_type (HP_MessageNonsubscribed _) = HT_MessageNonsubscribed"
| "get_type (HP_OfflineMessage _ _ _) = HT_OfflineMessage"
| "get_type (HP_OfflineInflightMessages _ _) = HT_OfflineInflightMessages"
| "get_type (HP_GrpcMessageReceived _ _) = HT_GrpcMessageReceived"

datatype 'r hook_result =
    HR_UserProperties user_properties
  | HR_AuthResult auth_result
  | HR_ConnectAckReason any_connack_reason
  | HR_TopicFilter "topic_filter option"
  | HR_SubscribeAclResult subscribe_return
  | HR_PublishAclResult publish_result
  | HR_Publish msg_publish
  | HR_MessageExpiry
  | HR_GrpcMessageReply "string + 'r"

section \<open>The manager\<close>

type_synonym ('g, 'r, 'w) hook_handler =
  "'g hook_param \<Rightarrow> 'r hook_result option \<Rightarrow> 'w \<Rightarrow> (bool \<times> 'r hook_result option) \<times> 'w"

record ('g, 'r, 'w) hook_entry =
  hn_handler :: "('g, 'r, 'w) hook_handler"
  hn_enabled :: bool

definition hook_entry_new :: "('g, 'r, 'w) hook_handler \<Rightarrow> ('g, 'r, 'w) hook_entry" where
  "hook_entry_new h = \<lparr>hn_handler = h, hn_enabled = False\<rparr>"

type_synonym handler_key = "u32 \<times> string"

type_synonym ('g, 'r, 'w) hook_manager = "(hook_type \<times> (handler_key \<times> ('g, 'r, 'w) hook_entry) list) list"

fun bt_insert :: "'k::linorder \<Rightarrow> 'v \<Rightarrow> ('k \<times> 'v) list \<Rightarrow> ('k \<times> 'v) list" where
  "bt_insert k v [] = [(k, v)]"
| "bt_insert k v ((k', v') # al) =
     (if k < k' then (k, v) # (k', v') # al
      else if k = k' then (k, v) # al
      else (k', v') # bt_insert k v al)"

definition type_handlers :: "hook_type \<Rightarrow> ('g, 'r, 'w) hook_manager \<Rightarrow> (handler_key \<times> ('g, 'r, 'w) hook_entry) list" where
  "type_handlers t m = (case map_of m t of Some hs \<Rightarrow> hs | None \<Rightarrow> [])"

datatype hook_error = HandlerRepetition handler_key hook_type

definition manager_add :: "hook_type \<Rightarrow> u32 \<Rightarrow> string \<Rightarrow> ('g, 'r, 'w) hook_handler \<Rightarrow> ('g, 'r, 'w) hook_manager \<Rightarrow>
    (hook_error + string) \<times> ('g, 'r, 'w) hook_manager" where
  "manager_add typ priority hid h m =
     (let hs = type_handlers typ m;
          m = AList.update typ hs m;
          key = (priority, hid)
      in if key \<in> set (map fst hs) then (Inl (HandlerRepetition key typ), m)
         else (Inr hid, AList.update typ (bt_insert key (hook_entry_new h) hs) m))"

fun run_handlers :: "('g, 'r, 'w) hook_entry list \<Rightarrow> 'g hook_param \<Rightarrow> 'r hook_result option \<Rightarrow> 'w \<Rightarrow>
    'r hook_result option \<times> 'w" where
  "run_handlers [] p acc w = (acc, w)"
| "run_handlers (e # es) p acc w =
     (if hn_enabled e
      then (case hn_handler e p acc w of
              ((proceed, new_acc), w) \<Rightarrow> (if \<not> proceed then (new_acc, w) else run_handlers es p new_acc w))
      else run_handlers es p acc w)"

definition hook_exec :: "hook_type \<Rightarrow> 'g hook_param \<Rightarrow> ('g, 'r, 'w) hook_manager \<Rightarrow> 'w \<Rightarrow> 'r hook_result option \<times> 'w" where
  "hook_exec t p m w =
     (case map_of m t of
        Some hs \<Rightarrow> run_handlers (map snd (rev hs)) p None w
      | None \<Rightarrow> (None, w))"

section \<open>Registration\<close>

type_synonym type_ids = "(hook_type \<times> handler_key) list"

definition register_add_priority :: "hook_type \<Rightarrow> u32 \<Rightarrow> string \<Rightarrow> ('g, 'r, 'w) hook_handler \<Rightarrow>
    type_ids \<times> ('g, 'r, 'w) hook_manager \<Rightarrow> type_ids \<times> ('g, 'r, 'w) hook_manager" where
  "register_add_priority typ priority hid h = (\<lambda>(ids, m).
     (case manager_add typ priority hid h m of
        (Inr i, m) \<Rightarrow> (List.insert (typ, (priority, i)) ids, m)
      | (Inl _, m) \<Rightarrow> (ids, m)))"

definition register_add :: "hook_type \<Rightarrow> string \<Rightarrow> ('g, 'r, 'w) hook_handler \<Rightarrow>
    type_ids \<times> ('g, 'r, 'w) hook_manager \<Rightarrow> type_ids \<times> ('g, 'r, 'w) hook_manager" where
  "register_add typ = register_add_priority typ 0"

definition set_enabled :: "bool \<Rightarrow> hook_type \<times> handler_key \<Rightarrow> ('g, 'r, 'w) hook_manager \<Rightarrow> ('g, 'r, 'w) hook_manager" where
  "set_enabled b = (\<lambda>(typ, key) m.
     (case map_of m typ of
        Some hs \<Rightarrow> AList.update typ (map (\<lambda>(k, e). (k, if k = key then e\<lparr>hn_enabled := b\<rparr> else e)) hs) m
      | None \<Rightarrow> m))"

definition adjust_status :: "bool \<Rightarrow> type_ids \<Rightarrow> ('g, 'r, 'w) hook_manager \<Rightarrow> ('g, 'r, 'w) hook_manager" where
  "adjust_status b ids m = fold (set_enabled b) ids m"

definition register_start :: "type_ids \<Rightarrow> ('g, 'r, 'w) hook_manager \<Rightarrow> ('g, 'r, 'w) hook_manager" where
  "register_start = adjust_status True"

definition register_stop :: "type_ids \<Rightarrow> ('g, 'r, 'w) hook_manager \<Rightarrow> ('g, 'r, 'w) hook_manager" where
  "register_stop = adjust_status False"

section \<open>Events of the manager\<close>

definition hook_before_startup :: "('g, 'r, 'w) hook_manager \<Rightarrow> 'w \<Rightarrow> 'w" where
  "hook_before_startup m w = snd (hook_exec HT_BeforeStartup HP_BeforeStartup m w)"

definition hook_client_connect :: "connect_info \<Rightarrow> ('g, 'r, 'w) hook_manager \<Rightarrow> 'w \<Rightarrow> user_properties option \<times> 'w" where
  "hook_client_connect ci m w =
     (case hook_exec HT_ClientConnect (HP_ClientConnect ci) m w of
        (Some (HR_UserProperties props), w) \<Rightarrow> (Some props, w)
      | (_, w) \<Rightarrow> (None, w))"

text \<open>Without a name, and when anonymous clients are allowed, no handler is asked.\<close>

definition hook_client_authenticate :: "connect_info \<Rightarrow> bool \<Rightarrow> ('g, 'r, 'w) hook_manager \<Rightarrow> 'w \<Rightarrow>
    (any_connack_reason \<times> bool \<times> auth_info option) \<times> 'w" where
  "hook_client_authenticate ci allow_anonymous m w =
     (if ci_username ci = None \<and> allow_anonymous then (client_authenticate ci allow_anonymous None, w)
      else (case hook_exec HT_ClientAuthenticate (HP_ClientAuthenticate ci) m w of
              (Some (HR_AuthResult r), w) \<Rightarrow> (client_authenticate ci allow_anonymous (Some r), w)
            | (_, w) \<Rightarrow> (client_authenticate ci allow_anonymous None, w)))"

definition hook_client_connack :: "connect_info \<Rightarrow> any_connack_reason \<Rightarrow> ('g, 'r, 'w) hook_manager \<Rightarrow> 'w \<Rightarrow> any_connack_reason \<times> 'w" where
  "hook_client_connack ci return_code m w =
     (case hook_exec HT_ClientConnack (HP_ClientConnack ci return_code) m w of
        (Some (HR_ConnectAckReason r), w) \<Rightarrow> (r, w)
      | (_, w) \<Rightarrow> (return_code, w))"

definition hook_message_publish :: "hook_session option \<Rightarrow> msg_from \<Rightarrow> msg_publish \<Rightarrow> ('g, 'r, 'w) hook_manager \<Rightarrow> 'w \<Rightarrow>
    msg_publish option \<times> 'w" where
  "hook_message_publish s from p m w =
     (case hook_exec HT_MessagePublish (HP_MessagePublish s from p) m w of
        (Some (HR_Publish q), w) \<Rightarrow> (Some q, w)
      | (_, w) \<Rightarrow> (None, w))"

definition hook_message_dropped :: "ident option \<Rightarrow> msg_from \<Rightarrow> msg_publish \<Rightarrow> reason \<Rightarrow> ('g, 'r, 'w) hook_manager \<Rightarrow> 'w \<Rightarrow> 'w" where
  "hook_message_dropped to from p r m w = snd (hook_exec HT_MessageDropped (HP_MessageDropped to from p r) m w)"

definition hook_message_nonsubscribed :: "msg_from \<Rightarrow> ('g, 'r, 'w) hook_manager \<Rightarrow> 'w \<Rightarrow> 'w" where
  "hook_message_nonsubscribed from m w = snd (hook_exec HT_MessageNonsubscribed (HP_MessageNonsubscribed from) m w)"

definition hook_grpc_message_received :: "'r \<Rightarrow> u64 \<Rightarrow> 'g \<Rightarrow> ('g, 'r, 'w) hook_manager \<Rightarrow> 'w \<Rightarrow> (string + 'r) \<times> 'w" where
  "hook_grpc_message_received success typ msg m w =
     (case hook_exec HT_GrpcMessageReceived (HP_GrpcMessageReceived typ msg) m w of
        (Some (HR_GrpcMessageReply reply), w) \<Rightarrow> (reply, w)
      | (_, w) \<Rightarrow> (Inr success, w))"

section \<open>Events of a session\<close>

definition hook_session_created :: "hook_session \<Rightarrow> ('g, 'r, 'w) hook_manager \<Rightarrow> 'w \<Rightarrow> 'w" where
  "hook_session_created s m w = snd (hook_exec HT_SessionCreated (HP_SessionCreated s) m w)"

definition hook_client_connected :: "hook_session \<Rightarrow> ('g, 'r, 'w) hook_manager \<Rightarrow> 'w \<Rightarrow> 'w" where
  "hook_client_connected s m w = snd (hook_exec HT_ClientConnected (HP_ClientConnected s) m w)"

definition hook_client_disconnected :: "hook_session \<Rightarrow> reason \<Rightarrow> ('g, 'r, 'w) hook_manager \<Rightarrow> 'w \<Rightarrow> 'w" where
  "hook_client_disconnected s r m w = snd (hook_exec HT_ClientDisconnected (HP_ClientDisconnected s r) m w)"

definition hook_session_terminated :: "hook_session \<Rightarrow> reason \<Rightarrow> ('g, 'r, 'w) hook_manager \<Rightarrow> 'w \<Rightarrow> 'w" where
  "hook_session_terminated s r m w = snd (hook_exec HT_SessionTerminated (HP_SessionTerminated s r) m w)"

definition is_superuser :: "hook_session \<Rightarrow> bool" where
  "is_superuser s = (case hks_superuser s of Some b \<Rightarrow> b | None \<Rightarrow> False)"

definition hook_subscribe_check_acl :: "hook_session \<Rightarrow> broker_subscribe \<Rightarrow> ('g, 'r, 'w) hook_manager \<Rightarrow> 'w \<Rightarrow>
    subscribe_return option \<times> 'w" where
  "hook_subscribe_check_acl s sub m w =
     (if is_superuser s then (Some (sr_new_success (opt_qos (bs_opts sub)) None), w)
      else (case hook_exec HT_ClientSubscribeCheckAcl (HP_ClientSubscribeCheckAcl s sub) m w of
              (Some (HR_SubscribeAclResult r), w) \<Rightarrow> (Some r, w)
            | (_, w) \<Rightarrow> (None, w)))"

definition hook_publish_check_acl :: "hook_session \<Rightarrow> msg_publish \<Rightarrow> ('g, 'r, 'w) hook_manager \<Rightarrow> 'w \<Rightarrow> publish_result \<times> 'w" where
  "hook_publish_check_acl s p m w =
     (if is_superuser s then (acl_allow, w)
      else (case hook_exec HT_MessagePublishCheckAcl (HP_MessagePublishCheckAcl s p) m w of
              (Some (HR_PublishAclResult r), w) \<Rightarrow> (r, w)
            | (_, w) \<Rightarrow> (acl_allow, w)))"

definition hook_client_subscribe :: "hook_session \<Rightarrow> broker_subscribe \<Rightarrow> ('g, 'r, 'w) hook_manager \<Rightarrow> 'w \<Rightarrow> topic_filter option \<times> 'w" where
  "hook_client_subscribe s sub m w =
     (case hook_exec HT_ClientSubscribe (HP_ClientSubscribe s sub) m w of
        (Some (HR_TopicFilter (Some tf)), w) \<Rightarrow> (Some tf, w)
      | (_, w) \<Rightarrow> (None, w))"

definition hook_session_subscribed :: "hook_session \<Rightarrow> broker_subscribe \<Rightarrow> ('g, 'r, 'w) hook_manager \<Rightarrow> 'w \<Rightarrow> 'w" where
  "hook_session_subscribed s sub m w = snd (hook_exec HT_SessionSubscribed (HP_SessionSubscribed s sub) m w)"

definition hook_client_unsubscribe :: "hook_session \<Rightarrow> broker_unsubscribe \<Rightarrow> ('g, 'r, 'w) hook_manager \<Rightarrow> 'w \<Rightarrow>
    topic_filter option \<times> 'w" where
  "hook_client_unsubscribe s unsub m w =
     (case hook_exec HT_ClientUnsubscribe (HP_ClientUnsubscribe s unsub) m w of
        (Some (HR_TopicFilter (Some tf)), w) \<Rightarrow> (Some tf, w)
      | (_, w) \<Rightarrow> (None, w))"

definition hook_session_unsubscribed :: "hook_session \<Rightarrow> broker_unsubscribe \<Rightarrow> ('g, 'r, 'w) hook_manager \<Rightarrow> 'w \<Rightarrow> 'w" where
  "hook_session_unsubscribed s unsub m w = snd (hook_exec HT_SessionUnsubscribed (HP_SessionUnsubscribed s unsub) m w)"

definition hook_message_delivered :: "hook_session \<Rightarrow> msg_from \<Rightarrow> msg_publish \<Rightarrow> ('g, 'r, 'w) hook_manager \<Rightarrow> 'w \<Rightarrow>
    msg_publish option \<times> 'w" where
  "hook_message_delivered s from p m w =
     (case hook_exec HT_MessageDelivered (HP_MessageDelivered s from p) m w of
        (Some (HR_Publish q), w) \<Rightarrow> (Some q, w)
      | (_, w) \<Rightarrow> (None, w))"

definition hook_message_acked :: "hook_session \<Rightarrow> msg_from \<Rightarrow> msg_publish \<Rightarrow> ('g, 'r, 'w) hook_manager \<Rightarrow> 'w \<Rightarrow> 'w" where
  "hook_message_acked s from p m w = snd (hook_exec HT_MessageAcked (HP_MessageAcked s from p) m w)"

definition hook_offline_message :: "hook_session \<Rightarrow> msg_from \<Rightarrow> msg_publish \<Rightarrow> ('g, 'r, 'w) hook_manager \<Rightarrow> 'w \<Rightarrow> 'w" where
  "hook_offline_message s from p m w = snd (hook_exec HT_OfflineMessage (HP_OfflineMessage s from p) m w)"

definition hook_offline_inflight_messages :: "hook_session \<Rightarrow> out_inflight_message list \<Rightarrow> ('g, 'r, 'w) hook_manager \<Rightarrow> 'w \<Rightarrow> 'w" where
  "hook_offline_inflight_messages s ms m w = snd (hook_exec HT_OfflineInflightMessages (HP_OfflineInflightMessages s ms) m w)"

definition hook_client_keepalive :: "hook_session \<Rightarrow> bool \<Rightarrow> ('g, 'r, 'w) hook_manager \<Rightarrow> 'w \<Rightarrow> 'w" where
  "hook_client_keepalive s ping m w = snd (hook_exec HT_ClientKeepalive (HP_ClientKeepalive s ping) m w)"

text \<open>The interval of the message, or of the listener, in milliseconds, and the seconds that remain of it. The clock is read once.\<close>

definition expiry_interval :: "hook_session \<Rightarrow> msg_publish \<Rightarrow> int" where
  "expiry_interval s p =
     (case Option.bind (pub_properties (mp_inner p)) pp_message_expiry_interval of
        Some i \<Rightarrow> uint i * 1000
      | None \<Rightarrow> int (hks_message_expiry_interval s))"

definition nonzero_u32 :: "u32 \<Rightarrow> u32 option" where
  "nonzero_u32 v = (if v = 0 then None else Some v)"

definition expiry_remaining :: "timestamp \<Rightarrow> hook_session \<Rightarrow> msg_publish \<Rightarrow> expiry_check" where
  "expiry_remaining now s p =
     (let interval = expiry_interval s p
      in if interval = 0 then Remaining None
         else (let remaining = now - (case mp_create_time p of Some t \<Rightarrow> t | None \<Rightarrow> now)
               in if remaining < interval then Remaining (nonzero_u32 (word_of_int ((interval - remaining) div 1000)))
                  else Expiry))"

definition hook_message_expiry_check :: "timestamp \<Rightarrow> hook_session \<Rightarrow> msg_from \<Rightarrow> msg_publish \<Rightarrow> ('g, 'r, 'w) hook_manager \<Rightarrow> 'w \<Rightarrow>
    expiry_check \<times> 'w" where
  "hook_message_expiry_check now s from p m w =
     (case hook_exec HT_MessageExpiryCheck (HP_MessageExpiryCheck s from p) m w of
        (Some HR_MessageExpiry, w) \<Rightarrow> (Expiry, w)
      | (_, w) \<Rightarrow> (expiry_remaining now s p, w))"

section \<open>Histories of registrations\<close>

text \<open>Every plug-in has a register of its own, here with a number.\<close>

record ('g, 'r, 'w) hook_world =
  hx_manager :: "('g, 'r, 'w) hook_manager"
  hx_ids :: "nat \<Rightarrow> type_ids"

definition hooks_new :: "('g, 'r, 'w) hook_world" where
  "hooks_new = \<lparr>hx_manager = [], hx_ids = (\<lambda>_. [])\<rparr>"

datatype ('g, 'r, 'w) hook_op =
    RegAdd nat hook_type u32 string "('g, 'r, 'w) hook_handler"
  | RegStart nat
  | RegStop nat

fun hook_step :: "('g, 'r, 'w) hook_op \<Rightarrow> ('g, 'r, 'w) hook_world \<Rightarrow> ('g, 'r, 'w) hook_world" where
  "hook_step (RegAdd r t pr i h) x =
     (case register_add_priority t pr i h (hx_ids x r, hx_manager x) of
        (ids, m) \<Rightarrow> \<lparr>hx_manager = m, hx_ids = (hx_ids x)(r := ids)\<rparr>)"
| "hook_step (RegStart r) x = x\<lparr>hx_manager := register_start (hx_ids x r) (hx_manager x)\<rparr>"
| "hook_step (RegStop r) x = x\<lparr>hx_manager := register_stop (hx_ids x r) (hx_manager x)\<rparr>"

definition hooks_after :: "('g, 'r, 'w) hook_op list \<Rightarrow> ('g, 'r, 'w) hook_manager" where
  "hooks_after ops = hx_manager (fold hook_step ops hooks_new)"

text \<open>The specification: a list of registrations, each with its register and whether it is started, and the handlers that an event calls.\<close>

record ('g, 'r, 'w) registration =
  rg_register :: nat
  rg_type :: hook_type
  rg_key :: handler_key
  rg_handler :: "('g, 'r, 'w) hook_handler"
  rg_started :: bool

definition rg_slot :: "('g, 'r, 'w) registration \<Rightarrow> hook_type \<times> handler_key" where
  "rg_slot e = (rg_type e, rg_key e)"

definition mark_one :: "bool \<Rightarrow> nat \<Rightarrow> ('g, 'r, 'w) registration \<Rightarrow> ('g, 'r, 'w) registration" where
  "mark_one b r e = (if rg_register e = r then e\<lparr>rg_started := b\<rparr> else e)"

abbreviation mark_started :: "bool \<Rightarrow> nat \<Rightarrow> ('g, 'r, 'w) registration list \<Rightarrow> ('g, 'r, 'w) registration list" where
  "mark_started b r es \<equiv> map (mark_one b r) es"

fun reg_step :: "('g, 'r, 'w) hook_op \<Rightarrow> ('g, 'r, 'w) registration list \<Rightarrow> ('g, 'r, 'w) registration list" where
  "reg_step (RegAdd r t pr i h) es =
     (if (t, pr, i) \<in> rg_slot ` set es then es
      else es @ [\<lparr>rg_register = r, rg_type = t, rg_key = (pr, i), rg_handler = h, rg_started = False\<rparr>])"
| "reg_step (RegStart r) es = mark_started True r es"
| "reg_step (RegStop r) es = mark_started False r es"

definition registrations :: "('g, 'r, 'w) hook_op list \<Rightarrow> ('g, 'r, 'w) registration list" where
  "registrations ops = fold reg_step ops []"

definition called :: "hook_type \<Rightarrow> ('g, 'r, 'w) registration list \<Rightarrow> ('g, 'r, 'w) hook_handler list" where
  "called t es = map rg_handler (rev (sort_key rg_key (filter (\<lambda>e. rg_type e = t \<and> rg_started e) es)))"

fun call_all :: "('g, 'r, 'w) hook_handler list \<Rightarrow> 'g hook_param \<Rightarrow> 'r hook_result option \<Rightarrow> 'w \<Rightarrow> 'r hook_result option \<times> 'w" where
  "call_all [] p acc w = (acc, w)"
| "call_all (h # hs) p acc w =
     (case h p acc w of ((proceed, r), w) \<Rightarrow> if proceed then call_all hs p r w else (r, w))"

section \<open>Sorted tables\<close>

lemma bt_insert_keys: "fst ` set (bt_insert k v al) = insert k (fst ` set al)"
proof (induction al)
  case (Cons kv al)
  then show ?case by (cases kv) (simp add: insert_commute)
qed simp

lemma bt_insert_sorted: "sorted_wrt (<) (map fst al) \<Longrightarrow> sorted_wrt (<) (map fst (bt_insert k v al))"
proof (induction al)
  case (Cons kv al)
  obtain k' v' where kv: "kv = (k', v')" by fastforce
  have "\<forall>x \<in> fst ` set al. k' < x" using Cons.prems kv by auto
  then show ?case using Cons kv bt_insert_keys [of k v al] by auto
qed simp

lemma bt_insert_set: "k \<notin> fst ` set al \<Longrightarrow> set (bt_insert k v al) = insert (k, v) (set al)"
proof (induction al)
  case (Cons kv al)
  then show ?case by (cases kv) (auto simp: insert_commute)
qed simp

lemma run_call_all: "run_handlers es p acc w = call_all (map hn_handler (filter hn_enabled es)) p acc w"
  by (induction es arbitrary: acc w) (auto split: prod.splits)

lemma exec_type_handlers: "hook_exec t p m w = call_all (map hn_handler (filter hn_enabled (map snd (rev (type_handlers t m))))) p None w"
  by (simp add: hook_exec_def type_handlers_def run_call_all split: option.splits)

lemma type_handlers_update [simp]: "type_handlers t (AList.update t' hs m) = (if t = t' then hs else type_handlers t m)"
  by (simp add: type_handlers_def update_conv')

section \<open>The manager keeps the registrations\<close>

definition entry_of :: "('g, 'r, 'w) registration \<Rightarrow> handler_key \<times> ('g, 'r, 'w) hook_entry" where
  "entry_of e = (rg_key e, \<lparr>hn_handler = rg_handler e, hn_enabled = rg_started e\<rparr>)"

definition hooks_agree :: "('g, 'r, 'w) registration list \<Rightarrow> ('g, 'r, 'w) hook_world \<Rightarrow> bool" where
  "hooks_agree es x \<longleftrightarrow> distinct (map rg_slot es) \<and>
     (\<forall>t. sorted_wrt (<) (map fst (type_handlers t (hx_manager x))) \<and>
          set (type_handlers t (hx_manager x)) = entry_of ` {e \<in> set es. rg_type e = t}) \<and>
     (\<forall>r. set (hx_ids x r) = rg_slot ` {e \<in> set es. rg_register e = r})"

lemma set_enabled_handlers:
  "type_handlers t (set_enabled b s m) = map (\<lambda>(k, e). (k, if (t, k) = s then e\<lparr>hn_enabled := b\<rparr> else e)) (type_handlers t m)"
  by (cases s) (auto simp: set_enabled_def type_handlers_def update_conv' split: option.splits prod.splits intro!: map_idI [symmetric])

lemma adjust_status_handlers:
  "type_handlers t (adjust_status b ids m) = map (\<lambda>(k, e). (k, if (t, k) \<in> set ids then e\<lparr>hn_enabled := b\<rparr> else e)) (type_handlers t m)"
  unfolding adjust_status_def
  by (induction ids arbitrary: m) (auto simp: set_enabled_handlers intro!: map_idI [symmetric])

lemma agree_slot_register:
  assumes "distinct (map rg_slot es)" and "e \<in> set es"
  shows "rg_slot e \<in> rg_slot ` {e' \<in> set es. rg_register e' = r} \<longleftrightarrow> rg_register e = r"
  using assms by (auto simp: distinct_map inj_on_def)

lemma mark_one_simps [simp]: "rg_register (mark_one b r e) = rg_register e" "rg_type (mark_one b r e) = rg_type e"
  "rg_key (mark_one b r e) = rg_key e" "rg_slot (mark_one b r e) = rg_slot e" "rg_handler (mark_one b r e) = rg_handler e"
  "rg_started (mark_one b r e) = (if rg_register e = r then b else rg_started e)"
  by (simp_all add: mark_one_def rg_slot_def)

lemma marked_image: "{e \<in> set (mark_started b r es). P (rg_type e) (rg_register e)} = mark_one b r ` {e \<in> set es. P (rg_type e) (rg_register e)}"
  by (induction es) auto

lemma adjust_status_set:
  assumes "hooks_agree es x"
  shows "set (type_handlers t (adjust_status b (hx_ids x r) (hx_manager x))) = entry_of ` mark_one b r ` {e \<in> set es. rg_type e = t}"
proof -
  let ?g = "\<lambda>(k, e). (k, if (t, k) \<in> set (hx_ids x r) then e\<lparr>hn_enabled := b\<rparr> else e)"
  have d: "distinct (map rg_slot es)" and ids: "set (hx_ids x r) = rg_slot ` {e \<in> set es. rg_register e = r}"
    and hs: "set (type_handlers t (hx_manager x)) = entry_of ` {e \<in> set es. rg_type e = t}"
    using assms by (simp_all add: hooks_agree_def)
  have "?g (entry_of e) = entry_of (mark_one b r e)" if "e \<in> set es" "rg_type e = t" for e
    using agree_slot_register [OF d that(1), of r] that(2) unfolding ids by (simp add: entry_of_def rg_slot_def)
  then show ?thesis unfolding adjust_status_handlers set_map hs image_image by (intro image_cong) auto
qed

lemma agree_status:
  assumes "hooks_agree es x"
  shows "hooks_agree (mark_started b r es) (x\<lparr>hx_manager := adjust_status b (hx_ids x r) (hx_manager x)\<rparr>)"
proof -
  have keys: "map fst (type_handlers t (adjust_status b (hx_ids x r) (hx_manager x))) = map fst (type_handlers t (hx_manager x))" for t
    by (simp add: adjust_status_handlers case_prod_beta)
  have slots: "map rg_slot (mark_started b r es) = map rg_slot es" by simp
  have regs: "rg_slot ` {e \<in> set (mark_started b r es). rg_register e = r'} = rg_slot ` {e \<in> set es. rg_register e = r'}" for r'
    unfolding marked_image [where P = "\<lambda>_ i. i = r'"] image_image by simp
  have types: "{e \<in> set (mark_started b r es). rg_type e = t} = mark_one b r ` {e \<in> set es. rg_type e = t}" for t
    by (rule marked_image [where P = "\<lambda>i _. i = t"])
  have upd: "hx_manager (x\<lparr>hx_manager := m\<rparr>) = m" "hx_ids (x\<lparr>hx_manager := m\<rparr>) = hx_ids x" for m by simp_all
  show ?thesis
    using assms unfolding hooks_agree_def slots regs types upd adjust_status_set [OF assms] keys by simp
qed

lemma agree_add:
  assumes "hooks_agree es x"
  shows "hooks_agree (reg_step (RegAdd r t pr i h) es) (hook_step (RegAdd r t pr i h) x)"
proof -
  let ?hs = "type_handlers t (hx_manager x)" and ?e = "\<lparr>rg_register = r, rg_type = t, rg_key = (pr, i), rg_handler = h, rg_started = False\<rparr>"
  have hs: "sorted_wrt (<) (map fst ?hs)" "set ?hs = entry_of ` {e \<in> set es. rg_type e = t}" using assms by (simp_all add: hooks_agree_def)
  have "fst ` set ?hs = rg_key ` {e \<in> set es. rg_type e = t}" unfolding hs(2) image_image by (simp add: entry_of_def)
  then have key: "(pr, i) \<in> fst ` set ?hs \<longleftrightarrow> (t, pr, i) \<in> rg_slot ` set es" by (auto simp: rg_slot_def)
  show ?thesis
  proof (cases "(t, pr, i) \<in> rg_slot ` set es")
    case True
    then show ?thesis
      using assms key by (simp add: register_add_priority_def manager_add_def Let_def hooks_agree_def)
  next
    case False
    then have new: "(pr, i) \<notin> fst ` set ?hs" using key by simp
    have e: "{e \<in> set (es @ [?e]). rg_type e = u} = {e \<in> set es. rg_type e = u} \<union> (if u = t then {?e} else {})"
      "{e \<in> set (es @ [?e]). rg_register e = q} = {e \<in> set es. rg_register e = q} \<union> (if q = r then {?e} else {})" for u q by auto
    have ev: "entry_of ?e = ((pr, i), hook_entry_new h)" "rg_slot ?e = (t, pr, i)" by (simp_all add: entry_of_def hook_entry_new_def rg_slot_def)
    have step: "hook_step (RegAdd r t pr i h) x
      = \<lparr>hx_manager = AList.update t (bt_insert (pr, i) (hook_entry_new h) ?hs) (AList.update t ?hs (hx_manager x)),
         hx_ids = (hx_ids x)(r := List.insert (t, pr, i) (hx_ids x r))\<rparr>"
      using new by (simp add: register_add_priority_def manager_add_def Let_def)
    have spec: "reg_step (RegAdd r t pr i h) es = es @ [?e]" using False by simp
    show ?thesis
      unfolding step spec hooks_agree_def e
      using assms hs new False bt_insert_sorted [OF hs(1)] bt_insert_set [OF new]
      by (auto simp: hooks_agree_def ev image_Un)
  qed
qed

lemma hooks_reachable: "hooks_agree (registrations ops) (fold hook_step ops hooks_new)"
proof (induction ops rule: rev_induct)
  case Nil
  show ?case by (simp add: registrations_def hooks_new_def hooks_agree_def type_handlers_def)
next
  case (snoc op ops)
  have "hooks_agree (reg_step op (registrations ops)) (hook_step op (fold hook_step ops hooks_new))"
  proof (cases op)
    case (RegAdd r t pr i h)
    show ?thesis unfolding RegAdd using snoc by (rule agree_add)
  qed (simp_all only: hook_step.simps(2,3) reg_step.simps(2,3) register_start_def register_stop_def agree_status [OF snoc])
  then show ?case by (simp add: registrations_def)
qed

lemma agree_called:
  assumes "hooks_agree es x"
  shows "map hn_handler (filter hn_enabled (map snd (rev (type_handlers t (hx_manager x))))) = called t es"
proof -
  let ?hs = "type_handlers t (hx_manager x)" and ?es = "sort_key rg_key (filter (\<lambda>e. rg_type e = t \<and> rg_started e) es)"
  have hs: "sorted_wrt (<) (map fst ?hs)" "set ?hs = entry_of ` {e \<in> set es. rg_type e = t}" and d: "distinct (map rg_slot es)"
    using assms by (simp_all add: hooks_agree_def)
  let ?L = "filter (\<lambda>x. hn_enabled (snd x)) ?hs" and ?R = "map entry_of ?es"
  have L: "sorted_wrt (<) (map fst ?L)" using hs(1) by (simp add: sorted_wrt_map sorted_wrt_filter)
  have keys: "map fst ?R = map rg_key ?es" by (simp add: entry_of_def)
  have "distinct (map rg_key ?es)" using d by (auto simp: distinct_map inj_on_def rg_slot_def)
  then have R: "sorted (map fst ?R)" "distinct (map fst ?R)" unfolding keys by simp_all
  have same: "set ?L = set ?R" unfolding set_filter hs(2) by (auto simp: entry_of_def)
  have "inj_on fst (set ?L \<union> set ?R)" using R(2) unfolding same distinct_map [of fst] by (simp only: Un_absorb)
  then have "?L = ?R" using L R same by (intro map_sorted_distinct_set_unique [of fst]) (simp_all add: strict_sorted_iff)
  then have "map (hn_handler \<circ> snd) (rev ?L) = map (hn_handler \<circ> snd) (rev ?R)" by simp
  then show ?thesis by (simp add: called_def entry_of_def rev_map rev_filter filter_map comp_def case_prod_beta)
qed

lemma exec_called: "hook_exec t p (hooks_after ops) w = call_all (called t (registrations ops)) p None w"
  unfolding exec_type_handlers hooks_after_def agree_called [OF hooks_reachable] ..

section \<open>A register alone\<close>

fun op_register :: "('g, 'r, 'w) hook_op \<Rightarrow> nat" where
  "op_register (RegAdd r _ _ _ _) = r"
| "op_register (RegStart r) = r"
| "op_register (RegStop r) = r"

fun op_ids :: "('g, 'r, 'w) hook_op list \<Rightarrow> string list" where
  "op_ids [] = []"
| "op_ids (RegAdd _ _ _ i _ # ops) = i # op_ids ops"
| "op_ids (_ # ops) = op_ids ops"

lemma op_ids_append [simp]: "op_ids (ops @ ops') = op_ids ops @ op_ids ops'"
  by (induction ops rule: op_ids.induct) simp_all

lemma registrations_snoc [simp]: "registrations (ops @ [op]) = reg_step op (registrations ops)" "registrations [] = []"
  by (simp_all add: registrations_def)

lemma registration_ids: "e \<in> set (registrations ops) \<Longrightarrow> snd (rg_key e) \<in> set (op_ids ops)"
proof (induction ops arbitrary: e rule: rev_induct)
  case (snoc op ops)
  then show ?case by (cases op) (auto split: if_splits)
qed simp

lemma marked_without:
  "filter (\<lambda>e. rg_register e \<noteq> r) (mark_started b q es)
   = (if q = r then filter (\<lambda>e. rg_register e \<noteq> r) es else mark_started b q (filter (\<lambda>e. rg_register e \<noteq> r) es))"
  by (induction es) (auto simp: mark_one_def)

text \<open>With distinct identifiers the registrations of the other registers do not depend on what a register does.\<close>

lemma registrations_without:
  "distinct (op_ids ops) \<Longrightarrow> registrations (filter (\<lambda>op. op_register op \<noteq> r) ops) = filter (\<lambda>e. rg_register e \<noteq> r) (registrations ops)"
proof (induction ops rule: rev_induct)
  case (snoc op ops)
  then have IH: "registrations (filter (\<lambda>op. op_register op \<noteq> r) ops) = filter (\<lambda>e. rg_register e \<noteq> r) (registrations ops)" by simp
  show ?case
  proof (cases op)
    case (RegAdd q t pr i h)
    then have "i \<notin> set (op_ids ops)" using snoc.prems by simp
    then have "rg_key e \<noteq> (pr, i)" if "e \<in> set (registrations ops)" for e using registration_ids [OF that] by auto
    then have "(t, pr, i) \<notin> rg_slot ` set (registrations ops)" by (fastforce simp: rg_slot_def)
    then show ?thesis using RegAdd IH by auto
  next
    case (RegStart q)
    then show ?thesis using IH by (simp add: marked_without)
  next
    case (RegStop q)
    then show ?thesis using IH by (simp add: marked_without)
  qed
qed simp

lemma started_after_stop:
  "filter (\<lambda>e. rg_type e = t \<and> rg_started e) (mark_started False r es)
   = filter (\<lambda>e. rg_type e = t \<and> rg_started e) (filter (\<lambda>e. rg_register e \<noteq> r) es)"
  by (induction es) (auto simp: mark_one_def)

section \<open>Properties\<close>

text \<open>C24: Handlers are called in the order of their priority. After any sequence of registrations, starts and stops of plug-ins an event calls exactly the handlers
  that are registered for its type and whose register was started after the registration and not stopped since, in descending order of
  priority and identifier, each with the result of the one before, until one of them does not let it proceed.\<close>

theorem handlers_called_by_priority:
  "hook_exec t p (hooks_after ops) w = call_all (called t (registrations ops)) p None w"
  by (rule exec_called)

text \<open>C25: A stopped plug-in. When the identifiers of the handlers are distinct, then after a plug-in has stopped every event behaves as if the plug-in
  had never registered, started or stopped anything.\<close>

theorem stopped_plugin_absent:
  assumes "distinct (op_ids ops)"
  shows "hook_exec t p (hooks_after (ops @ [RegStop r])) w = hook_exec t p (hooks_after (filter (\<lambda>op. op_register op \<noteq> r) ops)) w"
  unfolding exec_called by (simp add: called_def started_after_stop registrations_without [OF assms])

text \<open>C28: What the check for expiry answers, when no handler reports expiry, for a message with an interval that was created in the past: the message expires exactly when
  its interval has passed; otherwise the announced number of whole seconds is what remains, rounded down. In the last second nothing is
  announced, so that a subscriber is sent the message without expiry.\<close>

theorem expiry_announced:
  assumes "fst (hook_exec HT_MessageExpiryCheck (HP_MessageExpiryCheck s from p) m w) \<noteq> Some HR_MessageExpiry"
    and "pub_properties (mp_inner p) = Some props" "pp_message_expiry_interval props = Some i" "i \<noteq> 0"
    and "mp_create_time p = Some c" "c \<le> now"
  defines "left \<equiv> uint i * 1000 - (now - c)" and "check \<equiv> fst (hook_message_expiry_check now s from p m w)"
  shows "(check = Expiry \<longleftrightarrow> left \<le> 0) \<and> (check = Remaining None \<longleftrightarrow> 0 < left \<and> left < 1000) \<and>
    (\<forall>n. check = Remaining (Some n) \<longrightarrow> 0 < n \<and> uint n * 1000 \<le> left \<and> left < (uint n + 1) * 1000)"
proof -
  have i: "uint i \<noteq> 0" "0 \<le> uint i" "uint i < 2 ^ 32" using assms(4) uint_lt2p [of i] by (auto simp: uint_0_iff)
  have check: "check = (if left \<le> 0 then Expiry else Remaining (nonzero_u32 (word_of_int (left div 1000))))"
  proof -
    have "check = expiry_remaining now s p" using assms(1) unfolding check_def
      by (auto simp: hook_message_expiry_check_def split: prod.splits option.splits hook_result.splits)
    then show ?thesis using assms(2,3,5) i by (simp add: expiry_remaining_def expiry_interval_def left_def Let_def)
  qed
  have bound: "left div 1000 < 2 ^ 32" using i(3) assms(6) unfolding left_def by linarith
  have word: "uint (word_of_int (left div 1000) :: u32) = left div 1000" if "0 < left"
    using that bound by (simp add: uint_word_of_int_eq take_bit_int_eq_self)
  show ?thesis
  proof (cases "0 < left")
    case True
    have zero: "(word_of_int (left div 1000) :: u32) = 0 \<longleftrightarrow> left < 1000"
      unfolding word_uint_eq_iff word [OF True] using True by auto
    have pos: "0 < n" if "n \<noteq> (0 :: u32)" for n using that by (simp add: word_gt_0)
    show ?thesis using True zero word [OF True] pos unfolding check nonzero_u32_def by auto
  qed (simp add: check)
qed

section \<open>Examples\<close>

definition ex_trace :: "string \<Rightarrow> (unit, unit, string list) hook_handler" where
  "ex_trace name p acc w = ((True, acc), w @ [name])"

definition ex_hook_ops :: "(unit, unit, string list) hook_op list" where
  "ex_hook_ops = [RegAdd 2 HT_BeforeStartup 3 ''a'' (ex_trace ''low''), RegAdd 4 HT_BeforeStartup 5 ''b'' (ex_trace ''middle''),
     RegAdd 2 HT_BeforeStartup 7 ''c'' (ex_trace ''high''), RegAdd 2 HT_BeforeStartup 9 ''d'' (ex_trace ''top''), RegStart 4, RegStart 2]"

theorem stopped_plugin_absent_witness:
  "hook_exec HT_BeforeStartup HP_BeforeStartup (hooks_after (ex_hook_ops @ [RegStop 4])) [] = (None, [''top'', ''high'', ''low''])"
proof -
  have "distinct (op_ids ex_hook_ops)" by (simp add: ex_hook_ops_def)
  from stopped_plugin_absent [OF this, of HT_BeforeStartup HP_BeforeStartup 4 "[]"] show ?thesis
    by (simp add: ex_hook_ops_def ex_trace_def exec_called registrations_def called_def mark_one_def rg_slot_def)
qed

definition ex_listener :: hook_session where
  "ex_listener = \<lparr>ac_id = ex_ident ''s'', ac_password = None, ac_protocol = Some 5, hks_superuser = Some False, hks_message_expiry_interval = 0\<rparr>"

definition ex_expiring :: msg_publish where
  "ex_expiring = ex_pub1\<lparr>mp_create_time := Some 2000,
     mp_inner := (mp_inner ex_pub1)\<lparr>pub_properties := Some (publish_properties_default\<lparr>pp_message_expiry_interval := Some 10\<rparr>)\<rparr>\<rparr>"

text \<open>Half a second before the message expires.\<close>

theorem expiry_announced_witness:
  "fst (hook_message_expiry_check 11500 ex_listener (from_custom (ex_ident ''p'')) ex_expiring (hooks_after ex_hook_ops) []) = Remaining None"
proof -
  have "hook_exec HT_MessageExpiryCheck (HP_MessageExpiryCheck ex_listener (from_custom (ex_ident ''p'')) ex_expiring) (hooks_after ex_hook_ops) [] = (None, [])"
    by (simp add: ex_hook_ops_def exec_called registrations_def called_def mark_one_def rg_slot_def)
  then have "fst (hook_exec HT_MessageExpiryCheck (HP_MessageExpiryCheck ex_listener (from_custom (ex_ident ''p'')) ex_expiring) (hooks_after ex_hook_ops) [])
    \<noteq> Some HR_MessageExpiry" by simp
  from expiry_announced [OF this, of "publish_properties_default\<lparr>pp_message_expiry_interval := Some 10\<rparr>" 10 2000 11500] show ?thesis
    by (simp add: ex_expiring_def)
qed

end
