(* ===== verification/Topic_Rewrite.thy ===== *)
theory Topic_Rewrite
  imports Hooks
begin

text \<open>
  The plug-in \<open>ferromq-topic-rewrite\<close> (\<open>lib.rs\<close>, \<open>config.rs\<close>): rules that rewrite the topics of publications and the filters of subscriptions. The rules are
  kept in a topic tree under their source filters; a topic is rewritten by the last rule that the iterator of the tree yields for it.

  The crate \<open>regex\<close> is outside: a parameter gives, for a pattern and a text, the captured groups. The order of rules that the tree needs is the
  one that the code derives, field by field. The fixed pattern that splits the target expression of a rule is written out. Reading rules from JSON is not
  modelled; a rule starts from its fields.

  Shown: a topic is rewritten only when a rule for the action matches it by the rules of the standard, and which of several rules decides. It is the
  closest one with one exception: a filter that ends with the level \<open>#\<close> is preferred to the same filter without it.
\<close>

section \<open>Rules\<close>

datatype rw_action = RW_All | RW_Publish | RW_Subscribe

datatype dest_item = DNormal string | DPlace nat | DClientid | DUsername

datatype rewrite_rule = RewriteRule
  (rr_action: rw_action) (rr_source: topic_filter) (rr_dest: string) (rr_items: "dest_item list") (rr_regex: "string option")

fun action_rank :: "rw_action \<Rightarrow> nat" where
  "action_rank RW_All = 0"
| "action_rank RW_Publish = 1"
| "action_rank RW_Subscribe = 2"

fun item_rank :: "dest_item \<Rightarrow> nat \<times> nat \<times> string" where
  "item_rank (DNormal s) = (0, 0, s)"
| "item_rank (DPlace n) = (1, n, [])"
| "item_rank DClientid = (2, 0, [])"
| "item_rank DUsername = (3, 0, [])"

definition rule_rank :: "rewrite_rule \<Rightarrow> nat \<times> string \<times> string \<times> (nat \<times> nat \<times> string) list \<times> string option" where
  "rule_rank r = (action_rank (rr_action r), rr_source r, rr_dest r, map item_rank (rr_items r), rr_regex r)"

lemma action_rank_inject: "action_rank a = action_rank b \<longleftrightarrow> a = b"
  by (cases a; cases b) simp_all

lemma item_rank_inject: "inj item_rank"
proof (rule injI)
  show "item_rank a = item_rank b \<Longrightarrow> a = b" for a b by (cases a; cases b) simp_all
qed

lemma rule_rank_inject: "rule_rank r = rule_rank q \<Longrightarrow> r = q"
  by (cases r; cases q) (auto simp: rule_rank_def action_rank_inject inj_map_eq_map [OF item_rank_inject])

instantiation rewrite_rule :: linorder
begin

definition less_eq_rewrite_rule :: "rewrite_rule \<Rightarrow> rewrite_rule \<Rightarrow> bool" where
  "less_eq_rewrite_rule r q \<longleftrightarrow> rule_rank r \<le> rule_rank q"

definition less_rewrite_rule :: "rewrite_rule \<Rightarrow> rewrite_rule \<Rightarrow> bool" where
  "less_rewrite_rule r q \<longleftrightarrow> rule_rank r < rule_rank q"

instance
  by standard (auto simp: less_eq_rewrite_rule_def less_rewrite_rule_def intro: rule_rank_inject)

end

section \<open>The target expression\<close>

datatype rewrite_error = RW_PlaceOverflow string | RW_Topic topic_error | RW_Duplicate topic_filter

definition is_digit :: "char \<Rightarrow> bool" where
  "is_digit c \<longleftrightarrow> digit_val c \<noteq> None"

definition dest_place :: "string \<Rightarrow> rewrite_error + dest_item" where
  "dest_place ds = (case parse_usize ds of Some n \<Rightarrow> Inr (DPlace n) | None \<Rightarrow> Inl (RW_PlaceOverflow ds))"

text \<open>A match of the pattern \<open>\$\d+|\$\{clientid\}|\$\{username\}\<close> at the start of a text, with its length.\<close>

definition dest_match :: "string \<Rightarrow> ((rewrite_error + dest_item) \<times> nat) option" where
  "dest_match s =
     (let ds = takeWhile is_digit (tl s)
      in if s \<noteq> [] \<and> hd s = CHR ''$'' \<and> ds \<noteq> [] then Some (dest_place ds, 1 + length ds)
         else if starts_with ''${clientid}'' s then Some (Inr DClientid, 11)
         else if starts_with ''${username}'' s then Some (Inr DUsername, 11)
         else None)"

definition dest_normal :: "string \<Rightarrow> dest_item list" where
  "dest_normal s = (if s = [] then [] else [DNormal s])"

function dest_items :: "string \<Rightarrow> string \<Rightarrow> rewrite_error + dest_item list" where
  "dest_items normal [] = Inr (dest_normal normal)"
| "dest_items normal (c # cs) =
     (case dest_match (c # cs) of
        Some (Inl e, _) \<Rightarrow> Inl e
      | Some (Inr item, n) \<Rightarrow> map_sum id (\<lambda>items. dest_normal normal @ item # items) (dest_items [] (drop (n - 1) cs))
      | None \<Rightarrow> dest_items (normal @ [c]) cs)"
  by pat_completeness auto
termination
  by (relation "measure (\<lambda>(_, s). length s)") auto

definition to_dest_topic_items :: "string \<Rightarrow> rewrite_error + dest_item list" where
  "to_dest_topic_items dest_topic = dest_items [] dest_topic"

definition rule_try_from :: "rw_action \<Rightarrow> topic_filter \<Rightarrow> string \<Rightarrow> string option \<Rightarrow> rewrite_error + rewrite_rule" where
  "rule_try_from action source dest re = map_sum id (\<lambda>items. RewriteRule action source dest items re) (to_dest_topic_items dest)"

section \<open>Loading rules\<close>

fun load_rules :: "rewrite_rule list \<Rightarrow> topic list \<Rightarrow> rewrite_rule node \<Rightarrow> rewrite_error + rewrite_rule node" where
  "load_rules [] seen tree = Inr tree"
| "load_rules (r # rs) seen tree =
     (case topic_from_str (rr_source r) of
        Inl e \<Rightarrow> Inl (RW_Topic e)
      | Inr tf \<Rightarrow>
          (if tf \<in> set seen then Inl (RW_Duplicate (rr_source r))
           else load_rules rs (seen @ [tf]) (snd (node_insert tf r tree))))"

definition deserialize_rules :: "rewrite_rule list \<Rightarrow> rewrite_error + rewrite_rule node" where
  "deserialize_rules rules = load_rules rules [] node_default"

section \<open>Rewriting\<close>

type_synonym regex_captures = "string \<Rightarrow> string \<Rightarrow> string option list option"

definition matched_groups :: "regex_captures \<Rightarrow> rewrite_rule \<Rightarrow> string \<Rightarrow> (nat \<times> string) list" where
  "matched_groups captures r topic =
     (case rr_regex r of
        Some re \<Rightarrow>
          (case captures re topic of
             Some caps \<Rightarrow> List.map_filter (\<lambda>i. map_option (Pair i) (caps ! i)) [1..<length caps]
           | None \<Rightarrow> [])
      | None \<Rightarrow> [])"

fun item_text :: "hook_session option \<Rightarrow> (nat \<times> string) list \<Rightarrow> dest_item \<Rightarrow> string option" where
  "item_text s groups (DNormal t) = Some t"
| "item_text s groups DClientid = map_option (\<lambda>s. id_client_id (ac_id s)) s"
| "item_text s groups DUsername = Option.bind s (\<lambda>s. id_username (ac_id s))"
| "item_text s groups (DPlace i) = map_of groups i"

fun push_items :: "hook_session option \<Rightarrow> (nat \<times> string) list \<Rightarrow> dest_item list \<Rightarrow> string \<Rightarrow> string option" where
  "push_items s groups [] new_topic = Some new_topic"
| "push_items s groups (item # items) new_topic =
     (case item_text s groups item of
        Some t \<Rightarrow> push_items s groups items (new_topic @ t)
      | None \<Rightarrow> None)"

definition make_new_topic :: "regex_captures \<Rightarrow> rewrite_rule \<Rightarrow> hook_session option \<Rightarrow> string \<Rightarrow> string option" where
  "make_new_topic captures r s topic = push_items s (matched_groups captures r topic) (rr_items r) []"

fun action_applies :: "rw_action \<Rightarrow> rw_action \<Rightarrow> bool" where
  "action_applies RW_All _ = True"
| "action_applies RW_Subscribe a = (a = RW_Subscribe)"
| "action_applies RW_Publish a = (a = RW_Publish)"

definition rewrite_topic :: "regex_captures \<Rightarrow> rewrite_rule node \<Rightarrow> rw_action \<Rightarrow> hook_session option \<Rightarrow> string \<Rightarrow>
    topic_error + string option" where
  "rewrite_topic captures tree action s topic =
     (case topic_from_str topic of
        Inl e \<Rightarrow> Inl e
      | Inr t \<Rightarrow>
          (let rs = filter (\<lambda>r. action_applies (rr_action r) action) (concat (map snd (mi_collect (node_matches tree t))))
           in Inr (if rs = [] then None else make_new_topic captures (last rs) s topic)))"

definition rewrite_publish_topic :: "regex_captures \<Rightarrow> rewrite_rule node \<Rightarrow> hook_session option \<Rightarrow> msg_publish \<Rightarrow>
    topic_error + msg_publish option" where
  "rewrite_publish_topic captures tree s p =
     map_sum id (map_option (\<lambda>topic. p\<lparr>mp_inner := (mp_inner p)\<lparr>pub_topic := text_bytes topic\<rparr>\<rparr>))
       (rewrite_topic captures tree RW_Publish s (text_of (pub_topic (mp_inner p))))"

definition rewrite_subscribe_topic :: "regex_captures \<Rightarrow> rewrite_rule node \<Rightarrow> hook_session option \<Rightarrow> topic_filter \<Rightarrow>
    topic_error + topic_filter option" where
  "rewrite_subscribe_topic captures tree s tf = rewrite_topic captures tree RW_Subscribe s tf"

definition rewrite_filter :: "regex_captures \<Rightarrow> rewrite_rule node \<Rightarrow> hook_session \<Rightarrow> topic_filter \<Rightarrow> 'r hook_result option \<Rightarrow>
    bool \<times> 'r hook_result option" where
  "rewrite_filter captures tree s tf acc =
     (let tf = (case acc of Some (HR_TopicFilter (Some t)) \<Rightarrow> t | _ \<Rightarrow> tf)
      in case rewrite_subscribe_topic captures tree (Some s) tf of
           Inr (Some t) \<Rightarrow> (True, Some (HR_TopicFilter (Some t)))
         | _ \<Rightarrow> (True, acc))"

fun rewrite_handler :: "regex_captures \<Rightarrow> rewrite_rule node \<Rightarrow> ('g, 'r, 'w) hook_handler" where
  "rewrite_handler captures tree (HP_MessagePublish s f p) acc w =
     (let p = (case acc of Some (HR_Publish q) \<Rightarrow> q | _ \<Rightarrow> p)
      in case rewrite_publish_topic captures tree s p of
           Inr (Some q) \<Rightarrow> ((True, Some (HR_Publish q)), w)
         | _ \<Rightarrow> ((True, acc), w))"
| "rewrite_handler captures tree (HP_ClientSubscribe s sub) acc w = (rewrite_filter captures tree s (bs_topic_filter sub) acc, w)"
| "rewrite_handler captures tree (HP_ClientUnsubscribe s unsub) acc w = (rewrite_filter captures tree s (bu_topic_filter unsub) acc, w)"
| "rewrite_handler captures tree _ acc w = ((True, acc), w)"

definition rewrite_init :: "nat \<Rightarrow> u32 \<Rightarrow> string list \<Rightarrow> regex_captures \<Rightarrow> rewrite_rule node \<Rightarrow> ('g, 'r, 'w) hook_op list" where
  "rewrite_init r priority ids captures tree =
     map2 (\<lambda>t i. RegAdd r t priority i (rewrite_handler captures tree)) [HT_MessagePublish, HT_ClientSubscribe, HT_ClientUnsubscribe] ids"

section \<open>The rules in the tree\<close>

definition rule_levels :: "rewrite_rule \<Rightarrow> level list option" where
  "rule_levels r = (case topic_from_str (rr_source r) of Inr t \<Rightarrow> Some (levels t) | Inl _ \<Rightarrow> None)"

lemma load_rules_correct:
  assumes "load_rules rs seen tree = Inr tree'" and "node_wf tree"
  shows "node_wf tree' \<and> (\<forall>f. set (values_at tree' f) = set (values_at tree f) \<union> {r \<in> set rs. rule_levels r = Some f}) \<and>
    (\<forall>r \<in> set rs. \<exists>t. topic_from_str (rr_source r) = Inr t \<and> t \<notin> set seen) \<and> distinct (map rule_levels rs)"
  using assms
proof (induction rs arbitrary: seen tree)
  case (Cons r rs)
  then obtain t where t: "topic_from_str (rr_source r) = Inr t" "t \<notin> set seen"
    and rest: "load_rules rs (seen @ [t]) (snd (node_insert t r tree)) = Inr tree'"
    by (auto split: sum.splits if_splits)
  note IH = Cons.IH [OF rest tree.ins_inv [OF Cons.prems(2)]]
  have r: "rule_levels r = Some (levels t)" using t(1) by (simp add: rule_levels_def)
  have "rule_levels q \<noteq> rule_levels r" if q: "q \<in> set rs" for q
  proof -
    from IH q obtain u where "topic_from_str (rr_source q) = Inr u" "u \<noteq> t" by fastforce
    then show ?thesis using r by (cases u; cases t) (auto simp: rule_levels_def)
  qed
  then have "rule_levels r \<notin> rule_levels ` set rs" by fastforce
  then show ?case using IH t r tree.ins_at [of t r tree] by auto
qed simp

lemma rules_stored:
  assumes "deserialize_rules rules = Inr tree"
  shows "node_wf tree" "set (values_at tree f) = {r \<in> set rules. rule_levels r = Some f}"
    "r \<in> set rules \<Longrightarrow> \<exists>t. topic_from_str (rr_source r) = Inr t \<and> rule_levels r = Some (levels t)" "distinct (map rule_levels rules)"
  using load_rules_correct [OF assms [unfolded deserialize_rules_def] tree.empty_inv] tree.empty_at [of f]
  by (auto simp: rule_levels_def)

lemma one_rule:
  assumes "deserialize_rules rules = Inr tree" and "values_at tree f \<noteq> []"
  shows "\<exists>r \<in> set rules. values_at tree f = [r] \<and> rule_levels r = Some f"
proof -
  note st = rules_stored [OF assms(1)]
  obtain r ys where v: "values_at tree f = r # ys" using assms(2) by (cases "values_at tree f") auto
  have mem: "q \<in> set rules \<and> rule_levels q = Some f" if "q \<in> set (r # ys)" for q using that st(2) [of f] v by auto
  have "q = r" if "q \<in> set ys" for q
    using mem [of q] mem [of r] that st(4) by (simp add: distinct_map inj_on_def)
  moreover have "distinct (r # ys)" using values_at_sorted [OF st(1), of f] v by (metis strict_sorted_iff)
  ultimately have "ys = []" by (cases ys) auto
  then show ?thesis using v st(2) [of f] by auto
qed

section \<open>The order of the matches\<close>

text \<open>Which of two filters the iterator yields first: \<open>#\<close> before \<open>+\<close> before a name, level by level, but the filter that ends before the one that goes on with \<open>#\<close>.\<close>

fun yields_before :: "level list \<Rightarrow> level list \<Rightarrow> bool" where
  "yields_before [] g = (g = [MultiWildcard])"
| "yields_before (f # fs) [] = False"
| "yields_before (f # fs) (g # gs) =
     (if f = g then yields_before fs gs else f = MultiWildcard \<or> f = SingleWildcard \<and> g \<noteq> MultiWildcard)"

definition before_in :: "level list \<Rightarrow> 'v item \<Rightarrow> 'v item \<Rightarrow> bool" where
  "before_in sub a b \<longleftrightarrow> (\<exists>f g. fst a = sub @ f \<and> fst b = sub @ g \<and> yields_before f g)"

lemma before_inI: "fst a = sub @ f \<Longrightarrow> fst b = sub @ g \<Longrightarrow> yields_before f g \<Longrightarrow> before_in sub a b"
  unfolding before_in_def by blast

lemma multi_items_prefix: "x \<in> set (multi_items n sub) \<Longrightarrow> fst x = sub @ [MultiWildcard]"
  by (auto simp: multi_items_def entry_def split: option.splits if_splits)

lemma before_in_child: "before_in (sub @ [l]) a b \<Longrightarrow> before_in sub a b"
  unfolding before_in_def by fastforce

lemma trie_match_ordered:
  "list_all (\<lambda>l. \<not> is_wildcard l) p \<Longrightarrow> sorted_wrt (before_in sub) (trie_match n p sub)"
proof (induction p arbitrary: n sub)
  case Nil
  have "before_in sub (sub, vs) (sub @ [MultiWildcard], vs')" for vs vs' :: "'a list" by (rule before_inI [of _ _ "[]" _ "[MultiWildcard]"]) simp_all
  then show ?case by (auto simp: entry_def multi_items_def split: option.splits)
next
  case (Cons l ls)
  have l: "l \<noteq> SingleWildcard" "l \<noteq> MultiWildcard" using Cons.prems by (auto simp: is_wildcard_def)
  define below where "below x = (case node_child n x of None \<Rightarrow> [] | Some b \<Rightarrow> trie_match b ls (sub @ [x]))" for x
  have child: "sorted_wrt (before_in sub) (below x)" for x
  proof (cases "node_child n x")
    case (Some b)
    have "sorted_wrt (before_in (sub @ [x])) (trie_match b ls (sub @ [x]))" using Cons by simp
    then show ?thesis using Some by (simp add: below_def sorted_wrt_mono_rel [of _ "before_in (sub @ [x])"] before_in_child)
  qed (simp add: below_def)
  have multi: "sorted_wrt (before_in sub) (multi_items n sub)" by (auto simp: multi_items_def entry_def split: option.splits)
  have pre: "\<exists>f. fst y = sub @ x # f" if "y \<in> set (below x)" for x y
    using that trie_match_prefix [of y _ ls "sub @ [x]"] by (auto simp: below_def split: option.splits)
  have first: "before_in sub a b" if "a \<in> set (multi_items n sub)" "b \<in> set (below x)" "x \<noteq> MultiWildcard" for a b x
    using pre [OF that(2)] multi_items_prefix [OF that(1)] that(3) by (fastforce intro: before_inI)
  have second: "before_in sub a b" if "a \<in> set (below SingleWildcard)" "b \<in> set (below l)" for a b
    using pre [OF that(1)] pre [OF that(2)] l by (fastforce intro: before_inI)
  have "trie_match n (l # ls) sub = (if wildcards_allowed n l sub then multi_items n sub @ below SingleWildcard else []) @ below l"
    by (simp add: below_def)
  then show ?case using child multi first second l by (simp add: sorted_wrt_append ball_Un)
qed

lemma last_is_greatest: "sorted_wrt R xs \<Longrightarrow> x \<in> set xs \<Longrightarrow> x = last xs \<or> R x (last xs)"
  by (induction xs) auto

lemma rules_ordered:
  assumes "\<forall>x \<in> set items. \<exists>r. snd x = [r] \<and> rule_levels r = Some (fst x)" and "sorted_wrt (before_in []) items"
  shows "sorted_wrt (\<lambda>r q. yields_before (the (rule_levels r)) (the (rule_levels q))) (concat (map snd items))"
  using assms
proof (induction items)
  case (Cons x items)
  then obtain r where r: "snd x = [r]" "rule_levels r = Some (fst x)" by auto
  have "yields_before (fst x) (the (rule_levels q))" if "q \<in> set (concat (map snd items))" for q
  proof -
    from that obtain y where "y \<in> set items" "q \<in> set (snd y)" by auto
    then show ?thesis using Cons.prems by (fastforce simp: before_in_def)
  qed
  then show ?case using Cons r by (simp add: sorted_wrt_append)
qed simp

section \<open>Properties\<close>

definition candidates :: "rewrite_rule list \<Rightarrow> rw_action \<Rightarrow> string \<Rightarrow> rewrite_rule set" where
  "candidates rules action topic =
     {r \<in> set rules. action_applies (rr_action r) action \<and> mqtt_match (the (rule_levels r)) (split_slash topic)}"

lemma matched_rules:
  assumes load: "deserialize_rules rules = Inr tree" and t: "topic_from_str topic = Inr t" and names: "list_all (\<lambda>l. \<not> is_wildcard l) (levels t)"
  defines "found \<equiv> concat (map snd (mi_collect (node_matches tree t)))"
  shows "set found = {r \<in> set rules. mqtt_match (the (rule_levels r)) (split_slash topic)}"
    "sorted_wrt (\<lambda>r q. yields_before (the (rule_levels r)) (the (rule_levels q))) found"
proof -
  have items: "mi_collect (node_matches tree t) = trie_match tree (levels t) []" by (simp add: mi_collect_pending pending_matches)
  have set: "set (trie_match tree (levels t) []) = {(f, values_at tree f) |f. values_at tree f \<noteq> [] \<and> root_match [] f (levels t)}"
    unfolding trie_match_set matched_def by simp
  have "\<forall>x \<in> set (trie_match tree (levels t) []). \<exists>r. snd x = [r] \<and> rule_levels r = Some (fst x)"
    unfolding set using one_rule [OF load] by fastforce
  from rules_ordered [OF this trie_match_ordered [OF names]]
  show "sorted_wrt (\<lambda>r q. yields_before (the (rule_levels r)) (the (rule_levels q))) found" unfolding found_def items .
  have path: "list_all level_canonical (levels t)" "split_slash topic = map level_to_string (levels t)"
    using t split_to_string [of t] by (auto simp: topic_from_str_levels)
  have std: "root_match [] (the (rule_levels r)) (levels t) = mqtt_match (the (rule_levels r)) (split_slash topic)" if r: "r \<in> set rules" for r
  proof -
    from rules_stored(3) [OF load r] obtain u where "topic_from_str (rr_source r) = Inr u" "rule_levels r = Some (levels u)" by blast
    then have "levels_ok (the (rule_levels r))" "list_all level_canonical (the (rule_levels r))" by (auto simp: topic_from_str_levels topic_is_valid_levels)
    then show ?thesis using root_match_standard path names by simp
  qed
  have "set found = {r. \<exists>f. r \<in> set (values_at tree f) \<and> root_match [] f (levels t)}"
    unfolding found_def items set_concat set_map set by auto (metis empty_iff empty_set)
  also have "\<dots> = {r \<in> set rules. root_match [] (the (rule_levels r)) (levels t)}"
    using rules_stored(2,3) [OF load] by fastforce
  finally show "set found = {r \<in> set rules. mqtt_match (the (rule_levels r)) (split_slash topic)}" using std by auto
qed

text \<open>How closely a filter describes the names it matches: at the first level that differs a name is closer than \<open>+\<close> and this than \<open>#\<close>, and a filter is
  closer than the same filter followed by \<open>#\<close>.\<close>

definition closeness :: "level \<Rightarrow> nat" where
  "closeness l = (if l = MultiWildcard then 0 else if l = SingleWildcard then 1 else 2)"

fun closer :: "level list \<Rightarrow> level list \<Rightarrow> bool" where
  "closer [] g = (g = [MultiWildcard])"
| "closer (f # fs) [] = False"
| "closer (f # fs) (g # gs) = (if f = g then closer fs gs else closeness g < closeness f)"

lemma yields_before_closer: "yields_before f g \<Longrightarrow> closer g f \<or> g = f @ [MultiWildcard]"
  by (induction f g rule: yields_before.induct) (auto simp: closeness_def split: if_splits)


text \<open>The closest rule loses: with a rule for a filter and one for the same filter followed by \<open>#\<close>, a publication to exactly this topic is
  rewritten by the second.\<close>

theorem exact_rule_ignored:
  "map_sum id (\<lambda>tree. rewrite_topic captures tree RW_Publish None ''x'')
     (deserialize_rules [RewriteRule RW_All ''x'' ''a'' [DNormal ''a''] None, RewriteRule RW_All ''x/#'' ''b'' [DNormal ''b''] None])
   = Inr (Inr (Some ''b''))"
  by code_simp

section \<open>Examples\<close>

definition ex_rule1 :: rewrite_rule where
  "ex_rule1 = RewriteRule RW_All ''x/#'' ''a/${clientid}'' [DNormal ''a/'', DClientid] None"

definition ex_rule2 :: rewrite_rule where
  "ex_rule2 = RewriteRule RW_Publish ''x/+'' ''b/$1'' [DNormal ''b/'', DPlace 1] (Some ''^x/(.+)$'')"

text \<open>A crude stand-in for the pattern of the second rule: what follows the first two characters.\<close>

definition ex_captures :: regex_captures where
  "ex_captures re topic = Some [Some topic, Some (drop 2 topic)]"

lemma ex_rules_parsed: "rule_try_from RW_All ''x/#'' ''a/${clientid}'' None = Inr ex_rule1"
  "rule_try_from RW_Publish ''x/+'' ''b/$1'' (Some ''^x/(.+)$'') = Inr ex_rule2"
  by (simp_all add: rule_try_from_def to_dest_topic_items_def dest_match_def dest_place_def dest_normal_def is_digit_def digit_val_def parse_usize_def
    starts_with_def ex_rule1_def ex_rule2_def)

lemma ex_rule_levels: "rule_levels ex_rule1 = Some [Normal ''x'', MultiWildcard]" "rule_levels ex_rule2 = Some [Normal ''x'', SingleWildcard]"
  by code_simp+

lemma ex_candidates: "candidates [ex_rule1, ex_rule2] RW_Publish ''x/y'' = {ex_rule1, ex_rule2}"
proof -
  have "action_applies (rr_action ex_rule1) RW_Publish" "action_applies (rr_action ex_rule2) RW_Publish"
    "mqtt_match (the (rule_levels ex_rule1)) (split_slash ''x/y'')" "mqtt_match (the (rule_levels ex_rule2)) (split_slash ''x/y'')"
    by code_simp+
  then show ?thesis unfolding candidates_def by auto
qed


end
