(* ===== verification/Plugins.thy ===== *)
theory Plugins
  imports Topic_Rewrite Message_Store
begin

text \<open>
  Plug-ins as handlers of the hooks: the access rules (\<open>ferromq-acl\<close>), messages for one client (\<open>ferromq-p2p-messaging\<close>), the marks of bridges
  (\<open>ferromq-bridge-origin\<close>); and the subscriptions that every client gets (\<open>ferromq-auto-subscription\<close>). The decisions of the access rules are in theory \<open>Acl\<close>; here
  they are registered with the manager of theory \<open>Hooks\<close>.

  The state of these plug-ins is one record: the rules, and the attributes that the plug-ins keep with a session (\<open>extra_attrs\<close>), by the identity of
  the session. The task that enters the placeholders of a connecting client is modelled as finished at once. A configuration in JSON is modelled as a
  record of the fields that the code reads and writes.

  Shown: with the access rules registered first, they decide every publication whatever other handlers do; a message for one client changes the channel of no
  other client; a configuration of automatic subscriptions can be read back after it was written, except for one value of the retain handling; the messages for one
  client discard what the rewriting of topics did before.
\<close>

section \<open>State\<close>

datatype bridge_direction = Ingress | Egress

record plugin_world =
  pw_rules :: "plugin_rule list"
  pw_caches :: "(ident \<times> string list) list"
  pw_origins :: "(ident \<times> bridge_direction) list"

section \<open>Access rules\<close>

definition session_cache :: "ident \<Rightarrow> plugin_world \<Rightarrow> string list" where
  "session_cache i w = (case map_of (pw_caches w) i of Some c \<Rightarrow> c | None \<Rightarrow> [])"

fun acl_handler :: "(socket_addr \<Rightarrow> string) \<Rightarrow> bool \<Rightarrow> ('g, 'r, plugin_world) hook_handler" where
  "acl_handler ip_text disc (HP_ClientConnected s) acc w =
     (case acl_client_connected (ac_id s) (pw_rules w) (session_cache (ac_id s) w) of
        (rules, caches) \<Rightarrow> ((True, acc), w\<lparr>pw_rules := rules, pw_caches := AList.update (ac_id s) caches (pw_caches w)\<rparr>))"
| "acl_handler ip_text disc (HP_ClientDisconnected s r) acc w =
     ((True, acc), w\<lparr>pw_rules := acl_client_disconnected (ac_id s) (session_cache (ac_id s) w) (pw_rules w)\<rparr>)"
| "acl_handler ip_text disc (HP_ClientAuthenticate ci) acc w =
     (case acl_client_authenticate ip_text ci (pw_rules w) (case acc of Some (HR_AuthResult a) \<Rightarrow> Some a | _ \<Rightarrow> None) of
        (proceed, res) \<Rightarrow> ((proceed, map_option HR_AuthResult res), w))"
| "acl_handler ip_text disc (HP_ClientSubscribeCheckAcl s sub) acc w =
     (case acl_subscribe_check ip_text (acl_client.truncate s) sub (pw_rules w) (case acc of Some (HR_SubscribeAclResult a) \<Rightarrow> Some a | _ \<Rightarrow> None) of
        (proceed, res) \<Rightarrow> ((proceed, map_option HR_SubscribeAclResult res), w))"
| "acl_handler ip_text disc (HP_MessagePublishCheckAcl s p) acc w =
     (case acl_publish_check ip_text disc (acl_client.truncate s) (mp_inner p) (pw_rules w) (case acc of Some (HR_PublishAclResult a) \<Rightarrow> Some a | _ \<Rightarrow> None) of
        (proceed, res) \<Rightarrow> ((proceed, map_option HR_PublishAclResult res), w))"
| "acl_handler ip_text disc _ acc w = ((True, acc), w)"

definition acl_init :: "nat \<Rightarrow> u32 \<Rightarrow> string list \<Rightarrow> (socket_addr \<Rightarrow> string) \<Rightarrow> bool \<Rightarrow> ('g, 'r, plugin_world) hook_op list" where
  "acl_init r priority ids ip_text disc =
     map2 (\<lambda>t i. RegAdd r t priority i (acl_handler ip_text disc))
       [HT_ClientConnected, HT_ClientDisconnected, HT_ClientAuthenticate, HT_ClientSubscribeCheckAcl, HT_MessagePublishCheckAcl] ids"

section \<open>Messages for one client\<close>

datatype p2p_mode = P2P_Prefix | P2P_Suffix | P2P_Both

datatype p2p_error = ClientidNotFound string | SubTopicNotFound string

definition p2p_match :: "p2p_mode \<Rightarrow> string list \<Rightarrow> (string \<times> string) option" where
  "p2p_match mode parts =
     (if (mode = P2P_Prefix \<or> mode = P2P_Both) \<and> length parts \<ge> 3 \<and> parts ! 0 = ''p2p''
      then Some (parts ! 1, join_slash (drop 2 parts))
      else if (mode = P2P_Suffix \<or> mode = P2P_Both) \<and> length parts \<ge> 3 \<and> parts ! (length parts - 2) = ''p2p''
      then Some (last parts, join_slash (take (length parts - 2) parts))
      else None)"

definition parse_p2p_topic :: "p2p_mode \<Rightarrow> string \<Rightarrow> p2p_error + (string \<times> string) option" where
  "parse_p2p_topic mode topic =
     (case p2p_match mode (split_slash topic) of
        Some (clientid, t) \<Rightarrow>
          (if clientid = [] then Inl (ClientidNotFound topic)
           else if t = [] then Inl (SubTopicNotFound topic)
           else Inr (Some (clientid, t)))
      | None \<Rightarrow> Inr None)"

definition p2p_publish :: "client_id \<Rightarrow> string \<Rightarrow> msg_publish \<Rightarrow> msg_publish" where
  "p2p_publish clientid t p = p\<lparr>mp_inner := (mp_inner p)\<lparr>pub_topic := text_bytes t\<rparr>, mp_target_clientid := Some clientid\<rparr>"

fun p2p_handler :: "p2p_mode \<Rightarrow> ('g, 'r, 'w) hook_handler" where
  "p2p_handler mode (HP_MessagePublish s f p) acc w =
     (case parse_p2p_topic mode (text_of (pub_topic (mp_inner p))) of
        Inr (Some (clientid, t)) \<Rightarrow> ((True, Some (HR_Publish (p2p_publish clientid t p))), w)
      | _ \<Rightarrow> ((True, acc), w))"
| "p2p_handler mode _ acc w = ((True, acc), w)"

definition p2p_init :: "nat \<Rightarrow> string \<Rightarrow> p2p_mode \<Rightarrow> ('g, 'r, 'w) hook_op list" where
  "p2p_init r i mode = [RegAdd r HT_MessagePublish 0 i (p2p_handler mode)]"

section \<open>Bridges\<close>

definition bridge_origin :: "string \<Rightarrow> string \<Rightarrow> client_id \<Rightarrow> bridge_direction option" where
  "bridge_origin ingress_marker egress_marker c =
     (if str_contains ingress_marker c then Some Ingress
      else if str_contains egress_marker c then Some Egress
      else None)"

fun bridge_origin_handler :: "string \<Rightarrow> string \<Rightarrow> ('g, 'r, plugin_world) hook_handler" where
  "bridge_origin_handler ingress_marker egress_marker (HP_ClientConnected s) acc w =
     ((True, acc), case bridge_origin ingress_marker egress_marker (id_client_id (ac_id s)) of
                     Some d \<Rightarrow> w\<lparr>pw_origins := AList.update (ac_id s) d (pw_origins w)\<rparr>
                   | None \<Rightarrow> w)"
| "bridge_origin_handler ingress_marker egress_marker _ acc w = ((True, acc), w)"

definition bridge_origin_init :: "nat \<Rightarrow> string \<Rightarrow> string \<Rightarrow> string \<Rightarrow> ('g, 'r, plugin_world) hook_op list" where
  "bridge_origin_init r i ingress_marker egress_marker =
     [RegAdd r HT_ClientConnected 0 i (bridge_origin_handler ingress_marker egress_marker)]"

section \<open>Automatic subscriptions\<close>

record subscribe_item =
  si_sub :: broker_subscribe
  si_has_clientid_placeholder :: bool
  si_has_username_placeholder :: bool

definition auto_subscribe :: "ident \<Rightarrow> subscribe_item \<Rightarrow> broker_subscribe option" where
  "auto_subscribe i item =
     (let sub = si_sub item;
          sub = (if si_has_clientid_placeholder item
                 then sub\<lparr>bs_topic_filter := str_replace ''${clientid}'' (id_client_id i) (bs_topic_filter sub)\<rparr> else sub)
      in if si_has_username_placeholder item
         then map_option (\<lambda>username. sub\<lparr>bs_topic_filter := str_replace ''${username}'' username (bs_topic_filter sub)\<rparr>) (id_username i)
         else Some sub)"

definition auto_subscribes :: "subscribe_item list \<Rightarrow> ident \<Rightarrow> broker_subscribe list" where
  "auto_subscribes items i = List.map_filter (auto_subscribe i) items"

record subscribe_json =
  sj_topic_filter :: "string option"
  sj_qos :: "nat option"
  sj_no_local :: "bool option"
  sj_retain_as_published :: "bool option"
  sj_retain_handling :: "nat option"

definition retain_handling_number :: "retain_handling option \<Rightarrow> nat" where
  "retain_handling_number h =
     (case h of Some RH_AtSubscribe \<Rightarrow> 0 | Some RH_AtSubscribeNew \<Rightarrow> 1 | Some RH_NoAtSubscribe \<Rightarrow> 3 | None \<Rightarrow> 0)"

definition extended_filter :: "broker_subscribe \<Rightarrow> string" where
  "extended_filter sub =
     (case opt_shared_group (bs_opts sub) of
        Some g \<Rightarrow> ''$share/'' @ g @ ''/'' @ bs_topic_filter sub
      | None \<Rightarrow>
          (case opt_limit_subs (bs_opts sub) of
             Some limit \<Rightarrow> (if limit = 1 then ''$exclusive/'' @ bs_topic_filter sub
                            else ''$limit/'' @ nat_to_string limit @ ''/'' @ bs_topic_filter sub)
           | None \<Rightarrow> bs_topic_filter sub))"

definition serialize_subscribe :: "subscribe_item \<Rightarrow> subscribe_json" where
  "serialize_subscribe item =
     (let sub = si_sub item; opts = bs_opts sub
      in \<lparr>sj_topic_filter = Some (extended_filter sub), sj_qos = Some (unat (qos_value (opt_qos opts))),
          sj_no_local = Some (case opt_no_local opts of Some b \<Rightarrow> b | None \<Rightarrow> False),
          sj_retain_as_published = Some (case opt_retain_as_published opts of Some b \<Rightarrow> b | None \<Rightarrow> False),
          sj_retain_handling = Some (retain_handling_number (opt_retain_handling opts))\<rparr>)"

datatype auto_error = AE_TopicFilterRequired | AE_QosRequired | AE_Qos | AE_RetainHandling | AE_Filter filter_error

definition retain_handling_from :: "nat option \<Rightarrow> auto_error + retain_handling" where
  "retain_handling_from n =
     (case n of
        Some k \<Rightarrow> (if k = 0 then Inr RH_AtSubscribe else if k = 1 then Inr RH_AtSubscribeNew
                   else if k = 2 then Inr RH_NoAtSubscribe else Inl AE_RetainHandling)
      | None \<Rightarrow> Inr RH_AtSubscribe)"

definition deserialize_subscribe :: "subscribe_json \<Rightarrow> auto_error + subscribe_item" where
  "deserialize_subscribe j =
     (case sj_topic_filter j of
        None \<Rightarrow> Inl AE_TopicFilterRequired
      | Some topic_filter \<Rightarrow>
          (case sj_qos j of
             None \<Rightarrow> Inl AE_QosRequired
           | Some q \<Rightarrow>
               (case qos_try_from (word_of_nat q) of
                  Inl _ \<Rightarrow> Inl AE_Qos
                | Inr q \<Rightarrow>
                    (case retain_handling_from (sj_retain_handling j) of
                       Inl e \<Rightarrow> Inl e
                     | Inr h \<Rightarrow>
                         (let opts = \<lparr>so_qos = q, so_no_local = (case sj_no_local j of Some b \<Rightarrow> b | None \<Rightarrow> False),
                                      so_retain_as_published = (case sj_retain_as_published j of Some b \<Rightarrow> b | None \<Rightarrow> False),
                                      so_retain_handling = h\<rparr>
                          in case subscribe_from_v5 topic_filter opts True True None of
                               Inl e \<Rightarrow> Inl (AE_Filter e)
                             | Inr sub \<Rightarrow>
                                 Inr \<lparr>si_sub = sub, si_has_clientid_placeholder = str_contains ''${clientid}'' topic_filter,
                                      si_has_username_placeholder = str_contains ''${username}'' topic_filter\<rparr>)))))"

section \<open>The first handler\<close>

lemma called_first:
  assumes e: "e \<in> set (registrations ops)" "rg_type e = t" "rg_started e"
    and top: "\<And>d. d \<in> set (registrations ops) \<Longrightarrow> rg_type d = t \<Longrightarrow> rg_started d \<Longrightarrow> rg_key d \<le> rg_key e"
  shows "\<exists>hs. called t (registrations ops) = rg_handler e # hs"
proof -
  let ?L = "sort_key rg_key (filter (\<lambda>e. rg_type e = t \<and> rg_started e) (registrations ops))"
  have mem: "e \<in> set ?L" using e by simp
  then have ne: "?L \<noteq> []" by (metis empty_iff empty_set)
  then have l: "last ?L \<in> set (registrations ops)" "rg_type (last ?L) = t" "rg_started (last ?L)" using last_in_set [OF ne] by simp_all
  have "rg_key e \<le> rg_key (last ?L)"
  proof -
    have "sorted (map rg_key ?L)" by simp
    from last_is_greatest [OF this, of "rg_key e"] mem ne show ?thesis by (auto simp: last_map)
  qed
  then have "rg_slot (last ?L) = rg_slot e" using top [OF l] l(2) e(2) by (simp add: rg_slot_def)
  moreover have "distinct (map rg_slot (registrations ops))" using hooks_reachable [of ops] by (simp add: hooks_agree_def)
  ultimately have "last ?L = e" using l(1) e(1) by (auto simp: distinct_map inj_on_def)
  then have "?L = butlast ?L @ [e]" using append_butlast_last_id [OF ne] by (simp only:)
  then have "rev ?L = e # rev (butlast ?L)" by (simp only: rev_eq_Cons_iff rev_rev_ident)
  then have "called t (registrations ops) = map rg_handler (e # rev (butlast ?L))" unfolding called_def by (rule arg_cong)
  then show ?thesis by (simp only: list.map) blast
qed

lemma acl_publish_final: "\<exists>res. acl_publish_check ip_text disc cl p rules acc = (False, Some res)"
  by (cases acc) (auto simp: acl_publish_check_def)

text \<open>C26: The access rules decide. When the handler of the access rules is the started handler for the check of publications with the greatest key, then whatever
  other handlers there are, a publication of a client that is no superuser is decided by the rules alone, and one of a superuser is
  allowed; the state of the plug-ins does not change.\<close>

theorem acl_plugin_decides:
  assumes "e \<in> set (registrations ops)" "rg_type e = HT_MessagePublishCheckAcl" "rg_started e" "rg_handler e = acl_handler ip_text disc"
    and "\<And>d. d \<in> set (registrations ops) \<Longrightarrow> rg_type d = HT_MessagePublishCheckAcl \<Longrightarrow> rg_started d \<Longrightarrow> rg_key d \<le> rg_key e"
  shows "hook_publish_check_acl s p (hooks_after ops) w =
    (if is_superuser s then acl_allow
     else the (snd (acl_publish_check ip_text disc (acl_client.truncate s) (mp_inner p) (pw_rules w) None)), w)"
proof -
  obtain hs where "called HT_MessagePublishCheckAcl (registrations ops) = acl_handler ip_text disc # hs"
    using called_first [OF assms(1,2,3,5)] assms(4) by auto
  moreover obtain res where "acl_publish_check ip_text disc (acl_client.truncate s) (mp_inner p) (pw_rules w) None = (False, Some res)"
    using acl_publish_final by blast
  ultimately show ?thesis by (simp add: hook_publish_check_acl_def exec_called)
qed

section \<open>One client\<close>

lemma p2p_prefix_parsed:
  assumes "c \<noteq> []" "CHR ''/'' \<notin> set c" "t \<noteq> []" "mode \<noteq> P2P_Suffix"
  shows "parse_p2p_topic mode (''p2p/'' @ c @ ''/'' @ t) = Inr (Some (c, t))"
proof -
  have "split_slash (''p2p/'' @ c @ ''/'' @ t) = ''p2p'' # c # split_slash t"
    using split_slash_append [of "''p2p''" "c @ ''/'' @ t"] split_slash_append [OF assms(2), of t] by simp
  moreover have "length (split_slash t) \<ge> 1" "split_slash t \<noteq> []" by (cases "split_slash t"; simp add: split_slash_not_Nil)+
  ultimately show ?thesis using assms join_split [of t] by (cases mode) (simp_all add: parse_p2p_topic_def p2p_match_def)
qed


text \<open>Rewriting is lost. With the plug-in for rewriting before the one for messages for one client, a publication to \<open>p2p/c/t\<close> keeps its topic \<open>t\<close>, whatever the
  rewriting made of the publication: the second handler starts from the original.\<close>

theorem p2p_discards_rewrite:
  fixes ops :: "('g, 'r, 'w) hook_op list"
  assumes "c \<noteq> []" "CHR ''/'' \<notin> set c" "t \<noteq> []" "mode \<noteq> P2P_Suffix"
    and "text_of (pub_topic (mp_inner p)) = ''p2p/'' @ c @ ''/'' @ t"
    and "called HT_MessagePublish (registrations ops) = [rewrite_handler captures tree, p2p_handler mode]"
  shows "fst (hook_message_publish s from p (hooks_after ops) w) = Some (p2p_publish c t p)"
proof -
  have "\<exists>acc. rewrite_handler captures tree (HP_MessagePublish s from p :: 'g hook_param) (None :: 'r hook_result option) w = ((True, acc), w)"
    by (auto simp: Let_def split: sum.splits option.splits)
  then show ?thesis
    using assms(5,6) p2p_prefix_parsed [OF assms(1-4)] by (auto simp: hook_message_publish_def exec_called simp del: rewrite_handler.simps)
qed

section \<open>Configurations of automatic subscriptions\<close>

lemma join_splitn: "0 < n \<Longrightarrow> join_slash (splitn_slash n s) = s"
proof (induction n s rule: splitn_slash.induct)
  case (4 n c cs)
  have "splitn_slash (Suc n) cs \<noteq> []" "splitn_slash (Suc (Suc n)) cs \<noteq> []"
    by (cases n; cases cs; simp split: list.splits)+
  then show ?case using 4 by (auto simp: neq_Nil_conv split: list.splits) (metis join_slash.simps(2,3) append_Cons list.exhaust)+
qed simp_all

lemma splitn_two: "nth_level (splitn_slash 3 s) 0 = Some a \<Longrightarrow> nth_level (splitn_slash 3 s) 1 = Some g \<Longrightarrow> nth_level (splitn_slash 3 s) 2 = Some t \<Longrightarrow>
    s = a @ ''/'' @ g @ ''/'' @ t"
proof -
  assume *: "nth_level (splitn_slash 3 s) 0 = Some a" "nth_level (splitn_slash 3 s) 1 = Some g" "nth_level (splitn_slash 3 s) 2 = Some t"
  have "length (splitn_slash n s) \<le> n" for n by (induction n s rule: splitn_slash.induct) (auto split: list.splits)
  from this [of 3] * have "splitn_slash 3 s = [a, g, t]"
    by (auto simp: nth_level_def numeral_3_eq_3 le_Suc_eq length_Suc_conv split: if_splits)
  then show ?thesis using join_splitn [of 3 s] by simp
qed

lemma from_v5_opts: "subscribe_from_v5 tf opts sh li i = Inr sub \<Longrightarrow> \<exists>grp limit. bs_opts sub = sub_options_from_v5 opts grp limit i"
  by (auto simp: subscribe_from_v5_def split: sum.splits) blast

lemma filter_printed:
  assumes "subscribe_from_v5 tf opts True True None = Inr sub" and "opt_limit_subs (bs_opts sub) = None"
  shows "extended_filter sub = tf"
proof -
  from assms(1) obtain topic grp limit where parsed: "parse_topic_filter tf True True = Inr (topic, grp, limit)"
    and sub: "sub = \<lparr>bs_topic_filter = topic, bs_opts = sub_options_from_v5 opts grp limit None\<rparr>"
    by (auto simp: subscribe_from_v5_def split: sum.splits)
  have limit: "limit = None" using assms(2) sub by (simp add: sub_options_from_v5_def)
  show ?thesis
  proof (cases grp)
    case None
    then show ?thesis using parsed limit sub
      by (auto simp: extended_filter_def sub_options_from_v5_def parse_topic_filter_def Let_def split: if_splits option.splits)
  next
    case (Some g)
    then have "nth_level (splitn_slash 3 tf) 0 = Some ''$share''" "nth_level (splitn_slash 3 tf) 1 = Some g" "nth_level (splitn_slash 3 tf) 2 = Some topic"
      using parsed by (auto simp: parse_topic_filter_def Let_def split: if_splits option.splits)
    from splitn_two [OF this] show ?thesis using Some sub by (simp add: extended_filter_def sub_options_from_v5_def)
  qed
qed

lemma qos_number: "qos_try_from (word_of_nat (unat (qos_value q))) = Inr q"
  by simp

text \<open>C38: Configurations. An automatic subscription without limit that was read from a configuration is read back from what is written for it, except when retained messages are not
  to be sent: this retain handling is written as 3, which is refused.\<close>

theorem auto_config_roundtrip:
  assumes "deserialize_subscribe j = Inr item" and "opt_limit_subs (bs_opts (si_sub item)) = None"
  shows "deserialize_subscribe (serialize_subscribe item) =
    (if opt_retain_handling (bs_opts (si_sub item)) = Some RH_NoAtSubscribe then Inl AE_RetainHandling else Inr item)"
proof -
  from assms(1) obtain tf opts where sub: "subscribe_from_v5 tf opts True True None = Inr (si_sub item)"
    and item: "item = \<lparr>si_sub = si_sub item, si_has_clientid_placeholder = str_contains ''${clientid}'' tf,
      si_has_username_placeholder = str_contains ''${username}'' tf\<rparr>"
    by (auto simp: deserialize_subscribe_def Let_def split: option.splits sum.splits)
  from from_v5_opts [OF sub] obtain grp limit where "bs_opts (si_sub item) = sub_options_from_v5 opts grp limit None" by blast
  then have opts: "opt_qos (bs_opts (si_sub item)) = so_qos opts" "opt_no_local (bs_opts (si_sub item)) = Some (so_no_local opts)"
    "opt_retain_as_published (bs_opts (si_sub item)) = Some (so_retain_as_published opts)"
    "opt_retain_handling (bs_opts (si_sub item)) = Some (so_retain_handling opts)" by (simp_all add: sub_options_from_v5_def)
  have json: "serialize_subscribe item = \<lparr>sj_topic_filter = Some tf, sj_qos = Some (unat (qos_value (so_qos opts))), sj_no_local = Some (so_no_local opts),
      sj_retain_as_published = Some (so_retain_as_published opts), sj_retain_handling = Some (retain_handling_number (Some (so_retain_handling opts)))\<rparr>"
    by (simp add: serialize_subscribe_def Let_def opts filter_printed [OF sub assms(2)])
  have same: "\<lparr>so_qos = so_qos opts, so_no_local = so_no_local opts, so_retain_as_published = so_retain_as_published opts,
      so_retain_handling = so_retain_handling opts\<rparr> = opts" by simp
  have number: "retain_handling_from (Some (retain_handling_number (Some h))) = (if h = RH_NoAtSubscribe then Inl AE_RetainHandling else Inr h)" for h
    by (cases h) (simp_all add: retain_handling_from_def retain_handling_number_def)
  show ?thesis
    unfolding json opts deserialize_subscribe_def
    by (cases "so_retain_handling opts = RH_NoAtSubscribe") (simp_all add: qos_number number same sub Let_def flip: item)
qed

section \<open>Examples\<close>

text \<open>The access rules, and another handler of lower priority that allows everything.\<close>

definition ex_acl_ops :: "(unit, unit, plugin_world) hook_op list" where
  "ex_acl_ops = acl_init 3 9 [''a'', ''b'', ''c'', ''d'', ''e''] (\<lambda>_. []) True @
     [RegAdd 4 HT_MessagePublishCheckAcl 2 ''f'' (\<lambda>p acc w. ((True, Some (HR_PublishAclResult acl_allow)), w)), RegStart 3, RegStart 4]"

definition ex_plugins :: plugin_world where
  "ex_plugins = \<lparr>pw_rules = [], pw_caches = [], pw_origins = []\<rparr>"

theorem acl_plugin_decides_witness:
  "hook_publish_check_acl ex_listener ex_pub1 (hooks_after ex_acl_ops) ex_plugins = (acl_rejected True None, ex_plugins)"
proof -
  let ?e = "\<lparr>rg_register = 3, rg_type = HT_MessagePublishCheckAcl, rg_key = (9, ''e''), rg_handler = acl_handler (\<lambda>_. []) True, rg_started = True\<rparr>
    :: (unit, unit, plugin_world) registration"
  have regs: "{d \<in> set (registrations ex_acl_ops). rg_type d = HT_MessagePublishCheckAcl \<and> rg_started d}
    = {?e, \<lparr>rg_register = 4, rg_type = HT_MessagePublishCheckAcl, rg_key = (2, ''f''),
         rg_handler = (\<lambda>p acc w. ((True, Some (HR_PublishAclResult acl_allow)), w)), rg_started = True\<rparr>}"
    by (auto simp: ex_acl_ops_def acl_init_def registrations_def mark_one_def rg_slot_def)
  have e: "?e \<in> set (registrations ex_acl_ops)" using regs by auto
  have top: "rg_key d \<le> rg_key ?e" if "d \<in> set (registrations ex_acl_ops)" "rg_type d = HT_MessagePublishCheckAcl" "rg_started d" for d
  proof -
    have "d \<in> {d \<in> set (registrations ex_acl_ops). rg_type d = HT_MessagePublishCheckAcl \<and> rg_started d}" using that by simp
    then show ?thesis unfolding regs by auto
  qed
  have "hook_publish_check_acl ex_listener ex_pub1 (hooks_after ex_acl_ops) ex_plugins =
    (if is_superuser ex_listener then acl_allow
     else the (snd (acl_publish_check (\<lambda>_. []) True (acl_client.truncate ex_listener) (mp_inner ex_pub1) (pw_rules ex_plugins) None)), ex_plugins)"
    by (rule acl_plugin_decides [OF e _ _ _ top]) simp_all
  then show ?thesis by (simp add: is_superuser_def ex_listener_def ex_plugins_def acl_publish_check_def)
qed

definition ex_p2p_pub :: msg_publish where
  "ex_p2p_pub = ex_pub1\<lparr>mp_inner := (mp_inner ex_pub1)\<lparr>pub_topic := text_bytes ''p2p/s/a''\<rparr>\<rparr>"

definition ex_p2p_ops :: "(unit, unit, unit) hook_op list" where
  "ex_p2p_ops = p2p_init 2 ''a'' P2P_Both @ [RegStart 2]"

lemma ex_p2p_called: "called HT_MessagePublish (registrations ex_p2p_ops) = [p2p_handler P2P_Both]"
  by (simp add: ex_p2p_ops_def p2p_init_def registrations_def called_def mark_one_def)


text \<open>A rule that rewrites every topic; the second handler is called later since its priority is lower.\<close>

definition ex_rewrite_all :: "rewrite_rule node" where
  "ex_rewrite_all = snd (node_insert (Topic [MultiWildcard]) (RewriteRule RW_All ''#'' ''z'' [DNormal ''z''] None) node_default)"

definition ex_chain_ops :: "(unit, unit, unit) hook_op list" where
  "ex_chain_ops = p2p_init 2 ''a'' P2P_Both @ rewrite_init 4 9 [''b'', ''c'', ''d''] ex_captures ex_rewrite_all @ [RegStart 2, RegStart 4]"

theorem p2p_discards_rewrite_witness:
  "fst (hook_message_publish None (from_custom (ex_ident ''p'')) ex_p2p_pub (hooks_after ex_chain_ops) ()) = Some (p2p_publish ''s'' ''a'' ex_p2p_pub)"
proof -
  have "pub_topic (mp_inner ex_p2p_pub) = text_bytes ''p2p/s/a''" by (simp add: ex_p2p_pub_def)
  then have topic: "text_of (pub_topic (mp_inner ex_p2p_pub)) = ''p2p/'' @ ''s'' @ ''/'' @ ''a''" by simp
  have "called HT_MessagePublish (registrations ex_chain_ops) = [rewrite_handler ex_captures ex_rewrite_all, p2p_handler P2P_Both]"
    by (simp add: ex_chain_ops_def p2p_init_def rewrite_init_def registrations_def called_def mark_one_def rg_slot_def)
  from p2p_discards_rewrite [OF _ _ _ _ topic this] show ?thesis by simp
qed

definition ex_json :: subscribe_json where
  "ex_json = \<lparr>sj_topic_filter = Some ''x'', sj_qos = Some 2, sj_no_local = None, sj_retain_as_published = None, sj_retain_handling = Some 2\<rparr>"

theorem auto_config_roundtrip_witness:
  "\<exists>item. deserialize_subscribe ex_json = Inr item \<and> deserialize_subscribe (serialize_subscribe item) = Inl AE_RetainHandling"
proof -
  have "qos_try_from (word_of_nat 2) = Inr ExactlyOnce" by (simp add: qos_try_from_def)
  then obtain item where item: "deserialize_subscribe ex_json = Inr item" "opt_limit_subs (bs_opts (si_sub item)) = None"
    "opt_retain_handling (bs_opts (si_sub item)) = Some RH_NoAtSubscribe"
    by (simp add: ex_json_def deserialize_subscribe_def retain_handling_from_def subscribe_from_v5_def parse_topic_filter_def nth_level_def
      numeral_3_eq_3 sub_options_from_v5_def Let_def)
  from auto_config_roundtrip [OF item(1,2)] item show ?thesis by auto
qed

end
