(* ===== verification/Spec2Isabelle.thy ===== *)
theory Spec2Isabelle
  imports Mqtt_Codec Trie Shared_Strategies Persistence Cluster_Router Plugins
begin

text \<open>
  \<^bold>\<open>The ferromq MQTT broker\<close>

  ferromq (\<open>src/\<close>) is an MQTT 3.1.1 and 5 broker in Rust. Bytes of a connection go through the codec
  (\<open>ferromq-codec\<close>), which detects the protocol version and reads and writes packets. The handshake (\<open>ferromq/src/v3.rs\<close>, \<open>v5.rs\<close>)
  authenticates a client, evicts its previous session and starts the new one. A session task
  (\<open>ferromq/src/session.rs\<close>) handles the packets of its client one after the other: a PUBLISH is checked, delayed or
  forwarded by the shared state of the node (\<open>shared.rs\<close>), which asks the router (\<open>router.rs\<close>) for the subscribers; the router
  asks the topic tree (\<open>trie.rs\<close>) for the matching filters and a strategy of the plug-in
  \<open>ferromq-shared-subscription\<close> for a member of each shared group. Retained messages are kept in a tree of their own
  (\<open>retain.rs\<close>), messages for clients that are not connected in a store of messages (\<open>ferromq-message-storage\<close>); access rules (\<open>acl.rs\<close>, \<open>ferromq-acl\<close>) decide on publications and subscriptions. Plug-ins take part through hooks (\<open>hook.rs\<close>). In a
  cluster the router is a state machine that Raft replicates (\<open>ferromq-cluster-raft\<close>). A forwarded message goes into the channel of the
  receiving session, from there into its bounded queue (\<open>queue.rs\<close>), and is written to the client with an identifier of the
  outgoing window (\<open>inflight.rs\<close>), where it stays until it is acknowledged.

  \<^bold>\<open>Theories and sources\<close>

  \<^item> \<open>Prelude\<close>: machine integers, bytes, decoders as functions of a cursor with errors and panics as values, association
    lists, and the proof collections of the development.
  \<^item> \<open>Codec_Types\<close>, \<open>Codec_Utils\<close>: \<open>ferromq-codec/src/types.rs\<close>, \<open>error.rs\<close>, \<open>utils.rs\<close>: the primitive types of the wire, the variable
    length and the enumerations with their codes.
  \<^item> \<open>Framing\<close>: the loop \<open>Decoder::decode\<close> of both codecs: header, remaining length, size limit, body.
  \<^item> \<open>Codec_V3\<close>, \<open>V3_Codec\<close>: \<open>v3/\<close>: every packet of MQTT 3.1.1, its size, writer and reader; the codec.
  \<^item> \<open>V5_Common\<close>, \<open>V5_Connect\<close>, \<open>V5_Connack\<close>, \<open>V5_Publish\<close>, \<open>V5_Acks\<close>, \<open>V5_Subscribe\<close>, \<open>V5_Codec\<close>: \<open>v5/\<close>: the same for MQTT 5, with
    properties, the limits of the client and problem information.
  \<^item> \<open>Mqtt_Codec\<close>: \<open>version.rs\<close> and \<open>lib.rs\<close>: the detection of the version and the codec of a connection.
  \<^item> \<open>Topic\<close>, \<open>Trie\<close>: \<open>ferromq/src/topic.rs\<close>, \<open>trie.rs\<close>: levels, filters, the matching rules, the topic tree and its iterator.
  \<^item> \<open>Counters\<close>: \<open>ferromq-utils/src/counter.rs\<close>.
  \<^item> \<open>Broker_Types\<close>, \<open>Session_Subs\<close>: \<open>types.rs\<close> and \<open>ferromq-net/src/error.rs\<close>: identities, messages, options, reasons, extended filters;
    the table of subscriptions of a session, topic aliases in both directions and the writing of a PUBLISH.
  \<^item> \<open>Queue\<close>, \<open>Inflight\<close>, \<open>Delayed\<close>: \<open>queue.rs\<close>, \<open>inflight.rs\<close>, \<open>delayed.rs\<close>.
  \<^item> \<open>Router\<close>, \<open>Shared_Strategies\<close>, \<open>Shared\<close>: \<open>router.rs\<close> and the collector of relations, the strategies for shared groups,
    \<open>shared.rs\<close> with the map of sessions and \<open>subscribe.rs\<close>.
  \<^item> \<open>Session\<close>, \<open>Session_Life\<close>: \<open>session.rs\<close>: the handlers of packets and deliveries; messages of other tasks, takeover, end of the
    connection, last will, the time offline.
  \<^item> \<open>Session_Protocol\<close>, \<open>Session_Agreement\<close>, \<open>Session_Delivery\<close>: what is shown of the session.
  \<^item> \<open>Retain\<close>: \<open>retain.rs\<close> and the memory storage of the plug-in \<open>ferromq-retainer\<close>: the tree of retained messages with expiry.
  \<^item> \<open>Message_Store\<close>, \<open>Message_History\<close>: the memory storage of the plug-in \<open>ferromq-message-storage\<close> (\<open>ram.rs\<close>): its tables, the two
    tasks that fill and clean them, the lookup; histories of operations and their specification.
  \<^item> \<open>Persistence\<close>: \<open>inner_forwards\<close> and \<open>_send_subscribe_messages\<close> of \<open>session.rs\<close>, \<open>forwards\<close> and the loaders of \<open>shared.rs\<close>: a node that
    publishes and serves subscriptions with both stores.
  \<^item> \<open>Cluster_Router\<close>: \<open>router.rs\<close> and \<open>message.rs\<close> of the plug-in \<open>ferromq-cluster-raft\<close>: committed messages, queries, snapshots.
  \<^item> \<open>Acl\<close>: \<open>acl.rs\<close> and the plug-in \<open>ferromq-acl\<close>: rules, their placeholders and the decisions of the hooks.
  \<^item> \<open>Handshake\<close>: \<open>fitter.rs\<close>, the decision of \<open>client_authenticate\<close> of \<open>hook.rs\<close>, \<open>kick\<close> of \<open>shared.rs\<close>, \<open>v3.rs\<close> and \<open>v5.rs\<close>: a connection from
    CONNECT to CONNACK.
  \<^item> \<open>Hooks\<close>: \<open>hook.rs\<close>: the manager of handlers, the registers of plug-ins, all events, the check for expiry; histories of
    registrations and their specification.
  \<^item> \<open>Topic_Rewrite\<close>: the plug-in \<open>ferromq-topic-rewrite\<close>: rules, the tree of rules, rewriting.
  \<^item> \<open>Plugins\<close>: the handlers of \<open>ferromq-acl\<close>, \<open>ferromq-p2p-messaging\<close> and \<open>ferromq-bridge-origin\<close>, and the subscriptions of
    \<open>ferromq-auto-subscription\<close>.

  \<^bold>\<open>How the code is modelled\<close>

  A structure is a record, an enumeration a datatype, an integer of a fixed width a word where its width matters; a
  \<open>usize\<close> is a natural number and a timestamp (an \<open>i64\<close>) an integer. Arithmetic wraps as in a release build. A
  reader returns \<open>Inl (Raised e)\<close> for an error and \<open>Inl Panicked\<close> for a panic, so that freedom from panics is a
  theorem. A hash map is an association list with distinct keys; no theorem depends on its order (the law of the snapshot library
  speaks of the list, but what is restored is only looked up). The numbers of stored messages do not wrap: \<open>next_msg_id\<close> counts in natural
  numbers, the code in an \<open>AtomicUsize\<close>. A panic of the router's matching, which a strategy that answers within the range of its
  candidates excludes (\<open>choice_in_range\<close>), is read by \<open>shared_forwards\<close> and \<open>node_forwards\<close> as no relations. The
  handlers of a session are functions of the state that return a result or an error and the new state: what was
  written or changed before an error stays.

  Code from outside is a parameter: the test for valid UTF-8, the double-ended map of \<open>inflight.rs\<close> (record \<open>deque_ops\<close>, with
  its documented behaviour as \<open>deque_laws\<close>), the random numbers of the strategies, the clock, whether a packet
  can be written, the encoding of stored messages (record \<open>store_lib\<close>, with \<open>codec_ok\<close>), the encoding and compression of
  snapshots (record \<open>snap_lib\<close>, with \<open>snap_ok\<close>), the log of committed messages that Raft delivers, the groups that a regular expression
  captures, the handlers of plug-ins that are not modelled, and the answers of hooks and plug-ins (record \<open>session_env\<close>), which may differ from event to event.

  Interfaces are locales that are interpreted on the model: items of the wire that can be written and read back (\<open>reader\<close>,
  \<open>wire_value\<close>, \<open>prim_enum\<close>), packets with a size limit (\<open>limited_packet\<close>), a packet codec inside a frame (\<open>framing\<close>), the topic tree as
  its clients see it (\<open>topic_store\<close>), a state that depends on committed messages only (\<open>replica\<close>), and properties that the handlers of a session keep (\<open>session_invariant\<close>, \<open>packet_invariant\<close>).

  Most functions are total with a proof of termination. The loops that take entries out of a parameter have fuel one
  more than the number of entries (\<open>queue_drain\<close>, \<open>drop_window\<close>, \<open>sweep_round\<close>), or the number of identifiers (\<open>next_id_loop\<close>, 65535); that this
  suffices is proved where a result is claimed.

  \<^bold>\<open>What is shown\<close>

  \<^item> Codec: what is written for a well-formed packet is read back, however it is cut into reads; sizes and limits;
    errors; no input makes the reader panic; the version is detected from the first packet.
  \<^item> Topics: parsing and printing are inverse; the tree is a map from filters to sets and its iterator yields exactly the matches of
    the standard.
  \<^item> Routing: the router returns exactly the subscribers that the standard names; publication appends to exactly their
    channels; router, tables and statistics agree after any sequence of operations.
  \<^item> Session: QoS 2 is exactly once, acknowledgement, fresh identifiers, tracked delivery, retransmission that ends, takeover without
    loss of an unexpired message, last will at most once.
  \<^item> Connections: what an accepted connection is told and owns, what a refused one leaves unchanged, and that after a takeover
    the router and the tables of the sessions agree.
  \<^item> Retained messages: a lookup returns exactly the last unexpired messages of the matching names.
  \<^item> Stored messages: the store answers as a map from which nothing is removed, although a task removes expired messages; a
    message that was marked for a client is not found by it again; a round of removals with a positive limit ends. A subscription is sent the
    retained and the stored messages that are due, and what a client was sent when it was published is not sent again if its mark reached the store.
  \<^item> Cluster: the routing table is a function of the committed messages, the lock of a handshake is exclusive, a restored snapshot gives
    the same state.
  \<^item> Hooks: an event calls exactly the started handlers in the order of their priority; a stopped plug-in is as if it were absent; the access rules,
    registered first, decide alone; what the check for expiry announces; which rule rewrites a topic; a message for one client reaches only
    this client.
  \<^item> Access rules: the first rule that concerns an operation decides; the placeholders of one client do not change the rights of
    another and are gone when it has disconnected.
  \<^item> Deviations of the code from its documentation or from the standard are theorems or cases of theorems too, where they concern a definition
    here: a wildcard that matches a topic with a dollar sign, an alias that is lost, a race of unsubscribing and subscribing, a keep-alive
    that is refused after the eviction, a full storage that refuses deletions, a message store that drops unexpired messages and finds names that a filter with \<open>+/#\<close> does not match, a stored copy that follows the retained
    copy, states of clients that depend on the clock of a node, an expiry that is lost in the last second, a retain handling that is written wrongly, a restored node that keeps old filters, access rules that wildcards and exact
    placeholders escape.

  \<^bold>\<open>Not modelled\<close>

  \<^item> The event loop of a session (\<open>tokio::select!\<close>), timers, tasks and channels: an event is one call of a handler. What
    an evicted session does while it is waited for is a parameter; the race of the router is the only interleaving inside an operation.
  \<^item> Bytes that a failing writer leaves in the buffer; JSON (also of access rules), \<open>serde\<close>, \<open>Debug\<close> and \<open>Display\<close> of types.
  \<^item> The floating-point factor of the keep-alive, which is a parameter; reading CONNECT from a socket, overload and handshake time limits.
  \<^item> Databases of plug-ins (also of retained and stored messages), raft and the rest of the cluster (proposals with retries, calls between nodes), the HTTP interface, bridges, the network
    layer (sockets, TLS, WebSocket), configuration, macros: input and output, or code that only connects libraries.
\<close>

end
